(* ===== verification/Prelude.thy ===== *)
theory Prelude
  imports Main "HOL-Library.Multiset" "HOL-Library.Char_ord" "HOL-Library.List_Lexorder"
begin

text \<open>
  What every component shares: the two ways a Go function can fail to return a value (an
  \<open>error\<close> and a panic), the sequencing of such computations, the pieces of Go's standard
  library the code calls (\<open>strconv\<close>, \<open>fmt\<close>'s \<open>%q\<close>, \<open>slices.SortStableFunc\<close>, calendar
  dates), and the named collections that the component proofs add to the simplifier.
\<close>

named_theorems go_simps \<open>equations of the Go run-time fragments\<close>
named_theorems res_elims \<open>inversion of results\<close>
named_theorems panic_simps \<open>where a computation may panic\<close>

section \<open>Results\<close>

text \<open>
  \<open>SysErr\<close> is a non-nil Go \<open>error\<close> with its text, \<open>Panic\<close> a run-time panic (a nil
  dereference, a failed type assertion, an explicit \<open>panic\<close>).
\<close>

datatype go_error = SysErr string | Panic string

type_synonym 'a result = "go_error + 'a"

definition rbind :: "'a result \<Rightarrow> ('a \<Rightarrow> 'b result) \<Rightarrow> 'b result" where
  "rbind m f = (case m of Inl e \<Rightarrow> Inl e | Inr x \<Rightarrow> f x)"

lemma rbind_Inl [simp, go_simps]: "rbind (Inl e) f = Inl e"
  by (simp add: rbind_def)

lemma rbind_Inr [simp, go_simps]: "rbind (Inr x) f = f x"
  by (simp add: rbind_def)

lemma rbind_eq_Inr [simp]: "rbind m f = Inr y \<longleftrightarrow> (\<exists>x. m = Inr x \<and> f x = Inr y)"
  by (cases m) auto

lemma rbind_eq_Inl: "rbind m f = Inl e \<longleftrightarrow> m = Inl e \<or> (\<exists>x. m = Inr x \<and> f x = Inl e)"
  by (cases m) auto

lemma rbind_InrE [elim, res_elims]:
  assumes "rbind m f = Inr y"
  obtains x where "m = Inr x" and "f x = Inr y"
  using assms by auto

lemma rbind_cong [fundef_cong]:
  "m = m' \<Longrightarrow> (\<And>x. m' = Inr x \<Longrightarrow> f x = g x) \<Longrightarrow> rbind m f = rbind m' g"
  by (cases m') auto

text \<open>The layer of user findings inside a result.\<close>

lemma case_finding_Inr:
  "(case r of Inl f \<Rightarrow> Inl (h f) | Inr x \<Rightarrow> k x) = Inr y \<longleftrightarrow> (\<exists>x. r = Inr x \<and> k x = Inr y)"
  "(case r of Inl f \<Rightarrow> Inr (Inl (g f)) | Inr x \<Rightarrow> l x) = Inr (Inr z) \<longleftrightarrow>
     (\<exists>x. r = Inr x \<and> l x = Inr (Inr z))"
  by (cases r; simp)+

definition is_panic :: "'a result \<Rightarrow> bool" where
  "is_panic r = (case r of Inl (Panic _) \<Rightarrow> True | _ \<Rightarrow> False)"

lemma is_panic_simps [simp]:
  "\<not> is_panic (Inr x)" "\<not> is_panic (Inl (SysErr s))" "is_panic (Inl (Panic s))"
  by (simp_all add: is_panic_def)

lemma is_panic_cases [panic_simps]:
  "is_panic (if b then x else y) \<longleftrightarrow> b \<and> is_panic x \<or> \<not> b \<and> is_panic y"
  "is_panic (case p of (a, c) \<Rightarrow> f a c) \<longleftrightarrow> is_panic (f (fst p) (snd p))"
  "is_panic (case z of None \<Rightarrow> x | Some v \<Rightarrow> g v) \<longleftrightarrow>
     z = None \<and> is_panic x \<or> (\<exists>v. z = Some v \<and> is_panic (g v))"
  "is_panic (case s of Inl l \<Rightarrow> h l | Inr r \<Rightarrow> k r) \<longleftrightarrow>
     (\<exists>l. s = Inl l \<and> is_panic (h l)) \<or> (\<exists>r. s = Inr r \<and> is_panic (k r))"
  by (auto split: prod.splits option.splits sum.splits)

lemma is_panic_rbind [panic_simps]:
  "is_panic (rbind m f) \<longleftrightarrow> is_panic m \<or> (\<exists>x. m = Inr x \<and> is_panic (f x))"
  by (cases m) (auto simp: is_panic_def)

text \<open>\<open>fmt.Errorf("ctx: %w", err)\<close>: the text of the cause behind a prefix.\<close>

definition wrap_err :: "string \<Rightarrow> (string + 'a) \<Rightarrow> 'a result" where
  "wrap_err ctx r = (case r of Inl e \<Rightarrow> Inl (SysErr (ctx @ '': '' @ e)) | Inr x \<Rightarrow> Inr x)"

definition plain_err :: "(string + 'a) \<Rightarrow> 'a result" where
  "plain_err r = (case r of Inl e \<Rightarrow> Inl (SysErr e) | Inr x \<Rightarrow> Inr x)"

definition rewrap :: "string \<Rightarrow> 'a result \<Rightarrow> 'a result" where
  "rewrap ctx r = (case r of Inl (SysErr e) \<Rightarrow> Inl (SysErr (ctx @ '': '' @ e)) | _ \<Rightarrow> r)"

lemma wrap_err_eq_Inr [simp]: "wrap_err ctx r = Inr x \<longleftrightarrow> r = Inr x"
  by (cases r) (auto simp: wrap_err_def)

lemma plain_err_eq_Inr [simp]: "plain_err r = Inr x \<longleftrightarrow> r = Inr x"
  by (cases r) (auto simp: plain_err_def)

lemma rewrap_eq_Inr [simp]: "rewrap ctx r = Inr x \<longleftrightarrow> r = Inr x"
  by (auto simp: rewrap_def split: sum.splits go_error.splits)

lemma wrap_err_Inr [simp, go_simps]: "wrap_err ctx (Inr x) = Inr x"
  by (simp add: wrap_err_def)

lemma plain_err_Inr [simp, go_simps]: "plain_err (Inr x) = Inr x"
  by (simp add: plain_err_def)

lemma rewrap_Inr [simp, go_simps]: "rewrap ctx (Inr x) = Inr x"
  by (simp add: rewrap_def)

lemma wrap_err_no_panic [simp]: "\<not> is_panic (wrap_err ctx r)"
  by (cases r) (auto simp: wrap_err_def)

lemma plain_err_no_panic [simp]: "\<not> is_panic (plain_err r)"
  by (cases r) (auto simp: plain_err_def)

lemma rewrap_panic [simp]: "is_panic (rewrap ctx r) = is_panic r"
  by (auto simp: rewrap_def is_panic_def split: sum.splits go_error.splits)

text \<open>Reading through a pointer that may be nil.\<close>

definition deref :: "'a option \<Rightarrow> 'a result" where
  "deref x = (case x of None \<Rightarrow> Inl (Panic ''nil pointer dereference'') | Some v \<Rightarrow> Inr v)"

lemma deref_simps [simp]: "deref (Some v) = Inr v" "deref x = Inr v \<longleftrightarrow> x = Some v"
  "is_panic (deref x) \<longleftrightarrow> x = None"
  by (auto simp: deref_def split: option.splits)

section \<open>Text\<close>

text \<open>\<open>%d\<close> and \<open>%q\<close> (for the printable ASCII texts the ledger's names are made of;
  other bytes pass through unchanged).\<close>

fun show_nat :: "nat \<Rightarrow> string" where
  "show_nat n =
     (if n < 10 then [char_of (48 + n)] else show_nat (n div 10) @ [char_of (48 + n mod 10)])"

declare show_nat.simps [simp del]

definition show_int :: "int \<Rightarrow> string" where
  "show_int i = (if i < 0 then CHR ''-'' # show_nat (nat (- i)) else show_nat (nat i))"

definition quote_char :: "char \<Rightarrow> string" where
  "quote_char c =
     (if c = CHR 0x22 then [CHR 0x5C, CHR 0x22]
      else if c = CHR 0x5C then [CHR 0x5C, CHR 0x5C]
      else if c = CHR 0x0A then [CHR 0x5C, CHR ''n'']
      else if c = CHR 0x09 then [CHR 0x5C, CHR ''t'']
      else if c = CHR 0x0D then [CHR 0x5C, CHR ''r'']
      else [c])"

definition go_quote :: "string \<Rightarrow> string" where
  "go_quote s = CHR 0x22 # concat (map quote_char s) @ [CHR 0x22]"

fun join_with :: "string \<Rightarrow> string list \<Rightarrow> string" where
  "join_with sep [] = []"
| "join_with sep [x] = x"
| "join_with sep (x # xs) = x @ sep @ join_with sep xs"

text \<open>\<open>strings.Split(s, sep)\<close> for a one-byte separator.\<close>

fun split_on :: "char \<Rightarrow> string \<Rightarrow> string list" where
  "split_on c [] = [[]]"
| "split_on c (x # xs) =
     (if x = c then [] # split_on c xs
      else (case split_on c xs of [] \<Rightarrow> [[x]] | w # ws \<Rightarrow> (x # w) # ws))"

lemma split_on_ne [simp]: "split_on c s \<noteq> []"
  by (induction s) (auto split: list.splits)

lemma join_with_Cons: "xs \<noteq> [] \<Longrightarrow> join_with sep (x # xs) = x @ sep @ join_with sep xs"
  by (cases xs) auto

lemma join_split: "join_with [c] (split_on c s) = s"
proof (induction s)
  case Nil
  then show ?case by simp
next
  case (Cons x xs)
  obtain w ws where w: "split_on c xs = w # ws"
    by (cases "split_on c xs") auto
  with Cons show ?case
    by (cases ws) (auto simp: join_with_Cons)
qed

section \<open>Dates\<close>

text \<open>
  A \<open>time.Time\<close> of a ledger is always midnight UTC of a calendar day; it is modelled by the
  number of days since 0001-01-01, so that the zero \<open>time.Time\<close> is 0, \<open>Equal\<close>, \<open>Before\<close>,
  \<open>After\<close> and \<open>Compare\<close> are those of the integers, and \<open>IsZero\<close> is equality with 0.
\<close>

type_synonym time = int

definition zero_time :: time where
  "zero_time = 0"

text \<open>\<open>Time.Date()\<close>: the proleptic Gregorian year, month and day of a day number, by eras of
  400 years counted from March.\<close>

definition civil :: "time \<Rightarrow> int \<times> int \<times> int" where
  "civil t =
     (let z = t + 306;
          era = z div 146097;
          doe = z mod 146097;
          yoe = (doe - doe div 1460 + doe div 36524 - doe div 146096) div 365;
          doy = doe - (365 * yoe + yoe div 4 - yoe div 100);
          mp = (5 * doy + 2) div 153;
          d = doy - (153 * mp + 2) div 5 + 1;
          m = (if mp < 10 then mp + 3 else mp - 9);
          y = yoe + era * 400 + (if m \<le> 2 then 1 else 0)
      in (y, m, d))"

definition pad_zero :: "nat \<Rightarrow> string \<Rightarrow> string" where
  "pad_zero n s = replicate (n - length s) (CHR ''0'') @ s"

definition format_date :: "time \<Rightarrow> string" where
  "format_date t =
     (case civil t of (y, m, d) \<Rightarrow>
        pad_zero 4 (show_int y) @ ''-'' @ pad_zero 2 (show_int m) @ ''-'' @ pad_zero 2 (show_int d))"

definition time_compare :: "time \<Rightarrow> time \<Rightarrow> int" where
  "time_compare a b = (if a < b then -1 else if b < a then 1 else 0)"

text \<open>\<open>cmp.Compare\<close> on an ordered type.\<close>

definition cmp_compare :: "'a::linorder \<Rightarrow> 'a \<Rightarrow> int" where
  "cmp_compare a b = (if a < b then -1 else if b < a then 1 else 0)"

lemma cmp_compare_0 [simp]: "cmp_compare a b = 0 \<longleftrightarrow> a = b"
  by (auto simp: cmp_compare_def)

lemma cmp_compare_sign:
  "cmp_compare a b < 0 \<longleftrightarrow> a < b" "cmp_compare a b > 0 \<longleftrightarrow> b < a"
  "cmp_compare a b \<le> 0 \<longleftrightarrow> a \<le> b"
  by (auto simp: cmp_compare_def)

lemma time_compare_cmp: "time_compare a b = cmp_compare a b"
  by (simp add: time_compare_def cmp_compare_def)

section \<open>Stable sorting\<close>

text \<open>\<open>slices.SortStableFunc(xs, c)\<close>: a stable sort with a three-way comparison function.\<close>

fun insert_by :: "('a \<Rightarrow> 'a \<Rightarrow> int) \<Rightarrow> 'a \<Rightarrow> 'a list \<Rightarrow> 'a list" where
  "insert_by c x [] = [x]"
| "insert_by c x (y # ys) = (if c x y \<le> 0 then x # y # ys else y # insert_by c x ys)"

fun sort_stable :: "('a \<Rightarrow> 'a \<Rightarrow> int) \<Rightarrow> 'a list \<Rightarrow> 'a list" where
  "sort_stable c [] = []"
| "sort_stable c (x # xs) = insert_by c x (sort_stable c xs)"

lemma mset_insert_by [simp]: "mset (insert_by c x ys) = add_mset x (mset ys)"
  by (induction ys) auto

lemma mset_sort_stable [simp]: "mset (sort_stable c xs) = mset xs"
  by (induction xs) auto

lemma set_sort_stable [simp]: "set (sort_stable c xs) = set xs"
  by (metis mset_sort_stable set_mset_mset)

lemma length_sort_stable [simp]: "length (sort_stable c xs) = length xs"
  by (metis mset_sort_stable size_mset)

lemma distinct_sort_stable [simp]: "distinct (sort_stable c xs) = distinct xs"
  by (metis mset_sort_stable mset_eq_imp_distinct_iff)

text \<open>The contract a comparison function has to meet for the result to be sorted by it.\<close>

locale comparator =
  fixes c :: "'a \<Rightarrow> 'a \<Rightarrow> int"
  assumes swap: "c y x = - c x y"
    and trans: "c x y \<le> 0 \<Longrightarrow> c y z \<le> 0 \<Longrightarrow> c x z \<le> 0"
begin

lemma sorted_insert_by:
  "sorted_wrt (\<lambda>a b. c a b \<le> 0) ys \<Longrightarrow> sorted_wrt (\<lambda>a b. c a b \<le> 0) (insert_by c x ys)"
proof (induction ys)
  case Nil
  then show ?case by simp
next
  case (Cons y ys)
  have "set (insert_by c x ys) = insert x (set ys)"
    by (metis mset_insert_by set_mset_add_mset_insert set_mset_mset)
  moreover have "c x y \<le> 0 \<or> c y x \<le> 0"
    using swap [of x y] by linarith
  ultimately show ?case
    using Cons by (auto intro: trans)
qed

lemma sorted_sort_stable: "sorted_wrt (\<lambda>a b. c a b \<le> 0) (sort_stable c xs)"
  by (induction xs) (auto intro: sorted_insert_by)

lemma refl: "c x x = 0"
  using swap [of x x] by linarith

lemma less_trans1: "c x y \<le> 0 \<Longrightarrow> c y z < 0 \<Longrightarrow> c x z < 0"
  using trans [of x y z] trans [of z x y] swap [of x z] swap [of y z] by linarith

lemma less_trans2: "c x y < 0 \<Longrightarrow> c y z \<le> 0 \<Longrightarrow> c x z < 0"
  using trans [of x y z] trans [of y z x] swap [of x z] swap [of x y] by linarith

end

text \<open>Comparing by a key of a linear order is such a function.\<close>

lemma comparator_key: "comparator (\<lambda>x y. cmp_compare (f x) (f y))"
  by unfold_locales (auto simp: cmp_compare_def split: if_splits)

text \<open>Comparing by a second function where the first says equal.\<close>

definition then_by :: "('a \<Rightarrow> 'a \<Rightarrow> int) \<Rightarrow> ('a \<Rightarrow> 'a \<Rightarrow> int) \<Rightarrow> 'a \<Rightarrow> 'a \<Rightarrow> int" where
  "then_by c d x y = (let r = c x y in if r \<noteq> 0 then r else d x y)"

lemma comparator_then_by:
  assumes c: "comparator c" and d: "comparator d"
  shows "comparator (then_by c d)"
proof unfold_locales
  fix x y z
  show "then_by c d y x = - then_by c d x y"
    using comparator.swap [OF c, of x y] comparator.swap [OF d, of x y]
    by (simp add: then_by_def Let_def)
  assume xy: "then_by c d x y \<le> 0" and yz: "then_by c d y z \<le> 0"
  then have le: "c x y \<le> 0" "c y z \<le> 0"
    by (auto simp: then_by_def Let_def split: if_splits)
  show "then_by c d x z \<le> 0"
  proof (cases "c x y = 0 \<and> c y z = 0")
    case True
    with xy yz have "d x z \<le> 0"
      by (auto simp: then_by_def intro: comparator.trans [OF d])
    with comparator.trans [OF c le] show ?thesis
      by (simp add: then_by_def Let_def)
  next
    case False
    with le have "c x z < 0"
      using comparator.less_trans1 [OF c le(1)] comparator.less_trans2 [OF c _ le(2)] by force
    then show ?thesis
      by (simp add: then_by_def Let_def)
  qed
qed

interpretation string_order: comparator "cmp_compare :: string \<Rightarrow> string \<Rightarrow> int"
  by unfold_locales (auto simp: cmp_compare_def split: if_splits)

definition sort_strings :: "string list \<Rightarrow> string list" where
  "sort_strings = sort_stable cmp_compare"

lemma sorted_sort_strings: "sorted (sort_strings xs)"
  using string_order.sorted_sort_stable [of xs]
  by (simp add: sort_strings_def cmp_compare_sign)

lemma set_sort_strings [simp]: "set (sort_strings xs) = set xs"
  by (simp add: sort_strings_def)

section \<open>Lists\<close>

lemma find_SomeD: "find P xs = Some x \<Longrightarrow> P x \<and> x \<in> set xs"
  by (auto simp: find_Some_iff)

lemma sum_list_map_if_index:
  fixes g :: "'a \<Rightarrow> 'b::ab_group_add"
  assumes "i < length xs"
  shows "sum_list (map g (xs[i := y])) = sum_list (map g xs) - g (xs ! i) + g y"
  using assms
proof (induction xs arbitrary: i)
  case Nil
  then show ?case by simp
next
  case (Cons x xs)
  then show ?case by (cases i) (auto simp: algebra_simps)
qed

end
