(* ===== verification/Decimal.thy ===== *)
theory Decimal
  imports Prelude Complex_Main
begin

text \<open>
  Decimal numbers. The program computes with \<open>apd.Decimal\<close> of the package
  \<open>github.com/cockroachdb/apd/v3\<close>, which is not part of the repository: the fields of the struct
  that the code reads and writes are the record \<open>decimal\<close>, the operations it calls are the
  fields of the record \<open>apd\<close>, an argument \<open>A\<close> of every definition that computes, and what the
  code relies on is the locale \<open>apd_exact\<close> (a returned number is the exact one) with its
  extension \<open>apd_total\<close> (exact operations return). The grammar and the code only build finite
  numbers, so the struct's \<open>Form\<close> is left out. \<open>gda\<close>, exact decimal arithmetic, meets both.
\<close>

section \<open>The struct and the operations\<close>

record decimal =
  d_neg :: bool
  d_coeff :: nat
  d_exp :: int

definition dec :: "bool \<Rightarrow> nat \<Rightarrow> int \<Rightarrow> decimal" where
  "dec n c e = \<lparr>d_neg = n, d_coeff = c, d_exp = e\<rparr>"

lemma dec_sels [simp]: "d_neg (dec n c e) = n" "d_coeff (dec n c e) = c" "d_exp (dec n c e) = e"
  by (simp_all add: dec_def)

text \<open>The zero value of the struct, and a shorthand for whole numbers.\<close>

definition dzero :: decimal where
  "dzero = dec False 0 0"

definition of_whole :: "int \<Rightarrow> decimal" where
  "of_whole i = dec (i < 0) (nat \<bar>i\<bar>) 0"

text \<open>Context operations return their text of an error or the value; \<open>apd_quo\<close> also returns the
  \<open>Inexact\<close> condition. The first argument of the last three is the context's precision.\<close>

record apd =
  apd_add :: "decimal \<Rightarrow> decimal \<Rightarrow> string + decimal"
  apd_sub :: "decimal \<Rightarrow> decimal \<Rightarrow> string + decimal"
  apd_mul :: "decimal \<Rightarrow> decimal \<Rightarrow> string + decimal"
  apd_neg :: "decimal \<Rightarrow> string + decimal"
  apd_abs :: "decimal \<Rightarrow> string + decimal"
  apd_cmp :: "decimal \<Rightarrow> decimal \<Rightarrow> int"
  apd_sign :: "decimal \<Rightarrow> int"
  apd_is_zero :: "decimal \<Rightarrow> bool"
  apd_text :: "decimal \<Rightarrow> string"
  apd_quo :: "nat \<Rightarrow> decimal \<Rightarrow> decimal \<Rightarrow> string + (decimal \<times> bool)"
  apd_reduce :: "nat \<Rightarrow> decimal \<Rightarrow> string + decimal"
  apd_quantize :: "nat \<Rightarrow> decimal \<Rightarrow> int \<Rightarrow> string + decimal"
  apd_parse :: "string \<Rightarrow> string + decimal"

text \<open>The number a decimal denotes.\<close>

definition pow10 :: "int \<Rightarrow> rat" where
  "pow10 e = (if 0 \<le> e then 10 ^ nat e else 1 / 10 ^ nat (- e))"

definition dval :: "decimal \<Rightarrow> rat" where
  "dval d = (if d_neg d then - 1 else 1) * of_nat (d_coeff d) * pow10 (d_exp d)"

lemma pow10_pos [simp]: "0 < pow10 e"
  by (simp add: pow10_def)

lemma pow10_nz [simp]: "pow10 e \<noteq> 0"
  by (simp add: pow10_def)

lemma pow10_sign [simp]: "0 \<le> pow10 e" "\<not> pow10 e < 0" "\<not> pow10 e \<le> 0" "\<bar>pow10 e\<bar> = pow10 e"
  by (simp_all add: less_imp_le not_less not_le)

lemma pow10_powi: "pow10 e = 10 powi e"
  by (simp add: pow10_def power_int_def field_simps)

lemma pow10_add: "pow10 (a + b) = pow10 a * pow10 b"
  by (simp add: pow10_powi power_int_add)

lemma pow10_diff: "pow10 (a - b) = pow10 a / pow10 b"
  by (simp add: pow10_powi power_int_diff)

lemma pow10_nat: "0 \<le> e \<Longrightarrow> pow10 e = 10 ^ nat e"
  by (simp add: pow10_def)

lemma dval_dzero [simp]: "dval dzero = 0"
  by (simp add: dval_def dzero_def)

lemma dval_of_whole [simp]: "dval (of_whole i) = of_int i"
  by (simp add: dval_def of_whole_def pow10_def abs_if)

lemma dval_eq_0: "dval d = 0 \<longleftrightarrow> d_coeff d = 0"
  by (simp add: dval_def)

lemma dval_set_neg: "dval (d\<lparr>d_neg := b\<rparr>) = (if b then - \<bar>dval d\<bar> else \<bar>dval d\<bar>)"
  by (simp add: dval_def abs_mult)

lemma dval_sign_neg: "\<not> d_neg d \<Longrightarrow> 0 \<le> dval d" "d_neg d \<Longrightarrow> dval d \<le> 0"
  by (simp_all add: dval_def)

lemma dval_neg_flag: "dval d < 0 \<Longrightarrow> d_neg d" "0 < dval d \<Longrightarrow> \<not> d_neg d"
  using dval_sign_neg [of d] by (cases "d_neg d"; simp)+

section \<open>What the code relies on\<close>

locale apd_exact =
  fixes A :: apd
  assumes add_val: "apd_add A x y = Inr z \<Longrightarrow> dval z = dval x + dval y"
    and sub_val: "apd_sub A x y = Inr z \<Longrightarrow> dval z = dval x - dval y"
    and mul_val: "apd_mul A x y = Inr z \<Longrightarrow> dval z = dval x * dval y"
    and neg_val: "apd_neg A x = Inr z \<Longrightarrow> dval z = - dval x"
    and abs_val: "apd_abs A x = Inr z \<Longrightarrow> dval z = \<bar>dval x\<bar>"
    and cmp_val: "apd_cmp A x y = (if dval x < dval y then -1 else if dval x = dval y then 0 else 1)"
    and sign_val: "apd_sign A x = (if dval x < 0 then -1 else if dval x = 0 then 0 else 1)"
    and is_zero_val: "apd_is_zero A x \<longleftrightarrow> dval x = 0"
    and quo_nz: "apd_quo A p x y = Inr r \<Longrightarrow> dval y \<noteq> 0"
    and quo_val: "apd_quo A p x y = Inr (q, False) \<Longrightarrow> dval q = dval x / dval y"
    and reduce_val: "apd_reduce A p x = Inr z \<Longrightarrow> dval z = dval x"
    and quantize_val: "apd_quantize A p x e = Inr z \<Longrightarrow> e \<le> d_exp x \<Longrightarrow>
      dval z = dval x \<and> d_exp z = e"
begin

lemmas exact_vals = add_val sub_val mul_val neg_val abs_val

lemma cmp_0 [simp]: "apd_cmp A x y = 0 \<longleftrightarrow> dval x = dval y"
  by (simp add: cmp_val)

lemma cmp_less [simp]: "apd_cmp A x y < 0 \<longleftrightarrow> dval x < dval y"
  by (simp add: cmp_val)

lemma cmp_greater [simp]: "0 < apd_cmp A x y \<longleftrightarrow> dval y < dval x"
  by (auto simp: cmp_val)

lemma cmp_ge [simp]: "0 \<le> apd_cmp A x y \<longleftrightarrow> dval y \<le> dval x"
  by (auto simp: cmp_val)

lemma cmp_le [simp]: "apd_cmp A x y \<le> 0 \<longleftrightarrow> dval x \<le> dval y"
  by (auto simp: cmp_val)

lemma sign_0 [simp]: "apd_sign A x = 0 \<longleftrightarrow> dval x = 0"
  by (simp add: sign_val)

lemma sign_ge [simp]: "0 \<le> apd_sign A x \<longleftrightarrow> 0 \<le> dval x"
  by (auto simp: sign_val)

lemma sign_less [simp]: "apd_sign A x < 0 \<longleftrightarrow> dval x < 0"
  by (auto simp: sign_val)

lemma sign_eq: "apd_sign A x = apd_sign A y \<longleftrightarrow> sgn (dval x) = sgn (dval y)"
  by (auto simp: sign_val sgn_if)

end

locale apd_total = apd_exact +
  assumes add_total: "\<exists>z. apd_add A x y = Inr z"
    and sub_total: "\<exists>z. apd_sub A x y = Inr z"
    and mul_total: "\<exists>z. apd_mul A x y = Inr z"
    and neg_total: "\<exists>z. apd_neg A x = Inr z"
    and abs_total: "\<exists>z. apd_abs A x = Inr z"
begin

lemmas totals = add_total sub_total mul_total neg_total abs_total

end

end
