(* ===== verification/Gda.thy ===== *)
theory Gda
  imports Decimal
begin

text \<open>
  Exact decimal arithmetic on the fields of \<open>decimal\<close>, in the manner of the General Decimal
  Arithmetic specification that \<open>apd\<close> implements: sums at the smaller exponent, products at the
  sum of the exponents, quotients exact whenever \<open>p\<close> further digits suffice. It shows that the
  hypotheses \<open>apd_exact\<close> and \<open>apd_total\<close> can hold, and it is the arithmetic the concrete
  examples run on.
\<close>

definition dint :: "decimal \<Rightarrow> int" where
  "dint d = (if d_neg d then - int (d_coeff d) else int (d_coeff d))"

definition mk :: "int \<Rightarrow> int \<Rightarrow> decimal" where
  "mk i e = dec (i < 0) (nat \<bar>i\<bar>) e"

definition scaled :: "decimal \<Rightarrow> int \<Rightarrow> int" where
  "scaled d e = dint d * 10 ^ nat (d_exp d - e)"

lemma dval_mk [simp]: "dval (mk i e) = of_int i * pow10 e"
  by (simp add: mk_def dval_def)

lemma d_exp_mk [simp]: "d_exp (mk i e) = e"
  by (simp add: mk_def)

lemma dval_dint: "dval d = of_int (dint d) * pow10 (d_exp d)"
  by (simp add: dval_def dint_def)

lemma dval_scaled: "e \<le> d_exp d \<Longrightarrow> dval d = of_int (scaled d e) * pow10 e"
  using pow10_add [of e "d_exp d - e"]
  by (simp add: dval_dint scaled_def pow10_nat [of "d_exp d - e"])

definition gda_add :: "decimal \<Rightarrow> decimal \<Rightarrow> string + decimal" where
  "gda_add x y =
     (let e = min (d_exp x) (d_exp y) in Inr (mk (scaled x e + scaled y e) e))"

definition gda_sub :: "decimal \<Rightarrow> decimal \<Rightarrow> string + decimal" where
  "gda_sub x y =
     (let e = min (d_exp x) (d_exp y) in Inr (mk (scaled x e - scaled y e) e))"

definition gda_mul :: "decimal \<Rightarrow> decimal \<Rightarrow> string + decimal" where
  "gda_mul x y = Inr (mk (dint x * dint y) (d_exp x + d_exp y))"

definition gda_neg :: "decimal \<Rightarrow> string + decimal" where
  "gda_neg x = Inr (mk (- dint x) (d_exp x))"

definition gda_abs :: "decimal \<Rightarrow> string + decimal" where
  "gda_abs x = Inr (mk \<bar>dint x\<bar> (d_exp x))"

definition gda_cmp :: "decimal \<Rightarrow> decimal \<Rightarrow> int" where
  "gda_cmp x y =
     (let e = min (d_exp x) (d_exp y); a = scaled x e; b = scaled y e
      in if a < b then -1 else if a = b then 0 else 1)"

definition gda_sign :: "decimal \<Rightarrow> int" where
  "gda_sign x = sgn (dint x)"

definition gda_is_zero :: "decimal \<Rightarrow> bool" where
  "gda_is_zero x \<longleftrightarrow> d_coeff x = 0"

definition quo_sign :: "decimal \<Rightarrow> decimal \<Rightarrow> int" where
  "quo_sign x y = (if d_neg x = d_neg y then 1 else -1)"

definition gda_quo :: "nat \<Rightarrow> decimal \<Rightarrow> decimal \<Rightarrow> string + (decimal \<times> bool)" where
  "gda_quo p x y =
     (if d_coeff y = 0 then Inl ''division by zero''
      else (case find (\<lambda>k. d_coeff x * 10 ^ k mod d_coeff y = 0) [0..<Suc p] of
              Some k \<Rightarrow> Inr (mk (quo_sign x y * int (d_coeff x * 10 ^ k div d_coeff y))
                               (d_exp x - d_exp y - int k), False)
            | None \<Rightarrow> Inr (mk (quo_sign x y * int (d_coeff x * 10 ^ p div d_coeff y))
                            (d_exp x - d_exp y - int p), True)))"

fun strip_zeros :: "nat \<Rightarrow> int \<Rightarrow> nat \<times> int" where
  "strip_zeros c e =
     (if c \<noteq> 0 \<and> c mod 10 = 0 then strip_zeros (c div 10) (e + 1) else (c, e))"

declare strip_zeros.simps [simp del]

definition gda_reduce :: "nat \<Rightarrow> decimal \<Rightarrow> string + decimal" where
  "gda_reduce p x = (case strip_zeros (d_coeff x) (d_exp x) of (c, e) \<Rightarrow> Inr (dec (d_neg x) c e))"

definition gda_quantize :: "nat \<Rightarrow> decimal \<Rightarrow> int \<Rightarrow> string + decimal" where
  "gda_quantize p x e =
     (if e \<le> d_exp x then Inr (mk (scaled x e) e)
      else let k = nat (e - d_exp x)
           in Inr (dec (d_neg x) ((d_coeff x + 5 * 10 ^ (k - 1)) div 10 ^ k) e))"

definition gda_text :: "decimal \<Rightarrow> string" where
  "gda_text x =
     (if d_neg x then ''-'' else []) @
     (if 0 \<le> d_exp x then show_nat (d_coeff x * 10 ^ nat (d_exp x))
      else let k = nat (- d_exp x); s = pad_zero (Suc k) (show_nat (d_coeff x))
           in take (length s - k) s @ ''.'' @ drop (length s - k) s)"

fun digits_val :: "nat \<Rightarrow> string \<Rightarrow> nat option" where
  "digits_val n [] = Some n"
| "digits_val n (c # cs) =
     (if CHR ''0'' \<le> c \<and> c \<le> CHR ''9'' then digits_val (10 * n + (of_char c - 48)) cs else None)"

text \<open>An optional sign, digits, and optionally a point and more digits.\<close>

definition gda_parse :: "string \<Rightarrow> string + decimal" where
  "gda_parse s =
     (let (neg, u) = (case s of c # cs \<Rightarrow> if c = CHR ''-'' then (True, cs)
                         else if c = CHR ''+'' then (False, cs) else (False, s) | [] \<Rightarrow> (False, s));
          parts = split_on (CHR ''.'') u;
          digits = concat parts;
          e = (if length parts = 2 then - int (length (parts ! 1)) else 0)
      in if digits = [] \<or> 2 < length parts then Inl ''parse error''
         else (case digits_val 0 digits of None \<Rightarrow> Inl ''parse error'' | Some n \<Rightarrow> Inr (dec neg n e)))"

definition gda :: apd where
  "gda = \<lparr>apd_add = gda_add, apd_sub = gda_sub, apd_mul = gda_mul, apd_neg = gda_neg,
     apd_abs = gda_abs, apd_cmp = gda_cmp, apd_sign = gda_sign, apd_is_zero = gda_is_zero,
     apd_text = gda_text, apd_quo = gda_quo, apd_reduce = gda_reduce, apd_quantize = gda_quantize,
     apd_parse = gda_parse\<rparr>"

lemma gda_sels [simp]:
  "apd_add gda = gda_add" "apd_sub gda = gda_sub" "apd_mul gda = gda_mul" "apd_neg gda = gda_neg"
  "apd_abs gda = gda_abs" "apd_cmp gda = gda_cmp" "apd_sign gda = gda_sign"
  "apd_is_zero gda = gda_is_zero" "apd_text gda = gda_text" "apd_quo gda = gda_quo"
  "apd_reduce gda = gda_reduce" "apd_quantize gda = gda_quantize" "apd_parse gda = gda_parse"
  by (simp_all add: gda_def)

lemmas gda_defs = gda_add_def gda_sub_def gda_mul_def gda_neg_def gda_abs_def gda_cmp_def
  gda_sign_def gda_is_zero_def gda_quo_def gda_reduce_def gda_quantize_def gda_text_def
  mk_def scaled_def dint_def dec_def dzero_def of_whole_def quo_sign_def

section \<open>It is exact\<close>

lemma gda_add_val: "gda_add x y = Inr z \<Longrightarrow> dval z = dval x + dval y"
  using dval_scaled [of "min (d_exp x) (d_exp y)" x] dval_scaled [of "min (d_exp x) (d_exp y)" y]
  by (auto simp: gda_add_def Let_def distrib_right)

lemma gda_sub_val: "gda_sub x y = Inr z \<Longrightarrow> dval z = dval x - dval y"
  using dval_scaled [of "min (d_exp x) (d_exp y)" x] dval_scaled [of "min (d_exp x) (d_exp y)" y]
  by (auto simp: gda_sub_def Let_def left_diff_distrib)

lemma gda_mul_val: "gda_mul x y = Inr z \<Longrightarrow> dval z = dval x * dval y"
  by (auto simp: gda_mul_def dval_dint [of x] dval_dint [of y] pow10_add)

lemma gda_cmp_val:
  "gda_cmp x y = (if dval x < dval y then -1 else if dval x = dval y then 0 else 1)"
proof -
  let ?e = "min (d_exp x) (d_exp y)"
  have "dval x = of_int (scaled x ?e) * pow10 ?e" "dval y = of_int (scaled y ?e) * pow10 ?e"
    by (rule dval_scaled; simp)+
  then have "dval x < dval y \<longleftrightarrow> scaled x ?e < scaled y ?e"
    "dval x = dval y \<longleftrightarrow> scaled x ?e = scaled y ?e"
    by (simp_all add: mult_less_cancel_right)
  then show ?thesis
    by (simp add: gda_cmp_def Let_def)
qed

lemma gda_sign_val: "gda_sign x = (if dval x < 0 then -1 else if dval x = 0 then 0 else 1)"
  by (auto simp: gda_sign_def dval_dint [of x] sgn_if mult_less_0_iff)

lemma quo_sign_val:
  "rat_of_int (quo_sign x y) * (of_nat (d_coeff x) * pow10 (d_exp x))
     / (of_nat (d_coeff y) * pow10 (d_exp y)) = dval x / dval y"
  by (auto simp: quo_sign_def dval_def)

lemma gda_quo_val:
  assumes "gda_quo p x y = Inr (q, False)"
  shows "dval q = dval x / dval y"
proof -
  from assms obtain k where nz: "d_coeff y \<noteq> 0"
    and k: "d_coeff y dvd d_coeff x * 10 ^ k"
    and q: "q = mk (quo_sign x y * int (d_coeff x * 10 ^ k div d_coeff y))
              (d_exp x - d_exp y - int k)"
    by (auto simp: gda_quo_def dest!: find_SomeD simp del: upt_Suc split: if_splits option.splits)
  let ?c = "d_coeff x * 10 ^ k div d_coeff y"
  from k have "?c * d_coeff y = d_coeff x * 10 ^ k"
    by (rule dvd_div_mult_self)
  then have "rat_of_nat ?c * of_nat (d_coeff y) = of_nat (d_coeff x) * 10 ^ k"
    by (metis of_nat_mult of_nat_numeral of_nat_power)
  with nz have "rat_of_nat ?c = of_nat (d_coeff x) * 10 ^ k / of_nat (d_coeff y)"
    by (simp add: field_simps)
  moreover have "dval q = rat_of_int (quo_sign x y) * of_nat ?c
      * (pow10 (d_exp x) / pow10 (d_exp y) / 10 ^ k)"
    by (simp only: q dval_mk pow10_diff of_int_mult of_int_of_nat_eq pow10_nat [of "int k"]
        of_nat_0_le_iff nat_int)
  ultimately show ?thesis
    unfolding quo_sign_val [symmetric] by (simp add: field_simps)
qed

lemma strip_zeros_val:
  "strip_zeros c e = (c', e') \<Longrightarrow> rat_of_nat c' * pow10 e' = of_nat c * pow10 e"
proof (induction c e rule: strip_zeros.induct)
  case (1 c e)
  show ?case
  proof (cases "c \<noteq> 0 \<and> c mod 10 = 0")
    case True
    then have c: "c = 10 * (c div 10)" by presburger
    from True 1 have "rat_of_nat c' * pow10 e' = of_nat (c div 10) * pow10 (e + 1)"
      by (simp add: strip_zeros.simps [of c e])
    also have "\<dots> = of_nat (10 * (c div 10)) * pow10 e"
      by (simp add: pow10_add pow10_nat)
    finally show ?thesis using c by simp
  next
    case False
    with 1 show ?thesis by (auto simp: strip_zeros.simps [of c e])
  qed
qed

lemma gda_reduce_val: "gda_reduce p x = Inr z \<Longrightarrow> dval z = dval x"
  using strip_zeros_val [of "d_coeff x" "d_exp x"]
  by (auto simp: gda_reduce_def dval_def mult.assoc split: prod.splits)

interpretation gda: apd_total gda
proof unfold_locales
  fix x y z r q :: decimal and p e
  show "apd_add gda x y = Inr z \<Longrightarrow> dval z = dval x + dval y"
    by (simp add: gda_add_val)
  show "apd_sub gda x y = Inr z \<Longrightarrow> dval z = dval x - dval y"
    by (simp add: gda_sub_val)
  show "apd_mul gda x y = Inr z \<Longrightarrow> dval z = dval x * dval y"
    by (simp add: gda_mul_val)
  show "apd_neg gda x = Inr z \<Longrightarrow> dval z = - dval x"
    by (auto simp: gda_neg_def dval_dint [of x])
  show "apd_abs gda x = Inr z \<Longrightarrow> dval z = \<bar>dval x\<bar>"
    by (auto simp: gda_abs_def dval_dint [of x] abs_mult)
  show "apd_cmp gda x y = (if dval x < dval y then -1 else if dval x = dval y then 0 else 1)"
    by (simp add: gda_cmp_val)
  show "apd_sign gda x = (if dval x < 0 then -1 else if dval x = 0 then 0 else 1)"
    by (simp add: gda_sign_val)
  show "apd_is_zero gda x \<longleftrightarrow> dval x = 0"
    by (simp add: gda_is_zero_def dval_eq_0)
  show "apd_quo gda p x y = Inr r \<Longrightarrow> dval y \<noteq> 0" for r
    by (auto simp: gda_quo_def dval_eq_0 split: if_splits)
  show "apd_quo gda p x y = Inr (q, False) \<Longrightarrow> dval q = dval x / dval y"
    by (simp add: gda_quo_val)
  show "apd_reduce gda p x = Inr z \<Longrightarrow> dval z = dval x"
    by (simp add: gda_reduce_val)
  show "apd_quantize gda p x e = Inr z \<Longrightarrow> e \<le> d_exp x \<Longrightarrow> dval z = dval x \<and> d_exp z = e"
    by (auto simp: gda_quantize_def dval_scaled)
qed (simp_all add: gda_add_def gda_sub_def gda_mul_def gda_neg_def gda_abs_def Let_def)

end
