(* ===== verification/Ast.thy ===== *)
theory Ast
  imports Gda
begin

text \<open>
  The abstract syntax of a ledger (\<open>pkg/ast/ast.go\<close>, \<open>directives.go\<close>, \<open>metadata.go\<close>, the types
  of \<open>cost.go\<close> and \<open>booking.go\<close>) and the canonical order of its directives (\<open>order.go\<close>).
  Structs are records, sealed interfaces datatypes, pointers that may be nil options. The
  \<open>Clone\<close> methods copy a value and are the identity here.
\<close>

section \<open>Source positions and diagnostics\<close>

record srcpos =
  pos_filename :: string
  pos_offset :: int
  pos_line :: int
  pos_column :: int

record span =
  span_start :: srcpos
  span_end :: srcpos

definition zero_pos :: srcpos where
  "zero_pos = \<lparr>pos_filename = [], pos_offset = 0, pos_line = 0, pos_column = 0\<rparr>"

definition zero_span :: span where
  "zero_span = \<lparr>span_start = zero_pos, span_end = zero_pos\<rparr>"

datatype severity = SevError | SevWarning

record diagnostic =
  diag_code :: string
  diag_span :: span
  diag_message :: string
  diag_severity :: severity

definition mk_diag :: "string \<Rightarrow> span \<Rightarrow> string \<Rightarrow> diagnostic" where
  "mk_diag c s m = \<lparr>diag_code = c, diag_span = s, diag_message = m, diag_severity = SevError\<rparr>"

lemma mk_diag_sels [simp]:
  "diag_code (mk_diag c s m) = c" "diag_span (mk_diag c s m) = s"
  "diag_message (mk_diag c s m) = m" "diag_severity (mk_diag c s m) = SevError"
  by (simp_all add: mk_diag_def)

definition diag_string :: "diagnostic \<Rightarrow> string" where
  "diag_string d =
     (let sev = (if diag_severity d = SevWarning then ''warning'' else ''error'');
          msg = (if diag_code d \<noteq> [] then diag_message d @ '' ['' @ diag_code d @ '']''
                 else diag_message d);
          pos = span_start (diag_span d)
      in if pos_filename pos = [] then sev @ '': '' @ msg
         else pos_filename pos @ '':'' @ show_int (pos_line pos) @ '':'' @ show_int (pos_column pos)
              @ '': '' @ sev @ '': '' @ msg)"

section \<open>Amounts, costs, postings\<close>

type_synonym account = string
type_synonym currency = string

record amount =
  amt_number :: decimal
  amt_currency :: currency

record cost_spec =
  cs_span :: span
  cs_per_unit :: "decimal option"
  cs_total :: "decimal option"
  cs_currency :: currency
  cs_date :: "time option"
  cs_label :: string

record cost =
  cost_number :: decimal
  cost_currency :: currency
  cost_date :: time
  cost_label :: string
  cost_per_unit :: "amount option"
  cost_total :: "amount option"

text \<open>The sealed interface \<open>CostHolder\<close>; a posting without a cost has none.\<close>

datatype cost_holder = HCost cost | HSpec cost_spec

datatype meta_kind = MetaString | MetaAccount | MetaCurrency | MetaDate | MetaTag | MetaLink
  | MetaNumber | MetaAmount | MetaBool

record meta_value =
  mv_kind :: meta_kind
  mv_string :: string
  mv_date :: time
  mv_number :: decimal
  mv_amount :: amount
  mv_bool :: bool

type_synonym metadata = "string \<rightharpoonup> meta_value"

record price_annotation =
  pa_span :: span
  pa_amount :: amount
  pa_is_total :: bool

record posting =
  p_span :: span
  p_flag :: char
  p_account :: account
  p_amount :: "amount option"
  p_cost :: "cost_holder option"
  p_price :: "price_annotation option"
  p_meta :: metadata

section \<open>Booking methods\<close>

datatype booking_method = BookingDefault | BookingStrict | BookingFIFO | BookingLIFO
  | BookingNone | BookingAverage

definition parse_booking_method :: "string \<Rightarrow> booking_method result" where
  "parse_booking_method s =
     (if s = '''' then Inr BookingDefault
      else if s = ''STRICT'' then Inr BookingStrict
      else if s = ''FIFO'' then Inr BookingFIFO
      else if s = ''LIFO'' then Inr BookingLIFO
      else if s = ''NONE'' then Inr BookingNone
      else if s = ''AVERAGE'' then Inr BookingAverage
      else Inl (SysErr (''ast: unknown booking method '' @ go_quote s)))"

fun booking_string :: "booking_method \<Rightarrow> string" where
  "booking_string BookingDefault = ''DEFAULT''"
| "booking_string BookingStrict = ''STRICT''"
| "booking_string BookingFIFO = ''FIFO''"
| "booking_string BookingLIFO = ''LIFO''"
| "booking_string BookingNone = ''NONE''"
| "booking_string BookingAverage = ''AVERAGE''"

section \<open>Directives\<close>

record option_dir = opt_span :: span  opt_key :: string  opt_value :: string
record plugin_dir = plg_span :: span  plg_name :: string  plg_config :: string
record include_dir = inc_span :: span  inc_path :: string

record open_dir =
  open_span :: span
  open_date :: time
  open_account :: account
  open_currencies :: "currency list"
  open_booking :: booking_method
  open_meta :: metadata

record close_dir =
  close_span :: span
  close_date :: time
  close_account :: account
  close_meta :: metadata

record commodity_dir =
  com_span :: span
  com_date :: time
  com_currency :: currency
  com_meta :: metadata

record balance_dir =
  bal_span :: span
  bal_date :: time
  bal_account :: account
  bal_amount :: amount
  bal_tolerance :: "decimal option"
  bal_meta :: metadata
  bal_diff :: "amount option"

record pad_dir =
  pad_span :: span
  pad_date :: time
  pad_account :: account
  pad_source :: account
  pad_meta :: metadata

record note_dir =
  note_span :: span
  note_date :: time
  note_account :: account
  note_comment :: string
  note_tags :: "string list"
  note_links :: "string list"
  note_meta :: metadata

record document_dir =
  doc_span :: span
  doc_date :: time
  doc_account :: account
  doc_path :: string
  doc_tags :: "string list"
  doc_links :: "string list"
  doc_meta :: metadata

record event_dir =
  evt_span :: span
  evt_date :: time
  evt_name :: string
  evt_value :: string
  evt_meta :: metadata

record query_dir =
  qry_span :: span
  qry_date :: time
  qry_name :: string
  qry_bql :: string
  qry_meta :: metadata

record price_dir =
  prc_span :: span
  prc_date :: time
  prc_commodity :: currency
  prc_amount :: amount
  prc_meta :: metadata

record transaction =
  txn_span :: span
  txn_date :: time
  txn_flag :: char
  txn_payee :: string
  txn_narration :: string
  txn_tags :: "string list"
  txn_links :: "string list"
  txn_postings :: "posting list"
  txn_meta :: metadata

record custom_dir =
  cus_span :: span
  cus_date :: time
  cus_type :: string
  cus_values :: "meta_value list"
  cus_meta :: metadata

datatype directive =
    DOption option_dir
  | DPlugin plugin_dir
  | DInclude include_dir
  | DOpen open_dir
  | DClose close_dir
  | DCommodity commodity_dir
  | DBalance balance_dir
  | DPad pad_dir
  | DNote note_dir
  | DDocument document_dir
  | DEvent event_dir
  | DQuery query_dir
  | DPrice price_dir
  | DTransaction transaction
  | DCustom custom_dir

datatype directive_kind = KindFileHeader | KindOpen | KindBalance | KindPad | KindTransaction
  | KindOther | KindClose | KindPrice

fun kind_rank :: "directive_kind \<Rightarrow> int" where
  "kind_rank KindFileHeader = 0"
| "kind_rank KindOpen = 1"
| "kind_rank KindBalance = 2"
| "kind_rank KindPad = 3"
| "kind_rank KindTransaction = 4"
| "kind_rank KindOther = 5"
| "kind_rank KindClose = 6"
| "kind_rank KindPrice = 7"

fun dir_kind :: "directive \<Rightarrow> directive_kind" where
  "dir_kind (DOption _) = KindFileHeader"
| "dir_kind (DPlugin _) = KindFileHeader"
| "dir_kind (DInclude _) = KindFileHeader"
| "dir_kind (DOpen _) = KindOpen"
| "dir_kind (DClose _) = KindClose"
| "dir_kind (DCommodity _) = KindOther"
| "dir_kind (DBalance _) = KindBalance"
| "dir_kind (DPad _) = KindPad"
| "dir_kind (DNote _) = KindOther"
| "dir_kind (DDocument _) = KindOther"
| "dir_kind (DEvent _) = KindOther"
| "dir_kind (DQuery _) = KindOther"
| "dir_kind (DPrice _) = KindPrice"
| "dir_kind (DTransaction _) = KindTransaction"
| "dir_kind (DCustom _) = KindOther"

fun dir_date :: "directive \<Rightarrow> time" where
  "dir_date (DOption _) = zero_time"
| "dir_date (DPlugin _) = zero_time"
| "dir_date (DInclude _) = zero_time"
| "dir_date (DOpen d) = open_date d"
| "dir_date (DClose d) = close_date d"
| "dir_date (DCommodity d) = com_date d"
| "dir_date (DBalance d) = bal_date d"
| "dir_date (DPad d) = pad_date d"
| "dir_date (DNote d) = note_date d"
| "dir_date (DDocument d) = doc_date d"
| "dir_date (DEvent d) = evt_date d"
| "dir_date (DQuery d) = qry_date d"
| "dir_date (DPrice d) = prc_date d"
| "dir_date (DTransaction d) = txn_date d"
| "dir_date (DCustom d) = cus_date d"

fun dir_span :: "directive \<Rightarrow> span" where
  "dir_span (DOption d) = opt_span d"
| "dir_span (DPlugin d) = plg_span d"
| "dir_span (DInclude d) = inc_span d"
| "dir_span (DOpen d) = open_span d"
| "dir_span (DClose d) = close_span d"
| "dir_span (DCommodity d) = com_span d"
| "dir_span (DBalance d) = bal_span d"
| "dir_span (DPad d) = pad_span d"
| "dir_span (DNote d) = note_span d"
| "dir_span (DDocument d) = doc_span d"
| "dir_span (DEvent d) = evt_span d"
| "dir_span (DQuery d) = qry_span d"
| "dir_span (DPrice d) = prc_span d"
| "dir_span (DTransaction d) = txn_span d"
| "dir_span (DCustom d) = cus_span d"

section \<open>The canonical order\<close>

record sort_key =
  sk_date :: time
  sk_kind :: directive_kind
  sk_filename :: string
  sk_offset :: int
  sk_seq :: nat

definition make_sort_key :: "directive \<Rightarrow> nat \<Rightarrow> sort_key" where
  "make_sort_key d seq =
     (let start = span_start (dir_span d)
      in \<lparr>sk_date = dir_date d, sk_kind = dir_kind d, sk_filename = pos_filename start,
          sk_offset = pos_offset start, sk_seq = seq\<rparr>)"

definition compare_sort_key :: "sort_key \<Rightarrow> sort_key \<Rightarrow> int" where
  "compare_sort_key a b =
     (let c = time_compare (sk_date a) (sk_date b) in if c \<noteq> 0 then c else
      let c = cmp_compare (kind_rank (sk_kind a)) (kind_rank (sk_kind b)) in if c \<noteq> 0 then c else
      let c = cmp_compare (sk_filename a) (sk_filename b) in if c \<noteq> 0 then c else
      let c = cmp_compare (sk_offset a) (sk_offset b) in if c \<noteq> 0 then c else
      cmp_compare (sk_seq a) (sk_seq b))"

lemma kind_rank_inject [simp]: "kind_rank a = kind_rank b \<longleftrightarrow> a = b"
  by (cases a; cases b) auto

lemma compare_sort_key_eq_0: "compare_sort_key a b = 0 \<longleftrightarrow> a = b"
  by (auto simp: compare_sort_key_def Let_def time_compare_cmp)

lemma compare_sort_key_then_by:
  "compare_sort_key =
     then_by (\<lambda>a b. cmp_compare (sk_date a) (sk_date b))
    (then_by (\<lambda>a b. cmp_compare (kind_rank (sk_kind a)) (kind_rank (sk_kind b)))
    (then_by (\<lambda>a b. cmp_compare (sk_filename a) (sk_filename b))
    (then_by (\<lambda>a b. cmp_compare (sk_offset a) (sk_offset b))
             (\<lambda>a b. cmp_compare (sk_seq a) (sk_seq b)))))"
  by (simp add: fun_eq_iff compare_sort_key_def then_by_def Let_def time_compare_cmp)

interpretation sort_key_order: comparator compare_sort_key
  unfolding compare_sort_key_then_by by (intro comparator_then_by comparator_key)

end
