(* ===== verification/Ledger.thy ===== *)
theory Ledger
  imports Ast
begin

text \<open>
  The ledger of \<open>pkg/ast/ledger.go\<close>: directives kept in the canonical order with their sort keys
  and a counter of sequence numbers. A nil \<open>*Ledger\<close> is None. The counter is a natural number:
  a \<open>uint64\<close> that grows by one per inserted directive does not wrap. \<open>slices.SortFunc\<close> is
  modelled by the stable sort; the keys of a ledger are pairwise different, so every sorting
  function returns the same list (\<open>strictly_sorted_unique\<close>).
\<close>

record ledger_entry =
  le_dir :: directive
  le_key :: sort_key

record ledger =
  lg_entries :: "ledger_entry list"
  lg_next_seq :: nat

definition ledger_len :: "ledger option \<Rightarrow> nat" where
  "ledger_len l = (case l of None \<Rightarrow> 0 | Some g \<Rightarrow> length (lg_entries g))"

definition ledger_at :: "ledger option \<Rightarrow> int \<Rightarrow> directive result" where
  "ledger_at l i =
     (case l of
        None \<Rightarrow> Inl (Panic ''ast.Ledger.At: index out of range on nil *Ledger'')
      | Some g \<Rightarrow>
          if 0 \<le> i \<and> i < int (length (lg_entries g)) then Inr (le_dir (lg_entries g ! nat i))
          else Inl (Panic ''index out of range''))"

text \<open>What \<open>All\<close> yields to a loop that does not break.\<close>

definition ledger_all :: "ledger option \<Rightarrow> (nat \<times> directive) list" where
  "ledger_all l =
     (case l of None \<Rightarrow> [] | Some g \<Rightarrow> enumerate 0 (map le_dir (lg_entries g)))"

text \<open>The loop of \<open>slices.BinarySearchFunc\<close>: the first index whose element is not below the
  target.\<close>

function bin_search :: "('a \<Rightarrow> int) \<Rightarrow> 'a list \<Rightarrow> nat \<Rightarrow> nat \<Rightarrow> nat" where
  "bin_search f xs i j =
     (if i < j
      then let h = (i + j) div 2 in
        if f (xs ! h) < 0 then bin_search f xs (h + 1) j else bin_search f xs i h
      else i)"
  by pat_completeness auto

termination bin_search
  by (relation "measure (\<lambda>(f, xs, i, j). j - i)") auto

declare bin_search.simps [simp del]

definition ledger_insert :: "ledger \<Rightarrow> directive \<Rightarrow> ledger" where
  "ledger_insert g d =
     (let key = make_sort_key d (lg_next_seq g);
          es = lg_entries g;
          idx = bin_search (\<lambda>e. compare_sort_key (le_key e) key) es 0 (length es)
      in \<lparr>lg_entries = take idx es @ \<lparr>le_dir = d, le_key = key\<rparr> # drop idx es,
          lg_next_seq = Suc (lg_next_seq g)\<rparr>)"

text \<open>The loop of \<open>InsertAll\<close> that keys the new directives.\<close>

fun keyed :: "nat \<Rightarrow> directive list \<Rightarrow> ledger_entry list" where
  "keyed seq [] = []"
| "keyed seq (d # ds) = \<lparr>le_dir = d, le_key = make_sort_key d seq\<rparr> # keyed (Suc seq) ds"

definition ledger_insert_all :: "ledger \<Rightarrow> directive list \<Rightarrow> ledger" where
  "ledger_insert_all g ds =
     (if ds = [] then g
      else \<lparr>lg_entries = sort_stable (\<lambda>a b. compare_sort_key (le_key a) (le_key b))
              (lg_entries g @ keyed (lg_next_seq g) ds),
            lg_next_seq = lg_next_seq g + length ds\<rparr>)"

definition ledger_replace_all :: "ledger \<Rightarrow> directive list \<Rightarrow> ledger" where
  "ledger_replace_all g ds = ledger_insert_all (g\<lparr>lg_entries := []\<rparr>) ds"

section \<open>The ordering invariant\<close>

abbreviation key_less :: "ledger_entry \<Rightarrow> ledger_entry \<Rightarrow> bool" where
  "key_less a b \<equiv> compare_sort_key (le_key a) (le_key b) < 0"

definition keyed_below :: "nat \<Rightarrow> ledger_entry \<Rightarrow> bool" where
  "keyed_below n e \<longleftrightarrow> (\<exists>k<n. le_key e = make_sort_key (le_dir e) k)"

definition ledger_ok :: "ledger \<Rightarrow> bool" where
  "ledger_ok g \<longleftrightarrow> sorted_wrt key_less (lg_entries g) \<and>
     (\<forall>e\<in>set (lg_entries g). keyed_below (lg_next_seq g) e)"

definition ledger_dirs :: "ledger \<Rightarrow> directive list" where
  "ledger_dirs g = map le_dir (lg_entries g)"

lemma key_less_trans: "key_less a b \<Longrightarrow> key_less b c \<Longrightarrow> key_less a c"
  by (meson less_imp_le sort_key_order.less_trans1)

lemma key_less_asym: "key_less a b \<Longrightarrow> \<not> key_less b a"
  using sort_key_order.swap [of "le_key a" "le_key b"] by simp

lemma key_total: "le_key a \<noteq> le_key b \<Longrightarrow> key_less a b \<or> key_less b a"
  using sort_key_order.swap [of "le_key a" "le_key b"] compare_sort_key_eq_0 [of "le_key a" "le_key b"]
  by linarith

lemma make_sort_key_seq [simp]: "sk_seq (make_sort_key d n) = n"
  by (simp add: make_sort_key_def Let_def)

text \<open>A strictly sorted list is determined by its elements.\<close>

lemma strictly_sorted_unique:
  "sorted_wrt key_less xs \<Longrightarrow> sorted_wrt key_less ys \<Longrightarrow> mset xs = mset ys \<Longrightarrow> xs = ys"
proof (induction xs arbitrary: ys)
  case Nil
  then show ?case by simp
next
  case (Cons x xs)
  from Cons.prems(3) obtain y ys' where ys: "ys = y # ys'" by (cases ys) auto
  have "x = y"
  proof (rule ccontr)
    assume "x \<noteq> y"
    from Cons.prems(3) ys have "x \<in> set ys" "y \<in> set (x # xs)"
      by (metis list.set_intros(1) set_mset_mset)+
    with \<open>x \<noteq> y\<close> ys have "x \<in> set ys'" "y \<in> set xs" by auto
    with Cons.prems ys show False using key_less_asym by auto
  qed
  with Cons ys show ?case by auto
qed

text \<open>The binary search finds the boundary between the elements below the target and the rest.\<close>

definition below_first :: "('a \<Rightarrow> int) \<Rightarrow> 'a list \<Rightarrow> bool" where
  "below_first f xs \<longleftrightarrow> (\<forall>a b. a \<le> b \<and> b < length xs \<and> f (xs ! b) < 0 \<longrightarrow> f (xs ! a) < 0)"

lemma bin_search_bounds:
  assumes "below_first f xs" and "i \<le> j" and "j \<le> length xs"
    and "\<forall>a<i. f (xs ! a) < 0" and "\<forall>b. j \<le> b \<and> b < length xs \<longrightarrow> \<not> f (xs ! b) < 0"
  shows "bin_search f xs i j \<le> length xs \<and> (\<forall>a<bin_search f xs i j. f (xs ! a) < 0) \<and>
    (\<forall>b. bin_search f xs i j \<le> b \<and> b < length xs \<longrightarrow> \<not> f (xs ! b) < 0)"
  using assms
proof (induction f xs i j rule: bin_search.induct)
  case (1 f xs i j)
  show ?case
  proof (cases "i < j")
    case False
    then have "bin_search f xs i j = i" by (simp add: bin_search.simps [of f xs i j])
    moreover have "i = j" using False "1.prems"(2) by simp
    ultimately show ?thesis using "1.prems" by simp
  next
    case True
    let ?h = "(i + j) div 2"
    have h: "?h < j" "?h < length xs" "i \<le> ?h" using True "1.prems" by auto
    show ?thesis
    proof (cases "f (xs ! ?h) < 0")
      case below: True
      have "\<forall>a<?h + 1. f (xs ! a) < 0"
        using "1.prems"(1) below h(2) unfolding below_first_def by (metis Suc_eq_plus1 less_Suc_eq_le)
      moreover have "bin_search f xs i j = bin_search f xs (?h + 1) j"
        using True below by (simp add: bin_search.simps [of f xs i j] Let_def)
      moreover have "?h + 1 \<le> j" using h by simp
      ultimately show ?thesis
        using "1.IH"(1) [OF True refl below "1.prems"(1) _ "1.prems"(3) _ "1.prems"(5)] by metis
    next
      case False
      then have "\<forall>b. ?h \<le> b \<and> b < length xs \<longrightarrow> \<not> f (xs ! b) < 0"
        using "1.prems"(1) unfolding below_first_def by blast
      moreover have "bin_search f xs i j = bin_search f xs i ?h"
        using True False by (simp add: bin_search.simps [of f xs i j] Let_def)
      moreover have "?h \<le> length xs" using h by simp
      ultimately show ?thesis
        using "1.IH"(2) [OF True refl False "1.prems"(1) h(3) _ "1.prems"(4)] by metis
    qed
  qed
qed

lemma insert_sorted:
  fixes x :: ledger_entry
  assumes "sorted_wrt key_less es"
  defines "idx \<equiv> bin_search (\<lambda>e. compare_sort_key (le_key e) (le_key x)) es 0 (length es)"
  assumes new: "\<forall>e\<in>set es. le_key e \<noteq> le_key x"
  shows "sorted_wrt key_less (take idx es @ x # drop idx es)"
proof -
  let ?f = "\<lambda>e. compare_sort_key (le_key e) (le_key x)"
  have "?f (es ! a) < 0" if "a \<le> b" "b < length es" "?f (es ! b) < 0" for a b
    using that assms(1) key_less_trans [of "es ! a" "es ! b" x]
    by (cases "a = b") (auto simp: sorted_wrt_iff_nth_less)
  then have "below_first ?f es" unfolding below_first_def by blast
  from bin_search_bounds [OF this, of 0 "length es"]
  have idx: "idx \<le> length es" "\<forall>a<idx. ?f (es ! a) < 0"
    "\<forall>b. idx \<le> b \<and> b < length es \<longrightarrow> \<not> ?f (es ! b) < 0"
    by (auto simp: idx_def)
  have left: "key_less e x" if "e \<in> set (take idx es)" for e
    using that idx by (auto simp: in_set_conv_nth)
  have right: "key_less x e" if "e \<in> set (drop idx es)" for e
  proof -
    from that idx obtain b where "e = es ! b" "idx \<le> b" "b < length es"
      by (auto simp: in_set_conv_nth)
    with idx(3) have "\<not> key_less e x" by blast
    with key_total [of e x] new that show ?thesis by (meson in_set_dropD)
  qed
  have "sorted_wrt key_less (take idx es @ drop idx es)" using assms(1) by simp
  then have "\<forall>a\<in>set (take idx es). \<forall>b\<in>set (drop idx es). key_less a b"
    unfolding sorted_wrt_append by blast
  with left right \<open>sorted_wrt key_less (take idx es @ drop idx es)\<close> show ?thesis
    unfolding sorted_wrt_append by simp
qed

lemma keyed_below_new: "keyed_below n e \<Longrightarrow> le_key e \<noteq> make_sort_key d n"
  by (auto simp: keyed_below_def dest: arg_cong [where f = sk_seq])

lemma keyed_below_mono: "keyed_below n e \<Longrightarrow> n \<le> m \<Longrightarrow> keyed_below m e"
  by (meson keyed_below_def order_less_le_trans)

lemma insert_next [simp]: "lg_next_seq (ledger_insert g d) = Suc (lg_next_seq g)"
  by (simp add: ledger_insert_def Let_def)

lemma insert_mset:
  "mset (lg_entries (ledger_insert g d)) =
     add_mset \<lparr>le_dir = d, le_key = make_sort_key d (lg_next_seq g)\<rparr> (mset (lg_entries g))"
proof -
  have "mset (take n xs) + mset (drop n xs) = mset xs" for n and xs :: "'a list"
    by (metis append_take_drop_id mset_append)
  then show ?thesis by (simp add: ledger_insert_def Let_def)
qed

lemma insert_ok:
  assumes "ledger_ok g"
  shows "ledger_ok (ledger_insert g d)"
proof -
  let ?e = "\<lparr>le_dir = d, le_key = make_sort_key d (lg_next_seq g)\<rparr>"
  have "\<forall>e\<in>set (lg_entries g). le_key e \<noteq> le_key ?e"
    using assms keyed_below_new by (auto simp: ledger_ok_def)
  with insert_sorted [of "lg_entries g" ?e] assms
  have "sorted_wrt key_less (lg_entries (ledger_insert g d))"
    by (simp add: ledger_ok_def ledger_insert_def Let_def)
  moreover have "set (lg_entries (ledger_insert g d)) = insert ?e (set (lg_entries g))"
    by (metis insert_mset set_mset_add_mset_insert set_mset_mset)
  moreover have "keyed_below (Suc (lg_next_seq g)) ?e"
    by (auto simp: keyed_below_def)
  ultimately show ?thesis
    using assms keyed_below_mono [of "lg_next_seq g" _ "Suc (lg_next_seq g)"]
    by (auto simp: ledger_ok_def)
qed

lemma keyed_seqs: "e \<in> set (keyed n ds) \<Longrightarrow> \<exists>k. n \<le> k \<and> k < n + length ds \<and> le_key e = make_sort_key (le_dir e) k"
proof (induction n ds rule: keyed.induct)
  case (1 n)
  then show ?case by simp
next
  case (2 n d ds)
  show ?case
  proof (cases "e \<in> set (keyed (Suc n) ds)")
    case True
    from "2.IH" [OF this] show ?thesis by (auto simp: Suc_le_eq intro: less_imp_le)
  next
    case False
    with 2 show ?thesis by (intro exI [of _ n]) auto
  qed
qed

lemma keyed_distinct: "distinct (map le_key (keyed n ds))"
proof (induction n ds rule: keyed.induct)
  case (1 n)
  then show ?case by simp
next
  case (2 n d ds)
  have "make_sort_key d n \<noteq> le_key e" if "e \<in> set (keyed (Suc n) ds)" for e
    using keyed_seqs [OF that] by (auto dest: arg_cong [where f = sk_seq])
  with 2 show ?case by auto
qed

lemma sorted_distinct_strict:
  assumes "sorted_wrt (\<lambda>a b. compare_sort_key (le_key a) (le_key b) \<le> 0) xs" and "distinct (map le_key xs)"
  shows "sorted_wrt key_less xs"
  using assms
proof (induction xs)
  case Nil
  then show ?case by simp
next
  case (Cons x xs)
  then show ?case
    by (auto simp: image_iff order_le_less compare_sort_key_eq_0)
qed

lemma strict_distinct: "sorted_wrt key_less xs \<Longrightarrow> distinct (map le_key xs)"
  using sort_key_order.refl by (induction xs) (auto simp: image_iff)

lemma insert_all_mset:
  "mset (lg_entries (ledger_insert_all g ds)) = mset (lg_entries g @ keyed (lg_next_seq g) ds)"
  by (cases ds) (simp_all add: ledger_insert_all_def)

lemma insert_all_next [simp]: "lg_next_seq (ledger_insert_all g ds) = lg_next_seq g + length ds"
  by (cases ds) (simp_all add: ledger_insert_all_def)

interpretation entry_order: comparator "\<lambda>a b. compare_sort_key (le_key a) (le_key b)"
  by unfold_locales (auto intro: sort_key_order.trans sort_key_order.swap)

lemma insert_all_ok:
  assumes "ledger_ok g"
  shows "ledger_ok (ledger_insert_all g ds)"
proof -
  let ?es = "lg_entries g @ keyed (lg_next_seq g) ds"
  have "distinct (map le_key ?es)"
  proof -
    have "le_key e \<noteq> le_key e'" if "e \<in> set (lg_entries g)" "e' \<in> set (keyed (lg_next_seq g) ds)" for e e'
      using that keyed_seqs [OF that(2)] assms
      by (fastforce simp: ledger_ok_def keyed_below_def dest: arg_cong [where f = sk_seq])
    then show ?thesis
      using assms strict_distinct keyed_distinct by (fastforce simp: ledger_ok_def)
  qed
  moreover have "mset (lg_entries (ledger_insert_all g ds)) = mset ?es"
    by (rule insert_all_mset)
  ultimately have dist: "distinct (map le_key (lg_entries (ledger_insert_all g ds)))"
    by (metis mset_eq_imp_distinct_iff mset_map)
  have "sorted_wrt key_less (lg_entries (ledger_insert_all g ds))"
  proof (cases "ds = []")
    case True
    with assms show ?thesis by (simp add: ledger_insert_all_def ledger_ok_def)
  next
    case False
    with dist show ?thesis
      by (intro sorted_distinct_strict) (auto simp: ledger_insert_all_def entry_order.sorted_sort_stable)
  qed
  moreover have "keyed_below (lg_next_seq g + length ds) e"
    if "e \<in> set (lg_entries (ledger_insert_all g ds))" for e
  proof -
    from that have "e \<in> set (lg_entries g) \<or> e \<in> set (keyed (lg_next_seq g) ds)"
      by (metis insert_all_mset set_mset_mset Un_iff set_append)
    then show ?thesis
      using assms keyed_seqs keyed_below_mono [of "lg_next_seq g" e]
      by (fastforce simp: ledger_ok_def keyed_below_def)
  qed
  ultimately show ?thesis by (simp add: ledger_ok_def)
qed

text \<open>A batch is the insertion of its elements one by one.\<close>

lemma keyed_fold_mset:
  "mset (lg_entries (foldl ledger_insert g ds)) = mset (lg_entries g @ keyed (lg_next_seq g) ds) \<and>
   lg_next_seq (foldl ledger_insert g ds) = lg_next_seq g + length ds"
  by (induction ds arbitrary: g) (auto simp: insert_mset)

lemma fold_insert_ok: "ledger_ok g \<Longrightarrow> ledger_ok (foldl ledger_insert g ds)"
  by (induction ds arbitrary: g) (auto simp: insert_ok)

lemma insert_all_fold:
  assumes "ledger_ok g"
  shows "ledger_insert_all g ds = foldl ledger_insert g ds"
proof -
  have "lg_entries (ledger_insert_all g ds) = lg_entries (foldl ledger_insert g ds)"
    using insert_all_ok [OF assms, of ds] fold_insert_ok [OF assms, of ds]
    by (intro strictly_sorted_unique) (auto simp: ledger_ok_def insert_all_mset keyed_fold_mset)
  then show ?thesis by (simp add: keyed_fold_mset)
qed

lemma keyed_dirs: "map le_dir (keyed n ds) = ds"
  by (induction n ds rule: keyed.induct) auto

lemma insert_all_dirs: "mset (ledger_dirs (ledger_insert_all g ds)) = mset (ledger_dirs g) + mset ds"
  using insert_all_mset [of g ds]
  by (metis ledger_dirs_def keyed_dirs map_append mset_append mset_map)

lemma ledger_dates_sorted:
  assumes "ledger_ok g"
  shows "sorted (map dir_date (ledger_dirs g))"
proof -
  have le: "dir_date (le_dir a) \<le> dir_date (le_dir b)"
    if "key_less a b" "keyed_below n a" "keyed_below n b" for a b n
    using that
    by (auto simp: keyed_below_def compare_sort_key_def make_sort_key_def Let_def time_compare_def
        split: if_splits)
  have "sorted_wrt (\<lambda>a b. dir_date (le_dir a) \<le> dir_date (le_dir b)) (lg_entries g)"
  proof (rule sorted_wrt_mono_rel [where P = key_less])
    show "sorted_wrt key_less (lg_entries g)" using assms by (simp add: ledger_ok_def)
    fix a b
    assume "a \<in> set (lg_entries g)" "b \<in> set (lg_entries g)" "key_less a b"
    with assms show "dir_date (le_dir a) \<le> dir_date (le_dir b)"
      by (intro le [of a b "lg_next_seq g"]) (auto simp: ledger_ok_def)
  qed
  then show ?thesis by (simp add: ledger_dirs_def sorted_wrt_map)
qed

end
