(* ===== verification/Options.thy ===== *)
theory Options
  imports Ast
begin

text \<open>
  The typed option registry of \<open>pkg/ast/optvalues.go\<close>. A \<open>*OptionValues\<close> is an optional record
  (None is the nil pointer, whose accessors read the defaults); a stored \<open>any\<close> is a value of
  \<open>opt_val\<close>, and a type assertion on the wrong case is a panic. Map-valued options are maps, so
  the fresh copies the accessors hand out are the values themselves.
\<close>

datatype option_kind = OptString | OptBool | OptDecimal | OptStringList | OptInt | OptDecimalMap | OptIntMap

datatype opt_val = OVString string | OVBool bool | OVDecimal decimal | OVStrings "string list"
  | OVInt int | OVDecimals "string \<rightharpoonup> decimal" | OVInts "string \<rightharpoonup> int"

text \<open>What a parser returns: a whole value, or one \<open>mapEntry\<close>.\<close>

datatype parsed = PVal opt_val | PDecEntry string decimal | PIntEntry string int

record opt_spec =
  spec_key :: string
  spec_kind :: option_kind
  spec_parse :: "string \<Rightarrow> string + parsed"
  spec_default :: opt_val
  spec_alias :: string

type_synonym registry = "string \<rightharpoonup> opt_spec"

record option_values =
  ov_reg :: registry
  ov_values :: "string \<rightharpoonup> opt_val"

section \<open>Parsers\<close>

definition is_space :: "char \<Rightarrow> bool" where
  "is_space c \<longleftrightarrow> c = CHR '' '' \<or> (CHR 0x09 \<le> c \<and> c \<le> CHR 0x0D)"

definition trim_space :: "string \<Rightarrow> string" where
  "trim_space s = rev (dropWhile is_space (rev (dropWhile is_space s)))"

definition to_upper :: "string \<Rightarrow> string" where
  "to_upper s = map (\<lambda>c. if CHR ''a'' \<le> c \<and> c \<le> CHR ''z'' then char_of (of_char c - 32 :: nat) else c) s"

text \<open>\<open>strconv.Atoi\<close> for a 64-bit \<open>int\<close>.\<close>

definition atoi :: "string \<Rightarrow> string + int" where
  "atoi s =
     (let (neg, u) = (case s of c # cs \<Rightarrow> if c = CHR ''-'' then (True, cs)
                         else if c = CHR ''+'' then (False, cs) else (False, s) | [] \<Rightarrow> (False, s));
          err = Inl (''strconv.Atoi: parsing '' @ go_quote s @ '': invalid syntax'')
      in if u = [] then err
         else (case digits_val 0 u of None \<Rightarrow> err
               | Some n \<Rightarrow> let i = (if neg then - int n else int n)
                          in if i < - (2 ^ 63) \<or> 2 ^ 63 \<le> i
                             then Inl (''strconv.Atoi: parsing '' @ go_quote s @ '': value out of range'')
                             else Inr i))"

definition parse_string_option :: "string \<Rightarrow> string + parsed" where
  "parse_string_option raw = Inr (PVal (OVString raw))"

definition parse_bool_option :: "string \<Rightarrow> string + parsed" where
  "parse_bool_option raw =
     (let u = to_upper (trim_space raw)
      in if u = ''TRUE'' then Inr (PVal (OVBool True))
         else if u = ''FALSE'' then Inr (PVal (OVBool False))
         else Inl (''expected TRUE or FALSE, got '' @ go_quote raw))"

definition parse_decimal_option :: "apd \<Rightarrow> string \<Rightarrow> string + parsed" where
  "parse_decimal_option A raw =
     (case apd_parse A (trim_space raw) of Inl e \<Rightarrow> Inl e | Inr d \<Rightarrow> Inr (PVal (OVDecimal d)))"

definition parse_currency_list_item :: "string \<Rightarrow> string + parsed" where
  "parse_currency_list_item raw =
     (let s = trim_space raw
      in if s = '''' then Inl ''currency must not be empty'' else Inr (PVal (OVString s)))"

definition parse_int_option :: "string \<Rightarrow> string + parsed" where
  "parse_int_option raw =
     (case atoi (trim_space raw) of
        Inl e \<Rightarrow> Inl (''expected integer, got '' @ go_quote raw @ '': '' @ e)
      | Inr n \<Rightarrow> Inr (PVal (OVInt n)))"

definition split_map_entry :: "string \<Rightarrow> string + (string \<times> string)" where
  "split_map_entry raw =
     (let pre = takeWhile (\<lambda>c. c \<noteq> CHR '':'') raw
      in if length pre = length raw
         then Inl (''missing '' @ [CHR 0x27] @ '':'' @ [CHR 0x27] @ '' separator in '' @ go_quote raw)
         else let key = trim_space pre
              in if key = '''' then Inl (''empty sub-key in '' @ go_quote raw)
                 else Inr (key, trim_space (drop (Suc (length pre)) raw)))"

definition parse_decimal_map_entry :: "apd \<Rightarrow> string \<Rightarrow> string + parsed" where
  "parse_decimal_map_entry A raw =
     (case split_map_entry raw of Inl e \<Rightarrow> Inl e
      | Inr (key, val) \<Rightarrow>
          (case apd_parse A val of
             Inl e \<Rightarrow> Inl (''invalid decimal '' @ go_quote val @ '' for key '' @ go_quote key @ '': '' @ e)
           | Inr d \<Rightarrow> Inr (PDecEntry key d)))"

definition digits_from_decimal :: "apd \<Rightarrow> string \<Rightarrow> decimal \<Rightarrow> string + int" where
  "digits_from_decimal A cur d =
     (if apd_sign A d < 0
      then Inl (''negative value '' @ apd_text A d @ '' is not a valid precision example for '' @ go_quote cur)
      else if apd_is_zero A d
      then Inl (''zero is not a valid precision example for '' @ go_quote cur @ ''; use '' @
                go_quote (cur @ '':1'') @ '' for zero fractional digits'')
      else Inr (if d_exp d < 0 then - d_exp d else 0))"

definition parse_display_precision_entry :: "apd \<Rightarrow> string \<Rightarrow> string + parsed" where
  "parse_display_precision_entry A raw =
     (case split_map_entry raw of Inl e \<Rightarrow> Inl e
      | Inr (key, val) \<Rightarrow>
          (case apd_parse A val of
             Inl e \<Rightarrow> Inl (''invalid decimal '' @ go_quote val @ '' for currency '' @ go_quote key @ '': '' @ e)
           | Inr d \<Rightarrow> (case digits_from_decimal A key d of Inl e \<Rightarrow> Inl e
                       | Inr n \<Rightarrow> Inr (PIntEntry key n))))"

section \<open>The registry\<close>

definition reg_register :: "registry \<Rightarrow> opt_spec \<Rightarrow> string + registry" where
  "reg_register r s =
     (if r (spec_key s) \<noteq> None
      then Inl (''options: key '' @ go_quote (spec_key s) @ '' is already registered'')
      else if spec_alias s = '''' then Inr (r(spec_key s \<mapsto> s))
      else (case r (spec_alias s) of
              None \<Rightarrow> Inl (''spec '' @ go_quote (spec_key s) @ '' aliases '' @ go_quote (spec_alias s) @
                           '' which is not registered'')
            | Some canonical \<Rightarrow>
                if spec_alias canonical \<noteq> ''''
                then Inl (''spec '' @ go_quote (spec_key s) @ '' aliases '' @ go_quote (spec_alias s) @
                          '' which is itself an alias (chains are forbidden)'')
                else Inr (r(spec_key s \<mapsto> s))))"

definition mk_spec :: "string \<Rightarrow> option_kind \<Rightarrow> (string \<Rightarrow> string + parsed) \<Rightarrow> opt_val \<Rightarrow> opt_spec" where
  "mk_spec k kind parse def =
     \<lparr>spec_key = k, spec_kind = kind, spec_parse = parse, spec_default = def, spec_alias = ''''\<rparr>"

definition string_spec :: "string \<Rightarrow> string \<Rightarrow> opt_spec" where
  "string_spec k def = mk_spec k OptString parse_string_option (OVString def)"

definition bool_spec :: "string \<Rightarrow> opt_spec" where
  "bool_spec k = mk_spec k OptBool parse_bool_option (OVBool False)"

definition half :: decimal where
  "half = dec False 5 (-1)"

definition default_specs :: "apd \<Rightarrow> opt_spec list" where
  "default_specs A =
    [mk_spec ''operating_currency'' OptStringList parse_currency_list_item (OVStrings []),
     mk_spec ''tolerance_multiplier'' OptDecimal (parse_decimal_option A) (OVDecimal half),
     (mk_spec ''inferred_tolerance_multiplier'' OptDecimal (parse_decimal_option A) (OVDecimal half))
       \<lparr>spec_alias := ''tolerance_multiplier''\<rparr>,
     bool_spec ''infer_tolerance_from_cost'',
     string_spec ''plugin_processing_mode'' '''',
     string_spec ''title'' '''',
     string_spec ''booking_method'' ''STRICT'',
     mk_spec ''long_string_maxlines'' OptInt parse_int_option (OVInt 64),
     mk_spec ''inferred_tolerance_default'' OptDecimalMap (parse_decimal_map_entry A) (OVDecimals Map.empty),
     mk_spec ''display_precision'' OptIntMap (parse_display_precision_entry A) (OVInts Map.empty),
     string_spec ''name_assets'' ''Assets'',
     string_spec ''name_liabilities'' ''Liabilities'',
     string_spec ''name_equity'' ''Equity'',
     string_spec ''name_income'' ''Income'',
     string_spec ''name_expenses'' ''Expenses'',
     string_spec ''account_previous_balances'' ''Opening-Balances'',
     string_spec ''account_previous_earnings'' ''Earnings:Previous'',
     string_spec ''account_previous_conversions'' ''Conversions:Previous'',
     string_spec ''account_current_earnings'' ''Earnings:Current'',
     string_spec ''account_current_conversions'' ''Conversions:Current'',
     string_spec ''account_unrealized_gains'' ''Earnings:Unrealized'',
     string_spec ''account_rounding'' '''',
     mk_spec ''pythonpath'' OptStringList parse_string_option (OVStrings []),
     bool_spec ''insert_pythonpath'',
     bool_spec ''render_commas'',
     bool_spec ''allow_pipe_separator'',
     bool_spec ''allow_deprecated_none_for_tags_and_links'',
     string_spec ''conversion_currency'' ''NOTHING'',
     mk_spec ''commodities'' OptStringList parse_string_option (OVStrings []),
     mk_spec ''plugin'' OptStringList parse_string_option (OVStrings []),
     mk_spec ''documents'' OptStringList parse_string_option (OVStrings [])]"

text \<open>\<open>mustRegisterDefault\<close> panics on a registration error.\<close>

fun register_all :: "registry \<Rightarrow> opt_spec list \<Rightarrow> registry result" where
  "register_all r [] = Inr r"
| "register_all r (s # ss) =
     (case reg_register r s of Inl e \<Rightarrow> Inl (Panic e) | Inr r' \<Rightarrow> register_all r' ss)"

definition new_default_registry :: "apd \<Rightarrow> registry result" where
  "new_default_registry A = register_all Map.empty (default_specs A)"

definition default_registry :: "apd \<Rightarrow> registry" where
  "default_registry A = (case new_default_registry A of Inr r \<Rightarrow> r | Inl _ \<Rightarrow> Map.empty)"

definition new_option_values :: "apd \<Rightarrow> option_values" where
  "new_option_values A = \<lparr>ov_reg = default_registry A, ov_values = Map.empty\<rparr>"

section \<open>Writing and reading\<close>

definition opt_set :: "option_values \<Rightarrow> string \<Rightarrow> string \<Rightarrow> string + option_values" where
  "opt_set v key raw =
     (case ov_reg v key of None \<Rightarrow> Inr v
      | Some s \<Rightarrow>
          let target = (if spec_alias s \<noteq> '''' then spec_alias s else key) in
          (case spec_parse s raw of Inl e \<Rightarrow> Inl e
           | Inr p \<Rightarrow>
             (case spec_kind s of
                OptStringList \<Rightarrow>
                  (case p of PVal (OVString str) \<Rightarrow>
                     let existing = (case ov_values v target of Some (OVStrings l) \<Rightarrow> l | _ \<Rightarrow> [])
                     in Inr (v\<lparr>ov_values := (ov_values v)(target \<mapsto> OVStrings (existing @ [str]))\<rparr>)
                   | _ \<Rightarrow> Inl ''string list parser returned a wrong type, want string'')
              | OptDecimalMap \<Rightarrow>
                  (case p of PDecEntry k d \<Rightarrow>
                     let m = (case ov_values v target of Some (OVDecimals m) \<Rightarrow> m | _ \<Rightarrow> Map.empty)
                     in Inr (v\<lparr>ov_values := (ov_values v)(target \<mapsto> OVDecimals (m(k \<mapsto> d)))\<rparr>)
                   | _ \<Rightarrow> Inl ''decimal-map parser returned a wrong type, want mapEntry[*apd.Decimal]'')
              | OptIntMap \<Rightarrow>
                  (case p of PIntEntry k n \<Rightarrow>
                     let m = (case ov_values v target of Some (OVInts m) \<Rightarrow> m | _ \<Rightarrow> Map.empty)
                     in Inr (v\<lparr>ov_values := (ov_values v)(target \<mapsto> OVInts (m(k \<mapsto> n)))\<rparr>)
                   | _ \<Rightarrow> Inl ''int-map parser returned a wrong type, want mapEntry[int]'')
              | _ \<Rightarrow>
                  (case p of PVal x \<Rightarrow> Inr (v\<lparr>ov_values := (ov_values v)(target \<mapsto> x)\<rparr>)
                   | _ \<Rightarrow> Inl ''parser returned a map entry''))))"

definition lookup_spec :: "apd \<Rightarrow> option_values option \<Rightarrow> string \<Rightarrow> opt_spec result" where
  "lookup_spec A v key =
     (let reg = (case v of Some o' \<Rightarrow> ov_reg o' | None \<Rightarrow> default_registry A)
      in case reg key of
           None \<Rightarrow> Inl (Panic (''options: key '' @ go_quote key @ '' is not registered''))
         | Some s \<Rightarrow> Inr s)"

text \<open>The stored value, or the registered default.\<close>

definition opt_read :: "apd \<Rightarrow> option_values option \<Rightarrow> string \<Rightarrow> opt_val result" where
  "opt_read A v key =
     rbind (lookup_spec A v key) (\<lambda>s.
       Inr (case v of None \<Rightarrow> spec_default s
            | Some o' \<Rightarrow> (case ov_values o' key of Some x \<Rightarrow> x | None \<Rightarrow> spec_default s)))"

definition type_panic :: "'a result" where
  "type_panic = Inl (Panic ''interface conversion'')"

definition opt_string :: "apd \<Rightarrow> option_values option \<Rightarrow> string \<Rightarrow> string result" where
  "opt_string A v key =
     rbind (opt_read A v key) (\<lambda>x. case x of OVString s \<Rightarrow> Inr s | _ \<Rightarrow> type_panic)"

definition opt_bool :: "apd \<Rightarrow> option_values option \<Rightarrow> string \<Rightarrow> bool result" where
  "opt_bool A v key =
     rbind (opt_read A v key) (\<lambda>x. case x of OVBool b \<Rightarrow> Inr b | _ \<Rightarrow> type_panic)"

definition opt_decimal :: "apd \<Rightarrow> option_values option \<Rightarrow> string \<Rightarrow> decimal result" where
  "opt_decimal A v key =
     rbind (opt_read A v key) (\<lambda>x. case x of OVDecimal d \<Rightarrow> Inr d | _ \<Rightarrow> type_panic)"

definition opt_string_list :: "apd \<Rightarrow> option_values option \<Rightarrow> string \<Rightarrow> string list result" where
  "opt_string_list A v key =
     rbind (opt_read A v key) (\<lambda>x. case x of OVStrings l \<Rightarrow> Inr l | _ \<Rightarrow> type_panic)"

definition opt_int :: "apd \<Rightarrow> option_values option \<Rightarrow> string \<Rightarrow> int result" where
  "opt_int A v key =
     rbind (opt_read A v key) (\<lambda>x. case x of OVInt n \<Rightarrow> Inr n | _ \<Rightarrow> type_panic)"

definition opt_decimal_map :: "apd \<Rightarrow> option_values option \<Rightarrow> string \<Rightarrow> (string \<rightharpoonup> decimal) result" where
  "opt_decimal_map A v key =
     rbind (opt_read A v key) (\<lambda>x. case x of OVDecimals m \<Rightarrow> Inr m | _ \<Rightarrow> type_panic)"

definition opt_int_map :: "apd \<Rightarrow> option_values option \<Rightarrow> string \<Rightarrow> (string \<rightharpoonup> int) result" where
  "opt_int_map A v key =
     rbind (opt_read A v key) (\<lambda>x. case x of OVInts m \<Rightarrow> Inr m | _ \<Rightarrow> type_panic)"

definition equity_account :: "apd \<Rightarrow> option_values option \<Rightarrow> string \<Rightarrow> account result" where
  "equity_account A v key =
     rbind (opt_string A v key) (\<lambda>leaf.
     rbind (opt_string A v ''name_equity'') (\<lambda>equity.
       Inr (if leaf = '''' \<and> equity = '''' then ''''
            else if leaf = '''' then equity
            else if equity = '''' then leaf
            else equity @ '':'' @ leaf)))"

text \<open>\<open>ParseOptions\<close>: every option directive in order; unknown keys are ignored, malformed values
  reported and skipped.\<close>

fun parse_options_loop :: "option_values \<Rightarrow> directive list \<Rightarrow> option_values \<times> diagnostic list" where
  "parse_options_loop v [] = (v, [])"
| "parse_options_loop v (d # ds) =
     (case d of
        DOption opt \<Rightarrow>
          (case opt_set v (opt_key opt) (opt_value opt) of
             Inl e \<Rightarrow> (case parse_options_loop v ds of (v', diags) \<Rightarrow>
               (v', mk_diag ''invalid-option'' (opt_span opt)
                      (''invalid option '' @ go_quote (opt_key opt) @ '': '' @ e) # diags))
           | Inr v' \<Rightarrow> parse_options_loop v' ds)
      | _ \<Rightarrow> parse_options_loop v ds)"

definition parse_options :: "apd \<Rightarrow> directive list option \<Rightarrow> option_values \<times> diagnostic list" where
  "parse_options A l =
     (case l of None \<Rightarrow> (new_option_values A, [])
      | Some ds \<Rightarrow> parse_options_loop (new_option_values A) ds)"

section \<open>The registry is well formed and the store stays well typed\<close>

fun val_of_kind :: "option_kind \<Rightarrow> opt_val \<Rightarrow> bool" where
  "val_of_kind OptString (OVString _) = True"
| "val_of_kind OptBool (OVBool _) = True"
| "val_of_kind OptDecimal (OVDecimal _) = True"
| "val_of_kind OptStringList (OVStrings _) = True"
| "val_of_kind OptInt (OVInt _) = True"
| "val_of_kind OptDecimalMap (OVDecimals _) = True"
| "val_of_kind OptIntMap (OVInts _) = True"
| "val_of_kind _ _ = False"

definition spec_ok :: "opt_spec \<Rightarrow> bool" where
  "spec_ok s \<longleftrightarrow> val_of_kind (spec_kind s) (spec_default s) \<and>
     (\<forall>raw p. spec_parse s raw = Inr p \<longrightarrow>
        (case spec_kind s of OptStringList \<Rightarrow> \<exists>x. p = PVal (OVString x)
         | OptDecimalMap \<Rightarrow> \<exists>k d. p = PDecEntry k d
         | OptIntMap \<Rightarrow> \<exists>k n. p = PIntEntry k n
         | k \<Rightarrow> \<exists>x. p = PVal x \<and> val_of_kind k x))"

definition reg_ok :: "registry \<Rightarrow> bool" where
  "reg_ok r \<longleftrightarrow> (\<forall>k s. r k = Some s \<longrightarrow> spec_ok s \<and>
     (spec_alias s \<noteq> '''' \<longrightarrow> (\<exists>t. r (spec_alias s) = Some t \<and> spec_kind t = spec_kind s)))"

definition store_typed :: "option_values \<Rightarrow> bool" where
  "store_typed v \<longleftrightarrow> reg_ok (ov_reg v) \<and>
     (\<forall>k x. ov_values v k = Some x \<longrightarrow> (\<exists>s. ov_reg v k = Some s \<and> val_of_kind (spec_kind s) x))"

lemma reg_register_Inr: "reg_register r s = Inr r' \<Longrightarrow> r' = r(spec_key s \<mapsto> s)"
  by (simp add: reg_register_def split: if_splits option.splits)

lemma register_all_mem:
  "register_all r ss = Inr r' \<Longrightarrow> r' k = Some s \<Longrightarrow> r k = Some s \<or> s \<in> set ss"
proof (induction ss arbitrary: r)
  case Nil
  then show ?case by simp
next
  case (Cons t ss)
  then obtain r1 where r1: "reg_register r t = Inr r1" and "register_all r1 ss = Inr r'"
    by (auto split: sum.splits)
  with Cons have "r1 k = Some s \<or> s \<in> set ss" by blast
  with reg_register_Inr [OF r1] show ?case
    by (auto split: if_splits)
qed

lemma new_default_registry_ok: "new_default_registry A = Inr (default_registry A)"
proof -
  have "\<exists>r. new_default_registry A = Inr r"
    by (simp add: new_default_registry_def default_specs_def reg_register_def mk_spec_def
        string_spec_def bool_spec_def)
  then show ?thesis by (auto simp: default_registry_def)
qed

lemma register_all_keep: "register_all r ss = Inr r' \<Longrightarrow> r k = Some s \<Longrightarrow> r' k = Some s"
proof (induction ss arbitrary: r)
  case Nil
  then show ?case by simp
next
  case (Cons t ss)
  then obtain r1 where r1: "reg_register r t = Inr r1" and rest: "register_all r1 ss = Inr r'"
    by (auto split: sum.splits)
  from r1 Cons.prems(2) have "spec_key t \<noteq> k"
    by (auto simp: reg_register_def)
  with reg_register_Inr [OF r1] Cons.prems(2) have "r1 k = Some s" by simp
  with rest show ?case by (rule Cons.IH)
qed

lemma register_all_lookup:
  "register_all r ss = Inr r' \<Longrightarrow> s \<in> set ss \<Longrightarrow> r' (spec_key s) = Some s"
proof (induction ss arbitrary: r)
  case Nil
  then show ?case by simp
next
  case (Cons t ss)
  then obtain r1 where r1: "reg_register r t = Inr r1" and rest: "register_all r1 ss = Inr r'"
    by (auto split: sum.splits)
  show ?case
  proof (cases "s = t")
    case True
    with reg_register_Inr [OF r1] register_all_keep [OF rest] show ?thesis by simp
  next
    case False
    with Cons.prems Cons.IH [OF rest] show ?thesis by simp
  qed
qed

lemma default_registry_mem:
  "s \<in> set (default_specs A) \<Longrightarrow> spec_key s = k \<Longrightarrow> default_registry A k = Some s"
  using register_all_lookup [OF new_default_registry_ok [of A, unfolded new_default_registry_def]]
  by blast

lemma spec_sels [simp]:
  "spec_key (mk_spec k kd pr df) = k" "spec_kind (mk_spec k kd pr df) = kd"
  "spec_alias (mk_spec k kd pr df) = ''''" "spec_default (mk_spec k kd pr df) = df"
  "spec_parse (mk_spec k kd pr df) = pr"
  "spec_key (string_spec k d) = k" "spec_kind (string_spec k d) = OptString"
  "spec_default (string_spec k d) = OVString d" "spec_alias (string_spec k d) = ''''"
  "spec_key (bool_spec k) = k" "spec_kind (bool_spec k) = OptBool"
  "spec_default (bool_spec k) = OVBool False" "spec_alias (bool_spec k) = ''''"
  by (simp_all add: mk_spec_def string_spec_def bool_spec_def)

lemma default_registry_lookup:
  "default_registry A ''tolerance_multiplier'' =
     Some (mk_spec ''tolerance_multiplier'' OptDecimal (parse_decimal_option A) (OVDecimal half))"
  "default_registry A ''inferred_tolerance_multiplier'' =
     Some ((mk_spec ''inferred_tolerance_multiplier'' OptDecimal (parse_decimal_option A) (OVDecimal half))
       \<lparr>spec_alias := ''tolerance_multiplier''\<rparr>)"
  "default_registry A ''infer_tolerance_from_cost'' = Some (bool_spec ''infer_tolerance_from_cost'')"
  "default_registry A ''booking_method'' = Some (string_spec ''booking_method'' ''STRICT'')"
  "default_registry A ''inferred_tolerance_default'' =
     Some (mk_spec ''inferred_tolerance_default'' OptDecimalMap (parse_decimal_map_entry A) (OVDecimals Map.empty))"
  "default_registry A ''name_equity'' = Some (string_spec ''name_equity'' ''Equity'')"
  by (rule default_registry_mem; simp add: default_specs_def)+

lemma spec_ok_simps:
  "spec_ok (string_spec k d)"
  "spec_ok (bool_spec k)"
  "spec_ok (mk_spec k OptDecimal (parse_decimal_option A) (OVDecimal x))"
  "spec_ok (mk_spec k OptInt parse_int_option (OVInt i))"
  "spec_ok (mk_spec k OptStringList parse_string_option (OVStrings l))"
  "spec_ok (mk_spec k OptStringList parse_currency_list_item (OVStrings l))"
  "spec_ok (mk_spec k OptDecimalMap (parse_decimal_map_entry A) (OVDecimals m))"
  "spec_ok (mk_spec k OptIntMap (parse_display_precision_entry A) (OVInts n))"
  by (auto simp: spec_ok_def mk_spec_def string_spec_def bool_spec_def parse_string_option_def
      parse_bool_option_def parse_decimal_option_def parse_currency_list_item_def
      parse_int_option_def parse_decimal_map_entry_def parse_display_precision_entry_def Let_def
      split: if_splits sum.splits prod.splits)

lemma spec_ok_alias [simp]: "spec_ok (s\<lparr>spec_alias := a\<rparr>) = spec_ok s"
  by (simp add: spec_ok_def)

lemma default_specs_ok: "list_all spec_ok (default_specs A)"
  by (simp add: default_specs_def spec_ok_simps)

lemma default_specs_alias:
  "list_all (\<lambda>s. spec_alias s \<noteq> '''' \<longrightarrow>
     spec_alias s = ''tolerance_multiplier'' \<and> spec_kind s = OptDecimal) (default_specs A)"
  by (simp add: default_specs_def mk_spec_def string_spec_def bool_spec_def)

lemma default_registry_reg_ok: "reg_ok (default_registry A)"
proof -
  have mem: "s \<in> set (default_specs A)" if "default_registry A k = Some s" for k s
    using register_all_mem [OF new_default_registry_ok [of A, unfolded new_default_registry_def] that]
    by simp
  have kind: "spec_kind (the (default_registry A ''tolerance_multiplier'')) = OptDecimal"
    by (simp add: default_registry_lookup mk_spec_def)
  have "spec_ok s \<and> (spec_alias s \<noteq> '''' \<longrightarrow>
      spec_alias s = ''tolerance_multiplier'' \<and> spec_kind s = OptDecimal)"
    if "default_registry A k = Some s" for k s
    using mem [OF that] default_specs_ok [of A] default_specs_alias [of A]
    by (simp only: list_all_iff) blast
  then show ?thesis
    using kind unfolding reg_ok_def by (metis default_registry_lookup(1) option.sel)
qed

lemma store_typed_upd:
  "store_typed v \<Longrightarrow> ov_reg v t = Some s \<Longrightarrow> val_of_kind (spec_kind s) x \<Longrightarrow>
     store_typed (v\<lparr>ov_values := (ov_values v)(t \<mapsto> x)\<rparr>)"
  by (simp add: store_typed_def)

lemma opt_set_typed:
  assumes "store_typed v" and "opt_set v key raw = Inr v'"
  shows "store_typed v'"
proof (cases "ov_reg v key")
  case None
  with assms show ?thesis by (simp add: opt_set_def)
next
  case (Some s)
  define t where "t = (if spec_alias s \<noteq> '''' then spec_alias s else key)"
  from assms(1) Some have ok: "spec_ok s" and "\<exists>s'. ov_reg v t = Some s' \<and> spec_kind s' = spec_kind s"
    by (auto simp: store_typed_def reg_ok_def t_def)
  then obtain s' where s': "ov_reg v t = Some s'" "spec_kind s' = spec_kind s" by blast
  obtain p where p: "spec_parse s raw = Inr p"
    using assms(2) Some by (auto simp: opt_set_def Let_def split: sum.splits)
  note set = assms(2) [unfolded opt_set_def Some option.case Let_def t_def [symmetric] p sum.case]
  show ?thesis
    using set ok [unfolded spec_ok_def, THEN conjunct2, rule_format, OF p] s'
    by (cases "spec_kind s")
      (auto split: parsed.splits opt_val.splits
        intro!: store_typed_upd [OF assms(1) s'(1)])
qed

lemma parse_options_loop_typed: "store_typed v \<Longrightarrow> store_typed (fst (parse_options_loop v ds))"
  by (induction v ds rule: parse_options_loop.induct)
    (auto split: directive.splits sum.splits prod.splits intro: opt_set_typed dest: opt_set_typed)

lemma new_option_values_typed: "store_typed (new_option_values A)"
  by (simp add: store_typed_def new_option_values_def default_registry_reg_ok)

lemma opt_set_reg: "opt_set v key raw = Inr v' \<Longrightarrow> ov_reg v' = ov_reg v"
  by (auto simp: opt_set_def Let_def split: option.splits sum.splits option_kind.splits
      parsed.splits opt_val.splits)

lemma parse_options_loop_reg: "ov_reg (fst (parse_options_loop v ds)) = ov_reg v"
  by (induction v ds rule: parse_options_loop.induct)
    (auto split: directive.splits sum.splits prod.splits dest: opt_set_reg)

text \<open>Reading a registered key gives a value of its kind.\<close>

definition opts_typed :: "apd \<Rightarrow> option_values option \<Rightarrow> bool" where
  "opts_typed A v \<longleftrightarrow>
     (case v of None \<Rightarrow> True | Some o' \<Rightarrow> store_typed o' \<and> ov_reg o' = default_registry A)"

lemma opt_read_typed:
  assumes "opts_typed A v" and "default_registry A key = Some s"
  shows "\<exists>x. opt_read A v key = Inr x \<and> val_of_kind (spec_kind s) x"
  using assms default_registry_reg_ok [of A]
  by (fastforce simp: opts_typed_def opt_read_def lookup_spec_def store_typed_def reg_ok_def spec_ok_def
      split: option.splits)

lemma ov_reg_new [simp]: "ov_reg (new_option_values A) = default_registry A"
  by (simp add: new_option_values_def)

lemma parse_options_typed: "opts_typed A (Some (fst (parse_options A l)))"
  by (cases l) (simp_all add: opts_typed_def parse_options_def parse_options_loop_reg
      new_option_values_typed parse_options_loop_typed)

lemma opt_decimal_total:
  assumes "opts_typed A v" and "default_registry A key = Some s" and "spec_kind s = OptDecimal"
  shows "\<exists>d. opt_decimal A v key = Inr d"
  using opt_read_typed [OF assms(1,2)] assms(3)
  by (auto simp: opt_decimal_def elim: val_of_kind.elims)

lemma opt_bool_total:
  assumes "opts_typed A v" and "default_registry A key = Some s" and "spec_kind s = OptBool"
  shows "\<exists>d. opt_bool A v key = Inr d"
  using opt_read_typed [OF assms(1,2)] assms(3)
  by (auto simp: opt_bool_def elim: val_of_kind.elims)

lemma opt_string_total:
  assumes "opts_typed A v" and "default_registry A key = Some s" and "spec_kind s = OptString"
  shows "\<exists>d. opt_string A v key = Inr d"
  using opt_read_typed [OF assms(1,2)] assms(3)
  by (auto simp: opt_string_def elim: val_of_kind.elims)

lemma opt_decimal_map_total:
  assumes "opts_typed A v" and "default_registry A key = Some s" and "spec_kind s = OptDecimalMap"
  shows "\<exists>d. opt_decimal_map A v key = Inr d"
  using opt_read_typed [OF assms(1,2)] assms(3)
  by (auto simp: opt_decimal_map_def elim: val_of_kind.elims)

section \<open>The booking method of an account\<close>

definition resolve_booking_method ::
  "apd \<Rightarrow> open_dir \<Rightarrow> option_values option \<Rightarrow> (booking_method \<times> diagnostic list) result" where
  "resolve_booking_method A d opts =
     (if open_booking d \<noteq> BookingDefault then Inr (open_booking d, [])
      else rbind (opt_string A opts ''booking_method'') (\<lambda>raw.
        if raw = [] then Inr (BookingStrict, [])
        else (case parse_booking_method raw of
                Inl _ \<Rightarrow> Inr (BookingStrict,
                  [mk_diag ''invalid-option'' (open_span d)
                     (''invalid booking_method '' @ go_quote raw @ ''; falling back to STRICT'')])
              | Inr m \<Rightarrow> Inr (m, []))))"

lemma resolve_booking_method_total:
  assumes "opts_typed A opts"
  shows "\<exists>m ds. resolve_booking_method A d opts = Inr (m, ds)"
proof -
  obtain raw where "opt_string A opts ''booking_method'' = Inr raw"
    using opt_string_total [OF assms default_registry_lookup(4)] by auto
  then show ?thesis
    by (cases "parse_booking_method raw") (simp_all add: resolve_booking_method_def)
qed

text \<open>A resolved method is never the placeholder for a missing keyword.\<close>

lemma parse_booking_method_default:
  "parse_booking_method s = Inr BookingDefault \<longleftrightarrow> s = []"
  by (simp add: parse_booking_method_def)

lemma resolve_booking_method_not_default:
  "resolve_booking_method A d opts = Inr (m, ds) \<Longrightarrow> m \<noteq> BookingDefault"
  by (auto simp: resolve_booking_method_def parse_booking_method_default
      split: if_splits sum.splits)

end
