(* ===== verification/Costs.thy ===== *)
theory Costs
  imports Options
begin

text \<open>
  Costs of postings (\<open>pkg/ast/cost.go\<close>) and the division they use (\<open>QuoNormalized\<close> of
  \<open>pkg/ast/balance_expr.go\<close>). The two cost representations behind the sealed interface
  \<open>CostHolder\<close> are the cases of \<open>cost_holder\<close>; a nil interface is None at the caller.
\<close>

section \<open>The read methods of \<open>CostHolder\<close>\<close>

fun get_per_unit :: "cost_holder \<Rightarrow> amount option" where
  "get_per_unit (HCost c) = cost_per_unit c"
| "get_per_unit (HSpec c) =
     (case cs_per_unit c of None \<Rightarrow> None
      | Some n \<Rightarrow> if cs_currency c = [] then None
                 else Some \<lparr>amt_number = n, amt_currency = cs_currency c\<rparr>)"

fun get_total :: "cost_holder \<Rightarrow> amount option" where
  "get_total (HCost c) = cost_total c"
| "get_total (HSpec c) =
     (case cs_total c of None \<Rightarrow> None
      | Some n \<Rightarrow> if cs_currency c = [] then None
                 else Some \<lparr>amt_number = n, amt_currency = cs_currency c\<rparr>)"

fun get_currency :: "cost_holder \<Rightarrow> currency" where
  "get_currency (HCost c) = cost_currency c"
| "get_currency (HSpec c) = cs_currency c"

text \<open>The comma-ok return is an option.\<close>

fun get_date :: "cost_holder \<Rightarrow> time option" where
  "get_date (HCost c) = (if cost_date c = zero_time then None else Some (cost_date c))"
| "get_date (HSpec c) = cs_date c"

fun get_label :: "cost_holder \<Rightarrow> string" where
  "get_label (HCost c) = cost_label c"
| "get_label (HSpec c) = cs_label c"

fun is_booked :: "cost_holder \<Rightarrow> bool" where
  "is_booked (HCost _) = True"
| "is_booked (HSpec _) = False"

definition cost_equal :: "apd \<Rightarrow> cost option \<Rightarrow> cost option \<Rightarrow> bool" where
  "cost_equal A c d =
     (case (c, d) of
        (Some x, Some y) \<Rightarrow>
          if cost_currency x \<noteq> cost_currency y \<or> cost_label x \<noteq> cost_label y then False
          else if cost_date x \<noteq> cost_date y then False
          else apd_cmp A (cost_number x) (cost_number y) = 0
      | (None, None) \<Rightarrow> True
      | _ \<Rightarrow> False)"

section \<open>Arithmetic\<close>

text \<open>\<open>sign(units) * |val|\<close>; both \<open>pkg/ast\<close> and \<open>pkg/inventory\<close> have this function.\<close>

definition signed_abs :: "apd \<Rightarrow> decimal \<Rightarrow> decimal \<Rightarrow> decimal result" where
  "signed_abs A units val =
     rbind (plain_err (apd_abs A val)) (\<lambda>a.
       if \<not> d_neg units then Inr a else plain_err (apd_neg A a))"

text \<open>The precision of both packages' \<open>quoContext\<close>.\<close>

definition quo_precision :: nat where
  "quo_precision = 34"

definition quo_normalized :: "apd \<Rightarrow> nat \<Rightarrow> decimal \<Rightarrow> decimal \<Rightarrow> decimal result" where
  "quo_normalized A ctx dividend divisor =
     rbind (plain_err (apd_quo A ctx dividend divisor)) (\<lambda>(q, inexact).
       if inexact then Inr q
       else let ideal = d_exp dividend - d_exp divisor in
         rbind (plain_err (apd_reduce A ctx q)) (\<lambda>q.
           if ideal < d_exp q then plain_err (apd_quantize A ctx q ideal) else Inr q))"

definition total_cost :: "apd \<Rightarrow> posting \<Rightarrow> amount option result" where
  "total_cost A p =
     (case (p_amount p, p_cost p) of
        (Some amt, Some h) \<Rightarrow>
          let units = amt_number amt in
          (case (get_per_unit h, get_total h) of
             (Some per, Some tot) \<Rightarrow>
               if amt_currency per \<noteq> amt_currency tot
               then Inl (SysErr (''combined cost currencies differ: '' @ go_quote (amt_currency per) @
                                 '' vs '' @ go_quote (amt_currency tot)))
               else rbind (plain_err (apd_mul A units (amt_number per))) (\<lambda>perpart.
                    rbind (signed_abs A units (amt_number tot)) (\<lambda>totalpart.
                    rbind (plain_err (apd_add A perpart totalpart)) (\<lambda>n.
                      Inr (Some \<lparr>amt_number = n, amt_currency = amt_currency per\<rparr>))))
           | (Some per, None) \<Rightarrow>
               rbind (plain_err (apd_mul A units (amt_number per))) (\<lambda>n.
                 Inr (Some \<lparr>amt_number = n, amt_currency = amt_currency per\<rparr>))
           | (None, Some tot) \<Rightarrow>
               rbind (signed_abs A units (amt_number tot)) (\<lambda>n.
                 Inr (Some \<lparr>amt_number = n, amt_currency = amt_currency tot\<rparr>))
           | (None, None) \<Rightarrow> Inr None)
      | _ \<Rightarrow> Inr None)"

definition per_unit_cost :: "apd \<Rightarrow> cost_holder option \<Rightarrow> amount option \<Rightarrow> amount option result" where
  "per_unit_cost A c units =
     (case c of
        None \<Rightarrow> Inr None
      | Some (HCost booked) \<Rightarrow>
          if cost_currency booked = [] then Inr None
          else Inr (Some \<lparr>amt_number = cost_number booked, amt_currency = cost_currency booked\<rparr>)
      | Some (HSpec spec) \<Rightarrow>
          (case (cs_per_unit spec, cs_total spec) of
             (None, None) \<Rightarrow> Inr None
           | (Some per, None) \<Rightarrow>
               Inr (Some \<lparr>amt_number = per, amt_currency = cs_currency spec\<rparr>)
           | (per, Some tot) \<Rightarrow>
               (case units of
                  None \<Rightarrow> Inl (SysErr ''PerUnitCost: total-form cost requires units, got nil'')
                | Some u \<Rightarrow>
                    rbind (wrap_err ''PerUnitCost: abs units'' (apd_abs A (amt_number u))) (\<lambda>absunits.
                    if apd_sign A absunits = 0
                    then Inl (SysErr ''PerUnitCost: total-form cost with zero units; per-unit cost is undefined'')
                    else rbind (rewrap ''PerUnitCost: divide total by units''
                                  (quo_normalized A quo_precision tot absunits)) (\<lambda>quo.
                      (case per of
                         None \<Rightarrow> Inr (Some \<lparr>amt_number = quo, amt_currency = cs_currency spec\<rparr>)
                       | Some x \<Rightarrow>
                           rbind (wrap_err ''PerUnitCost: add per-unit and residual'' (apd_add A x quo)) (\<lambda>n.
                             Inr (Some \<lparr>amt_number = n, amt_currency = cs_currency spec\<rparr>))))))))"

definition posting_per_unit_cost :: "apd \<Rightarrow> posting option \<Rightarrow> amount option result" where
  "posting_per_unit_cost A p =
     (case p of None \<Rightarrow> Inr None | Some q \<Rightarrow> per_unit_cost A (p_cost q) (p_amount q))"

section \<open>What they compute\<close>

text \<open>The sign of the units as the code reads it, from the struct's flag.\<close>

definition flag_sign :: "decimal \<Rightarrow> rat" where
  "flag_sign d = (if d_neg d then - 1 else 1)"

lemma flag_sign_abs: "flag_sign d * \<bar>dval d\<bar> = dval d"
  using dval_sign_neg [of d] by (simp add: flag_sign_def)

lemma quo_normalized_no_panic [simp]: "\<not> is_panic (quo_normalized A p x y)"
  by (simp add: quo_normalized_def is_panic_rbind Let_def split: prod.splits)

lemma signed_abs_no_panic [simp]: "\<not> is_panic (signed_abs A x y)"
  by (simp add: signed_abs_def is_panic_rbind)

lemma per_unit_cost_no_panic [simp]: "\<not> is_panic (per_unit_cost A c u)"
  by (simp add: per_unit_cost_def is_panic_rbind split: option.splits cost_holder.splits)

lemma total_cost_no_panic [simp]: "\<not> is_panic (total_cost A p)"
  by (simp add: total_cost_def is_panic_rbind Let_def split: option.splits)

context apd_exact
begin

lemma signed_abs_val: "signed_abs A u v = Inr z \<Longrightarrow> dval z = flag_sign u * \<bar>dval v\<bar>"
  by (auto simp: signed_abs_def flag_sign_def dest!: abs_val neg_val split: if_splits)

text \<open>An exact division returns the quotient, at an exponent no larger than the ideal one.\<close>

lemma quo_normalized_val:
  assumes "quo_normalized A p x y = Inr q" and "apd_quo A p x y = Inr (r, False)"
  shows "dval q = dval x / dval y" and "d_exp q \<le> d_exp x - d_exp y"
proof -
  from assms obtain s where s: "apd_reduce A p r = Inr s"
    and q: "(if d_exp x - d_exp y < d_exp s then plain_err (apd_quantize A p s (d_exp x - d_exp y))
             else Inr s) = Inr q"
    by (auto simp: quo_normalized_def Let_def)
  from quo_val [OF assms(2)] reduce_val [OF s] have "dval s = dval x / dval y" by simp
  with q quantize_val [where p = p and x = s and z = q and e = "d_exp x - d_exp y"]
  show "dval q = dval x / dval y" and "d_exp q \<le> d_exp x - d_exp y"
    by (auto split: if_splits)
qed

lemma quo_normalized_nz: "quo_normalized A p x y = Inr q \<Longrightarrow> dval y \<noteq> 0"
  by (auto simp: quo_normalized_def dest: quo_nz)

text \<open>The weight a cost gives a posting, in the cost currency.\<close>

lemma total_cost_val:
  assumes "total_cost A p = Inr (Some w)" and "p_amount p = Some amt" and "p_cost p = Some h"
  shows "dval (amt_number w) =
     (case get_per_unit h of None \<Rightarrow> 0 | Some per \<Rightarrow> dval (amt_number amt) * dval (amt_number per)) +
     (case get_total h of None \<Rightarrow> 0 | Some t \<Rightarrow> flag_sign (amt_number amt) * \<bar>dval (amt_number t)\<bar>)"
  using assms
  by (auto simp: total_cost_def Let_def add_val mul_val signed_abs_val
      split: option.splits if_splits)

text \<open>For a cost specification the two resolvers agree: units times the canonical per-unit number
  is the weight, whenever the division is exact and the total is not negative.\<close>

lemma per_unit_total_agree:
  assumes puc: "per_unit_cost A (Some (HSpec spec)) (Some amt) = Inr (Some per)"
    and tc: "total_cost A p = Inr (Some w)"
    and p: "p_amount p = Some amt" "p_cost p = Some (HSpec spec)"
    and exact: "\<And>t u q i. cs_total spec = Some t \<Longrightarrow> apd_abs A (amt_number amt) = Inr u \<Longrightarrow>
      apd_quo A quo_precision t u = Inr (q, i) \<Longrightarrow> \<not> i \<and> 0 \<le> dval t"
  shows "dval (amt_number w) = dval (amt_number amt) * dval (amt_number per)"
proof (cases "cs_total spec")
  case None
  with puc have "cs_per_unit spec = Some (amt_number per)"
    by (auto simp: per_unit_cost_def split: option.splits)
  with None total_cost_val [OF tc p] tc p show ?thesis
    by (auto simp: total_cost_def split: if_splits)
next
  case (Some t)
  with puc obtain u quo where u: "apd_abs A (amt_number amt) = Inr u" and "dval u \<noteq> 0"
    and quo: "quo_normalized A quo_precision t u = Inr quo"
    and per: "dval (amt_number per) =
      (case cs_per_unit spec of None \<Rightarrow> 0 | Some x \<Rightarrow> dval x) + dval quo"
    by (auto simp: per_unit_cost_def add_val split: option.splits if_splits)
  obtain q i where q: "apd_quo A quo_precision t u = Inr (q, i)"
    using quo by (auto simp: quo_normalized_def)
  with exact [OF Some u] have "i = False" and "0 \<le> dval t" by auto
  with quo_normalized_val(1) [OF quo] q abs_val [OF u]
  have "dval quo = dval t / \<bar>dval (amt_number amt)\<bar>" by simp
  with \<open>dval u \<noteq> 0\<close> abs_val [OF u] flag_sign_abs [of "amt_number amt"]
  have "dval (amt_number amt) * dval quo = flag_sign (amt_number amt) * dval t"
    by (auto simp: flag_sign_def abs_if split: if_splits)
  moreover have "cs_currency spec \<noteq> []"
    using tc p Some by (auto simp: total_cost_def split: option.splits if_splits)
  ultimately show ?thesis
    using total_cost_val [OF tc p] Some per \<open>0 \<le> dval t\<close>
    by (auto simp: algebra_simps split: option.splits)
qed

end

end
