(* ===== verification/Account.thy ===== *)
theory Account
  imports Ast
begin

text \<open>
  The account hierarchy of \<open>pkg/ast/account.go\<close>: names are colon-separated paths, and the
  operations work on the text.
\<close>

text \<open>\<open>strings.IndexByte\<close> and \<open>strings.LastIndexByte\<close>; None is -1.\<close>

fun index_byte :: "string \<Rightarrow> char \<Rightarrow> nat option" where
  "index_byte [] c = None"
| "index_byte (x # xs) c = (if x = c then Some 0 else map_option Suc (index_byte xs c))"

fun last_index_byte :: "string \<Rightarrow> char \<Rightarrow> nat option" where
  "last_index_byte [] c = None"
| "last_index_byte (x # xs) c =
     (case last_index_byte xs c of Some i \<Rightarrow> Some (Suc i)
      | None \<Rightarrow> if x = c then Some 0 else None)"

definition acct_parent :: "account \<Rightarrow> account" where
  "acct_parent a =
     (if a = [] then []
      else (case last_index_byte a (CHR '':'') of None \<Rightarrow> [] | Some i \<Rightarrow> take i a))"

definition acct_root :: "account \<Rightarrow> account" where
  "acct_root a =
     (if a = [] then []
      else (case index_byte a (CHR '':'') of None \<Rightarrow> a | Some i \<Rightarrow> take i a))"

definition acct_parts :: "account \<Rightarrow> string list" where
  "acct_parts a = (if a = [] then [] else split_on (CHR '':'') a)"

definition is_ancestor_of :: "account \<Rightarrow> account \<Rightarrow> bool" where
  "is_ancestor_of a d =
     (if a = [] \<or> d = [] then False
      else if length d \<le> length a then False
      else if take (length a) d \<noteq> a then False
      else d ! length a = CHR '':'')"

definition covers :: "account \<Rightarrow> account \<Rightarrow> bool" where
  "covers a other =
     (if a = [] \<or> other = [] then False else a = other \<or> is_ancestor_of a other)"

section \<open>The hierarchy is a forest\<close>

lemma is_ancestor_of_iff:
  "is_ancestor_of a d \<longleftrightarrow> a \<noteq> [] \<and> (\<exists>s. d = a @ '':'' @ s)"
proof
  assume h: "is_ancestor_of a d"
  then have "a \<noteq> []" and len: "length a < length d" and pre: "take (length a) d = a"
    and colon: "d ! length a = CHR '':''"
    by (auto simp: is_ancestor_of_def split: if_splits)
  have "d = a @ (d ! length a) # drop (Suc (length a)) d"
    using len pre id_take_nth_drop [of "length a" d] by simp
  then have "d = a @ '':'' @ drop (Suc (length a)) d"
    using colon by simp
  with \<open>a \<noteq> []\<close> show "a \<noteq> [] \<and> (\<exists>s. d = a @ '':'' @ s)" by blast
next
  assume "a \<noteq> [] \<and> (\<exists>s. d = a @ '':'' @ s)"
  then show "is_ancestor_of a d"
    by (auto simp: is_ancestor_of_def nth_append)
qed

lemma covers_iff: "covers a d \<longleftrightarrow> a \<noteq> [] \<and> (d = a \<or> (\<exists>s. d = a @ '':'' @ s))"
  by (auto simp: covers_def is_ancestor_of_iff)

lemma is_ancestor_of_irrefl: "\<not> is_ancestor_of a a"
  by (simp add: is_ancestor_of_def)

lemma is_ancestor_of_trans:
  "is_ancestor_of a b \<Longrightarrow> is_ancestor_of b c \<Longrightarrow> is_ancestor_of a c"
  by (auto simp: is_ancestor_of_iff)

lemma covers_trans: "covers a b \<Longrightarrow> covers b c \<Longrightarrow> covers a c"
  by (auto simp: covers_iff)

lemma covers_antisym: "covers a b \<Longrightarrow> covers b a \<Longrightarrow> a = b"
  by (auto simp: covers_iff)

lemma covers_nil [simp]: "\<not> covers [] d" "\<not> covers a []"
  by (auto simp: covers_def)

text \<open>The accounts above one account form a chain.\<close>

lemma covers_chain:
  assumes "covers a d" and "covers b d"
  shows "covers a b \<or> covers b a"
proof -
  have ext: "\<exists>s. d = x @ s \<and> (s = [] \<or> (\<exists>s'. s = '':'' @ s'))" if "covers x d" for x
    using that by (auto simp: covers_iff)
  obtain s where a: "d = a @ s" "s = [] \<or> (\<exists>s'. s = '':'' @ s')"
    using ext [OF assms(1)] by blast
  obtain t where b: "d = b @ t" "t = [] \<or> (\<exists>t'. t = '':'' @ t')"
    using ext [OF assms(2)] by blast
  have ne: "a \<noteq> []" "b \<noteq> []" using assms by auto
  from a(1) b(1) have "a @ s = b @ t" by simp
  then consider u where "a = b @ u" "u @ s = t" | u where "a @ u = b" "s = u @ t"
    by (auto simp: append_eq_append_conv2)
  then show ?thesis
  proof cases
    case 1
    with b a ne show ?thesis by (cases u) (auto simp: covers_iff)
  next
    case 2
    with a b ne show ?thesis by (cases u) (auto simp: covers_iff)
  qed
qed

lemma last_index_byte_split:
  "last_index_byte a c = Some i \<Longrightarrow> i < length a \<and> a ! i = c \<and> c \<notin> set (drop (Suc i) a)"
proof (induction a arbitrary: i)
  case Nil
  then show ?case by simp
next
  case (Cons x xs)
  show ?case
  proof (cases "last_index_byte xs c")
    case None
    then have "c \<notin> set xs"
      by (induction xs) (auto split: option.splits if_splits)
    with None Cons.prems show ?thesis by (auto split: if_splits)
  next
    case (Some j)
    with Cons show ?thesis by auto
  qed
qed

lemma last_index_byte_None: "last_index_byte a c = None \<longleftrightarrow> c \<notin> set a"
  by (induction a) (auto split: option.splits)

text \<open>The parent is the nearest account above.\<close>

lemma acct_parent_split:
  "acct_parent a \<noteq> [] \<Longrightarrow> \<exists>w. a = acct_parent a @ '':'' @ w \<and> CHR '':'' \<notin> set w"
proof -
  assume h: "acct_parent a \<noteq> []"
  then obtain i where i: "last_index_byte a (CHR '':'') = Some i" and p: "acct_parent a = take i a"
    by (auto simp: acct_parent_def split: if_splits option.splits)
  from last_index_byte_split [OF i] have "i < length a" "a ! i = CHR '':''"
    "CHR '':'' \<notin> set (drop (Suc i) a)" by auto
  then have "a = take i a @ '':'' @ drop (Suc i) a"
    using id_take_nth_drop [of i a] by simp
  with p \<open>CHR '':'' \<notin> set (drop (Suc i) a)\<close> show ?thesis by metis
qed

lemma parent_is_ancestor: "acct_parent a \<noteq> [] \<Longrightarrow> is_ancestor_of (acct_parent a) a"
  using acct_parent_split [of a] by (auto simp: is_ancestor_of_iff)

lemma ancestor_covers_parent:
  assumes "is_ancestor_of b a"
  shows "covers b (acct_parent a)"
proof -
  from assms obtain s where b: "b \<noteq> []" and a: "a = b @ '':'' @ s"
    by (auto simp: is_ancestor_of_iff)
  then obtain i where i: "last_index_byte a (CHR '':'') = Some i"
    using last_index_byte_None [of a "CHR '':''"] by (cases "last_index_byte a (CHR '':'')") auto
  note sp = last_index_byte_split [OF i]
  have "length b \<le> i"
  proof (rule ccontr)
    assume "\<not> length b \<le> i"
    then have "Suc i \<le> length b" by simp
    with a have "CHR '':'' \<in> set (drop (Suc i) a)" by simp
    with sp show False by blast
  qed
  moreover from a i have "acct_parent a = take i a"
    using b by (simp add: acct_parent_def)
  ultimately have p: "acct_parent a = b @ take (i - length b) ('':'' @ s)"
    using a by simp
  show ?thesis
    using b p by (cases "i - length b") (auto simp: covers_iff)
qed

text \<open>\<open>Parts\<close> splits the name; joining the parts with colons gives it back.\<close>

lemma join_parts: "join_with '':'' (acct_parts a) = a"
  by (simp add: acct_parts_def join_split)

lemma hd_parts_root: "a \<noteq> [] \<Longrightarrow> hd (acct_parts a) = acct_root a"
proof -
  have "hd (split_on c s) = (case index_byte s c of None \<Rightarrow> s | Some i \<Rightarrow> take i s)" for c s
    by (induction s) (auto split: list.splits option.splits)
  then show "a \<noteq> [] \<Longrightarrow> ?thesis"
    by (simp add: acct_parts_def acct_root_def)
qed

end
