(* ===== verification/Ast_Contract.thy ===== *)
theory Ast_Contract
  imports Ledger Costs Account
begin

text \<open>
  What the ledger container, the account hierarchy and the options promise, as properties of their
  operations, with a concrete run of each.
\<close>

section \<open>The ledger\<close>

lemma insert_splits:
  "\<exists>before after. ledger_dirs g = before @ after \<and> ledger_dirs (ledger_insert g d) = before @ d # after"
proof -
  have "\<exists>before after. map le_dir es = before @ after \<and>
      map le_dir (take n es @ e # drop n es) = before @ le_dir e # after" for n e and es :: "ledger_entry list"
    by (metis append_take_drop_id list.map(2) map_append)
  from this [of "lg_entries g"] show ?thesis
    unfolding ledger_dirs_def ledger_insert_def Let_def ledger.simps by (metis ledger_entry.select_convs(1))
qed

text \<open>C22 A ledger is always in its canonical order: whatever is inserted, one by one, as a batch or
  by replacing the contents, the sort keys stay strictly increasing and below the counter, the dates
  stay sorted, and nothing is lost or made up. A single directive comes between those that were there,
  which stay in their order; a batch adds its directives to those there, a replacement leaves its own.\<close>

theorem ledger_stays_sorted:
  assumes "ledger_ok g"
  shows "ledger_ok (ledger_insert g d) \<and> ledger_ok (ledger_insert_all g ds) \<and>
    ledger_ok (ledger_replace_all g ds) \<and>
    sorted (map dir_date (ledger_dirs (ledger_insert g d))) \<and>
    sorted (map dir_date (ledger_dirs (ledger_insert_all g ds))) \<and>
    sorted (map dir_date (ledger_dirs (ledger_replace_all g ds))) \<and>
    (\<exists>before after. ledger_dirs g = before @ after \<and> ledger_dirs (ledger_insert g d) = before @ d # after) \<and>
    mset (ledger_dirs (ledger_insert_all g ds)) = mset (ledger_dirs g) + mset ds \<and>
    mset (ledger_dirs (ledger_replace_all g ds)) = mset ds"
proof -
  have empty: "ledger_ok (g\<lparr>lg_entries := []\<rparr>)" by (simp add: ledger_ok_def)
  then have ok: "ledger_ok (ledger_insert g d)" "ledger_ok (ledger_insert_all g ds)" "ledger_ok (ledger_replace_all g ds)"
    using insert_ok [OF assms] insert_all_ok [OF assms] insert_all_ok [OF empty]
    by (simp_all add: ledger_replace_all_def)
  moreover have "mset (ledger_dirs (ledger_replace_all g ds)) = mset ds"
    using insert_all_dirs [of "g\<lparr>lg_entries := []\<rparr>"] by (simp add: ledger_replace_all_def ledger_dirs_def)
  ultimately show ?thesis
    using ok [THEN ledger_dates_sorted] insert_splits insert_all_dirs by simp
qed

definition ex_price :: "time \<Rightarrow> directive" where
  "ex_price d = DPrice \<lparr>prc_span = zero_span, prc_date = d, prc_commodity = ''USD'',
     prc_amount = \<lparr>amt_number = of_whole 1, amt_currency = ''EUR''\<rparr>, prc_meta = Map.empty\<rparr>"

definition ex_event :: "time \<Rightarrow> directive" where
  "ex_event d = DEvent \<lparr>evt_span = zero_span, evt_date = d, evt_name = ''x'', evt_value = ''y'',
     evt_meta = Map.empty\<rparr>"

definition ex_ledger :: ledger where
  "ex_ledger = ledger_insert \<lparr>lg_entries = [], lg_next_seq = 0\<rparr> (ex_price 5)"

lemma ex_ledger_ok: "ledger_ok ex_ledger"
  unfolding ex_ledger_def by (rule insert_ok) (simp add: ledger_ok_def)

theorem ledger_stays_sorted_witness:
  "ledger_ok (ledger_insert_all ex_ledger [ex_event 7, ex_event 5]) \<and>
   map dir_date (ledger_dirs (ledger_insert_all ex_ledger [ex_event 7, ex_event 5])) = [5, 5, 7] \<and>
   map dir_kind (ledger_dirs (ledger_insert_all ex_ledger [ex_event 7, ex_event 5])) =
     [KindOther, KindPrice, KindOther]"
proof (intro conjI)
  show "ledger_ok (ledger_insert_all ex_ledger [ex_event 7, ex_event 5])"
    using ledger_stays_sorted [OF ex_ledger_ok] by blast
  show "map dir_date (ledger_dirs (ledger_insert_all ex_ledger [ex_event 7, ex_event 5])) = [5, 5, 7]"
    "map dir_kind (ledger_dirs (ledger_insert_all ex_ledger [ex_event 7, ex_event 5])) =
     [KindOther, KindPrice, KindOther]"
    by code_simp+
qed

text \<open>\<open>InsertAll\<close>, which sorts the merged slice once, gives the ledger that inserting the same
  directives one by one with a binary search gives, entries, keys and counter.\<close>

theorem insert_all_is_repeated_insert:
  assumes "ledger_ok g"
  shows "ledger_insert_all g ds = foldl ledger_insert g ds"
  by (rule insert_all_fold [OF assms])

theorem insert_all_is_repeated_insert_witness:
  "ledger_insert_all ex_ledger [ex_event 7, ex_event 5] =
     ledger_insert (ledger_insert ex_ledger (ex_event 7)) (ex_event 5)"
  using insert_all_is_repeated_insert [OF ex_ledger_ok, of "[ex_event 7, ex_event 5]"] by simp

section \<open>Accounts\<close>

lemma split_on_append: "split_on c (a @ [c] @ s) = split_on c a @ split_on c s"
proof (induction a)
  case Nil
  then show ?case by simp
next
  case (Cons x a)
  then show ?case
    by (cases "split_on c a") (auto split: list.splits)
qed

lemma acct_parts_nonempty: "a \<noteq> [] \<Longrightarrow> acct_parts a \<noteq> []"
  by (simp add: acct_parts_def)

text \<open>\<open>Covers\<close>, which compares bytes, is the prefix order on the components of the names: an
  account covers exactly the accounts whose path extends its own.\<close>

theorem covers_is_path_prefix:
  assumes "a \<noteq> []" and "d \<noteq> []"
  shows "covers a d \<longleftrightarrow> (\<exists>rest. acct_parts d = acct_parts a @ rest)"
proof
  assume "covers a d"
  with assms show "\<exists>rest. acct_parts d = acct_parts a @ rest"
    using split_on_append [of "CHR '':''" a] by (auto simp: covers_iff acct_parts_def)
next
  assume "\<exists>rest. acct_parts d = acct_parts a @ rest"
  then obtain rest where r: "acct_parts d = acct_parts a @ rest" by blast
  have app: "xs \<noteq> [] \<Longrightarrow> ys \<noteq> [] \<Longrightarrow> join_with s (xs @ ys) = join_with s xs @ s @ join_with s ys" for s xs ys
    by (induction s xs rule: join_with.induct) (auto simp: join_with_Cons)
  show "covers a d"
  proof (cases "rest = []")
    case True
    with r have "d = a" by (metis append_Nil2 join_parts)
    with assms show ?thesis by (simp add: covers_iff)
  next
    case False
    with app [OF acct_parts_nonempty [OF assms(1)] False, of "'':''"] r
    have "d = a @ '':'' @ join_with '':'' rest" by (metis join_parts)
    with assms show ?thesis by (auto simp: covers_iff)
  qed
qed

theorem covers_is_path_prefix_witness:
  "covers ''Assets:Bank'' ''Assets:Bank:Cash'' \<and> \<not> covers ''Assets:Bank'' ''Assets:Bankrupt''"
  using covers_is_path_prefix [of "''Assets:Bank''" "''Assets:Bank:Cash''"]
    covers_is_path_prefix [of "''Assets:Bank''" "''Assets:Bankrupt''"]
  by (simp add: acct_parts_def)

section \<open>Options\<close>


text \<open>The booking method of an account is always resolved: from options that were parsed,
  \<open>ResolveBookingMethod\<close> returns a method other than the placeholder for a missing keyword, and
  reports only when the option's text is unknown, in which case the method is STRICT.\<close>

theorem booking_method_resolved:
  assumes "opts_typed A opts"
  shows "\<exists>m diags. resolve_booking_method A d opts = Inr (m, diags) \<and> m \<noteq> BookingDefault \<and>
    (open_booking d \<noteq> BookingDefault \<longrightarrow> m = open_booking d \<and> diags = []) \<and>
    (diags \<noteq> [] \<longrightarrow> m = BookingStrict \<and> map diag_code diags = [''invalid-option''])"
proof -
  obtain m diags where r: "resolve_booking_method A d opts = Inr (m, diags)"
    using resolve_booking_method_total [OF assms] by blast
  from resolve_booking_method_not_default [OF r] r show ?thesis
    by (auto simp: resolve_booking_method_def split: if_splits sum.splits)
qed

definition ex_open :: open_dir where
  "ex_open = \<lparr>open_span = zero_span, open_date = 1, open_account = ''Assets:A'', open_currencies = [],
     open_booking = BookingDefault, open_meta = Map.empty\<rparr>"

theorem booking_method_resolved_witness:
  "opts_typed gda None \<and> (\<exists>m diags. resolve_booking_method gda ex_open None = Inr (m, diags) \<and> m \<noteq> BookingDefault)"
  using booking_method_resolved [of gda None ex_open] by (auto simp: opts_typed_def)

end
