(* ===== verification/Lots.thy ===== *)
theory Lots
  imports Costs
begin

text \<open>
  Lots and what is derived from one posting (\<open>pkg/inventory/lot.go\<close>, \<open>position.go\<close>, \<open>cost.go\<close>,
  \<open>matcher.go\<close>, \<open>weight.go\<close>, \<open>errors.go\<close>). A function of the code that returns a value, a
  user finding and a system error returns \<open>(diagnostic + 'a) result\<close> here.
\<close>

record lot =
  lot_number :: decimal
  lot_currency :: currency
  lot_date :: time
  lot_label :: string

record inv_position =
  pos_units :: amount
  pos_cost :: "lot option"

definition zero_lot :: lot where
  "zero_lot = \<lparr>lot_number = dzero, lot_currency = [], lot_date = zero_time, lot_label = []\<rparr>"

definition lot_equal :: "apd \<Rightarrow> lot option \<Rightarrow> lot option \<Rightarrow> bool" where
  "lot_equal A l r =
     (case (l, r) of
        (Some x, Some y) \<Rightarrow>
          if lot_currency x \<noteq> lot_currency y \<or> lot_label x \<noteq> lot_label y then False
          else if lot_date x \<noteq> lot_date y then False
          else apd_cmp A (lot_number x) (lot_number y) = 0
      | (None, None) \<Rightarrow> True
      | _ \<Rightarrow> False)"

definition lot_from_cost :: "cost \<Rightarrow> lot" where
  "lot_from_cost c = \<lparr>lot_number = cost_number c, lot_currency = cost_currency c,
     lot_date = cost_date c, lot_label = cost_label c\<rparr>"

definition lot_to_cost :: "lot \<Rightarrow> cost" where
  "lot_to_cost l = \<lparr>cost_number = lot_number l, cost_currency = lot_currency l,
     cost_date = lot_date l, cost_label = lot_label l, cost_per_unit = None, cost_total = None\<rparr>"

section \<open>Diagnostics\<close>

definition new_diag :: "string \<Rightarrow> span \<Rightarrow> account \<Rightarrow> string \<Rightarrow> diagnostic" where
  "new_diag code sp acct msg =
     mk_diag code sp (if acct \<noteq> [] then acct @ '': '' @ msg else msg)"

definition enrich_diagnostic :: "diagnostic \<Rightarrow> posting \<Rightarrow> diagnostic" where
  "enrich_diagnostic d p =
     (let d = (if diag_span d = zero_span then d\<lparr>diag_span := p_span p\<rparr> else d)
      in if p_account p \<noteq> [] then d\<lparr>diag_message := p_account p @ '': '' @ diag_message d\<rparr> else d)"

definition wrap_system_err :: "posting \<Rightarrow> 'a result \<Rightarrow> 'a result" where
  "wrap_system_err p r =
     (case r of
        Inl (SysErr e) \<Rightarrow>
          let pos = span_start (p_span p) in
          if pos_filename pos = [] then r
          else Inl (SysErr (''at '' @ pos_filename pos @ '':'' @ show_int (pos_line pos) @ '':'' @
                            show_int (pos_column pos) @ '': '' @ e))
      | _ \<Rightarrow> r)"

lemma enrich_diagnostic_code [simp]: "diag_code (enrich_diagnostic d p) = diag_code d"
  by (simp add: enrich_diagnostic_def Let_def)

lemma wrap_system_err_eq_Inr [simp]: "wrap_system_err p r = Inr x \<longleftrightarrow> r = Inr x"
  by (auto simp: wrap_system_err_def Let_def split: sum.splits go_error.splits)

lemma wrap_system_err_Inr [simp]: "wrap_system_err p (Inr x) = Inr x"
  by (simp add: wrap_system_err_def)

lemma wrap_system_err_panic [simp]: "is_panic (wrap_system_err p r) = is_panic r"
  by (auto simp: wrap_system_err_def is_panic_def Let_def split: sum.splits go_error.splits)

section \<open>\<open>ResolveLot\<close>\<close>

definition resolve_lot ::
  "apd \<Rightarrow> cost_holder option \<Rightarrow> amount \<Rightarrow> time \<Rightarrow> (diagnostic + lot option) result" where
  "resolve_lot A c units txndate =
     (case c of
        None \<Rightarrow> Inr (Inr None)
      | Some (HCost k) \<Rightarrow> Inr (Inr (Some (lot_from_cost k)))
      | Some (HSpec spec) \<Rightarrow>
          if cs_per_unit spec = None \<and> cs_total spec = None
          then Inr (Inl (mk_diag ''augmentation-requires-cost'' (cs_span spec)
                 ''augmenting posting has an empty cost spec; a concrete cost is required''))
          else
            let date = (case cs_date spec of Some d \<Rightarrow> if d \<noteq> zero_time then d else txndate
                        | None \<Rightarrow> txndate) in
            rbind (if cs_total spec \<noteq> None
                   then rbind (wrap_err ''inventory.ResolveLot: abs units'' (apd_abs A (amt_number units)))
                          (\<lambda>a. Inr (apd_sign A a = 0))
                   else Inr False) (\<lambda>zero_total.
            if zero_total
            then Inr (Inl (mk_diag ''zero-units-cost-total'' (cs_span spec)
                   ''augmenting posting with total cost has zero units; per-unit cost is undefined''))
            else rbind (rewrap ''inventory.ResolveLot'' (per_unit_cost A c (Some units))) (\<lambda>per.
              case per of
                None \<Rightarrow> Inl (Panic ''nil pointer dereference'')
              | Some q \<Rightarrow> Inr (Inr (Some \<lparr>lot_number = amt_number q, lot_currency = cs_currency spec,
                             lot_date = date, lot_label = cs_label spec\<rparr>)))))"

section \<open>\<open>CostMatcher\<close>\<close>

text \<open>A constraint of the code's pair (\<open>HasX\<close>, \<open>X\<close>) is an option.\<close>

record cost_matcher =
  m_per_unit :: "decimal option"
  m_currency :: currency
  m_date :: "time option"
  m_label :: "string option"

definition empty_matcher :: cost_matcher where
  "empty_matcher = \<lparr>m_per_unit = None, m_currency = [], m_date = None, m_label = None\<rparr>"

definition new_cost_matcher ::
  "apd \<Rightarrow> cost_holder option \<Rightarrow> currency \<Rightarrow> amount option \<Rightarrow> cost_matcher" where
  "new_cost_matcher A c price_currency units =
     (case c of
        None \<Rightarrow> (if price_currency \<noteq> [] then empty_matcher\<lparr>m_currency := price_currency\<rparr>
                 else empty_matcher)
      | Some (HCost k) \<Rightarrow>
          \<lparr>m_per_unit = Some (cost_number k), m_currency = cost_currency k,
           m_date = (if cost_date k \<noteq> zero_time then Some (cost_date k) else None),
           m_label = (if cost_label k \<noteq> [] then Some (cost_label k) else None)\<rparr>
      | Some (HSpec spec) \<Rightarrow>
          let (per, cur) =
            (if cs_per_unit spec \<noteq> None \<or> cs_total spec \<noteq> None
             then (case per_unit_cost A c units of
                     Inr (Some amt) \<Rightarrow> (Some (amt_number amt), cs_currency spec)
                   | _ \<Rightarrow> (None, cs_currency spec))
             else if cs_currency spec \<noteq> [] then (None, cs_currency spec)
             else (None, price_currency))
          in \<lparr>m_per_unit = per, m_currency = cur,
              m_date = (case cs_date spec of Some d \<Rightarrow> if d \<noteq> zero_time then Some d else None
                        | None \<Rightarrow> None),
              m_label = (if cs_label spec \<noteq> [] then Some (cs_label spec) else None)\<rparr>)"

definition matcher_is_empty :: "cost_matcher \<Rightarrow> bool" where
  "matcher_is_empty m \<longleftrightarrow> m_per_unit m = None \<and> m_currency m = [] \<and> m_date m = None \<and> m_label m = None"

definition matches :: "apd \<Rightarrow> cost_matcher \<Rightarrow> lot \<Rightarrow> bool" where
  "matches A m l =
     (if (case m_per_unit m of Some n \<Rightarrow> apd_cmp A (lot_number l) n \<noteq> 0 | None \<Rightarrow> False) then False
      else if m_currency m \<noteq> [] \<and> lot_currency l \<noteq> m_currency m then False
      else if (case m_date m of Some d \<Rightarrow> lot_date l \<noteq> d | None \<Rightarrow> False) then False
      else if (case m_label m of Some s \<Rightarrow> lot_label l \<noteq> s | None \<Rightarrow> False) then False
      else True)"

section \<open>\<open>PostingWeight\<close>\<close>

definition posting_weight :: "apd \<Rightarrow> posting \<Rightarrow> amount option result" where
  "posting_weight A p =
     (case p_amount p of
        None \<Rightarrow> Inr None
      | Some amt \<Rightarrow>
          rbind (total_cost A p) (\<lambda>tc.
          case tc of
            Some c \<Rightarrow> Inr (Some c)
          | None \<Rightarrow>
              (case p_cost p of
                 Some (HCost c) \<Rightarrow>
                   rbind (plain_err (apd_mul A (amt_number amt) (cost_number c))) (\<lambda>n.
                     Inr (Some \<lparr>amt_number = n, amt_currency = cost_currency c\<rparr>))
               | h \<Rightarrow>
                   if (case h of Some k \<Rightarrow> \<not> is_booked k \<and> get_currency k \<noteq> [] | None \<Rightarrow> False)
                   then Inl (SysErr ''posting weight: cost spec has currency but no number; reducer must resolve before weighing'')
                   else (case p_price p of
                           Some pr \<Rightarrow>
                             if pa_is_total pr
                             then rbind (signed_abs A (amt_number amt) (amt_number (pa_amount pr))) (\<lambda>n.
                               Inr (Some \<lparr>amt_number = n, amt_currency = amt_currency (pa_amount pr)\<rparr>))
                             else rbind (plain_err (apd_mul A (amt_number amt) (amt_number (pa_amount pr)))) (\<lambda>n.
                               Inr (Some \<lparr>amt_number = n, amt_currency = amt_currency (pa_amount pr)\<rparr>))
                         | None \<Rightarrow> Inr (Some amt)))))"

text \<open>The weight of a posting and the residual of a list of postings in a currency, as numbers.\<close>

definition weight_in :: "apd \<Rightarrow> currency \<Rightarrow> posting \<Rightarrow> rat" where
  "weight_in A c p =
     (case posting_weight A p of
        Inr (Some w) \<Rightarrow> if amt_currency w = c then dval (amt_number w) else 0
      | _ \<Rightarrow> 0)"

definition net_weight :: "apd \<Rightarrow> currency \<Rightarrow> posting list \<Rightarrow> rat" where
  "net_weight A c ps = sum_list (map (weight_in A c) ps)"

section \<open>Facts\<close>

text \<open>\<open>ResolveLot\<close> never dereferences a nil per-unit cost.\<close>

lemma per_unit_cost_spec_Some:
  "per_unit_cost A (Some (HSpec spec)) (Some u) = Inr per \<Longrightarrow>
     cs_per_unit spec \<noteq> None \<or> cs_total spec \<noteq> None \<Longrightarrow>
     \<exists>n. per = Some \<lparr>amt_number = n, amt_currency = cs_currency spec\<rparr>"
  by (auto simp: per_unit_cost_def split: option.splits if_splits)

lemma resolve_lot_no_panic [simp]: "\<not> is_panic (resolve_lot A c u d)"
  by (auto simp: resolve_lot_def is_panic_rbind Let_def split: option.splits cost_holder.splits
      dest: per_unit_cost_spec_Some)

lemma posting_weight_no_panic [simp]: "\<not> is_panic (posting_weight A p)"
  by (auto simp: posting_weight_def is_panic_rbind split: option.splits cost_holder.splits)

lemma posting_weight_Some:
  "posting_weight A p = Inr w \<Longrightarrow> w \<noteq> None \<longleftrightarrow> p_amount p \<noteq> None"
  by (auto simp: posting_weight_def split: option.splits cost_holder.splits if_splits)

lemma resolve_lot_spec:
  "resolve_lot A (Some (HSpec spec)) u d = Inr (Inr l) \<Longrightarrow>
     \<exists>q. per_unit_cost A (Some (HSpec spec)) (Some u) = Inr (Some q) \<and>
       l = Some \<lparr>lot_number = amt_number q, lot_currency = cs_currency spec,
         lot_date = (case cs_date spec of Some t \<Rightarrow> if t \<noteq> zero_time then t else d | None \<Rightarrow> d),
         lot_label = cs_label spec\<rparr>"
  by (auto simp: resolve_lot_def Let_def split: if_splits option.splits)

lemma resolve_lot_None_iff:
  assumes "resolve_lot A c u d = Inr (Inr l)"
  shows "l = None \<longleftrightarrow> c = None"
proof (cases c)
  case None
  with assms show ?thesis by (simp add: resolve_lot_def)
next
  case (Some h)
  with assms show ?thesis
    by (cases h) (auto simp: resolve_lot_def [of A "Some (HCost k)" for k] dest: resolve_lot_spec)
qed

lemma resolve_lot_empty_spec:
  "cs_per_unit spec = None \<Longrightarrow> cs_total spec = None \<Longrightarrow>
     resolve_lot A (Some (HSpec spec)) u d = Inr (Inl (mk_diag ''augmentation-requires-cost'' (cs_span spec)
       ''augmenting posting has an empty cost spec; a concrete cost is required''))"
  by (simp add: resolve_lot_def)

context apd_exact
begin

lemma lot_equal_refl: "lot_equal A l l"
  by (simp add: lot_equal_def split: option.splits)

lemma lot_equal_sym: "lot_equal A l r \<Longrightarrow> lot_equal A r l"
  by (auto simp: lot_equal_def split: option.splits if_splits)

lemma lot_equal_trans: "lot_equal A l r \<Longrightarrow> lot_equal A r s \<Longrightarrow> lot_equal A l s"
  by (auto simp: lot_equal_def split: option.splits if_splits)

text \<open>A matcher built from a cost specification matches the lot the same specification resolves to
  for the same units, whatever price currency is at hand.\<close>

lemma matcher_matches_resolved:
  assumes "resolve_lot A (Some (HSpec spec)) u d = Inr (Inr (Some l))"
  shows "matches A (new_cost_matcher A (Some (HSpec spec)) pc (Some u)) l"
proof -
  obtain q where "per_unit_cost A (Some (HSpec spec)) (Some u) = Inr (Some q)"
    and "l = \<lparr>lot_number = amt_number q, lot_currency = cs_currency spec,
         lot_date = (case cs_date spec of Some t \<Rightarrow> if t \<noteq> zero_time then t else d | None \<Rightarrow> d),
         lot_label = cs_label spec\<rparr>"
    using resolve_lot_spec [OF assms] by auto
  moreover have "cs_per_unit spec \<noteq> None \<or> cs_total spec \<noteq> None"
    using assms resolve_lot_empty_spec [of spec A u d] by auto
  ultimately show ?thesis
    by (auto simp: matches_def new_cost_matcher_def split: option.splits)
qed

text \<open>The matcher of a booked cost with a date and a label selects exactly the equal lots.\<close>

lemma booked_matcher_tight:
  assumes "cost_date k \<noteq> zero_time" and "cost_label k \<noteq> []" and "cost_currency k \<noteq> []"
  shows "matches A (new_cost_matcher A (Some (HCost k)) pc u) l \<longleftrightarrow>
    lot_equal A (Some l) (Some (lot_from_cost k))"
  using assms by (auto simp: matches_def new_cost_matcher_def lot_equal_def lot_from_cost_def)

lemma matches_cong: "lot_equal A (Some l) (Some r) \<Longrightarrow> matches A m l = matches A m r"
  by (auto simp: matches_def lot_equal_def split: if_splits option.splits)

text \<open>The weight of a posting without cost and price is its amount; a reduction's booked cost
  weighs units times the lot's number.\<close>

lemma posting_weight_plain:
  "p_amount p = Some amt \<Longrightarrow> p_cost p = None \<Longrightarrow> p_price p = None \<Longrightarrow>
     posting_weight A p = Inr (Some amt)"
  by (simp add: posting_weight_def total_cost_def)

lemma posting_weight_lot:
  assumes "p_amount p = Some amt" and "p_cost p = Some (HCost (lot_to_cost l))"
    and "posting_weight A p = Inr (Some w)"
  shows "amt_currency w = lot_currency l" and
    "dval (amt_number w) = dval (amt_number amt) * dval (lot_number l)"
  using assms by (auto simp: posting_weight_def total_cost_def lot_to_cost_def mul_val)

end

end
