(* ===== verification/Inventory.thy ===== *)
theory Inventory
  imports Lots
begin

text \<open>
  The container of \<open>pkg/inventory/inventory.go\<close>: positions in insertion order, merged by
  \<open>Add\<close> and consumed by \<open>Reduce\<close>. An \<open>*Inventory\<close> that the code mutates in place is an
  argument and a result here; a pointer into its slice is an index. A nil \<open>*Inventory\<close> is None
  where the code tells it from an empty one.
\<close>

type_synonym inventory = "inv_position list"

record reduction_step =
  rs_lot :: lot
  rs_units :: decimal
  rs_sale_price :: "decimal option"
  rs_gain :: "decimal option"
  rs_gain_currency :: currency

section \<open>\<open>Add\<close>\<close>

fun inv_add :: "apd \<Rightarrow> inventory \<Rightarrow> inv_position \<Rightarrow> inventory result" where
  "inv_add A [] p = Inr [p]"
| "inv_add A (e # es) p =
     (if amt_currency (pos_units e) \<noteq> amt_currency (pos_units p) \<or>
         \<not> lot_equal A (pos_cost e) (pos_cost p)
      then rbind (inv_add A es p) (\<lambda>es'. Inr (e # es'))
      else rbind (wrap_err ''inventory.Add''
                   (apd_add A (amt_number (pos_units e)) (amt_number (pos_units p)))) (\<lambda>sum.
             if apd_sign A sum = 0 then Inr es
             else Inr (e\<lparr>pos_units := (pos_units e)\<lparr>amt_number := sum\<rparr>\<rparr> # es)))"

section \<open>\<open>Reduce\<close>\<close>

definition position_lot :: "inv_position \<Rightarrow> lot" where
  "position_lot p = (case pos_cost p of Some l \<Rightarrow> l | None \<Rightarrow> zero_lot)"

definition position_date :: "inv_position \<Rightarrow> time" where
  "position_date p = (case pos_cost p of None \<Rightarrow> zero_time | Some l \<Rightarrow> lot_date l)"

definition is_candidate :: "apd \<Rightarrow> currency \<Rightarrow> cost_matcher \<Rightarrow> inv_position \<Rightarrow> bool" where
  "is_candidate A commodity m p \<longleftrightarrow>
     amt_currency (pos_units p) = commodity \<and> matches A m (position_lot p)"

text \<open>The first loop: the candidates with their indices, whether all are cash, and the sum of their
  magnitudes.\<close>

fun collect :: "apd \<Rightarrow> currency \<Rightarrow> cost_matcher \<Rightarrow> nat \<Rightarrow> inventory \<Rightarrow> decimal \<Rightarrow>
    ((nat \<times> inv_position) list \<times> bool \<times> decimal) result" where
  "collect A commodity m idx [] tot = Inr ([], True, tot)"
| "collect A commodity m idx (p # ps) tot =
     (if \<not> is_candidate A commodity m p then collect A commodity m (Suc idx) ps tot
      else rbind (wrap_err ''inventory.Reduce: abs lot units'' (apd_abs A (amt_number (pos_units p)))) (\<lambda>mag.
           rbind (wrap_err ''inventory.Reduce: accumulate available'' (apd_add A tot mag)) (\<lambda>tot'.
           rbind (collect A commodity m (Suc idx) ps tot') (\<lambda>(cands, cash, t).
             Inr ((idx, p) # cands, pos_cost p = None \<and> cash, t)))))"

definition fifo_compare :: "nat \<times> inv_position \<Rightarrow> nat \<times> inv_position \<Rightarrow> int" where
  "fifo_compare a b =
     (let d = time_compare (position_date (snd a)) (position_date (snd b))
      in if d \<noteq> 0 then d else cmp_compare (fst a) (fst b))"

definition lifo_compare :: "nat \<times> inv_position \<Rightarrow> nat \<times> inv_position \<Rightarrow> int" where
  "lifo_compare a b =
     (let d = time_compare (position_date (snd a)) (position_date (snd b))
      in if d \<noteq> 0 then - d else cmp_compare (fst b) (fst a))"

definition order_candidates ::
  "booking_method \<Rightarrow> (nat \<times> inv_position) list \<Rightarrow> (nat \<times> inv_position) list" where
  "order_candidates m cands =
     (case m of BookingLIFO \<Rightarrow> sort_stable lifo_compare cands | _ \<Rightarrow> sort_stable fifo_compare cands)"

text \<open>The consuming loop over the ordered candidates, with the units still to take.\<close>

fun consume :: "apd \<Rightarrow> (nat \<times> inv_position) list \<Rightarrow> decimal \<Rightarrow> inventory \<Rightarrow>
    (inventory \<times> reduction_step list) result" where
  "consume A [] remaining iv = Inr (iv, [])"
| "consume A ((i, c) # cs) remaining iv =
     (if apd_sign A remaining = 0 then Inr (iv, [])
      else let p = iv ! i; u = amt_number (pos_units p) in
        rbind (wrap_err ''inventory.Reduce: abs lot units'' (apd_abs A u)) (\<lambda>available.
        let take = (if 0 \<le> apd_cmp A remaining available then available else remaining) in
        rbind (if 0 \<le> apd_sign A u
               then wrap_err ''inventory.Reduce: sub lot units'' (apd_sub A u take)
               else wrap_err ''inventory.Reduce: add lot units'' (apd_add A u take)) (\<lambda>u'.
        rbind (wrap_err ''inventory.Reduce: sub remaining'' (apd_sub A remaining take)) (\<lambda>remaining'.
        rbind (consume A cs remaining'
                 (iv[i := p\<lparr>pos_units := (pos_units p)\<lparr>amt_number := u'\<rparr>\<rparr>])) (\<lambda>(iv', steps).
          Inr (iv', \<lparr>rs_lot = position_lot p, rs_units = take, rs_sale_price = None,
                      rs_gain = None, rs_gain_currency = []\<rparr> # steps))))))"

definition inv_reduce :: "apd \<Rightarrow> inventory \<Rightarrow> amount \<Rightarrow> cost_matcher \<Rightarrow> booking_method \<Rightarrow>
    (diagnostic + (reduction_step list \<times> inventory)) result" where
  "inv_reduce A iv units matcher m =
     (if m = BookingAverage
      then Inr (Inl (mk_diag ''invalid-booking-method'' zero_span
             ''booking method AVERAGE is not supported''))
      else if m = BookingNone
      then Inl (SysErr ''inventory.Reduce: BookingNone reached; classify should have routed this posting elsewhere'')
      else
        rbind (wrap_err ''inventory.Reduce: abs units'' (apd_abs A (amt_number units))) (\<lambda>remaining.
        if apd_sign A remaining = 0 then Inr (Inr ([], iv))
        else
          rbind (collect A (amt_currency units) matcher 0 iv dzero) (\<lambda>(cands, all_cash, available).
          if cands = []
          then Inr (Inl (mk_diag ''no-matching-lot'' zero_span
                 ''no lot in inventory matches the reducing posting''))
          else if \<not> all_cash \<and> 0 < apd_cmp A remaining available
          then Inr (Inl (mk_diag ''reduction-exceeds-inventory'' zero_span
                 ''reducing posting requests more units than the matched lots contain''))
          else if (m = BookingStrict \<or> m = BookingDefault) \<and> 1 < length cands \<and>
                  apd_cmp A remaining available < 0
          then Inr (Inl (mk_diag ''ambiguous-lot-match'' zero_span
                 ''reducing posting matches more than one lot under STRICT booking and does not consume them all''))
          else
            rbind (consume A (order_candidates m cands) remaining iv) (\<lambda>(iv', steps).
              Inr (Inr (steps, filter (\<lambda>p. apd_sign A (amt_number (pos_units p)) \<noteq> 0) iv'))))))"

section \<open>The read operations\<close>

definition inv_get :: "inventory \<Rightarrow> currency \<Rightarrow> inv_position list" where
  "inv_get iv c = filter (\<lambda>p. amt_currency (pos_units p) = c) iv"

definition inv_len :: "inventory \<Rightarrow> nat" where
  "inv_len iv = length iv"

definition inv_is_empty :: "inventory \<Rightarrow> bool" where
  "inv_is_empty iv \<longleftrightarrow> iv = []"

fun positions_equal :: "apd \<Rightarrow> inventory \<Rightarrow> inventory \<Rightarrow> bool" where
  "positions_equal A [] [] = True"
| "positions_equal A (a # as) (b # bs) =
     (if amt_currency (pos_units a) \<noteq> amt_currency (pos_units b) then False
      else if apd_cmp A (amt_number (pos_units a)) (amt_number (pos_units b)) \<noteq> 0 then False
      else if \<not> lot_equal A (pos_cost a) (pos_cost b) then False
      else positions_equal A as bs)"
| "positions_equal A _ _ = False"

definition inv_equal :: "apd \<Rightarrow> inventory option \<Rightarrow> inventory option \<Rightarrow> bool" where
  "inv_equal A i o' =
     (let ip = (case i of None \<Rightarrow> [] | Some x \<Rightarrow> x); op = (case o' of None \<Rightarrow> [] | Some x \<Rightarrow> x)
      in if length ip \<noteq> length op then False else positions_equal A ip op)"

section \<open>What an inventory holds\<close>

text \<open>The abstraction of an inventory: the signed number of units in each slot, a slot being a
  commodity with a lot (up to equality of lots) or with none.\<close>

definition in_slot :: "apd \<Rightarrow> currency \<Rightarrow> lot option \<Rightarrow> inv_position \<Rightarrow> bool" where
  "in_slot A c l p \<longleftrightarrow> amt_currency (pos_units p) = c \<and> lot_equal A (pos_cost p) l"

abbreviation units_val :: "inv_position \<Rightarrow> rat" where
  "units_val p \<equiv> dval (amt_number (pos_units p))"

definition held :: "apd \<Rightarrow> inventory \<Rightarrow> currency \<Rightarrow> lot option \<Rightarrow> rat" where
  "held A iv c l = sum_list (map units_val (filter (in_slot A c l) iv))"

text \<open>The magnitude of everything held in a commodity.\<close>

definition gross :: "inventory \<Rightarrow> currency \<Rightarrow> rat" where
  "gross iv c = sum_list (map (\<lambda>p. if amt_currency (pos_units p) = c then \<bar>units_val p\<bar> else 0) iv)"

text \<open>No slot occurs twice, and no position is empty.\<close>

definition slots_distinct :: "apd \<Rightarrow> inventory \<Rightarrow> bool" where
  "slots_distinct A iv \<longleftrightarrow>
     sorted_wrt (\<lambda>p q. \<not> in_slot A (amt_currency (pos_units q)) (pos_cost q) p) iv"

definition no_empty :: "inventory \<Rightarrow> bool" where
  "no_empty iv \<longleftrightarrow> (\<forall>p\<in>set iv. units_val p \<noteq> 0)"

lemma held_Nil [simp]: "held A [] c l = 0"
  by (simp add: held_def)

lemma held_Cons: "held A (p # ps) c l = (if in_slot A c l p then units_val p else 0) + held A ps c l"
  by (simp add: held_def)

lemma inv_add_no_panic [simp]: "\<not> is_panic (inv_add A iv p)"
  by (induction iv) (auto simp: panic_simps)

lemma collect_no_panic [simp]: "\<not> is_panic (collect A c m i iv t)"
  by (induction iv arbitrary: i t) (auto simp: panic_simps)

lemma consume_no_panic [simp]: "\<not> is_panic (consume A cs r iv)"
  by (induction cs arbitrary: r iv) (auto simp: panic_simps Let_def)

lemma inv_reduce_no_panic [simp]: "\<not> is_panic (inv_reduce A iv u m b)"
  by (auto simp: inv_reduce_def panic_simps)

subsection \<open>\<open>Add\<close>\<close>

context apd_exact
begin

lemma in_slot_cong: "lot_equal A l r \<Longrightarrow> in_slot A c l p = in_slot A c r p"
  by (auto simp: in_slot_def intro: lot_equal_trans lot_equal_sym)

lemma in_slot_eq:
  "amt_currency (pos_units a) = amt_currency (pos_units b) \<Longrightarrow> lot_equal A (pos_cost a) (pos_cost b) \<Longrightarrow>
     in_slot A c l a = in_slot A c l b"
  unfolding in_slot_def using lot_equal_trans lot_equal_sym by metis

lemma in_slot_update_units [simp]:
  "in_slot A c l (p\<lparr>pos_units := (pos_units p)\<lparr>amt_number := n\<rparr>\<rparr>) = in_slot A c l p"
  by (simp add: in_slot_def)

text \<open>\<open>Add\<close> refines the addition of one position to the abstraction.\<close>

lemma inv_add_held:
  "inv_add A iv p = Inr iv' \<Longrightarrow>
     held A iv' c l = held A iv c l + (if in_slot A c l p then units_val p else 0)"
proof (induction iv arbitrary: iv')
  case Nil
  then show ?case by (auto simp: held_Cons)
next
  case (Cons e es)
  show ?case
  proof (cases "amt_currency (pos_units e) = amt_currency (pos_units p) \<and>
      lot_equal A (pos_cost e) (pos_cost p)")
    case True
    then have same: "in_slot A c l e = in_slot A c l p"
      by (intro in_slot_eq) auto
    from Cons.prems True obtain s where s: "apd_add A (amt_number (pos_units e)) (amt_number (pos_units p)) = Inr s"
      and iv': "iv' = (if apd_sign A s = 0 then es
        else e\<lparr>pos_units := (pos_units e)\<lparr>amt_number := s\<rparr>\<rparr> # es)"
      by (auto split: if_splits)
    from same iv' add_val [OF s] show ?thesis by (auto simp: held_Cons)
  next
    case False
    with Cons show ?thesis by (auto simp: held_Cons split: if_splits)
  qed
qed

lemma inv_add_slot_members:
  "inv_add A iv p = Inr iv' \<Longrightarrow> q \<in> set iv' \<Longrightarrow>
     in_slot A (amt_currency (pos_units p)) (pos_cost p) q \<or>
     (\<exists>e\<in>set iv. pos_cost q = pos_cost e \<and> amt_currency (pos_units q) = amt_currency (pos_units e))"
proof (induction iv arbitrary: iv')
  case Nil
  then show ?case by (auto simp: in_slot_def lot_equal_refl)
next
  case (Cons e es)
  then show ?case by (fastforce split: if_splits)
qed

lemma slots_distinct_Cons:
  "slots_distinct A (e # es) \<longleftrightarrow>
     (\<forall>q\<in>set es. \<not> in_slot A (amt_currency (pos_units q)) (pos_cost q) e) \<and> slots_distinct A es"
  by (simp add: slots_distinct_def)

lemma inv_add_distinct:
  "inv_add A iv p = Inr iv' \<Longrightarrow> slots_distinct A iv \<Longrightarrow> slots_distinct A iv'"
proof (induction iv arbitrary: iv')
  case Nil
  then show ?case by (auto simp: slots_distinct_def)
next
  case (Cons e es)
  show ?case
  proof (cases "amt_currency (pos_units e) = amt_currency (pos_units p) \<and>
      lot_equal A (pos_cost e) (pos_cost p)")
    case True
    with Cons.prems show ?thesis
      by (auto simp: slots_distinct_Cons split: if_splits)
  next
    case False
    with Cons.prems obtain es' where es': "inv_add A es p = Inr es'" and iv': "iv' = e # es'"
      by (auto split: if_splits)
    have "\<not> in_slot A (amt_currency (pos_units q)) (pos_cost q) e" if "q \<in> set es'" for q
    proof -
      from inv_add_slot_members [OF es' that] consider
        "in_slot A (amt_currency (pos_units p)) (pos_cost p) q"
        | x where "x \<in> set es" "pos_cost q = pos_cost x"
            "amt_currency (pos_units q) = amt_currency (pos_units x)" by blast
      then show ?thesis
      proof cases
        case 1
        with False show ?thesis
          unfolding in_slot_def using lot_equal_trans by metis
      next
        case 2
        with Cons.prems(2) show ?thesis by (auto simp: slots_distinct_Cons)
      qed
    qed
    with Cons es' iv' show ?thesis by (simp add: slots_distinct_Cons)
  qed
qed

lemma inv_add_no_empty:
  "inv_add A iv p = Inr iv' \<Longrightarrow> no_empty iv \<Longrightarrow> units_val p \<noteq> 0 \<Longrightarrow> no_empty iv'"
proof (induction iv arbitrary: iv')
  case Nil
  then show ?case by (auto simp: no_empty_def)
next
  case (Cons e es)
  then show ?case by (fastforce simp: no_empty_def split: if_splits)
qed

lemma inv_equal_refl: "inv_equal A i i"
proof -
  have "positions_equal A xs xs" for xs
    by (induction xs) (auto simp: lot_equal_refl)
  then show ?thesis by (simp add: inv_equal_def)
qed

lemma inv_equal_held:
  assumes "inv_equal A (Some i) (Some j)"
  shows "held A i c l = held A j c l"
proof -
  have "positions_equal A xs ys \<Longrightarrow> held A xs c l = held A ys c l" for xs ys
  proof (induction xs arbitrary: ys)
    case Nil
    then show ?case by (cases ys) auto
  next
    case (Cons a as)
    then obtain b bs where ys: "ys = b # bs" by (cases ys) auto
    with Cons.prems have "in_slot A c l a = in_slot A c l b"
      by (intro in_slot_eq) (auto split: if_splits)
    with Cons ys show ?case by (auto simp: held_Cons split: if_splits)
  qed
  with assms show ?thesis by (auto simp: inv_equal_def split: if_splits)
qed

end

end
