(* ===== verification/Reduction.thy ===== *)
theory Reduction
  imports Inventory
begin

text \<open>
  What \<open>Inventory.Reduce\<close> does: the lots are taken greedily in booking order (an abstract
  \<open>greedy\<close> distribution of the requested magnitude over the candidates' magnitudes), the
  inventory loses exactly what the steps record, nothing else changes, and each finding is
  reported exactly under its condition.
\<close>

section \<open>Greedy distribution\<close>

fun greedy :: "rat \<Rightarrow> rat list \<Rightarrow> rat list" where
  "greedy r [] = []"
| "greedy r (a # as) = min r a # greedy (r - min r a) as"

lemma greedy_0: "\<forall>a\<in>set as. 0 \<le> a \<Longrightarrow> greedy 0 as = replicate (length as) 0"
  by (induction as) auto

lemma greedy_sum: "0 \<le> r \<Longrightarrow> \<forall>a\<in>set as. 0 \<le> a \<Longrightarrow> sum_list (greedy r as) = min r (sum_list as)"
proof (induction as arbitrary: r)
  case Nil
  then show ?case by simp
next
  case (Cons a as)
  then have "sum_list (greedy (r - min r a) as) = min (r - min r a) (sum_list as)" by auto
  moreover have "0 \<le> sum_list as" using Cons.prems by (auto intro: sum_list_nonneg)
  ultimately show ?case by auto
qed

lemma sum_list_replicate_0 [simp]: "sum_list (replicate n (0::rat)) = 0"
  by (induction n) auto

abbreviation taken :: "reduction_step list \<Rightarrow> rat" where
  "taken steps \<equiv> sum_list (map (\<lambda>s. dval (rs_units s)) steps)"

section \<open>The candidates\<close>

abbreviation cand_mag :: "nat \<times> inv_position \<Rightarrow> rat" where
  "cand_mag c \<equiv> \<bar>units_val (snd c)\<bar>"

definition candidates :: "apd \<Rightarrow> currency \<Rightarrow> cost_matcher \<Rightarrow> inventory \<Rightarrow> (nat \<times> inv_position) list" where
  "candidates A c m iv = filter (\<lambda>x. is_candidate A c m (snd x)) (enumerate 0 iv)"

text \<open>The live positions the candidates point to.\<close>

definition points_to :: "(nat \<times> inv_position) list \<Rightarrow> inventory \<Rightarrow> bool" where
  "points_to cs iv \<longleftrightarrow> distinct (map fst cs) \<and> (\<forall>(i, p)\<in>set cs. i < length iv \<and> iv ! i = p)"

lemma points_to_candidates: "points_to (candidates A c m iv) iv"
  by (auto simp: points_to_def candidates_def in_set_enumerate_eq distinct_map_filter)

lemma mset_order [simp]: "mset (order_candidates m cs) = mset cs"
  by (simp add: order_candidates_def split: booking_method.splits)

lemma set_order [simp]: "set (order_candidates m cs) = set cs"
  using mset_order by (rule mset_eq_setD)

lemma length_order [simp]: "length (order_candidates m cs) = length cs"
  using mset_order by (rule mset_eq_length)

lemma sum_order: "sum_list (map f (order_candidates m cs)) = sum_list (map (f :: _ \<Rightarrow> rat) cs)"
  by (metis mset_order mset_map sum_mset_sum_list)

lemma points_to_order [simp]: "points_to (order_candidates m cs) iv = points_to cs iv"
proof -
  have "mset (map fst (order_candidates m cs)) = mset (map fst cs)"
    by (simp add: mset_map)
  then have "distinct (map fst (order_candidates m cs)) = distinct (map fst cs)"
    by (rule mset_eq_imp_distinct_iff)
  then show ?thesis by (simp add: points_to_def)
qed

lemma fifo_compare_eq: "fifo_compare =
    then_by (\<lambda>a b. cmp_compare (position_date (snd a)) (position_date (snd b)))
      (\<lambda>a b. cmp_compare (fst a) (fst b))"
  by (simp add: fun_eq_iff fifo_compare_def then_by_def time_compare_cmp)

interpretation fifo: comparator fifo_compare
  unfolding fifo_compare_eq by (intro comparator_then_by comparator_key)

lemma lifo_compare_eq: "lifo_compare =
    then_by (\<lambda>a b. cmp_compare (- position_date (snd a)) (- position_date (snd b)))
      (\<lambda>a b. cmp_compare (- int (fst a)) (- int (fst b)))"
  by (auto simp: fun_eq_iff lifo_compare_def then_by_def time_compare_def cmp_compare_def)

interpretation lifo: comparator lifo_compare
  unfolding lifo_compare_eq by (intro comparator_then_by comparator_key)

lemma fifo_sorted:
  "m \<noteq> BookingLIFO \<Longrightarrow> sorted (map (\<lambda>c. position_date (snd c)) (order_candidates m cs))"
  using fifo.sorted_sort_stable [of cs]
  by (auto simp: order_candidates_def sorted_map fifo_compare_def Let_def time_compare_def
      split: booking_method.splits if_splits elim!: sorted_wrt_mono_rel [rotated])

lemma lifo_sorted:
  "sorted (rev (map (\<lambda>c. position_date (snd c)) (order_candidates BookingLIFO cs)))"
  using lifo.sorted_sort_stable [of cs]
  by (auto simp: order_candidates_def sorted_wrt_rev sorted_wrt_map lifo_compare_def Let_def time_compare_def
      split: if_splits elim!: sorted_wrt_mono_rel [rotated])

text \<open>Each position keeps its commodity, its lot and its sign, and loses what was taken from it;
  positions that are no candidates keep their units.\<close>

definition shrunk :: "inventory \<Rightarrow> inventory \<Rightarrow> (nat \<Rightarrow> rat) \<Rightarrow> bool" where
  "shrunk iv iv' t \<longleftrightarrow> length iv' = length iv \<and>
     (\<forall>i<length iv. pos_cost (iv' ! i) = pos_cost (iv ! i) \<and>
        amt_currency (pos_units (iv' ! i)) = amt_currency (pos_units (iv ! i)) \<and>
        units_val (iv' ! i) = units_val (iv ! i) - sgn (units_val (iv ! i)) * t i \<and>
        0 \<le> t i \<and> t i \<le> \<bar>units_val (iv ! i)\<bar>)"

lemma filter_list_update_out:
  "\<not> P (xs ! i) \<Longrightarrow> \<not> P y \<Longrightarrow> filter P (xs[i := y]) = filter P xs"
proof (induction xs arbitrary: i)
  case Nil
  then show ?case by simp
next
  case (Cons x xs)
  then show ?case by (cases i) auto
qed

lemma is_candidate_update_units [simp]:
  "is_candidate A c m (p\<lparr>pos_units := (pos_units p)\<lparr>amt_number := n\<rparr>\<rparr>) = is_candidate A c m p"
  by (simp add: is_candidate_def position_lot_def)

section \<open>The loops\<close>

context apd_exact
begin

lemma collect_spec_aux:
  "collect A c m i iv t = Inr (cs, cash, t') \<Longrightarrow>
     cs = filter (\<lambda>x. is_candidate A c m (snd x)) (enumerate i iv) \<and>
     cash = (\<forall>x\<in>set cs. pos_cost (snd x) = None) \<and>
     dval t' = dval t + sum_list (map cand_mag cs)"
proof (induction iv arbitrary: i t cs cash)
  case Nil
  then show ?case by auto
next
  case (Cons p ps)
  show ?case
  proof (cases "is_candidate A c m p")
    case False
    with Cons show ?thesis by simp
  next
    case True
    with Cons.prems obtain mag t1 cs1 cash1 where
      mag: "apd_abs A (amt_number (pos_units p)) = Inr mag" and t1: "apd_add A t mag = Inr t1"
      and rest: "collect A c m (Suc i) ps t1 = Inr (cs1, cash1, t')"
      and cs: "cs = (i, p) # cs1" and cash: "cash = (pos_cost p = None \<and> cash1)"
      by auto
    from Cons.IH [OF rest] True cs cash abs_val [OF mag] add_val [OF t1] show ?thesis by simp
  qed
qed

lemma collect_spec:
  assumes "collect A c m 0 iv dzero = Inr (cs, cash, t)"
  shows "cs = candidates A c m iv" and "cash \<longleftrightarrow> (\<forall>x\<in>set cs. pos_cost (snd x) = None)"
    and "dval t = sum_list (map cand_mag cs)"
  using collect_spec_aux [OF assms] by (auto simp: candidates_def)

text \<open>One turn of the consuming loop.\<close>

lemma wrap_if_Inr: "(if b then wrap_err c x else wrap_err d y) = Inr z \<longleftrightarrow> (if b then x else y) = Inr z"
  by simp

lemma consume_step:
  assumes "consume A ((i, c) # cs) r iv = Inr (iv', steps)" and "apd_sign A r \<noteq> 0"
    and "0 \<le> dval r"
  obtains t u' r' steps' where
    "dval t = min (dval r) \<bar>units_val (iv ! i)\<bar>"
    "dval u' = units_val (iv ! i) - sgn (units_val (iv ! i)) * dval t"
    "dval r' = dval r - dval t"
    "consume A cs r' (iv[i := (iv ! i)\<lparr>pos_units := (pos_units (iv ! i))\<lparr>amt_number := u'\<rparr>\<rparr>])
       = Inr (iv', steps')"
    "steps = \<lparr>rs_lot = position_lot (iv ! i), rs_units = t, rs_sale_price = None, rs_gain = None,
       rs_gain_currency = []\<rparr> # steps'"
proof -
  let ?u = "amt_number (pos_units (iv ! i))"
  from assms(1,2) obtain av u' r' steps' where av: "apd_abs A ?u = Inr av"
    and u': "(if 0 \<le> apd_sign A ?u
       then apd_sub A ?u (if 0 \<le> apd_cmp A r av then av else r)
       else apd_add A ?u (if 0 \<le> apd_cmp A r av then av else r)) = Inr u'"
    and r': "apd_sub A r (if 0 \<le> apd_cmp A r av then av else r) = Inr r'"
    and rest: "consume A cs r' (iv[i := (iv ! i)\<lparr>pos_units := (pos_units (iv ! i))\<lparr>amt_number := u'\<rparr>\<rparr>])
       = Inr (iv', steps')"
    and steps: "steps = \<lparr>rs_lot = position_lot (iv ! i),
       rs_units = (if 0 \<le> apd_cmp A r av then av else r), rs_sale_price = None, rs_gain = None,
       rs_gain_currency = []\<rparr> # steps'"
    by (simp only: consume.simps if_False Let_def rbind_eq_Inr wrap_if_Inr wrap_err_eq_Inr) auto
  define t where "t = (if 0 \<le> apd_cmp A r av then av else r)"
  have t: "dval t = min (dval r) \<bar>units_val (iv ! i)\<bar>"
    using abs_val [OF av] by (auto simp: t_def)
  moreover have "dval u' = units_val (iv ! i) - sgn (units_val (iv ! i)) * dval t"
    using u' t assms(3) unfolding t_def [symmetric]
    by (auto simp: sgn_if dest!: sub_val add_val split: if_splits)
  moreover have "dval r' = dval r - dval t"
    using r' unfolding t_def [symmetric] by (rule sub_val)
  ultimately show thesis
    using that rest steps unfolding t_def [symmetric] by blast
qed

lemma consume_greedy:
  "consume A cs r iv = Inr (iv', steps) \<Longrightarrow> points_to cs iv \<Longrightarrow> 0 \<le> dval r \<Longrightarrow>
     length steps \<le> length cs \<and>
     map (\<lambda>s. dval (rs_units s)) steps @ replicate (length cs - length steps) 0 = greedy (dval r) (map cand_mag cs) \<and>
     map rs_lot steps = map (position_lot \<circ> snd) (take (length steps) cs)"
proof (induction cs arbitrary: r iv steps)
  case Nil
  then show ?case by simp
next
  case (Cons x cs)
  obtain i c where x: "x = (i, c)" by (cases x)
  with Cons.prems have i: "i < length iv" "iv ! i = c" by (auto simp: points_to_def)
  show ?case
  proof (cases "apd_sign A r = 0")
    case True
    with Cons.prems x show ?thesis by (auto simp: greedy_0)
  next
    case False
    from consume_step [OF Cons.prems(1) [unfolded x] False Cons.prems(3)] obtain t u' r' steps' where
      t: "dval t = min (dval r) \<bar>units_val (iv ! i)\<bar>" and r': "dval r' = dval r - dval t"
      and rest: "consume A cs r' (iv[i := (iv ! i)\<lparr>pos_units := (pos_units (iv ! i))\<lparr>amt_number := u'\<rparr>\<rparr>])
         = Inr (iv', steps')"
      and steps: "steps = \<lparr>rs_lot = position_lot (iv ! i), rs_units = t, rs_sale_price = None,
         rs_gain = None, rs_gain_currency = []\<rparr> # steps'" by metis
    have "points_to cs (iv[i := (iv ! i)\<lparr>pos_units := (pos_units (iv ! i))\<lparr>amt_number := u'\<rparr>\<rparr>])"
      using Cons.prems(2) x by (auto simp: points_to_def nth_list_update split: prod.splits) force+
    moreover have "0 \<le> dval r'" using t r' by simp
    ultimately show ?thesis
      using Cons.IH [OF rest] steps t r' i x by simp
  qed
qed

lemma consume_shrunk:
  "consume A cs r iv = Inr (iv', steps) \<Longrightarrow> points_to cs iv \<Longrightarrow> 0 \<le> dval r \<Longrightarrow>
     \<exists>t. shrunk iv iv' t \<and> (\<forall>i. i \<notin> fst ` set cs \<longrightarrow> t i = 0) \<and>
       (\<Sum>i<length iv. t i) = taken steps"
proof (induction cs arbitrary: r iv steps)
  case Nil
  then show ?case by (intro exI [of _ "\<lambda>_. 0"]) (auto simp: shrunk_def)
next
  case (Cons x cs)
  obtain i c where x: "x = (i, c)" by (cases x)
  with Cons.prems have i: "i < length iv" "iv ! i = c" "i \<notin> fst ` set cs"
    by (auto simp: points_to_def)
  show ?case
  proof (cases "apd_sign A r = 0")
    case True
    with Cons.prems x show ?thesis
      by (intro exI [of _ "\<lambda>_. 0"]) (auto simp: shrunk_def)
  next
    case False
    from consume_step [OF Cons.prems(1) [unfolded x] False Cons.prems(3)] obtain tk u' r' steps' where
      tk: "dval tk = min (dval r) \<bar>units_val (iv ! i)\<bar>" and r': "dval r' = dval r - dval tk"
      and u': "dval u' = units_val (iv ! i) - sgn (units_val (iv ! i)) * dval tk"
      and rest: "consume A cs r' (iv[i := (iv ! i)\<lparr>pos_units := (pos_units (iv ! i))\<lparr>amt_number := u'\<rparr>\<rparr>])
         = Inr (iv', steps')"
      and steps: "steps = \<lparr>rs_lot = position_lot (iv ! i), rs_units = tk, rs_sale_price = None,
         rs_gain = None, rs_gain_currency = []\<rparr> # steps'" by metis
    let ?iv1 = "iv[i := (iv ! i)\<lparr>pos_units := (pos_units (iv ! i))\<lparr>amt_number := u'\<rparr>\<rparr>]"
    have "points_to cs ?iv1"
      using Cons.prems(2) x by (auto simp: points_to_def nth_list_update split: prod.splits) force+
    moreover have "0 \<le> dval r'" using tk r' by simp
    ultimately obtain t where t: "shrunk ?iv1 iv' t" "\<forall>j. j \<notin> fst ` set cs \<longrightarrow> t j = 0"
      "(\<Sum>j<length iv. t j) = taken steps'"
      using Cons.IH [OF rest] by (metis length_list_update)
    with i have ti: "t i = 0" by blast
    have "shrunk iv iv' (t(i := dval tk))"
      unfolding shrunk_def
    proof (intro conjI allI impI)
      show "length iv' = length iv" using t(1) by (simp add: shrunk_def)
      fix j assume j: "j < length iv"
      show "pos_cost (iv' ! j) = pos_cost (iv ! j)"
        and "amt_currency (pos_units (iv' ! j)) = amt_currency (pos_units (iv ! j))"
        using t(1) j i(1) by (cases "j = i"; simp add: shrunk_def)+
      show "units_val (iv' ! j) = units_val (iv ! j) - sgn (units_val (iv ! j)) * (t(i := dval tk)) j"
        using t(1) j ti u' i(1) by (auto simp: shrunk_def nth_list_update split: if_splits)
      show "0 \<le> (t(i := dval tk)) j" and "(t(i := dval tk)) j \<le> \<bar>units_val (iv ! j)\<bar>"
        using t(1) j tk Cons.prems(3) by (auto simp: shrunk_def nth_list_update split: if_splits)
    qed
    moreover have "(\<Sum>j<length iv. (t(i := dval tk)) j) = dval tk + (\<Sum>j<length iv. t j)"
    proof -
      have "(\<Sum>j<length iv. (t(i := dval tk)) j) = dval tk + (\<Sum>j\<in>{..<length iv} - {i}. t j)"
        using i(1) by (subst sum.remove [of _ i]) (auto intro!: sum.cong)
      also have "(\<Sum>j\<in>{..<length iv} - {i}. t j) = (\<Sum>j<length iv. t j)"
        using i(1) ti by (subst (2) sum.remove [of _ i]) auto
      finally show ?thesis .
    qed
    ultimately show ?thesis
      using t x steps by (intro exI [of _ "t(i := dval tk)"]) (auto simp del: fun_upd_apply, simp)
  qed
qed

text \<open>Positions outside the candidates are kept as they are.\<close>

lemma consume_others:
  "consume A cs r iv = Inr (iv', steps) \<Longrightarrow> points_to cs iv \<Longrightarrow>
     \<forall>x\<in>set cs. is_candidate A c m (snd x) \<Longrightarrow>
     filter (\<lambda>p. \<not> is_candidate A c m p) iv' = filter (\<lambda>p. \<not> is_candidate A c m p) iv"
proof (induction cs arbitrary: r iv steps)
  case Nil
  then show ?case by simp
next
  case (Cons x cs)
  obtain i p where x: "x = (i, p)" by (cases x)
  with Cons.prems have i: "i < length iv" "iv ! i = p" "is_candidate A c m p"
    by (auto simp: points_to_def)
  show ?case
  proof (cases "apd_sign A r = 0")
    case True
    with Cons.prems x show ?thesis by simp
  next
    case False
    with Cons.prems(1) x obtain u' r' steps' where
      rest: "consume A cs r' (iv[i := (iv ! i)\<lparr>pos_units := (pos_units (iv ! i))\<lparr>amt_number := u'\<rparr>\<rparr>])
         = Inr (iv', steps')"
      by (simp only: consume.simps if_False Let_def rbind_eq_Inr wrap_if_Inr wrap_err_eq_Inr) auto
    have "points_to cs (iv[i := (iv ! i)\<lparr>pos_units := (pos_units (iv ! i))\<lparr>amt_number := u'\<rparr>\<rparr>])"
      using Cons.prems(2) x by (auto simp: points_to_def nth_list_update split: prod.splits) force+
    from Cons.IH [OF rest this] Cons.prems(3) i show ?thesis
      by (simp add: filter_list_update_out is_candidate_update_units)
  qed
qed

text \<open>What a shrunk inventory still holds.\<close>

end

lemma gross_nth: "gross iv c = (\<Sum>i<length iv. if amt_currency (pos_units (iv ! i)) = c then \<bar>units_val (iv ! i)\<bar> else 0)"
  by (simp add: gross_def sum_list_sum_nth atLeast0LessThan)

lemma abs_shrink: "0 \<le> t \<Longrightarrow> t \<le> \<bar>u\<bar> \<Longrightarrow> \<bar>u - sgn u * t\<bar> = \<bar>u\<bar> - (t :: rat)"
  by (cases "0 < u"; cases "u = 0") auto

lemma gross_shrunk:
  assumes "shrunk iv iv' t"
    and "\<And>i. i < length iv \<Longrightarrow> amt_currency (pos_units (iv ! i)) \<noteq> c \<Longrightarrow> t i = 0"
  shows "gross iv' d = gross iv d - (if d = c then \<Sum>i<length iv. t i else 0)"
proof -
  let ?g = "\<lambda>i. if amt_currency (pos_units (iv ! i)) = d then \<bar>units_val (iv ! i)\<bar> else 0"
  have "gross iv' d = (\<Sum>i<length iv. ?g i - (if d = c then t i else 0))"
    unfolding gross_nth
  proof (rule sum.cong)
    show "{..<length iv'} = {..<length iv}" using assms(1) by (simp add: shrunk_def)
    fix i assume "i \<in> {..<length iv}"
    then show "(if amt_currency (pos_units (iv' ! i)) = d then \<bar>units_val (iv' ! i)\<bar> else 0) =
        ?g i - (if d = c then t i else 0)"
      using assms by (auto simp: shrunk_def abs_shrink)
  qed
  then show ?thesis by (simp add: gross_nth sum_subtractf)
qed

lemma gross_filter [simp]:
  "(\<And>p. p \<in> set iv \<Longrightarrow> \<not> P p \<Longrightarrow> units_val p = 0) \<Longrightarrow> gross (filter P iv) c = gross iv c"
  by (induction iv) (auto simp: gross_def)

lemma slots_distinct_shrunk:
  assumes "shrunk iv iv' t" and "slots_distinct A iv"
  shows "slots_distinct A iv'"
  using assms unfolding slots_distinct_def sorted_wrt_iff_nth_less
  by (auto simp: shrunk_def in_slot_def)

lemma slots_distinct_filter: "slots_distinct A iv \<Longrightarrow> slots_distinct A (filter P iv)"
  unfolding slots_distinct_def by (rule sorted_wrt_filter)

text \<open>No position changes its sign: a reduction never turns a holding into a short one.\<close>

lemma shrunk_sign:
  assumes "shrunk iv iv' t" and "i < length iv"
  shows "units_val (iv' ! i) = 0 \<or> sgn (units_val (iv' ! i)) = sgn (units_val (iv ! i))"
proof -
  have "\<lbrakk>0 \<le> s; s \<le> \<bar>u\<bar>\<rbrakk> \<Longrightarrow> u - sgn u * s = 0 \<or> sgn (u - sgn u * s) = sgn u" for u s :: rat
    by (cases "0 < u"; cases "u = 0") (auto simp: sgn_if)
  with assms show ?thesis by (auto simp: shrunk_def)
qed

section \<open>\<open>Reduce\<close>\<close>

definition available :: "(nat \<times> inv_position) list \<Rightarrow> rat" where
  "available cs = sum_list (map cand_mag cs)"

text \<open>What \<open>Reduce\<close> promises to answer: the code of the finding, or none.\<close>

definition reduce_verdict ::
  "apd \<Rightarrow> inventory \<Rightarrow> amount \<Rightarrow> cost_matcher \<Rightarrow> booking_method \<Rightarrow> string option" where
  "reduce_verdict A iv units m b =
     (let cs = candidates A (amt_currency units) m iv; r = \<bar>dval (amt_number units)\<bar>
      in if b = BookingAverage then Some ''invalid-booking-method''
         else if r = 0 then None
         else if cs = [] then Some ''no-matching-lot''
         else if (\<exists>x\<in>set cs. pos_cost (snd x) \<noteq> None) \<and> available cs < r
           then Some ''reduction-exceeds-inventory''
         else if (b = BookingStrict \<or> b = BookingDefault) \<and> 1 < length cs \<and> r < available cs
           then Some ''ambiguous-lot-match''
         else None)"

definition verdict_of :: "diagnostic + 'a \<Rightarrow> string option" where
  "verdict_of r = (case r of Inl d \<Rightarrow> Some (diag_code d) | Inr _ \<Rightarrow> None)"

lemma available_nonneg: "0 \<le> available cs"
  unfolding available_def by (rule sum_list_nonneg) auto

context apd_exact
begin

lemma inv_reduce_verdict:
  assumes "inv_reduce A iv units m b = Inr r"
  shows "verdict_of r = reduce_verdict A iv units m b"
proof (cases "b = BookingAverage")
  case True
  with assms show ?thesis by (auto simp: inv_reduce_def reduce_verdict_def verdict_of_def)
next
  case False
  with assms obtain r0 where r0: "apd_abs A (amt_number units) = Inr r0"
    by (auto simp: inv_reduce_def split: if_splits)
  note v = abs_val [OF r0]
  show ?thesis
  proof (cases "apd_sign A r0 = 0")
    case True
    with False assms r0 v show ?thesis
      by (auto simp: inv_reduce_def reduce_verdict_def verdict_of_def split: if_splits)
  next
    case nz: False
    with False assms r0 obtain cs cash av where
      c: "collect A (amt_currency units) m 0 iv dzero = Inr (cs, cash, av)"
      by (auto simp: inv_reduce_def split: if_splits)
    note cs = collect_spec [OF c]
    have av: "dval av = available cs" using cs(3) by (simp add: available_def)
    have nz': "dval (amt_number units) \<noteq> 0" using nz v by simp
    show ?thesis
      using False assms r0 nz c nz' cs(2) av v
      by (auto simp: inv_reduce_def reduce_verdict_def verdict_of_def cs(1) [symmetric] Let_def
          split: if_splits)
  qed
qed

lemma inv_reduce_ok:
  assumes "inv_reduce A iv units m b = Inr (Inr (steps, iv'))" and "dval (amt_number units) \<noteq> 0"
  obtains r iv1 where
    "dval r = \<bar>dval (amt_number units)\<bar>"
    "consume A (order_candidates b (candidates A (amt_currency units) m iv)) r iv = Inr (iv1, steps)"
    "iv' = filter (\<lambda>p. apd_sign A (amt_number (pos_units p)) \<noteq> 0) iv1"
proof -
  from assms obtain r0 where r0: "apd_abs A (amt_number units) = Inr r0"
    by (auto simp: inv_reduce_def split: if_splits)
  note v = abs_val [OF r0]
  with assms have "apd_sign A r0 \<noteq> 0" by simp
  with assms(1) r0 obtain cs cash av iv1 where
    c: "collect A (amt_currency units) m 0 iv dzero = Inr (cs, cash, av)" and
    k: "consume A (order_candidates b cs) r0 iv = Inr (iv1, steps)" and
    iv': "iv' = filter (\<lambda>p. apd_sign A (amt_number (pos_units p)) \<noteq> 0) iv1"
    by (auto simp: inv_reduce_def split: if_splits)
  with that v collect_spec [OF c] show thesis by simp
qed

lemma candidate_currency:
  "x \<in> set (candidates A c m iv) \<Longrightarrow> is_candidate A c m (snd x) \<and> amt_currency (pos_units (snd x)) = c"
  by (auto simp: candidates_def is_candidate_def)

lemma points_to_booked: "points_to (order_candidates b (candidates A c m iv)) iv"
  by (simp add: points_to_candidates)

lemma taken_greedy:
  assumes "map (\<lambda>s. dval (rs_units s)) steps @ replicate n 0 = greedy r as"
    and "0 \<le> r" and "\<forall>a\<in>set as. 0 \<le> a"
  shows "taken steps = min r (sum_list as)"
  using arg_cong [OF assms(1), of sum_list] greedy_sum [OF assms(2,3)] by simp

lemma reduce_greedy:
  assumes "inv_reduce A iv units m b = Inr (Inr (steps, iv'))" and "dval (amt_number units) \<noteq> 0"
  defines "cs \<equiv> order_candidates b (candidates A (amt_currency units) m iv)"
  shows "length steps \<le> length cs"
    and "map (\<lambda>s. dval (rs_units s)) steps @ replicate (length cs - length steps) 0 =
      greedy \<bar>dval (amt_number units)\<bar> (map cand_mag cs)"
    and "map rs_lot steps = map (position_lot \<circ> snd) (take (length steps) cs)"
proof -
  obtain r iv1 where r: "dval r = \<bar>dval (amt_number units)\<bar>" and c: "consume A cs r iv = Inr (iv1, steps)"
    using inv_reduce_ok [OF assms(1,2)] unfolding cs_def .
  from r have "0 \<le> dval r" by simp
  from consume_greedy [OF c [unfolded cs_def] points_to_booked this] r
  show "length steps \<le> length cs"
    and "map (\<lambda>s. dval (rs_units s)) steps @ replicate (length cs - length steps) 0 =
      greedy \<bar>dval (amt_number units)\<bar> (map cand_mag cs)"
    and "map rs_lot steps = map (position_lot \<circ> snd) (take (length steps) cs)"
    by (simp_all add: cs_def)
qed

lemma reduce_taken:
  assumes "inv_reduce A iv units m b = Inr (Inr (steps, iv'))" and "dval (amt_number units) \<noteq> 0"
  shows "taken steps = min \<bar>dval (amt_number units)\<bar>
    (available (candidates A (amt_currency units) m iv))"
proof -
  have "taken steps = min \<bar>dval (amt_number units)\<bar>
      (sum_list (map cand_mag (order_candidates b (candidates A (amt_currency units) m iv))))"
    by (rule taken_greedy [OF reduce_greedy(2) [OF assms]]) auto
  then show ?thesis by (simp only: available_def sum_order)
qed

text \<open>A zero request takes nothing.\<close>

lemma reduce_zero:
  assumes "inv_reduce A iv units m b = Inr (Inr (steps, iv'))" and "dval (amt_number units) = 0"
  shows "steps = []" and "iv' = iv"
  using assms by (auto simp: inv_reduce_def dest!: abs_val split: if_splits)

lemma reduce_taken_all:
  assumes "inv_reduce A iv units m b = Inr (Inr (steps, iv'))"
    and "x \<in> set (candidates A (amt_currency units) m iv)" and "pos_cost (snd x) \<noteq> None"
  shows "taken steps = \<bar>dval (amt_number units)\<bar>"
proof (cases "dval (amt_number units) = 0")
  case True
  with reduce_zero [OF assms(1)] show ?thesis by simp
next
  case False
  have "b \<noteq> BookingAverage" using assms(1) by (auto simp: inv_reduce_def)
  with inv_reduce_verdict [OF assms(1)] assms(2,3) False
  have "\<not> available (candidates A (amt_currency units) m iv) < \<bar>dval (amt_number units)\<bar>"
    by (auto simp: verdict_of_def reduce_verdict_def Let_def split: if_splits)
  with reduce_taken [OF assms(1) False] show ?thesis by simp
qed

lemma reduce_shrunk:
  assumes "inv_reduce A iv units m b = Inr (Inr (steps, iv'))" and "dval (amt_number units) \<noteq> 0"
  obtains iv1 t where "shrunk iv iv1 t" and "iv' = filter (\<lambda>p. units_val p \<noteq> 0) iv1"
    and "(\<Sum>i<length iv. t i) = taken steps"
    and "\<And>i. i < length iv \<Longrightarrow> amt_currency (pos_units (iv ! i)) \<noteq> amt_currency units \<Longrightarrow> t i = 0"
    and "filter (\<lambda>p. \<not> is_candidate A (amt_currency units) m p) iv1 =
      filter (\<lambda>p. \<not> is_candidate A (amt_currency units) m p) iv"
proof -
  let ?cs = "order_candidates b (candidates A (amt_currency units) m iv)"
  obtain r iv1 where r: "dval r = \<bar>dval (amt_number units)\<bar>"
    and c: "consume A ?cs r iv = Inr (iv1, steps)"
    and iv': "iv' = filter (\<lambda>p. apd_sign A (amt_number (pos_units p)) \<noteq> 0) iv1"
    using inv_reduce_ok [OF assms] .
  from r have "0 \<le> dval r" by simp
  from consume_shrunk [OF c points_to_booked this] obtain t where
    t: "shrunk iv iv1 t" "\<forall>i. i \<notin> fst ` set ?cs \<longrightarrow> t i = 0" "(\<Sum>i<length iv. t i) = taken steps"
    by blast
  have "t i = 0" if "i < length iv" "amt_currency (pos_units (iv ! i)) \<noteq> amt_currency units" for i
  proof -
    have "i \<notin> fst ` set ?cs"
      using that by (auto simp: candidates_def in_set_enumerate_eq is_candidate_def)
    with t(2) show ?thesis by blast
  qed
  moreover have "filter (\<lambda>p. \<not> is_candidate A (amt_currency units) m p) iv1 =
      filter (\<lambda>p. \<not> is_candidate A (amt_currency units) m p) iv"
    using consume_others [OF c points_to_booked] candidate_currency by fastforce
  ultimately show thesis using that t iv' by simp
qed

text \<open>The inventory loses exactly what the steps took, in the reduced commodity only.\<close>

lemma reduce_gross:
  assumes "inv_reduce A iv units m b = Inr (Inr (steps, iv'))"
  shows "gross iv' c = gross iv c - (if c = amt_currency units then taken steps else 0)"
proof (cases "dval (amt_number units) = 0")
  case True
  with reduce_zero [OF assms] show ?thesis by simp
next
  case False
  from reduce_shrunk [OF assms False] obtain iv1 t where *: "shrunk iv iv1 t"
    "iv' = filter (\<lambda>p. units_val p \<noteq> 0) iv1" "(\<Sum>i<length iv. t i) = taken steps"
    "\<And>i. i < length iv \<Longrightarrow> amt_currency (pos_units (iv ! i)) \<noteq> amt_currency units \<Longrightarrow> t i = 0"
    by blast
  have "gross iv' c = gross iv1 c" unfolding *(2) by (rule gross_filter) simp
  with gross_shrunk [OF *(1), of "amt_currency units" c] *(3,4) show ?thesis by simp
qed

lemma reduce_others:
  assumes "inv_reduce A iv units m b = Inr (Inr (steps, iv'))" and "no_empty iv"
  shows "filter (\<lambda>p. \<not> is_candidate A (amt_currency units) m p) iv' =
    filter (\<lambda>p. \<not> is_candidate A (amt_currency units) m p) iv"
proof (cases "dval (amt_number units) = 0")
  case True
  with reduce_zero [OF assms(1)] show ?thesis by simp
next
  case False
  from reduce_shrunk [OF assms(1) False] obtain iv1 where
    1: "iv' = filter (\<lambda>p. units_val p \<noteq> 0) iv1" and
    2: "filter (\<lambda>p. \<not> is_candidate A (amt_currency units) m p) iv1 =
      filter (\<lambda>p. \<not> is_candidate A (amt_currency units) m p) iv" by metis
  have "filter (\<lambda>p. \<not> is_candidate A (amt_currency units) m p) iv' =
      filter (\<lambda>p. units_val p \<noteq> 0) (filter (\<lambda>p. \<not> is_candidate A (amt_currency units) m p) iv1)"
    by (simp add: 1 conj_commute)
  also have "\<dots> = filter (\<lambda>p. \<not> is_candidate A (amt_currency units) m p) iv"
    unfolding 2 using assms(2) by (auto simp: no_empty_def intro!: filter_cong)
  finally show ?thesis .
qed

lemma reduce_distinct:
  assumes "inv_reduce A iv units m b = Inr (Inr (steps, iv'))" and "slots_distinct A iv"
  shows "slots_distinct A iv'"
proof (cases "dval (amt_number units) = 0")
  case True
  with reduce_zero [OF assms(1)] assms show ?thesis by simp
next
  case False
  from reduce_shrunk [OF assms(1) False] obtain iv1 t where "shrunk iv iv1 t"
    "iv' = filter (\<lambda>p. units_val p \<noteq> 0) iv1" by metis
  with assms(2) show ?thesis
    by (auto intro: slots_distinct_filter slots_distinct_shrunk)
qed

lemma reduce_no_empty:
  assumes "inv_reduce A iv units m b = Inr (Inr (steps, iv'))" and "no_empty iv"
  shows "no_empty iv'"
proof (cases "dval (amt_number units) = 0")
  case True
  with reduce_zero [OF assms(1)] assms show ?thesis by simp
next
  case False
  from reduce_shrunk [OF assms(1) False] obtain iv1 where
    "iv' = filter (\<lambda>p. units_val p \<noteq> 0) iv1" by metis
  then show ?thesis by (auto simp: no_empty_def)
qed

text \<open>The lots come off in date order, oldest first except under LIFO.\<close>

lemma reduce_dates:
  assumes "inv_reduce A iv units m b = Inr (Inr (steps, iv'))"
    and "\<forall>p\<in>set iv. pos_cost p \<noteq> None"
  shows "sorted (map (\<lambda>s. lot_date (rs_lot s)) (if b = BookingLIFO then rev steps else steps))"
proof (cases "dval (amt_number units) = 0")
  case True
  with reduce_zero [OF assms(1)] show ?thesis by simp
next
  case False
  define cs where "cs = order_candidates b (candidates A (amt_currency units) m iv)"
  have "lot_date (position_lot (snd x)) = position_date (snd x)" if "x \<in> set cs" for x
    using that assms(2) by (auto simp: cs_def candidates_def position_lot_def position_date_def
        in_set_enumerate_eq zero_lot_def split: option.splits)
  then have "map (lot_date \<circ> rs_lot) steps = take (length steps) (map (\<lambda>x. position_date (snd x)) cs)"
    using arg_cong [OF reduce_greedy(3) [OF assms(1) False], of "map lot_date"]
    by (auto simp: cs_def take_map dest: in_set_takeD)
  then show ?thesis
    using lifo_sorted [of "candidates A (amt_currency units) m iv"]
      fifo_sorted [of b "candidates A (amt_currency units) m iv"]
    by (auto simp: cs_def rev_map [symmetric] sorted_wrt_rev comp_def sorted_wrt_take)
qed

end

context apd_total
begin

lemma collect_total: "\<exists>x. collect A c m i iv t = Inr x"
proof (induction iv arbitrary: i t)
  case Nil
  then show ?case by auto
next
  case (Cons p ps)
  obtain a where "apd_abs A (amt_number (pos_units p)) = Inr a" using abs_total by blast
  moreover obtain s where "apd_add A t a = Inr s" using add_total by blast
  ultimately show ?case using Cons.IH [of "Suc i" t] Cons.IH [of "Suc i" s] by (auto split: prod.splits)
qed

lemma consume_total: "\<exists>x. consume A cs r iv = Inr x"
proof (induction cs arbitrary: r iv)
  case Nil
  then show ?case by auto
next
  case (Cons x cs)
  obtain i c where x: "x = (i, c)" by (cases x)
  let ?u = "amt_number (pos_units (iv ! i))"
  obtain av where av: "apd_abs A ?u = Inr av" using abs_total by blast
  define t where "t = (if 0 \<le> apd_cmp A r av then av else r)"
  obtain r' where r': "apd_sub A r t = Inr r'" using sub_total by blast
  obtain u' where u': "(if 0 \<le> apd_sign A ?u then apd_sub A ?u t else apd_add A ?u t) = Inr u'"
    using sub_total add_total by metis
  have u'': "(if 0 \<le> apd_sign A ?u then wrap_err a (apd_sub A ?u t) else wrap_err b (apd_add A ?u t)) = Inr u'"
    for a b using u' by (auto split: if_splits)
  obtain iv2 st where "consume A cs r' (iv[i := (iv ! i)\<lparr>pos_units := (pos_units (iv ! i))\<lparr>amt_number := u'\<rparr>\<rparr>]) = Inr (iv2, st)"
    using Cons.IH [of r'] by fastforce
  then show ?case
    unfolding x by (simp only: consume.simps Let_def av wrap_err_Inr rbind_Inr t_def [symmetric] u'' r'
        prod.case if_split_eq1) auto
qed

lemma inv_reduce_total:
  assumes "b \<noteq> BookingNone"
  shows "\<exists>r. inv_reduce A iv units m b = Inr r"
proof -
  obtain r0 where "apd_abs A (amt_number units) = Inr r0" using abs_total by blast
  moreover obtain cs cash av where "collect A (amt_currency units) m 0 iv dzero = Inr (cs, cash, av)"
    using collect_total [of "amt_currency units" m 0 iv dzero] by fastforce
  moreover obtain iv1 st where "consume A (order_candidates b cs) r0 iv = Inr (iv1, st)"
    using consume_total [of "order_candidates b cs" r0 iv] by fastforce
  ultimately show ?thesis using assms by (simp add: inv_reduce_def)
qed

end

end
