(* ===== verification/Booking.thy ===== *)
theory Booking
  imports Reduction
begin

text \<open>
  Routing one posting through an inventory (\<open>pkg/inventory/booking.go\<close>): augment or reduce,
  with the realized gain of a reduction. A nil \<open>*Inventory\<close> is None; the inventory the code
  mutates is returned.
\<close>

declare case_finding_Inr [simp]

section \<open>Classification\<close>

datatype posting_kind = KindAugment | KindReduce

definition spec_is_empty :: "cost_holder option \<Rightarrow> bool" where
  "spec_is_empty c =
     (case c of None \<Rightarrow> True
      | Some h \<Rightarrow>
          if get_per_unit h \<noteq> None \<or> get_total h \<noteq> None then False
          else if get_date h \<noteq> None then False
          else get_label h = [])"

definition cost_number_missing :: "cost_holder option \<Rightarrow> bool" where
  "cost_number_missing c =
     (case c of None \<Rightarrow> False
      | Some h \<Rightarrow> if is_booked h then False else get_per_unit h = None \<and> get_total h = None)"

definition hint_currency :: "posting \<Rightarrow> currency" where
  "hint_currency p =
     (let h = (case p_cost p of Some c \<Rightarrow> get_currency c | None \<Rightarrow> [])
      in if h = [] \<and> spec_is_empty (p_cost p)
         then (case p_price p of Some pr \<Rightarrow> amt_currency (pa_amount pr) | None \<Rightarrow> h)
         else h)"

definition classify :: "apd \<Rightarrow> inventory option \<Rightarrow> posting \<Rightarrow> booking_method \<Rightarrow> posting_kind result" where
  "classify A iv p m =
     (if m = BookingNone then Inr KindAugment
      else case p_amount p of
        None \<Rightarrow> Inl (Panic ''inventory.classify: posting has nil Amount (auto-postings must be resolved upstream)'')
      | Some amt \<Rightarrow>
         (case iv of None \<Rightarrow> Inr KindAugment
          | Some i \<Rightarrow>
              let hint = hint_currency p;
                  existing = inv_get i (amt_currency amt);
                  existing = (if hint \<noteq> []
                    then filter (\<lambda>q. case pos_cost q of Some l \<Rightarrow> lot_currency l = hint | None \<Rightarrow> False) existing
                    else existing)
              in (case existing of [] \<Rightarrow> Inr KindAugment
                  | e # _ \<Rightarrow>
                      if apd_sign A (amt_number amt) = 0 then Inr KindAugment
                      else if apd_sign A (amt_number (pos_units e)) = apd_sign A (amt_number amt)
                      then Inr KindAugment
                      else Inr KindReduce)))"

section \<open>Augmentation\<close>

text \<open>The finding, or the lot with the inventory after \<open>Add\<close>.\<close>

definition book_augment :: "apd \<Rightarrow> inventory option \<Rightarrow> posting \<Rightarrow> time \<Rightarrow>
    (diagnostic + (lot option \<times> inventory option)) result" where
  "book_augment A iv p txndate =
     (case p_amount p of
        None \<Rightarrow> Inl (Panic ''nil pointer dereference'')
      | Some amt \<Rightarrow>
          rbind (wrap_system_err p (resolve_lot A (p_cost p) amt txndate)) (\<lambda>r.
          case r of
            Inl finding \<Rightarrow> Inr (Inl (enrich_diagnostic finding p))
          | Inr l \<Rightarrow>
              (case iv of None \<Rightarrow> Inr (Inr (l, None))
               | Some i \<Rightarrow>
                   rbind (wrap_system_err p (inv_add A i \<lparr>pos_units = amt, pos_cost = l\<rparr>)) (\<lambda>i'.
                     Inr (Inr (l, Some i'))))))"

definition augment_cost_for :: "cost_holder option \<Rightarrow> lot option \<Rightarrow> cost_holder option result" where
  "augment_cost_for c l =
     (case c of
        Some (HCost k) \<Rightarrow> Inr (Some (HCost k))
      | Some (HSpec spec) \<Rightarrow>
          (case l of None \<Rightarrow> Inl (Panic ''nil pointer dereference'')
           | Some l \<Rightarrow> Inr (Some (HCost \<lparr>cost_number = lot_number l, cost_currency = lot_currency l,
               cost_date = lot_date l, cost_label = lot_label l,
               cost_per_unit = get_per_unit (HSpec spec), cost_total = get_total (HSpec spec)\<rparr>)))
      | None \<Rightarrow> Inr None)"

section \<open>Reduction\<close>

text \<open>The per-unit sale price; None when a total price meets zero units.\<close>

definition sale_price_per :: "apd \<Rightarrow> price_annotation \<Rightarrow> amount \<Rightarrow> decimal option result" where
  "sale_price_per A pr amt =
     (if pa_is_total pr
      then rbind (wrap_err ''inventory.fillRealizedGain: abs units'' (apd_abs A (amt_number amt))) (\<lambda>au.
           if apd_sign A au = 0 then Inr None
           else rbind (rewrap ''inventory.fillRealizedGain: divide total price''
                        (quo_normalized A quo_precision (amt_number (pa_amount pr)) au)) (\<lambda>q.
                Inr (Some q)))
      else Inr (Some (amt_number (pa_amount pr))))"

fun fill_steps :: "apd \<Rightarrow> decimal \<Rightarrow> currency \<Rightarrow> reduction_step list \<Rightarrow> reduction_step list result" where
  "fill_steps A sale cur [] = Inr []"
| "fill_steps A sale cur (s # ss) =
     rbind (wrap_err ''inventory.fillRealizedGain: sub lot cost'' (apd_sub A sale (lot_number (rs_lot s)))) (\<lambda>diff.
     rbind (wrap_err ''inventory.fillRealizedGain: mul units'' (apd_mul A diff (rs_units s))) (\<lambda>gain.
     rbind (fill_steps A sale cur ss) (\<lambda>ss'.
       Inr (s\<lparr>rs_sale_price := Some sale, rs_gain := Some gain, rs_gain_currency := cur\<rparr> # ss'))))"

definition fill_realized_gain :: "apd \<Rightarrow> reduction_step list \<Rightarrow> price_annotation \<Rightarrow> amount \<Rightarrow>
    reduction_step list result" where
  "fill_realized_gain A steps pr amt =
     rbind (sale_price_per A pr amt) (\<lambda>sale.
       case sale of None \<Rightarrow> Inr steps
       | Some s \<Rightarrow> fill_steps A s (amt_currency (pa_amount pr)) steps)"

definition book_reduce :: "apd \<Rightarrow> inventory option \<Rightarrow> posting \<Rightarrow> booking_method \<Rightarrow>
    (diagnostic + (reduction_step list \<times> inventory option)) result" where
  "book_reduce A iv p m =
     (case (p_amount p, iv) of
        (Some amt, Some i) \<Rightarrow>
          let price_ccy = (if spec_is_empty (p_cost p)
                then (case p_price p of Some pr \<Rightarrow> amt_currency (pa_amount pr) | None \<Rightarrow> [])
                else []);
              matcher = new_cost_matcher A (p_cost p) price_ccy (p_amount p)
          in rbind (wrap_system_err p (inv_reduce A i amt matcher m)) (\<lambda>r.
             case r of
               Inl finding \<Rightarrow> Inr (Inl (enrich_diagnostic finding p))
             | Inr (steps, i') \<Rightarrow>
                 rbind (case p_price p of
                          Some pr \<Rightarrow> if amt_currency (pa_amount pr) \<noteq> []
                                    then fill_realized_gain A steps pr amt else Inr steps
                        | None \<Rightarrow> Inr steps) (\<lambda>steps'.
                   Inr (Inr (steps', Some i'))))
      | _ \<Rightarrow> Inl (Panic ''nil pointer dereference''))"

section \<open>\<open>bookOne\<close>\<close>

text \<open>A finding, or the lot, the steps and the inventory.\<close>

definition book_one :: "apd \<Rightarrow> inventory option \<Rightarrow> posting \<Rightarrow> booking_method \<Rightarrow> time \<Rightarrow>
    (diagnostic + (lot option \<times> reduction_step list \<times> inventory option)) result" where
  "book_one A iv p m txndate =
     (if p_amount p = None
      then Inl (SysErr ''inventory.bookOne: nil Amount; auto-postings must be resolved before booking'')
      else rbind (classify A iv p m) (\<lambda>k.
        case k of
          KindAugment \<Rightarrow>
            rbind (book_augment A iv p txndate) (\<lambda>r.
              Inr (case r of Inl f \<Rightarrow> Inl f | Inr (l, iv') \<Rightarrow> Inr (l, [], iv')))
        | KindReduce \<Rightarrow>
            rbind (book_reduce A iv p m) (\<lambda>r.
              Inr (case r of Inl f \<Rightarrow> Inl f | Inr (steps, iv') \<Rightarrow> Inr (None, steps, iv')))))"

section \<open>Facts\<close>

lemma sale_price_per_no_panic [simp]: "\<not> is_panic (sale_price_per A pr amt)"
  by (simp add: sale_price_per_def panic_simps)

lemma fill_steps_no_panic [simp]: "\<not> is_panic (fill_steps A s c ss)"
  by (induction ss) (auto simp: panic_simps)

lemma fill_realized_gain_no_panic [simp]: "\<not> is_panic (fill_realized_gain A ss pr amt)"
  by (simp add: fill_realized_gain_def panic_simps)

lemma classify_reduce_Some: "classify A iv p m = Inr KindReduce \<Longrightarrow> \<exists>i. iv = Some i"
  by (auto simp: classify_def split: if_splits option.splits)

lemma book_one_no_panic [simp]: "\<not> is_panic (book_one A iv p m d)"
proof -
  have "\<not> is_panic (book_augment A iv p d)" if "p_amount p \<noteq> None"
    using that by (auto simp: book_augment_def panic_simps)
  moreover have "\<not> is_panic (book_reduce A iv p m)" if "p_amount p \<noteq> None" "iv \<noteq> None"
    using that by (auto simp: book_reduce_def panic_simps Let_def)
  moreover have "\<not> is_panic (classify A iv p m)" if "p_amount p \<noteq> None"
    using that by (auto simp: classify_def Let_def is_panic_def split: option.splits list.splits)
  ultimately show ?thesis
    using classify_reduce_Some [of A iv p m]
    by (auto simp: book_one_def is_panic_rbind split: posting_kind.splits)
qed

lemma fill_steps_keep:
  "fill_steps A s c ss = Inr ss' \<Longrightarrow> map rs_lot ss' = map rs_lot ss \<and> map rs_units ss' = map rs_units ss"
  by (induction ss arbitrary: ss') auto

lemma fill_realized_gain_keep:
  "fill_realized_gain A ss pr amt = Inr ss' \<Longrightarrow>
     map rs_lot ss' = map rs_lot ss \<and> map rs_units ss' = map rs_units ss"
  by (auto simp: fill_realized_gain_def fill_steps_keep split: option.splits)

lemma book_augment_ok:
  assumes "book_augment A (Some i) p d = Inr (Inr (l, iv'))"
  obtains amt i' where "p_amount p = Some amt" and "resolve_lot A (p_cost p) amt d = Inr (Inr l)"
    and "inv_add A i \<lparr>pos_units = amt, pos_cost = l\<rparr> = Inr i'" and "iv' = Some i'"
  using assms that by (auto simp: book_augment_def split: option.splits)

lemma book_reduce_ok:
  assumes "book_reduce A (Some i) p m = Inr (Inr (steps, iv'))"
  obtains amt i' steps0 mt where "p_amount p = Some amt" and "iv' = Some i'"
    and "inv_reduce A i amt mt m = Inr (Inr (steps0, i'))"
    and "map rs_lot steps = map rs_lot steps0" and "map rs_units steps = map rs_units steps0"
  using assms that
  by (auto simp: book_reduce_def Let_def dest: fill_realized_gain_keep split: option.splits if_splits)

text \<open>The two outcomes of a booked posting.\<close>

lemma book_one_cases:
  assumes "book_one A (Some i) p m d = Inr (Inr (l, steps, iv'))"
  obtains (augment) amt i' where "p_amount p = Some amt" "steps = []" "iv' = Some i'"
      "resolve_lot A (p_cost p) amt d = Inr (Inr l)"
      "inv_add A i \<lparr>pos_units = amt, pos_cost = l\<rparr> = Inr i'"
  | (reduce) amt i' steps0 mt where "p_amount p = Some amt" "l = None" "iv' = Some i'"
      "inv_reduce A i amt mt m = Inr (Inr (steps0, i'))"
      "map rs_lot steps = map rs_lot steps0" "map rs_units steps = map rs_units steps0"
      "m \<noteq> BookingNone"
proof -
  from assms obtain k where k: "classify A (Some i) p m = Inr k"
    by (auto simp: book_one_def split: if_splits)
  show thesis
  proof (cases k)
    case KindAugment
    with assms k have "book_augment A (Some i) p d = Inr (Inr (l, iv'))" and "steps = []"
      by (auto simp: book_one_def split: if_splits)
    then show thesis by (elim book_augment_ok) (rule augment)
  next
    case KindReduce
    then have m: "m \<noteq> BookingNone" using k by (auto simp: classify_def)
    from KindReduce assms k have "book_reduce A (Some i) p m = Inr (Inr (steps, iv'))" and "l = None"
      by (auto simp: book_one_def split: if_splits)
    with m show thesis by (elim book_reduce_ok) (rule reduce)
  qed
qed

lemma book_one_Some: "book_one A (Some i) p m d = Inr (Inr (l, steps, iv')) \<Longrightarrow> \<exists>i'. iv' = Some i'"
  by (erule book_one_cases) auto

lemma book_one_lot_steps: "book_one A (Some i) p m d = Inr (Inr (l, steps, iv')) \<Longrightarrow> l \<noteq> None \<Longrightarrow> steps = []"
  by (erule book_one_cases) auto

end
