(* ===== verification/Resolution.thy ===== *)
theory Resolution
  imports Booking Account
begin

text \<open>
  The working state of one transaction in \<open>pkg/inventory/reducer.go\<close>: \<open>stateTrace\<close> (the edits
  made to the accounts' inventories) and \<open>postingResolution\<close> (the rebuilt postings with their
  booking records). The reducer's state is a function; the map \<open>before\<close> of a
  trace is an association list in order of first touch. Pointers into \<open>pr.postings\<close> are indices;
  \<open>sums\<close> with \<open>sumOrder\<close>, and \<open>bid\<close> with \<open>bidOrder\<close>, are association lists in order of
  first appearance.
\<close>

section \<open>\<open>stateTrace\<close>\<close>

type_synonym inv_state = "account \<rightharpoonup> inventory"

record state_trace =
  tr_state :: inv_state
  tr_before :: "(account \<times> inventory option) list"
  tr_rolled :: "account set"

definition new_state_trace :: "inv_state \<Rightarrow> state_trace" where
  "new_state_trace st = \<lparr>tr_state = st, tr_before = [], tr_rolled = {}\<rparr>"

text \<open>The inventory \<open>prepareForEdit\<close> returns is then \<open>tr_state tr acct\<close>; what the callers do to
  it is written back with \<open>put_inventory\<close>.\<close>

definition prepare_for_edit :: "state_trace \<Rightarrow> account \<Rightarrow> state_trace" where
  "prepare_for_edit tr acct =
     (if map_of (tr_before tr) acct = None
      then (case tr_state tr acct of
              None \<Rightarrow> tr\<lparr>tr_state := (tr_state tr)(acct \<mapsto> []), tr_before := tr_before tr @ [(acct, None)]\<rparr>
            | Some i \<Rightarrow> tr\<lparr>tr_before := tr_before tr @ [(acct, Some i)]\<rparr>)
      else tr)"

definition prepare_for_rollback :: "state_trace \<Rightarrow> account \<Rightarrow> state_trace" where
  "prepare_for_rollback tr acct = prepare_for_edit (tr\<lparr>tr_rolled := insert acct (tr_rolled tr)\<rparr>) acct"

definition put_inventory :: "state_trace \<Rightarrow> account \<Rightarrow> inventory option \<Rightarrow> state_trace" where
  "put_inventory tr acct iv = tr\<lparr>tr_state := (tr_state tr)(acct := iv)\<rparr>"

definition trace_diff :: "apd \<Rightarrow> state_trace \<Rightarrow>
    (account \<times> inventory option) list \<times> (account \<times> inventory option) list" where
  "trace_diff A tr =
     (let before = filter (\<lambda>(a, b). \<not> (a \<in> tr_rolled tr \<and> inv_equal A (tr_state tr a) b)) (tr_before tr)
      in (before, map (\<lambda>(a, b). (a, tr_state tr a)) before))"

section \<open>Booked postings\<close>

text \<open>\<open>Source\<close> is the index of the posting in the rebuilt transaction, None until \<open>finalize\<close>.\<close>

record booked_posting =
  bp_source :: "nat option"
  bp_account :: account
  bp_units :: amount
  bp_lot :: "lot option"
  bp_reduction :: "reduction_step option"
  bp_inferred :: bool

record group_ref =
  gr_currency :: currency
  gr_posting :: nat

record posting_resolution =
  pr_postings :: "posting list"
  pr_booked :: "booked_posting list"
  pr_booked_desc :: "group_ref list"
  pr_unknown_desc :: "group_ref list"
  pr_dropped :: "currency set"

definition new_posting_resolution :: posting_resolution where
  "new_posting_resolution = \<lparr>pr_postings = [], pr_booked = [], pr_booked_desc = [],
     pr_unknown_desc = [], pr_dropped = {}\<rparr>"

definition unknown_candidate_currency :: "posting \<Rightarrow> currency" where
  "unknown_candidate_currency p =
     (let c = (case p_cost p of Some h \<Rightarrow> get_currency h | None \<Rightarrow> [])
      in if c \<noteq> [] then c
         else case p_price p of Some pr \<Rightarrow> amt_currency (pa_amount pr) | None \<Rightarrow> [])"

definition add_unknown :: "posting_resolution \<Rightarrow> posting \<Rightarrow> posting_resolution" where
  "add_unknown pr p =
     pr\<lparr>pr_postings := pr_postings pr @ [p],
        pr_unknown_desc := pr_unknown_desc pr @
          [\<lparr>gr_currency = unknown_candidate_currency p, gr_posting = length (pr_postings pr)\<rparr>]\<rparr>"

definition mark_for_drop :: "posting_resolution \<Rightarrow> currency \<Rightarrow> posting_resolution" where
  "mark_for_drop pr c = pr\<lparr>pr_dropped := insert c (pr_dropped pr)\<rparr>"

text \<open>The three appends the \<open>add*\<close> methods end with.\<close>

definition push_booked ::
  "posting_resolution \<Rightarrow> posting \<Rightarrow> booked_posting \<Rightarrow> currency \<Rightarrow> posting_resolution" where
  "push_booked pr p bp c =
     pr\<lparr>pr_postings := pr_postings pr @ [p], pr_booked := pr_booked pr @ [bp],
        pr_booked_desc := pr_booked_desc pr @
          [\<lparr>gr_currency = c, gr_posting = length (pr_postings pr)\<rparr>]\<rparr>"

definition new_booked :: "account \<Rightarrow> amount \<Rightarrow> lot option \<Rightarrow> reduction_step option \<Rightarrow> bool \<Rightarrow> booked_posting" where
  "new_booked a u l s inferred = \<lparr>bp_source = None, bp_account = a, bp_units = u, bp_lot = l,
     bp_reduction = s, bp_inferred = inferred\<rparr>"

definition add_already_booked :: "posting_resolution \<Rightarrow> posting \<Rightarrow> lot option \<Rightarrow>
    reduction_step option \<Rightarrow> currency \<Rightarrow> posting_resolution result" where
  "add_already_booked pr p l s c =
     rbind (deref (p_amount p)) (\<lambda>amt.
       Inr (push_booked pr p (new_booked (p_account p) amt l s False) c))"

definition add_lot_augmentation ::
  "posting_resolution \<Rightarrow> posting \<Rightarrow> lot option \<Rightarrow> currency \<Rightarrow> posting_resolution result" where
  "add_lot_augmentation pr p l c =
     rbind (augment_cost_for (p_cost p) l) (\<lambda>k.
     rbind (deref (p_amount p)) (\<lambda>amt.
       Inr (push_booked pr (p\<lparr>p_cost := k\<rparr>) (new_booked (p_account p) amt l None False) c)))"

definition add_cash_augmentation ::
  "posting_resolution \<Rightarrow> posting \<Rightarrow> currency \<Rightarrow> posting_resolution result" where
  "add_cash_augmentation pr p c =
     rbind (deref (p_amount p)) (\<lambda>amt.
       Inr (push_booked pr p (new_booked (p_account p) amt None None False) c))"

text \<open>The zero-value lot of a step stands for the cash slot.\<close>

definition real_lot :: "apd \<Rightarrow> lot \<Rightarrow> bool" where
  "real_lot A l \<longleftrightarrow> lot_currency l \<noteq> [] \<or> apd_sign A (lot_number l) \<noteq> 0"

definition install_lot :: "apd \<Rightarrow> posting \<Rightarrow> reduction_step \<Rightarrow> posting" where
  "install_lot A p s =
     (if real_lot A (rs_lot s) then p\<lparr>p_cost := Some (HCost (lot_to_cost (rs_lot s)))\<rparr> else p)"

definition add_single_lot_reduction ::
  "apd \<Rightarrow> posting_resolution \<Rightarrow> posting \<Rightarrow> reduction_step \<Rightarrow> currency \<Rightarrow> posting_resolution result" where
  "add_single_lot_reduction A pr p s c =
     rbind (deref (p_amount p)) (\<lambda>amt.
       Inr (push_booked pr (install_lot A p s) (new_booked (p_account p) amt None (Some s) False) c))"

definition signed_magnitude :: "decimal \<Rightarrow> bool \<Rightarrow> decimal" where
  "signed_magnitude mag negative = (if negative then mag\<lparr>d_neg := True\<rparr> else mag)"

text \<open>One child posting of a multi-lot reduction.\<close>

definition reduction_child :: "posting \<Rightarrow> amount \<Rightarrow> reduction_step \<Rightarrow> posting" where
  "reduction_child p amt s =
     (let child = p\<lparr>p_amount := Some \<lparr>amt_number = signed_magnitude (rs_units s) (d_neg (amt_number amt)),
                       amt_currency = amt_currency amt\<rparr>,
                    p_cost := Some (HCost (lot_to_cost (rs_lot s)))\<rparr>
      in case (p_price p, rs_sale_price s) of
           (Some pr, Some sale) \<Rightarrow>
             if pa_is_total pr \<and> amt_currency (pa_amount pr) \<noteq> []
             then child\<lparr>p_price := Some \<lparr>pa_span = zero_span,
                    pa_amount = \<lparr>amt_number = sale, amt_currency = amt_currency (pa_amount pr)\<rparr>,
                    pa_is_total = False\<rparr>\<rparr>
             else child
         | _ \<Rightarrow> child)"

fun add_children :: "posting_resolution \<Rightarrow> posting \<Rightarrow> amount \<Rightarrow> reduction_step list \<Rightarrow> posting_resolution" where
  "add_children pr p amt [] = pr"
| "add_children pr p amt (s # ss) =
     add_children
       (push_booked pr (reduction_child p amt s)
          (new_booked (p_account p) \<lparr>amt_number = signed_magnitude (rs_units s) (d_neg (amt_number amt)),
             amt_currency = amt_currency amt\<rparr> None (Some s) False)
          (lot_currency (rs_lot s))) p amt ss"

definition add_multi_lot_reduction ::
  "posting_resolution \<Rightarrow> posting \<Rightarrow> reduction_step list \<Rightarrow> posting_resolution result" where
  "add_multi_lot_reduction pr p steps =
     rbind (deref (p_amount p)) (\<lambda>amt. Inr (add_children pr p amt steps))"

section \<open>Residuals\<close>

definition posting_at :: "posting list \<Rightarrow> nat \<Rightarrow> posting result" where
  "posting_at ps k =
     (if k < length ps then Inr (ps ! k) else Inl (Panic ''index out of range''))"

fun accumulate :: "apd \<Rightarrow> string \<Rightarrow> (currency \<times> decimal) list \<Rightarrow> amount \<Rightarrow>
    (currency \<times> decimal) list result" where
  "accumulate A ctx [] w = Inr [(amt_currency w, amt_number w)]"
| "accumulate A ctx ((c, s) # acc) w =
     (if c = amt_currency w
      then rbind (wrap_err ctx (apd_add A s (amt_number w))) (\<lambda>s'. Inr ((c, s') # acc))
      else rbind (accumulate A ctx acc w) (\<lambda>acc'. Inr ((c, s) # acc')))"

fun sum_weights :: "apd \<Rightarrow> posting list \<Rightarrow> group_ref list \<Rightarrow> (currency \<times> decimal) list \<Rightarrow>
    (currency \<times> decimal) list result" where
  "sum_weights A ps [] acc = Inr acc"
| "sum_weights A ps (ref # refs) acc =
     rbind (posting_at ps (gr_posting ref)) (\<lambda>p.
     rbind (rewrap (''inventory.groupForResidual: posting weight (account '' @ p_account p @ '')'')
              (posting_weight A p)) (\<lambda>w.
       case w of
         None \<Rightarrow> sum_weights A ps refs acc
       | Some w \<Rightarrow>
           rbind (accumulate A
                    (''inventory.groupForResidual: accumulate weight (account '' @ p_account p @ '')'')
                    acc w) (\<lambda>acc'. sum_weights A ps refs acc')))"

fun add_bid :: "(currency \<times> nat list) list \<Rightarrow> currency \<Rightarrow> nat \<Rightarrow> (currency \<times> nat list) list" where
  "add_bid [] c k = [(c, [k])]"
| "add_bid ((d, ks) # bids) c k =
     (if d = c then (d, ks @ [k]) # bids else (d, ks) # add_bid bids c k)"

text \<open>The unknowns without a candidate currency, and the bids of the others.\<close>

fun collect_bids :: "currency set \<Rightarrow> group_ref list \<Rightarrow> nat list \<Rightarrow> (currency \<times> nat list) list \<Rightarrow>
    nat list \<times> (currency \<times> nat list) list" where
  "collect_bids dropped [] free bids = (free, bids)"
| "collect_bids dropped (ref # refs) free bids =
     (if gr_currency ref = [] then collect_bids dropped refs (free @ [gr_posting ref]) bids
      else if gr_currency ref \<in> dropped then collect_bids dropped refs free bids
      else collect_bids dropped refs free (add_bid bids (gr_currency ref) (gr_posting ref)))"

record residual_group =
  rg_currency :: currency
  rg_unknown :: "nat list"
  rg_residual :: amount

definition negate_residual :: "apd \<Rightarrow> span \<Rightarrow> account \<Rightarrow> decimal \<Rightarrow> decimal result" where
  "negate_residual A sp acct s =
     (let pos = span_start sp in
      wrap_err (''inventory.groupForResidual: negate residual at '' @ pos_filename pos @ '':'' @
        show_int (pos_line pos) @ '':'' @ show_int (pos_column pos) @ '' (account '' @ acct @ '')'')
        (apd_neg A s))"

fun bid_groups :: "apd \<Rightarrow> posting list \<Rightarrow> (currency \<times> decimal) list \<Rightarrow> (currency \<times> nat list) list \<Rightarrow>
    residual_group list result" where
  "bid_groups A ps acc [] = Inr []"
| "bid_groups A ps acc ((c, ks) # bids) =
     rbind (case map_of acc c of
              None \<Rightarrow> Inr dzero
            | Some s \<Rightarrow>
                (case ks of [] \<Rightarrow> Inl (Panic ''index out of range'')
                 | k # _ \<Rightarrow> rbind (posting_at ps k) (\<lambda>p. negate_residual A (p_span p) (p_account p) s)))
       (\<lambda>n. rbind (bid_groups A ps acc bids) (\<lambda>gs.
         Inr (\<lparr>rg_currency = c, rg_unknown = ks,
                rg_residual = \<lparr>amt_number = n, amt_currency = c\<rparr>\<rparr> # gs)))"

fun sum_groups :: "apd \<Rightarrow> (currency \<times> nat list) list \<Rightarrow> (currency \<times> decimal) list \<Rightarrow>
    residual_group list result" where
  "sum_groups A bids [] = Inr []"
| "sum_groups A bids ((c, s) # acc) =
     (if map_of bids c \<noteq> None \<or> apd_is_zero A s then sum_groups A bids acc
      else rbind (negate_residual A zero_span [] s) (\<lambda>n.
           rbind (sum_groups A bids acc) (\<lambda>gs.
             Inr (\<lparr>rg_currency = c, rg_unknown = [],
                    rg_residual = \<lparr>amt_number = n, amt_currency = c\<rparr>\<rparr> # gs))))"

definition group_for_residual ::
  "apd \<Rightarrow> posting_resolution \<Rightarrow> (residual_group list \<times> nat list) result" where
  "group_for_residual A pr =
     (if pr_unknown_desc pr = [] then Inr ([], [])
      else
        rbind (sum_weights A (pr_postings pr) (pr_booked_desc pr) []) (\<lambda>acc.
        let (free, bids) = collect_bids (pr_dropped pr) (pr_unknown_desc pr) [] [] in
        rbind (bid_groups A (pr_postings pr) acc bids) (\<lambda>gs1.
        rbind (sum_groups A bids acc) (\<lambda>gs2. Inr (gs1 @ gs2, free)))))"

section \<open>Promotion of the unknowns\<close>

fun find_index :: "('a \<Rightarrow> bool) \<Rightarrow> 'a list \<Rightarrow> nat option" where
  "find_index P [] = None"
| "find_index P (x # xs) = (if P x then Some 0 else map_option Suc (find_index P xs))"

definition unknown_desc_index :: "posting_resolution \<Rightarrow> nat \<Rightarrow> nat option" where
  "unknown_desc_index pr k = find_index (\<lambda>ref. gr_posting ref = k) (pr_unknown_desc pr)"

definition set_unknown_currency ::
  "posting_resolution \<Rightarrow> nat \<Rightarrow> currency \<Rightarrow> posting_resolution" where
  "set_unknown_currency pr j c =
     pr\<lparr>pr_unknown_desc := (pr_unknown_desc pr)[j := (pr_unknown_desc pr ! j)\<lparr>gr_currency := c\<rparr>]\<rparr>"

text \<open>What the \<open>promote*\<close> methods share: the posting at \<open>k\<close> is replaced by \<open>p\<close>, booked as \<open>bp\<close>,
  and its descriptor gets the resolved currency; the code indexes with -1 when there is none.\<close>

definition promote :: "posting_resolution \<Rightarrow> nat \<Rightarrow> posting \<Rightarrow> booked_posting \<Rightarrow> currency \<Rightarrow>
    posting_resolution result" where
  "promote pr k p bp c =
     (case unknown_desc_index pr k of
        None \<Rightarrow> Inl (Panic ''index out of range'')
      | Some j \<Rightarrow>
          Inr (set_unknown_currency
            (pr\<lparr>pr_postings := (pr_postings pr)[k := p], pr_booked := pr_booked pr @ [bp],
               pr_booked_desc := pr_booked_desc pr @
                 [\<lparr>gr_currency = c, gr_posting = gr_posting (pr_unknown_desc pr ! j)\<rparr>]\<rparr>) j c))"

definition promote_lot_augmentation ::
  "posting_resolution \<Rightarrow> nat \<Rightarrow> posting \<Rightarrow> lot option \<Rightarrow> currency \<Rightarrow> posting_resolution result" where
  "promote_lot_augmentation pr k p l c =
     rbind (augment_cost_for (p_cost p) l) (\<lambda>h.
     rbind (deref (p_amount p)) (\<lambda>amt.
       promote pr k (p\<lparr>p_cost := h\<rparr>) (new_booked (p_account p) amt l None False) c))"

definition promote_cash_augmentation ::
  "posting_resolution \<Rightarrow> nat \<Rightarrow> posting \<Rightarrow> amount \<Rightarrow> currency \<Rightarrow> posting_resolution result" where
  "promote_cash_augmentation pr k p amt c =
     promote pr k (p\<lparr>p_amount := Some amt\<rparr>) (new_booked (p_account p) amt None None True) c"

definition promote_single_lot_reduction ::
  "apd \<Rightarrow> posting_resolution \<Rightarrow> nat \<Rightarrow> posting \<Rightarrow> reduction_step \<Rightarrow> amount \<Rightarrow> currency \<Rightarrow>
   posting_resolution result" where
  "promote_single_lot_reduction A pr k p s amt c =
     promote pr k (install_lot A (p\<lparr>p_amount := Some amt\<rparr>) s)
       (new_booked (p_account p) amt None (Some s) True) c"

definition record_unknown_failed ::
  "posting_resolution \<Rightarrow> nat \<Rightarrow> currency \<Rightarrow> posting_resolution result" where
  "record_unknown_failed pr k c =
     (case unknown_desc_index pr k of
        None \<Rightarrow> Inl (Panic ''index out of range'')
      | Some j \<Rightarrow> Inr (set_unknown_currency (mark_for_drop pr c) j c))"

section \<open>\<open>finalize\<close>\<close>

definition reverse_booking ::
  "apd \<Rightarrow> inventory option \<Rightarrow> booked_posting \<Rightarrow> inventory option result" where
  "reverse_booking A iv bp =
     (case iv of None \<Rightarrow> Inl (Panic ''nil pointer dereference'')
      | Some i \<Rightarrow>
         (case bp_reduction bp of
            None \<Rightarrow>
              rbind (wrap_err (''inventory.reverseBooking: negate augmentation units (account '' @
                        bp_account bp @ '')'') (apd_neg A (amt_number (bp_units bp)))) (\<lambda>n.
              rbind (inv_add A i \<lparr>pos_units = \<lparr>amt_number = n, amt_currency = amt_currency (bp_units bp)\<rparr>,
                       pos_cost = bp_lot bp\<rparr>) (\<lambda>i'. Inr (Some i')))
          | Some s \<Rightarrow>
              rbind (inv_add A i \<lparr>pos_units = \<lparr>amt_number = rs_units s, amt_currency = amt_currency (bp_units bp)\<rparr>,
                       pos_cost = (if real_lot A (rs_lot s) then Some (rs_lot s) else None)\<rparr>) (\<lambda>i'.
                Inr (Some i'))))"

definition survives :: "posting_resolution \<Rightarrow> nat \<Rightarrow> bool" where
  "survives pr k \<longleftrightarrow>
     (\<exists>ref\<in>set (pr_booked_desc pr @ pr_unknown_desc pr).
        gr_posting ref = k \<and> gr_currency ref \<notin> pr_dropped pr)"

text \<open>The new index of a surviving posting.\<close>

definition new_index :: "posting_resolution \<Rightarrow> nat \<Rightarrow> nat" where
  "new_index pr k = length (filter (survives pr) [0..<k])"

definition surviving_postings :: "posting_resolution \<Rightarrow> posting list" where
  "surviving_postings pr =
     map (\<lambda>k. pr_postings pr ! k) (filter (survives pr) [0..<length (pr_postings pr)])"

fun finalize_booked :: "apd \<Rightarrow> posting_resolution \<Rightarrow> (booked_posting \<times> group_ref) list \<Rightarrow>
    state_trace \<Rightarrow> (booked_posting list \<times> state_trace) result" where
  "finalize_booked A pr [] tr = Inr ([], tr)"
| "finalize_booked A pr ((bp, ref) # rest) tr =
     (if gr_currency ref \<in> pr_dropped pr
      then
        let tr = prepare_for_rollback tr (bp_account bp) in
        rbind (reverse_booking A (tr_state tr (bp_account bp)) bp) (\<lambda>iv.
          finalize_booked A pr rest (put_inventory tr (bp_account bp) iv))
      else if \<not> survives pr (gr_posting ref) then Inl (Panic ''index out of range'')
      else
        rbind (finalize_booked A pr rest tr) (\<lambda>(out, tr').
          Inr (bp\<lparr>bp_source := Some (new_index pr (gr_posting ref))\<rparr> # out, tr')))"

definition finalize :: "apd \<Rightarrow> posting_resolution \<Rightarrow> state_trace \<Rightarrow>
    (posting list \<times> booked_posting list \<times> state_trace) result" where
  "finalize A pr tr =
     (if pr_dropped pr = {}
      then Inr (pr_postings pr,
             map (\<lambda>(bp, ref). bp\<lparr>bp_source := Some (gr_posting ref)\<rparr>)
               (zip (pr_booked pr) (pr_booked_desc pr)), tr)
      else
        rbind (finalize_booked A pr (zip (pr_booked pr) (pr_booked_desc pr)) tr) (\<lambda>(out, tr').
          Inr (surviving_postings pr, out, tr')))"

end
