(* ===== verification/Reducer.thy ===== *)
theory Reducer
  imports Resolution
begin

text \<open>
  The reducer of \<open>pkg/inventory/reducer.go\<close>: the two passes of \<open>visitTxn\<close> over one
  transaction, and \<open>Walk\<close>, \<open>Run\<close>, \<open>Final\<close>, \<open>Errors\<close> and \<open>Inspect\<close> over the directives. The
  pointer of a directive is its position in the sequence. A halt by a system error keeps the
  findings collected before it; the half-edited inventories it leaves are not modelled.
\<close>

section \<open>Structure\<close>

text \<open>The first finding of \<open>validateStructure\<close>, None when it accepts.\<close>

fun validate_postings :: "bool \<Rightarrow> posting list \<Rightarrow> diagnostic option" where
  "validate_postings seen_auto [] = None"
| "validate_postings seen_auto (p # ps) =
     (if p_amount p \<noteq> None then validate_postings seen_auto ps
      else if p_cost p \<noteq> None \<or> p_price p \<noteq> None
      then Some (new_diag ''invalid-auto-posting'' (p_span p) (p_account p)
             ''auto-balanced posting must not carry cost or price'')
      else if seen_auto
      then Some (new_diag ''multiple-auto-postings'' (p_span p) (p_account p)
             ''transaction has more than one auto-balanced posting'')
      else validate_postings True ps)"

definition validate_structure :: "transaction \<Rightarrow> diagnostic option" where
  "validate_structure txn = validate_postings False (txn_postings txn)"

definition weight_currency_fallback :: "apd \<Rightarrow> posting \<Rightarrow> currency result" where
  "weight_currency_fallback A p =
     (case posting_weight A p of
        Inl (SysErr e) \<Rightarrow> rbind (deref (p_amount p)) (\<lambda>a. Inr (amt_currency a))
      | Inl (Panic e) \<Rightarrow> Inl (Panic e)
      | Inr w \<Rightarrow> rbind (deref w) (\<lambda>a. Inr (amt_currency a)))"

definition cash_group_key :: "posting \<Rightarrow> currency result" where
  "cash_group_key p =
     (case p_price p of
        Some pr \<Rightarrow> Inr (amt_currency (pa_amount pr))
      | None \<Rightarrow> rbind (deref (p_amount p)) (\<lambda>a. Inr (amt_currency a)))"

definition reduction_group_key :: "apd \<Rightarrow> posting \<Rightarrow> reduction_step \<Rightarrow> currency result" where
  "reduction_group_key A p s =
     (if real_lot A (rs_lot s) then Inr (lot_currency (rs_lot s)) else cash_group_key p)"

definition first_step_or_nil :: "reduction_step list \<Rightarrow> reduction_step option" where
  "first_step_or_nil steps = (case steps of [s] \<Rightarrow> Some s | _ \<Rightarrow> None)"

section \<open>Pass 1\<close>

type_synonym bookings = "account \<rightharpoonup> booking_method"

definition method_of :: "bookings \<Rightarrow> account \<Rightarrow> booking_method" where
  "method_of bk a = (case bk a of Some m \<Rightarrow> m | None \<Rightarrow> BookingDefault)"

record booking_work =
  bw_pr :: posting_resolution
  bw_trace :: state_trace

definition at_position :: "posting \<Rightarrow> string" where
  "at_position p =
     (let pos = span_start (p_span p)
      in pos_filename pos @ '':'' @ show_int (pos_line pos) @ '':'' @ show_int (pos_column pos) @
         '' (account '' @ p_account p @ '')'')"

definition record_booked :: "apd \<Rightarrow> posting_resolution \<Rightarrow> posting \<Rightarrow> lot option \<Rightarrow> reduction_step list \<Rightarrow>
    posting_resolution result" where
  "record_booked A pr p l steps =
     (if (case p_cost p of Some h \<Rightarrow> is_booked h | None \<Rightarrow> False)
      then rbind (weight_currency_fallback A p) (\<lambda>key.
           if 1 < length steps
           then Inl (SysErr (''inventory.visitTxn: already-booked posting at '' @ at_position p @
                  '' produced a multi-lot reduction; tight-matcher invariant violated''))
           else add_already_booked pr p l (first_step_or_nil steps) key)
      else case l of
        Some l' \<Rightarrow> add_lot_augmentation pr p l (lot_currency l')
      | None \<Rightarrow>
          (case steps of
             [] \<Rightarrow> rbind (cash_group_key p) (add_cash_augmentation pr p)
           | [s] \<Rightarrow> rbind (reduction_group_key A p s) (add_single_lot_reduction A pr p s)
           | _ \<Rightarrow> add_multi_lot_reduction pr p steps))"

definition pass1_step :: "apd \<Rightarrow> bookings \<Rightarrow> time \<Rightarrow> booking_work \<Rightarrow> posting \<Rightarrow>
    (diagnostic list \<times> booking_work) result" where
  "pass1_step A bk date w p =
     (if p_amount p = None
      then Inr ([], w\<lparr>bw_pr := add_unknown (bw_pr w) p\<rparr>)
      else
        let tr = prepare_for_edit (bw_trace w) (p_account p) in
        rbind (book_one A (tr_state tr (p_account p)) p (method_of bk (p_account p)) date) (\<lambda>r.
        case r of
          Inl finding \<Rightarrow>
            if diag_code finding = ''augmentation-requires-cost'' \<and> cost_number_missing (p_cost p)
            then Inr ([], \<lparr>bw_pr = add_unknown (bw_pr w) p, bw_trace = tr\<rparr>)
            else rbind (weight_currency_fallback A p) (\<lambda>key.
                 Inr ([finding], \<lparr>bw_pr = mark_for_drop (bw_pr w) key,
                        bw_trace = prepare_for_rollback tr (p_account p)\<rparr>))
        | Inr (l, steps, iv) \<Rightarrow>
            rbind (record_booked A (bw_pr w) p l steps) (\<lambda>pr.
              Inr ([], \<lparr>bw_pr = pr, bw_trace = put_inventory tr (p_account p) iv\<rparr>))))"

fun pass1 :: "apd \<Rightarrow> bookings \<Rightarrow> time \<Rightarrow> booking_work \<Rightarrow> posting list \<Rightarrow>
    diagnostic list \<times> booking_work result" where
  "pass1 A bk date w [] = ([], Inr w)"
| "pass1 A bk date w (p # ps) =
     (case pass1_step A bk date w p of
        Inl e \<Rightarrow> ([], Inl e)
      | Inr (ds, w') \<Rightarrow>
          (case pass1 A bk date w' ps of (ds', r) \<Rightarrow> (ds @ ds', r)))"

section \<open>Pass 2\<close>

text \<open>The closure \<open>book\<close> of \<open>visitTxn\<close>, with its dispatch on the outcome; \<open>orig\<close> is an index
  into \<open>pr.postings\<close>.\<close>

definition promote_booked :: "apd \<Rightarrow> posting_resolution \<Rightarrow> nat \<Rightarrow> posting \<Rightarrow> posting \<Rightarrow> lot option \<Rightarrow>
    reduction_step list \<Rightarrow> currency \<Rightarrow> posting_resolution result" where
  "promote_booked A pr k orig candidate l steps c =
     (case l of
        Some _ \<Rightarrow> promote_lot_augmentation pr k (orig\<lparr>p_cost := p_cost candidate\<rparr>) l c
      | None \<Rightarrow>
          rbind (deref (p_amount candidate)) (\<lambda>amt.
          (case steps of
             [] \<Rightarrow> promote_cash_augmentation pr k orig amt c
           | [s] \<Rightarrow> promote_single_lot_reduction A pr k orig s amt c
           | _ \<Rightarrow> Inl (SysErr (''inventory.visitTxn: residual booking at '' @ at_position orig @
                       '' produced a multi-lot reduction'')))))"

definition book_unknown :: "apd \<Rightarrow> bookings \<Rightarrow> time \<Rightarrow> nat \<Rightarrow> posting \<Rightarrow> currency \<Rightarrow> booking_work \<Rightarrow>
    (diagnostic option \<times> booking_work) result" where
  "book_unknown A bk date k candidate c w =
     rbind (posting_at (pr_postings (bw_pr w)) k) (\<lambda>orig.
     let acct = p_account orig; tr = prepare_for_edit (bw_trace w) acct in
     rbind (book_one A (tr_state tr acct) candidate (method_of bk acct) date) (\<lambda>r.
     case r of
       Inl finding \<Rightarrow>
         rbind (record_unknown_failed (bw_pr w) k c) (\<lambda>pr.
           Inr (Some finding, \<lparr>bw_pr = pr, bw_trace = prepare_for_rollback tr acct\<rparr>))
     | Inr (l, steps, iv) \<Rightarrow>
         rbind (promote_booked A (bw_pr w) k orig candidate l steps c)
           (\<lambda>pr. Inr (None, \<lparr>bw_pr = pr, bw_trace = put_inventory tr acct iv\<rparr>))))"

definition synthesize_cost_spec :: "cost_holder option \<Rightarrow> amount \<Rightarrow> time \<Rightarrow> cost_spec" where
  "synthesize_cost_spec existing residual txndate =
     (let (date, label) =
        (case existing of
           Some (HSpec spec) \<Rightarrow>
             ((case cs_date spec of Some d \<Rightarrow> d | None \<Rightarrow> txndate), cs_label spec)
         | _ \<Rightarrow> (txndate, []))
      in \<lparr>cs_span = zero_span, cs_per_unit = None, cs_total = Some (amt_number residual),
          cs_currency = amt_currency residual, cs_date = Some date, cs_label = label\<rparr>)"

definition ambiguous_unknown_diag :: "posting \<Rightarrow> diagnostic" where
  "ambiguous_unknown_diag p =
     new_diag ''unresolvable-interpolation'' (p_span p) (p_account p)
       (if p_amount p = None
        then ''cannot interpolate amount: transaction has multiple unknown posting values''
        else ''cannot interpolate cost: transaction has multiple unknown posting values'')"

fun postings_at :: "posting list \<Rightarrow> nat list \<Rightarrow> posting list result" where
  "postings_at ps [] = Inr []"
| "postings_at ps (k # ks) =
     rbind (posting_at ps k) (\<lambda>p. rbind (postings_at ps ks) (\<lambda>qs. Inr (p # qs)))"

record unknown_failure =
  uf_posting :: nat
  uf_currency :: currency
  uf_diag :: diagnostic

definition zero_units_diag :: "posting \<Rightarrow> diagnostic" where
  "zero_units_diag p = new_diag ''unresolvable-interpolation'' (p_span p) (p_account p)
     ''deferred cost cannot be interpolated: posting has zero units''"

fun resolve_residual_groups :: "apd \<Rightarrow> bookings \<Rightarrow> time \<Rightarrow> residual_group list \<Rightarrow> booking_work \<Rightarrow>
    (amount list \<times> unknown_failure list \<times> booking_work) result" where
  "resolve_residual_groups A bk date [] w = Inr ([], [], w)"
| "resolve_residual_groups A bk date (g # gs) w =
     (let c = amt_currency (rg_residual g) in
      case rg_unknown g of
        [] \<Rightarrow>
          rbind (resolve_residual_groups A bk date gs w) (\<lambda>(free, fails, w').
            Inr (if apd_sign A (amt_number (rg_residual g)) \<noteq> 0 then rg_residual g # free else free,
                 fails, w'))
      | [k] \<Rightarrow>
          rbind (posting_at (pr_postings (bw_pr w)) k) (\<lambda>p.
          rbind (deref (p_amount p)) (\<lambda>amt.
          if apd_sign A (amt_number amt) = 0
          then rbind (resolve_residual_groups A bk date gs w) (\<lambda>(free, fails, w').
                 Inr (free, \<lparr>uf_posting = k, uf_currency = c, uf_diag = zero_units_diag p\<rparr> # fails, w'))
          else
            rbind (book_unknown A bk date k
                     (p\<lparr>p_cost := Some (HSpec (synthesize_cost_spec (p_cost p) (rg_residual g) date))\<rparr>) c w)
              (\<lambda>(finding, w1).
              rbind (resolve_residual_groups A bk date gs w1) (\<lambda>(free, fails, w').
                Inr (free,
                     (case finding of None \<Rightarrow> fails
                      | Some d \<Rightarrow> \<lparr>uf_posting = k, uf_currency = c, uf_diag = d\<rparr> # fails), w')))))
      | ks \<Rightarrow>
          rbind (postings_at (pr_postings (bw_pr w)) ks) (\<lambda>ps.
          rbind (resolve_residual_groups A bk date gs w) (\<lambda>(free, fails, w').
            Inr (free,
                 map (\<lambda>(k, p). \<lparr>uf_posting = k, uf_currency = c, uf_diag = ambiguous_unknown_diag p\<rparr>)
                   (zip ks ps) @ fails, w'))))"

definition show_list :: "string list \<Rightarrow> string" where
  "show_list xs = ''['' @ join_with '' '' xs @ '']''"

definition resolve_free_residuals :: "apd \<Rightarrow> bookings \<Rightarrow> time \<Rightarrow> nat list \<Rightarrow> amount list \<Rightarrow> booking_work \<Rightarrow>
    (diagnostic list \<times> booking_work) result" where
  "resolve_free_residuals A bk date free residuals w =
     (case free of
        [] \<Rightarrow> Inr ([], w)
      | [k] \<Rightarrow>
          rbind (posting_at (pr_postings (bw_pr w)) k) (\<lambda>p.
          (case residuals of
             [] \<Rightarrow> Inr ([new_diag ''unresolvable-interpolation'' (p_span p) (p_account p)
                     (if p_amount p = None
                      then ''auto-balanced posting has no residual to absorb; every currency already balances''
                      else ''deferred cost cannot be interpolated: every currency already balances'')], w)
           | [res] \<Rightarrow>
               (case p_amount p of
                  None \<Rightarrow>
                    rbind (book_unknown A bk date k (p\<lparr>p_amount := Some res\<rparr>) (amt_currency res) w)
                      (\<lambda>(finding, w'). Inr (case finding of Some d \<Rightarrow> [d] | None \<Rightarrow> [], w'))
                | Some amt \<Rightarrow>
                    if apd_sign A (amt_number amt) = 0 then Inr ([zero_units_diag p], w)
                    else
                      rbind (book_unknown A bk date k
                               (p\<lparr>p_cost := Some (HSpec (synthesize_cost_spec (p_cost p) res date))\<rparr>)
                               (amt_currency res) w)
                        (\<lambda>(finding, w'). Inr (case finding of Some d \<Rightarrow> [d] | None \<Rightarrow> [], w')))
           | rs \<Rightarrow> Inr ([new_diag ''unresolvable-interpolation'' (p_span p) (p_account p)
                     (''residual spans '' @ show_nat (length rs) @ '' currencies '' @
                      show_list (map amt_currency rs) @
                      '' but a single unknown can only absorb one'')], w)))
      | ks \<Rightarrow>
          rbind (postings_at (pr_postings (bw_pr w)) ks) (\<lambda>ps. Inr (map ambiguous_unknown_diag ps, w)))"

fun record_failures :: "posting_resolution \<Rightarrow> (nat \<times> currency) list \<Rightarrow> posting_resolution result" where
  "record_failures pr [] = Inr pr"
| "record_failures pr ((k, c) # fs) =
     rbind (record_unknown_failed pr k c) (\<lambda>pr'. record_failures pr' fs)"

section \<open>\<open>visitTxn\<close>\<close>

record txn_view =
  tv_before :: "(account \<times> inventory option) list"
  tv_after :: "(account \<times> inventory option) list"
  tv_booked :: "booked_posting list"

text \<open>Pass 2 and the end of the transaction, after pass 1 left \<open>w\<close>.\<close>

definition pass2 :: "apd \<Rightarrow> bookings \<Rightarrow> time \<Rightarrow> booking_work \<Rightarrow>
    diagnostic list \<times> (posting list \<times> booked_posting list \<times> state_trace) result" where
  "pass2 A bk date w =
     (case rbind (group_for_residual A (bw_pr w)) (\<lambda>(groups, free).
             rbind (resolve_residual_groups A bk date groups w) (\<lambda>r. Inr (free, r))) of
        Inl e \<Rightarrow> ([], Inl e)
      | Inr (free, residuals, failures, w1) \<Rightarrow>
          let ds1 = map uf_diag failures in
          (case rbind (record_failures (bw_pr w1) (map (\<lambda>f. (uf_posting f, uf_currency f)) failures))
                  (\<lambda>pr. resolve_free_residuals A bk date free residuals (w1\<lparr>bw_pr := pr\<rparr>)) of
             Inl e \<Rightarrow> (ds1, Inl e)
           | Inr (ds2, w2) \<Rightarrow>
               (ds1 @ ds2,
                rbind (if ds2 \<noteq> [] then record_failures (bw_pr w2) (map (\<lambda>k. (k, [])) free)
                       else Inr (bw_pr w2))
                  (\<lambda>pr. finalize A pr (bw_trace w2)))))"

definition visit_txn :: "apd \<Rightarrow> bookings \<Rightarrow> inv_state \<Rightarrow> transaction \<Rightarrow>
    diagnostic list \<times> (txn_view \<times> transaction \<times> inv_state) result" where
  "visit_txn A bk st txn =
     (case validate_structure txn of
        Some d \<Rightarrow> ([d], Inr (\<lparr>tv_before = [], tv_after = [], tv_booked = []\<rparr>, txn, st))
      | None \<Rightarrow>
          (case pass1 A bk (txn_date txn)
                  \<lparr>bw_pr = new_posting_resolution, bw_trace = new_state_trace st\<rparr> (txn_postings txn) of
             (ds, Inl e) \<Rightarrow> (ds, Inl e)
           | (ds, Inr w) \<Rightarrow>
               (case pass2 A bk (txn_date txn) w of
                  (ds', Inl e) \<Rightarrow> (ds @ ds', Inl e)
                | (ds', Inr (postings, booked, tr)) \<Rightarrow>
                    (case trace_diff A tr of
                       (before, after) \<Rightarrow>
                         (ds @ ds', Inr (\<lparr>tv_before = before, tv_after = after, tv_booked = booked\<rparr>,
                            txn\<lparr>txn_postings := postings\<rparr>, tr_state tr))))))"

section \<open>\<open>Walk\<close>\<close>

definition needs_booking_clone :: "transaction \<Rightarrow> bool" where
  "needs_booking_clone txn \<longleftrightarrow>
     (\<exists>p\<in>set (txn_postings txn).
        p_amount p = None \<or> (case p_cost p of Some h \<Rightarrow> \<not> is_booked h | None \<Rightarrow> False))"

text \<open>
  What a walk leaves: the directives it returns, the caller's own directives (a transaction that
  was not cloned is edited in place), the findings, the error that halted it, the bookings and
  inventories, and the visitor's state.
\<close>

record 's walk_result =
  wr_out :: "directive list"
  wr_input :: "directive list"
  wr_diags :: "diagnostic list"
  wr_error :: "go_error option"
  wr_bookings :: bookings
  wr_state :: "inv_state option"
  wr_visitor :: 's

type_synonym 's visitor = "nat \<Rightarrow> transaction \<Rightarrow> txn_view \<Rightarrow> 's \<Rightarrow> bool \<times> 's"

definition stop_walk :: "directive list \<Rightarrow> diagnostic list \<Rightarrow> go_error option \<Rightarrow> bookings \<Rightarrow>
    inv_state option \<Rightarrow> 's \<Rightarrow> 's walk_result" where
  "stop_walk rest ds e bk st s = \<lparr>wr_out = [], wr_input = rest, wr_diags = ds, wr_error = e,
     wr_bookings = bk, wr_state = st, wr_visitor = s\<rparr>"

definition emit :: "directive \<Rightarrow> directive \<Rightarrow> diagnostic list \<Rightarrow> 's walk_result \<Rightarrow> 's walk_result" where
  "emit out inp ds r = r\<lparr>wr_out := out # wr_out r, wr_input := inp # wr_input r,
     wr_diags := ds @ wr_diags r\<rparr>"

fun walk_loop :: "apd \<Rightarrow> option_values option \<Rightarrow> 's visitor option \<Rightarrow> nat \<Rightarrow> bookings \<Rightarrow> inv_state \<Rightarrow> 's \<Rightarrow>
    directive list \<Rightarrow> 's walk_result result" where
  "walk_loop A opts visit n bk st s [] = Inr (stop_walk [] [] None bk (Some st) s)"
| "walk_loop A opts visit n bk st s (DOpen d # rest) =
     rbind (resolve_booking_method A d opts) (\<lambda>(m, _).
     rbind (walk_loop A opts visit (Suc n) (bk(open_account d \<mapsto> m)) st s rest) (\<lambda>r.
       Inr (emit (DOpen d) (DOpen d) [] r)))"
| "walk_loop A opts visit n bk st s (DTransaction d # rest) =
     (case visit_txn A bk st d of
        (ds, Inl (Panic e)) \<Rightarrow> Inl (Panic e)
      | (ds, Inl (SysErr e)) \<Rightarrow>
          Inr (emit (DTransaction d) (DTransaction d) ds (stop_walk rest [] (Some (SysErr e)) bk None s))
      | (ds, Inr (view, booked, st')) \<Rightarrow>
          let d' = (if needs_booking_clone d then d else booked) in
          if tv_booked view = [] \<and> tv_before view = []
          then rbind (walk_loop A opts visit (Suc n) bk st' s rest) (\<lambda>r.
                 Inr (emit (DTransaction booked) (DTransaction d') ds r))
          else
            (case (case visit of None \<Rightarrow> (True, s) | Some v \<Rightarrow> v n d' view s) of
               (True, s') \<Rightarrow>
                 rbind (walk_loop A opts visit (Suc n) bk st' s' rest) (\<lambda>r.
                   Inr (emit (DTransaction booked) (DTransaction d') ds r))
             | (False, s') \<Rightarrow>
                 Inr (emit (DTransaction booked) (DTransaction d') ds
                   (stop_walk rest [] None bk (Some st') s'))))"
| "walk_loop A opts visit n bk st s (d # rest) =
     rbind (walk_loop A opts visit (Suc n) bk st s rest) (\<lambda>r. Inr (emit d d [] r))"

definition walk :: "apd \<Rightarrow> option_values option \<Rightarrow> 's visitor option \<Rightarrow> 's \<Rightarrow> directive list \<Rightarrow>
    's walk_result result" where
  "walk A opts visit s ds = walk_loop A opts visit 0 Map.empty Map.empty s ds"

definition run :: "apd \<Rightarrow> option_values option \<Rightarrow> directive list \<Rightarrow> unit walk_result result" where
  "run A opts ds = walk A opts None () ds"

text \<open>\<open>Final\<close> reads the state the last walk left.\<close>

definition final :: "'s walk_result \<Rightarrow> account \<Rightarrow> inventory option option" where
  "final r a = map_option (\<lambda>st. st a) (wr_state r)"

text \<open>\<open>Inspect\<close> for the transaction at position \<open>k\<close>: the view, the findings, the error.\<close>

definition inspect_visitor :: "nat \<Rightarrow> txn_view option visitor" where
  "inspect_visitor k = (\<lambda>n txn view hit. if n \<noteq> k then (True, hit) else (False, Some view))"

definition inspect :: "apd \<Rightarrow> option_values option \<Rightarrow> nat option \<Rightarrow> directive list \<Rightarrow>
    (txn_view option \<times> diagnostic list \<times> go_error option) result" where
  "inspect A opts k ds =
     (case k of None \<Rightarrow> Inr (None, [], None)
      | Some k \<Rightarrow>
          rbind (walk A opts (Some (inspect_visitor k)) None ds) (\<lambda>r.
            Inr (wr_visitor r, wr_diags r, wr_error r)))"

end
