(* ===== verification/Account_State.thy ===== *)
theory Account_State
  imports Options
begin

text \<open>
  The open/close life of the accounts (\<open>pkg/validation/internal/accountstate\<close>): \<open>Build\<close> walks
  the directives once and keeps one state per opened account. A \<open>*State\<close> the code mutates in
  place is a map entry that is replaced; a nil directive sequence is None.
\<close>

record account_state =
  as_open_span :: span
  as_open_date :: time
  as_closed :: bool
  as_close_date :: time
  as_close_span :: span
  as_currencies :: "currency list"
  as_booking :: booking_method

record build_result =
  br_state :: "account \<rightharpoonup> account_state"
  br_duplicates :: "open_dir list"
  br_diags :: "diagnostic list"

fun list_mem :: "'a list \<Rightarrow> 'a \<Rightarrow> bool" where
  "list_mem [] c = False"
| "list_mem (x # xs) c = (if x = c then True else list_mem xs c)"

definition allows_currency :: "account_state \<Rightarrow> currency \<Rightarrow> bool" where
  "allows_currency s c = (if as_currencies s = [] then True else list_mem (as_currencies s) c)"

definition opened_state :: "open_dir \<Rightarrow> booking_method \<Rightarrow> account_state" where
  "opened_state d m = \<lparr>as_open_span = open_span d, as_open_date = open_date d, as_closed = False,
     as_close_date = zero_time, as_close_span = zero_span, as_currencies = open_currencies d,
     as_booking = m\<rparr>"

definition close_state :: "account_state \<Rightarrow> close_dir \<Rightarrow> account_state" where
  "close_state s d = s\<lparr>as_closed := True, as_close_date := close_date d, as_close_span := close_span d\<rparr>"

definition build_step :: "apd \<Rightarrow> option_values option \<Rightarrow> build_result \<Rightarrow> directive \<Rightarrow> build_result result" where
  "build_step A opts r dir =
     (case dir of
        DOpen d \<Rightarrow>
          if br_state r (open_account d) \<noteq> None
          then Inr (r\<lparr>br_duplicates := br_duplicates r @ [d]\<rparr>)
          else rbind (resolve_booking_method A d opts) (\<lambda>(m, diags).
            Inr (r\<lparr>br_diags := br_diags r @ diags,
                   br_state := (br_state r)(open_account d \<mapsto> opened_state d m)\<rparr>))
      | DClose d \<Rightarrow>
          (case br_state r (close_account d) of
             None \<Rightarrow> Inr r
           | Some s \<Rightarrow>
               if as_closed s then Inr r
               else Inr (r\<lparr>br_state := (br_state r)(close_account d \<mapsto> close_state s d)\<rparr>))
      | _ \<Rightarrow> Inr r)"

fun build_loop :: "apd \<Rightarrow> option_values option \<Rightarrow> build_result \<Rightarrow> directive list \<Rightarrow> build_result result" where
  "build_loop A opts r [] = Inr r"
| "build_loop A opts r (d # ds) = rbind (build_step A opts r d) (\<lambda>r'. build_loop A opts r' ds)"

definition empty_build :: build_result where
  "empty_build = \<lparr>br_state = Map.empty, br_duplicates = [], br_diags = []\<rparr>"

definition build :: "apd \<Rightarrow> directive list option \<Rightarrow> option_values option \<Rightarrow> build_result result" where
  "build A dirs opts =
     (case dirs of None \<Rightarrow> Inr empty_build | Some ds \<Rightarrow> build_loop A opts empty_build ds)"

section \<open>The lifecycle it computes\<close>

lemma list_mem_iff [simp]: "list_mem xs c \<longleftrightarrow> c \<in> set xs"
  by (induction xs) auto

lemma allows_currency_iff: "allows_currency s c \<longleftrightarrow> as_currencies s = [] \<or> c \<in> set (as_currencies s)"
  by (simp add: allows_currency_def)

text \<open>The specification: the first \<open>Open\<close> of an account opens it, the first \<open>Close\<close> after that
  closes it.\<close>

definition opens_of :: "account \<Rightarrow> directive list \<Rightarrow> open_dir list" where
  "opens_of a ds = concat (map (\<lambda>d. case d of DOpen x \<Rightarrow> if open_account x = a then [x] else [] | _ \<Rightarrow> []) ds)"

definition closes_of :: "account \<Rightarrow> directive list \<Rightarrow> close_dir list" where
  "closes_of a ds = concat (map (\<lambda>d. case d of DClose x \<Rightarrow> if close_account x = a then [x] else [] | _ \<Rightarrow> []) ds)"

definition opens_account :: "account \<Rightarrow> directive \<Rightarrow> bool" where
  "opens_account a d = (case d of DOpen x \<Rightarrow> open_account x = a | _ \<Rightarrow> False)"

text \<open>The directives after the first \<open>Open\<close> of an account.\<close>

definition after_open :: "account \<Rightarrow> directive list \<Rightarrow> directive list" where
  "after_open a ds = tl (dropWhile (\<lambda>d. \<not> opens_account a d) ds)"

definition life_of :: "account \<Rightarrow> directive list \<Rightarrow> account_state option \<Rightarrow> bool" where
  "life_of a ds st =
     (case opens_of a ds of
        [] \<Rightarrow> st = None
      | d # _ \<Rightarrow>
          (\<exists>m. m \<noteq> BookingDefault \<and>
             st = Some (case closes_of a (after_open a ds) of
                          [] \<Rightarrow> opened_state d m
                        | c # _ \<Rightarrow> close_state (opened_state d m) c)))"

text \<open>What the closes in a list of directives do to a state that is present.\<close>

definition closed_by :: "account_state \<Rightarrow> close_dir list \<Rightarrow> account_state" where
  "closed_by s cs = (if as_closed s then s else case cs of [] \<Rightarrow> s | c # _ \<Rightarrow> close_state s c)"

lemma as_sels [simp]:
  "as_closed (opened_state d m) = False" "as_closed (close_state s c) = True"
  "as_open_date (opened_state d m) = open_date d" "as_open_date (close_state s c) = as_open_date s"
  "as_currencies (opened_state d m) = open_currencies d" "as_currencies (close_state s c) = as_currencies s"
  "as_close_date (close_state s c) = close_date c"
  by (simp_all add: opened_state_def close_state_def)

lemma build_loop_opened:
  "build_loop A opts r ds = Inr r' \<Longrightarrow> br_state r a = Some s \<Longrightarrow>
     br_state r' a = Some (closed_by s (closes_of a ds)) \<and>
     filter (\<lambda>x. open_account x = a) (br_duplicates r') =
       filter (\<lambda>x. open_account x = a) (br_duplicates r) @ opens_of a ds"
proof (induction ds arbitrary: r s)
  case Nil
  then show ?case by (simp add: closed_by_def closes_of_def opens_of_def)
next
  case (Cons d ds)
  then obtain r1 where r1: "build_step A opts r d = Inr r1" and rest: "build_loop A opts r1 ds = Inr r'"
    by auto
  show ?case
  proof (cases d)
    case (DOpen x)
    with r1 Cons.prems(2) have "br_state r1 a = Some s"
      and "filter (\<lambda>x. open_account x = a) (br_duplicates r1) =
        filter (\<lambda>x. open_account x = a) (br_duplicates r) @ (if open_account x = a then [x] else [])"
      by (auto simp: build_step_def split: if_splits)
    with Cons.IH [OF rest] DOpen show ?thesis
      by (auto simp: closes_of_def opens_of_def)
  next
    case (DClose c)
    with r1 Cons.prems(2) have "br_state r1 a =
        Some (if close_account c = a \<and> \<not> as_closed s then close_state s c else s)"
      and "br_duplicates r1 = br_duplicates r"
      by (auto simp: build_step_def split: if_splits option.splits)
    with Cons.IH [OF rest] DClose show ?thesis
      by (auto simp: closes_of_def opens_of_def closed_by_def)
  qed (use r1 Cons.IH [OF rest] Cons.prems(2) in
      \<open>auto simp: build_step_def closes_of_def opens_of_def\<close>)
qed

lemma not_opening [simp]:
  "\<not> opens_account a d \<Longrightarrow> opens_of a (d # ds) = opens_of a ds"
  "\<not> opens_account a d \<Longrightarrow> after_open a (d # ds) = after_open a ds"
  by (auto simp: opens_of_def after_open_def opens_account_def split: directive.splits)

lemma build_loop_lifecycle:
  "build_loop A opts r ds = Inr r' \<Longrightarrow> br_state r a = None \<Longrightarrow>
     filter (\<lambda>x. open_account x = a) (br_duplicates r) = [] \<Longrightarrow>
     life_of a ds (br_state r' a) \<and>
     filter (\<lambda>x. open_account x = a) (br_duplicates r') = tl (opens_of a ds)"
proof (induction ds arbitrary: r)
  case Nil
  then show ?case by (simp add: life_of_def opens_of_def)
next
  case (Cons d ds)
  then obtain r1 where r1: "build_step A opts r d = Inr r1" and rest: "build_loop A opts r1 ds = Inr r'"
    by auto
  show ?case
  proof (cases "opens_account a d")
    case True
    then obtain x where d: "d = DOpen x" and x: "open_account x = a"
      by (auto simp: opens_account_def split: directive.splits)
    with r1 Cons.prems(2) obtain m ds' where m: "resolve_booking_method A x opts = Inr (m, ds')"
      and st: "br_state r1 a = Some (opened_state x m)" "br_duplicates r1 = br_duplicates r"
      by (auto simp: build_step_def)
    from build_loop_opened [OF rest st(1)] st(2) Cons.prems(3)
      resolve_booking_method_not_default [OF m] True d x
    show ?thesis
      by (auto simp: life_of_def opens_of_def after_open_def closed_by_def split: list.splits)
  next
    case False
    with r1 Cons.prems have "br_state r1 a = None" "filter (\<lambda>x. open_account x = a) (br_duplicates r1) = []"
      by (auto simp: build_step_def opens_account_def split: directive.splits if_splits option.splits)
    from Cons.IH [OF rest this] False show ?thesis
      unfolding life_of_def not_opening [OF False] by blast
  qed
qed

lemma build_step_total:
  assumes "opts_typed A opts"
  shows "\<exists>r'. build_step A opts r d = Inr r'"
  using resolve_booking_method_total [OF assms]
  by (fastforce simp: build_step_def split: directive.splits option.splits)

lemma build_loop_total: "opts_typed A opts \<Longrightarrow> \<exists>r'. build_loop A opts r ds = Inr r'"
proof (induction ds arbitrary: r)
  case Nil
  then show ?case by simp
next
  case (Cons d ds)
  then show ?case using build_step_total [OF Cons.prems, of r d] by auto
qed

lemma build_total: "opts_typed A opts \<Longrightarrow> \<exists>r. build A dirs opts = Inr r"
  by (auto simp: build_def build_loop_total split: option.splits)

lemma build_lifecycle:
  assumes "build A (Some ds) opts = Inr r"
  shows "life_of a ds (br_state r a)"
    and "filter (\<lambda>x. open_account x = a) (br_duplicates r) = tl (opens_of a ds)"
  using build_loop_lifecycle [of A opts empty_build ds r a] assms
  by (auto simp: build_def empty_build_def)

text \<open>The state of an account once the directives are read, by cases.\<close>

lemma build_opened_iff:
  assumes "build A (Some ds) opts = Inr r"
  shows "br_state r a = None \<longleftrightarrow> opens_of a ds = []"
  using build_lifecycle(1) [OF assms, of a] by (cases "opens_of a ds") (auto simp: life_of_def)

end
