(* ===== verification/Tolerance.thy ===== *)
theory Tolerance
  imports Costs
begin

text \<open>
  The tolerances of \<open>pkg/validation/tolerance/tolerance.go\<close>: how far a residual may be from zero,
  from the digits the user wrote. Exponents are \<open>int32\<close> in the code; a parsed number's is within_tol
  100000 of zero, so their sums do not wrap and they are integers here. The maps from currencies
  are HOL maps; reading an absent entry gives the nil pointer None.
\<close>

definition for_exponent :: "apd \<Rightarrow> option_values option \<Rightarrow> int \<Rightarrow> decimal result" where
  "for_exponent A opts e =
     rbind (opt_decimal A opts ''tolerance_multiplier'') (\<lambda>m. Inr (m\<lparr>d_exp := d_exp m + e\<rparr>))"

definition for_amount :: "apd \<Rightarrow> option_values option \<Rightarrow> amount \<Rightarrow> decimal result" where
  "for_amount A opts a = for_exponent A opts (d_exp (amt_number a))"

definition lookup_default :: "apd \<Rightarrow> (currency \<rightharpoonup> decimal) \<Rightarrow> currency \<Rightarrow> decimal option" where
  "lookup_default A defaults c =
     (case defaults c of
        None \<Rightarrow> None
      | Some d \<Rightarrow> if apd_is_zero A d \<or> apd_sign A d < 0 then None else Some d)"

definition for_balance_assertion :: "apd \<Rightarrow> option_values option \<Rightarrow> amount \<Rightarrow> decimal result" where
  "for_balance_assertion A opts a =
     (if 0 \<le> d_exp (amt_number a)
      then rbind (opt_decimal_map A opts ''inferred_tolerance_default'') (\<lambda>defaults.
             case lookup_default A defaults (amt_currency a) of
               Some d \<Rightarrow> Inr d
             | None \<Rightarrow> Inr dzero)
      else rbind (for_amount A opts a) (\<lambda>out. Inr (out\<lparr>d_coeff := 2 * d_coeff out\<rparr>)))"

text \<open>\<open>Infer\<close>: the loop for the largest exponent of each currency, the loop over the residual
  currencies, the loop over the postings with a cost, and the loop that joins the two.\<close>

fun max_exponents :: "posting list \<Rightarrow> (currency \<rightharpoonup> int) \<Rightarrow> (currency \<rightharpoonup> int)" where
  "max_exponents [] acc = acc"
| "max_exponents (p # ps) acc =
     (case p_amount p of
        None \<Rightarrow> max_exponents ps acc
      | Some a \<Rightarrow>
          let cur = amt_currency a; e = d_exp (amt_number a) in
          if (case acc cur of None \<Rightarrow> True | Some existing \<Rightarrow> e > existing)
          then max_exponents ps (acc(cur \<mapsto> e))
          else max_exponents ps acc)"

fun units_tolerances :: "apd \<Rightarrow> option_values option \<Rightarrow> (currency \<rightharpoonup> int) \<Rightarrow> (currency \<rightharpoonup> decimal) \<Rightarrow>
    currency list \<Rightarrow> (currency \<rightharpoonup> decimal) \<Rightarrow> (currency \<rightharpoonup> decimal) result" where
  "units_tolerances A opts exps defaults [] acc = Inr acc"
| "units_tolerances A opts exps defaults (c # cs) acc =
     rbind (case exps c of
              Some e \<Rightarrow> for_exponent A opts e
            | None \<Rightarrow>
                (case lookup_default A defaults c of Some d \<Rightarrow> Inr d | None \<Rightarrow> Inr dzero))
       (\<lambda>t. units_tolerances A opts exps defaults cs (acc(c \<mapsto> t)))"

text \<open>The currency and the exponent of the cost a posting was written with.\<close>

definition cost_digits :: "cost_holder \<Rightarrow> (currency \<times> int) option" where
  "cost_digits h =
     (case (get_per_unit h, get_total h) of
        (Some per, Some tot) \<Rightarrow>
          Some (amt_currency per,
            let e = d_exp (amt_number per); te = d_exp (amt_number tot) in if te < e then te else e)
      | (Some per, None) \<Rightarrow> Some (amt_currency per, d_exp (amt_number per))
      | (None, Some tot) \<Rightarrow> Some (amt_currency tot, d_exp (amt_number tot))
      | (None, None) \<Rightarrow> None)"

fun cost_tolerances :: "apd \<Rightarrow> option_values option \<Rightarrow> posting list \<Rightarrow> (currency \<rightharpoonup> decimal) \<Rightarrow>
    (currency \<rightharpoonup> decimal) result" where
  "cost_tolerances A opts [] acc = Inr acc"
| "cost_tolerances A opts (p # ps) acc =
     (case (p_amount p, p_cost p) of
        (Some amt, Some h) \<Rightarrow>
          (case cost_digits h of
             None \<Rightarrow> cost_tolerances A opts ps acc
           | Some (cur, e) \<Rightarrow>
               rbind (for_exponent A opts e) (\<lambda>t.
               rbind (wrap_err ''abs units'' (apd_abs A (amt_number amt))) (\<lambda>absunits.
               rbind (wrap_err ''mul cost tolerance'' (apd_mul A absunits t)) (\<lambda>contribution.
                 if (case acc cur of None \<Rightarrow> True | Some existing \<Rightarrow> 0 < apd_cmp A contribution existing)
                 then cost_tolerances A opts ps (acc(cur \<mapsto> contribution))
                 else cost_tolerances A opts ps acc))))
      | _ \<Rightarrow> cost_tolerances A opts ps acc)"

definition max_decimal :: "apd \<Rightarrow> decimal option \<Rightarrow> decimal option \<Rightarrow> decimal option" where
  "max_decimal A a b =
     (case (a, b) of
        (None, _) \<Rightarrow> b
      | (_, None) \<Rightarrow> a
      | (Some x, Some y) \<Rightarrow> if 0 \<le> apd_cmp A x y then a else b)"

fun join_tolerances :: "apd \<Rightarrow> (currency \<rightharpoonup> decimal) \<Rightarrow> (currency \<rightharpoonup> decimal) \<Rightarrow> currency list \<Rightarrow>
    (currency \<rightharpoonup> decimal) \<Rightarrow> (currency \<rightharpoonup> decimal)" where
  "join_tolerances A units costs [] acc = acc"
| "join_tolerances A units costs (c # cs) acc =
     join_tolerances A units costs cs
       (acc(c \<mapsto> (case max_decimal A (units c) (costs c) of Some t \<Rightarrow> t | None \<Rightarrow> dzero)))"

definition infer :: "apd \<Rightarrow> posting list \<Rightarrow> option_values option \<Rightarrow> currency list \<Rightarrow>
    (currency \<rightharpoonup> decimal) result" where
  "infer A ps opts cs =
     rbind (opt_decimal_map A opts ''inferred_tolerance_default'') (\<lambda>defaults.
     rbind (units_tolerances A opts (max_exponents ps Map.empty) defaults cs Map.empty) (\<lambda>units.
     rbind (opt_bool A opts ''infer_tolerance_from_cost'') (\<lambda>from_cost.
       if \<not> from_cost then Inr units
       else rbind (cost_tolerances A opts ps Map.empty) (\<lambda>costs.
              Inr (join_tolerances A units costs cs Map.empty)))))"

definition within_tol :: "apd \<Rightarrow> decimal \<Rightarrow> decimal \<Rightarrow> bool result" where
  "within_tol A diff tol =
     rbind (plain_err (apd_abs A diff)) (\<lambda>a. Inr (apd_cmp A a tol \<le> 0))"

section \<open>What they return\<close>

lemma dval_shift: "dval (m\<lparr>d_exp := d_exp m + e\<rparr>) = dval m * pow10 e"
  by (simp add: dval_def pow10_add)

lemma dval_double_shift:
  "dval (m\<lparr>d_exp := d_exp m + e, d_coeff := 2 * d_coeff m\<rparr>) = 2 * dval m * pow10 e"
  by (simp add: dval_def pow10_add)

text \<open>The exponents a list of postings is written with in a currency.\<close>

definition exponents :: "posting list \<Rightarrow> currency \<Rightarrow> int set" where
  "exponents ps c = {d_exp (amt_number a) | p a. p \<in> set ps \<and> p_amount p = Some a \<and> amt_currency a = c}"

lemma exponents_Nil [simp]: "exponents [] c = {}"
  by (simp add: exponents_def)

lemma exponents_Cons:
  "exponents (p # ps) c =
     (case p_amount p of Some a \<Rightarrow> if amt_currency a = c then insert (d_exp (amt_number a)) (exponents ps c)
        else exponents ps c | None \<Rightarrow> exponents ps c)"
  by (auto simp: exponents_def split: option.splits)

lemma exponents_finite [simp]: "finite (exponents ps c)"
  by (induction ps) (auto simp: exponents_Cons split: option.splits)

definition upper :: "int option \<Rightarrow> int set \<Rightarrow> int option" where
  "upper m S = (if S = {} then m else Some (case m of None \<Rightarrow> Max S | Some e \<Rightarrow> max e (Max S)))"

lemma upper_insert:
  assumes "finite S"
  shows "upper m (insert e S) =
    upper (Some (case m of None \<Rightarrow> e | Some x \<Rightarrow> if e > x then e else x)) S"
  using assms by (cases "S = {}"; cases m) (auto simp: upper_def)

lemma max_exponents_upper: "max_exponents ps acc c = upper (acc c) (exponents ps c)"
proof (induction ps arbitrary: acc)
  case Nil
  then show ?case by (simp add: upper_def)
next
  case (Cons p ps)
  show ?case
  proof (cases "p_amount p")
    case None
    with Cons show ?thesis by (simp add: exponents_Cons)
  next
    case (Some a)
    show ?thesis
    proof (cases "amt_currency a = c")
      case True
      with Some Cons show ?thesis
        by (auto simp: exponents_Cons upper_insert Let_def split: option.splits)
    next
      case False
      with Some Cons show ?thesis by (auto simp: exponents_Cons Let_def)
    qed
  qed
qed

lemma max_exponents_Max:
  "max_exponents ps Map.empty c =
     (if exponents ps c = {} then None else Some (Max (exponents ps c)))"
  by (simp add: max_exponents_upper upper_def)

lemma for_exponent_total:
  assumes "opts_typed A opts"
  shows "\<exists>t. for_exponent A opts e = Inr t"
  using opt_decimal_total [OF assms default_registry_lookup(1)]
  by (auto simp: for_exponent_def mk_spec_def)

lemma for_exponent_val:
  "for_exponent A opts e = Inr t \<Longrightarrow>
     \<exists>m. opt_decimal A opts ''tolerance_multiplier'' = Inr m \<and> dval t = dval m * pow10 e"
  by (auto simp: for_exponent_def dval_shift)

text \<open>The default of a currency that counts, as a number.\<close>

definition default_val :: "(currency \<rightharpoonup> decimal) \<Rightarrow> currency \<Rightarrow> rat" where
  "default_val defaults c =
     (case defaults c of None \<Rightarrow> 0 | Some d \<Rightarrow> if dval d > 0 then dval d else 0)"

text \<open>The tolerance the digits of the units give.\<close>

definition units_tol :: "rat \<Rightarrow> (currency \<rightharpoonup> decimal) \<Rightarrow> posting list \<Rightarrow> currency \<Rightarrow> rat" where
  "units_tol mul defaults ps c =
     (if exponents ps c = {} then default_val defaults c else mul * pow10 (Max (exponents ps c)))"

text \<open>The tolerances the digits of the costs give: one per posting with a written cost.\<close>

definition cost_tols :: "rat \<Rightarrow> posting list \<Rightarrow> currency \<Rightarrow> rat set" where
  "cost_tols mul ps c =
     {\<bar>dval (amt_number a)\<bar> * (mul * pow10 e) | p a h e.
        p \<in> set ps \<and> p_amount p = Some a \<and> p_cost p = Some h \<and> cost_digits h = Some (c, e)}"

lemma cost_tols_Nil [simp]: "cost_tols mul [] c = {}"
  by (simp add: cost_tols_def)

lemma cost_tols_Cons:
  "cost_tols mul (p # ps) c =
     (case (p_amount p, p_cost p) of
        (Some a, Some h) \<Rightarrow>
          (case cost_digits h of Some (cur, e) \<Rightarrow>
             if cur = c then insert (\<bar>dval (amt_number a)\<bar> * (mul * pow10 e)) (cost_tols mul ps c)
             else cost_tols mul ps c
           | None \<Rightarrow> cost_tols mul ps c)
      | _ \<Rightarrow> cost_tols mul ps c)"
  by (auto simp: cost_tols_def split: option.splits)

lemma cost_tols_finite [simp]: "finite (cost_tols mul ps c)"
  by (induction ps) (auto simp: cost_tols_Cons split: option.splits)

definition largest :: "rat option \<Rightarrow> rat set \<Rightarrow> rat option" where
  "largest m S = (if S = {} then m else Some (case m of None \<Rightarrow> Max S | Some e \<Rightarrow> max e (Max S)))"

lemma largest_insert:
  assumes "finite S"
  shows "largest m (insert e S) = largest (Some (case m of None \<Rightarrow> e | Some x \<Rightarrow> max x e)) S"
  using assms by (cases "S = {}"; cases m) (auto simp: largest_def max.assoc)

context apd_exact
begin

lemma lookup_default_val:
  "(case lookup_default A defaults c of Some d \<Rightarrow> dval d | None \<Rightarrow> 0) = default_val defaults c"
  by (auto simp: lookup_default_def default_val_def is_zero_val split: option.splits)

lemma within_tol_iff: "within_tol A diff tol = Inr b \<Longrightarrow> b \<longleftrightarrow> \<bar>dval diff\<bar> \<le> dval tol"
  by (auto simp: within_tol_def abs_val)

lemma for_balance_assertion_val:
  assumes "for_balance_assertion A opts a = Inr t"
    and "opt_decimal A opts ''tolerance_multiplier'' = Inr m"
    and "opt_decimal_map A opts ''inferred_tolerance_default'' = Inr defaults"
  shows "dval t = (if 0 \<le> d_exp (amt_number a) then default_val defaults (amt_currency a)
    else 2 * dval m * pow10 (d_exp (amt_number a)))"
  using assms lookup_default_val [of defaults "amt_currency a"]
  by (auto simp: for_balance_assertion_def for_amount_def for_exponent_def dval_double_shift
      split: if_splits option.splits)

lemma units_tolerances_val:
  assumes "opt_decimal A opts ''tolerance_multiplier'' = Inr m"
  shows "units_tolerances A opts (max_exponents ps Map.empty) defaults cs acc = Inr out \<Longrightarrow>
    (c \<in> set cs \<longrightarrow> (\<exists>t. out c = Some t \<and> dval t = units_tol (dval m) defaults ps c)) \<and>
    (c \<notin> set cs \<longrightarrow> out c = acc c)"
proof (induction cs arbitrary: acc)
  case Nil
  then show ?case by simp
next
  case (Cons x cs)
  then obtain t where t: "(case max_exponents ps Map.empty x of Some e \<Rightarrow> for_exponent A opts e
        | None \<Rightarrow> (case lookup_default A defaults x of Some d \<Rightarrow> Inr d | None \<Rightarrow> Inr dzero)) = Inr t"
    and rest: "units_tolerances A opts (max_exponents ps Map.empty) defaults cs (acc(x \<mapsto> t)) = Inr out"
    by auto
  have "dval t = units_tol (dval m) defaults ps x"
    using t assms lookup_default_val [of defaults x]
    by (auto simp: max_exponents_Max units_tol_def for_exponent_def dval_shift split: if_splits option.splits)
  with Cons.IH [OF rest] show ?case
    by (cases "c \<in> set cs") (auto split: if_splits)
qed

lemma cost_tolerances_val:
  assumes "opt_decimal A opts ''tolerance_multiplier'' = Inr m"
  shows "cost_tolerances A opts ps acc = Inr out \<Longrightarrow>
    map_option dval (out c) = largest (map_option dval (acc c)) (cost_tols (dval m) ps c)"
proof (induction ps arbitrary: acc)
  case Nil
  then show ?case by (simp add: largest_def)
next
  case (Cons p ps)
  show ?case
  proof (cases "\<exists>a h cur e. p_amount p = Some a \<and> p_cost p = Some h \<and> cost_digits h = Some (cur, e)")
    case False
    with Cons show ?thesis
      by (auto simp: cost_tols_Cons split: option.splits)
  next
    case True
    then obtain a h cur e where p: "p_amount p = Some a" "p_cost p = Some h" "cost_digits h = Some (cur, e)"
      by blast
    with Cons.prems obtain t u v where t: "for_exponent A opts e = Inr t" and u: "apd_abs A (amt_number a) = Inr u"
      and v: "apd_mul A u t = Inr v"
      and rest: "cost_tolerances A opts ps
        (if (case acc cur of None \<Rightarrow> True | Some existing \<Rightarrow> 0 < apd_cmp A v existing)
         then acc(cur \<mapsto> v) else acc) = Inr out"
      by (auto split: if_splits)
    have "dval v = \<bar>dval (amt_number a)\<bar> * (dval m * pow10 e)"
      using t assms by (auto simp: mul_val [OF v] abs_val [OF u] for_exponent_def dval_shift)
    with Cons.IH [OF rest] p show ?thesis
      by (cases "cur = c") (auto simp: cost_tols_Cons largest_insert max_def split: option.splits if_splits)
  qed
qed

lemma join_tolerances_val:
  "join_tolerances A units costs cs acc c =
     (if c \<in> set cs then Some (case max_decimal A (units c) (costs c) of Some t \<Rightarrow> t | None \<Rightarrow> dzero)
      else acc c)"
  by (induction cs arbitrary: acc) auto

text \<open>\<open>Infer\<close> as one formula: the tolerance of the units or, where the option asks for it, the
  largest of it and those of the costs.\<close>

lemma infer_val:
  assumes "infer A ps opts cs = Inr out" and "c \<in> set cs"
    and m: "opt_decimal A opts ''tolerance_multiplier'' = Inr m"
    and d: "opt_decimal_map A opts ''inferred_tolerance_default'' = Inr defaults"
    and b: "opt_bool A opts ''infer_tolerance_from_cost'' = Inr from_cost"
  shows "\<exists>t. out c = Some t \<and> dval t =
    (if from_cost then Max (insert (units_tol (dval m) defaults ps c) (cost_tols (dval m) ps c))
     else units_tol (dval m) defaults ps c)"
proof -
  from assms obtain units where
    units: "units_tolerances A opts (max_exponents ps Map.empty) defaults cs Map.empty = Inr units"
    by (auto simp: infer_def)
  from units_tolerances_val [OF m units] assms(2) obtain t where
    t: "units c = Some t" "dval t = units_tol (dval m) defaults ps c" by blast
  show ?thesis
  proof (cases from_cost)
    case False
    with assms(1) d b units t show ?thesis by (auto simp: infer_def)
  next
    case True
    with assms(1) d b units obtain costs where costs: "cost_tolerances A opts ps Map.empty = Inr costs"
      and out: "out = join_tolerances A units costs cs Map.empty"
      by (auto simp: infer_def)
    let ?S = "cost_tols (dval m) ps c"
    have c: "map_option dval (costs c) = largest None ?S"
      using cost_tolerances_val [OF m costs, of c] by simp
    show ?thesis
    proof (cases "?S = {}")
      case True
      with c t assms(2) \<open>from_cost\<close> show ?thesis
        by (simp add: out join_tolerances_val max_decimal_def largest_def)
    next
      case False
      with c obtain v where "costs c = Some v" "dval v = Max ?S"
        by (auto simp: largest_def)
      with t assms(2) \<open>from_cost\<close> Max_insert [OF cost_tols_finite False] show ?thesis
        by (simp add: out join_tolerances_val max_decimal_def max_def del: Max_insert Max_le_iff Max_ge_iff)
    qed
  qed
qed

end

context apd_total
begin

lemma cost_tolerances_total:
  assumes "opts_typed A opts"
  shows "\<exists>out. cost_tolerances A opts ps acc = Inr out"
proof (induction ps arbitrary: acc)
  case Nil
  then show ?case by simp
next
  case (Cons p ps)
  have step: "\<exists>v. rbind (for_exponent A opts e) (\<lambda>t. rbind (wrap_err c (apd_abs A n)) (\<lambda>u.
      rbind (wrap_err d (apd_mul A u t)) f)) = f v" for e c n d and f :: "decimal \<Rightarrow> (currency \<rightharpoonup> decimal) result"
    using for_exponent_total [OF assms, of e] abs_total [of n] mul_total by (metis rbind_Inr wrap_err_Inr)
  show ?case
  proof (cases "\<exists>a h cur e. p_amount p = Some a \<and> p_cost p = Some h \<and> cost_digits h = Some (cur, e)")
    case False
    with Cons show ?thesis by (auto split: option.splits)
  next
    case True
    then obtain a h cur e where p: "p_amount p = Some a" "p_cost p = Some h" "cost_digits h = Some (cur, e)"
      by blast
    obtain v where "cost_tolerances A opts (p # ps) acc =
      (if (case acc cur of None \<Rightarrow> True | Some existing \<Rightarrow> 0 < apd_cmp A v existing)
       then cost_tolerances A opts ps (acc(cur \<mapsto> v)) else cost_tolerances A opts ps acc)"
      unfolding cost_tolerances.simps p option.case prod.case using step by blast
    with Cons show ?thesis by simp
  qed
qed

lemma units_tolerances_total:
  assumes "opts_typed A opts"
  shows "\<exists>out. units_tolerances A opts exps defaults cs acc = Inr out"
proof (induction cs arbitrary: acc)
  case Nil
  then show ?case by simp
next
  case (Cons c cs)
  have "\<exists>t. (case exps c of Some e \<Rightarrow> for_exponent A opts e
        | None \<Rightarrow> (case lookup_default A defaults c of Some d \<Rightarrow> Inr d | None \<Rightarrow> Inr dzero)) = Inr t"
    using for_exponent_total [OF assms] by (auto split: option.splits)
  with Cons show ?case by auto
qed

lemma infer_total:
  assumes "opts_typed A opts"
  shows "\<exists>out. infer A ps opts cs = Inr out"
proof -
  obtain defaults where "opt_decimal_map A opts ''inferred_tolerance_default'' = Inr defaults"
    using opt_decimal_map_total [OF assms default_registry_lookup(5)] by (auto simp: mk_spec_def)
  moreover obtain b where "opt_bool A opts ''infer_tolerance_from_cost'' = Inr b"
    using opt_bool_total [OF assms default_registry_lookup(3)] by (auto simp: bool_spec_def mk_spec_def)
  moreover obtain units where
    "units_tolerances A opts (max_exponents ps Map.empty) defaults cs Map.empty = Inr units"
    using units_tolerances_total [OF assms] by blast
  ultimately show ?thesis
    using cost_tolerances_total [OF assms, of ps Map.empty] by (auto simp: infer_def)
qed

end

end
