(* ===== verification/Validators.thy ===== *)
theory Validators
  imports Account_State Tolerance Lots
begin

text \<open>
  The validations plugin (\<open>pkg/validation/validations\<close>): four validators that see every directive
  in turn and a last flush, composed by \<open>Apply\<close>. A validator's state is read-only, so
  \<open>ProcessEntry\<close> and \<open>Finish\<close> are functions of it. The context check at the head of \<open>Apply\<close> and
  the registration with the plugin runner are left out.
\<close>

section \<open>Shared pieces\<close>

definition posting_span :: "transaction \<Rightarrow> posting \<Rightarrow> span" where
  "posting_span t p = (if p_span p = zero_span then txn_span t else p_span p)"

definition unresolved_diag :: "transaction \<Rightarrow> posting \<Rightarrow> diagnostic" where
  "unresolved_diag t p = mk_diag ''auto-posting-unresolved'' (posting_span t p)
     (''posting on account '' @ go_quote (p_account p) @
      '' has no amount; booking pass should have resolved it'')"

lemma unresolved_diag_code [simp]: "diag_code (unresolved_diag t p) = ''auto-posting-unresolved''"
  by (simp add: unresolved_diag_def)

section \<open>Open and close\<close>

definition open_close_finish :: "build_result \<Rightarrow> diagnostic list" where
  "open_close_finish r =
     (if br_duplicates r = [] then []
      else map (\<lambda>d. mk_diag ''duplicate-open'' (open_span d)
             (''account '' @ go_quote (open_account d) @ '' already opened'')) (br_duplicates r))"

section \<open>Active accounts\<close>

definition check_opened ::
  "(account \<rightharpoonup> account_state) \<Rightarrow> account \<Rightarrow> time \<Rightarrow> span \<Rightarrow> diagnostic option" where
  "check_opened st a day sp =
     (case st a of
        None \<Rightarrow> Some (mk_diag ''account-not-open'' sp (''account '' @ go_quote a @ '' is not open''))
      | Some s \<Rightarrow>
          if day < as_open_date s
          then Some (mk_diag ''account-not-yet-open'' sp
                 (''account '' @ go_quote a @ '' is not open on '' @ format_date day))
          else None)"

definition check_active ::
  "(account \<rightharpoonup> account_state) \<Rightarrow> account \<Rightarrow> time \<Rightarrow> span \<Rightarrow> diagnostic option result" where
  "check_active st a day sp =
     (case check_opened st a day sp of
        Some d \<Rightarrow> Inr (Some d)
      | None \<Rightarrow>
          (case st a of
             None \<Rightarrow> Inl (Panic ''nil pointer dereference'')
           | Some s \<Rightarrow>
               if as_closed s \<and> as_close_date s < day
               then Inr (Some (mk_diag ''account-closed'' sp
                      (''account '' @ go_quote a @ '' is closed on '' @ format_date day)))
               else Inr None))"

definition opt_list :: "'a option \<Rightarrow> 'a list" where
  "opt_list x = (case x of None \<Rightarrow> [] | Some v \<Rightarrow> [v])"

fun check_postings :: "(account \<rightharpoonup> account_state) \<Rightarrow> transaction \<Rightarrow> posting list \<Rightarrow> diagnostic list result" where
  "check_postings st t [] = Inr []"
| "check_postings st t (p # ps) =
     rbind (check_active st (p_account p) (txn_date t) (posting_span t p)) (\<lambda>d.
     rbind (check_postings st t ps) (\<lambda>ds. Inr (opt_list d @ ds)))"

definition active_process :: "(account \<rightharpoonup> account_state) \<Rightarrow> directive \<Rightarrow> diagnostic list result" where
  "active_process st dir =
     (case dir of
        DTransaction t \<Rightarrow> check_postings st t (txn_postings t)
      | DBalance b \<Rightarrow> Inr (opt_list (check_opened st (bal_account b) (bal_date b) (bal_span b)))
      | DPad p \<Rightarrow>
          rbind (check_active st (pad_account p) (pad_date p) (pad_span p)) (\<lambda>d1.
          rbind (check_active st (pad_source p) (pad_date p) (pad_span p)) (\<lambda>d2.
            Inr (opt_list d1 @ opt_list d2)))
      | DNote n \<Rightarrow> Inr (opt_list (check_opened st (note_account n) (note_date n) (note_span n)))
      | DDocument d \<Rightarrow> Inr (opt_list (check_opened st (doc_account d) (doc_date d) (doc_span d)))
      | _ \<Rightarrow> Inr [])"

section \<open>Currency constraints\<close>

fun check_currencies :: "(account \<rightharpoonup> account_state) \<Rightarrow> transaction \<Rightarrow> posting list \<Rightarrow> diagnostic list" where
  "check_currencies st t [] = []"
| "check_currencies st t (p # ps) =
     (case p_amount p of
        None \<Rightarrow> unresolved_diag t p # check_currencies st t ps
      | Some a \<Rightarrow>
          (case st (p_account p) of
             None \<Rightarrow> check_currencies st t ps
           | Some s \<Rightarrow>
               if allows_currency s (amt_currency a) then check_currencies st t ps
               else mk_diag ''currency-not-allowed'' (posting_span t p)
                      (''currency '' @ go_quote (amt_currency a) @ '' not allowed for account '' @
                       go_quote (p_account p)) # check_currencies st t ps))"

definition currency_process :: "(account \<rightharpoonup> account_state) \<Rightarrow> directive \<Rightarrow> diagnostic list" where
  "currency_process st dir =
     (case dir of DTransaction t \<Rightarrow> check_currencies st t (txn_postings t) | _ \<Rightarrow> [])"

section \<open>Transaction balances\<close>

text \<open>\<open>currencySum\<close>: an association list from currencies to acc.\<close>

type_synonym currency_sum = "(currency \<times> decimal) list"

fun sum_add :: "apd \<Rightarrow> currency_sum \<Rightarrow> amount \<Rightarrow> currency_sum result" where
  "sum_add A [] a = rbind (plain_err (apd_add A dzero (amt_number a))) (\<lambda>n. Inr [(amt_currency a, n)])"
| "sum_add A ((c, s) # acc) a =
     (if c = amt_currency a
      then rbind (plain_err (apd_add A s (amt_number a))) (\<lambda>n. Inr ((c, n) # acc))
      else rbind (sum_add A acc a) (\<lambda>acc'. Inr ((c, s) # acc')))"

definition non_zero_currencies :: "apd \<Rightarrow> currency_sum \<Rightarrow> currency list" where
  "non_zero_currencies A acc =
     sort_strings (map fst (filter (\<lambda>x. \<not> apd_is_zero A (snd x)) acc))"

text \<open>The loop over the postings: the findings so far, and the acc or, in the other case, the
  early return with one finding more.\<close>

fun weigh_postings :: "apd \<Rightarrow> transaction \<Rightarrow> posting list \<Rightarrow> currency_sum \<Rightarrow>
    (diagnostic list \<times> currency_sum option) result" where
  "weigh_postings A t [] acc = Inr ([], Some acc)"
| "weigh_postings A t (p # ps) acc =
     (if p_amount p = None
      then rbind (weigh_postings A t ps acc) (\<lambda>(ds, r). Inr (unresolved_diag t p # ds, r))
      else
        (case posting_weight A p of
           Inl (Panic e) \<Rightarrow> Inl (Panic e)
         | Inl (SysErr e) \<Rightarrow> Inr ([mk_diag ''unbalanced-transaction'' (txn_span t)
             (''failed to compute posting weight: '' @ e)], None)
         | Inr w \<Rightarrow>
             rbind (deref w) (\<lambda>w.
             (case sum_add A acc w of
                Inl (Panic e) \<Rightarrow> Inl (Panic e)
              | Inl (SysErr e) \<Rightarrow> Inr ([mk_diag ''unbalanced-transaction'' (txn_span t)
                  (''failed to accumulate posting weight: '' @ e)], None)
              | Inr acc' \<Rightarrow> weigh_postings A t ps acc'))))"

text \<open>The loop over the non-zero currencies: the residuals outside their tolerance, or the error
  of a comparison.\<close>

fun residuals :: "apd \<Rightarrow> currency_sum \<Rightarrow> (currency \<rightharpoonup> decimal) \<Rightarrow> currency list \<Rightarrow> string list result" where
  "residuals A acc tols [] = Inr []"
| "residuals A acc tols (c # cs) =
     rbind (deref (map_of acc c)) (\<lambda>s.
     rbind (deref (tols c)) (\<lambda>t.
     rbind (within_tol A s t) (\<lambda>ok.
     rbind (residuals A acc tols cs) (\<lambda>rs.
       Inr (if ok then rs else (apd_text A s @ '' '' @ c) # rs)))))"

definition balances_process :: "apd \<Rightarrow> option_values option \<Rightarrow> directive \<Rightarrow> diagnostic list result" where
  "balances_process A opts dir =
     (case dir of
        DTransaction t \<Rightarrow>
          rbind (weigh_postings A t (txn_postings t) []) (\<lambda>(ds, r).
          case r of
            None \<Rightarrow> Inr ds
          | Some acc \<Rightarrow>
              let non_zero = non_zero_currencies A acc in
              (case infer A (txn_postings t) opts non_zero of
                 Inl (Panic e) \<Rightarrow> Inl (Panic e)
               | Inl (SysErr e) \<Rightarrow> Inr (ds @ [mk_diag ''internal-error'' (txn_span t)
                   (''failed to derive transaction tolerance: '' @ e)])
               | Inr tols \<Rightarrow>
                   (case residuals A acc tols non_zero of
                      Inl (Panic e) \<Rightarrow> Inl (Panic e)
                    | Inl (SysErr e) \<Rightarrow> Inr (ds @ [mk_diag ''unbalanced-transaction'' (txn_span t)
                        (''failed to evaluate balance tolerance: '' @ e)])
                    | Inr rs \<Rightarrow>
                        Inr (if rs = [] then ds
                             else ds @ [mk_diag ''unbalanced-transaction'' (txn_span t)
                               (''transaction does not balance: non-zero residual '' @
                                join_with '', '' rs)]))))
      | _ \<Rightarrow> Inr [])"

section \<open>\<open>Apply\<close>\<close>

definition validate_entry :: "apd \<Rightarrow> option_values option \<Rightarrow> build_result \<Rightarrow> directive \<Rightarrow>
    diagnostic list result" where
  "validate_entry A opts r d =
     rbind (active_process (br_state r) d) (\<lambda>d1.
     rbind (balances_process A opts d) (\<lambda>d3.
       Inr (d1 @ currency_process (br_state r) d @ d3)))"

fun validate_entries :: "apd \<Rightarrow> option_values option \<Rightarrow> build_result \<Rightarrow> directive list \<Rightarrow>
    diagnostic list result" where
  "validate_entries A opts r [] = Inr []"
| "validate_entries A opts r (d # ds) =
     rbind (validate_entry A opts r d) (\<lambda>x.
     rbind (validate_entries A opts r ds) (\<lambda>xs. Inr (x @ xs)))"

definition validations_apply :: "apd \<Rightarrow> directive list option \<Rightarrow> option_values option \<Rightarrow>
    diagnostic list result" where
  "validations_apply A dirs opts =
     rbind (build A dirs opts) (\<lambda>r.
     rbind (case dirs of None \<Rightarrow> Inr [] | Some ds \<Rightarrow> validate_entries A opts r ds) (\<lambda>xs.
       Inr (br_diags r @ xs @ open_close_finish r)))"

section \<open>When an account may be used\<close>

text \<open>The specification, on the directives alone: the code of the finding a reference to an account
  on a date deserves; \<open>close_aware\<close> is the stricter rule for postings and pads.\<close>

definition usage_verdict :: "bool \<Rightarrow> directive list \<Rightarrow> account \<Rightarrow> time \<Rightarrow> string option" where
  "usage_verdict close_aware ds a day =
     (case opens_of a ds of
        [] \<Rightarrow> Some ''account-not-open''
      | o' # _ \<Rightarrow>
          if day < open_date o' then Some ''account-not-yet-open''
          else if close_aware \<and> (case closes_of a (after_open a ds) of [] \<Rightarrow> False | c # _ \<Rightarrow> close_date c < day)
          then Some ''account-closed''
          else None)"

lemma check_opened_verdict:
  assumes "build A (Some ds) opts = Inr r"
  shows "map_option diag_code (check_opened (br_state r) a day sp) = usage_verdict False ds a day"
  using build_lifecycle(1) [OF assms, of a]
  by (cases "opens_of a ds"; cases "closes_of a (after_open a ds)")
    (auto simp: check_opened_def usage_verdict_def life_of_def)

lemma check_active_no_panic [simp]: "\<exists>d. check_active st a day sp = Inr d"
  by (auto simp: check_active_def check_opened_def split: option.splits)

lemma check_active_verdict:
  assumes "build A (Some ds) opts = Inr r" and "check_active (br_state r) a day sp = Inr d"
  shows "map_option diag_code d = usage_verdict True ds a day"
  using build_lifecycle(1) [OF assms(1), of a] assms(2)
  by (cases "opens_of a ds"; cases "closes_of a (after_open a ds)")
    (auto simp: check_active_def check_opened_def usage_verdict_def life_of_def split: if_splits)

lemma check_postings_total: "\<exists>ds. check_postings st t ps = Inr ds"
proof (induction ps)
  case Nil
  then show ?case by simp
next
  case (Cons p ps)
  obtain d where "check_active st (p_account p) (txn_date t) (posting_span t p) = Inr d"
    using check_active_no_panic by blast
  with Cons show ?case by auto
qed

lemma check_postings_verdict:
  assumes b: "build A (Some ds) opts = Inr r"
  shows "check_postings (br_state r) t ps = Inr xs \<Longrightarrow>
    map diag_code xs = concat (map (\<lambda>p. opt_list (usage_verdict True ds (p_account p) (txn_date t))) ps)"
proof (induction ps arbitrary: xs)
  case Nil
  then show ?case by simp
next
  case (Cons p ps)
  then obtain d ys where d: "check_active (br_state r) (p_account p) (txn_date t) (posting_span t p) = Inr d"
    and ys: "check_postings (br_state r) t ps = Inr ys" and xs: "xs = opt_list d @ ys"
    by auto
  from check_active_verdict [OF b d, symmetric] Cons.IH [OF ys] show ?case
    by (cases d) (auto simp: xs opt_list_def)
qed

section \<open>When a transaction balances\<close>

definition sum_val :: "currency_sum \<Rightarrow> currency \<Rightarrow> rat" where
  "sum_val acc c = (case map_of acc c of Some s \<Rightarrow> dval s | None \<Rightarrow> 0)"

lemma sum_add_no_panic [simp]: "\<not> is_panic (sum_add A acc a)"
  by (induction acc) (auto simp: panic_simps)

lemma within_tol_no_panic [simp]: "\<not> is_panic (within_tol A s t)"
  by (simp add: within_tol_def panic_simps)

context apd_exact
begin

lemma sum_add_val:
  "sum_add A acc a = Inr acc' \<Longrightarrow> distinct (map fst acc) \<Longrightarrow>
     sum_val acc' c = sum_val acc c + (if amt_currency a = c then dval (amt_number a) else 0) \<and>
     fst ` set acc' = insert (amt_currency a) (fst ` set acc) \<and> distinct (map fst acc')"
proof (induction acc arbitrary: acc')
  case Nil
  then show ?case by (auto simp: sum_val_def add_val)
next
  case (Cons x acc)
  obtain d s where x: "x = (d, s)" by (cases x)
  show ?case
  proof (cases "d = amt_currency a")
    case True
    with Cons.prems x show ?thesis by (auto simp: sum_val_def add_val)
  next
    case False
    with Cons.prems x obtain t where t: "sum_add A acc a = Inr t" "acc' = (d, s) # t" by auto
    from Cons.IH [OF t(1)] Cons.prems x False t(2) show ?thesis
      by (auto simp: sum_val_def)
  qed
qed

lemma weigh_postings_step:
  assumes "weigh_postings A t (p # ps) acc = Inr (ds, Some acc')" and "p_amount p \<noteq> None"
  obtains w s where "posting_weight A p = Inr (Some w)" "sum_add A acc w = Inr s"
    "weigh_postings A t ps s = Inr (ds, Some acc')"
proof (cases "posting_weight A p")
  case (Inl e)
  with assms show ?thesis by (cases e) auto
next
  case (Inr wo)
  with assms obtain w where w: "wo = Some w" by (cases wo) (auto simp: deref_def)
  show ?thesis
  proof (cases "sum_add A acc w")
    case (Inl e)
    with assms Inr w show ?thesis by (cases e) auto
  next
    case (Inr s)
    with assms \<open>posting_weight A p = Inr wo\<close> w that show ?thesis by auto
  qed
qed

lemma weigh_postings_val:
  assumes "weigh_postings A t ps acc = Inr (ds, Some acc')" and "distinct (map fst acc)"
  shows "sum_val acc' c = sum_val acc c + net_weight A c ps" and "distinct (map fst acc')"
    and "\<forall>p\<in>set ps. p_amount p \<noteq> None \<longrightarrow> (\<exists>w. posting_weight A p = Inr w)"
    and "ds = map (unresolved_diag t) (filter (\<lambda>p. p_amount p = None) ps)"
proof -
  have "sum_val acc' c = sum_val acc c + net_weight A c ps \<and> distinct (map fst acc') \<and>
    (\<forall>p\<in>set ps. p_amount p \<noteq> None \<longrightarrow> (\<exists>w. posting_weight A p = Inr w)) \<and>
    ds = map (unresolved_diag t) (filter (\<lambda>p. p_amount p = None) ps)"
    using assms
  proof (induction ps arbitrary: acc ds)
    case Nil
    then show ?case by (simp add: net_weight_def)
  next
    case (Cons p ps)
    show ?case
    proof (cases "p_amount p = None")
      case True
      then have "weight_in A c p = 0" by (simp add: weight_in_def posting_weight_def)
      with Cons True show ?thesis by (auto simp: net_weight_def)
    next
      case False
      with Cons.prems(1) obtain w s where w: "posting_weight A p = Inr (Some w)"
        and s: "sum_add A acc w = Inr s" and rest: "weigh_postings A t ps s = Inr (ds, Some acc')"
        by (rule weigh_postings_step)
      from sum_add_val [OF s Cons.prems(2)] have
        "sum_val s c = sum_val acc c + weight_in A c p" "distinct (map fst s)"
        by (auto simp: weight_in_def w)
      with Cons.IH [OF rest] w False show ?thesis
        by (auto simp: net_weight_def)
    qed
  qed
  then show "sum_val acc' c = sum_val acc c + net_weight A c ps" "distinct (map fst acc')"
    "\<forall>p\<in>set ps. p_amount p \<noteq> None \<longrightarrow> (\<exists>w. posting_weight A p = Inr w)"
    "ds = map (unresolved_diag t) (filter (\<lambda>p. p_amount p = None) ps)"
    by auto
qed

lemma non_zero_currencies_iff:
  assumes "distinct (map fst acc)"
  shows "c \<in> set (non_zero_currencies A acc) \<longleftrightarrow> sum_val acc c \<noteq> 0"
proof -
  have "c \<in> set (non_zero_currencies A acc) \<longleftrightarrow> (\<exists>s. (c, s) \<in> set acc \<and> dval s \<noteq> 0)"
    by (force simp: non_zero_currencies_def is_zero_val)
  also have "\<dots> \<longleftrightarrow> sum_val acc c \<noteq> 0"
    using assms by (auto simp: sum_val_def split: option.splits dest: map_of_SomeD)
      (metis map_of_eq_Some_iff option.inject)
  finally show ?thesis .
qed

lemma residuals_nil_iff:
  assumes "residuals A acc tols cs = Inr rs" and "\<forall>c\<in>set cs. \<exists>t. tols c = Some t \<and> dval t = f c"
  shows "rs = [] \<longleftrightarrow> (\<forall>c\<in>set cs. \<bar>sum_val acc c\<bar> \<le> f c)"
  using assms
proof (induction cs arbitrary: rs)
  case Nil
  then show ?case by simp
next
  case (Cons c cs)
  then obtain s t ok rs' where "map_of acc c = Some s" and t: "tols c = Some t" "dval t = f c"
    and ok: "within_tol A s t = Inr ok" and rs': "residuals A acc tols cs = Inr rs'"
    and rs: "rs = (if ok then rs' else (apd_text A s @ '' '' @ c) # rs')"
    by (auto simp: deref_def split: option.splits)
  with Cons.IH [OF rs'] Cons.prems(2) within_tol_iff [OF ok] show ?case
    by (auto simp: sum_val_def)
qed

end

text \<open>The tolerance of a transaction's residual in a currency, as a number.\<close>

definition txn_tolerance :: "apd \<Rightarrow> option_values option \<Rightarrow> posting list \<Rightarrow> currency \<Rightarrow> rat" where
  "txn_tolerance A opts ps c =
     (case (opt_decimal A opts ''tolerance_multiplier'',
            opt_decimal_map A opts ''inferred_tolerance_default'',
            opt_bool A opts ''infer_tolerance_from_cost'') of
        (Inr m, Inr defaults, Inr from_cost) \<Rightarrow>
          if from_cost then Max (insert (units_tol (dval m) defaults ps c) (cost_tols (dval m) ps c))
          else units_tol (dval m) defaults ps c
      | _ \<Rightarrow> 0)"

lemma tolerance_options_total:
  assumes "opts_typed A opts"
  shows "\<exists>m. opt_decimal A opts ''tolerance_multiplier'' = Inr m"
    and "\<exists>d. opt_decimal_map A opts ''inferred_tolerance_default'' = Inr d"
    and "\<exists>b. opt_bool A opts ''infer_tolerance_from_cost'' = Inr b"
  using opt_decimal_total [OF assms default_registry_lookup(1)]
    opt_decimal_map_total [OF assms default_registry_lookup(5)]
    opt_bool_total [OF assms default_registry_lookup(3)]
  by (auto simp: mk_spec_def bool_spec_def)

context apd_total
begin

lemma within_tol_total: "\<exists>b. within_tol A s t = Inr b"
  using abs_total [of s] by (auto simp: within_tol_def)

lemma residuals_total:
  "\<forall>c\<in>set cs. map_of acc c \<noteq> None \<and> tols c \<noteq> None \<Longrightarrow> \<exists>rs. residuals A acc tols cs = Inr rs"
proof (induction cs)
  case Nil
  then show ?case by simp
next
  case (Cons c cs)
  then obtain s t where "map_of acc c = Some s" "tols c = Some t" by auto
  with Cons within_tol_total [of s t] show ?case by (auto simp del: rbind_eq_Inr)
qed

lemma sum_add_total: "\<exists>s. sum_add A acc a = Inr s"
proof (induction acc)
  case Nil
  then show ?case using add_total by auto
next
  case (Cons x acc)
  then show ?case using add_total by (cases x) auto
qed

lemma weigh_postings_total:
  "\<forall>p\<in>set ps. p_amount p \<noteq> None \<longrightarrow> (\<exists>w. posting_weight A p = Inr w) \<Longrightarrow>
     \<exists>ds acc'. weigh_postings A t ps acc = Inr (ds, Some acc')"
proof (induction ps arbitrary: acc)
  case Nil
  then show ?case by simp
next
  case (Cons p ps)
  show ?case
  proof (cases "p_amount p = None")
    case True
    with Cons show ?thesis by fastforce
  next
    case False
    with Cons.prems obtain w where w: "posting_weight A p = Inr (Some w)"
      using posting_weight_Some by fastforce
    obtain s where "sum_add A acc w = Inr s" using sum_add_total by blast
    with Cons False w show ?thesis by auto
  qed
qed

text \<open>The validator on a transaction whose postings all can be weighed.\<close>

lemma balances_process_weighed:
  assumes opts: "opts_typed A opts" and w: "weigh_postings A t (txn_postings t) [] = Inr (ds, Some acc)"
  obtains rs where
    "balances_process A opts (DTransaction t) = Inr (ds @ (if rs = [] then []
       else [mk_diag ''unbalanced-transaction'' (txn_span t)
         (''transaction does not balance: non-zero residual '' @ join_with '', '' rs)]))"
    "rs = [] \<longleftrightarrow> (\<forall>c. net_weight A c (txn_postings t) = 0 \<or>
       \<bar>net_weight A c (txn_postings t)\<bar> \<le> txn_tolerance A opts (txn_postings t) c)"
proof -
  let ?ps = "txn_postings t"
  note v = weigh_postings_val [OF w, simplified]
  let ?cs = "non_zero_currencies A acc"
  have res: "sum_val acc c = net_weight A c ?ps" for c
    using v(1) [of c] by (simp add: sum_val_def)
  obtain tols where tols: "infer A ?ps opts ?cs = Inr tols"
    using infer_total [OF opts] by blast
  obtain m d b where o: "opt_decimal A opts ''tolerance_multiplier'' = Inr m"
    "opt_decimal_map A opts ''inferred_tolerance_default'' = Inr d"
    "opt_bool A opts ''infer_tolerance_from_cost'' = Inr b"
    using tolerance_options_total [OF opts] by blast
  have tol: "\<forall>c\<in>set ?cs. \<exists>x. tols c = Some x \<and> dval x = txn_tolerance A opts ?ps c"
    using infer_val [OF tols _ o] by (auto simp: txn_tolerance_def o)
  have nz: "c \<in> set ?cs \<longleftrightarrow> net_weight A c ?ps \<noteq> 0" for c
    using non_zero_currencies_iff [OF v(2)] res by simp
  have "map_of acc c \<noteq> None" if "c \<in> set ?cs" for c
  proof
    assume "map_of acc c = None"
    then have "sum_val acc c = 0" by (simp add: sum_val_def)
    with that nz res show False by simp
  qed
  with tol obtain rs where rs: "residuals A acc tols ?cs = Inr rs"
    using residuals_total [of ?cs acc tols] by fastforce
  have "rs = [] \<longleftrightarrow> (\<forall>c. net_weight A c ?ps = 0 \<or> \<bar>net_weight A c ?ps\<bar> \<le> txn_tolerance A opts ?ps c)"
    using residuals_nil_iff [OF rs tol] nz res by auto
  with that [of rs] w tols rs show ?thesis
    by (simp add: balances_process_def)
qed

lemma balances_process_val:
  assumes opts: "opts_typed A opts"
    and weights: "\<forall>p\<in>set (txn_postings t). p_amount p \<noteq> None \<longrightarrow> (\<exists>w. posting_weight A p = Inr w)"
  obtains ds rs where
    "balances_process A opts (DTransaction t) = Inr (ds @ (if rs = [] then []
       else [mk_diag ''unbalanced-transaction'' (txn_span t)
         (''transaction does not balance: non-zero residual '' @ join_with '', '' rs)]))"
    "ds = map (unresolved_diag t) (filter (\<lambda>p. p_amount p = None) (txn_postings t))"
    "rs = [] \<longleftrightarrow> (\<forall>c. net_weight A c (txn_postings t) = 0 \<or>
       \<bar>net_weight A c (txn_postings t)\<bar> \<le> txn_tolerance A opts (txn_postings t) c)"
proof -
  obtain ds acc where w: "weigh_postings A t (txn_postings t) [] = Inr (ds, Some acc)"
    using weigh_postings_total [OF weights] by blast
  from weigh_postings_val(4) [OF w] have ds: "ds = map (unresolved_diag t) (filter (\<lambda>p. p_amount p = None) (txn_postings t))"
    by simp
  show ?thesis by (rule balances_process_weighed [OF opts w]) (rule that [OF _ ds])
qed

text \<open>A transaction that balances exactly has nothing to report.\<close>

lemma balances_process_balanced:
  assumes opts: "opts_typed A opts"
    and weights: "\<forall>p\<in>set (txn_postings t). \<exists>w. posting_weight A p = Inr (Some w)"
    and zero: "\<And>c. net_weight A c (txn_postings t) = 0"
  shows "balances_process A opts (DTransaction t) = Inr []"
proof -
  from weights have w: "\<forall>p\<in>set (txn_postings t). p_amount p \<noteq> None \<longrightarrow> (\<exists>w. posting_weight A p = Inr w)"
    by blast
  from weights have "\<forall>p\<in>set (txn_postings t). p_amount p \<noteq> None"
    using posting_weight_Some by blast
  then have none: "filter (\<lambda>p. p_amount p = None) (txn_postings t) = []" by (simp add: filter_empty_conv)
  show ?thesis by (rule balances_process_val [OF opts w]) (simp add: zero none)
qed

text \<open>The whole pass returns.\<close>

lemma weigh_postings_returns: "\<exists>r. weigh_postings A t ps acc = Inr r"
proof (induction ps arbitrary: acc)
  case Nil
  then show ?case by simp
next
  case (Cons p ps)
  consider "p_amount p = None" | e where "p_amount p \<noteq> None" "posting_weight A p = Inl (SysErr e)"
    | w where "p_amount p \<noteq> None" "posting_weight A p = Inr (Some w)"
    using posting_weight_no_panic [of A p] posting_weight_Some [of A p]
    by (cases "posting_weight A p") (auto simp: is_panic_def split: go_error.splits)
  then show ?case
  proof cases
    case 1
    with Cons [of acc] show ?thesis by auto
  next
    case 2
    then show ?thesis by auto
  next
    case (3 w)
    obtain s where "sum_add A acc w = Inr s" using sum_add_total by blast
    with 3 Cons [of s] show ?thesis by auto
  qed
qed

lemma balances_process_returns:
  assumes "opts_typed A opts"
  shows "\<exists>ds. balances_process A opts d = Inr ds"
proof (cases "\<exists>t. d = DTransaction t")
  case False
  then show ?thesis by (cases d) (simp_all add: balances_process_def)
next
  case True
  then obtain t where d: "d = DTransaction t" ..
  obtain ds r where w: "weigh_postings A t (txn_postings t) [] = Inr (ds, r)"
    using weigh_postings_returns by (metis surj_pair)
  show ?thesis
  proof (cases r)
    case None
    with w d show ?thesis by (simp add: balances_process_def)
  next
    case (Some acc)
    with balances_process_weighed [OF assms w [unfolded Some]] d show ?thesis by metis
  qed
qed

lemma active_process_returns: "\<exists>ds. active_process st d = Inr ds"
proof (cases d)
  case (DTransaction t)
  with check_postings_total [of st t] show ?thesis by (simp add: active_process_def)
next
  case (DPad p)
  obtain x y where "check_active st (pad_account p) (pad_date p) (pad_span p) = Inr x"
    "check_active st (pad_source p) (pad_date p) (pad_span p) = Inr y"
    using check_active_no_panic by metis
  with DPad show ?thesis by (simp add: active_process_def)
qed (simp_all add: active_process_def)

lemma validate_entries_returns:
  assumes "opts_typed A opts"
  shows "\<exists>xs. validate_entries A opts r ds = Inr xs"
proof (induction ds)
  case Nil
  then show ?case by simp
next
  case (Cons d ds)
  obtain d1 d3 where "active_process (br_state r) d = Inr d1" "balances_process A opts d = Inr d3"
    using active_process_returns balances_process_returns [OF assms] by metis
  with Cons show ?case by (auto simp: validate_entry_def)
qed

lemma validations_return:
  assumes "opts_typed A opts"
  shows "\<exists>xs. validations_apply A dirs opts = Inr xs"
proof -
  obtain r where r: "build A dirs opts = Inr r" using build_total [OF assms] by blast
  obtain xs where "(case dirs of None \<Rightarrow> Inr [] | Some ds \<Rightarrow> validate_entries A opts r ds) = Inr xs"
    using validate_entries_returns [OF assms, of r] by (cases dirs) auto
  with r show ?thesis by (simp add: validations_apply_def)
qed

end

end
