(* ===== verification/Running_Balance.thy ===== *)
theory Running_Balance
  imports Validators
begin

text \<open>
  The running balances that the balance and the pad plugins keep: buckets keyed by the account a
  posting names and the currency it is written in. The Go map is an association list in the order
  the keys are first touched, so that a loop over it has an order; no sum depends on it. An
  addition that fails leaves its bucket as it is.
\<close>

type_synonym bucket_key = "account \<times> currency"
type_synonym buckets = "(bucket_key \<times> decimal) list"

fun bucket_add :: "apd \<Rightarrow> buckets \<Rightarrow> bucket_key \<Rightarrow> decimal \<Rightarrow> string option \<times> buckets" where
  "bucket_add A [] k n =
     (case apd_add A dzero n of Inl e \<Rightarrow> (Some e, [(k, dzero)]) | Inr s \<Rightarrow> (None, [(k, s)]))"
| "bucket_add A ((k', v) # bs) k n =
     (if k' = k
      then (case apd_add A v n of Inl e \<Rightarrow> (Some e, (k', v) # bs) | Inr s \<Rightarrow> (None, (k', s) # bs))
      else (case bucket_add A bs k n of (e, bs') \<Rightarrow> (e, (k', v) # bs')))"

definition bucket_val :: "buckets \<Rightarrow> bucket_key \<Rightarrow> rat" where
  "bucket_val bs k = (case map_of bs k of Some v \<Rightarrow> dval v | None \<Rightarrow> 0)"

text \<open>The sum of the buckets a predicate on keys selects.\<close>

definition bucket_sum :: "buckets \<Rightarrow> (bucket_key \<Rightarrow> bool) \<Rightarrow> rat" where
  "bucket_sum bs P = sum_list (map (\<lambda>x. if P (fst x) then dval (snd x) else 0) bs)"

text \<open>The specification: what a list of postings, or of directives, posts to the selected keys.\<close>

definition posted :: "(bucket_key \<Rightarrow> bool) \<Rightarrow> posting \<Rightarrow> rat" where
  "posted P p =
     (case p_amount p of
        Some a \<Rightarrow> if P (p_account p, amt_currency a) then dval (amt_number a) else 0
      | None \<Rightarrow> 0)"

definition posted_all :: "(bucket_key \<Rightarrow> bool) \<Rightarrow> posting list \<Rightarrow> rat" where
  "posted_all P ps = sum_list (map (posted P) ps)"

fun ledger_units :: "(bucket_key \<Rightarrow> bool) \<Rightarrow> directive list \<Rightarrow> rat" where
  "ledger_units P [] = 0"
| "ledger_units P (DTransaction t # ds) = posted_all P (txn_postings t) + ledger_units P ds"
| "ledger_units P (_ # ds) = ledger_units P ds"

lemma ledger_units_append: "ledger_units P (xs @ ys) = ledger_units P xs + ledger_units P ys"
proof (induction xs)
  case Nil
  then show ?case by simp
next
  case (Cons d xs)
  then show ?case by (cases d) simp_all
qed

lemma posted_all_simps [simp]:
  "posted_all P [] = 0" "posted_all P (p # ps) = posted P p + posted_all P ps"
  by (simp_all add: posted_all_def)

lemma bucket_sum_simps [simp]:
  "bucket_sum [] P = 0"
  "bucket_sum (x # bs) P = (if P (fst x) then dval (snd x) else 0) + bucket_sum bs P"
  by (simp_all add: bucket_sum_def)

lemma bucket_sum_val:
  "distinct (map fst bs) \<Longrightarrow> bucket_sum bs (\<lambda>x. x = k) = bucket_val bs k"
proof (induction bs)
  case Nil
  then show ?case by (simp add: bucket_val_def)
next
  case (Cons x bs)
  have "bucket_sum bs (\<lambda>x. x = k) = 0" if "k \<notin> fst ` set bs"
    using that by (induction bs) auto
  with Cons show ?case by (cases "fst x = k") (auto simp: bucket_val_def)
qed

lemma bucket_add_keys:
  "bucket_add A bs k n = (e, bs') \<Longrightarrow> fst ` set bs' = insert k (fst ` set bs) \<and>
     (distinct (map fst bs) \<longrightarrow> distinct (map fst bs'))"
proof (induction bs arbitrary: bs')
  case Nil
  then show ?case by (auto split: sum.splits)
next
  case (Cons x bs)
  obtain k' v where x: "x = (k', v)" by (cases x)
  show ?case
  proof (cases "k' = k")
    case True
    with Cons.prems x show ?thesis by (auto split: sum.splits)
  next
    case False
    with Cons.prems x obtain r where r: "bucket_add A bs k n = (e, r)" and bs': "bs' = (k', v) # r"
      by (auto split: prod.splits)
    from Cons.IH [OF r] False show ?thesis by (auto simp: bs' x)
  qed
qed

context apd_exact
begin

lemma bucket_add_sum:
  "bucket_add A bs k n = (None, bs') \<Longrightarrow>
     bucket_sum bs' P = bucket_sum bs P + (if P k then dval n else 0)"
proof (induction bs arbitrary: bs')
  case Nil
  then show ?case by (auto simp: add_val split: sum.splits)
next
  case (Cons x bs)
  then show ?case by (cases x) (auto simp: add_val split: sum.splits if_splits prod.splits)
qed

lemma bucket_add_val:
  assumes "bucket_add A bs k n = (None, bs')" and "distinct (map fst bs)"
  shows "bucket_val bs' k' = bucket_val bs k' + (if k' = k then dval n else 0)"
  using bucket_add_sum [OF assms(1), of "\<lambda>x. x = k'"] bucket_add_keys [OF assms(1)] assms(2)
  by (auto simp: bucket_sum_val)

end

context apd_total
begin

lemma bucket_add_total: "\<exists>bs'. bucket_add A bs k n = (None, bs')"
proof (induction bs)
  case Nil
  then show ?case using add_total [of dzero n] by auto
next
  case (Cons x bs)
  obtain k' v where x: "x = (k', v)" by (cases x)
  from Cons add_total [of v n] show ?case by (auto simp: x)
qed

end

end
