(* ===== verification/Balance_Check.thy ===== *)
theory Balance_Check
  imports Running_Balance Account
begin

text \<open>
  The balance-assertion plugin (\<open>pkg/validation/balance/plugin.go\<close>): one walk that keeps the
  running balances, checks every assertion against the sum over the subtree of its account, marks
  a failed one with the residual, and reports contradicting duplicates. The context check at the
  head of \<open>Apply\<close> and the registration are left out.
\<close>

fun bal_postings :: "apd \<Rightarrow> transaction \<Rightarrow> posting list \<Rightarrow> buckets \<Rightarrow> diagnostic list \<times> buckets" where
  "bal_postings A t [] bs = ([], bs)"
| "bal_postings A t (p # ps) bs =
     (case p_amount p of
        None \<Rightarrow> (case bal_postings A t ps bs of (ds, bs') \<Rightarrow> (unresolved_diag t p # ds, bs'))
      | Some a \<Rightarrow>
          (case bucket_add A bs (p_account p, amt_currency a) (amt_number a) of
             (None, bs1) \<Rightarrow> bal_postings A t ps bs1
           | (Some e, bs1) \<Rightarrow>
               (case bal_postings A t ps bs1 of (ds, bs') \<Rightarrow>
                  (mk_diag ''internal-error'' (txn_span t)
                     (''failed to update running balance: '' @ e) # ds, bs'))))"

definition bal_apply_transaction :: "apd \<Rightarrow> transaction \<Rightarrow> buckets \<Rightarrow> diagnostic list \<times> buckets" where
  "bal_apply_transaction A t bs = bal_postings A t (txn_postings t) bs"

text \<open>The aggregation loop of \<open>checkBalance\<close>.\<close>

definition asserted_key :: "balance_dir \<Rightarrow> bucket_key \<Rightarrow> bool" where
  "asserted_key b k \<longleftrightarrow>
     (if snd k \<noteq> amt_currency (bal_amount b) then False else covers (bal_account b) (fst k))"

fun aggregate :: "apd \<Rightarrow> balance_dir \<Rightarrow> buckets \<Rightarrow> decimal \<Rightarrow> string + decimal" where
  "aggregate A b [] actual = Inr actual"
| "aggregate A b ((k, v) # bs) actual =
     (if \<not> asserted_key b k then aggregate A b bs actual
      else (case apd_add A actual v of Inl e \<Rightarrow> Inl e | Inr s \<Rightarrow> aggregate A b bs s))"

definition normalized_tolerance ::
  "apd \<Rightarrow> option_values option \<Rightarrow> balance_dir \<Rightarrow> (string + decimal) result" where
  "normalized_tolerance A opts b =
     (case bal_tolerance b of
        Some t \<Rightarrow> Inr (apd_abs A t)
      | None \<Rightarrow> rbind (for_balance_assertion A opts (bal_amount b)) (\<lambda>t. Inr (Inr t)))"

definition mismatch :: "balance_dir \<Rightarrow> string \<Rightarrow> diagnostic" where
  "mismatch b m = mk_diag ''balance-mismatch'' (bal_span b) m"

definition check_balance :: "apd \<Rightarrow> balance_dir \<Rightarrow> buckets \<Rightarrow> option_values option \<Rightarrow>
    (balance_dir option \<times> diagnostic list) result" where
  "check_balance A b bs opts =
     (let cur = amt_currency (bal_amount b); expected = amt_number (bal_amount b) in
      case aggregate A b bs dzero of
        Inl e \<Rightarrow> Inr (None, [mk_diag ''internal-error'' (bal_span b)
          (''failed to aggregate subtree balance for '' @ bal_account b @ '' '' @ cur @ '': '' @ e)])
      | Inr actual \<Rightarrow>
      case apd_sub A expected actual of
        Inl e \<Rightarrow> Inr (None, [mismatch b (''failed to compute balance difference: '' @ e)])
      | Inr diff \<Rightarrow>
      rbind (normalized_tolerance A opts b) (\<lambda>tol.
      case tol of
        Inl e \<Rightarrow> Inr (None, [mismatch b (''failed to normalize tolerance: '' @ e)])
      | Inr tol \<Rightarrow>
      case within_tol A diff tol of
        Inl (Panic e) \<Rightarrow> Inl (Panic e)
      | Inl (SysErr e) \<Rightarrow> Inr (None, [mismatch b (''failed to evaluate balance tolerance: '' @ e)])
      | Inr True \<Rightarrow> Inr (None, [])
      | Inr False \<Rightarrow>
          let d = mismatch b (''balance assertion failed: account '' @ bal_account b @ '': expected '' @
                apd_text A expected @ '' '' @ cur @ '', got '' @ apd_text A actual @ '' '' @ cur @
                '' (off by '' @ apd_text A diff @ '' '' @ cur @ '')'') in
          (case apd_sub A actual expected of
             Inl e \<Rightarrow> Inr (None, [d, mk_diag ''internal-error'' (bal_span b)
               (''failed to compute balance residual: '' @ e)])
           | Inr residual \<Rightarrow>
               Inr (Some (b\<lparr>bal_diff := Some \<lparr>amt_number = residual, amt_currency = cur\<rparr>\<rparr>), [d]))))"

type_synonym seen_key = "account \<times> (int \<times> int \<times> int) \<times> currency"

definition new_seen_key :: "balance_dir \<Rightarrow> seen_key" where
  "new_seen_key b = (bal_account b, civil (bal_date b), amt_currency (bal_amount b))"

definition check_duplicate :: "apd \<Rightarrow> balance_dir \<Rightarrow> (seen_key \<rightharpoonup> amount) \<Rightarrow>
    diagnostic list \<times> (seen_key \<rightharpoonup> amount)" where
  "check_duplicate A b seen =
     (case seen (new_seen_key b) of
        None \<Rightarrow> ([], seen(new_seen_key b \<mapsto> bal_amount b))
      | Some prev \<Rightarrow>
          if apd_cmp A (amt_number prev) (amt_number (bal_amount b)) = 0 then ([], seen)
          else ([(mk_diag ''duplicate-balance'' (bal_span b)
                   (''duplicate balance assertion for account '' @ bal_account b @ '' on '' @
                    format_date (bal_date b) @ '': previous expected '' @
                    apd_text A (amt_number prev) @ '' '' @ amt_currency prev @
                    '', this asserts '' @ apd_text A (amt_number (bal_amount b)) @ '' '' @
                    amt_currency (bal_amount b)))\<lparr>diag_severity := SevWarning\<rparr>], seen))"

text \<open>The loop of \<open>Apply\<close>: the directives it collects, whether one was replaced, the findings.\<close>

fun balance_loop :: "apd \<Rightarrow> option_values option \<Rightarrow> buckets \<Rightarrow> (seen_key \<rightharpoonup> amount) \<Rightarrow>
    directive list \<Rightarrow> (directive list \<times> bool \<times> diagnostic list) result" where
  "balance_loop A opts bs seen [] = Inr ([], False, [])"
| "balance_loop A opts bs seen (DTransaction t # rest) =
     (case bal_apply_transaction A t bs of (d1, bs') \<Rightarrow>
        rbind (balance_loop A opts bs' seen rest) (\<lambda>(out, changed, d2).
          Inr (DTransaction t # out, changed, d1 @ d2)))"
| "balance_loop A opts bs seen (DBalance b # rest) =
     rbind (check_balance A b bs opts) (\<lambda>(clone, d1).
     case check_duplicate A b seen of (d2, seen') \<Rightarrow>
       rbind (balance_loop A opts bs seen' rest) (\<lambda>(out, changed, d3).
         Inr (case clone of
                Some c \<Rightarrow> (DBalance c # out, True, d1 @ d2 @ d3)
              | None \<Rightarrow> (DBalance b # out, changed, d1 @ d2 @ d3))))"
| "balance_loop A opts bs seen (d # rest) =
     rbind (balance_loop A opts bs seen rest) (\<lambda>(out, changed, ds). Inr (d # out, changed, ds))"

definition balance_apply :: "apd \<Rightarrow> directive list option \<Rightarrow> option_values option \<Rightarrow>
    (directive list option \<times> diagnostic list) result" where
  "balance_apply A dirs opts =
     (case dirs of
        None \<Rightarrow> Inr (None, [])
      | Some ds \<Rightarrow>
          rbind (balance_loop A opts [] Map.empty ds) (\<lambda>(out, changed, diags).
            Inr (if changed then Some out else None, diags)))"

section \<open>What it checks\<close>

lemma asserted_key_iff:
  "asserted_key b k \<longleftrightarrow> snd k = amt_currency (bal_amount b) \<and> covers (bal_account b) (fst k)"
  by (simp add: asserted_key_def)

text \<open>The tolerance of an assertion, as a number.\<close>

definition assertion_tolerance :: "apd \<Rightarrow> option_values option \<Rightarrow> balance_dir \<Rightarrow> rat" where
  "assertion_tolerance A opts b =
     (case bal_tolerance b of
        Some t \<Rightarrow> \<bar>dval t\<bar>
      | None \<Rightarrow>
          (case (opt_decimal A opts ''tolerance_multiplier'',
                 opt_decimal_map A opts ''inferred_tolerance_default'') of
             (Inr m, Inr defaults) \<Rightarrow>
               if 0 \<le> d_exp (amt_number (bal_amount b))
               then default_val defaults (amt_currency (bal_amount b))
               else 2 * dval m * pow10 (d_exp (amt_number (bal_amount b)))
           | _ \<Rightarrow> 0))"

text \<open>What the directive \<open>d'\<close> has to be that stands for \<open>d\<close> in the output, the directives \<open>before\<close>
  it being read: an assertion that fails carries its residual, the rest is unchanged.\<close>

definition expected_units :: "balance_dir \<Rightarrow> rat" where
  "expected_units b = dval (amt_number (bal_amount b))"

definition holds_within :: "apd \<Rightarrow> option_values option \<Rightarrow> balance_dir \<Rightarrow> rat \<Rightarrow> bool" where
  "holds_within A opts b actual \<longleftrightarrow> \<bar>expected_units b - actual\<bar> \<le> assertion_tolerance A opts b"

definition checked_form ::
  "apd \<Rightarrow> option_values option \<Rightarrow> directive \<Rightarrow> (balance_dir \<Rightarrow> rat) \<Rightarrow> directive \<Rightarrow> bool" where
  "checked_form A opts d actual d' \<longleftrightarrow>
     (case d of
        DBalance b \<Rightarrow>
          if holds_within A opts b (actual b) then d' = d
          else (\<exists>n. dval n = actual b - expected_units b \<and>
                 d' = DBalance (b\<lparr>bal_diff := Some \<lparr>amt_number = n,
                        amt_currency = amt_currency (bal_amount b)\<rparr>\<rparr>))
      | _ \<Rightarrow> d' = d)"

definition failing :: "apd \<Rightarrow> option_values option \<Rightarrow> directive \<Rightarrow> (balance_dir \<Rightarrow> rat) \<Rightarrow> bool" where
  "failing A opts d actual \<longleftrightarrow>
     (case d of DBalance b \<Rightarrow> \<not> holds_within A opts b (actual b) | _ \<Rightarrow> False)"

lemma within_tol_cases:
  "within_tol A s t = Inl e \<Longrightarrow> \<exists>x. e = SysErr x"
  by (auto simp: within_tol_def plain_err_def rbind_eq_Inl split: sum.splits)

context apd_exact
begin

lemma aggregate_val:
  "aggregate A b bs s = Inr r \<Longrightarrow> dval r = dval s + bucket_sum bs (asserted_key b)"
  by (induction bs arbitrary: s) (auto simp: add_val split: if_splits sum.splits)

end

context apd_total
begin

lemma aggregate_total: "\<exists>r. aggregate A b bs s = Inr r"
proof (induction bs arbitrary: s)
  case Nil
  then show ?case by simp
next
  case (Cons x bs)
  obtain k v where "x = (k, v)" by (cases x)
  with Cons add_total [of s v] show ?case by auto
qed

lemma bal_postings_val:
  "\<exists>ds bs'. bal_postings A t ps bs = (ds, bs') \<and>
     bucket_sum bs' P = bucket_sum bs P + posted_all P ps \<and>
     ds = map (unresolved_diag t) (filter (\<lambda>p. p_amount p = None) ps)"
proof (induction ps arbitrary: bs)
  case Nil
  then show ?case by simp
next
  case (Cons p ps)
  show ?case
  proof (cases "p_amount p")
    case None
    with Cons [of bs] show ?thesis by (auto simp: posted_def)
  next
    case (Some a)
    obtain bs1 where b1: "bucket_add A bs (p_account p, amt_currency a) (amt_number a) = (None, bs1)"
      using bucket_add_total by blast
    from Cons [of bs1] Some b1 bucket_add_sum [OF b1, of P] show ?thesis
      by (auto simp: posted_def)
  qed
qed

lemma tolerance_val:
  assumes "opts_typed A opts"
  obtains tol where "normalized_tolerance A opts b = Inr (Inr tol)" "dval tol = assertion_tolerance A opts b"
proof (cases "bal_tolerance b")
  case (Some t)
  obtain u where "apd_abs A t = Inr u" using abs_total by blast
  with that [of u] Some show ?thesis
    by (simp add: normalized_tolerance_def assertion_tolerance_def abs_val)
next
  case None
  obtain m d where o: "opt_decimal A opts ''tolerance_multiplier'' = Inr m"
    "opt_decimal_map A opts ''inferred_tolerance_default'' = Inr d"
    using tolerance_options_total [OF assms] by blast
  then have "\<exists>t. for_balance_assertion A opts (bal_amount b) = Inr t"
    by (auto simp: for_balance_assertion_def for_amount_def for_exponent_def split: option.splits)
  then obtain t where t: "for_balance_assertion A opts (bal_amount b) = Inr t" by blast
  from that [of t] None for_balance_assertion_val [OF t o] t show ?thesis
    by (simp add: normalized_tolerance_def assertion_tolerance_def o)
qed

lemma check_balance_val:
  fixes b :: balance_dir and bs :: buckets
  assumes "opts_typed A opts"
  defines "actual \<equiv> bucket_sum bs (asserted_key b)"
  shows "holds_within A opts b actual \<Longrightarrow> check_balance A b bs opts = Inr (None, [])"
    and "\<not> holds_within A opts b actual \<Longrightarrow> \<exists>n m. dval n = actual - expected_units b \<and>
      check_balance A b bs opts = Inr (Some (b\<lparr>bal_diff := Some \<lparr>amt_number = n,
        amt_currency = amt_currency (bal_amount b)\<rparr>\<rparr>), [mismatch b m])"
proof -
  let ?e = "amt_number (bal_amount b)"
  obtain r where r: "aggregate A b bs dzero = Inr r" using aggregate_total by blast
  have rv: "dval r = actual" using aggregate_val [OF r] by (simp add: actual_def)
  obtain diff where diff: "apd_sub A ?e r = Inr diff" using sub_total by blast
  obtain tol where tol: "normalized_tolerance A opts b = Inr (Inr tol)" "dval tol = assertion_tolerance A opts b"
    by (rule tolerance_val [OF assms(1)])
  obtain ok where ok: "within_tol A diff tol = Inr ok" using within_tol_total by blast
  have okv: "ok \<longleftrightarrow> holds_within A opts b actual"
    using within_tol_iff [OF ok] sub_val [OF diff] rv tol(2)
    by (simp add: holds_within_def expected_units_def)
  obtain res where res: "apd_sub A r ?e = Inr res" using sub_total by blast
  show "holds_within A opts b actual \<Longrightarrow> check_balance A b bs opts = Inr (None, [])"
    using okv by (simp add: check_balance_def r diff tol ok)
  show "\<not> holds_within A opts b actual \<Longrightarrow> \<exists>n m. dval n = actual - expected_units b \<and>
      check_balance A b bs opts = Inr (Some (b\<lparr>bal_diff := Some \<lparr>amt_number = n,
        amt_currency = amt_currency (bal_amount b)\<rparr>\<rparr>), [mismatch b m])"
    using okv sub_val [OF res] rv
    by (auto simp: check_balance_def r diff tol ok res expected_units_def Let_def)
qed

text \<open>The whole walk, from any state of the buckets.\<close>

lemma balance_loop_val:
  assumes "opts_typed A opts"
  shows "\<exists>out changed diags. balance_loop A opts bs seen ds = Inr (out, changed, diags) \<and>
    length out = length ds \<and>
    (\<forall>i<length ds. checked_form A opts (ds ! i)
       (\<lambda>b. bucket_sum bs (asserted_key b) + ledger_units (asserted_key b) (take i ds)) (out ! i)) \<and>
    (changed \<longleftrightarrow> (\<exists>i<length ds. failing A opts (ds ! i)
       (\<lambda>b. bucket_sum bs (asserted_key b) + ledger_units (asserted_key b) (take i ds)))) \<and>
    (\<not> changed \<longrightarrow> out = ds \<and> (\<forall>d\<in>set diags. diag_code d \<noteq> ''balance-mismatch''))"
proof (induction ds arbitrary: bs seen)
  case Nil
  then show ?case by (auto intro: exI [of _ False])
next
  case (Cons d ds)
  show ?case
  proof (cases "\<exists>b. d = DBalance b")
    case True
    then obtain b where d: "d = DBalance b" by blast
    obtain d2 seen' where dup: "check_duplicate A b seen = (d2, seen')" by (cases "check_duplicate A b seen")
    then have nd: "\<forall>x\<in>set d2. diag_code x \<noteq> ''balance-mismatch''"
      by (auto simp: check_duplicate_def split: option.splits if_splits)
    from Cons.IH [of bs seen'] obtain out changed diags where
      ih: "balance_loop A opts bs seen' ds = Inr (out, changed, diags)" "length out = length ds"
      "\<forall>i<length ds. checked_form A opts (ds ! i)
         (\<lambda>b. bucket_sum bs (asserted_key b) + ledger_units (asserted_key b) (take i ds)) (out ! i)"
      "changed \<longleftrightarrow> (\<exists>i<length ds. failing A opts (ds ! i)
         (\<lambda>b. bucket_sum bs (asserted_key b) + ledger_units (asserted_key b) (take i ds)))"
      "\<not> changed \<longrightarrow> out = ds \<and> (\<forall>d\<in>set diags. diag_code d \<noteq> ''balance-mismatch'')"
      by blast
    show ?thesis
    proof (cases "holds_within A opts b (bucket_sum bs (asserted_key b))")
      case True
      then have "checked_form A opts (DBalance b) (\<lambda>b. bucket_sum bs (asserted_key b)) (DBalance b)"
        "\<not> failing A opts (DBalance b) (\<lambda>b. bucket_sum bs (asserted_key b))"
        by (auto simp: checked_form_def failing_def)
      with check_balance_val(1) [OF assms True] dup ih nd d show ?thesis
        by (simp add: All_less_Suc2 Ex_less_Suc2) blast
    next
      case False
      from check_balance_val(2) [OF assms False] obtain n m where
        n: "dval n = bucket_sum bs (asserted_key b) - expected_units b"
        and c: "check_balance A b bs opts = Inr (Some (b\<lparr>bal_diff := Some \<lparr>amt_number = n,
          amt_currency = amt_currency (bal_amount b)\<rparr>\<rparr>), [mismatch b m])" by blast
      from False n have "checked_form A opts (DBalance b) (\<lambda>b. bucket_sum bs (asserted_key b))
          (DBalance (b\<lparr>bal_diff := Some \<lparr>amt_number = n, amt_currency = amt_currency (bal_amount b)\<rparr>\<rparr>))"
        by (auto simp: checked_form_def)
      moreover from False have "failing A opts (DBalance b) (\<lambda>b. bucket_sum bs (asserted_key b))"
        by (simp add: failing_def)
      ultimately show ?thesis
        using c dup ih(1-3) d by (simp add: All_less_Suc2 Ex_less_Suc2) blast
    qed
  next
    case False
    obtain d1 bs' where step: "balance_loop A opts bs seen (d # ds) =
        rbind (balance_loop A opts bs' seen ds) (\<lambda>(out, changed, d2). Inr (d # out, changed, d1 @ d2))"
      and bs': "\<And>P. bucket_sum bs' P = bucket_sum bs P + ledger_units P [d]"
      and d1: "\<forall>x\<in>set d1. diag_code x \<noteq> ''balance-mismatch''"
    proof (cases "\<exists>t. d = DTransaction t")
      case True
      then obtain t where d: "d = DTransaction t" by blast
      obtain d1 bs' where b: "bal_postings A t (txn_postings t) bs = (d1, bs')"
        by (cases "bal_postings A t (txn_postings t) bs")
      have "bucket_sum bs' P = bucket_sum bs P + posted_all P (txn_postings t)" for P
        using bal_postings_val [of t "txn_postings t" bs P] b by auto
      moreover have "\<forall>x\<in>set d1. diag_code x \<noteq> ''balance-mismatch''"
        using bal_postings_val [of t "txn_postings t" bs "\<lambda>_. True"] b by auto
      ultimately show ?thesis
        using that [of bs' d1] by (simp add: d bal_apply_transaction_def b)
    next
      case noT: False
      show ?thesis
        by (rule that [of bs "[]"]) (use False noT in \<open>cases d; auto\<close>)+
    qed
    have lu: "ledger_units P (d # xs) = ledger_units P [d] + ledger_units P xs" for P xs
      using ledger_units_append [of P "[d]" xs] by simp
    from Cons.IH [of bs' seen] obtain out changed diags where
      ih: "balance_loop A opts bs' seen ds = Inr (out, changed, diags)" "length out = length ds"
      "\<forall>i<length ds. checked_form A opts (ds ! i)
         (\<lambda>b. bucket_sum bs (asserted_key b) + ledger_units (asserted_key b) (d # take i ds)) (out ! i)"
      "changed \<longleftrightarrow> (\<exists>i<length ds. failing A opts (ds ! i)
         (\<lambda>b. bucket_sum bs (asserted_key b) + ledger_units (asserted_key b) (d # take i ds)))"
      "\<not> changed \<longrightarrow> out = ds \<and> (\<forall>d\<in>set diags. diag_code d \<noteq> ''balance-mismatch'')"
      unfolding bs' lu [symmetric] add.assoc by blast
    have hd: "checked_form A opts d f d" "\<not> failing A opts d f" for f
      using False by (auto simp: checked_form_def failing_def split: directive.splits)
    show ?thesis
      unfolding step using ih d1 hd by (simp add: All_less_Suc2 Ex_less_Suc2) blast
  qed
qed

end

end
