(* ===== verification/Pad.thy ===== *)
theory Pad
  imports Running_Balance "HOL-Library.AList"
begin

text \<open>
  The pad plugin (\<open>pkg/validation/pad/plugin.go\<close>): one walk that pairs a pad with the assertions
  after it on the same account and synthesizes, per currency, the transaction that closes the gap.
  The maps the code mutates are fields of one state; \<open>synth[i]\<close> is the transactions recorded with
  index \<open>i\<close>, in order. The context check at the head of \<open>Apply\<close> and the registration are left
  out.
\<close>

record pending_pad =
  pp_dir :: pad_dir
  pp_index :: nat
  pp_padded :: "currency list"
  pp_used :: bool

record pad_state =
  ps_balances :: buckets
  ps_costs :: buckets
  ps_spans :: "bucket_key \<rightharpoonup> span"
  ps_pending :: "(account \<times> pending_pad) list"
  ps_synth :: "(nat \<times> transaction) list"

definition empty_pad_state :: pad_state where
  "empty_pad_state = \<lparr>ps_balances = [], ps_costs = [], ps_spans = Map.empty, ps_pending = [], ps_synth = []\<rparr>"

text \<open>\<open>addToBalance\<close> absorbs the error of an addition.\<close>

definition add_to_balance :: "apd \<Rightarrow> buckets \<Rightarrow> account \<Rightarrow> amount \<Rightarrow> buckets" where
  "add_to_balance A bs a delta = snd (bucket_add A bs (a, amt_currency delta) (amt_number delta))"

fun pad_postings :: "apd \<Rightarrow> transaction \<Rightarrow> posting list \<Rightarrow> pad_state \<Rightarrow> diagnostic list \<times> pad_state" where
  "pad_postings A t [] s = ([], s)"
| "pad_postings A t (p # ps) s =
     (case p_amount p of
        None \<Rightarrow> (case pad_postings A t ps s of (ds, s') \<Rightarrow> (unresolved_diag t p # ds, s'))
      | Some a \<Rightarrow>
          let s = s\<lparr>ps_balances := add_to_balance A (ps_balances s) (p_account p) a\<rparr>;
              key = (p_account p, amt_currency a)
          in pad_postings A t ps
            (if p_cost p = None then s
             else s\<lparr>ps_costs := add_to_balance A (ps_costs s) (p_account p) a,
                    ps_spans := (if ps_spans s key = None then (ps_spans s)(key \<mapsto> posting_span t p)
                                 else ps_spans s)\<rparr>))"

definition pad_apply_transaction :: "apd \<Rightarrow> transaction \<Rightarrow> pad_state \<Rightarrow> diagnostic list \<times> pad_state" where
  "pad_apply_transaction A t s = pad_postings A t (txn_postings t) s"

definition unresolved_pad :: "pad_dir \<Rightarrow> string \<Rightarrow> diagnostic" where
  "unresolved_pad d msg = mk_diag ''pad-unresolved'' (pad_span d)
     (''pad directive for '' @ pad_account d @ '' from '' @ pad_source d @ msg)"

definition record_pad :: "pad_dir \<Rightarrow> nat \<Rightarrow> pad_state \<Rightarrow> diagnostic list \<times> pad_state" where
  "record_pad p i s =
     ((case map_of (ps_pending s) (pad_account p) of
         Some prev \<Rightarrow>
           if \<not> pp_used prev
           then [unresolved_pad (pp_dir prev) '' was not resolved before another pad'']
           else []
       | None \<Rightarrow> []),
      s\<lparr>ps_pending := AList.update (pad_account p)
          \<lparr>pp_dir = p, pp_index = i, pp_padded = [], pp_used = False\<rparr> (ps_pending s)\<rparr>)"

definition synth_posting :: "account \<Rightarrow> amount \<Rightarrow> posting" where
  "synth_posting a amt = \<lparr>p_span = zero_span, p_flag = CHR 0x00, p_account = a, p_amount = Some amt,
     p_cost = None, p_price = None, p_meta = Map.empty\<rparr>"

definition synth_txn :: "apd \<Rightarrow> pad_dir \<Rightarrow> amount \<Rightarrow> decimal \<Rightarrow> decimal \<Rightarrow> transaction" where
  "synth_txn A d expected delta neg =
     (let cur = amt_currency expected in
      \<lparr>txn_span = pad_span d, txn_date = pad_date d, txn_flag = CHR ''*'', txn_payee = [],
       txn_narration = ''(Padding inserted for Balance of '' @ apd_text A (amt_number expected) @ '' '' @
         cur @ '' for difference '' @ apd_text A delta @ '' '' @ cur @ '')'',
       txn_tags = [], txn_links = [],
       txn_postings = [synth_posting (pad_account d) \<lparr>amt_number = delta, amt_currency = cur\<rparr>,
                       synth_posting (pad_source d) \<lparr>amt_number = neg, amt_currency = cur\<rparr>],
       txn_meta = Map.empty\<rparr>)"

text \<open>\<open>resolveBalance\<close>. The \<open>*pendingPad\<close> it mutates is put back into the map.\<close>

definition put_pending :: "pad_state \<Rightarrow> account \<Rightarrow> pending_pad \<Rightarrow> pad_state" where
  "put_pending s a pp = s\<lparr>ps_pending := AList.update a pp (ps_pending s)\<rparr>"

definition bucket_number :: "buckets \<Rightarrow> bucket_key \<Rightarrow> decimal" where
  "bucket_number bs k = (case map_of bs k of Some v \<Rightarrow> v | None \<Rightarrow> dzero)"

definition resolve_balance :: "apd \<Rightarrow> balance_dir \<Rightarrow> pad_state \<Rightarrow> diagnostic list \<times> pad_state" where
  "resolve_balance A b s =
     (case map_of (ps_pending s) (bal_account b) of
        None \<Rightarrow> ([], s)
      | Some pp \<Rightarrow>
          let cur = amt_currency (bal_amount b); key = (bal_account b, cur); d = pp_dir pp;
              pp = pp\<lparr>pp_used := True\<rparr>;
              used = put_pending s (bal_account b) pp;
              padded = put_pending s (bal_account b) (pp\<lparr>pp_padded := cur # pp_padded pp\<rparr>)
          in if cur \<in> set (pp_padded pp) then ([], used)
          else (case apd_sub A (amt_number (bal_amount b)) (bucket_number (ps_balances s) key) of
             Inl e \<Rightarrow> ([mk_diag ''internal-error'' (pad_span d)
               (''failed to compute pad residual for '' @ go_quote (pad_account d) @ '': '' @ e)], padded)
           | Inr delta \<Rightarrow>
               if apd_is_zero A delta then ([], padded)
               else if (case map_of (ps_costs s) key of Some cb \<Rightarrow> \<not> apd_is_zero A cb | None \<Rightarrow> False)
               then let sp = (case ps_spans s key of Some x \<Rightarrow> x | None \<Rightarrow> zero_span) in
                 ([mk_diag ''pad-target-has-cost'' (if sp = zero_span then pad_span d else sp)
                    (''cannot pad account '' @ go_quote (pad_account d) @ '': holds cost-bearing position'')],
                  padded)
               else (case apd_neg A delta of
                  Inl e \<Rightarrow> ([mk_diag ''internal-error'' (pad_span d)
                    (''failed to negate pad residual for '' @ go_quote (pad_account d) @ '': '' @ e)], padded)
                | Inr neg \<Rightarrow>
                    ([], padded\<lparr>
                      ps_balances :=
                        add_to_balance A
                          (add_to_balance A (ps_balances s) (pad_account d)
                             \<lparr>amt_number = delta, amt_currency = cur\<rparr>)
                          (pad_source d) \<lparr>amt_number = neg, amt_currency = cur\<rparr>,
                      ps_synth := ps_synth s @ [(pp_index pp, synth_txn A d (bal_amount b) delta neg)]\<rparr>))))"

text \<open>The walk, with the index of the next directive.\<close>

definition pad_step :: "apd \<Rightarrow> nat \<Rightarrow> directive \<Rightarrow> pad_state \<Rightarrow> diagnostic list \<times> pad_state" where
  "pad_step A i d s =
     (case d of
        DTransaction t \<Rightarrow> pad_apply_transaction A t s
      | DPad p \<Rightarrow> record_pad p i s
      | DBalance b \<Rightarrow> resolve_balance A b s
      | _ \<Rightarrow> ([], s))"

fun pad_loop :: "apd \<Rightarrow> nat \<Rightarrow> directive list \<Rightarrow> pad_state \<Rightarrow> diagnostic list \<times> pad_state" where
  "pad_loop A i [] s = ([], s)"
| "pad_loop A i (d # ds) s =
     (case pad_step A i d s of (d1, s1) \<Rightarrow>
        (case pad_loop A (Suc i) ds s1 of (d2, s2) \<Rightarrow> (d1 @ d2, s2)))"

text \<open>The report on the pads no assertion was paired with, by account.\<close>

definition unresolved_pads :: "(account \<times> pending_pad) list \<Rightarrow> diagnostic list" where
  "unresolved_pads pending =
     concat (map (\<lambda>a. case map_of pending a of
         Some pp \<Rightarrow> if pp_used pp then []
           else [unresolved_pad (pp_dir pp) '' was not followed by a matching balance assertion'']
       | None \<Rightarrow> []) (sort_strings (map fst pending)))"

definition synth_at :: "(nat \<times> transaction) list \<Rightarrow> nat \<Rightarrow> transaction list" where
  "synth_at synth i = map snd (filter (\<lambda>x. fst x = i) synth)"

fun insert_synth :: "(nat \<times> transaction) list \<Rightarrow> nat \<Rightarrow> directive list \<Rightarrow> directive list" where
  "insert_synth synth i [] = []"
| "insert_synth synth i (d # ds) =
     d # map DTransaction (synth_at synth i) @ insert_synth synth (Suc i) ds"

definition pad_apply :: "apd \<Rightarrow> directive list option \<Rightarrow> directive list option \<times> diagnostic list" where
  "pad_apply A dirs =
     (case dirs of
        None \<Rightarrow> (None, [])
      | Some ds \<Rightarrow>
          (case pad_loop A 0 ds empty_pad_state of (diags, s) \<Rightarrow>
             let all_diags = diags @ unresolved_pads (ps_pending s) in
             if ps_synth s = [] then (None, all_diags)
             else (Some (insert_synth (ps_synth s) 0 ds), all_diags)))"

section \<open>What a padded ledger looks like\<close>

text \<open>A transaction of the plugin closes a gap: two postings of opposite amounts.\<close>

definition closes_gap :: "apd \<Rightarrow> pad_dir \<Rightarrow> transaction \<Rightarrow> bool" where
  "closes_gap A d t \<longleftrightarrow> (\<exists>expected delta neg. t = synth_txn A d expected delta neg \<and>
     dval delta \<noteq> 0 \<and> dval neg = - dval delta)"

definition synth_units :: "(bucket_key \<Rightarrow> bool) \<Rightarrow> (nat \<times> transaction) list \<Rightarrow> rat" where
  "synth_units P xs = sum_list (map (\<lambda>x. posted_all P (txn_postings (snd x))) xs)"

definition pad_at :: "directive list \<Rightarrow> nat \<Rightarrow> pad_dir \<Rightarrow> bool" where
  "pad_at seen i d \<longleftrightarrow> i < length seen \<and> seen ! i = DPad d"

definition pending_ok :: "directive list \<Rightarrow> account \<Rightarrow> pending_pad \<Rightarrow> bool" where
  "pending_ok seen a pp \<longleftrightarrow> pad_account (pp_dir pp) = a \<and> pad_at seen (pp_index pp) (pp_dir pp)"

definition synth_ok :: "apd \<Rightarrow> directive list \<Rightarrow> nat \<times> transaction \<Rightarrow> bool" where
  "synth_ok A seen x \<longleftrightarrow> (\<exists>d. pad_at seen (fst x) d \<and> closes_gap A d (snd x))"

text \<open>The state after the directives \<open>seen\<close>: every pending pad and every synthesized transaction
  belongs to a pad read, and the running balances are what the directives and the synthesized
  transactions post.\<close>

definition pad_inv :: "apd \<Rightarrow> directive list \<Rightarrow> pad_state \<Rightarrow> bool" where
  "pad_inv A seen s \<longleftrightarrow>
     (\<forall>a pp. map_of (ps_pending s) a = Some pp \<longrightarrow> pending_ok seen a pp) \<and>
     (\<forall>x\<in>set (ps_synth s). synth_ok A seen x) \<and>
     distinct (map fst (ps_balances s)) \<and>
     (\<forall>P. bucket_sum (ps_balances s) P = ledger_units P seen + synth_units P (ps_synth s))"

lemma synth_units_append [simp]:
  "synth_units P [] = 0" "synth_units P (xs @ [x]) = synth_units P xs + posted_all P (txn_postings (snd x))"
  by (simp_all add: synth_units_def)

lemma synth_txn_postings:
  "posted_all P (txn_postings (synth_txn A d expected delta neg)) =
     (if P (pad_account d, amt_currency expected) then dval delta else 0) +
     (if P (pad_source d, amt_currency expected) then dval neg else 0)"
  by (simp add: synth_txn_def Let_def synth_posting_def posted_def)

lemma ledger_units_snoc:
  "ledger_units P (xs @ [d]) = ledger_units P xs + ledger_units P [d]"
  by (rule ledger_units_append)

lemma pad_inv_empty: "pad_inv A [] empty_pad_state"
  by (simp add: pad_inv_def empty_pad_state_def)

lemma ok_snoc [intro]:
  "pending_ok seen a pp \<Longrightarrow> pending_ok (seen @ [e]) a pp"
  "synth_ok A seen x \<Longrightarrow> synth_ok A (seen @ [e]) x"
  by (auto simp: pending_ok_def synth_ok_def pad_at_def nth_append)

lemma pad_inv_step:
  assumes "pad_inv A seen s"
    and "\<And>a pp. map_of (ps_pending s') a = Some pp \<Longrightarrow>
      map_of (ps_pending s) a = Some pp \<or> pending_ok (seen @ [d]) a pp"
    and "ps_synth s' = ps_synth s @ new" and "\<forall>x\<in>set new. synth_ok A (seen @ [d]) x"
    and "distinct (map fst (ps_balances s'))"
    and "\<And>P. bucket_sum (ps_balances s') P =
      bucket_sum (ps_balances s) P + ledger_units P [d] + synth_units P new"
  shows "pad_inv A (seen @ [d]) s'"
  unfolding pad_inv_def
proof (intro conjI allI impI)
  show "pending_ok (seen @ [d]) a pp" if "map_of (ps_pending s') a = Some pp" for a pp
    using assms(2) [OF that] assms(1) by (auto simp: pad_inv_def)
  show "\<forall>x\<in>set (ps_synth s'). synth_ok A (seen @ [d]) x"
    using assms(1,3,4) by (auto simp: pad_inv_def)
  show "distinct (map fst (ps_balances s'))" by (rule assms(5))
  show "bucket_sum (ps_balances s') P = ledger_units P (seen @ [d]) + synth_units P (ps_synth s')" for P
    using assms(1) by (simp add: pad_inv_def assms(3,6) ledger_units_snoc synth_units_def)
qed

text \<open>The gap an assertion leaves, and whether its bucket is held at cost.\<close>

definition gap :: "balance_dir \<Rightarrow> pad_state \<Rightarrow> rat" where
  "gap b s = dval (amt_number (bal_amount b)) -
     bucket_val (ps_balances s) (bal_account b, amt_currency (bal_amount b))"

definition held_at_cost :: "balance_dir \<Rightarrow> pad_state \<Rightarrow> bool" where
  "held_at_cost b s \<longleftrightarrow> bucket_val (ps_costs s) (bal_account b, amt_currency (bal_amount b)) \<noteq> 0"

definition mark_padded :: "balance_dir \<Rightarrow> pending_pad \<Rightarrow> pending_pad" where
  "mark_padded b pp = pp\<lparr>pp_used := True, pp_padded := amt_currency (bal_amount b) # pp_padded pp\<rparr>"

definition padded_state :: "apd \<Rightarrow> balance_dir \<Rightarrow> pad_state \<Rightarrow> pending_pad \<Rightarrow> decimal \<Rightarrow> decimal \<Rightarrow> pad_state" where
  "padded_state A b s pp delta neg =
     (put_pending s (bal_account b) (mark_padded b pp))\<lparr>
       ps_balances := add_to_balance A (add_to_balance A (ps_balances s) (pad_account (pp_dir pp))
         \<lparr>amt_number = delta, amt_currency = amt_currency (bal_amount b)\<rparr>) (pad_source (pp_dir pp))
         \<lparr>amt_number = neg, amt_currency = amt_currency (bal_amount b)\<rparr>,
       ps_synth := ps_synth s @ [(pp_index pp, synth_txn A (pp_dir pp) (bal_amount b) delta neg)]\<rparr>"

lemma bucket_number_val: "dval (bucket_number bs k) = bucket_val bs k"
  by (simp add: bucket_number_def bucket_val_def split: option.splits)

lemma mark_padded_sels [simp]:
  "pp_dir (mark_padded b pp) = pp_dir pp" "pp_index (mark_padded b pp) = pp_index pp"
  by (simp_all add: mark_padded_def)

lemma padded_state_sels [simp]:
  "ps_pending (padded_state A b s pp delta neg) =
     AList.update (bal_account b) (mark_padded b pp) (ps_pending s)"
  "ps_synth (padded_state A b s pp delta neg) =
     ps_synth s @ [(pp_index pp, synth_txn A (pp_dir pp) (bal_amount b) delta neg)]"
  by (simp_all add: padded_state_def put_pending_def)

context apd_total
begin

lemma add_to_balance_sum:
  "bucket_sum (add_to_balance A bs a x) P =
     bucket_sum bs P + (if P (a, amt_currency x) then dval (amt_number x) else 0)"
  "distinct (map fst bs) \<Longrightarrow> distinct (map fst (add_to_balance A bs a x))"
proof -
  obtain bs' where b: "bucket_add A bs (a, amt_currency x) (amt_number x) = (None, bs')"
    using bucket_add_total by blast
  from bucket_add_sum [OF b] bucket_add_keys [OF b]
  show "bucket_sum (add_to_balance A bs a x) P =
     bucket_sum bs P + (if P (a, amt_currency x) then dval (amt_number x) else 0)"
    "distinct (map fst bs) \<Longrightarrow> distinct (map fst (add_to_balance A bs a x))"
    by (simp_all add: add_to_balance_def b)
qed

lemma pad_postings_sum:
  "pad_postings A t ps s = (ds, s') \<Longrightarrow>
     bucket_sum (ps_balances s') P = bucket_sum (ps_balances s) P + posted_all P ps \<and>
     (distinct (map fst (ps_balances s)) \<longrightarrow> distinct (map fst (ps_balances s'))) \<and>
     ps_pending s' = ps_pending s \<and> ps_synth s' = ps_synth s"
proof (induction ps arbitrary: s ds)
  case Nil
  then show ?case by simp
next
  case (Cons p ps)
  show ?case
  proof (cases "p_amount p")
    case None
    with Cons.prems obtain ds' where "pad_postings A t ps s = (ds', s')" by (auto split: prod.splits)
    with Cons.IH None show ?thesis by (simp add: posted_def)
  next
    case (Some a)
    with Cons.prems obtain s1 where rest: "pad_postings A t ps s1 = (ds, s')"
      and s1: "ps_balances s1 = add_to_balance A (ps_balances s) (p_account p) a"
      "ps_pending s1 = ps_pending s" "ps_synth s1 = ps_synth s"
      by (auto simp: Let_def split: if_splits)
    from Cons.IH [OF rest] Some show ?thesis
      by (simp add: s1 add_to_balance_sum posted_def)
  qed
qed

text \<open>What \<open>resolveBalance\<close> does: it pads when a pad is pending, the currency is new to it, the gap
  is not zero and nothing is held at cost; otherwise it changes the pending pad at most.\<close>

lemma resolve_idle: "map_of (ps_pending s) (bal_account b) = None \<Longrightarrow> resolve_balance A b s = ([], s)"
  by (simp add: resolve_balance_def)

lemma resolve_marked:
  assumes pp: "map_of (ps_pending s) (bal_account b) = Some pp"
    and "amt_currency (bal_amount b) \<in> set (pp_padded pp) \<or> gap b s = 0 \<or> held_at_cost b s"
  shows "\<exists>pp'. snd (resolve_balance A b s) = put_pending s (bal_account b) pp' \<and>
    pp_dir pp' = pp_dir pp \<and> pp_index pp' = pp_index pp \<and>
    set (pp_padded pp') = insert (amt_currency (bal_amount b)) (set (pp_padded pp))"
proof -
  let ?key = "(bal_account b, amt_currency (bal_amount b))"
  obtain delta where delta: "apd_sub A (amt_number (bal_amount b)) (bucket_number (ps_balances s) ?key) = Inr delta"
    using sub_total by blast
  have z: "apd_is_zero A delta \<longleftrightarrow> gap b s = 0"
    by (simp add: gap_def is_zero_val sub_val [OF delta] bucket_number_val)
  have hc: "(case map_of (ps_costs s) ?key of Some cb \<Rightarrow> \<not> apd_is_zero A cb | None \<Rightarrow> False) = held_at_cost b s"
    by (simp add: held_at_cost_def bucket_val_def is_zero_val split: option.splits)
  from assms(2) show ?thesis
    unfolding resolve_balance_def pp option.case Let_def delta sum.case hc z by auto
qed

lemma resolve_padded:
  assumes pp: "map_of (ps_pending s) (bal_account b) = Some pp"
    and new: "amt_currency (bal_amount b) \<notin> set (pp_padded pp)" and g: "gap b s \<noteq> 0" and c: "\<not> held_at_cost b s"
  shows "\<exists>delta neg. dval delta = gap b s \<and> dval neg = - gap b s \<and>
    resolve_balance A b s = ([], padded_state A b s pp delta neg)"
proof -
  let ?key = "(bal_account b, amt_currency (bal_amount b))"
  obtain delta where delta: "apd_sub A (amt_number (bal_amount b)) (bucket_number (ps_balances s) ?key) = Inr delta"
    using sub_total by blast
  have dv: "dval delta = gap b s" by (simp add: gap_def sub_val [OF delta] bucket_number_val)
  then have z: "apd_is_zero A delta \<longleftrightarrow> False" using g by (simp add: is_zero_val)
  obtain neg where neg: "apd_neg A delta = Inr neg" using neg_total by blast
  have hc: "(case map_of (ps_costs s) ?key of Some cb \<Rightarrow> \<not> apd_is_zero A cb | None \<Rightarrow> False) = False"
    using c by (simp add: held_at_cost_def bucket_val_def is_zero_val split: option.splits)
  have "resolve_balance A b s = ([], padded_state A b s pp delta neg)"
    unfolding resolve_balance_def pp option.case Let_def delta sum.case hc z neg if_False
    using new by (simp add: padded_state_def mark_padded_def put_pending_def)
  with dv neg_val [OF neg] show ?thesis by auto
qed

lemma resolve_balance_cases:
  assumes "resolve_balance A b s = (ds, s')"
  obtains (idle) "map_of (ps_pending s) (bal_account b) = None" "s' = s"
  | (marked) pp pp' where "map_of (ps_pending s) (bal_account b) = Some pp"
      "s' = put_pending s (bal_account b) pp'" "pp_dir pp' = pp_dir pp" "pp_index pp' = pp_index pp"
      "set (pp_padded pp') = insert (amt_currency (bal_amount b)) (set (pp_padded pp))"
  | (padded) pp delta neg where "map_of (ps_pending s) (bal_account b) = Some pp"
      "amt_currency (bal_amount b) \<notin> set (pp_padded pp)" "dval delta = gap b s" "dval neg = - gap b s" "gap b s \<noteq> 0" "s' = padded_state A b s pp delta neg"
proof (cases "map_of (ps_pending s) (bal_account b)")
  case None
  with assms resolve_idle [OF None] show ?thesis by (intro idle) simp_all
next
  case (Some pp)
  show ?thesis
  proof (cases "amt_currency (bal_amount b) \<in> set (pp_padded pp) \<or> gap b s = 0 \<or> held_at_cost b s")
    case True
    from resolve_marked [OF Some True] assms obtain pp' where
      "s' = put_pending s (bal_account b) pp'" "pp_dir pp' = pp_dir pp" "pp_index pp' = pp_index pp"
      "set (pp_padded pp') = insert (amt_currency (bal_amount b)) (set (pp_padded pp))"
      by auto
    then show ?thesis by (rule marked [OF Some])
  next
    case False
    then have g: "gap b s \<noteq> 0" by simp
    from False resolve_padded [OF Some _ g] assms obtain delta neg where
      "dval delta = gap b s" "dval neg = - gap b s" "s' = padded_state A b s pp delta neg"
      by auto
    then show ?thesis using g False by (intro padded [OF Some]) simp_all
  qed
qed

lemma pad_inv_pad_step:
  assumes inv: "pad_inv A seen s" and step: "pad_step A (length seen) d s = (ds, s')"
  shows "pad_inv A (seen @ [d]) s'" and "\<exists>new. ps_synth s' = ps_synth s @ new"
proof -
  have "pad_inv A (seen @ [d]) s' \<and> (\<exists>new. ps_synth s' = ps_synth s @ new)"
  proof (cases d)
    case (DTransaction t)
    with step have t: "pad_postings A t (txn_postings t) s = (ds, s')"
      by (simp add: pad_step_def pad_apply_transaction_def)
    note v = pad_postings_sum [OF t]
    have "pad_inv A (seen @ [d]) s'"
      using v inv by (intro pad_inv_step [OF inv, where new = "[]"]) (simp_all add: DTransaction pad_inv_def)
    with v show ?thesis by simp
  next
    case (DPad p)
    with step have s': "s' = s\<lparr>ps_pending := AList.update (pad_account p)
        \<lparr>pp_dir = p, pp_index = length seen, pp_padded = [], pp_used = False\<rparr> (ps_pending s)\<rparr>"
      by (simp add: pad_step_def record_pad_def)
    have "pending_ok (seen @ [d]) (pad_account p)
        \<lparr>pp_dir = p, pp_index = length seen, pp_padded = [], pp_used = False\<rparr>"
      by (simp add: pending_ok_def pad_at_def DPad)
    with inv have "pad_inv A (seen @ [d]) s'"
      by (intro pad_inv_step [OF inv, where new = "[]"])
        (simp_all add: s' DPad pad_inv_def update_conv' split: if_splits)
    then show ?thesis by (simp add: s')
  next
    case (DBalance b)
    with step have r: "resolve_balance A b s = (ds, s')" by (simp add: pad_step_def)
    from r show ?thesis
    proof (cases rule: resolve_balance_cases)
      case idle
      with inv have "pad_inv A (seen @ [d]) s'"
        by (intro pad_inv_step [OF inv, where new = "[]"]) (simp_all add: DBalance pad_inv_def)
      with idle show ?thesis by simp
    next
      case (marked pp pp')
      with inv have "pending_ok seen (bal_account b) pp'"
        by (auto simp: pad_inv_def pending_ok_def)
      then have "pending_ok (seen @ [d]) (bal_account b) pp'" by blast
      with marked inv have "pad_inv A (seen @ [d]) s'"
        by (intro pad_inv_step [OF inv, where new = "[]"])
          (simp_all add: DBalance pad_inv_def put_pending_def update_conv' split: if_splits)
      with marked show ?thesis by (simp add: put_pending_def)
    next
      case (padded pp delta neg)
      let ?x = "(pp_index pp, synth_txn A (pp_dir pp) (bal_amount b) delta neg)"
      from padded(1) inv have ok: "pending_ok seen (bal_account b) pp" by (simp add: pad_inv_def)
      then have "pending_ok seen (bal_account b) (mark_padded b pp)" by (simp add: pending_ok_def)
      then have p1: "pending_ok (seen @ [d]) (bal_account b) (mark_padded b pp)" by blast
      have "closes_gap A (pp_dir pp) (snd ?x)"
        unfolding closes_gap_def snd_conv
        by (intro exI [of _ "bal_amount b"] exI [of _ delta] exI [of _ neg]) (simp add: padded(3-5))
      with ok have "synth_ok A seen ?x" by (auto simp: synth_ok_def pending_ok_def)
      then have x: "\<forall>x\<in>set [?x]. synth_ok A (seen @ [d]) x" by auto
      have dist: "distinct (map fst (ps_balances s'))"
        using inv by (simp add: padded(6) padded_state_def add_to_balance_sum pad_inv_def)
      have sums: "bucket_sum (ps_balances s') P =
          bucket_sum (ps_balances s) P + ledger_units P [d] + synth_units P [?x]" for P
        by (simp add: padded(6) padded_state_def add_to_balance_sum synth_txn_postings synth_units_def DBalance)
      have pend: "map_of (ps_pending s) a = Some q \<or> pending_ok (seen @ [d]) a q"
        if "map_of (ps_pending s') a = Some q" for a q
        using that p1 by (auto simp: padded(6) update_conv' split: if_splits)
      have "pad_inv A (seen @ [d]) s'"
        by (rule pad_inv_step [OF inv pend _ x dist sums]) (simp_all add: padded(6))
      then show ?thesis by (simp add: padded(6))
    qed
  qed (use step inv in \<open>auto intro!: pad_inv_step [OF inv, where new = "[]"] simp: pad_step_def pad_inv_def ledger_units_snoc\<close>)
  then show "pad_inv A (seen @ [d]) s'" "\<exists>new. ps_synth s' = ps_synth s @ new" by auto
qed

lemma pad_loop_inv:
  "pad_loop A (length seen) ds s = (diags, s') \<Longrightarrow> pad_inv A seen s \<Longrightarrow>
     pad_inv A (seen @ ds) s' \<and> (\<exists>new. ps_synth s' = ps_synth s @ new)"
proof (induction ds arbitrary: seen s diags)
  case Nil
  then show ?case by simp
next
  case (Cons d ds)
  then obtain d1 s1 d2 where s1: "pad_step A (length seen) d s = (d1, s1)"
    and rest: "pad_loop A (length (seen @ [d])) ds s1 = (d2, s')"
    by (auto split: prod.splits)
  from pad_inv_pad_step [OF Cons.prems(2) s1] Cons.IH [OF rest] show ?case by auto
qed

lemma pad_loop_append:
  "pad_loop A i (xs @ ys) s =
     (case pad_loop A i xs s of (d1, s1) \<Rightarrow>
        (case pad_loop A (i + length xs) ys s1 of (d2, s2) \<Rightarrow> (d1 @ d2, s2)))"
  by (induction xs arbitrary: i s) (auto split: prod.splits)

end

section \<open>The padded directives\<close>

lemma insert_synth_append:
  "insert_synth synth i (xs @ ys) = insert_synth synth i xs @ insert_synth synth (i + length xs) ys"
  by (induction xs arbitrary: i) auto

text \<open>The units of a padded prefix: those of the directives and those of the transactions
  synthesized for the pads among them.\<close>

lemma posted_synth_at:
  "ledger_units P (map DTransaction (synth_at synth i)) =
     synth_units P (filter (\<lambda>x. fst x = i) synth)"
proof -
  have "ledger_units P (map DTransaction ts) = sum_list (map (\<lambda>t. posted_all P (txn_postings t)) ts)" for ts
    by (induction ts) auto
  from this [of "synth_at synth i"] show ?thesis by (simp add: synth_at_def synth_units_def comp_def)
qed

lemma synth_units_split:
  "synth_units P (filter (\<lambda>x. i \<le> fst x \<and> fst x < Suc (i + n)) xs) =
     synth_units P (filter (\<lambda>x. fst x = i) xs) +
     synth_units P (filter (\<lambda>x. Suc i \<le> fst x \<and> fst x < Suc (i + n)) xs)"
  by (induction xs) (auto simp: synth_units_def)

lemma insert_synth_units:
  "ledger_units P (insert_synth synth i ds) =
     ledger_units P ds + synth_units P (filter (\<lambda>x. i \<le> fst x \<and> fst x < i + length ds) synth)"
proof (induction ds arbitrary: i)
  case Nil
  have "filter (\<lambda>x. i \<le> fst x \<and> fst x < i) synth = []" by (auto simp: filter_empty_conv)
  then show ?case by simp
next
  case (Cons d ds)
  have "ledger_units P (d # xs) = ledger_units P [d] + ledger_units P xs" for xs
    using ledger_units_append [of P "[d]" xs] by simp
  from this [of "map DTransaction (synth_at synth i) @ insert_synth synth (Suc i) ds"] this [of ds]
  show ?case
    using Cons [of "Suc i"] by (simp add: ledger_units_append posted_synth_at synth_units_split)
qed

end
