(* ===== verification/Loader.thy ===== *)
theory Loader
  imports Ledger Reducer Validators Balance_Check Pad
begin

text \<open>
  The pipeline of \<open>pkg/loader/loader.go\<close> with the plugin runner of \<open>pkg/ext/postproc/apply.go\<close> and the
  booking plugin of \<open>pkg/loader/booking/plugin.go\<close>. A plugin is a function from its input to a result
  or an error; the registry of plugins and the document plugin, which asks the file system, are
  parameters; the ledger is not nil. The context is the error it has when the pipeline starts; it is not cancelled during a run.
\<close>

section \<open>Plugins\<close>

text \<open>\<open>ast.Ledger\<close> with its public fields; of the files their names, None for a nil pointer.\<close>

record full_ledger =
  fl_files :: "string option list"
  fl_diags :: "diagnostic list"
  fl_options :: "option_values option"
  fl_ledger :: ledger

record plugin_input =
  in_directives :: "directive list option"
  in_options :: "option_values option"
  in_config :: string
  in_directive :: "plugin_dir option"
  in_source :: string

record plugin_result =
  res_directives :: "directive list option"
  res_diags :: "diagnostic list"

type_synonym plugin = "plugin_input \<Rightarrow> plugin_result result"

text \<open>Register panics when a name is taken.\<close>

definition register :: "(string \<rightharpoonup> plugin) \<Rightarrow> string \<Rightarrow> plugin \<Rightarrow> (string \<rightharpoonup> plugin) result" where
  "register reg name p =
     (if reg name \<noteq> None
      then Inl (Panic (''postproc: plugin '' @ go_quote name @ '' already registered''))
      else Inr (reg(name \<mapsto> p)))"

section \<open>The runner\<close>

definition commit :: "full_ledger \<Rightarrow> plugin_result \<Rightarrow> full_ledger" where
  "commit l r =
     (let l = l\<lparr>fl_diags := fl_diags l @ res_diags r\<rparr> in
      case res_directives r of
        None \<Rightarrow> l
      | Some ds \<Rightarrow> l\<lparr>fl_ledger := ledger_replace_all (fl_ledger l) ds\<rparr>)"

definition collect_plugins :: "ledger \<Rightarrow> plugin_dir list" where
  "collect_plugins g =
     concat (map (\<lambda>(i, d). case d of DPlugin p \<Rightarrow> [p] | _ \<Rightarrow> []) (ledger_all (Some g)))"

definition source_filename :: "full_ledger \<Rightarrow> string" where
  "source_filename l = (case fl_files l of Some name # _ \<Rightarrow> name | _ \<Rightarrow> [])"

definition directives_of :: "full_ledger \<Rightarrow> directive list" where
  "directives_of l = map snd (ledger_all (Some (fl_ledger l)))"

definition unregistered :: "plugin_dir \<Rightarrow> diagnostic" where
  "unregistered pd = mk_diag ''plugin-not-registered'' (plg_span pd)
     (''plugin '' @ go_quote (plg_name pd) @ '' is not registered'')"

text \<open>The ledger is edited in place, so it is there also when the runner returns an error.\<close>

fun run_plugins :: "string option \<Rightarrow> (string \<rightharpoonup> plugin) \<Rightarrow> string \<Rightarrow> plugin_dir list \<Rightarrow> full_ledger \<Rightarrow>
    full_ledger \<times> go_error option" where
  "run_plugins ctx reg source [] l = (l, None)"
| "run_plugins ctx reg source (pd # pds) l =
     (case ctx of Some e \<Rightarrow> (l, Some (SysErr e))
      | None \<Rightarrow>
      case reg (plg_name pd) of
        None \<Rightarrow> run_plugins ctx reg source pds (l\<lparr>fl_diags := fl_diags l @ [unregistered pd]\<rparr>)
      | Some p \<Rightarrow>
          (case p \<lparr>in_directives = Some (directives_of l), in_options = fl_options l, in_config = plg_config pd,
                   in_directive = Some pd, in_source = source\<rparr> of
             Inl (Panic e) \<Rightarrow> (l, Some (Panic e))
           | Inl (SysErr e) \<Rightarrow> (l, Some (SysErr (''plugin '' @ go_quote (plg_name pd) @ '': '' @ e)))
           | Inr r \<Rightarrow> run_plugins ctx reg source pds (commit l r)))"

definition postproc_apply :: "string option \<Rightarrow> (string \<rightharpoonup> plugin) \<Rightarrow> full_ledger \<Rightarrow> full_ledger \<times> go_error option" where
  "postproc_apply ctx reg l = run_plugins ctx reg (source_filename l) (collect_plugins (fl_ledger l)) l"

definition run_builtin :: "string option \<Rightarrow> plugin \<Rightarrow> full_ledger \<Rightarrow> full_ledger \<times> go_error option" where
  "run_builtin ctx p l =
     (case ctx of Some e \<Rightarrow> (l, Some (SysErr e))
      | None \<Rightarrow>
      case p \<lparr>in_directives = Some (directives_of l), in_options = fl_options l, in_config = [],
              in_directive = None, in_source = []\<rparr> of
        Inl (Panic e) \<Rightarrow> (l, Some (Panic e))
      | Inl (SysErr e) \<Rightarrow> (l, Some (SysErr (''built-in plugin: '' @ e)))
      | Inr r \<Rightarrow> (commit l r, None))"

section \<open>The built-in plugins\<close>

definition assemble_result :: "directive list \<Rightarrow> diagnostic list \<Rightarrow> go_error option \<Rightarrow> plugin_result" where
  "assemble_result booked diags e =
     (case e of
        Some e \<Rightarrow> \<lparr>res_directives = Some [], res_diags = [mk_diag ''internal-error'' zero_span
          (''booking pass halted: '' @ (case e of SysErr m \<Rightarrow> m | Panic m \<Rightarrow> m))]\<rparr>
      | None \<Rightarrow> \<lparr>res_directives = Some booked, res_diags = diags\<rparr>)"

definition booking_plugin :: "apd \<Rightarrow> plugin" where
  "booking_plugin A inp =
     (case in_directives inp of
        None \<Rightarrow> Inr \<lparr>res_directives = None, res_diags = []\<rparr>
      | Some ds \<Rightarrow>
          rbind (walk A (in_options inp) (None :: unit visitor option) () ds) (\<lambda>r.
            Inr (assemble_result (wr_out r) (wr_diags r) (wr_error r))))"

definition pad_plugin :: "apd \<Rightarrow> plugin" where
  "pad_plugin A inp =
     (case pad_apply A (in_directives inp) of (out, diags) \<Rightarrow>
        Inr \<lparr>res_directives = out, res_diags = diags\<rparr>)"

definition balance_plugin :: "apd \<Rightarrow> plugin" where
  "balance_plugin A inp =
     rbind (balance_apply A (in_directives inp) (in_options inp)) (\<lambda>(out, diags).
       Inr \<lparr>res_directives = out, res_diags = diags\<rparr>)"

definition validations_plugin :: "apd \<Rightarrow> plugin" where
  "validations_plugin A inp =
     rbind (validations_apply A (in_directives inp) (in_options inp)) (\<lambda>diags.
       Inr \<lparr>res_directives = None, res_diags = diags\<rparr>)"

section \<open>The pipeline\<close>

text \<open>A sequence of steps that halts at the first error.\<close>

fun in_sequence :: "('l \<Rightarrow> 'l \<times> go_error option) list \<Rightarrow> 'l \<Rightarrow> 'l \<times> go_error option" where
  "in_sequence [] l = (l, None)"
| "in_sequence (f # fs) l = (case f l of (l', Some e) \<Rightarrow> (l', Some e) | (l', None) \<Rightarrow> in_sequence fs l')"

definition apply_default :: "apd \<Rightarrow> string option \<Rightarrow> plugin \<Rightarrow> (string \<rightharpoonup> plugin) \<Rightarrow> full_ledger \<Rightarrow>
    full_ledger \<times> go_error option" where
  "apply_default A ctx document reg =
     in_sequence ([run_builtin ctx document, run_builtin ctx (booking_plugin A), postproc_apply ctx reg] @
       map (run_builtin ctx) [pad_plugin A, balance_plugin A, validations_plugin A])"

definition run_pipeline :: "apd \<Rightarrow> string option \<Rightarrow> plugin \<Rightarrow> (string \<rightharpoonup> plugin) \<Rightarrow> full_ledger \<Rightarrow>
    full_ledger \<times> go_error option" where
  "run_pipeline A ctx document reg l =
     (case opt_string A (fl_options l) ''plugin_processing_mode'' of
        Inl e \<Rightarrow> (l, Some e)
      | Inr mode \<Rightarrow>
          if mode = ''raw'' then postproc_apply ctx reg l else apply_default A ctx document reg l)"

end
