(* ===== verification/Pad_Balance.thy ===== *)
theory Pad_Balance
  imports Pad Balance_Check
begin

text \<open>
  The pad plugin followed by the balance plugin, the order in which the validation pipeline runs
  them: when a padded assertion holds afterwards.
\<close>

section \<open>What later directives do to a padded bucket\<close>

text \<open>The pads before position \<open>n\<close> that are still pending on an account have the currency done.\<close>

definition done_before :: "nat \<Rightarrow> bucket_key \<Rightarrow> pad_state \<Rightarrow> bool" where
  "done_before n k s \<longleftrightarrow>
     (\<forall>pp. map_of (ps_pending s) (fst k) = Some pp \<and> pp_index pp < n \<longrightarrow> snd k \<in> set (pp_padded pp))"

definition no_source :: "account \<Rightarrow> directive list \<Rightarrow> bool" where
  "no_source a ds \<longleftrightarrow> (\<forall>p. DPad p \<in> set ds \<longrightarrow> pad_source p \<noteq> a)"

definition units_before :: "nat \<Rightarrow> bucket_key \<Rightarrow> pad_state \<Rightarrow> rat" where
  "units_before n k s = synth_units (\<lambda>x. x = k) (filter (\<lambda>x. fst x < n) (ps_synth s))"

context apd_total
begin

lemma later_step:
  assumes inv: "pad_inv A seen s" and n: "n \<le> length seen" and src: "no_source (fst k) (take n seen)"
    and dn: "done_before n k s" and step: "pad_step A (length seen) d s = (ds, s')"
  shows "done_before n k s' \<and> units_before n k s' = units_before n k s"
proof (cases d)
  case (DTransaction t)
  with step have "pad_postings A t (txn_postings t) s = (ds, s')"
    by (simp add: pad_step_def pad_apply_transaction_def)
  from pad_postings_sum [OF this] dn show ?thesis
    by (simp add: done_before_def units_before_def)
next
  case (DPad p)
  with step n dn show ?thesis
    by (auto simp: pad_step_def record_pad_def done_before_def units_before_def update_conv' split: if_splits)
next
  case (DBalance b)
  with step have r: "resolve_balance A b s = (ds, s')" by (simp add: pad_step_def)
  then show ?thesis
  proof (cases rule: resolve_balance_cases)
    case idle
    with dn show ?thesis by simp
  next
    case (marked pp pp')
    with dn show ?thesis
      by (auto simp: done_before_def units_before_def put_pending_def update_conv')
  next
    case (padded pp delta neg)
    have "done_before n k s'"
      using dn padded(1) by (auto simp: padded(6) done_before_def update_conv' mark_padded_def)
    moreover have "posted_all (\<lambda>x. x = k) (txn_postings (synth_txn A (pp_dir pp) (bal_amount b) delta neg)) = 0"
      if i: "pp_index pp < n"
    proof -
      from inv padded(1) have ok: "pending_ok seen (bal_account b) pp" by (simp add: pad_inv_def)
      then have "take n seen ! pp_index pp = DPad (pp_dir pp)" "pp_index pp < length (take n seen)"
        using i n by (auto simp: pending_ok_def pad_at_def)
      then have "pad_source (pp_dir pp) \<noteq> fst k"
        using src by (metis no_source_def nth_mem)
      moreover have "(pad_account (pp_dir pp), amt_currency (bal_amount b)) \<noteq> k"
        using ok dn i padded(1,2) by (auto simp: pending_ok_def done_before_def)
      ultimately show ?thesis
        by (auto simp: synth_txn_postings)
    qed
    then have "units_before n k s' = units_before n k s"
      by (auto simp: padded(6) units_before_def)
    ultimately show ?thesis by blast
  qed
qed (use step dn in \<open>simp_all add: pad_step_def\<close>)

lemma later_loop:
  "pad_loop A (length seen) ds s = (diags, s') \<Longrightarrow> pad_inv A seen s \<Longrightarrow> n \<le> length seen \<Longrightarrow>
     no_source (fst k) (take n seen) \<Longrightarrow> done_before n k s \<Longrightarrow> units_before n k s' = units_before n k s"
proof (induction ds arbitrary: seen s diags)
  case Nil
  then show ?case by simp
next
  case (Cons d ds)
  then obtain d1 s1 d2 where s1: "pad_step A (length seen) d s = (d1, s1)"
    and rest: "pad_loop A (length (seen @ [d])) ds s1 = (d2, s')"
    by (auto split: prod.splits)
  from later_step [OF Cons.prems(2-5) s1] pad_inv_pad_step(1) [OF Cons.prems(2) s1]
    Cons.IH [OF rest] Cons.prems(3,4)
  show ?case by simp
qed

text \<open>The bucket of a padded assertion is the asserted number in the output.\<close>

lemma padded_bucket:
  assumes pre: "pad_loop A 0 pre empty_pad_state = (d1, s1)"
    and pp: "map_of (ps_pending s1) (bal_account b) = Some pp"
    and new: "amt_currency (bal_amount b) \<notin> set (pp_padded pp)" and cash: "\<not> held_at_cost b s1"
    and src: "no_source (bal_account b) pre"
    and all: "pad_loop A 0 (pre @ DBalance b # post) empty_pad_state = (ds, s)"
  shows "ledger_units (\<lambda>x. x = (bal_account b, amt_currency (bal_amount b))) (insert_synth (ps_synth s) 0 pre) =
    expected_units b"
proof -
  let ?k = "(bal_account b, amt_currency (bal_amount b))" and ?n = "length pre"
  have inv1: "pad_inv A pre s1"
    using pad_loop_inv [of "[]" pre empty_pad_state d1 s1] pre pad_inv_empty by simp
  obtain d2 s2 where s2: "resolve_balance A b s1 = (d2, s2)" by (cases "resolve_balance A b s1")
  then have step: "pad_step A ?n (DBalance b) s1 = (d2, s2)" by (simp add: pad_step_def)
  from all pre step obtain d3 where
    rest: "pad_loop A (length (pre @ [DBalance b])) post s2 = (d3, s)"
    by (auto simp: pad_loop_append split: prod.splits)
  have inv2: "pad_inv A (pre @ [DBalance b]) s2"
    by (rule pad_inv_pad_step(1) [OF inv1 step])
  have sums1: "bucket_val (ps_balances s1) k = bucket_sum (ps_balances s1) (\<lambda>x. x = k)" for k
  proof -
    have "distinct (map fst (ps_balances s1))" using inv1 by (simp add: pad_inv_def)
    then show ?thesis by (rule bucket_sum_val [symmetric])
  qed
  have src': "pad_source (pp_dir pp) \<noteq> bal_account b" and acc: "pad_account (pp_dir pp) = bal_account b"
    using inv1 pp src by (auto simp: pad_inv_def pending_ok_def pad_at_def no_source_def) (metis nth_mem)
  have val: "bucket_sum (ps_balances s2) (\<lambda>x. x = ?k) = expected_units b" and dn: "done_before ?n ?k s2"
  proof -
    have "bucket_sum (ps_balances s2) (\<lambda>x. x = ?k) = expected_units b \<and> done_before ?n ?k s2"
    proof (cases "gap b s1 = 0")
      case True
      with resolve_marked [OF pp] s2 obtain pp' where
        "s2 = put_pending s1 (bal_account b) pp'" "amt_currency (bal_amount b) \<in> set (pp_padded pp')"
        by fastforce
      with True sums1 show ?thesis
        by (simp add: put_pending_def gap_def expected_units_def done_before_def update_conv')
    next
      case False
      from resolve_padded [OF pp new False cash] s2 obtain delta neg where
        d: "dval delta = gap b s1" and s2': "s2 = padded_state A b s1 pp delta neg" by auto
      have "bucket_sum (ps_balances s2) (\<lambda>x. x = ?k) = bucket_sum (ps_balances s1) (\<lambda>x. x = ?k) + dval delta"
        using src' acc by (simp add: s2' padded_state_def add_to_balance_sum)
      then show ?thesis
        using d sums1 by (simp add: gap_def expected_units_def s2' done_before_def update_conv' mark_padded_def)
    qed
    then show "bucket_sum (ps_balances s2) (\<lambda>x. x = ?k) = expected_units b" "done_before ?n ?k s2" by auto
  qed
  have before: "units_before ?n ?k s2 = synth_units (\<lambda>x. x = ?k) (ps_synth s2)"
  proof -
    have "fst x < ?n" if "x \<in> set (ps_synth s2)" for x
    proof -
      from that inv2 have "synth_ok A (pre @ [DBalance b]) x" by (simp add: pad_inv_def)
      then obtain d where "fst x < Suc ?n" "(pre @ [DBalance b]) ! fst x = DPad d"
        by (auto simp: synth_ok_def pad_at_def)
      then show ?thesis by (cases "fst x = ?n") (auto simp: nth_append)
    qed
    then have "filter (\<lambda>x. fst x < ?n) (ps_synth s2) = ps_synth s2" by (simp add: filter_id_conv)
    then show ?thesis by (simp add: units_before_def)
  qed
  have "units_before ?n ?k s = units_before ?n ?k s2"
    using later_loop [OF rest inv2, of ?n ?k] src dn by simp
  with before have "ledger_units (\<lambda>x. x = ?k) (insert_synth (ps_synth s) 0 pre) =
      ledger_units (\<lambda>x. x = ?k) pre + synth_units (\<lambda>x. x = ?k) (ps_synth s2)"
    by (simp add: insert_synth_units units_before_def)
  also have "\<dots> = bucket_sum (ps_balances s2) (\<lambda>x. x = ?k)"
    using inv2 by (simp add: pad_inv_def ledger_units_append)
  finally show ?thesis using val by simp
qed

end

end
