(* ===== verification/Pad_Report.thy ===== *)
theory Pad_Report
  imports Pad_Balance
begin

text \<open>
  What the pad plugin reports and what survives between a pad and its assertion: the pending pad, the
  bucket of units held at cost, and the pads that no assertion is ever paired with.
\<close>

section \<open>From a pad to its assertion\<close>

text \<open>Nothing between the two pads the account again, or asserts the same currency of it.\<close>

definition undisturbed :: "account \<Rightarrow> currency \<Rightarrow> directive list \<Rightarrow> bool" where
  "undisturbed a c ds \<longleftrightarrow>
     (\<forall>p. DPad p \<in> set ds \<longrightarrow> pad_account p \<noteq> a) \<and>
     (\<forall>b. DBalance b \<in> set ds \<longrightarrow> bal_account b \<noteq> a \<or> amt_currency (bal_amount b) \<noteq> c)"

definition awaits :: "account \<Rightarrow> currency \<Rightarrow> pad_dir \<Rightarrow> pad_state \<Rightarrow> bool" where
  "awaits a c p s \<longleftrightarrow>
     (\<exists>pp. map_of (ps_pending s) a = Some pp \<and> pp_dir pp = p \<and> c \<notin> set (pp_padded pp))"

text \<open>No posting of the account in the currency carries a cost.\<close>

definition cash_only :: "bucket_key \<Rightarrow> directive list \<Rightarrow> bool" where
  "cash_only k ds \<longleftrightarrow> (\<forall>t p a. DTransaction t \<in> set ds \<and> p \<in> set (txn_postings t) \<and> p_cost p \<noteq> None \<and>
     p_amount p = Some a \<longrightarrow> (p_account p, amt_currency a) \<noteq> k)"

lemma bucket_add_other: "k' \<noteq> k \<Longrightarrow> map_of (snd (bucket_add A bs k n)) k' = map_of bs k'"
proof (induction bs)
  case (Cons x bs)
  then show ?case by (cases x; cases "bucket_add A bs k n") (auto split: sum.splits)
qed (auto split: sum.splits)

lemma pad_postings_frame:
  "pad_postings A t ps s = (ds, s') \<Longrightarrow> ps_pending s' = ps_pending s"
proof (induction ps arbitrary: s ds)
  case (Cons p ps)
  then show ?case by (force simp: Let_def split: option.splits prod.splits)
qed simp

lemma pad_postings_costs:
  "pad_postings A t ps s = (ds, s') \<Longrightarrow>
     \<forall>p\<in>set ps. p_cost p \<noteq> None \<longrightarrow> (\<forall>a. p_amount p = Some a \<longrightarrow> (p_account p, amt_currency a) \<noteq> k) \<Longrightarrow>
     map_of (ps_costs s') k = map_of (ps_costs s) k"
proof (induction ps arbitrary: s ds)
  case (Cons p ps)
  show ?case
  proof (cases "p_amount p")
    case None
    with Cons show ?thesis by (auto split: prod.splits)
  next
    case (Some a)
    let ?s = "s\<lparr>ps_balances := add_to_balance A (ps_balances s) (p_account p) a\<rparr>"
    let ?s' = "if p_cost p = None then ?s
      else ?s\<lparr>ps_costs := add_to_balance A (ps_costs ?s) (p_account p) a,
              ps_spans := (if ps_spans ?s (p_account p, amt_currency a) = None
                 then (ps_spans ?s)((p_account p, amt_currency a) \<mapsto> posting_span t p) else ps_spans ?s)\<rparr>"
    have "map_of (ps_costs s') k = map_of (ps_costs ?s') k"
      using Cons.prems Some by (intro Cons.IH [of ?s' ds]) (auto simp: Let_def)
    also have "\<dots> = map_of (ps_costs s) k"
      using Cons.prems(2) Some by (auto simp: add_to_balance_def bucket_add_other)
    finally show ?thesis .
  qed
qed simp

context apd_total
begin

lemma resolve_frame:
  assumes "resolve_balance A b s = (ds, s')"
  shows "ps_costs s' = ps_costs s"
  using assms
  by (cases rule: resolve_balance_cases) (auto simp: put_pending_def padded_state_def)

lemma awaits_step:
  assumes "pad_step A i d s = (ds, s')" and "awaits a c p s" and "undisturbed a c [d]"
  shows "awaits a c p s'"
proof (cases d)
  case (DBalance b)
  with assms(1) have r: "resolve_balance A b s = (ds, s')" by (simp add: pad_step_def)
  from assms(2) obtain pp where pp: "map_of (ps_pending s) a = Some pp" "pp_dir pp = p" "c \<notin> set (pp_padded pp)"
    by (auto simp: awaits_def)
  from r show ?thesis
  proof (cases rule: resolve_balance_cases)
    case idle
    with assms(2) show ?thesis by simp
  next
    case (marked qq qq')
    with pp DBalance assms(3) show ?thesis
      by (auto simp: awaits_def put_pending_def update_conv' undisturbed_def)
  next
    case (padded qq delta neg)
    with pp DBalance assms(3) show ?thesis
      by (auto simp: awaits_def update_conv' undisturbed_def mark_padded_def)
  qed
next
  case (DTransaction t)
  with assms pad_postings_frame [of A t "txn_postings t" s ds s'] show ?thesis
    by (auto simp: pad_step_def pad_apply_transaction_def awaits_def)
qed (use assms in \<open>auto simp: pad_step_def record_pad_def awaits_def update_conv' undisturbed_def\<close>)

lemma awaits_loop:
  "pad_loop A i ds s = (xs, s') \<Longrightarrow> awaits a c p s \<Longrightarrow> undisturbed a c ds \<Longrightarrow> awaits a c p s'"
proof (induction ds arbitrary: i s xs)
  case (Cons d ds)
  then obtain d1 s1 d2 where "pad_step A i d s = (d1, s1)" "pad_loop A (Suc i) ds s1 = (d2, s')"
    by (auto split: prod.splits)
  moreover have "undisturbed a c [d]" "undisturbed a c ds"
    using Cons.prems(3) by (auto simp: undisturbed_def)
  ultimately show ?case using Cons.IH awaits_step Cons.prems(2) by blast
qed simp

lemma costs_step:
  assumes "pad_step A i d s = (ds, s')" and "cash_only k [d]"
  shows "map_of (ps_costs s') k = map_of (ps_costs s) k"
proof (cases d)
  case (DTransaction t)
  with assms pad_postings_costs [of A t "txn_postings t" s ds s' k] show ?thesis
    by (auto simp: pad_step_def pad_apply_transaction_def cash_only_def)
qed (use assms resolve_frame in \<open>auto simp: pad_step_def record_pad_def\<close>)

lemma costs_loop:
  "pad_loop A i ds s = (xs, s') \<Longrightarrow> cash_only k ds \<Longrightarrow> map_of (ps_costs s') k = map_of (ps_costs s) k"
proof (induction ds arbitrary: i s xs)
  case (Cons d ds)
  then obtain d1 s1 d2 where "pad_step A i d s = (d1, s1)" "pad_loop A (Suc i) ds s1 = (d2, s')"
    by (auto split: prod.splits)
  moreover have "cash_only k [d]" "cash_only k ds"
    using Cons.prems(2) by (auto simp: cash_only_def)
  ultimately show ?case using Cons.IH costs_step by metis
qed simp

end

section \<open>Accounts without children\<close>

text \<open>No posting and no pad names an account below the given one.\<close>

definition childless :: "account \<Rightarrow> directive list \<Rightarrow> bool" where
  "childless a ds \<longleftrightarrow>
     (\<forall>t p. DTransaction t \<in> set ds \<and> p \<in> set (txn_postings t) \<and> covers a (p_account p) \<longrightarrow> p_account p = a) \<and>
     (\<forall>p. DPad p \<in> set ds \<longrightarrow> (covers a (pad_account p) \<longrightarrow> pad_account p = a) \<and>
        (covers a (pad_source p) \<longrightarrow> pad_source p = a))"

lemma posted_all_cong:
  "(\<And>p c. p \<in> set ps \<Longrightarrow> P (p_account p, c) = Q (p_account p, c)) \<Longrightarrow> posted_all P ps = posted_all Q ps"
  unfolding posted_all_def by (intro arg_cong [where f = sum_list] map_cong) (auto simp: posted_def split: option.splits)

lemma ledger_units_cong:
  "(\<And>t p c. DTransaction t \<in> set ds \<Longrightarrow> p \<in> set (txn_postings t) \<Longrightarrow> P (p_account p, c) = Q (p_account p, c)) \<Longrightarrow>
     ledger_units P ds = ledger_units Q ds"
proof (induction ds)
  case (Cons d ds)
  from Cons.prems have "ledger_units P ds = ledger_units Q ds" by (intro Cons.IH) (meson list.set_intros(2))
  moreover have "posted_all P (txn_postings t) = posted_all Q (txn_postings t)" if "d = DTransaction t" for t
    using Cons.prems [of t] that by (intro posted_all_cong) simp
  ultimately show ?case by (cases d) simp_all
qed simp

lemma insert_synth_transactions:
  "DTransaction t \<in> set (insert_synth synth i ds) \<Longrightarrow>
     DTransaction t \<in> set ds \<or> (\<exists>j<length ds. (i + j, t) \<in> set synth)"
proof (induction ds arbitrary: i)
  case (Cons d ds)
  from Cons.prems consider "DTransaction t = d" | "(i, t) \<in> set synth" | "DTransaction t \<in> set (insert_synth synth (Suc i) ds)"
    by (auto simp: synth_at_def)
  then show ?case
  proof cases
    case 3
    from Cons.IH [OF this] show ?thesis by (auto intro: exI [of _ "Suc _"])
  qed force+
qed simp

text \<open>For an account without children, an assertion about the subtree is one about the account.\<close>

lemma childless_units:
  assumes "childless (bal_account b) ds" and "bal_account b \<noteq> []"
    and synth: "\<forall>x\<in>set synth. fst x < length ds \<longrightarrow> synth_ok A ds x"
  shows "ledger_units (asserted_key b) (insert_synth synth 0 ds) =
    ledger_units (\<lambda>x. x = (bal_account b, amt_currency (bal_amount b))) (insert_synth synth 0 ds)"
proof (rule ledger_units_cong)
  fix t p c
  assume t: "DTransaction t \<in> set (insert_synth synth 0 ds)" and p: "p \<in> set (txn_postings t)"
  have "covers (bal_account b) (p_account p) \<longrightarrow> p_account p = bal_account b"
  proof (cases "DTransaction t \<in> set ds")
    case True
    with assms(1) p show ?thesis by (auto simp: childless_def)
  next
    case False
    with insert_synth_transactions [OF t] obtain j where "j < length ds" "(j, t) \<in> set synth" by auto
    with synth obtain d where d: "DPad d \<in> set ds" "closes_gap A d t"
      by (fastforce simp: synth_ok_def pad_at_def dest: nth_mem)
    then have "p_account p = pad_account d \<or> p_account p = pad_source d"
      using p by (auto simp: closes_gap_def synth_txn_def synth_posting_def Let_def)
    with assms(1) d show ?thesis by (auto simp: childless_def)
  qed
  then show "asserted_key b (p_account p, c) = ((p_account p, c) = (bal_account b, amt_currency (bal_amount b)))"
    using assms(2) by (auto simp: asserted_key_iff covers_iff)
qed

section \<open>Pads without an assertion\<close>

text \<open>An assertion of the account follows, before the account is padded again.\<close>

fun followed :: "account \<Rightarrow> directive list \<Rightarrow> bool" where
  "followed a [] \<longleftrightarrow> False"
| "followed a (DBalance b # ds) \<longleftrightarrow> bal_account b = a \<or> followed a ds"
| "followed a (DPad p # ds) \<longleftrightarrow> pad_account p \<noteq> a \<and> followed a ds"
| "followed a (_ # ds) \<longleftrightarrow> followed a ds"

fun pads_followed :: "directive list \<Rightarrow> bool" where
  "pads_followed [] \<longleftrightarrow> True"
| "pads_followed (DPad p # ds) \<longleftrightarrow> followed (pad_account p) ds \<and> pads_followed ds"
| "pads_followed (_ # ds) \<longleftrightarrow> pads_followed ds"

definition unresolved :: "diagnostic list \<Rightarrow> bool" where
  "unresolved xs \<longleftrightarrow> (\<exists>x\<in>set xs. diag_code x = ''pad-unresolved'')"

lemma unresolved_append [simp]:
  "unresolved [] \<longleftrightarrow> False" "unresolved (xs @ ys) \<longleftrightarrow> unresolved xs \<or> unresolved ys"
  by (auto simp: unresolved_def)

definition waiting :: "account \<Rightarrow> pad_state \<Rightarrow> bool" where
  "waiting a s \<longleftrightarrow> (\<exists>pp. map_of (ps_pending s) a = Some pp \<and> \<not> pp_used pp)"

lemma unresolved_pads_iff: "unresolved (unresolved_pads (ps_pending s)) \<longleftrightarrow> (\<exists>a. waiting a s)"
proof
  assume "unresolved (unresolved_pads (ps_pending s))"
  then have "\<exists>a. (case map_of (ps_pending s) a of Some pp \<Rightarrow> if pp_used pp then []
      else [unresolved_pad (pp_dir pp) '' was not followed by a matching balance assertion''] | None \<Rightarrow> []) \<noteq> []"
    unfolding unresolved_def unresolved_pads_def by (metis (no_types, lifting) concat_eq_Nil_conv imageE list.set_map
        empty_iff empty_set)
  then show "\<exists>a. waiting a s" by (auto simp: waiting_def split: option.splits if_splits)
next
  assume "\<exists>a. waiting a s"
  then obtain a pp where pp: "map_of (ps_pending s) a = Some pp" "\<not> pp_used pp" by (auto simp: waiting_def)
  then have "a \<in> fst ` set (ps_pending s)" by (metis domI dom_map_of_conv_image_fst)
  with pp have "unresolved_pad (pp_dir pp) '' was not followed by a matching balance assertion''
      \<in> set (unresolved_pads (ps_pending s))"
    unfolding unresolved_pads_def by (force split: option.splits)
  then show "unresolved (unresolved_pads (ps_pending s))"
    unfolding unresolved_def by (intro bexI) (simp_all add: unresolved_pad_def)
qed

lemma pad_postings_resolved: "pad_postings A t ps s = (ds, s') \<Longrightarrow> \<not> unresolved ds"
proof (induction ps arbitrary: s ds)
  case (Cons p ps)
  then show ?case
    by (auto simp: Let_def unresolved_def unresolved_diag_def split: option.splits prod.splits)
qed simp

lemma waiting_put: "waiting a (put_pending s c pp) \<longleftrightarrow> (if a = c then \<not> pp_used pp else waiting a s)"
  by (auto simp: waiting_def put_pending_def update_conv')

lemma waiting_synth [simp]:
  "waiting a (s\<lparr>ps_balances := bs, ps_synth := xs\<rparr>) \<longleftrightarrow> waiting a s"
  by (simp add: waiting_def)

lemma resolve_waiting:
  assumes "resolve_balance A b s = (ds, s')"
  shows "\<not> unresolved ds" and "waiting a s' \<longleftrightarrow> bal_account b \<noteq> a \<and> waiting a s"
proof -
  have "\<not> unresolved ds \<and> (waiting a s' \<longleftrightarrow> bal_account b \<noteq> a \<and> waiting a s)"
  proof (cases "map_of (ps_pending s) (bal_account b)")
    case None
    with assms show ?thesis by (auto simp: resolve_balance_def waiting_def)
  next
    case (Some pp)
    with assms show ?thesis
      by (auto simp: resolve_balance_def Let_def unresolved_def waiting_put split: if_splits sum.splits)
  qed
  then show "\<not> unresolved ds" "waiting a s' \<longleftrightarrow> bal_account b \<noteq> a \<and> waiting a s" by auto
qed

lemma record_waiting:
  assumes "record_pad p i s = (ds, s')"
  shows "unresolved ds \<longleftrightarrow> waiting (pad_account p) s"
    and "waiting a s' \<longleftrightarrow> pad_account p = a \<or> waiting a s"
  using assms
  by (auto simp: record_pad_def unresolved_def unresolved_pad_def waiting_def update_conv' split: option.splits)

lemma transaction_waiting:
  assumes "pad_apply_transaction A t s = (ds, s')"
  shows "\<not> unresolved ds" and "waiting a s' \<longleftrightarrow> waiting a s"
  using assms pad_postings_resolved pad_postings_frame
  by (auto simp: pad_apply_transaction_def waiting_def)

text \<open>The loop and the report at the end, together.\<close>

lemma pad_loop_unresolved:
  "pad_loop A i ds s = (xs, s') \<Longrightarrow>
     unresolved (xs @ unresolved_pads (ps_pending s')) \<longleftrightarrow>
       (\<exists>a. waiting a s \<and> \<not> followed a ds) \<or> \<not> pads_followed ds"
proof (induction ds arbitrary: i s xs)
  case Nil
  then show ?case by (simp add: unresolved_pads_iff)
next
  case (Cons d ds)
  then obtain d1 s1 d2 where step: "pad_step A i d s = (d1, s1)" and rest: "pad_loop A (Suc i) ds s1 = (d2, s')"
    and xs: "xs = d1 @ d2"
    by (auto split: prod.splits)
  note IH = Cons.IH [OF rest]
  show ?case
  proof (cases d)
    case (DTransaction t)
    with step transaction_waiting IH xs show ?thesis by (simp add: pad_step_def)
  next
    case (DPad p)
    with step record_waiting [of p i s d1 s1] IH xs show ?thesis by (simp add: pad_step_def) metis
  next
    case (DBalance b)
    with step resolve_waiting [of A b s d1 s1] IH xs show ?thesis by (simp add: pad_step_def) metis
  qed (use step IH xs in \<open>simp_all add: pad_step_def\<close>)
qed

end
