(* ===== verification/Resolution_Facts.thy ===== *)
theory Resolution_Facts
  imports Reducer
begin

text \<open>
  The invariant of the booking pass over one transaction: every descriptor points at a posting,
  an auto posting carries neither cost nor price, every account of a booking has an inventory.
  It rules out the nil dereferences and out-of-range indices the code could run into.
\<close>

section \<open>The invariant of a resolution\<close>

definition described :: "posting_resolution \<Rightarrow> nat set" where
  "described pr = gr_posting ` set (pr_booked_desc pr @ pr_unknown_desc pr)"

definition autos_plain :: "posting list \<Rightarrow> bool" where
  "autos_plain ps \<longleftrightarrow> (\<forall>p\<in>set ps. p_amount p = None \<longrightarrow> p_cost p = None \<and> p_price p = None)"

definition pr_ok :: "posting_resolution \<Rightarrow> bool" where
  "pr_ok pr \<longleftrightarrow> described pr = {..<length (pr_postings pr)} \<and>
     length (pr_booked pr) = length (pr_booked_desc pr) \<and> autos_plain (pr_postings pr)"

definition tr_ok :: "state_trace \<Rightarrow> bool" where
  "tr_ok tr \<longleftrightarrow> distinct (map fst (tr_before tr)) \<and>
     set (map fst (tr_before tr)) \<subseteq> dom (tr_state tr)"

definition bookings_live :: "posting_resolution \<Rightarrow> state_trace \<Rightarrow> bool" where
  "bookings_live pr tr \<longleftrightarrow> bp_account ` set (pr_booked pr) \<subseteq> dom (tr_state tr)"

lemma pr_ok_new [simp]: "pr_ok new_posting_resolution"
  by (simp add: pr_ok_def described_def new_posting_resolution_def autos_plain_def)

lemma tr_ok_new [simp]: "tr_ok (new_state_trace st)"
  by (simp add: tr_ok_def new_state_trace_def)

lemma prepare_for_edit_dom:
  "tr_ok tr \<Longrightarrow> dom (tr_state (prepare_for_edit tr a)) = insert a (dom (tr_state tr))"
  by (auto simp: prepare_for_edit_def tr_ok_def map_of_eq_None_iff split: option.splits)

lemma prepare_for_edit_Some: "tr_ok tr \<Longrightarrow> \<exists>i. tr_state (prepare_for_edit tr a) a = Some i"
  using prepare_for_edit_dom [of tr a] by blast

lemma tr_ok_edit [simp]: "tr_ok tr \<Longrightarrow> tr_ok (prepare_for_edit tr a)"
  by (auto simp: prepare_for_edit_def tr_ok_def map_of_eq_None_iff split: option.splits)

lemma tr_ok_rolled [simp]: "tr_ok (tr\<lparr>tr_rolled := R\<rparr>) = tr_ok tr"
  by (simp add: tr_ok_def)

lemma tr_ok_rollback [simp]: "tr_ok tr \<Longrightarrow> tr_ok (prepare_for_rollback tr a)"
  by (simp add: prepare_for_rollback_def)

lemma prepare_for_rollback_dom:
  "tr_ok tr \<Longrightarrow> dom (tr_state (prepare_for_rollback tr a)) = insert a (dom (tr_state tr))"
  by (simp add: prepare_for_rollback_def prepare_for_edit_dom)

lemma prepare_for_rollback_Some: "tr_ok tr \<Longrightarrow> \<exists>i. tr_state (prepare_for_rollback tr a) a = Some i"
  using prepare_for_rollback_dom [of tr a] by blast

lemma put_inventory_dom [simp]: "dom (tr_state (put_inventory tr a (Some i))) = insert a (dom (tr_state tr))"
  by (simp add: put_inventory_def)

lemma tr_ok_put [simp]: "tr_ok tr \<Longrightarrow> tr_ok (put_inventory tr a (Some i))"
  by (auto simp: put_inventory_def tr_ok_def)

lemma pr_ok_push [simp]:
  "pr_ok pr \<Longrightarrow> p_amount p \<noteq> None \<Longrightarrow> pr_ok (push_booked pr p bp c)"
  by (auto simp: pr_ok_def described_def push_booked_def autos_plain_def lessThan_Suc)

lemma pr_ok_add_unknown [simp]:
  "pr_ok pr \<Longrightarrow> p_amount p = None \<longrightarrow> p_cost p = None \<and> p_price p = None \<Longrightarrow> pr_ok (add_unknown pr p)"
  by (auto simp: pr_ok_def described_def add_unknown_def autos_plain_def lessThan_Suc)

lemma pr_ok_mark [simp]: "pr_ok (mark_for_drop pr c) = pr_ok pr"
  by (simp add: pr_ok_def described_def mark_for_drop_def)

lemma install_lot_amount [simp]: "p_amount (install_lot A p s) = p_amount p"
  by (simp add: install_lot_def)

lemma reduction_child_amount [simp]: "p_amount (reduction_child p amt s) =
   Some \<lparr>amt_number = signed_magnitude (rs_units s) (d_neg (amt_number amt)), amt_currency = amt_currency amt\<rparr>"
  by (simp add: reduction_child_def Let_def split: option.splits)

lemma pr_ok_children [simp]: "pr_ok pr \<Longrightarrow> pr_ok (add_children pr p amt ss)"
  by (induction ss arbitrary: pr) auto

lemma described_lt: "pr_ok pr \<Longrightarrow> ref \<in> set (pr_booked_desc pr) \<or> ref \<in> set (pr_unknown_desc pr) \<Longrightarrow>
    gr_posting ref < length (pr_postings pr)"
  unfolding pr_ok_def described_def by auto

section \<open>Pass 1\<close>

lemma weight_currency_fallback_no_panic [simp]:
  "p_amount p \<noteq> None \<Longrightarrow> \<not> is_panic (weight_currency_fallback A p)"
  using posting_weight_no_panic [of A p] posting_weight_Some [of A p]
  by (cases "posting_weight A p")
    (auto simp: weight_currency_fallback_def is_panic_rbind simp del: posting_weight_no_panic
      split: go_error.splits)

lemma cash_group_key_no_panic [simp]: "p_amount p \<noteq> None \<Longrightarrow> \<not> is_panic (cash_group_key p)"
  by (auto simp: cash_group_key_def panic_simps)

lemma reduction_group_key_no_panic [simp]: "p_amount p \<noteq> None \<Longrightarrow> \<not> is_panic (reduction_group_key A p s)"
  by (simp add: reduction_group_key_def)

lemma record_booked_no_panic:
  assumes "p_amount p \<noteq> None"
  shows "\<not> is_panic (record_booked A pr p l steps)"
  using assms
  by (auto simp: record_booked_def panic_simps add_already_booked_def add_lot_augmentation_def
      add_cash_augmentation_def add_single_lot_reduction_def add_multi_lot_reduction_def
      augment_cost_for_def split: list.splits option.splits cost_holder.splits)

lemma record_booked_ok:
  assumes "record_booked A pr p l steps = Inr pr'" and "pr_ok pr"
  shows "pr_ok pr'"
  using assms
  by (auto simp: record_booked_def add_already_booked_def add_lot_augmentation_def
      add_cash_augmentation_def add_single_lot_reduction_def add_multi_lot_reduction_def
      split: if_splits list.splits option.splits)

lemma add_children_booked:
  "\<exists>bs. pr_booked (add_children pr p amt ss) = pr_booked pr @ bs \<and> (\<forall>b\<in>set bs. bp_account b = p_account p)"
proof (induction ss arbitrary: pr)
  case (Cons s ss)
  show ?case
    using Cons.IH [of "push_booked pr (reduction_child p amt s)
      (new_booked (p_account p) \<lparr>amt_number = signed_magnitude (rs_units s) (d_neg (amt_number amt)),
        amt_currency = amt_currency amt\<rparr> None (Some s) False) (lot_currency (rs_lot s))"]
    by (auto simp: push_booked_def new_booked_def)
qed simp

lemma record_booked_booked:
  assumes "record_booked A pr p l steps = Inr pr'"
  shows "\<exists>bs. pr_booked pr' = pr_booked pr @ bs \<and> (\<forall>b\<in>set bs. bp_account b = p_account p)"
  using assms add_children_booked [of pr p _ steps]
  by (auto simp: record_booked_def add_already_booked_def add_lot_augmentation_def
      add_cash_augmentation_def add_single_lot_reduction_def add_multi_lot_reduction_def
      push_booked_def new_booked_def split: if_splits list.splits option.splits)

definition work_ok :: "booking_work \<Rightarrow> bool" where
  "work_ok w \<longleftrightarrow> pr_ok (bw_pr w) \<and> tr_ok (bw_trace w) \<and> bookings_live (bw_pr w) (bw_trace w)"

lemma bookings_live_edit: "tr_ok tr \<Longrightarrow> bookings_live pr tr \<Longrightarrow> bookings_live pr (prepare_for_edit tr a)"
  by (auto simp: bookings_live_def prepare_for_edit_dom)

lemma bookings_live_rollback:
  "tr_ok tr \<Longrightarrow> bookings_live pr tr \<Longrightarrow> bookings_live pr (prepare_for_rollback tr a)"
  by (auto simp: bookings_live_def prepare_for_rollback_dom)

lemma bookings_live_put: "bookings_live pr tr \<Longrightarrow> bookings_live pr (put_inventory tr a (Some i))"
  by (auto simp: bookings_live_def)

lemma bookings_live_unknown [simp]:
  "bookings_live (add_unknown pr p) tr = bookings_live pr tr"
  "bookings_live (mark_for_drop pr c) tr = bookings_live pr tr"
  by (simp_all add: bookings_live_def add_unknown_def mark_for_drop_def)

lemma work_ok_simps [simp]:
  "work_ok \<lparr>bw_pr = pr, bw_trace = tr\<rparr> \<longleftrightarrow> pr_ok pr \<and> tr_ok tr \<and> bookings_live pr tr"
  "work_ok (w\<lparr>bw_pr := pr\<rparr>) \<longleftrightarrow> pr_ok pr \<and> tr_ok (bw_trace w) \<and> bookings_live pr (bw_trace w)"
  by (simp_all add: work_ok_def)

lemma pass1_step_no_panic: "work_ok w \<Longrightarrow> \<not> is_panic (pass1_step A bk d w p)"
  by (auto simp: pass1_step_def panic_simps Let_def record_booked_no_panic split: prod.splits)

lemma pass1_stepE:
  assumes "pass1_step A bk d w p = Inr (ds, w')"
  obtains (auto) "p_amount p = None" "ds = []" "w' = w\<lparr>bw_pr := add_unknown (bw_pr w) p\<rparr>"
  | (deferred) amt tr f where "p_amount p = Some amt" "tr = prepare_for_edit (bw_trace w) (p_account p)"
      "book_one A (tr_state tr (p_account p)) p (method_of bk (p_account p)) d = Inr (Inl f)"
      "diag_code f = ''augmentation-requires-cost''" "cost_number_missing (p_cost p)" "ds = []"
      "w' = \<lparr>bw_pr = add_unknown (bw_pr w) p, bw_trace = tr\<rparr>"
  | (failed) amt tr f key where "p_amount p = Some amt" "tr = prepare_for_edit (bw_trace w) (p_account p)"
      "book_one A (tr_state tr (p_account p)) p (method_of bk (p_account p)) d = Inr (Inl f)"
      "\<not> (diag_code f = ''augmentation-requires-cost'' \<and> cost_number_missing (p_cost p))"
      "weight_currency_fallback A p = Inr key" "ds = [f]"
      "w' = \<lparr>bw_pr = mark_for_drop (bw_pr w) key, bw_trace = prepare_for_rollback tr (p_account p)\<rparr>"
  | (booked) amt tr l steps iv pr where "p_amount p = Some amt"
      "tr = prepare_for_edit (bw_trace w) (p_account p)"
      "book_one A (tr_state tr (p_account p)) p (method_of bk (p_account p)) d = Inr (Inr (l, steps, iv))"
      "record_booked A (bw_pr w) p l steps = Inr pr" "ds = []"
      "w' = \<lparr>bw_pr = pr, bw_trace = put_inventory tr (p_account p) iv\<rparr>"
proof (cases "p_amount p")
  case None
  with assms show thesis by (intro auto) (simp_all add: pass1_step_def)
next
  case (Some amt)
  define tr where "tr = prepare_for_edit (bw_trace w) (p_account p)"
  from assms Some obtain r where r: "book_one A (tr_state tr (p_account p)) p (method_of bk (p_account p)) d = Inr r"
    by (auto simp: pass1_step_def Let_def tr_def [symmetric])
  note * = assms [unfolded pass1_step_def Let_def, folded tr_def]
  show thesis
  proof (cases r)
    case (Inl f)
    with * Some r show thesis
      using deferred [OF Some tr_def, of f] failed [OF Some tr_def, of f] by (auto split: if_splits)
  next
    case (Inr x)
    with * Some r show thesis
      using booked [OF Some tr_def] by (cases x) auto
  qed
qed

lemma pass1_step_ok:
  assumes "pass1_step A bk d w p = Inr (ds, w')" and "work_ok w"
    and "p_amount p = None \<longrightarrow> p_cost p = None \<and> p_price p = None"
  shows "work_ok w'"
proof -
  have tr: "tr_ok tr \<and> bookings_live (bw_pr w) tr \<and> (\<exists>i. tr_state tr (p_account p) = Some i)"
    if "tr = prepare_for_edit (bw_trace w) (p_account p)" for tr
    using assms(2) that prepare_for_edit_Some by (auto simp: work_ok_def bookings_live_edit)
  from assms(1) show ?thesis
  proof (cases rule: pass1_stepE)
    case auto
    with assms show ?thesis by (simp add: work_ok_def [of w])
  next
    case (deferred amt tr f)
    with assms tr show ?thesis by (simp add: work_ok_def [of w])
  next
    case (failed amt tr f key)
    with assms tr show ?thesis by (simp add: work_ok_def [of w] bookings_live_rollback)
  next
    case (booked amt tr l steps iv pr)
    with tr obtain i' where iv: "iv = Some i'" using book_one_Some by metis
    obtain bs where bs: "pr_booked pr = pr_booked (bw_pr w) @ bs" "\<forall>b\<in>set bs. bp_account b = p_account p"
      using record_booked_booked [OF booked(4)] by blast
    have "bp_account b \<in> insert (p_account p) (dom (tr_state tr))" if "b \<in> set (pr_booked pr)" for b
      using that bs tr [OF booked(2)] unfolding bookings_live_def by (auto simp del: domIff)
    then have "bookings_live pr (put_inventory tr (p_account p) iv)"
      by (auto simp: iv bookings_live_def simp del: domIff)
    with record_booked_ok [OF booked(4)] assms(2) tr [OF booked(2)] show ?thesis
      by (simp add: booked(6) iv work_ok_def [of w])
  qed
qed

lemma pass1_no_panic:
  "work_ok w \<Longrightarrow> autos_plain ps \<Longrightarrow> \<not> is_panic (snd (pass1 A bk d w ps))"
proof (induction ps arbitrary: w)
  case (Cons p ps)
  show ?case
  proof (cases "pass1_step A bk d w p")
    case (Inl e)
    with pass1_step_no_panic [OF Cons.prems(1), of A bk d p] show ?thesis by (simp add: is_panic_def)
  next
    case (Inr x)
    with Cons.prems have "work_ok (snd x)" "autos_plain ps"
      by (auto simp: autos_plain_def intro: pass1_step_ok [of A bk d w p "fst x"])
    with Cons.IH [of "snd x"] Inr show ?thesis by (auto split: prod.splits)
  qed
qed simp

lemma pass1_ok:
  "pass1 A bk d w ps = (ds, Inr w') \<Longrightarrow> work_ok w \<Longrightarrow> autos_plain ps \<Longrightarrow> work_ok w'"
proof (induction ps arbitrary: w ds)
  case (Cons p ps)
  then show ?case
    using pass1_step_ok [of A bk d w p]
    by (auto simp: autos_plain_def split: sum.splits prod.splits)
qed simp

text \<open>A candidate currency belongs to a posting that has an amount.\<close>

definition candidates_ok :: "posting_resolution \<Rightarrow> bool" where
  "candidates_ok pr \<longleftrightarrow> (\<forall>ref\<in>set (pr_unknown_desc pr).
     gr_currency ref \<noteq> [] \<longrightarrow> p_amount (pr_postings pr ! gr_posting ref) \<noteq> None)"

lemma candidates_ok_add_unknown:
  assumes "candidates_ok pr" and "pr_ok pr" and "p_amount p = None \<longrightarrow> p_cost p = None \<and> p_price p = None"
  shows "candidates_ok (add_unknown pr p)"
  using assms described_lt [OF assms(2)]
  by (auto simp: candidates_ok_def add_unknown_def nth_append unknown_candidate_currency_def)

lemma candidates_ok_push:
  assumes "candidates_ok pr" and "pr_ok pr"
  shows "candidates_ok (push_booked pr p bp c)"
  using assms described_lt [OF assms(2)] by (auto simp: candidates_ok_def push_booked_def nth_append)

lemma candidates_ok_children:
  "candidates_ok pr \<Longrightarrow> pr_ok pr \<Longrightarrow> candidates_ok (add_children pr p amt ss)"
  proof (induction ss arbitrary: pr)
  case (Cons s ss)
  then show ?case by (auto intro!: Cons.IH candidates_ok_push)
qed simp

lemma record_booked_candidates:
  assumes "record_booked A pr p l steps = Inr pr'" and "pr_ok pr" and "candidates_ok pr"
  shows "candidates_ok pr'"
  using assms
  by (auto simp: record_booked_def add_already_booked_def add_lot_augmentation_def
      add_cash_augmentation_def add_single_lot_reduction_def add_multi_lot_reduction_def
      intro!: candidates_ok_push candidates_ok_children
      split: if_splits list.splits option.splits)

lemma pass1_step_candidates:
  assumes "pass1_step A bk d w p = Inr (ds, w')" and "work_ok w" and "candidates_ok (bw_pr w)"
    and "p_amount p = None \<longrightarrow> p_cost p = None \<and> p_price p = None"
  shows "candidates_ok (bw_pr w')"
  using assms(1)
proof (cases rule: pass1_stepE)
  case (failed amt tr f key)
  with assms(3) show ?thesis by (simp add: candidates_ok_def mark_for_drop_def)
qed (use assms(2-4) in \<open>auto simp: work_ok_def intro: candidates_ok_add_unknown record_booked_candidates\<close>)

lemma pass1_candidates:
  "pass1 A bk d w ps = (ds, Inr w') \<Longrightarrow> work_ok w \<Longrightarrow> candidates_ok (bw_pr w) \<Longrightarrow> autos_plain ps \<Longrightarrow>
     candidates_ok (bw_pr w')"
proof (induction ps arbitrary: w ds)
  case (Cons p ps)
  then show ?case
    using pass1_step_ok [of A bk d w p] pass1_step_candidates [of A bk d w p]
    by (auto simp: autos_plain_def split: sum.splits prod.splits)
qed simp

section \<open>Pass 2\<close>

definition unknowns :: "posting_resolution \<Rightarrow> nat set" where
  "unknowns pr = gr_posting ` set (pr_unknown_desc pr)"

text \<open>What Pass 2 keeps: the unknowns, and the amounts that are there.\<close>

definition pr_le :: "posting_resolution \<Rightarrow> posting_resolution \<Rightarrow> bool" where
  "pr_le pr pr' \<longleftrightarrow> length (pr_postings pr') = length (pr_postings pr) \<and> unknowns pr' = unknowns pr \<and>
     (\<forall>k<length (pr_postings pr). p_amount (pr_postings pr ! k) \<noteq> None \<longrightarrow> p_amount (pr_postings pr' ! k) \<noteq> None)"

lemma pr_le_refl [simp]: "pr_le pr pr"
  by (simp add: pr_le_def)

lemma pr_le_trans: "pr_le a b \<Longrightarrow> pr_le b c \<Longrightarrow> pr_le a c"
  by (auto simp: pr_le_def)

lemma find_index_Some:
  "find_index P xs = Some j \<Longrightarrow> j < length xs \<and> P (xs ! j)"
  by (induction xs arbitrary: j) (auto split: if_splits)

lemma find_index_None: "find_index P xs = None \<longleftrightarrow> (\<forall>x\<in>set xs. \<not> P x)"
  by (induction xs) auto

lemma unknown_desc_index_None: "unknown_desc_index pr k = None \<longleftrightarrow> k \<notin> unknowns pr"
  by (auto simp: unknown_desc_index_def find_index_None unknowns_def)

lemma unknown_desc_index_Some:
  "unknown_desc_index pr k = Some j \<Longrightarrow> j < length (pr_unknown_desc pr) \<and> gr_posting (pr_unknown_desc pr ! j) = k"
  by (auto simp: unknown_desc_index_def dest: find_index_Some)

lemma set_unknown_currency_posting:
  "j < length (pr_unknown_desc pr) \<Longrightarrow>
     map gr_posting (pr_unknown_desc (set_unknown_currency pr j c)) = map gr_posting (pr_unknown_desc pr)"
  by (simp add: set_unknown_currency_def map_update list_update_same_conv)

lemma unknowns_set [simp]:
  "j < length (pr_unknown_desc pr) \<Longrightarrow> unknowns (set_unknown_currency pr j c) = unknowns pr"
  using arg_cong [OF set_unknown_currency_posting, of j pr set c] by (simp add: unknowns_def)

lemma set_unknown_sels [simp]:
  "pr_postings (set_unknown_currency pr j c) = pr_postings pr"
  "pr_booked (set_unknown_currency pr j c) = pr_booked pr"
  "pr_booked_desc (set_unknown_currency pr j c) = pr_booked_desc pr"
  "pr_dropped (set_unknown_currency pr j c) = pr_dropped pr"
  by (simp_all add: set_unknown_currency_def)

lemma described_unknowns: "described pr = gr_posting ` set (pr_booked_desc pr) \<union> unknowns pr"
  by (auto simp: described_def unknowns_def)

lemma autos_plain_update:
  "autos_plain ps \<Longrightarrow> p_amount p \<noteq> None \<Longrightarrow> autos_plain (ps[k := p])"
  by (auto simp: autos_plain_def dest!: set_update_subset_insert [THEN subsetD])

lemma promote_ok:
  assumes "promote pr k p bp c = Inr pr'" and "pr_ok pr" and "p_amount p \<noteq> None"
  shows "pr_ok pr'" and "pr_le pr pr'" and "pr_booked pr' = pr_booked pr @ [bp]"
proof -
  from assms(1) obtain j where j: "unknown_desc_index pr k = Some j"
    by (auto simp: promote_def split: option.splits)
  note jl = unknown_desc_index_Some [OF j]
  then have "k \<in> unknowns pr" by (auto simp: unknowns_def)
  then have "k < length (pr_postings pr)" using assms(2) by (auto simp: pr_ok_def described_unknowns)
  let ?pr = "pr\<lparr>pr_postings := (pr_postings pr)[k := p], pr_booked := pr_booked pr @ [bp],
    pr_booked_desc := pr_booked_desc pr @ [\<lparr>gr_currency = c, gr_posting = gr_posting (pr_unknown_desc pr ! j)\<rparr>]\<rparr>"
  have pr': "pr' = set_unknown_currency ?pr j c"
    using assms(1) j by (simp add: promote_def)
  have u: "unknowns pr' = unknowns pr" using jl unfolding pr' by (subst unknowns_set) (auto simp: unknowns_def)
  have "p_amount ((pr_postings pr)[k := p] ! i) \<noteq> None"
    if "i < length (pr_postings pr)" "p_amount (pr_postings pr ! i) \<noteq> None" for i
    using that assms(3) by (cases "k = i") simp_all
  then show "pr_le pr pr'"
    using u by (simp add: pr_le_def pr')
  show "pr_ok pr'"
    using assms(2,3) u jl \<open>k \<in> unknowns pr\<close>
    by (auto simp: pr_ok_def described_unknowns pr' autos_plain_update)
  show "pr_booked pr' = pr_booked pr @ [bp]" by (simp add: pr')
qed

lemma promote_no_panic: "k \<in> unknowns pr \<Longrightarrow> \<not> is_panic (promote pr k p bp c)"
  using unknown_desc_index_None [of pr k] by (auto simp: promote_def split: option.splits)

lemma record_unknown_failed_ok:
  assumes "record_unknown_failed pr k c = Inr pr'" and "pr_ok pr"
  shows "pr_ok pr'" and "pr_le pr pr'" and "pr_booked pr' = pr_booked pr"
proof -
  from assms(1) obtain j where j: "unknown_desc_index pr k = Some j"
    and pr': "pr' = set_unknown_currency (mark_for_drop pr c) j c"
    by (auto simp: record_unknown_failed_def split: option.splits)
  note jl = unknown_desc_index_Some [OF j]
  have u: "unknowns pr' = unknowns pr"
    using jl unfolding pr' by (subst unknowns_set) (auto simp: unknowns_def mark_for_drop_def)
  show "pr_ok pr'" and "pr_le pr pr'" and "pr_booked pr' = pr_booked pr"
    using assms(2) u by (auto simp: pr_ok_def pr_le_def described_unknowns pr' mark_for_drop_def)
qed

lemma record_unknown_failed_no_panic: "k \<in> unknowns pr \<Longrightarrow> \<not> is_panic (record_unknown_failed pr k c)"
  using unknown_desc_index_None [of pr k] by (auto simp: record_unknown_failed_def split: option.splits)

lemma posting_at_ok: "posting_at ps k = Inr p \<longleftrightarrow> k < length ps \<and> p = ps ! k"
  by (auto simp: posting_at_def)

lemma posting_at_no_panic: "k < length ps \<Longrightarrow> \<not> is_panic (posting_at ps k)"
  by (simp add: posting_at_def)

lemma unknowns_lt: "pr_ok pr \<Longrightarrow> k \<in> unknowns pr \<Longrightarrow> k < length (pr_postings pr)"
  by (auto simp: pr_ok_def described_unknowns)

text \<open>The closure \<open>book\<close>: its candidate is the posting itself with an amount or a cost.\<close>

lemma book_one_lot_cost:
  "book_one A (Some i) p m d = Inr (Inr (l, steps, iv')) \<Longrightarrow> l \<noteq> None \<Longrightarrow> p_cost p \<noteq> None"
  by (erule book_one_cases) (auto dest: resolve_lot_None_iff)

lemma book_one_amount: "book_one A iv p m d = Inr r \<Longrightarrow> p_amount p \<noteq> None"
  by (auto simp: book_one_def split: if_splits)

lemma promote_booked_ok:
  assumes "promote_booked A pr k orig cand l steps c = Inr pr'"
  obtains p bp where "promote pr k p bp c = Inr pr'" and "p_amount p \<noteq> None"
    and "bp_account bp = p_account orig" and "p_account p = p_account orig"
proof (cases l)
  case None
  consider "steps = []" | s where "steps = [s]" | s t us where "steps = s # t # us"
    by (metis list.exhaust)
  then show thesis
    by cases (use assms None that in \<open>auto simp: promote_booked_def promote_cash_augmentation_def
      promote_single_lot_reduction_def new_booked_def install_lot_def\<close>)
next
  case (Some x)
  with assms that show thesis
    by (auto simp: promote_booked_def promote_lot_augmentation_def new_booked_def)
qed

lemma book_unknown_no_panic:
  assumes "work_ok w" and "k \<in> unknowns (bw_pr w)" and "orig = pr_postings (bw_pr w) ! k"
    and "p_amount cand \<noteq> None" and "p_cost cand \<noteq> None \<longrightarrow> p_amount orig \<noteq> None"
  shows "\<not> is_panic (book_unknown A bk d k cand c w)"
proof -
  define tr where "tr = prepare_for_edit (bw_trace w) (p_account orig)"
  obtain i where i: "tr_state tr (p_account orig) = Some i"
    using assms(1) prepare_for_edit_Some unfolding tr_def work_ok_def by blast
  have k: "posting_at (pr_postings (bw_pr w)) k = Inr orig"
    using assms(1-3) by (simp add: posting_at_ok unknowns_lt work_ok_def)
  note * = promote_no_panic [OF assms(2)] record_unknown_failed_no_panic [OF assms(2)]
  have "\<not> is_panic (promote_lot_augmentation (bw_pr w) k (orig\<lparr>p_cost := p_cost cand\<rparr>) (Some l) c)"
    if "book_one A (Some i) cand m d = Inr (Inr (Some l, steps, iv))" for l m steps iv
    using book_one_lot_cost [OF that] assms(5) *
    by (auto simp: promote_lot_augmentation_def panic_simps augment_cost_for_def
        split: option.splits cost_holder.splits)
  then show ?thesis
    using assms(4) *
    by (auto simp: book_unknown_def promote_booked_def panic_simps Let_def k tr_def [symmetric] i
        promote_cash_augmentation_def promote_single_lot_reduction_def split: list.splits)
qed

lemma book_unknown_ok:
  assumes "book_unknown A bk d k cand c w = Inr (f, w')" and "work_ok w"
  shows "work_ok w'" and "pr_le (bw_pr w) (bw_pr w')"
proof -
  define orig where "orig = pr_postings (bw_pr w) ! k"
  define tr where "tr = prepare_for_edit (bw_trace w) (p_account orig)"
  have tr: "tr_ok tr" "bookings_live (bw_pr w) tr" and pr: "pr_ok (bw_pr w)"
    using assms(2) by (auto simp: tr_def work_ok_def bookings_live_edit)
  obtain i where i: "tr_state tr (p_account orig) = Some i"
    using assms(2) prepare_for_edit_Some unfolding tr_def work_ok_def by blast
  from assms(1) obtain r where k: "posting_at (pr_postings (bw_pr w)) k = Inr orig"
    and r: "book_one A (Some i) cand (method_of bk (p_account orig)) d = Inr r"
    by (auto simp: book_unknown_def posting_at_ok Let_def orig_def [symmetric] tr_def [symmetric] i)
  note * = assms(1) [unfolded book_unknown_def Let_def k rbind_Inr, folded tr_def, unfolded i r rbind_Inr]
  have "work_ok w' \<and> pr_le (bw_pr w) (bw_pr w')"
  proof (cases r)
    case (Inl fd)
    with * obtain pr' where "record_unknown_failed (bw_pr w) k c = Inr pr'"
      and w': "w' = \<lparr>bw_pr = pr', bw_trace = prepare_for_rollback tr (p_account orig)\<rparr>" by auto
    from record_unknown_failed_ok [OF this(1) pr] tr show ?thesis
      using bookings_live_rollback [OF tr] by (simp add: w' bookings_live_def)
  next
    case (Inr x)
    obtain l steps iv where x: "x = (l, steps, iv)" by (cases x)
    with r Inr obtain i' where iv: "iv = Some i'" using book_one_Some by metis
    from * Inr x obtain pr' where "promote_booked A (bw_pr w) k orig cand l steps c = Inr pr'"
      and w': "w' = \<lparr>bw_pr = pr', bw_trace = put_inventory tr (p_account orig) iv\<rparr>"
      by auto
    then obtain p bp where pr': "promote (bw_pr w) k p bp c = Inr pr'"
      and "p_amount p \<noteq> None" and acct: "bp_account bp = p_account orig"
      by (elim promote_booked_ok)
    note ok = promote_ok [OF pr' pr \<open>p_amount p \<noteq> None\<close>]
    have "bookings_live pr' (put_inventory tr (p_account orig) iv)"
      using tr(2) acct by (auto simp: iv bookings_live_def ok(3))
    with ok tr show ?thesis by (simp add: w' iv)
  qed
  then show "work_ok w'" and "pr_le (bw_pr w) (bw_pr w')" by auto
qed

lemma postings_at_no_panic: "\<forall>k\<in>set ks. k < length ps \<Longrightarrow> \<not> is_panic (postings_at ps ks)"
  by (induction ks) (auto simp: panic_simps posting_at_no_panic)

text \<open>The bidders of a group are unknowns with an amount.\<close>

definition bidders_ok :: "posting_resolution \<Rightarrow> nat list \<Rightarrow> bool" where
  "bidders_ok pr ks \<longleftrightarrow> set ks \<subseteq> unknowns pr \<and> (\<forall>k\<in>set ks. p_amount (pr_postings pr ! k) \<noteq> None)"

lemma bidders_ok_mono:
  assumes "bidders_ok pr ks" and "pr_ok pr" and "pr_le pr pr'"
  shows "bidders_ok pr' ks"
proof -
  have "p_amount (pr_postings pr' ! k) \<noteq> None" if "k \<in> set ks" for k
    using assms that unknowns_lt [OF assms(2), of k] by (metis bidders_ok_def pr_le_def subsetD)
  with assms show ?thesis by (simp add: bidders_ok_def pr_le_def)
qed

text \<open>Whatever one booking of an unknown keeps, Pass 2 keeps.\<close>

lemma resolve_residual_groups_preserves:
  assumes step: "\<And>k cand c w fd w'. book_unknown A bk d k cand c w = Inr (fd, w') \<Longrightarrow> P w \<Longrightarrow> P w'"
  shows "resolve_residual_groups A bk d gs w = Inr (free, fails, w') \<Longrightarrow> P w \<Longrightarrow>
     P w' \<and> uf_posting ` set fails \<subseteq> (\<Union>g\<in>set gs. set (rg_unknown g))"
proof (induction gs arbitrary: w free fails w')
  case (Cons g gs)
  note IH = Cons.IH [OF _ Cons.prems(2)]
  consider "rg_unknown g = []" | k where "rg_unknown g = [k]" | k1 k2 ks where "rg_unknown g = k1 # k2 # ks"
    by (metis list.exhaust)
  then show ?case
  proof cases
    case 1
    with Cons.prems(1) obtain f1 fl1 where "resolve_residual_groups A bk d gs w = Inr (f1, fl1, w')" "fails = fl1"
      by (auto simp: Let_def)
    with IH show ?thesis by auto
  next
    case 2
    with Cons.prems(1) obtain p amt where p: "posting_at (pr_postings (bw_pr w)) k = Inr p" "p_amount p = Some amt"
      by (auto simp: Let_def)
    let ?b = "book_unknown A bk d k
      (p\<lparr>p_cost := Some (HSpec (synthesize_cost_spec (p_cost p) (rg_residual g) d))\<rparr>)
      (amt_currency (rg_residual g)) w"
    show ?thesis
    proof (cases "apd_sign A (amt_number amt) = 0")
      case True
      with Cons.prems(1) 2 p obtain f1 fl1 uf where
        "resolve_residual_groups A bk d gs w = Inr (f1, fl1, w')" "fails = uf # fl1" "uf_posting uf = k"
        by (auto simp: Let_def)
      with IH 2 show ?thesis by auto
    next
      case False
      with Cons.prems(1) 2 p obtain fd w1 where b: "?b = Inr (fd, w1)" by (auto simp: Let_def)
      from Cons.prems(1) 2 p False b obtain f1 fl1 where
        r: "resolve_residual_groups A bk d gs w1 = Inr (f1, fl1, w')"
        and "uf_posting ` set fails \<subseteq> insert k (uf_posting ` set fl1)"
        by (auto simp: Let_def split: option.splits)
      with Cons.IH [OF r step [OF b Cons.prems(2)]] 2 show ?thesis by auto
    qed
  next
    case 3
    with Cons.prems(1) obtain f1 fl1 ps where r: "resolve_residual_groups A bk d gs w = Inr (f1, fl1, w')"
      and f: "fails = map (\<lambda>(k, p). \<lparr>uf_posting = k, uf_currency = amt_currency (rg_residual g),
        uf_diag = ambiguous_unknown_diag p\<rparr>) (zip (k1 # k2 # ks) ps) @ fl1"
      by (auto simp: Let_def)
    have "uf_posting ` set fails \<subseteq> set (k1 # k2 # ks) \<union> uf_posting ` set fl1"
      unfolding f by (auto dest: set_zip_leftD)
    with IH [OF r] 3 show ?thesis by auto
  qed
qed simp

lemma resolve_residual_groups_ok:
  assumes "resolve_residual_groups A bk d gs w = Inr (free, fails, w')" and "work_ok w"
  shows "work_ok w' \<and> pr_le (bw_pr w) (bw_pr w') \<and>
     uf_posting ` set fails \<subseteq> (\<Union>g\<in>set gs. set (rg_unknown g))"
proof -
  have "work_ok v' \<and> pr_le (bw_pr w) (bw_pr v')"
    if "book_unknown A bk d k cand c v = Inr (fd, v')" "work_ok v \<and> pr_le (bw_pr w) (bw_pr v)"
    for k cand c v fd v'
    using that book_unknown_ok [OF that(1)] by (auto intro: pr_le_trans)
  from resolve_residual_groups_preserves [of A bk d "\<lambda>v. work_ok v \<and> pr_le (bw_pr w) (bw_pr v)", OF this assms(1)]
  show ?thesis using assms(2) by simp
qed

lemma resolve_residual_groups_no_panic:
  "work_ok w \<Longrightarrow> \<forall>g\<in>set gs. bidders_ok (bw_pr w) (rg_unknown g) \<Longrightarrow>
     \<not> is_panic (resolve_residual_groups A bk d gs w)"
proof (induction gs arbitrary: w)
  case (Cons g gs)
  have IH: "\<not> is_panic (resolve_residual_groups A bk d gs w)" using Cons by simp
  from Cons.prems have b: "bidders_ok (bw_pr w) (rg_unknown g)" and pr: "pr_ok (bw_pr w)"
    by (auto simp: work_ok_def)
  then have lt: "\<forall>k\<in>set (rg_unknown g). k < length (pr_postings (bw_pr w))"
    by (auto simp: bidders_ok_def intro: unknowns_lt)
  have IH': "\<not> is_panic (resolve_residual_groups A bk d gs w1)"
    if "book_unknown A bk d k cand c w = Inr (fd, w1)" for k cand c fd w1
    using book_unknown_ok [OF that Cons.prems(1)] Cons.prems(2) pr
    by (intro Cons.IH) (auto intro: bidders_ok_mono)
  have book: "\<not> is_panic (book_unknown A bk d k ((pr_postings (bw_pr w) ! k)\<lparr>p_cost := h\<rparr>) c w)"
    if "rg_unknown g = [k]" for k h c
    using that b Cons.prems(1) by (intro book_unknown_no_panic) (auto simp: bidders_ok_def)
  show ?case
    using IH IH' book b lt postings_at_no_panic [OF lt]
    by (auto simp: Let_def panic_simps posting_at_ok posting_at_no_panic bidders_ok_def split: list.splits)
qed simp

end
