(* ===== verification/Visit_Safety.thy ===== *)
theory Visit_Safety
  imports Resolution_Facts
begin

text \<open>
  \<open>visitTxn\<close> and \<open>Walk\<close> never panic, whatever the arithmetic answers: the residual groups only
  name unknowns that have an amount, and every inverse booking finds its inventory.
\<close>

section \<open>The residual groups\<close>

lemma accumulate_no_panic [simp]: "\<not> is_panic (accumulate A ctx acc w)"
  by (induction acc) (auto simp: panic_simps)

lemma sum_weights_no_panic:
  "\<forall>ref\<in>set refs. gr_posting ref < length ps \<Longrightarrow> \<not> is_panic (sum_weights A ps refs acc)"
  by (induction refs arbitrary: acc) (auto simp: panic_simps posting_at_no_panic)

definition bids_in :: "nat set \<Rightarrow> (currency \<times> nat list) list \<Rightarrow> bool" where
  "bids_in K bids \<longleftrightarrow> (\<forall>ks\<in>set (map snd bids). ks \<noteq> [] \<and> set ks \<subseteq> K)"

lemma bids_in_simps [simp]:
  "bids_in K []"
  "bids_in K (b # bids) \<longleftrightarrow> snd b \<noteq> [] \<and> set (snd b) \<subseteq> K \<and> bids_in K bids"
  by (auto simp: bids_in_def)

lemma add_bid_in: "bids_in K bids \<Longrightarrow> k \<in> K \<Longrightarrow> bids_in K (add_bid bids d k)"
  by (induction bids) auto

lemma bids_in_mono: "bids_in K bids \<Longrightarrow> K \<subseteq> L \<Longrightarrow> bids_in L bids"
  by (induction bids) auto

lemma collect_bids_spec:
  assumes "collect_bids dropped refs free bids = (free', bids')" and "bids_in K bids"
    and "\<forall>ref\<in>set refs. gr_currency ref \<noteq> [] \<longrightarrow> gr_posting ref \<in> K"
  shows "bids_in K bids' \<and> set free' \<subseteq> set free \<union> gr_posting ` set refs"
  using assms
  by (induction dropped refs free bids rule: collect_bids.induct)
    (auto simp: add_bid_in split: if_split_asm)

lemma negate_residual_no_panic [simp]: "\<not> is_panic (negate_residual A sp a s)"
  by (simp add: negate_residual_def Let_def)

lemma bid_groups_no_panic:
  "bids_in {..<length ps} bids \<Longrightarrow> \<not> is_panic (bid_groups A ps acc bids)"
proof (induction bids)
  case (Cons b bids)
  obtain c k ks where "b = (c, k # ks)" using Cons.prems by (cases b; cases "snd b") auto
  with Cons show ?case by (auto simp: panic_simps posting_at_no_panic)
qed simp

lemma bid_groups_unknown: "bid_groups A ps acc bids = Inr gs \<Longrightarrow> map rg_unknown gs = map snd bids"
  by (induction bids arbitrary: gs) auto

lemma sum_groups_no_panic [simp]: "\<not> is_panic (sum_groups A bids acc)"
  by (induction acc) (auto simp: panic_simps)

lemma sum_groups_unknown:
  "sum_groups A bids acc = Inr gs \<Longrightarrow> g \<in> set gs \<Longrightarrow> rg_unknown g = []"
  by (induction acc arbitrary: gs) (auto split: if_splits)

lemma group_for_residual_spec:
  assumes "pr_ok pr" and "candidates_ok pr"
  shows "\<not> is_panic (group_for_residual A pr)"
    and "group_for_residual A pr = Inr (gs, free) \<Longrightarrow>
      (\<forall>g\<in>set gs. bidders_ok pr (rg_unknown g)) \<and> set free \<subseteq> unknowns pr"
proof -
  let ?K = "{k \<in> unknowns pr. p_amount (pr_postings pr ! k) \<noteq> None}"
  obtain fr bids where cb: "collect_bids (pr_dropped pr) (pr_unknown_desc pr) [] [] = (fr, bids)"
    by fastforce
  have spec: "bids_in ?K bids \<and> set fr \<subseteq> unknowns pr"
    using collect_bids_spec [OF cb, of ?K] assms(2)
    by (auto simp: unknowns_def candidates_ok_def)
  then have lt: "bids_in {..<length (pr_postings pr)} bids"
    using unknowns_lt [OF assms(1)] by (auto elim: bids_in_mono)
  show "\<not> is_panic (group_for_residual A pr)"
    using bid_groups_no_panic [OF lt] described_lt [OF assms(1)] cb
    by (auto simp: group_for_residual_def panic_simps intro!: sum_weights_no_panic)
  assume "group_for_residual A pr = Inr (gs, free)"
  then show "(\<forall>g\<in>set gs. bidders_ok pr (rg_unknown g)) \<and> set free \<subseteq> unknowns pr"
  proof (cases "pr_unknown_desc pr = []")
    case False
    then obtain acc gs1 gs2 where g: "bid_groups A (pr_postings pr) acc bids = Inr gs1"
      "sum_groups A bids acc = Inr gs2" "gs = gs1 @ gs2" "free = fr"
      using \<open>group_for_residual A pr = Inr (gs, free)\<close> cb by (auto simp: group_for_residual_def)
    have "bidders_ok pr (rg_unknown g)" if "g \<in> set gs1" for g
    proof -
      have "rg_unknown g \<in> set (map rg_unknown gs1)" using that by simp
      then have "rg_unknown g \<in> snd ` set bids" unfolding bid_groups_unknown [OF g(1)] by simp
      then obtain b where "b \<in> set bids" "rg_unknown g = snd b" by auto
      with spec show ?thesis by (force simp: bidders_ok_def bids_in_def)
    qed
    moreover have "bidders_ok pr (rg_unknown g)" if "g \<in> set gs2" for g
      using sum_groups_unknown [OF g(2) that] by (simp add: bidders_ok_def)
    ultimately show ?thesis using g spec by auto
  qed (auto simp: group_for_residual_def)
qed

section \<open>The failures and the free residuals\<close>

lemma record_failures_ok:
  "record_failures pr fs = Inr pr' \<Longrightarrow> pr_ok pr \<Longrightarrow>
     pr_ok pr' \<and> pr_le pr pr' \<and> pr_booked pr' = pr_booked pr"
proof (induction fs arbitrary: pr)
  case (Cons f fs)
  obtain k c where f: "f = (k, c)" by (cases f)
  with Cons.prems obtain pr1 where "record_unknown_failed pr k c = Inr pr1" "record_failures pr1 fs = Inr pr'"
    by auto
  with Cons.IH [of pr1] record_unknown_failed_ok [of pr k c pr1] Cons.prems show ?case
    by (auto intro: pr_le_trans)
qed simp

lemma record_failures_no_panic:
  "pr_ok pr \<Longrightarrow> fst ` set fs \<subseteq> unknowns pr \<Longrightarrow> \<not> is_panic (record_failures pr fs)"
proof (induction fs arbitrary: pr)
  case (Cons f fs)
  obtain k c where f: "f = (k, c)" by (cases f)
  have "\<not> is_panic (record_failures pr1 fs)" if "record_unknown_failed pr k c = Inr pr1" for pr1
    using record_unknown_failed_ok [OF that Cons.prems(1)] Cons.prems
    by (intro Cons.IH) (auto simp: pr_le_def)
  with Cons.prems f record_unknown_failed_no_panic [of k pr c] show ?case
    by (auto simp: panic_simps)
qed simp

lemma resolve_free_residuals_no_panic:
  assumes "work_ok w" and "set free \<subseteq> unknowns (bw_pr w)"
  shows "\<not> is_panic (resolve_free_residuals A bk d free rs w)"
proof -
  have lt: "\<forall>k\<in>set free. k < length (pr_postings (bw_pr w))"
    using assms unknowns_lt by (fastforce simp: work_ok_def)
  have plain: "p_cost (pr_postings (bw_pr w) ! k) = None"
    if "k \<in> set free" "p_amount (pr_postings (bw_pr w) ! k) = None" for k
    using that lt assms(1) by (auto simp: work_ok_def pr_ok_def autos_plain_def)
  have book: "\<not> is_panic (book_unknown A bk d k cand c w)"
    if "k \<in> set free" "p_amount cand \<noteq> None"
      "p_cost cand \<noteq> None \<longrightarrow> p_amount (pr_postings (bw_pr w) ! k) \<noteq> None" for k cand c
    using that assms by (intro book_unknown_no_panic) auto
  show ?thesis
    using lt plain book postings_at_no_panic [OF lt]
    by (auto simp: resolve_free_residuals_def panic_simps posting_at_ok posting_at_no_panic split: list.splits)
qed

lemma resolve_free_residuals_cases:
  assumes "resolve_free_residuals A bk d free rs w = Inr (ds, w')"
  shows "w' = w \<or> (\<exists>k cand c fd. book_unknown A bk d k cand c w = Inr (fd, w'))"
proof (cases "\<exists>k. free = [k]")
  case False
  then show ?thesis
    using assms by (auto simp: resolve_free_residuals_def split: list.split_asm)
next
  case True
  then obtain k where k: "free = [k]" by blast
  consider "rs = []" | r where "rs = [r]" | r1 r2 rr where "rs = r1 # r2 # rr"
    by (metis list.exhaust)
  then show ?thesis
  proof cases
    case (2 r)
    with assms k obtain p where p: "posting_at (pr_postings (bw_pr w)) k = Inr p"
      by (auto simp: resolve_free_residuals_def)
    with assms k 2 show ?thesis
      by (cases "p_amount p") (auto simp: resolve_free_residuals_def split: if_splits)
  qed (use assms k in \<open>auto simp: resolve_free_residuals_def\<close>)
qed

lemma resolve_free_residuals_ok:
  assumes "resolve_free_residuals A bk d free rs w = Inr (ds, w')" and "work_ok w"
  shows "work_ok w' \<and> pr_le (bw_pr w) (bw_pr w')"
  using resolve_free_residuals_cases [OF assms(1)] assms(2) book_unknown_ok by (metis pr_le_refl)

section \<open>\<open>finalize\<close>\<close>

lemma reverse_booking_no_panic [simp]: "\<not> is_panic (reverse_booking A (Some i) bp)"
  by (auto simp: reverse_booking_def panic_simps)

lemma reverse_booking_Some: "reverse_booking A (Some i) bp = Inr r \<Longrightarrow> \<exists>i'. r = Some i'"
  by (auto simp: reverse_booking_def split: option.splits)

lemma finalize_booked_no_panic:
  "tr_ok tr \<Longrightarrow> set (map snd bs) \<subseteq> set (pr_booked_desc pr) \<Longrightarrow> \<not> is_panic (finalize_booked A pr bs tr)"
proof (induction bs arbitrary: tr)
  case (Cons b bs)
  obtain bp ref where b: "b = (bp, ref)" by (cases b)
  let ?tr = "prepare_for_rollback tr (bp_account bp)"
  obtain i where i: "tr_state ?tr (bp_account bp) = Some i"
    using prepare_for_rollback_Some [OF Cons.prems(1)] by blast
  have "\<not> is_panic (finalize_booked A pr bs (put_inventory ?tr (bp_account bp) iv))"
    if "reverse_booking A (Some i) bp = Inr iv" for iv
  proof -
    from reverse_booking_Some [OF that] obtain i' where "iv = Some i'" ..
    with Cons.prems show ?thesis by (simp add: Cons.IH)
  qed
  moreover have "survives pr (gr_posting ref)" if "gr_currency ref \<notin> pr_dropped pr"
    using that Cons.prems(2) b by (auto simp: survives_def)
  ultimately show ?case
    using Cons b i by (auto simp: Let_def panic_simps)
qed simp

lemma finalize_no_panic:
  assumes "tr_ok tr"
  shows "\<not> is_panic (finalize A pr tr)"
proof -
  have "set (map snd (zip (pr_booked pr) (pr_booked_desc pr))) \<subseteq> set (pr_booked_desc pr)"
    by (auto dest: set_zip_rightD)
  from finalize_booked_no_panic [OF assms this] show ?thesis
    by (simp add: finalize_def panic_simps)
qed

section \<open>\<open>visitTxn\<close>\<close>

lemma validate_autos_plain:
  "validate_postings seen ps = None \<Longrightarrow> autos_plain ps"
proof (induction seen ps rule: validate_postings.induct)
  case (2 seen p ps)
  then show ?case
    by (cases "p_amount p"; cases "p_cost p = None \<and> p_price p = None"; cases seen)
      (simp_all add: autos_plain_def)
qed (simp add: autos_plain_def)

lemma pass2_no_panic:
  assumes "work_ok w" and "candidates_ok (bw_pr w)"
  shows "\<not> is_panic (snd (pass2 A bk d w))"
proof -
  have pr: "pr_ok (bw_pr w)" using assms by (simp add: work_ok_def)
  note g = group_for_residual_spec [OF pr assms(2)]
  let ?r = "rbind (group_for_residual A (bw_pr w)) (\<lambda>(groups, free).
             rbind (resolve_residual_groups A bk d groups w) (\<lambda>r. Inr (free, r)))"
  show ?thesis
  proof (cases ?r)
    case (Inl e)
    have "\<not> is_panic ?r"
      using g resolve_residual_groups_no_panic [OF assms(1)] by (auto simp: panic_simps)
    with Inl show ?thesis by (simp add: pass2_def is_panic_def)
  next
    case (Inr x)
    obtain free rs fails w1 where x: "x = (free, rs, fails, w1)" by (cases x)
    with Inr obtain gs where gs: "group_for_residual A (bw_pr w) = Inr (gs, free)"
      and r: "resolve_residual_groups A bk d gs w = Inr (rs, fails, w1)" by auto
    note gok = g(2) [OF gs]
    note rok = resolve_residual_groups_ok [OF r assms(1)]
    then have w1: "work_ok w1" and u1: "unknowns (bw_pr w1) = unknowns (bw_pr w)"
      and pr1: "pr_ok (bw_pr w1)"
      by (auto simp: pr_le_def work_ok_def)
    let ?fs = "map (\<lambda>f. (uf_posting f, uf_currency f)) fails"
    have fs: "fst ` set ?fs \<subseteq> unknowns (bw_pr w1)"
    proof -
      have "uf_posting ` set fails \<subseteq> (\<Union>g\<in>set gs. set (rg_unknown g))" using rok by blast
      also have "\<dots> \<subseteq> unknowns (bw_pr w)" using gok unfolding bidders_ok_def by blast
      finally show ?thesis by (simp add: u1 image_image)
    qed
    have rf: "\<not> is_panic (record_failures (bw_pr w1) ?fs)"
      by (rule record_failures_no_panic [OF pr1 fs])
    have ok: "work_ok (w1\<lparr>bw_pr := pr2\<rparr>) \<and> unknowns pr2 = unknowns (bw_pr w)"
      if "record_failures (bw_pr w1) ?fs = Inr pr2" for pr2
      using record_failures_ok [OF that pr1] w1 u1 by (auto simp: work_ok_def pr_le_def bookings_live_def)
    let ?q = "rbind (record_failures (bw_pr w1) ?fs)
                  (\<lambda>pr. resolve_free_residuals A bk d free rs (w1\<lparr>bw_pr := pr\<rparr>))"
    have q: "\<not> is_panic ?q"
    proof -
      have "\<not> is_panic (resolve_free_residuals A bk d free rs (w1\<lparr>bw_pr := pr2\<rparr>))"
        if "record_failures (bw_pr w1) ?fs = Inr pr2" for pr2
        using ok [OF that] gok by (intro resolve_free_residuals_no_panic) auto
      with rf show ?thesis by (auto simp: panic_simps)
    qed
    show ?thesis
    proof (cases ?q)
      case (Inl e)
      have "snd (pass2 A bk d w) = Inl e"
        unfolding pass2_def Inr x sum.case prod.case Let_def Inl by simp
      with q Inl show ?thesis by (simp add: is_panic_def)
    next
      case q2: (Inr y)
      obtain ds2 w2 where y: "y = (ds2, w2)" by (cases y)
      with q2 obtain pr2 where pr2: "record_failures (bw_pr w1) ?fs = Inr pr2"
        and "resolve_free_residuals A bk d free rs (w1\<lparr>bw_pr := pr2\<rparr>) = Inr (ds2, w2)" by auto
      with resolve_free_residuals_ok ok [OF pr2] have w2: "work_ok w2" "unknowns (bw_pr w2) = unknowns (bw_pr w)"
        by (fastforce simp: pr_le_def)+
      have "fst ` set (map (\<lambda>k. (k, [])) free) \<subseteq> unknowns (bw_pr w2)"
        using gok w2(2) by auto
      with w2(1) have "\<not> is_panic (record_failures (bw_pr w2) (map (\<lambda>k. (k, [])) free))"
        by (intro record_failures_no_panic) (auto simp: work_ok_def)
      with w2 have "\<not> is_panic (rbind (if ds2 \<noteq> [] then record_failures (bw_pr w2) (map (\<lambda>k. (k, [])) free)
                       else Inr (bw_pr w2)) (\<lambda>pr. finalize A pr (bw_trace w2)))"
        by (auto simp: panic_simps work_ok_def finalize_no_panic)
      moreover have "snd (pass2 A bk d w) = rbind (if ds2 \<noteq> [] then record_failures (bw_pr w2) (map (\<lambda>k. (k, [])) free)
                       else Inr (bw_pr w2)) (\<lambda>pr. finalize A pr (bw_trace w2))"
        unfolding pass2_def Inr x sum.case prod.case Let_def q2 y by simp
      ultimately show ?thesis by simp
    qed
  qed
qed

lemma visit_txn_no_panic: "\<not> is_panic (snd (visit_txn A bk st txn))"
proof (cases "validate_structure txn")
  case None
  let ?w = "\<lparr>bw_pr = new_posting_resolution, bw_trace = new_state_trace st\<rparr>"
  have auto: "autos_plain (txn_postings txn)"
    using None by (simp add: validate_structure_def validate_autos_plain)
  have w: "work_ok ?w" "candidates_ok (bw_pr ?w)"
    by (simp_all add: bookings_live_def candidates_ok_def) (simp_all add: new_posting_resolution_def)
  obtain ds r where p1: "pass1 A bk (txn_date txn) ?w (txn_postings txn) = (ds, r)" by fastforce
  have "\<not> is_panic r" using pass1_no_panic [OF w(1) auto, of A bk "txn_date txn"] p1 by simp
  show ?thesis
  proof (cases r)
    case (Inl e)
    with None p1 \<open>\<not> is_panic r\<close> show ?thesis by (simp add: visit_txn_def is_panic_def)
  next
    case (Inr w')
    have "work_ok w'" "candidates_ok (bw_pr w')"
      using pass1_ok [OF p1 [unfolded Inr] w(1) auto] pass1_candidates [OF p1 [unfolded Inr] w auto] by auto
    then have "\<not> is_panic (snd (pass2 A bk (txn_date txn) w'))" by (rule pass2_no_panic)
    with None p1 Inr show ?thesis
      by (auto simp: visit_txn_def is_panic_def split: sum.splits prod.splits)
  qed
qed (simp add: visit_txn_def)


section \<open>\<open>Walk\<close>\<close>

lemma walk_loop_returns:
  assumes "opts_typed A opts"
  shows "\<exists>r. walk_loop A opts visit n bk st s ds = Inr r"
proof (induction ds arbitrary: n bk st s)
  case (Cons dir ds)
  show ?case
  proof (cases dir)
    case (DOpen d)
    obtain m dd where "resolve_booking_method A d opts = Inr (m, dd)"
      using resolve_booking_method_total [OF assms] by blast
    with DOpen Cons.IH show ?thesis by simp
  next
    case (DTransaction d)
    obtain dgs r where v: "visit_txn A bk st d = (dgs, r)" by fastforce
    with visit_txn_no_panic [of A bk st d] have np: "\<not> is_panic r" by simp
    show ?thesis
    proof (cases r)
      case (Inl e)
      with np v DTransaction show ?thesis by (cases e) auto
    next
      case (Inr x)
      obtain view booked st' where x: "x = (view, booked, st')" by (cases x)
      let ?d = "if needs_booking_clone d then d else booked"
      obtain b s' where b: "(case visit of None \<Rightarrow> (True, s) | Some f \<Rightarrow> f n ?d view s) = (b, s')" by fastforce
      with v Inr x DTransaction Cons.IH show ?thesis
        by (cases b) (simp_all add: Let_def)
    qed
  qed (use Cons.IH in \<open>simp_all\<close>)
qed simp

end
