(* ===== verification/Visit_State.thy ===== *)
theory Visit_State
  imports Visit_Safety
begin

text \<open>
  What one transaction does to the accounts' inventories: accounts it does not mention keep
  theirs, the view's \<open>before\<close> is the state before it, and every invariant of a single inventory
  that \<open>Add\<close> and \<open>Reduce\<close> keep holds for all accounts throughout a walk.
\<close>

section \<open>The interface of an inventory invariant\<close>

locale inventory_invariant =
  fixes A :: apd and Q :: "inventory \<Rightarrow> bool"
  assumes empty: "Q []"
    and add: "Q i \<Longrightarrow> inv_add A i p = Inr i' \<Longrightarrow> Q i'"
    and reduce: "Q i \<Longrightarrow> inv_reduce A i u m b = Inr (Inr (steps, i')) \<Longrightarrow> Q i'"

section \<open>The invariant of a trace\<close>

definition trace_inv :: "(inventory \<Rightarrow> bool) \<Rightarrow> inv_state \<Rightarrow> account set \<Rightarrow> state_trace \<Rightarrow> bool" where
  "trace_inv Q st S tr \<longleftrightarrow> tr_ok tr \<and>
     (\<forall>a. a \<notin> fst ` set (tr_before tr) \<longrightarrow> tr_state tr a = st a) \<and>
     (\<forall>x\<in>set (tr_before tr). snd x = st (fst x) \<and> fst x \<in> S) \<and>
     (\<forall>a i. tr_state tr a = Some i \<longrightarrow> Q i)"

definition work_inv :: "(inventory \<Rightarrow> bool) \<Rightarrow> inv_state \<Rightarrow> account set \<Rightarrow> booking_work \<Rightarrow> bool" where
  "work_inv Q st S w \<longleftrightarrow> trace_inv Q st S (bw_trace w) \<and>
     p_account ` set (pr_postings (bw_pr w)) \<subseteq> S \<and> bp_account ` set (pr_booked (bw_pr w)) \<subseteq> S"

lemma trace_inv_rolled [simp]: "trace_inv Q st S (tr\<lparr>tr_rolled := R\<rparr>) = trace_inv Q st S tr"
  by (simp add: trace_inv_def)

lemma trace_inv_put:
  "trace_inv Q st S tr \<Longrightarrow> a \<in> fst ` set (tr_before tr) \<Longrightarrow> Q i \<Longrightarrow> trace_inv Q st S (put_inventory tr a (Some i))"
  unfolding trace_inv_def by (auto simp: put_inventory_def tr_ok_def)

context inventory_invariant
begin

lemma trace_inv_edit:
  assumes "trace_inv Q st S tr" and "a \<in> S"
  shows "trace_inv Q st S (prepare_for_edit tr a)"
    and "a \<in> fst ` set (tr_before (prepare_for_edit tr a))"
proof -
  show "a \<in> fst ` set (tr_before (prepare_for_edit tr a))"
    by (auto simp: prepare_for_edit_def map_of_eq_None_iff split: option.splits)
  show "trace_inv Q st S (prepare_for_edit tr a)"
  proof (cases "map_of (tr_before tr) a = None")
    case True
    then have a: "a \<notin> fst ` set (tr_before tr)" by (simp add: map_of_eq_None_iff)
    then have "st a = tr_state tr a" using assms(1) by (simp add: trace_inv_def)
    with assms a True show ?thesis
      using tr_ok_edit [of tr a] empty unfolding trace_inv_def
      by (auto simp: prepare_for_edit_def split: option.split_asm option.split)
  qed (use assms in \<open>auto simp: prepare_for_edit_def\<close>)
qed

lemma trace_inv_rollback:
  assumes "trace_inv Q st S tr" and "a \<in> S"
  shows "trace_inv Q st S (prepare_for_rollback tr a)"
    and "a \<in> fst ` set (tr_before (prepare_for_rollback tr a))"
  using trace_inv_edit [of st S "tr\<lparr>tr_rolled := insert a (tr_rolled tr)\<rparr>" a] assms
  by (simp_all add: prepare_for_rollback_def)

lemma book_one_inv:
  "book_one A (Some i) p m d = Inr (Inr (l, steps, Some i')) \<Longrightarrow> Q i \<Longrightarrow> Q i'"
  by (erule book_one_cases) (auto intro: add reduce)

lemma trace_inv_Q: "trace_inv Q st S tr \<Longrightarrow> tr_state tr a = Some i \<Longrightarrow> Q i"
  unfolding trace_inv_def by blast

lemma trace_inv_live: "trace_inv Q st S tr \<Longrightarrow> a \<in> fst ` set (tr_before tr) \<Longrightarrow> \<exists>i. tr_state tr a = Some i"
  unfolding trace_inv_def tr_ok_def by auto

lemma book_put_inv:
  assumes "trace_inv Q st S tr" and "a \<in> fst ` set (tr_before tr)"
    and "book_one A (tr_state tr a) p m d = Inr (Inr (l, steps, iv))"
  shows "trace_inv Q st S (put_inventory tr a iv)"
proof -
  obtain i where i: "tr_state tr a = Some i" using trace_inv_live [OF assms(1,2)] ..
  obtain i' where iv: "iv = Some i'" using book_one_Some assms(3) unfolding i by blast
  have "Q i'" using book_one_inv assms(3) trace_inv_Q [OF assms(1) i] unfolding i iv by blast
  with assms iv show ?thesis by (simp add: trace_inv_put)
qed

lemma add_children_postings:
  "p_account ` set (pr_postings (add_children pr p amt ss)) \<subseteq>
     insert (p_account p) (p_account ` set (pr_postings pr))"
proof (induction ss arbitrary: pr)
  case (Cons s ss)
  have "p_account (reduction_child p amt s) = p_account p"
    by (simp add: reduction_child_def Let_def split: option.splits)
  with Cons.IH [of "push_booked pr (reduction_child p amt s)
      (new_booked (p_account p) \<lparr>amt_number = signed_magnitude (rs_units s) (d_neg (amt_number amt)),
        amt_currency = amt_currency amt\<rparr> None (Some s) False) (lot_currency (rs_lot s))"]
  show ?case by (auto simp: push_booked_def)
qed auto

lemma record_booked_postings:
  assumes "record_booked A pr p l steps = Inr pr'"
  shows "p_account ` set (pr_postings pr') \<subseteq> insert (p_account p) (p_account ` set (pr_postings pr))"
  using assms add_children_postings [of pr p _ steps]
  by (auto simp: record_booked_def add_already_booked_def add_lot_augmentation_def install_lot_def
      add_cash_augmentation_def add_single_lot_reduction_def add_multi_lot_reduction_def
      push_booked_def split: if_splits list.splits option.splits)

lemma pass1_step_inv:
  assumes "pass1_step A bk d w p = Inr (ds, w')" and "work_inv Q st S w" and "p_account p \<in> S"
  shows "work_inv Q st S w'"
proof -
  have tr: "trace_inv Q st S tr \<and> p_account p \<in> fst ` set (tr_before tr)"
    if "tr = prepare_for_edit (bw_trace w) (p_account p)" for tr
    using assms(2,3) trace_inv_edit that by (auto simp: work_inv_def)
  from assms(1) show ?thesis
  proof (cases rule: pass1_stepE)
    case (booked amt tr l steps iv pr)
    have "bp_account ` set (pr_booked pr) \<subseteq> S"
      using record_booked_booked [OF booked(4)] assms(2,3) by (auto simp: work_inv_def image_subset_iff)
    moreover have "p_account ` set (pr_postings pr) \<subseteq> S"
    proof (rule subset_trans [OF record_booked_postings [OF booked(4)]])
      show "insert (p_account p) (p_account ` set (pr_postings (bw_pr w))) \<subseteq> S"
        using assms(2,3) by (simp add: work_inv_def)
    qed
    moreover have "trace_inv Q st S (put_inventory tr (p_account p) iv)"
      using tr [OF booked(2)] by (intro book_put_inv [OF _ _ booked(3)]) simp_all
    ultimately show ?thesis by (simp add: work_inv_def booked(6))
  qed (use assms tr trace_inv_rollback in \<open>auto simp: work_inv_def add_unknown_def mark_for_drop_def\<close>)
qed

lemma pass1_inv:
  "pass1 A bk d w ps = (ds, Inr w') \<Longrightarrow> work_inv Q st S w \<Longrightarrow> p_account ` set ps \<subseteq> S \<Longrightarrow> work_inv Q st S w'"
proof (induction ps arbitrary: w ds)
  case (Cons p ps)
  then show ?case
    using pass1_step_inv [of bk d w p _ _ st S] by (auto split: sum.splits prod.splits)
qed simp

lemma record_unknown_failed_sels:
  "record_unknown_failed pr k c = Inr pr' \<Longrightarrow> pr_postings pr' = pr_postings pr \<and> pr_booked pr' = pr_booked pr"
  by (auto simp: record_unknown_failed_def mark_for_drop_def split: option.splits)

lemma record_failures_sels:
  "record_failures pr fs = Inr pr' \<Longrightarrow> pr_postings pr' = pr_postings pr \<and> pr_booked pr' = pr_booked pr"
  by (induction pr fs rule: record_failures.induct) (auto dest: record_unknown_failed_sels)

lemma book_unknown_inv:
  assumes "book_unknown A bk d k cand c w = Inr (f, w')" and "work_inv Q st S w"
  shows "work_inv Q st S w'"
proof -
  from assms(1) obtain r where k: "k < length (pr_postings (bw_pr w))"
    and r: "book_one A (tr_state (prepare_for_edit (bw_trace w) (p_account (pr_postings (bw_pr w) ! k)))
        (p_account (pr_postings (bw_pr w) ! k))) cand
        (method_of bk (p_account (pr_postings (bw_pr w) ! k))) d = Inr r"
    by (auto simp: book_unknown_def posting_at_ok Let_def)
  define orig where "orig = pr_postings (bw_pr w) ! k"
  define tr where "tr = prepare_for_edit (bw_trace w) (p_account orig)"
  have S: "p_account orig \<in> S" using assms(2) k by (auto simp: work_inv_def orig_def)
  then have tr: "trace_inv Q st S tr" "p_account orig \<in> fst ` set (tr_before tr)"
    using assms(2) trace_inv_edit by (auto simp: work_inv_def tr_def)
  note r = r [folded orig_def tr_def]
  have kk: "posting_at (pr_postings (bw_pr w)) k = Inr orig" using k by (simp add: posting_at_def orig_def)
  note * = assms(1) [unfolded book_unknown_def Let_def kk rbind_Inr, folded tr_def, unfolded r rbind_Inr]
  show ?thesis
  proof (cases r)
    case (Inl fd)
    with * obtain pr' where "record_unknown_failed (bw_pr w) k c = Inr pr'"
      and w': "w' = \<lparr>bw_pr = pr', bw_trace = prepare_for_rollback tr (p_account orig)\<rparr>" by auto
    with record_unknown_failed_sels [OF this(1)] assms(2) trace_inv_rollback [OF tr(1) S] show ?thesis
      by (simp add: w' work_inv_def)
  next
    case (Inr x)
    obtain l steps iv where x: "x = (l, steps, iv)" by (cases x)
    from * Inr x obtain pr' where "promote_booked A (bw_pr w) k orig cand l steps c = Inr pr'"
      and w': "w' = \<lparr>bw_pr = pr', bw_trace = put_inventory tr (p_account orig) iv\<rparr>" by auto
    then obtain p bp where pr': "promote (bw_pr w) k p bp c = Inr pr'"
      and acct: "bp_account bp = p_account orig" "p_account p = p_account orig"
      by (elim promote_booked_ok)
    have "pr_postings pr' = (pr_postings (bw_pr w))[k := p]" "pr_booked pr' = pr_booked (bw_pr w) @ [bp]"
      using pr' by (auto simp: promote_def split: option.splits)
    moreover have "p_account ` set ((pr_postings (bw_pr w))[k := p]) \<subseteq> S"
    proof -
      have "p_account ` set ((pr_postings (bw_pr w))[k := p]) \<subseteq> p_account ` insert p (set (pr_postings (bw_pr w)))"
        by (rule image_mono) (rule set_update_subset_insert)
      also have "\<dots> \<subseteq> S" using acct S assms(2) by (simp add: work_inv_def)
      finally show ?thesis .
    qed
    ultimately have "p_account ` set (pr_postings pr') \<subseteq> S" "bp_account ` set (pr_booked pr') \<subseteq> S"
      using acct S assms(2) by (simp_all add: work_inv_def)
    with book_put_inv [OF tr r [unfolded Inr x]] show ?thesis by (simp add: w' work_inv_def)
  qed
qed

lemma finalize_booked_inv:
  "finalize_booked A pr bs tr = Inr (out, tr') \<Longrightarrow> trace_inv Q st S tr \<Longrightarrow>
     bp_account ` fst ` set bs \<subseteq> S \<Longrightarrow> trace_inv Q st S tr'"
proof (induction bs arbitrary: tr out)
  case (Cons b bs)
  obtain bp ref where b: "b = (bp, ref)" by (cases b)
  show ?case
  proof (cases "gr_currency ref \<in> pr_dropped pr")
    case False
    with Cons b show ?thesis by (auto split: if_splits)
  next
    case True
    let ?tr = "prepare_for_rollback tr (bp_account bp)"
    have tr: "trace_inv Q st S ?tr" "bp_account bp \<in> fst ` set (tr_before ?tr)"
      using trace_inv_rollback [OF Cons.prems(2)] Cons.prems(3) b by auto
    obtain i where i: "tr_state ?tr (bp_account bp) = Some i"
      using trace_inv_live [OF tr] ..
    from True Cons.prems(1) b i obtain iv where iv: "reverse_booking A (Some i) bp = Inr iv"
      and rest: "finalize_booked A pr bs (put_inventory ?tr (bp_account bp) iv) = Inr (out, tr')"
      by (auto simp: Let_def)
    obtain i' where i': "iv = Some i'" using reverse_booking_Some [OF iv] ..
    have "Q i'" using iv add trace_inv_Q [OF tr(1) i]
      by (auto simp: i' reverse_booking_def split: option.splits)
    then have "trace_inv Q st S (put_inventory ?tr (bp_account bp) iv)"
      unfolding i' by (rule trace_inv_put [OF tr])
    with Cons.IH [OF rest] Cons.prems(3) show ?thesis by auto
  qed
qed simp

lemma finalize_inv:
  assumes "finalize A pr tr = Inr (ps, bps, tr')" and "trace_inv Q st S tr"
    and "bp_account ` set (pr_booked pr) \<subseteq> S"
  shows "trace_inv Q st S tr'"
proof (cases "pr_dropped pr = {}")
  case False
  with assms(1) obtain out where "finalize_booked A pr (zip (pr_booked pr) (pr_booked_desc pr)) tr = Inr (out, tr')"
    by (auto simp: finalize_def)
  moreover have "bp_account ` fst ` set (zip (pr_booked pr) (pr_booked_desc pr)) \<subseteq> S"
    using assms(3) by (force simp: image_subset_iff dest: set_zip_leftD)
  ultimately show ?thesis by (intro finalize_booked_inv [OF _ assms(2)])
qed (use assms in \<open>auto simp: finalize_def\<close>)

text \<open>The stages of Pass 2 that returns.\<close>

end

lemma pass2_stages:
  assumes "pass2 A bk d w = (ds, Inr (ps, bps, tr))"
  obtains gs free rs fails w1 pr1 ds2 w2 pr2 where
    "group_for_residual A (bw_pr w) = Inr (gs, free)"
    "resolve_residual_groups A bk d gs w = Inr (rs, fails, w1)"
    "record_failures (bw_pr w1) (map (\<lambda>f. (uf_posting f, uf_currency f)) fails) = Inr pr1"
    "resolve_free_residuals A bk d free rs (w1\<lparr>bw_pr := pr1\<rparr>) = Inr (ds2, w2)"
    "(if ds2 \<noteq> [] then record_failures (bw_pr w2) (map (\<lambda>k. (k, [])) free) else Inr (bw_pr w2)) = Inr pr2"
    "finalize A pr2 (bw_trace w2) = Inr (ps, bps, tr)"
    "ds = map uf_diag fails @ ds2"
proof -
  let ?r = "rbind (group_for_residual A (bw_pr w)) (\<lambda>(groups, free).
             rbind (resolve_residual_groups A bk d groups w) (\<lambda>r. Inr (free, r)))"
  from assms obtain x where x: "?r = Inr x" by (cases ?r) (simp_all add: pass2_def)
  obtain free rs fails w1 where xx: "x = (free, rs, fails, w1)" by (cases x)
  let ?q = "rbind (record_failures (bw_pr w1) (map (\<lambda>f. (uf_posting f, uf_currency f)) fails))
                  (\<lambda>pr. resolve_free_residuals A bk d free rs (w1\<lparr>bw_pr := pr\<rparr>))"
  note * = assms [unfolded pass2_def x xx sum.case prod.case Let_def]
  from * obtain y where y: "?q = Inr y" by (cases ?q) simp_all
  obtain ds2 w2 where yy: "y = (ds2, w2)" by (cases y)
  note ** = * [unfolded y yy sum.case prod.case]
  from x xx obtain gs where 1: "group_for_residual A (bw_pr w) = Inr (gs, free)"
    "resolve_residual_groups A bk d gs w = Inr (rs, fails, w1)" by auto
  from y yy obtain pr1 where 2: "record_failures (bw_pr w1) (map (\<lambda>f. (uf_posting f, uf_currency f)) fails) = Inr pr1"
    "resolve_free_residuals A bk d free rs (w1\<lparr>bw_pr := pr1\<rparr>) = Inr (ds2, w2)" by auto
  from ** obtain pr2 where 3: "(if ds2 \<noteq> [] then record_failures (bw_pr w2) (map (\<lambda>k. (k, [])) free)
      else Inr (bw_pr w2)) = Inr pr2" "finalize A pr2 (bw_trace w2) = Inr (ps, bps, tr)"
    "ds = map uf_diag fails @ ds2"
    by (auto simp del: if_split)
  from 1 2 3 show thesis by (rule that)
qed

text \<open>The stages of a transaction that returns.\<close>

lemma visit_txn_stages:
  assumes "visit_txn A bk st txn = (ds, Inr (view, txn', st'))"
  obtains (rejected) d where "validate_structure txn = Some d" "ds = [d]" "txn' = txn" "st' = st"
      "view = \<lparr>tv_before = [], tv_after = [], tv_booked = []\<rparr>"
  | (booked) ds1 ds2 w ps bps tr where "validate_structure txn = None"
      "pass1 A bk (txn_date txn) \<lparr>bw_pr = new_posting_resolution, bw_trace = new_state_trace st\<rparr>
         (txn_postings txn) = (ds1, Inr w)"
      "pass2 A bk (txn_date txn) w = (ds2, Inr (ps, bps, tr))" "ds = ds1 @ ds2"
      "txn' = txn\<lparr>txn_postings := ps\<rparr>" "st' = tr_state tr"
      "view = \<lparr>tv_before = fst (trace_diff A tr), tv_after = snd (trace_diff A tr), tv_booked = bps\<rparr>"
proof (cases "validate_structure txn")
  case (Some d)
  with assms show thesis by (intro rejected) (auto simp: visit_txn_def)
next
  case None
  obtain ds1 r1 where p1: "pass1 A bk (txn_date txn)
    \<lparr>bw_pr = new_posting_resolution, bw_trace = new_state_trace st\<rparr> (txn_postings txn) = (ds1, r1)" by fastforce
  note * = assms [unfolded visit_txn_def None option.case p1 prod.case]
  from * obtain w where w: "r1 = Inr w" by (cases r1) auto
  obtain ds2 r2 where p2: "pass2 A bk (txn_date txn) w = (ds2, r2)" by fastforce
  note ** = * [unfolded w sum.case p2 prod.case]
  from ** obtain ps bps tr where "r2 = Inr (ps, bps, tr)" by (cases r2) auto
  with ** None p1 w p2 show thesis by (intro booked) (auto split: prod.splits)
qed

context inventory_invariant
begin

lemma visit_txn_trace:
  assumes "visit_txn A bk st txn = (ds, Inr (view, txn', st'))" and "\<forall>a i. st a = Some i \<longrightarrow> Q i"
    and "validate_structure txn = None"
  obtains tr where "st' = tr_state tr" "tv_before view = fst (trace_diff A tr)" "tv_after view = snd (trace_diff A tr)"
    "trace_inv Q st (p_account ` set (txn_postings txn)) tr"
  using assms(1)
proof (cases rule: visit_txn_stages)
  case (booked ds1 ds2 w ps bps tr)
  let ?S = "p_account ` set (txn_postings txn)"
  have "work_inv Q st ?S \<lparr>bw_pr = new_posting_resolution, bw_trace = new_state_trace st\<rparr>"
    using assms(2) by (simp add: work_inv_def trace_inv_def new_state_trace_def new_posting_resolution_def tr_ok_def)
  with pass1_inv [OF booked(2)] have w: "work_inv Q st ?S w" by simp
  from booked(3) obtain gs free rs fails w1 pr1 d2 w2 pr2 where
    s: "resolve_residual_groups A bk (txn_date txn) gs w = Inr (rs, fails, w1)"
    "record_failures (bw_pr w1) (map (\<lambda>f. (uf_posting f, uf_currency f)) fails) = Inr pr1"
    "resolve_free_residuals A bk (txn_date txn) free rs (w1\<lparr>bw_pr := pr1\<rparr>) = Inr (d2, w2)"
    "(if d2 \<noteq> [] then record_failures (bw_pr w2) (map (\<lambda>k. (k, [])) free) else Inr (bw_pr w2)) = Inr pr2"
    "finalize A pr2 (bw_trace w2) = Inr (ps, bps, tr)" by (rule pass2_stages)
  have "work_inv Q st ?S w1"
    using resolve_residual_groups_preserves [of A bk "txn_date txn" "work_inv Q st ?S", OF _ s(1) w]
      book_unknown_inv by blast
  then have "work_inv Q st ?S (w1\<lparr>bw_pr := pr1\<rparr>)"
    using record_failures_sels [OF s(2)] by (simp add: work_inv_def)
  then have "work_inv Q st ?S w2"
    using resolve_free_residuals_cases [OF s(3)] book_unknown_inv by blast
  moreover have "pr_booked pr2 = pr_booked (bw_pr w2)"
    using s(4) record_failures_sels by (auto split: if_splits)
  ultimately have "trace_inv Q st ?S tr"
    using finalize_inv [OF s(5)] by (simp add: work_inv_def)
  with that booked show thesis by simp
qed (use assms(3) in simp)

lemma visit_txn_invariant:
  assumes "visit_txn A bk st txn = (ds, Inr (view, txn', st'))" and "\<forall>a i. st a = Some i \<longrightarrow> Q i"
  shows "\<forall>a i. st' a = Some i \<longrightarrow> Q i"
proof (cases "validate_structure txn")
  case None
  from visit_txn_trace [OF assms None] show ?thesis unfolding trace_inv_def by metis
next
  case (Some d)
  with assms show ?thesis by (auto simp: visit_txn_def)
qed

text \<open>The view of a transaction.\<close>

lemma visit_txn_view:
  assumes "visit_txn A bk st txn = (ds, Inr (view, txn', st'))" and "\<forall>a i. st a = Some i \<longrightarrow> Q i"
  shows "a \<notin> p_account ` set (txn_postings txn) \<Longrightarrow> st' a = st a"
    and "distinct (map fst (tv_before view))"
    and "(a, b) \<in> set (tv_before view) \<Longrightarrow> b = st a \<and> a \<in> p_account ` set (txn_postings txn)"
    and "tv_after view = map (\<lambda>x. (fst x, st' (fst x))) (tv_before view)"
    and "(a, b) \<in> set (tv_after view) \<Longrightarrow> b \<noteq> None"
    and "a \<notin> fst ` set (tv_before view) \<Longrightarrow> st' a = st a \<or> inv_equal A (st' a) (st a)"
proof -
  have "(a \<notin> p_account ` set (txn_postings txn) \<longrightarrow> st' a = st a) \<and>
    distinct (map fst (tv_before view)) \<and>
    (\<forall>x\<in>set (tv_before view). snd x = st (fst x) \<and> fst x \<in> p_account ` set (txn_postings txn)) \<and>
    tv_after view = map (\<lambda>x. (fst x, st' (fst x))) (tv_before view) \<and>
    (\<forall>x\<in>set (tv_after view). snd x \<noteq> None) \<and>
    (a \<notin> fst ` set (tv_before view) \<longrightarrow> st' a = st a \<or> inv_equal A (st' a) (st a))"
  proof (cases "validate_structure txn")
    case (Some d)
    with assms(1) show ?thesis by (auto simp: visit_txn_def)
  next
    case None
    from visit_txn_trace [OF assms None] obtain tr where tr: "st' = tr_state tr"
      "tv_before view = fst (trace_diff A tr)" "tv_after view = snd (trace_diff A tr)"
      "trace_inv Q st (p_account ` set (txn_postings txn)) tr" .
    have keep: "set (tv_before view) \<subseteq> set (tr_before tr)" by (auto simp: tr(2) trace_diff_def Let_def)
    have "distinct (map fst (tv_before view))"
      using tr(4) by (simp add: tr(2) trace_diff_def Let_def trace_inv_def tr_ok_def distinct_map_filter)
    moreover have "tv_after view = map (\<lambda>x. (fst x, st' (fst x))) (tv_before view)"
      by (simp add: tr(1-3) trace_diff_def Let_def split_def)
    moreover have "st' (fst x) \<noteq> None" if "x \<in> set (tr_before tr)" for x
      using trace_inv_live [OF tr(4), of "fst x"] that tr(1) by auto
    moreover have "st' a = st a \<or> inv_equal A (st' a) (st a)" if "a \<notin> fst ` set (tv_before view)"
    proof (cases "a \<in> fst ` set (tr_before tr)")
      case True
      then obtain x where x: "x \<in> set (tr_before tr)" "a = fst x" by blast
      with that have "inv_equal A (tr_state tr a) (snd x)"
        by (force simp: tr(2) trace_diff_def Let_def split_def)
      with x tr(1,4) show ?thesis by (auto simp: trace_inv_def)
    qed (use tr(1,4) in \<open>auto simp: trace_inv_def\<close>)
    moreover have "st' a = st a" if "a \<notin> p_account ` set (txn_postings txn)"
    proof -
      have "a \<notin> fst ` set (tr_before tr)" using tr(4) that unfolding trace_inv_def by blast
      then show ?thesis using tr(1,4) by (simp add: trace_inv_def)
    qed
    moreover have "\<forall>x\<in>set (tv_before view). snd x = st (fst x) \<and> fst x \<in> p_account ` set (txn_postings txn)"
      using keep tr(4) unfolding trace_inv_def by blast
    ultimately show ?thesis using keep by auto
  qed
  then show "a \<notin> p_account ` set (txn_postings txn) \<Longrightarrow> st' a = st a"
    and "distinct (map fst (tv_before view))"
    and "(a, b) \<in> set (tv_before view) \<Longrightarrow> b = st a \<and> a \<in> p_account ` set (txn_postings txn)"
    and "tv_after view = map (\<lambda>x. (fst x, st' (fst x))) (tv_before view)"
    and "(a, b) \<in> set (tv_after view) \<Longrightarrow> b \<noteq> None"
    and "a \<notin> fst ` set (tv_before view) \<Longrightarrow> st' a = st a \<or> inv_equal A (st' a) (st a)"
    by fastforce+
qed

end

section \<open>Interpretations\<close>

text \<open>Distinct slots are such an invariant; so is the trivial one, which needs no law of the
  arithmetic.\<close>

sublocale apd_exact \<subseteq> slots: inventory_invariant A "slots_distinct A"
proof
  show "slots_distinct A []" by (simp add: slots_distinct_def)
qed (auto intro: inv_add_distinct reduce_distinct)

interpretation any_inventory: inventory_invariant A "\<lambda>_. True" for A
  by unfold_locales auto

end
