(* ===== verification/Balancing.thy ===== *)
theory Balancing
  imports Visit_State
begin

text \<open>
  The auto posting absorbs the residual: a transaction whose auto posting is booked without a
  finding, and is not itself a reduction of a lot held at cost, balances exactly in every
  currency.
\<close>

section \<open>The weight of a transaction\<close>

lemma weight_in_auto [simp]: "p_amount p = None \<Longrightarrow> weight_in A c p = 0"
  by (simp add: weight_in_def posting_weight_def)

lemma net_weight_update:
  "k < length ps \<Longrightarrow> net_weight A c (ps[k := p]) = net_weight A c ps - weight_in A c (ps ! k) + weight_in A c p"
proof (induction ps arbitrary: k)
  case (Cons q ps)
  then show ?case by (cases k) (simp_all add: net_weight_def)
qed simp

section \<open>Pass 1 describes every posting once\<close>

definition pr_once :: "posting_resolution \<Rightarrow> bool" where
  "pr_once pr \<longleftrightarrow> mset (map gr_posting (pr_booked_desc pr @ pr_unknown_desc pr)) = mset [0..<length (pr_postings pr)]"

text \<open>The unknowns are the auto postings.\<close>

definition autos_unknown :: "posting_resolution \<Rightarrow> bool" where
  "autos_unknown pr \<longleftrightarrow> pr_unknown_desc pr =
     map (\<lambda>k. \<lparr>gr_currency = [], gr_posting = k\<rparr>)
       (filter (\<lambda>k. p_amount (pr_postings pr ! k) = None) [0..<length (pr_postings pr)])"

lemma pr_once_push: "pr_once pr \<Longrightarrow> pr_once (push_booked pr p bp c)"
  by (simp add: pr_once_def push_booked_def)

lemma pr_once_add_unknown: "pr_once pr \<Longrightarrow> pr_once (add_unknown pr p)"
  by (simp add: pr_once_def add_unknown_def)

lemma filter_upt_nth_append:
  "filter (\<lambda>k. P ((xs @ [x]) ! k)) [0..<Suc (length xs)] =
     filter (\<lambda>k. P (xs ! k)) [0..<length xs] @ (if P x then [length xs] else [])"
  by (auto simp: nth_append intro!: filter_cong)

lemma autos_unknown_push: "autos_unknown pr \<Longrightarrow> p_amount p \<noteq> None \<Longrightarrow> autos_unknown (push_booked pr p bp c)"
  using filter_upt_nth_append [of "\<lambda>q. p_amount q = None" "pr_postings pr" p]
  by (simp add: autos_unknown_def push_booked_def)

lemma autos_unknown_add:
  "autos_unknown pr \<Longrightarrow> p_amount p = None \<Longrightarrow> p_cost p = None \<Longrightarrow> p_price p = None \<Longrightarrow> autos_unknown (add_unknown pr p)"
  using filter_upt_nth_append [of "\<lambda>q. p_amount q = None" "pr_postings pr" p]
  by (simp add: autos_unknown_def add_unknown_def unknown_candidate_currency_def)

definition pass1_inv0 :: "posting_resolution \<Rightarrow> bool" where
  "pass1_inv0 pr \<longleftrightarrow> pr_once pr \<and> autos_unknown pr \<and> pr_dropped pr = {}"

lemma pass1_inv0_push: "pass1_inv0 pr \<Longrightarrow> p_amount p \<noteq> None \<Longrightarrow> pass1_inv0 (push_booked pr p bp c)"
  unfolding pass1_inv0_def using pr_once_push autos_unknown_push by (simp add: push_booked_def)

lemma pass1_inv0_children: "pass1_inv0 pr \<Longrightarrow> pass1_inv0 (add_children pr p amt ss)"
  by (induction ss arbitrary: pr) (simp_all add: pass1_inv0_push)

lemma record_booked_inv0:
  assumes "record_booked A pr p l steps = Inr pr'" and "pass1_inv0 pr"
  shows "pass1_inv0 pr'"
  using assms
  by (auto simp: record_booked_def add_already_booked_def add_lot_augmentation_def
      add_cash_augmentation_def add_single_lot_reduction_def add_multi_lot_reduction_def
      simp del: add_children.simps intro!: pass1_inv0_push pass1_inv0_children
      split: if_splits list.splits option.splits)

lemma pass1_inv0:
  "pass1 A bk d w ps = ([], Inr w') \<Longrightarrow> pass1_inv0 (bw_pr w) \<Longrightarrow> autos_plain ps \<Longrightarrow>
     \<forall>p\<in>set ps. \<not> cost_number_missing (p_cost p) \<Longrightarrow> pass1_inv0 (bw_pr w')"
proof (induction ps arbitrary: w)
  case (Cons p ps)
  from Cons.prems(1) obtain w1 where s: "pass1_step A bk d w p = Inr ([], w1)"
    and rest: "pass1 A bk d w1 ps = ([], Inr w')"
    by (auto split: sum.splits prod.splits)
  from s have "pass1_inv0 (bw_pr w1)"
  proof (cases rule: pass1_stepE)
    case auto
    with Cons.prems(2,3) show ?thesis
      by (auto simp: pass1_inv0_def autos_plain_def pr_once_add_unknown autos_unknown_add)
        (simp add: add_unknown_def)
  qed (use Cons.prems record_booked_inv0 in auto)
  with Cons rest show ?case by (simp add: autos_plain_def)
qed simp

lemma record_booked_unknown:
  "record_booked A pr p l steps = Inr pr' \<Longrightarrow> pr_unknown_desc pr' = pr_unknown_desc pr"
proof -
  have "pr_unknown_desc (add_children pr p amt ss) = pr_unknown_desc pr" for pr amt ss
    by (induction ss arbitrary: pr) (simp_all add: push_booked_def)
  then show "record_booked A pr p l steps = Inr pr' \<Longrightarrow> pr_unknown_desc pr' = pr_unknown_desc pr"
    by (auto simp: record_booked_def add_already_booked_def add_lot_augmentation_def
      add_cash_augmentation_def add_single_lot_reduction_def add_multi_lot_reduction_def push_booked_def
      simp del: add_children.simps split: if_splits list.splits option.splits)
qed

lemma pass1_unknown_count:
  assumes "pass1 A bk d \<lparr>bw_pr = new_posting_resolution, bw_trace = tr\<rparr> ps = ([], Inr w')"
    and "\<forall>p\<in>set ps. \<not> cost_number_missing (p_cost p)"
  shows "length (pr_unknown_desc (bw_pr w')) = length (filter (\<lambda>p. p_amount p = None) ps)"
proof -
  have "pass1 A bk d w ps = ([], Inr w') \<Longrightarrow> length (pr_unknown_desc (bw_pr w')) =
    length (pr_unknown_desc (bw_pr w)) + length (filter (\<lambda>p. p_amount p = None) ps)" for w
    using assms(2)
  proof (induction ps arbitrary: w)
    case (Cons p ps)
    from Cons.prems(1) obtain w1 where s: "pass1_step A bk d w p = Inr ([], w1)"
      and rest: "pass1 A bk d w1 ps = ([], Inr w')"
      by (auto split: sum.splits prod.splits)
    from s have "length (pr_unknown_desc (bw_pr w1)) =
        length (pr_unknown_desc (bw_pr w)) + (if p_amount p = None then 1 else 0)"
      by (cases rule: pass1_stepE) (use Cons.prems(2) in \<open>auto simp: add_unknown_def dest: record_booked_unknown\<close>)
    with Cons.IH [OF rest] Cons.prems(2) show ?case by simp
  qed simp
  from this [OF assms(1)] show ?thesis by (simp add: new_posting_resolution_def)
qed

lemma autos_count:
  "validate_postings seen ps = None \<Longrightarrow>
     length (filter (\<lambda>p. p_amount p = None) ps) \<le> (if seen then 0 else 1)"
proof (induction seen ps rule: validate_postings.induct)
  case (2 seen p ps)
  then show ?case by (cases "p_amount p"; cases "p_cost p = None \<and> p_price p = None"; cases seen) auto
qed simp

section \<open>The residuals\<close>

definition val_of :: "(currency \<times> decimal) list \<Rightarrow> currency \<Rightarrow> rat" where
  "val_of acc c = (case map_of acc c of Some s \<Rightarrow> dval s | None \<Rightarrow> 0)"

context apd_exact
begin

lemma accumulate_val:
  "accumulate A ctx acc w = Inr acc' \<Longrightarrow>
     val_of acc' c = val_of acc c + (if c = amt_currency w then dval (amt_number w) else 0) \<and>
     fst ` set acc' = insert (amt_currency w) (fst ` set acc) \<and>
     (distinct (map fst acc) \<longrightarrow> distinct (map fst acc'))"
proof (induction acc arbitrary: acc')
  case Nil
  then show ?case by (auto simp: val_of_def)
next
  case (Cons x acc)
  obtain k s where x: "x = (k, s)" by (cases x)
  show ?case
  proof (cases "k = amt_currency w")
    case True
    with Cons.prems x show ?thesis by (auto simp: val_of_def dest: add_val)
  next
    case False
    with Cons.prems x obtain acc1 where "accumulate A ctx acc w = Inr acc1" "acc' = (k, s) # acc1" by auto
    with Cons.IH [OF this(1)] False x show ?thesis by (auto simp: val_of_def)
  qed
qed

lemma sum_weights_val:
  "sum_weights A ps refs acc = Inr acc' \<Longrightarrow>
     val_of acc' c = val_of acc c + sum_list (map (\<lambda>ref. weight_in A c (ps ! gr_posting ref)) refs) \<and>
     (distinct (map fst acc) \<longrightarrow> distinct (map fst acc'))"
proof (induction refs arbitrary: acc)
  case (Cons ref refs)
  from Cons.prems obtain p where pa: "posting_at ps (gr_posting ref) = Inr p" by auto
  then have pp: "p = ps ! gr_posting ref" by (simp add: posting_at_ok)
  from Cons.prems pa obtain w where w: "posting_weight A p = Inr w" by auto
  note p = pp w
  show ?case
  proof (cases w)
    case None
    with Cons.IH [of acc] Cons.prems pa p show ?thesis by (simp add: weight_in_def)
  next
    case (Some x)
    with Cons.prems pa w obtain acc1 ctx where a: "accumulate A ctx acc x = Inr acc1"
      and "sum_weights A ps refs acc1 = Inr acc'" by auto
    with Cons.IH [of acc1] accumulate_val [OF a] p Some show ?thesis
      by (auto simp: weight_in_def)
  qed
qed simp

lemma sum_groups_val:
  "sum_groups A [] acc = Inr gs \<Longrightarrow> distinct (map fst acc) \<Longrightarrow>
     (\<forall>g\<in>set gs. rg_unknown g = [] \<and> dval (amt_number (rg_residual g)) \<noteq> 0 \<and>
        dval (amt_number (rg_residual g)) = - val_of acc (amt_currency (rg_residual g))) \<and>
     (\<forall>c. val_of acc c \<noteq> 0 \<longrightarrow> c \<in> (\<lambda>g. amt_currency (rg_residual g)) ` set gs)"
proof (induction acc arbitrary: gs)
  case Nil
  then show ?case by (simp add: val_of_def)
next
  case (Cons x acc)
  obtain k s where x: "x = (k, s)" by (cases x)
  have v: "val_of (x # acc) c = (if c = k then dval s else val_of acc c)" for c
    by (simp add: val_of_def x)
  have out: "val_of acc k = 0"
  proof -
    have "map_of acc k = None" using Cons.prems(2) x by (simp add: map_of_eq_None_iff)
    then show ?thesis by (simp add: val_of_def)
  qed
  show ?case
  proof (cases "dval s = 0")
    case True
    with Cons x have IH: "sum_groups A [] acc = Inr gs" "distinct (map fst acc)" by (auto simp: is_zero_val)
    with Cons.IH [OF this] v True out show ?thesis by auto
  next
    case False
    with Cons.prems x obtain n gs1 where n: "negate_residual A zero_span [] s = Inr n"
      and gs1: "sum_groups A [] acc = Inr gs1"
      and gs: "gs = \<lparr>rg_currency = k, rg_unknown = [], rg_residual = \<lparr>amt_number = n, amt_currency = k\<rparr>\<rparr> # gs1"
      by (auto simp: is_zero_val)
    from n have nv: "dval n = - dval s" by (auto simp: negate_residual_def Let_def dest: neg_val)
    have IH: "(\<forall>g\<in>set gs1. rg_unknown g = [] \<and> dval (amt_number (rg_residual g)) \<noteq> 0 \<and>
        dval (amt_number (rg_residual g)) = - val_of acc (amt_currency (rg_residual g))) \<and>
      (\<forall>c. val_of acc c \<noteq> 0 \<longrightarrow> c \<in> (\<lambda>g. amt_currency (rg_residual g)) ` set gs1)"
      by (rule Cons.IH [OF gs1]) (use Cons.prems(2) in simp)
    have ne: "amt_currency (rg_residual g) \<noteq> k" if "g \<in> set gs1" for g
      using that out IH by fastforce
    show ?thesis
    proof (intro conjI)
      show "\<forall>g\<in>set gs. rg_unknown g = [] \<and> dval (amt_number (rg_residual g)) \<noteq> 0 \<and>
          dval (amt_number (rg_residual g)) = - val_of (x # acc) (amt_currency (rg_residual g))"
      proof
        fix g assume "g \<in> set gs"
        then show "rg_unknown g = [] \<and> dval (amt_number (rg_residual g)) \<noteq> 0 \<and>
          dval (amt_number (rg_residual g)) = - val_of (x # acc) (amt_currency (rg_residual g))"
          using IH False nv ne [of g] by (auto simp: gs v)
      qed
      show "\<forall>c. val_of (x # acc) c \<noteq> 0 \<longrightarrow> c \<in> (\<lambda>g. amt_currency (rg_residual g)) ` set gs"
        using IH by (simp add: gs v)
    qed
  qed
qed

lemma resolve_groups_free:
  "\<forall>g\<in>set gs. rg_unknown g = [] \<and> dval (amt_number (rg_residual g)) \<noteq> 0 \<Longrightarrow>
     resolve_residual_groups A bk d gs w = Inr (map rg_residual gs, [], w)"
  by (induction gs) (simp_all add: Let_def)

lemma sum_weights_each:
  "sum_weights A ps refs acc = Inr acc' \<Longrightarrow> ref \<in> set refs \<Longrightarrow>
     \<exists>w. posting_weight A (ps ! gr_posting ref) = Inr w"
proof (induction refs arbitrary: acc)
  case Nil
  then show ?case by simp
next
  case (Cons r refs)
  then obtain p w where p: "posting_at ps (gr_posting r) = Inr p" and w: "posting_weight A p = Inr w"
    by auto
  from Cons.prems(1) p w obtain acc1 where "sum_weights A ps refs acc1 = Inr acc'"
    by (auto split: option.split_asm)
  with Cons.IH Cons.prems(2) p w show ?case
    by (auto simp: posting_at_def split: if_split_asm)
qed

text \<open>The whole transaction.\<close>

lemma sum_described:
  assumes "pr_once pr" and "autos_unknown pr"
  shows "sum_list (map (\<lambda>ref. weight_in A c (pr_postings pr ! gr_posting ref)) (pr_booked_desc pr)) =
    net_weight A c (pr_postings pr)"
proof -
  let ?f = "\<lambda>k. weight_in A c (pr_postings pr ! k)"
  let ?ks = "map gr_posting (pr_booked_desc pr @ pr_unknown_desc pr)"
  have "net_weight A c (pr_postings pr) = sum_list (map ?f [0..<length (pr_postings pr)])"
  proof -
    have "map (weight_in A c) (pr_postings pr) = map ?f [0..<length (pr_postings pr)]"
      by (rule nth_equalityI) simp_all
    then show ?thesis by (simp add: net_weight_def)
  qed
  also have "\<dots> = sum_mset (image_mset ?f (mset [0..<length (pr_postings pr)]))"
    by (simp only: mset_map [symmetric] sum_mset_sum_list)
  also have "mset [0..<length (pr_postings pr)] = mset ?ks"
    using assms(1) by (simp add: pr_once_def)
  also have "sum_mset (image_mset ?f (mset ?ks)) = sum_list (map ?f ?ks)"
    by (simp only: mset_map [symmetric] sum_mset_sum_list)
  also have "\<dots> = sum_list (map (\<lambda>ref. ?f (gr_posting ref)) (pr_booked_desc pr)) +
      sum_list (map (\<lambda>ref. ?f (gr_posting ref)) (pr_unknown_desc pr))"
    by (simp add: comp_def)
  also have "sum_list (map (\<lambda>ref. ?f (gr_posting ref)) (pr_unknown_desc pr)) = 0"
  proof -
    have "sum_list (map ?f (filter (\<lambda>k. p_amount (pr_postings pr ! k) = None) ks)) = 0" for ks
      by (induction ks) simp_all
    with assms(2) show ?thesis by (simp add: autos_unknown_def comp_def)
  qed
  finally show ?thesis by simp
qed

lemma book_unknown_auto:
  assumes "book_unknown A bk d k (p\<lparr>p_amount := Some res\<rparr>) c w = Inr (None, w')"
    and "k < length (pr_postings (bw_pr w))" and "p = pr_postings (bw_pr w) ! k" and "p_cost p = None" and "work_ok w"
  obtains p' bp where "pr_postings (bw_pr w') = (pr_postings (bw_pr w))[k := p']"
    "pr_booked (bw_pr w') = pr_booked (bw_pr w) @ [bp]" "bp_inferred bp"
    "pr_dropped (bw_pr w') = pr_dropped (bw_pr w)" "length (pr_booked_desc (bw_pr w')) = Suc (length (pr_booked_desc (bw_pr w)))"
    "p' = p\<lparr>p_amount := Some res\<rparr> \<or> (\<exists>s. bp_reduction bp = Some s \<and> real_lot A (rs_lot s))"
proof -
  define tr where "tr = prepare_for_edit (bw_trace w) (p_account p)"
  obtain i where i: "tr_state tr (p_account p) = Some i"
    using assms(5) prepare_for_edit_Some unfolding tr_def work_ok_def by blast
  have k: "posting_at (pr_postings (bw_pr w)) k = Inr p" using assms(2,3) by (simp add: posting_at_def)
  note * = assms(1) [unfolded book_unknown_def Let_def k rbind_Inr, folded tr_def, unfolded i]
  from * obtain r where r: "book_one A (Some i) (p\<lparr>p_amount := Some res\<rparr>) (method_of bk (p_account p)) d = Inr r"
    by auto
  with * obtain x where "r = Inr x" by (cases r) auto
  moreover obtain l steps iv where "x = (l, steps, iv)" by (cases x)
  ultimately have b: "book_one A (Some i) (p\<lparr>p_amount := Some res\<rparr>) (method_of bk (p_account p)) d = Inr (Inr (l, steps, iv))"
    using r by simp
  with * obtain pr where pr: "promote_booked A (bw_pr w) k p (p\<lparr>p_amount := Some res\<rparr>) l steps c = Inr pr"
    and w': "w' = \<lparr>bw_pr = pr, bw_trace = put_inventory tr (p_account p) iv\<rparr>"
    by (auto split: sum.split_asm)
  have "l = None" using book_one_lot_cost [OF b] assms(4) by (cases l) auto
  consider "steps = []" | s where "steps = [s]" | s t us where "steps = s # t # us"
    by (metis list.exhaust)
  then show thesis
  proof cases
    case 1
    with pr \<open>l = None\<close> that [of "p\<lparr>p_amount := Some res\<rparr>"] show thesis
      by (auto simp: w' promote_booked_def promote_cash_augmentation_def promote_def new_booked_def
          split: option.split_asm)
  next
    case (2 s)
    with pr \<open>l = None\<close> that [of "install_lot A (p\<lparr>p_amount := Some res\<rparr>) s"] show thesis
      by (auto simp: w' promote_booked_def promote_single_lot_reduction_def promote_def new_booked_def
          install_lot_def split: option.split_asm if_split_asm)
  next
    case 3
    with pr \<open>l = None\<close> show thesis by (simp add: promote_booked_def)
  qed
qed

lemma auto_posting_balances:
  assumes visit: "visit_txn A bk st txn = ([], Inr (view, txn', st'))"
    and auto: "\<exists>p\<in>set (txn_postings txn). p_amount p = None"
    and known: "\<forall>p\<in>set (txn_postings txn). \<not> cost_number_missing (p_cost p)"
    and cash: "\<forall>bp\<in>set (tv_booked view). bp_inferred bp \<longrightarrow>
      (\<forall>s. bp_reduction bp = Some s \<longrightarrow> \<not> real_lot A (rs_lot s))"
  shows "net_weight A c (txn_postings txn') = 0 \<and>
    (\<forall>p\<in>set (txn_postings txn'). \<exists>w. posting_weight A p = Inr (Some w))"
  using visit
proof (cases rule: visit_txn_stages)
  case (booked ds1 ds2 w ps bps tr)
  let ?w = "\<lparr>bw_pr = new_posting_resolution, bw_trace = new_state_trace st\<rparr>"
  have plain: "autos_plain (txn_postings txn)"
    using booked(1) by (simp add: validate_structure_def validate_autos_plain)
  have p1: "pass1 A bk (txn_date txn) ?w (txn_postings txn) = ([], Inr w)" using booked by simp
  have "pass1_inv0 (bw_pr ?w)"
    by (simp add: pass1_inv0_def pr_once_def autos_unknown_def new_posting_resolution_def)
  then have inv: "pass1_inv0 (bw_pr w)" by (rule pass1_inv0 [OF p1 _ plain known])
  have "work_ok ?w" by (simp add: bookings_live_def) (simp add: new_posting_resolution_def)
  then have wok: "work_ok w" by (rule pass1_ok [OF p1 _ plain])
  have "length (pr_unknown_desc (bw_pr w)) = length (filter (\<lambda>p. p_amount p = None) (txn_postings txn))"
    by (rule pass1_unknown_count [OF p1 known])
  moreover have "length (filter (\<lambda>p. p_amount p = None) (txn_postings txn)) \<le> 1"
    using autos_count [of False "txn_postings txn"] booked(1) by (simp add: validate_structure_def)
  moreover have "filter (\<lambda>p. p_amount p = None) (txn_postings txn) \<noteq> []"
    using auto by (auto simp: filter_empty_conv)
  ultimately have "length (pr_unknown_desc (bw_pr w)) = 1"
    by (simp add: le_Suc_eq)
  then obtain ref where ref: "pr_unknown_desc (bw_pr w) = [ref]" by (auto simp: length_Suc_conv)
  define k where "k = gr_posting ref"
  have "ref \<in> set (map (\<lambda>k. \<lparr>gr_currency = [], gr_posting = k\<rparr>)
       (filter (\<lambda>k. p_amount (pr_postings (bw_pr w) ! k) = None) [0..<length (pr_postings (bw_pr w))]))"
    using inv unfolding pass1_inv0_def autos_unknown_def ref by (metis list.set_intros(1))
  then have k: "pr_unknown_desc (bw_pr w) = [\<lparr>gr_currency = [], gr_posting = k\<rparr>]"
    and kn: "k < length (pr_postings (bw_pr w))" "p_amount (pr_postings (bw_pr w) ! k) = None"
    by (auto simp: ref k_def)
  have plain_k: "p_cost (pr_postings (bw_pr w) ! k) = None" "p_price (pr_postings (bw_pr w) ! k) = None"
    using wok kn by (auto simp: work_ok_def pr_ok_def autos_plain_def)
  from booked(3) obtain gs free rs fails w1 pr1 d2 w2 pr2 where
    s: "group_for_residual A (bw_pr w) = Inr (gs, free)"
    "resolve_residual_groups A bk (txn_date txn) gs w = Inr (rs, fails, w1)"
    "record_failures (bw_pr w1) (map (\<lambda>f. (uf_posting f, uf_currency f)) fails) = Inr pr1"
    "resolve_free_residuals A bk (txn_date txn) free rs (w1\<lparr>bw_pr := pr1\<rparr>) = Inr (d2, w2)"
    "(if d2 \<noteq> [] then record_failures (bw_pr w2) (map (\<lambda>k. (k, [])) free) else Inr (bw_pr w2)) = Inr pr2"
    "finalize A pr2 (bw_trace w2) = Inr (ps, bps, tr)" and "ds2 = map uf_diag fails @ d2"
    by (rule pass2_stages)
  then have d2: "d2 = []" using booked(4) by simp
  from s(1) k obtain acc where acc: "sum_weights A (pr_postings (bw_pr w)) (pr_booked_desc (bw_pr w)) [] = Inr acc"
    and gs: "sum_groups A [] acc = Inr gs" and free: "free = [k]"
    by (auto simp: group_for_residual_def)
  have val: "val_of acc c' = net_weight A c' (pr_postings (bw_pr w)) \<and> distinct (map fst acc)" for c'
    using sum_weights_val [OF acc, of c'] sum_described [of "bw_pr w" c'] inv
    by (simp add: pass1_inv0_def val_of_def)
  then have "distinct (map fst acc)" by blast
  note g = sum_groups_val [OF gs this]
  then have "\<forall>g\<in>set gs. rg_unknown g = [] \<and> dval (amt_number (rg_residual g)) \<noteq> 0" by blast
  from resolve_groups_free [OF this, of bk "txn_date txn" w] s(2)
  have rs: "rs = map rg_residual gs" "fails = []" "w1 = w" by auto
  have w1: "w1\<lparr>bw_pr := pr1\<rparr> = w" using s(3) rs by simp
  have pk: "posting_at (pr_postings (bw_pr w)) k = Inr (pr_postings (bw_pr w) ! k)"
    using kn by (simp add: posting_at_def)
  note free4 = s(4) [unfolded w1 free d2]
  have "\<exists>res. rs = [res]"
    using free4 pk by (auto simp: resolve_free_residuals_def split: list.split_asm)
  then obtain res where res: "rs = [res]" ..
  with free4 pk kn obtain fd where
    "book_unknown A bk (txn_date txn) k ((pr_postings (bw_pr w) ! k)\<lparr>p_amount := Some res\<rparr>)
      (amt_currency res) w = Inr (fd, w2)" "(case fd of Some d \<Rightarrow> [d] | None \<Rightarrow> []) = []"
    by (auto simp: resolve_free_residuals_def)
  then have "book_unknown A bk (txn_date txn) k ((pr_postings (bw_pr w) ! k)\<lparr>p_amount := Some res\<rparr>)
      (amt_currency res) w = Inr (None, w2)" by (cases fd) auto
  from book_unknown_auto [OF this kn(1) refl plain_k(1) wok] obtain p' bp where
    w2: "pr_postings (bw_pr w2) = (pr_postings (bw_pr w))[k := p']"
    "pr_booked (bw_pr w2) = pr_booked (bw_pr w) @ [bp]" "bp_inferred bp"
    "pr_dropped (bw_pr w2) = pr_dropped (bw_pr w)"
    "length (pr_booked_desc (bw_pr w2)) = Suc (length (pr_booked_desc (bw_pr w)))"
    and p': "p' = (pr_postings (bw_pr w) ! k)\<lparr>p_amount := Some res\<rparr> \<or>
      (\<exists>s. bp_reduction bp = Some s \<and> real_lot A (rs_lot s))" .
  have pr2: "pr2 = bw_pr w2" using s(5) d2 by simp
  have fin: "ps = pr_postings (bw_pr w2)"
    "bps = map (\<lambda>(bp, ref). bp\<lparr>bp_source := Some (gr_posting ref)\<rparr>) (zip (pr_booked pr2) (pr_booked_desc pr2))"
    using s(6) inv w2(4) by (auto simp: finalize_def pr2 pass1_inv0_def)
  have "length (pr_booked (bw_pr w)) = length (pr_booked_desc (bw_pr w))"
    using wok by (simp add: work_ok_def pr_ok_def)
  then obtain ref where "(bp, ref) \<in> set (zip (pr_booked pr2) (pr_booked_desc pr2))"
    using w2(2,5) in_set_impl_in_set_zip1 [of "pr_booked pr2" "pr_booked_desc pr2" bp] pr2 by auto
  then have "bp\<lparr>bp_source := Some (gr_posting ref)\<rparr> \<in> set bps" by (force simp: fin(2))
  with cash booked(7) w2(3) have "\<not> (\<exists>s. bp_reduction bp = Some s \<and> real_lot A (rs_lot s))" by force
  with p' have p': "p' = (pr_postings (bw_pr w) ! k)\<lparr>p_amount := Some res\<rparr>" by blast
  have "weight_in A c p' = (if amt_currency res = c then dval (amt_number res) else 0)"
    using plain_k by (simp add: weight_in_def p' posting_weight_plain)
  then have "net_weight A c ps = val_of acc c + (if amt_currency res = c then dval (amt_number res) else 0)"
    using kn val by (simp add: fin(1) w2(1) net_weight_update)
  also have "\<dots> = 0"
  proof -
    from res rs obtain g0 where g0: "gs = [g0]" "rg_residual g0 = res" by (auto simp: map_eq_Cons_conv)
    then have "dval (amt_number res) = - val_of acc (amt_currency res)" using g by auto
    moreover have "c = amt_currency res" if "val_of acc c \<noteq> 0" using g that g0 by auto
    ultimately show ?thesis by auto
  qed
  finally have zero: "net_weight A c ps = 0" .
  have "\<exists>w. posting_weight A (ps ! j) = Inr (Some w)" if j: "j < length ps" for j
  proof (cases "j = k")
    case True
    with kn plain_k show ?thesis by (simp add: fin(1) w2(1) p' posting_weight_plain)
  next
    case False
    have jl: "j < length (pr_postings (bw_pr w))" using j by (simp add: fin(1) w2(1))
    have "pr_unknown_desc (bw_pr w) = map (\<lambda>k. \<lparr>gr_currency = [], gr_posting = k\<rparr>)
       (filter (\<lambda>k. p_amount (pr_postings (bw_pr w) ! k) = None) [0..<length (pr_postings (bw_pr w))])"
      using inv by (simp add: pass1_inv0_def autos_unknown_def)
    then have "filter (\<lambda>k. p_amount (pr_postings (bw_pr w) ! k) = None) [0..<length (pr_postings (bw_pr w))] = [k]"
      by (auto simp: k map_eq_Cons_conv)
    then have "j \<in> {k}" if "p_amount (pr_postings (bw_pr w) ! j) = None"
      using that jl by (metis (mono_tags, lifting) atLeast0LessThan filter_set lessThan_iff list.simps(15) 
          empty_set mem_Collect_eq set_upt Set.filter_eq)
    with False have amt: "p_amount (pr_postings (bw_pr w) ! j) \<noteq> None" by blast
    have "j \<in># mset (map gr_posting (pr_booked_desc (bw_pr w) @ pr_unknown_desc (bw_pr w)))"
      using inv jl by (simp only: pass1_inv0_def pr_once_def) simp
    then obtain ref where "ref \<in> set (pr_booked_desc (bw_pr w))" "gr_posting ref = j"
      using False by (auto simp: k)
    with sum_weights_each [OF acc] obtain wo where "posting_weight A (pr_postings (bw_pr w) ! j) = Inr wo"
      by blast
    with amt posting_weight_Some [OF this] have "\<exists>x. posting_weight A (pr_postings (bw_pr w) ! j) = Inr (Some x)"
      by auto
    with False show ?thesis by (simp add: fin(1) w2(1))
  qed
  then have "\<forall>p\<in>set ps. \<exists>w. posting_weight A p = Inr (Some w)"
    by (auto simp: in_set_conv_nth)
  with zero show ?thesis by (simp add: booked(5))
qed simp

end

end
