(* ===== verification/Walks.thy ===== *)
theory Walks
  imports Visit_State
begin

text \<open>
  \<open>Walk\<close> over a sequence of directives: what it returns, what it leaves of its input, what a
  visitor sees, and that \<open>Inspect\<close> shows the view a full walk reports.
\<close>

section \<open>One turn of the walk\<close>

text \<open>A transaction's turn that does not halt the walk, with the visitor's answer.\<close>

definition ask :: "'s visitor option \<Rightarrow> nat \<Rightarrow> transaction \<Rightarrow> txn_view \<Rightarrow> 's \<Rightarrow> bool \<times> 's" where
  "ask visit n txn view s =
     (if tv_booked view = [] \<and> tv_before view = [] then (True, s)
      else case visit of None \<Rightarrow> (True, s) | Some v \<Rightarrow> v n txn view s)"

lemma walk_loop_txn:
  "walk_loop A opts visit n bk st s (DTransaction d # rest) =
     (case visit_txn A bk st d of
        (ds, Inl (Panic e)) \<Rightarrow> Inl (Panic e)
      | (ds, Inl (SysErr e)) \<Rightarrow>
          Inr (emit (DTransaction d) (DTransaction d) ds (stop_walk rest [] (Some (SysErr e)) bk None s))
      | (ds, Inr (view, booked, st')) \<Rightarrow>
          let d' = (if needs_booking_clone d then d else booked) in
          (case ask visit n d' view s of
             (True, s') \<Rightarrow>
               rbind (walk_loop A opts visit (Suc n) bk st' s' rest) (\<lambda>r.
                 Inr (emit (DTransaction booked) (DTransaction d') ds r))
           | (False, s') \<Rightarrow>
               Inr (emit (DTransaction booked) (DTransaction d') ds
                 (stop_walk rest [] None bk (Some st') s'))))"
  by (auto simp: ask_def Let_def split: prod.splits sum.splits go_error.splits bool.splits)

declare walk_loop.simps(3) [simp del]

definition out_txn :: "transaction \<Rightarrow> transaction \<Rightarrow> bool" where
  "out_txn d d' \<longleftrightarrow> d' = d\<lparr>txn_postings := txn_postings d'\<rparr>"

lemma visit_txn_out: "visit_txn A bk st d = (ds, Inr (view, booked, st')) \<Longrightarrow> out_txn d booked"
  by (erule visit_txn_stages) (auto simp: out_txn_def)

lemma walk_txnE [consumes 1, case_names halted stopped continued]:
  assumes "walk_loop A opts visit n bk st s (DTransaction d # rest) = Inr r"
  obtains (halted) ds e where "visit_txn A bk st d = (ds, Inl (SysErr e))"
      "r = emit (DTransaction d) (DTransaction d) ds (stop_walk rest [] (Some (SysErr e)) bk None s)"
  | (stopped) ds view booked st' d' s' where "visit_txn A bk st d = (ds, Inr (view, booked, st'))"
      "d' = (if needs_booking_clone d then d else booked)" "ask visit n d' view s = (False, s')"
      "r = emit (DTransaction booked) (DTransaction d') ds (stop_walk rest [] None bk (Some st') s')"
  | (continued) ds view booked st' d' s' r' where "visit_txn A bk st d = (ds, Inr (view, booked, st'))"
      "d' = (if needs_booking_clone d then d else booked)" "ask visit n d' view s = (True, s')"
      "walk_loop A opts visit (Suc n) bk st' s' rest = Inr r'"
      "r = emit (DTransaction booked) (DTransaction d') ds r'"
proof -
  obtain ds x where v: "visit_txn A bk st d = (ds, x)" by fastforce
  show thesis
  proof (cases x)
    case (Inl e)
    with assms v show thesis by (cases e) (auto simp: walk_loop_txn intro: halted)
  next
    case (Inr y)
    obtain view booked st' where y: "y = (view, booked, st')" by (cases y)
    define d' where "d' = (if needs_booking_clone d then d else booked)"
    obtain b s' where b: "ask visit n d' view s = (b, s')" by fastforce
    show thesis
    proof (cases b)
      case True
      from assms v Inr y b True obtain r' where
        "walk_loop A opts visit (Suc n) bk st' s' rest = Inr r'"
        "r = emit (DTransaction booked) (DTransaction d') ds r'"
        by (auto simp: walk_loop_txn Let_def d'_def [symmetric])
      with v Inr y b d'_def True show thesis by (intro continued) simp_all
    next
      case False
      with assms v Inr y b d'_def show thesis
        by (intro stopped [of ds view booked st' d' s']) (auto simp: walk_loop_txn Let_def)
    qed
  qed
qed

text \<open>Every other directive passes through.\<close>

lemma walk_otherE:
  assumes "walk_loop A opts visit n bk st s (dir # rest) = Inr r" and "\<forall>d. dir \<noteq> DTransaction d"
  obtains bk' r' where "walk_loop A opts visit (Suc n) bk' st s rest = Inr r'" "r = emit dir dir [] r'"
  using assms by (cases dir) auto

lemma emit_sels [simp]:
  "wr_out (emit a b ds r) = a # wr_out r" "wr_input (emit a b ds r) = b # wr_input r"
  "wr_diags (emit a b ds r) = ds @ wr_diags r" "wr_error (emit a b ds r) = wr_error r"
  "wr_state (emit a b ds r) = wr_state r" "wr_visitor (emit a b ds r) = wr_visitor r"
  by (simp_all add: emit_def)

lemma stop_walk_sels [simp]:
  "wr_out (stop_walk rest ds e bk st s) = []" "wr_input (stop_walk rest ds e bk st s) = rest"
  "wr_diags (stop_walk rest ds e bk st s) = ds" "wr_error (stop_walk rest ds e bk st s) = e"
  "wr_state (stop_walk rest ds e bk st s) = st" "wr_visitor (stop_walk rest ds e bk st s) = s"
  by (simp_all add: stop_walk_def)

section \<open>The directives\<close>

text \<open>What a directive may become: a transaction gets new postings, nothing else changes.\<close>

fun booked_form :: "directive \<Rightarrow> directive \<Rightarrow> bool" where
  "booked_form (DTransaction d) (DTransaction d') = out_txn d d'"
| "booked_form d d' = (d' = d)"

lemma booked_form_refl [simp]: "booked_form d d"
  by (cases d) (auto simp: out_txn_def)

definition kept_input :: "directive \<Rightarrow> directive \<Rightarrow> bool" where
  "kept_input d d' \<longleftrightarrow> booked_form d d' \<and> (\<forall>t. d = DTransaction t \<and> needs_booking_clone t \<longrightarrow> d' = d)"

lemma walk_loop_out:
  "walk_loop A opts visit n bk st s ds = Inr r \<Longrightarrow>
     list_all2 booked_form (take (length (wr_out r)) ds) (wr_out r) \<and>
     list_all2 kept_input ds (wr_input r) \<and>
     (wr_error r = None \<and> visit = None \<longrightarrow> length (wr_out r) = length ds)"
proof (induction ds arbitrary: n bk st s r)
  case Nil
  then show ?case by auto
next
  case (Cons dir ds)
  have refl: "list_all2 kept_input xs xs" for xs
    by (rule list.rel_refl) (simp add: kept_input_def)
  show ?case
  proof (cases "\<exists>d. dir = DTransaction d")
    case False
    with Cons.prems obtain bk' r' where "walk_loop A opts visit (Suc n) bk' st s ds = Inr r'" "r = emit dir dir [] r'"
      by (metis walk_otherE)
    with Cons.IH False show ?thesis by (auto simp: kept_input_def)
  next
    case True
    then obtain d where d: "dir = DTransaction d" ..
    from Cons.prems [unfolded d] show ?thesis
    proof (cases rule: walk_txnE)
      case (halted ds' e)
      with refl [of ds] show ?thesis by (simp add: d kept_input_def [of "DTransaction d"] out_txn_def)
    next
      case (stopped ds' view booked st' d' s')
      then have "visit \<noteq> None" by (cases visit) (auto simp: ask_def split: if_splits)
      with stopped visit_txn_out [OF stopped(1)] refl [of ds] show ?thesis
        by (auto simp: d kept_input_def [of "DTransaction d"] out_txn_def)
    next
      case (continued ds' view booked st' d' s' r')
      with Cons.IH [OF continued(4)] visit_txn_out [OF continued(1)] show ?thesis
        by (auto simp: d kept_input_def out_txn_def)
    qed
  qed
qed

section \<open>The inventories\<close>

context inventory_invariant
begin

lemma walk_loop_invariant:
  "walk_loop A opts visit n bk st s ds = Inr r \<Longrightarrow> \<forall>a i. st a = Some i \<longrightarrow> Q i \<Longrightarrow>
     wr_state r = Some st' \<Longrightarrow> st' a = Some i \<Longrightarrow> Q i"
proof (induction ds arbitrary: n bk st s r)
  case Nil
  then show ?case by auto
next
  case (Cons dir ds)
  show ?case
  proof (cases "\<exists>d. dir = DTransaction d")
    case False
    with Cons.prems(1) obtain bk' r' where "walk_loop A opts visit (Suc n) bk' st s ds = Inr r'" "r = emit dir dir [] r'"
      by (metis walk_otherE)
    with Cons.IH Cons.prems show ?thesis by simp
  next
    case True
    then obtain d where d: "dir = DTransaction d" ..
    from Cons.prems(1) [unfolded d] show ?thesis
    proof (cases rule: walk_txnE)
      case (stopped ds' view booked st1 d' s')
      with visit_txn_invariant [OF stopped(1) Cons.prems(2)] Cons.prems show ?thesis by simp
    next
      case (continued ds' view booked st1 d' s' r')
      with Cons.IH [OF continued(4) visit_txn_invariant [OF continued(1) Cons.prems(2)]] Cons.prems
      show ?thesis by simp
    qed (use Cons.prems in simp)
  qed
qed

lemma walk_invariant:
  assumes "walk A opts visit s ds = Inr r" and "final r a = Some (Some i)"
  shows "Q i"
  using walk_loop_invariant [OF assms(1) [unfolded walk_def]] assms(2) by (auto simp: final_def)

end

section \<open>Visitors\<close>

text \<open>The visitor that records every view with the position of its transaction.\<close>

definition record_visitor :: "(nat \<times> txn_view) list visitor" where
  "record_visitor = (\<lambda>n txn view seen. (True, seen @ [(n, view)]))"

lemma walk_loop_recorded:
  "walk_loop A opts (Some record_visitor) n bk st seen ds = Inr r \<Longrightarrow> \<exists>more. wr_visitor r = seen @ more"
proof (induction ds arbitrary: n bk st seen r)
  case Nil
  then show ?case by auto
next
  case (Cons dir ds)
  show ?case
  proof (cases "\<exists>d. dir = DTransaction d")
    case False
    with Cons show ?thesis by (metis walk_otherE emit_sels(6))
  next
    case True
    then obtain d where d: "dir = DTransaction d" ..
    from Cons.prems [unfolded d] show ?thesis
    proof (cases rule: walk_txnE)
      case (continued ds' view booked st1 d' s' r')
      then have "s' = seen \<or> s' = seen @ [(n, view)]" by (auto simp: ask_def record_visitor_def split: if_splits)
      with Cons.IH [OF continued(4)] continued(5) show ?thesis by auto
    qed (auto simp: ask_def record_visitor_def split: if_splits)
  qed
qed

lemma inspect_recorded_loop:
  "walk_loop A opts (Some (inspect_visitor k)) n bk st None ds = Inr r \<Longrightarrow>
   walk_loop A opts (Some record_visitor) n bk st seen ds = Inr r' \<Longrightarrow>
   map_of seen k = None \<Longrightarrow> wr_visitor r = map_of (wr_visitor r') k"
proof (induction ds arbitrary: n bk st seen r r')
  case Nil
  then show ?case by auto
next
  case (Cons dir ds)
  show ?case
  proof (cases "\<exists>d. dir = DTransaction d")
    case False
    from Cons.prems(1,2) False obtain bk' r1 r2 where
      "walk_loop A opts (Some (inspect_visitor k)) (Suc n) bk' st None ds = Inr r1" "r = emit dir dir [] r1"
      "walk_loop A opts (Some record_visitor) (Suc n) bk' st seen ds = Inr r2" "r' = emit dir dir [] r2"
      by (cases dir) auto
    with Cons.IH [of "Suc n" bk' st r1 seen r2] Cons.prems(3) show ?thesis by simp
  next
    case True
    then obtain d where d: "dir = DTransaction d" ..
    from Cons.prems(2) [unfolded d] show ?thesis
    proof (cases rule: walk_txnE)
      case (halted ds' e)
      with Cons.prems(1,3) show ?thesis by (auto simp: d walk_loop_txn)
    next
      case (stopped ds' view booked st1 d' s')
      then show ?thesis by (auto simp: ask_def record_visitor_def split: if_splits)
    next
      case c: (continued ds' view booked st1 d' s' r2)
      show ?thesis
      proof (cases "tv_booked view = [] \<and> tv_before view = []")
        case True
        with c Cons.prems(1) obtain r1 where
          "walk_loop A opts (Some (inspect_visitor k)) (Suc n) bk st1 None ds = Inr r1"
          "wr_visitor r = wr_visitor r1" "s' = seen"
          by (auto simp: d walk_loop_txn ask_def Let_def)
        with Cons.IH [of "Suc n" bk st1 r1 seen r2] c Cons.prems(3) show ?thesis by simp
      next
        case False
        then have s': "s' = seen @ [(n, view)]" using c(3) by (auto simp: ask_def record_visitor_def)
        show ?thesis
        proof (cases "n = k")
          case True
          from walk_loop_recorded [OF c(4)] obtain more where "wr_visitor r2 = s' @ more" ..
          with c s' True False Cons.prems show ?thesis
            by (auto simp: d walk_loop_txn ask_def inspect_visitor_def Let_def map_add_def)
        next
          case neq: False
          with False c Cons.prems(1) obtain r1 where
            "walk_loop A opts (Some (inspect_visitor k)) (Suc n) bk st1 None ds = Inr r1"
            "wr_visitor r = wr_visitor r1"
            by (auto simp: d walk_loop_txn ask_def inspect_visitor_def Let_def)
          moreover have "map_of s' k = None"
            using s' neq Cons.prems(3) by (simp add: map_add_def)
          ultimately show ?thesis
            using Cons.IH [of "Suc n" bk st1 r1 s' r2] c by simp
        qed
      qed
    qed
  qed
qed

end
