(* ===== verification/Visit_Findings.thy ===== *)
theory Visit_Findings
  imports Walks
begin

text \<open>
  The findings a walk can report: the codes that reach a user are the ones of the structure check,
  of the lot resolution, of \<open>Reduce\<close> and of the interpolation, and no other.
\<close>

definition structure_codes :: "string set" where
  "structure_codes = {''invalid-auto-posting'', ''multiple-auto-postings''}"

definition lot_codes :: "string set" where
  "lot_codes = {''augmentation-requires-cost'', ''zero-units-cost-total'', ''invalid-booking-method'',
     ''no-matching-lot'', ''reduction-exceeds-inventory'', ''ambiguous-lot-match''}"

definition booking_codes :: "string set" where
  "booking_codes = insert ''unresolvable-interpolation'' lot_codes"

definition coded :: "string set \<Rightarrow> diagnostic list \<Rightarrow> bool" where
  "coded C ds \<longleftrightarrow> diag_code ` set ds \<subseteq> C"

lemma coded_simps [simp]:
  "coded C []" "coded C (d # ds) \<longleftrightarrow> diag_code d \<in> C \<and> coded C ds"
  "coded C (xs @ ys) \<longleftrightarrow> coded C xs \<and> coded C ys"
  by (auto simp: coded_def)

lemma new_diag_code [simp]: "diag_code (new_diag c sp a m) = c"
  by (simp add: new_diag_def)

lemma lot_codes_booking: "c \<in> lot_codes \<Longrightarrow> c \<in> booking_codes"
  by (simp add: booking_codes_def)

text \<open>A case distinction in an equation, where the value is bound outside.\<close>

lemma case_sum_eq:
  "(case r of Inl x \<Rightarrow> g x | Inr y \<Rightarrow> k y) = z \<longleftrightarrow> (\<exists>x. r = Inl x \<and> g x = z) \<or> (\<exists>y. r = Inr y \<and> k y = z)"
  by (cases r) auto

section \<open>One posting\<close>

lemma resolve_lot_code: "resolve_lot A c u d = Inr (Inl f) \<Longrightarrow> diag_code f \<in> lot_codes"
  by (auto simp: resolve_lot_def lot_codes_def Let_def split: option.splits cost_holder.splits if_splits)

lemma inv_reduce_code: "inv_reduce A i u m b = Inr (Inl f) \<Longrightarrow> diag_code f \<in> lot_codes"
  by (auto simp: inv_reduce_def lot_codes_def split: if_splits)

lemma book_augment_code: "book_augment A iv p d = Inr (Inl f) \<Longrightarrow> diag_code f \<in> lot_codes"
  by (auto simp: book_augment_def case_sum_eq dest: resolve_lot_code split: option.splits)

lemma book_reduce_code: "book_reduce A iv p m = Inr (Inl f) \<Longrightarrow> diag_code f \<in> lot_codes"
  by (auto simp: book_reduce_def Let_def case_sum_eq dest: inv_reduce_code split: option.splits)

lemma book_one_code:
  assumes "book_one A iv p m d = Inr (Inl f)"
  shows "diag_code f \<in> lot_codes"
proof -
  from assms obtain k where "classify A iv p m = Inr k"
    and k: "(case k of KindAugment \<Rightarrow> rbind (book_augment A iv p d) (\<lambda>r.
              Inr (case r of Inl f \<Rightarrow> Inl f | Inr (l, iv') \<Rightarrow> Inr (l, [], iv')))
      | KindReduce \<Rightarrow> rbind (book_reduce A iv p m) (\<lambda>r.
              Inr (case r of Inl f \<Rightarrow> Inl f | Inr (steps, iv') \<Rightarrow> Inr (None, steps, iv')))) =
      (Inr (Inl f) :: (diagnostic + (lot option \<times> reduction_step list \<times> inventory option)) result)"
    by (auto simp: book_one_def split: if_splits)
  show ?thesis
  proof (cases k)
    case KindAugment
    with k obtain r where "book_augment A iv p d = Inr r" "r = Inl f"
      by (auto simp: case_sum_eq)
    then show ?thesis using book_augment_code by blast
  next
    case KindReduce
    with k obtain r where "book_reduce A iv p m = Inr r" "r = Inl f"
      by (auto simp: case_sum_eq)
    then show ?thesis using book_reduce_code by blast
  qed
qed

lemma book_one_booking: "book_one A iv p m d = Inr (Inl f) \<Longrightarrow> diag_code f \<in> booking_codes"
  by (rule lot_codes_booking [OF book_one_code])

section \<open>The two passes\<close>

lemma pass1_step_code:
  "pass1_step A bk d w p = Inr (ds, w') \<Longrightarrow> coded booking_codes ds"
  by (auto simp: pass1_step_def Let_def case_sum_eq split: if_splits dest!: book_one_booking)

lemma pass1_code: "pass1 A bk d w ps = (ds, r) \<Longrightarrow> coded booking_codes ds"
proof (induction ps arbitrary: w ds)
  case Nil
  then show ?case by simp
next
  case (Cons p ps)
  show ?case
  proof (cases "pass1_step A bk d w p")
    case (Inl e)
    with Cons.prems show ?thesis by simp
  next
    case (Inr x)
    obtain d1 w1 where x: "x = (d1, w1)" by (cases x)
    obtain d2 r2 where rest: "pass1 A bk d w1 ps = (d2, r2)" by (cases "pass1 A bk d w1 ps")
    with Cons.prems Inr x have "ds = d1 @ d2" "r2 = r" by auto
    with pass1_step_code [OF Inr [unfolded x]] Cons.IH [OF rest [unfolded \<open>r2 = r\<close>]] show ?thesis by simp
  qed
qed

lemma book_unknown_code:
  assumes "book_unknown A bk d k p c w = Inr (Some f, w')"
  shows "diag_code f \<in> booking_codes"
  using assms
  by (auto simp: book_unknown_def Let_def case_sum_eq dest!: book_one_booking)

lemma failure_codes [simp]:
  "diag_code (zero_units_diag p) = ''unresolvable-interpolation''"
  "diag_code (ambiguous_unknown_diag p) = ''unresolvable-interpolation''"
  by (simp_all add: zero_units_diag_def ambiguous_unknown_diag_def)

lemma unresolvable_code [simp]: "''unresolvable-interpolation'' \<in> booking_codes"
  by (simp add: booking_codes_def)

lemma resolve_residual_groups_code:
  "resolve_residual_groups A bk d gs w = Inr (rs, fails, w') \<Longrightarrow> coded booking_codes (map uf_diag fails)"
proof (induction gs arbitrary: w rs fails)
  case Nil
  then show ?case by simp
next
  case (Cons g gs)
  consider (none) "rg_unknown g = []" | (one) k where "rg_unknown g = [k]"
    | (many) a b ks where "rg_unknown g = a # b # ks"
    by (metis list.exhaust)
  then show ?case
  proof cases
    case none
    with Cons.prems obtain free where "resolve_residual_groups A bk d gs w = Inr (free, fails, w')"
      by (auto simp: Let_def split: if_splits)
    then show ?thesis by (rule Cons.IH)
  next
    case one
    with Cons.prems obtain p amt where p: "posting_at (pr_postings (bw_pr w)) k = Inr p" "p_amount p = Some amt"
      by (auto simp: Let_def)
    show ?thesis
    proof (cases "apd_sign A (amt_number amt) = 0")
      case True
      with Cons.prems one p obtain free fs where
        "resolve_residual_groups A bk d gs w = Inr (free, fs, w')" and
        "fails = \<lparr>uf_posting = k, uf_currency = amt_currency (rg_residual g), uf_diag = zero_units_diag p\<rparr> # fs"
        by (auto simp: Let_def)
      with Cons.IH show ?thesis by simp
    next
      case False
      with Cons.prems one p obtain finding w1 free fs where
        b: "book_unknown A bk d k
          (p\<lparr>p_cost := Some (HSpec (synthesize_cost_spec (p_cost p) (rg_residual g) d))\<rparr>)
          (amt_currency (rg_residual g)) w = Inr (finding, w1)"
        and rest: "resolve_residual_groups A bk d gs w1 = Inr (free, fs, w')"
        and f: "fails = (case finding of None \<Rightarrow> fs
          | Some x \<Rightarrow> \<lparr>uf_posting = k, uf_currency = amt_currency (rg_residual g), uf_diag = x\<rparr> # fs)"
        by (auto simp: Let_def)
      show ?thesis
      proof (cases finding)
        case None
        with Cons.IH [OF rest] f show ?thesis by simp
      next
        case (Some x)
        with Cons.IH [OF rest] f book_unknown_code [OF b [unfolded Some]] show ?thesis by simp
      qed
    qed
  next
    case many
    with Cons.prems obtain ps free fs where
      rest: "resolve_residual_groups A bk d gs w = Inr (free, fs, w')" and
      f: "fails = map (\<lambda>(k, p). \<lparr>uf_posting = k, uf_currency = amt_currency (rg_residual g),
        uf_diag = ambiguous_unknown_diag p\<rparr>) (zip (a # b # ks) ps) @ fs"
      by (auto simp: Let_def)
    have "coded booking_codes (map uf_diag (map (\<lambda>(k, p). \<lparr>uf_posting = k, uf_currency = c,
        uf_diag = ambiguous_unknown_diag p\<rparr>) xs))" for c and xs :: "(nat \<times> posting) list"
      by (induction xs) auto
    with Cons.IH [OF rest] show ?thesis by (simp add: f)
  qed
qed

lemma resolve_free_residuals_code:
  assumes "resolve_free_residuals A bk d free rs w = Inr (ds, w')"
  shows "coded booking_codes ds"
proof -
  have map: "coded booking_codes (map ambiguous_unknown_diag ps)" for ps
    by (induction ps) auto
  consider (none) "free = []" | (one) k where "free = [k]" | (many) a b ks where "free = a # b # ks"
    by (metis list.exhaust)
  then show ?thesis
  proof cases
    case none
    with assms show ?thesis by (simp add: resolve_free_residuals_def)
  next
    case one
    with assms obtain p where p: "posting_at (pr_postings (bw_pr w)) k = Inr p"
      by (auto simp: resolve_free_residuals_def)
    consider (nil) "rs = []" | (res) x where "rs = [x]" | (more) x y zs where "rs = x # y # zs"
      by (metis list.exhaust)
    then show ?thesis
    proof cases
      case res
      have opt: "coded booking_codes (case finding of Some x \<Rightarrow> [x] | None \<Rightarrow> [])"
        if "book_unknown A bk d k q c w = Inr (finding, v)" for q c v finding
        using that by (cases finding) (auto dest: book_unknown_code)
      with assms one p res show ?thesis
        by (cases "p_amount p") (auto simp: resolve_free_residuals_def split: if_splits)
    qed (use assms one p in \<open>auto simp: resolve_free_residuals_def\<close>)
  next
    case many
    with assms map show ?thesis by (auto simp: resolve_free_residuals_def)
  qed
qed

lemma pass2_code: "pass2 A bk d w = (ds, r) \<Longrightarrow> coded booking_codes ds"
proof -
  assume h: "pass2 A bk d w = (ds, r)"
  show "coded booking_codes ds"
  proof (cases "rbind (group_for_residual A (bw_pr w)) (\<lambda>(groups, free).
             rbind (resolve_residual_groups A bk d groups w) (\<lambda>r. Inr (free, r)))")
    case (Inl e)
    with h show ?thesis by (simp add: pass2_def)
  next
    case (Inr x)
    obtain free rs fails w1 where x: "x = (free, rs, fails, w1)" by (cases x) auto
    from Inr x obtain groups where "resolve_residual_groups A bk d groups w = Inr (rs, fails, w1)"
      by auto
    then have c1: "coded booking_codes (map uf_diag fails)" by (rule resolve_residual_groups_code)
    show ?thesis
    proof (cases "rbind (record_failures (bw_pr w1) (map (\<lambda>f. (uf_posting f, uf_currency f)) fails))
                  (\<lambda>pr. resolve_free_residuals A bk d free rs (w1\<lparr>bw_pr := pr\<rparr>))")
      case (Inl e)
      with h Inr x c1 show ?thesis by (simp add: pass2_def Let_def)
    next
      case (Inr y)
      obtain ds2 w2 where y: "y = (ds2, w2)" by (cases y)
      from Inr y have "coded booking_codes ds2"
        by (auto dest: resolve_free_residuals_code)
      with h \<open>_ = Inr x\<close> x Inr y c1 show ?thesis by (auto simp: pass2_def Let_def)
    qed
  qed
qed

section \<open>The walk\<close>

lemma validate_postings_code:
  "validate_postings seen ps = Some d \<Longrightarrow> diag_code d \<in> structure_codes"
  by (induction ps arbitrary: seen) (auto simp: structure_codes_def split: if_splits)

lemma visit_txn_code:
  assumes "visit_txn A bk st txn = (ds, r)"
  shows "coded (structure_codes \<union> booking_codes) ds"
proof (cases "validate_structure txn")
  case None
  have mono: "coded booking_codes xs \<Longrightarrow> coded (structure_codes \<union> booking_codes) xs" for xs
    by (auto simp: coded_def)
  obtain d1 r1 where p1: "pass1 A bk (txn_date txn)
      \<lparr>bw_pr = new_posting_resolution, bw_trace = new_state_trace st\<rparr> (txn_postings txn) = (d1, r1)"
    by (cases "pass1 A bk (txn_date txn)
      \<lparr>bw_pr = new_posting_resolution, bw_trace = new_state_trace st\<rparr> (txn_postings txn)")
  note c1 = pass1_code [OF p1]
  show ?thesis
  proof (cases r1)
    case (Inl e)
    with assms None p1 c1 mono show ?thesis by (auto simp: visit_txn_def)
  next
    case (Inr w)
    obtain d2 r2 where p2: "pass2 A bk (txn_date txn) w = (d2, r2)"
      by (cases "pass2 A bk (txn_date txn) w")
    note c2 = pass2_code [OF p2]
    have "ds = d1 @ d2"
      using assms None p1 Inr p2
      by (auto simp: visit_txn_def split: sum.splits prod.splits)
    with c1 c2 mono show ?thesis by simp
  qed
next
  case (Some d)
  with assms validate_postings_code [of False "txn_postings txn" d] show ?thesis
    by (auto simp: visit_txn_def validate_structure_def)
qed

lemma walk_loop_code:
  "walk_loop A opts visit n bk st s ds = Inr r \<Longrightarrow>
     coded (structure_codes \<union> booking_codes) (wr_diags r)"
proof (induction ds arbitrary: n bk st s r)
  case Nil
  then show ?case by (auto simp: stop_walk_def)
next
  case (Cons d ds)
  show ?case
  proof (cases "\<exists>t. d = DTransaction t")
    case True
    then obtain t where d: "d = DTransaction t" by blast
    show ?thesis
      using Cons.prems unfolding d
    proof (cases rule: walk_txnE)
      case (halted xs e)
      with visit_txn_code [OF halted(1)] show ?thesis by simp
    next
      case (stopped xs view booked st' d' s')
      with visit_txn_code [OF stopped(1)] show ?thesis by simp
    next
      case (continued xs view booked st' d' s' r')
      with visit_txn_code [OF continued(1)] Cons.IH [OF continued(4)] show ?thesis by simp
    qed
  next
    case False
    with Cons.prems obtain bk' r' where "walk_loop A opts visit (Suc n) bk' st s ds = Inr r'"
      "r = emit d d [] r'"
      by (meson walk_otherE)
    with Cons.IH show ?thesis by simp
  qed
qed

end
