(* ===== verification/Reversal.thy ===== *)
theory Reversal
  imports Walks
begin

text \<open>
  Two exactness facts of the reducer: the children that replace a posting that reduces several lots
  add up to it, and what \<open>reverseBooking\<close> undoes when a currency group is dropped.
\<close>

section \<open>The children of a multi-lot reduction\<close>

lemma signed_magnitude_val:
  "0 \<le> dval m \<Longrightarrow> dval (signed_magnitude m b) = (if b then - dval m else dval m)"
  by (simp add: signed_magnitude_def dval_set_neg)

lemma reduction_child_sels [simp]:
  "p_amount (reduction_child p amt s) = Some \<lparr>amt_number = signed_magnitude (rs_units s) (d_neg (amt_number amt)),
     amt_currency = amt_currency amt\<rparr>"
  "p_cost (reduction_child p amt s) = Some (HCost (lot_to_cost (rs_lot s)))"
  "p_account (reduction_child p amt s) = p_account p"
  by (auto simp: reduction_child_def Let_def split: option.splits)

lemma add_children_postings_eq:
  "pr_postings (add_children pr p amt ss) = pr_postings pr @ map (reduction_child p amt) ss"
  by (induction ss arbitrary: pr) (auto simp: push_booked_def)

definition child_units :: "posting \<Rightarrow> rat" where
  "child_units p = (case p_amount p of Some a \<Rightarrow> dval (amt_number a) | None \<Rightarrow> 0)"

lemma child_units_sum:
  "\<forall>s\<in>set ss. 0 \<le> dval (rs_units s) \<Longrightarrow>
     sum_list (map (child_units \<circ> reduction_child p amt) ss) = flag_sign (amt_number amt) * taken ss"
  by (induction ss) (auto simp: child_units_def signed_magnitude_val flag_sign_def)

lemma zero_lot_not_real: "apd_exact A \<Longrightarrow> \<not> real_lot A zero_lot"
  by (simp add: real_lot_def zero_lot_def apd_exact.sign_0)

lemma greedy_nonneg: "\<forall>a\<in>set as. 0 \<le> a \<Longrightarrow> 0 \<le> r \<Longrightarrow> x \<in> set (greedy r as) \<Longrightarrow> 0 \<le> x"
  by (induction r as rule: greedy.induct) auto

context apd_exact
begin

lemma reduce_steps_nonneg:
  assumes "inv_reduce A i amt mt m = Inr (Inr (steps, i'))" and "s \<in> set steps"
  shows "0 \<le> dval (rs_units s)"
proof (cases "dval (amt_number amt) = 0")
  case True
  with reduce_zero [OF assms(1)] assms(2) show ?thesis by simp
next
  case False
  let ?cs = "order_candidates m (candidates A (amt_currency amt) mt i)"
  from reduce_greedy(2) [OF assms(1) False] assms(2)
  have "dval (rs_units s) \<in> set (greedy \<bar>dval (amt_number amt)\<bar> (map cand_mag ?cs))"
    by (metis (no_types, lifting) Un_iff image_eqI list.set_map set_append)
  then show ?thesis by (rule greedy_nonneg [rotated 2]) auto
qed

lemma reduce_real_taken:
  assumes r: "inv_reduce A i amt mt m = Inr (Inr (steps, i'))" and s: "s \<in> set steps" "real_lot A (rs_lot s)"
  shows "taken steps = \<bar>dval (amt_number amt)\<bar>"
proof (cases "dval (amt_number amt) = 0")
  case True
  with reduce_zero [OF r] s show ?thesis by simp
next
  case False
  let ?cs = "order_candidates m (candidates A (amt_currency amt) mt i)"
  have "rs_lot s \<in> set (map rs_lot steps)" using s by simp
  with reduce_greedy(3) [OF r False] have "rs_lot s \<in> (position_lot \<circ> snd) ` set ?cs"
    by (metis (no_types, lifting) image_mono list.set_map set_take_subset subsetD)
  then obtain x where x: "x \<in> set (candidates A (amt_currency amt) mt i)" "rs_lot s = position_lot (snd x)"
    by auto
  have "pos_cost (snd x) \<noteq> None"
  proof
    assume "pos_cost (snd x) = None"
    with x(2) have "rs_lot s = zero_lot" by (simp add: position_lot_def)
    with s(2) zero_lot_not_real [OF apd_exact_axioms] show False by simp
  qed
  from reduce_taken_all [OF r x(1) this] show ?thesis .
qed

lemma multi_lot_children:
  assumes b: "book_one A (Some i) p m d = Inr (Inr (l, steps, iv'))" and "p_amount p = Some amt"
    and real: "s \<in> set steps" "real_lot A (rs_lot s)"
    and add: "add_multi_lot_reduction pr p steps = Inr pr'"
  shows "pr_postings pr' = pr_postings pr @ map (reduction_child p amt) steps"
    and "sum_list (map (child_units \<circ> reduction_child p amt) steps) = dval (amt_number amt)"
proof -
  show "pr_postings pr' = pr_postings pr @ map (reduction_child p amt) steps"
    using add assms(2) by (auto simp: add_multi_lot_reduction_def add_children_postings_eq)
  have "steps \<noteq> []" using real by auto
  with b obtain i' steps0 mt where r: "inv_reduce A i amt mt m = Inr (Inr (steps0, i'))"
    and eq: "map rs_lot steps = map rs_lot steps0" "map rs_units steps = map rs_units steps0"
    by (cases rule: book_one_cases) (use assms(2) in auto)
  have nn: "\<forall>s\<in>set steps. 0 \<le> dval (rs_units s)"
    using reduce_steps_nonneg [OF r] eq(2) by (metis (no_types, lifting) image_iff list.set_map)
  have "taken steps = taken steps0"
    using arg_cong [OF eq(2), of "\<lambda>us. sum_list (map dval us)"] by (simp add: comp_def)
  moreover obtain s0 where "s0 \<in> set steps0" "rs_lot s0 = rs_lot s"
    using real(1) eq(1) by (metis (no_types, lifting) image_iff list.set_map)
  ultimately have "taken steps = \<bar>dval (amt_number amt)\<bar>"
    using reduce_real_taken [OF r] real(2) by metis
  with child_units_sum [OF nn, of p amt] flag_sign_abs [of "amt_number amt"]
  show "sum_list (map (child_units \<circ> reduction_child p amt) steps) = dval (amt_number amt)"
    by simp
qed

end

section \<open>Undoing a booking\<close>

context apd_exact
begin

text \<open>An augmentation is undone exactly.\<close>

lemma reverse_augmentation:
  assumes add: "inv_add A i \<lparr>pos_units = amt, pos_cost = l\<rparr> = Inr i'"
    and bp: "bp_units bp = amt" "bp_lot bp = l" "bp_reduction bp = None"
    and rev: "reverse_booking A (Some i') bp = Inr (Some i'')"
  shows "held A i'' c k = held A i c k"
proof -
  from rev bp obtain n where n: "apd_neg A (amt_number amt) = Inr n"
    and add': "inv_add A i' \<lparr>pos_units = \<lparr>amt_number = n, amt_currency = amt_currency amt\<rparr>, pos_cost = l\<rparr> = Inr i''"
    by (auto simp: reverse_booking_def)
  have "in_slot A c k \<lparr>pos_units = \<lparr>amt_number = n, amt_currency = amt_currency amt\<rparr>, pos_cost = l\<rparr> =
    in_slot A c k \<lparr>pos_units = amt, pos_cost = l\<rparr>"
    by (simp add: in_slot_def)
  with inv_add_held [OF add', of c k] inv_add_held [OF add, of c k] neg_val [OF n] show ?thesis
    by simp
qed

text \<open>A reduction in one step takes from the first candidate in order.\<close>

lemma consume_one:
  assumes "consume A cs r iv = Inr (iv', [s])" and "0 \<le> dval r"
  obtains j where "cs \<noteq> []" "fst (hd cs) = j"
    "dval (rs_units s) = min (dval r) \<bar>units_val (iv ! j)\<bar>" "rs_lot s = position_lot (iv ! j)"
    "\<exists>u'. dval u' = units_val (iv ! j) - sgn (units_val (iv ! j)) * dval (rs_units s) \<and>
       iv' = iv[j := (iv ! j)\<lparr>pos_units := (pos_units (iv ! j))\<lparr>amt_number := u'\<rparr>\<rparr>]"
proof (cases cs)
  case Nil
  with assms show ?thesis by simp
next
  case (Cons x rest)
  obtain j c where x: "x = (j, c)" by (cases x)
  have nz: "apd_sign A r \<noteq> 0" using assms Cons x by (auto split: if_splits)
  from assms(1) Cons x have c: "consume A ((j, c) # rest) r iv = Inr (iv', [s])" by simp
  from consume_step [OF c nz assms(2)] obtain t u' r' steps' where
    t: "dval t = min (dval r) \<bar>units_val (iv ! j)\<bar>"
    and u: "dval u' = units_val (iv ! j) - sgn (units_val (iv ! j)) * dval t"
    and r': "dval r' = dval r - dval t"
    and rest: "consume A rest r' (iv[j := (iv ! j)\<lparr>pos_units := (pos_units (iv ! j))\<lparr>amt_number := u'\<rparr>\<rparr>])
       = Inr (iv', steps')"
    and s: "[s] = \<lparr>rs_lot = position_lot (iv ! j), rs_units = t, rs_sale_price = None, rs_gain = None,
       rs_gain_currency = []\<rparr> # steps'"
    by metis
  from s have "steps' = []" "rs_units s = t" "rs_lot s = position_lot (iv ! j)" by auto
  moreover have "iv' = iv[j := (iv ! j)\<lparr>pos_units := (pos_units (iv ! j))\<lparr>amt_number := u'\<rparr>\<rparr>]"
  proof (cases rest)
    case Nil
    with rest show ?thesis by simp
  next
    case (Cons y ys)
    obtain k e where y: "y = (k, e)" by (cases y)
    show ?thesis
    proof (cases "apd_sign A r' = 0")
      case True
      with rest Cons y show ?thesis by simp
    next
      case False
      have "0 \<le> dval r'" using r' t by simp
      then show ?thesis
        by (rule consume_step [OF rest [unfolded Cons y] False]) (use \<open>steps' = []\<close> in simp)
    qed
  qed
  ultimately show ?thesis
    using that [of j] t u Cons x by auto
qed

lemma held_update:
  assumes "j < length iv"
  shows "held A (iv[j := (iv ! j)\<lparr>pos_units := (pos_units (iv ! j))\<lparr>amt_number := u\<rparr>\<rparr>]) c l =
    held A iv c l + (if in_slot A c l (iv ! j) then dval u - units_val (iv ! j) else 0)"
  using assms
proof (induction iv arbitrary: j)
  case Nil
  then show ?case by simp
next
  case (Cons p ps)
  then show ?case by (cases j) (auto simp: held_Cons)
qed

lemma held_filter_zero: "held A (filter (\<lambda>p. units_val p \<noteq> 0) iv) c l = held A iv c l"
  by (induction iv) (auto simp: held_Cons)

text \<open>Undoing a reduction in one step puts the units back into a position that was long; a position
  that was short ends twice the units away from where it was.\<close>

lemma reverse_single_reduction:
  assumes red: "inv_reduce A i amt mt m = Inr (Inr ([s], i'))"
    and bp: "bp_units bp = amt" "bp_reduction bp = Some s"
    and rev: "reverse_booking A (Some i') bp = Inr (Some i'')"
    and real: "\<forall>p\<in>set i. \<forall>k. pos_cost p = Some k \<longrightarrow> real_lot A k"
  obtains j where "j < length i" "rs_lot s = position_lot (i ! j)"
    "\<And>c l. held A i'' c l = held A i c l +
      (if in_slot A c l (i ! j) \<and> units_val (i ! j) < 0 then 2 * dval (rs_units s) else 0)"
proof -
  have nz: "dval (amt_number amt) \<noteq> 0"
    using reduce_zero [OF red] by auto
  obtain r iv1 where r: "dval r = \<bar>dval (amt_number amt)\<bar>"
    and c: "consume A (order_candidates m (candidates A (amt_currency amt) mt i)) r i = Inr (iv1, [s])"
    and i': "i' = filter (\<lambda>p. apd_sign A (amt_number (pos_units p)) \<noteq> 0) iv1"
    using inv_reduce_ok [OF red nz] by metis
  let ?cs = "order_candidates m (candidates A (amt_currency amt) mt i)"
  from consume_one [OF c] r obtain j u' where j: "?cs \<noteq> []" "fst (hd ?cs) = j"
    and le: "dval (rs_units s) = min (dval r) \<bar>units_val (i ! j)\<bar>"
    and u: "dval u' = units_val (i ! j) - sgn (units_val (i ! j)) * dval (rs_units s)"
    and lot: "rs_lot s = position_lot (i ! j)"
    and iv1: "iv1 = i[j := (i ! j)\<lparr>pos_units := (pos_units (i ! j))\<lparr>amt_number := u'\<rparr>\<rparr>]"
    by (metis abs_ge_zero)
  have hd: "hd ?cs \<in> set (candidates A (amt_currency amt) mt i)"
    using j(1) by (metis hd_in_set set_order)
  have "j < length i" "i ! j = snd (hd ?cs)"
    using points_to_booked [of m "amt_currency amt" mt i] j(2) hd_in_set [OF j(1)]
    unfolding points_to_def by (cases "hd ?cs"; force)+
  moreover from candidate_currency [OF hd] have cur: "amt_currency (pos_units (snd (hd ?cs))) = amt_currency amt"
    by simp
  ultimately have jl: "j < length i" and jc: "amt_currency (pos_units (i ! j)) = amt_currency amt" by auto
  have lotopt: "(if real_lot A (rs_lot s) then Some (rs_lot s) else None) = pos_cost (i ! j)"
  proof (cases "pos_cost (i ! j)")
    case None
    with lot zero_lot_not_real [OF apd_exact_axioms] show ?thesis by (simp add: position_lot_def)
  next
    case (Some k)
    with real jl have "real_lot A k" by (meson nth_mem)
    with Some lot show ?thesis by (simp add: position_lot_def)
  qed
  from rev bp lotopt have add: "inv_add A i' \<lparr>pos_units = \<lparr>amt_number = rs_units s, amt_currency = amt_currency amt\<rparr>,
      pos_cost = pos_cost (i ! j)\<rparr> = Inr i''"
    by (auto simp: reverse_booking_def)
  have slot: "in_slot A c l \<lparr>pos_units = \<lparr>amt_number = rs_units s, amt_currency = amt_currency amt\<rparr>,
      pos_cost = pos_cost (i ! j)\<rparr> = in_slot A c l (i ! j)" for c l
    using jc by (simp add: in_slot_def)
  have "held A i'' c l = held A i c l +
      (if in_slot A c l (i ! j) then (1 - sgn (units_val (i ! j))) * dval (rs_units s) else 0)" for c l
    using inv_add_held [OF add, of c l] held_update [OF jl, of u' c l] u
    by (simp add: slot i' held_filter_zero iv1 algebra_simps)
  moreover have "(1 - sgn (units_val (i ! j))) * dval (rs_units s) =
      (if units_val (i ! j) < 0 then 2 * dval (rs_units s) else 0)"
    using le r by (simp add: sgn_rat_def)
  ultimately have "held A i'' c l = held A i c l +
      (if in_slot A c l (i ! j) \<and> units_val (i ! j) < 0 then 2 * dval (rs_units s) else 0)" for c l
    by simp
  with that [OF jl lot] show ?thesis .
qed

end

end
