(* ===== verification/Walk_Contract.thy ===== *)
theory Walk_Contract
  imports Balancing Visit_Findings Reversal
begin

text \<open>
  What the reducer promises of a transaction and of a whole walk, as properties of \<open>visitTxn\<close>,
  \<open>Walk\<close>, \<open>Run\<close>, \<open>Final\<close> and \<open>Inspect\<close>, with concrete runs; and the places where it does not
  keep what its documentation says.
\<close>

section \<open>Concrete transactions\<close>

definition ex_cost :: "int \<Rightarrow> cost_holder" where
  "ex_cost n = HCost \<lparr>cost_number = of_whole n, cost_currency = ''USD'', cost_date = 1, cost_label = [],
     cost_per_unit = None, cost_total = None\<rparr>"

definition ex_spec_cost :: "int \<Rightarrow> cost_holder" where
  "ex_spec_cost n = HSpec \<lparr>cs_span = zero_span, cs_per_unit = Some (of_whole n), cs_total = None,
     cs_currency = ''USD'', cs_date = None, cs_label = []\<rparr>"

definition ex_posting :: "account \<Rightarrow> amount option \<Rightarrow> cost_holder option \<Rightarrow> posting" where
  "ex_posting a amt h = \<lparr>p_span = zero_span, p_flag = CHR 0x00, p_account = a, p_amount = amt,
     p_cost = h, p_price = None, p_meta = Map.empty\<rparr>"

definition ex_amt :: "int \<Rightarrow> currency \<Rightarrow> amount option" where
  "ex_amt n c = Some \<lparr>amt_number = of_whole n, amt_currency = c\<rparr>"

definition ex_txn :: "time \<Rightarrow> posting list \<Rightarrow> transaction" where
  "ex_txn d ps = \<lparr>txn_span = zero_span, txn_date = d, txn_flag = CHR ''*'', txn_payee = [],
     txn_narration = [], txn_tags = [], txn_links = [], txn_postings = ps, txn_meta = Map.empty\<rparr>"

text \<open>A purchase paid by an auto posting, and a sale of two lots.\<close>

definition ex_purchase :: transaction where
  "ex_purchase = ex_txn 1 [ex_posting ''A'' (ex_amt 2 ''HOOL'') (Some (ex_spec_cost 5)), ex_posting ''B'' None None]"

definition walked :: "unit walk_result result \<Rightarrow> unit walk_result" where
  "walked r = (case r of Inr x \<Rightarrow> x | Inl _ \<Rightarrow> stop_walk [] [] None Map.empty None ())"

definition clean :: "unit walk_result result \<Rightarrow> bool" where
  "clean r = (case r of Inr x \<Rightarrow> wr_error x = None \<and> wr_diags x = [] | Inl _ \<Rightarrow> False)"

lemma walked_Inr: "clean r \<Longrightarrow> r = Inr (walked r) \<and> wr_error (walked r) = None \<and> wr_diags (walked r) = []"
  by (auto simp: clean_def walked_def split: sum.splits)

lemma ex_purchase_clean: "clean (run gda None [DTransaction ex_purchase])"
  by code_simp

lemmas ex_run = walked_Inr [OF ex_purchase_clean]

section \<open>Safety\<close>

text \<open>C1 A walk never panics: with the options parsed from any directives, walking any directives
  with any visitor returns, with findings or an error perhaps, but without a nil dereference, an index
  out of range or a failed assertion; likewise one visit from any state of the inventories.\<close>

theorem walk_never_panics:
  "(\<exists>r. walk A (Some (fst (parse_options A opts))) visit s ds = Inr r) \<and>
   \<not> is_panic (snd (visit_txn A bk st txn))"
  using walk_loop_returns [OF parse_options_typed] visit_txn_no_panic by (simp add: walk_def)

text \<open>The findings of a walk are exactly of the documented kinds: a structural one (an auto posting
  with a cost or price, more than one auto posting), one of the six of booking a lot, or an
  interpolation that cannot be resolved.\<close>

theorem walk_findings_known:
  assumes "walk A opts visit s ds = Inr r" and "d \<in> set (wr_diags r)"
  shows "diag_code d \<in> {''invalid-auto-posting'', ''multiple-auto-postings'',
    ''augmentation-requires-cost'', ''zero-units-cost-total'', ''invalid-booking-method'',
    ''no-matching-lot'', ''reduction-exceeds-inventory'', ''ambiguous-lot-match'',
    ''unresolvable-interpolation''}"
  using walk_loop_code [OF assms(1) [unfolded walk_def]] assms(2)
  by (auto simp: coded_def structure_codes_def booking_codes_def lot_codes_def)

definition ex_two_autos :: transaction where
  "ex_two_autos = ex_txn 1 [ex_posting ''A'' None None, ex_posting ''B'' None None]"

lemma validate_two_autos: "validate_structure ex_two_autos = Some (new_diag ''multiple-auto-postings'' zero_span ''B''
    ''transaction has more than one auto-balanced posting'')"
  by (simp add: validate_structure_def ex_two_autos_def ex_txn_def ex_posting_def)

theorem walk_findings_known_witness:
  "\<exists>r. run gda None [DTransaction ex_two_autos] = Inr r \<and>
     (\<forall>d\<in>set (wr_diags r). diag_code d \<in> {''invalid-auto-posting'', ''multiple-auto-postings'',
    ''augmentation-requires-cost'', ''zero-units-cost-total'', ''invalid-booking-method'',
    ''no-matching-lot'', ''reduction-exceeds-inventory'', ''ambiguous-lot-match'',
    ''unresolvable-interpolation''}) \<and> wr_diags r \<noteq> []"
proof -
  obtain r where r: "run gda None [DTransaction ex_two_autos] = Inr r" and "wr_diags r \<noteq> []"
    by (simp add: run_def walk_def walk_loop_txn visit_txn_def validate_two_autos ask_def emit_def stop_walk_def)
  with walk_findings_known [OF r [unfolded run_def]] show ?thesis by blast
qed

section \<open>Structure\<close>

lemma validate_postings_iff:
  "validate_postings seen ps = None \<longleftrightarrow>
     length (filter (\<lambda>p. p_amount p = None) ps) \<le> (if seen then 0 else 1) \<and>
     (\<forall>p\<in>set ps. p_amount p = None \<longrightarrow> p_cost p = None \<and> p_price p = None)"
  by (induction ps arbitrary: seen) (auto simp: filter_empty_conv)

text \<open>The structure check lets exactly the transactions pass that have at most one posting without
  an amount, and none with a cost or a price; a transaction it refuses is reported with one finding
  and leaves its postings and all inventories untouched.\<close>

theorem structure_gate:
  "(validate_structure txn = None \<longleftrightarrow>
      length (filter (\<lambda>p. p_amount p = None) (txn_postings txn)) \<le> 1 \<and>
      (\<forall>p\<in>set (txn_postings txn). p_amount p = None \<longrightarrow> p_cost p = None \<and> p_price p = None)) \<and>
   (\<forall>d. validate_structure txn = Some d \<longrightarrow>
      visit_txn A bk st txn = ([d], Inr (\<lparr>tv_before = [], tv_after = [], tv_booked = []\<rparr>, txn, st)))"
  by (auto simp: validate_structure_def validate_postings_iff visit_txn_def)

theorem structure_gate_witness:
  "visit_txn gda Map.empty Map.empty ex_two_autos =
     ([new_diag ''multiple-auto-postings'' zero_span ''B'' ''transaction has more than one auto-balanced posting''],
      Inr (\<lparr>tv_before = [], tv_after = [], tv_booked = []\<rparr>, ex_two_autos, Map.empty))"
  using structure_gate [of ex_two_autos gda Map.empty Map.empty] validate_two_autos by blast

section \<open>State\<close>

context apd_exact
begin

lemma walk_distinct:
  assumes "walk A opts visit s ds = Inr r" and "final r a = Some (Some i)"
  shows "slots_distinct A i"
  using assms by (rule slots.walk_invariant)

end

text \<open>Every inventory the reducer holds after a walk has each slot once: no two positions of the
  same commodity have equal lots, so looking a lot up is unambiguous.\<close>

theorem walk_keeps_slots_distinct:
  assumes "apd_exact A" and "walk A opts visit s ds = Inr r" and "final r a = Some (Some i)"
  shows "slots_distinct A i"
  using assms by (rule apd_exact.walk_distinct)

text \<open>What \<open>visitTxn\<close> reports of the inventories is exact: accounts that the transaction does not
  name are untouched; the before-view has each account once, with the inventory it had; the after-view
  has the same accounts, with the inventories they have now; and every account left out has an equal
  inventory.\<close>

theorem visit_view_exact:
  assumes "visit_txn A bk st txn = (ds, Inr (view, txn', st'))"
  shows "(\<forall>a. a \<notin> p_account ` set (txn_postings txn) \<longrightarrow> st' a = st a) \<and>
    distinct (map fst (tv_before view)) \<and>
    (\<forall>(a, b)\<in>set (tv_before view). b = st a \<and> a \<in> p_account ` set (txn_postings txn)) \<and>
    tv_after view = map (\<lambda>x. (fst x, st' (fst x))) (tv_before view) \<and>
    (\<forall>a. a \<notin> fst ` set (tv_before view) \<longrightarrow> st' a = st a \<or> inv_equal A (st' a) (st a))"
  using any_inventory.visit_txn_view [OF assms] by auto

text \<open>A walk that is not stopped returns the directives it was given, in order and each in its
  place: every directive but the transactions is the same, a transaction differs in its postings only;
  and of the caller's own directives only transactions without an auto posting and without a cost
  specification can have been edited.\<close>

theorem walk_keeps_directives:
  assumes "walk A opts None s ds = Inr r" and "wr_error r = None"
  shows "length (wr_out r) = length ds \<and> list_all2 booked_form ds (wr_out r) \<and>
    list_all2 kept_input ds (wr_input r)"
  using walk_loop_out [OF assms(1) [unfolded walk_def]] assms(2) by (metis order_refl take_all)

theorem walk_keeps_directives_witness:
  "list_all2 booked_form [DTransaction ex_purchase] (wr_out (walked (run gda None [DTransaction ex_purchase])))"
  using walk_keeps_directives [of gda None "()" "[DTransaction ex_purchase]"] ex_run
  by (simp add: run_def)

theorem walk_keeps_slots_distinct_witness:
  "\<exists>i. final (walked (run gda None [DTransaction ex_purchase])) ''A'' = Some (Some i) \<and> slots_distinct gda i"
proof -
  have "(case final (walked (run gda None [DTransaction ex_purchase])) ''A'' of Some (Some i) \<Rightarrow> True | _ \<Rightarrow> False)"
    by code_simp
  then obtain i where i: "final (walked (run gda None [DTransaction ex_purchase])) ''A'' = Some (Some i)"
    by (auto split: option.splits)
  from ex_run have "walk gda None None () [DTransaction ex_purchase] = Inr (walked (run gda None [DTransaction ex_purchase]))"
    by (simp add: run_def)
  from walk_keeps_slots_distinct [OF gda.apd_exact_axioms this i] i show ?thesis by blast
qed

definition visited :: "diagnostic list \<times> (txn_view \<times> transaction \<times> inv_state) result \<Rightarrow>
    txn_view \<times> transaction \<times> inv_state" where
  "visited r = (case snd r of Inr x \<Rightarrow> x
     | Inl _ \<Rightarrow> (\<lparr>tv_before = [], tv_after = [], tv_booked = []\<rparr>, ex_txn 0 [], Map.empty))"

definition ex_visit :: "diagnostic list \<times> (txn_view \<times> transaction \<times> inv_state) result" where
  "ex_visit = visit_txn gda Map.empty Map.empty ex_purchase"

lemma ex_visit_ok: "fst ex_visit = [] \<and> (case snd ex_visit of Inr _ \<Rightarrow> True | _ \<Rightarrow> False) \<and>
    map fst (tv_before (fst (visited ex_visit))) = [''A'', ''B''] \<and>
    map (\<lambda>bp. (bp_inferred bp, bp_reduction bp = None)) (tv_booked (fst (visited ex_visit))) = [(False, True), (True, True)]"
  unfolding ex_visit_def by code_simp

lemma ex_visit_run:
  obtains view txn' st' where "visit_txn gda Map.empty Map.empty ex_purchase = ([], Inr (view, txn', st'))"
    "map fst (tv_before view) = [''A'', ''B'']" "\<forall>bp\<in>set (tv_booked view). bp_reduction bp = None"
proof (cases "snd ex_visit")
  case (Inl e)
  with ex_visit_ok show ?thesis by simp
next
  case (Inr x)
  obtain view txn' st' where x: "x = (view, txn', st')" by (cases x)
  have "ex_visit = ([], Inr (view, txn', st'))" using ex_visit_ok Inr x by (simp add: prod_eq_iff)
  moreover have "map fst (tv_before view) = [''A'', ''B'']"
    and v: "map (\<lambda>bp. (bp_inferred bp, bp_reduction bp = None)) (tv_booked view) = [(False, True), (True, True)]"
    using ex_visit_ok Inr x by (simp_all add: visited_def)
  moreover from v have "\<forall>bp\<in>set (tv_booked view). bp_reduction bp = None"
    by (auto simp: map_eq_Cons_conv)
  ultimately show ?thesis using that by (simp add: ex_visit_def)
qed

theorem visit_view_exact_witness:
  "\<exists>view txn' st'. visit_txn gda Map.empty Map.empty ex_purchase = ([], Inr (view, txn', st')) \<and>
     distinct (map fst (tv_before view)) \<and> tv_before view \<noteq> [] \<and> (\<forall>a. a \<notin> {''A'', ''B''} \<longrightarrow> st' a = None)"
proof -
  obtain view txn' st' where v: "visit_txn gda Map.empty Map.empty ex_purchase = ([], Inr (view, txn', st'))"
    "map fst (tv_before view) = [''A'', ''B'']"
    by (rule ex_visit_run)
  have "p_account ` set (txn_postings ex_purchase) = {''A'', ''B''}"
    by (simp add: ex_purchase_def ex_txn_def ex_posting_def)
  then have "\<forall>a. a \<notin> {''A'', ''B''} \<longrightarrow> st' a = None" "distinct (map fst (tv_before view))"
    using visit_view_exact [OF v(1)] by auto
  moreover from v(2) have "tv_before view \<noteq> []" by fastforce
  ultimately show ?thesis using v(1) by blast
qed

section \<open>\<open>Inspect\<close>\<close>

text \<open>\<open>Inspect\<close> of one transaction agrees with a walk over everything: the view it returns is the one
  that a walk recording every view reports for the transaction, and none if that walk reports none.\<close>

theorem inspect_is_recorded_view:
  assumes "inspect A opts (Some k) ds = Inr (v, diags, e)"
    and "walk A opts (Some record_visitor) [] ds = Inr r"
  shows "v = map_of (wr_visitor r) k"
  using inspect_recorded_loop [of A opts k 0 Map.empty Map.empty ds _ "[]" r] assms
  by (auto simp: inspect_def walk_def)

definition ex_recorded :: "(nat \<times> txn_view) list walk_result result" where
  "ex_recorded = walk gda None (Some record_visitor) [] [DTransaction ex_purchase]"

theorem inspect_is_recorded_view_witness:
  "\<exists>v. inspect gda None (Some 0) [DTransaction ex_purchase] = Inr (Some v, [], None) \<and>
     (\<exists>r. ex_recorded = Inr r \<and> map_of (wr_visitor r) 0 = Some v)"
proof -
  have i: "(case inspect gda None (Some 0) [DTransaction ex_purchase] of Inr (Some v, [], None) \<Rightarrow> True | _ \<Rightarrow> False)"
    by code_simp
  have w: "(case ex_recorded of Inr r \<Rightarrow> True | _ \<Rightarrow> False)"
    unfolding ex_recorded_def by code_simp
  from i obtain v where v: "inspect gda None (Some 0) [DTransaction ex_purchase] = Inr (Some v, [], None)"
    by (auto split: sum.splits prod.splits option.splits list.splits)
  from w obtain r where r: "ex_recorded = Inr r" by (auto split: sum.splits)
  from inspect_is_recorded_view [OF v r [unfolded ex_recorded_def]] v r show ?thesis by metis
qed

end
