(* ===== verification/Inventory_Contract.thy ===== *)
theory Inventory_Contract
  imports Booking
begin

text \<open>
  What the inventory and the booking of one posting promise, as properties of \<open>Add\<close>, \<open>Reduce\<close>,
  the cost resolvers and the realized gain, each with a concrete run on exact decimal arithmetic.
\<close>

section \<open>A concrete inventory\<close>

definition ex_lot :: "int \<Rightarrow> time \<Rightarrow> lot" where
  "ex_lot n d = \<lparr>lot_number = of_whole n, lot_currency = ''USD'', lot_date = d, lot_label = []\<rparr>"

definition ex_units :: "int \<Rightarrow> amount" where
  "ex_units n = \<lparr>amt_number = of_whole n, amt_currency = ''HOOL''\<rparr>"

definition ex_pos :: "int \<Rightarrow> lot option \<Rightarrow> inv_position" where
  "ex_pos n l = \<lparr>pos_units = ex_units n, pos_cost = l\<rparr>"

definition ex_inv :: inventory where
  "ex_inv = [ex_pos 5 (Some (ex_lot 120 2)), ex_pos 10 (Some (ex_lot 100 1))]"

definition ex_step :: "int \<Rightarrow> int \<Rightarrow> time \<Rightarrow> reduction_step" where
  "ex_step u n d = \<lparr>rs_lot = ex_lot n d, rs_units = of_whole u, rs_sale_price = None, rs_gain = None,
     rs_gain_currency = []\<rparr>"

lemma ex_add: "inv_add gda ex_inv (ex_pos 7 (Some (ex_lot 100 1))) =
    Inr [ex_pos 5 (Some (ex_lot 120 2)), ex_pos 17 (Some (ex_lot 100 1))]"
  by code_simp

lemma ex_reduce: "inv_reduce gda ex_inv (ex_units (-12)) empty_matcher BookingFIFO =
    Inr (Inr ([ex_step 10 100 1, ex_step 2 120 2], [ex_pos 3 (Some (ex_lot 120 2))]))"
  by code_simp

lemma ex_inv_distinct: "slots_distinct gda ex_inv"
  by (simp add: slots_distinct_def ex_inv_def ex_pos_def ex_lot_def in_slot_def lot_equal_def)

lemma ex_inv_costs [simp]: "\<forall>p\<in>set ex_inv. pos_cost p \<noteq> None"
  by (simp add: ex_inv_def ex_pos_def)

section \<open>\<open>Add\<close>\<close>

text \<open>C20 \<open>Add\<close> refines adding one position to the table from slots (a commodity with a lot, or with
  none) to signed units: the units of its slot grow by the position's, every other slot is as before,
  and no slot ever occurs twice.\<close>

theorem inventory_add_refines:
  assumes "apd_exact A" and "inv_add A iv p = Inr iv'" and "slots_distinct A iv"
  shows "slots_distinct A iv' \<and>
    (\<forall>c l. held A iv' c l = held A iv c l + (if in_slot A c l p then units_val p else 0))"
  using apd_exact.inv_add_distinct [OF assms] apd_exact.inv_add_held [OF assms(1,2)] by blast

theorem inventory_add_refines_witness:
  "held gda [ex_pos 5 (Some (ex_lot 120 2)), ex_pos 17 (Some (ex_lot 100 1))] ''HOOL'' (Some (ex_lot 100 1)) =
     held gda ex_inv ''HOOL'' (Some (ex_lot 100 1)) + 7"
  using inventory_add_refines [OF gda.apd_exact_axioms ex_add ex_inv_distinct]
  by (simp add: in_slot_def ex_pos_def ex_units_def gda.lot_equal_refl)

section \<open>\<open>Reduce\<close>\<close>

text \<open>C2 \<open>Reduce\<close> always comes to a verdict, and the verdict is a function of the matching positions
  alone: AVERAGE is refused; a zero request succeeds; nothing that matches is \<open>no-matching-lot\<close>; more
  than all matching positions hold together, those without a cost included, is
  \<open>reduction-exceeds-inventory\<close> when a lot with a cost is among them; and under STRICT several matches
  that are not all consumed are \<open>ambiguous-lot-match\<close>. This is what the code does: its comment counts the
  positions with a cost only. The witness has both a refusal and a request for 7 units, granted out of 5
  in cash and 5 at cost, which the comment would have refused.\<close>

theorem reduce_verdict_complete:
  assumes "apd_total A" and "b \<noteq> BookingNone"
  shows "\<exists>r. inv_reduce A iv units m b = Inr r \<and> verdict_of r = reduce_verdict A iv units m b"
proof -
  obtain r where "inv_reduce A iv units m b = Inr r"
    using apd_total.inv_reduce_total [OF assms] by blast
  with apd_exact.inv_reduce_verdict [OF apd_total.axioms(1) [OF assms(1)] this] show ?thesis by blast
qed

definition ex_mixed :: inventory where
  "ex_mixed = [ex_pos 5 None, ex_pos 5 (Some (ex_lot 100 1))]"

theorem reduce_verdict_complete_witness:
  "reduce_verdict gda ex_inv (ex_units (-12)) empty_matcher BookingStrict = Some ''ambiguous-lot-match'' \<and>
   reduce_verdict gda ex_mixed (ex_units (-7)) empty_matcher BookingFIFO = None"
proof -
  have "inv_reduce gda ex_inv (ex_units (-12)) empty_matcher BookingStrict =
    Inr (Inl (mk_diag ''ambiguous-lot-match'' zero_span
     ''reducing posting matches more than one lot under STRICT booking and does not consume them all''))"
    by code_simp
  moreover have "(case inv_reduce gda ex_mixed (ex_units (-7)) empty_matcher BookingFIFO of
      Inr (Inr _) \<Rightarrow> True | _ \<Rightarrow> False)" by code_simp
  ultimately show ?thesis
    using reduce_verdict_complete [OF gda.apd_total_axioms, of BookingStrict ex_inv "ex_units (-12)" empty_matcher]
      reduce_verdict_complete [OF gda.apd_total_axioms, of BookingFIFO ex_mixed "ex_units (-7)" empty_matcher]
    by (auto simp: verdict_of_def mk_diag_def split: sum.splits)
qed

text \<open>C3 The units \<open>Reduce\<close> takes from each lot, in the order of the method, are those of the greedy
  specification: from every lot as much as is left to take, until the request is met; the lots of
  the steps are the first ones of that order; and the steps run from the oldest lot to the newest, under
  LIFO from the newest to the oldest, whatever the order of the positions in the inventory.\<close>

theorem reduce_takes_greedily:
  assumes "apd_exact A" and "inv_reduce A iv units m b = Inr (Inr (steps, iv'))"
    and "dval (amt_number units) \<noteq> 0"
  defines "cs \<equiv> order_candidates b (candidates A (amt_currency units) m iv)"
  shows "map (\<lambda>s. dval (rs_units s)) steps @ replicate (length cs - length steps) 0 =
      greedy \<bar>dval (amt_number units)\<bar> (map cand_mag cs) \<and>
    map rs_lot steps = map (position_lot \<circ> snd) (take (length steps) cs) \<and>
    ((\<forall>p\<in>set iv. pos_cost p \<noteq> None) \<longrightarrow>
       sorted (map (\<lambda>s. lot_date (rs_lot s)) (if b = BookingLIFO then rev steps else steps)))"
  using apd_exact.reduce_greedy [OF assms(1-3)] apd_exact.reduce_dates [OF assms(1,2)] by (simp add: cs_def)

theorem reduce_takes_greedily_witness:
  "greedy 12 (map cand_mag (order_candidates BookingFIFO (candidates gda ''HOOL'' empty_matcher ex_inv))) = [10, 2]"
  using reduce_takes_greedily [OF gda.apd_exact_axioms ex_reduce]
  by (simp add: ex_units_def ex_step_def candidates_def is_candidate_def ex_inv_def ex_pos_def matches_def
      empty_matcher_def order_candidates_def)

text \<open>C11 A reduction conserves units: what the inventory holds of the commodity shrinks by exactly
  what the steps took, no other commodity changes, and as soon as one matching position has a cost
  the steps took exactly the requested number.\<close>

theorem reduce_conserves:
  assumes "apd_exact A" and "inv_reduce A iv units m b = Inr (Inr (steps, iv'))"
  shows "(\<forall>c. gross iv' c = gross iv c - (if c = amt_currency units then taken steps else 0)) \<and>
    ((\<exists>x\<in>set (candidates A (amt_currency units) m iv). pos_cost (snd x) \<noteq> None) \<longrightarrow>
       taken steps = \<bar>dval (amt_number units)\<bar>)"
  using apd_exact.reduce_gross [OF assms] apd_exact.reduce_taken_all [OF assms] by blast

theorem reduce_conserves_witness:
  "gross [ex_pos 3 (Some (ex_lot 120 2))] ''HOOL'' = gross ex_inv ''HOOL'' - 12"
  using reduce_conserves [OF gda.apd_exact_axioms ex_reduce]
  by (simp add: ex_units_def ex_step_def)

text \<open>A reduction leaves everything else alone: the positions that do not match stay as they are
  and in their order, no position is left empty, and no slot occurs twice afterwards.\<close>

theorem reduce_frame:
  assumes "apd_exact A" and "inv_reduce A iv units m b = Inr (Inr (steps, iv'))"
    and "no_empty iv" and "slots_distinct A iv"
  shows "filter (\<lambda>p. \<not> is_candidate A (amt_currency units) m p) iv' =
      filter (\<lambda>p. \<not> is_candidate A (amt_currency units) m p) iv \<and>
    no_empty iv' \<and> slots_distinct A iv'"
  using apd_exact.reduce_others [OF assms(1-3)] apd_exact.reduce_no_empty [OF assms(1-3)]
    apd_exact.reduce_distinct [OF assms(1,2,4)] by blast

theorem reduce_frame_witness: "no_empty [ex_pos 3 (Some (ex_lot 120 2))]"
proof -
  have "no_empty ex_inv" by (simp add: no_empty_def ex_inv_def ex_pos_def ex_units_def)
  from reduce_frame [OF gda.apd_exact_axioms ex_reduce this ex_inv_distinct] show ?thesis by blast
qed

section \<open>Overdrawing cash\<close>

definition candidate_units :: "apd \<Rightarrow> currency \<Rightarrow> cost_matcher \<Rightarrow> inventory \<Rightarrow> rat" where
  "candidate_units A c m iv = sum_list (map (\<lambda>p. \<bar>units_val p\<bar>) (filter (is_candidate A c m) iv))"

lemma available_candidates: "available (candidates A c m iv) = candidate_units A c m iv"
proof -
  have "sum_list (map cand_mag (filter (\<lambda>x. P (snd x)) (enumerate n xs))) =
      sum_list (map (\<lambda>p. \<bar>units_val p\<bar>) (filter P xs))" for n P xs
    by (induction xs arbitrary: n) auto
  then show ?thesis by (simp add: available_def candidate_units_def candidates_def)
qed

lemma gross_split:
  "gross iv c = candidate_units A c m iv +
     gross (filter (\<lambda>p. \<not> is_candidate A c m p) iv) c"
  by (induction iv) (auto simp: gross_def candidate_units_def is_candidate_def)

lemma candidate_units_zero:
  assumes "candidate_units A c m iv = 0"
  shows "filter (is_candidate A c m) (filter (\<lambda>p. units_val p \<noteq> 0) iv) = []"
proof -
  have "units_val p = 0" if "p \<in> set (filter (is_candidate A c m) iv)" for p
    using that assms unfolding candidate_units_def by (subst (asm) sum_list_nonneg_eq_0_iff) auto
  then show ?thesis by (auto simp: filter_empty_conv)
qed

text \<open>An overdrawn cash position is not kept: when the matching positions all are cash and hold
  less than a posting takes, \<open>Reduce\<close> succeeds, takes what is there, removes the positions, and the
  rest of the request is recorded nowhere; the package documentation says such a position goes
  negative.\<close>

theorem cash_overdraft_forgotten:
  assumes A: "apd_total A" and b: "b \<noteq> BookingNone" "b \<noteq> BookingAverage"
    and cs: "candidates A (amt_currency units) m iv \<noteq> []"
    and cash: "\<forall>x\<in>set (candidates A (amt_currency units) m iv). pos_cost (snd x) = None"
    and over: "available (candidates A (amt_currency units) m iv) < \<bar>dval (amt_number units)\<bar>"
  shows "\<exists>steps iv'. inv_reduce A iv units m b = Inr (Inr (steps, iv')) \<and>
    taken steps = available (candidates A (amt_currency units) m iv) \<and>
    filter (is_candidate A (amt_currency units) m) iv' = []"
proof -
  note E = apd_total.axioms(1) [OF A]
  let ?c = "amt_currency units"
  have nz: "dval (amt_number units) \<noteq> 0" using over available_nonneg [of "candidates A ?c m iv"] by auto
  obtain r where r: "inv_reduce A iv units m b = Inr r"
    using apd_total.inv_reduce_total [OF A b(1)] by blast
  from apd_exact.inv_reduce_verdict [OF E r] b cs cash over have "verdict_of r = None"
    by (auto simp: reduce_verdict_def Let_def)
  with r obtain steps iv' where s: "inv_reduce A iv units m b = Inr (Inr (steps, iv'))"
    by (cases r) (auto simp: verdict_of_def)
  have taken: "taken steps = available (candidates A ?c m iv)"
    using apd_exact.reduce_taken [OF E s nz] over by simp
  obtain iv1 t where sh: "shrunk iv iv1 t" and iv': "iv' = filter (\<lambda>p. units_val p \<noteq> 0) iv1"
    and sum: "(\<Sum>i<length iv. t i) = taken steps"
    and out: "\<And>i. i < length iv \<Longrightarrow> amt_currency (pos_units (iv ! i)) \<noteq> ?c \<Longrightarrow> t i = 0"
    and others: "filter (\<lambda>p. \<not> is_candidate A ?c m p) iv1 = filter (\<lambda>p. \<not> is_candidate A ?c m p) iv"
    using apd_exact.reduce_shrunk [OF E s nz] by metis
  have "gross iv1 ?c = gross iv ?c - taken steps"
    using gross_shrunk [OF sh out, of ?c] sum by simp
  with gross_split [of iv1 ?c A m] gross_split [of iv ?c A m] others taken
  have "candidate_units A ?c m iv1 = 0"
    by (simp add: available_candidates)
  then have "filter (is_candidate A ?c m) iv' = []"
    unfolding iv' by (rule candidate_units_zero)
  with s taken show ?thesis by blast
qed

definition ex_cash :: inventory where
  "ex_cash = [\<lparr>pos_units = ex_units 100, pos_cost = None\<rparr>]"

lemma ex_cash_candidates: "candidates gda ''HOOL'' empty_matcher ex_cash = [(0, \<lparr>pos_units = ex_units 100, pos_cost = None\<rparr>)]"
  by (simp add: candidates_def ex_cash_def is_candidate_def ex_units_def matches_def empty_matcher_def)

theorem cash_overdraft_forgotten_witness:
  "inv_reduce gda ex_cash (ex_units (-150)) empty_matcher BookingStrict =
     Inr (Inr ([\<lparr>rs_lot = zero_lot, rs_units = of_whole 100, rs_sale_price = None, rs_gain = None,
       rs_gain_currency = []\<rparr>], [])) \<and>
   (\<exists>steps iv'. inv_reduce gda ex_cash (ex_units (-150)) empty_matcher BookingStrict = Inr (Inr (steps, iv')) \<and>
     taken steps = 100)"
proof
  show "inv_reduce gda ex_cash (ex_units (-150)) empty_matcher BookingStrict =
     Inr (Inr ([\<lparr>rs_lot = zero_lot, rs_units = of_whole 100, rs_sale_price = None, rs_gain = None,
       rs_gain_currency = []\<rparr>], []))"
    by code_simp
  show "\<exists>steps iv'. inv_reduce gda ex_cash (ex_units (-150)) empty_matcher BookingStrict = Inr (Inr (steps, iv')) \<and>
     taken steps = 100"
    using cash_overdraft_forgotten [OF gda.apd_total_axioms, of BookingStrict "ex_units (-150)" empty_matcher ex_cash]
    by (auto simp: ex_units_def ex_cash_candidates [unfolded ex_units_def] available_def)
qed

section \<open>Costs\<close>

text \<open>The two ways the code reads a cost specification agree: the per-unit cost of a posting times
  its units is the total cost that its weight is made of, for the per-unit, the total and the combined
  form, whenever the division is exact and the total is not negative.\<close>

theorem per_unit_and_total_agree:
  assumes "apd_exact A"
    and "per_unit_cost A (Some (HSpec spec)) (Some amt) = Inr (Some per)"
    and "total_cost A p = Inr (Some w)" and "p_amount p = Some amt" and "p_cost p = Some (HSpec spec)"
    and "\<And>t u q i. cs_total spec = Some t \<Longrightarrow> apd_abs A (amt_number amt) = Inr u \<Longrightarrow>
      apd_quo A quo_precision t u = Inr (q, i) \<Longrightarrow> \<not> i \<and> 0 \<le> dval t"
  shows "dval (amt_number w) = dval (amt_number amt) * dval (amt_number per)"
  by (rule apd_exact.per_unit_total_agree [OF assms])

definition ex_spec :: cost_spec where
  "ex_spec = \<lparr>cs_span = zero_span, cs_per_unit = Some (of_whole 3), cs_total = Some (of_whole 8),
     cs_currency = ''USD'', cs_date = None, cs_label = []\<rparr>"

definition ex_buy :: posting where
  "ex_buy = \<lparr>p_span = zero_span, p_flag = CHR 0x00, p_account = ''Assets:A'', p_amount = Some (ex_units 4),
     p_cost = Some (HSpec ex_spec), p_price = None, p_meta = Map.empty\<rparr>"

lemma ex_per_unit: "per_unit_cost gda (Some (HSpec ex_spec)) (Some (ex_units 4)) =
    Inr (Some \<lparr>amt_number = of_whole 5, amt_currency = ''USD''\<rparr>)"
  by code_simp

lemma ex_total: "total_cost gda ex_buy = Inr (Some \<lparr>amt_number = of_whole 20, amt_currency = ''USD''\<rparr>)"
  by code_simp

theorem per_unit_and_total_agree_witness: "dval (of_whole 20) = dval (of_whole 4) * dval (of_whole 5)"
proof -
  have q: "gda_quo quo_precision (of_whole 8) (of_whole 4) = Inr (of_whole 2, False)"
    by code_simp
  have a: "gda_abs (of_whole 4) = Inr (of_whole 4)" by code_simp
  show ?thesis
    using per_unit_and_total_agree [OF gda.apd_exact_axioms ex_per_unit ex_total]
    by (simp add: ex_buy_def ex_units_def ex_spec_def q a)
qed

text \<open>A cost specification finds what it made: the matcher built from it for some units matches the
  lot that the same specification resolves to for the same units, whatever price currency is at hand.\<close>

theorem matcher_finds_resolved_lot:
  assumes "apd_exact A" and "resolve_lot A (Some (HSpec spec)) u d = Inr (Inr (Some l))"
  shows "matches A (new_cost_matcher A (Some (HSpec spec)) pc (Some u)) l"
  by (rule apd_exact.matcher_matches_resolved [OF assms])

theorem matcher_finds_resolved_lot_witness:
  "matches gda (new_cost_matcher gda (Some (HSpec ex_spec)) ''EUR'' (Some (ex_units 4)))
     \<lparr>lot_number = of_whole 5, lot_currency = ''USD'', lot_date = 9, lot_label = []\<rparr>"
proof -
  have "resolve_lot gda (Some (HSpec ex_spec)) (ex_units 4) 9 =
    Inr (Inr (Some \<lparr>lot_number = of_whole 5, lot_currency = ''USD'', lot_date = 9, lot_label = []\<rparr>))"
    by code_simp
  from matcher_finds_resolved_lot [OF gda.apd_exact_axioms this] show ?thesis .
qed

section \<open>Realized gains\<close>

context apd_exact
begin

lemma fill_steps_val:
  "fill_steps A sale cur ss = Inr ss' \<Longrightarrow> s \<in> set ss' \<Longrightarrow>
     rs_sale_price s = Some sale \<and> rs_gain_currency s = cur \<and>
     (\<exists>g. rs_gain s = Some g \<and> dval g = (dval sale - dval (lot_number (rs_lot s))) * dval (rs_units s))"
  by (induction ss arbitrary: ss') (auto simp: sub_val mul_val)

lemma book_reduce_gain:
  assumes "book_reduce A (Some i) p m = Inr (Inr (steps, iv'))" and "p_price p = Some pr"
    and "amt_currency (pa_amount pr) \<noteq> []" and "p_amount p = Some amt" and "dval (amt_number amt) \<noteq> 0"
  obtains sale ss where "sale_price_per A pr amt = Inr (Some sale)"
    "fill_steps A sale (amt_currency (pa_amount pr)) ss = Inr steps"
proof -
  from assms obtain ss where f: "fill_realized_gain A ss pr amt = Inr steps"
    by (auto simp: book_reduce_def Let_def split: sum.splits)
  then obtain so where so: "sale_price_per A pr amt = Inr so"
    by (auto simp: fill_realized_gain_def)
  then have "so \<noteq> None"
    using assms(5) by (auto simp: sale_price_per_def abs_val split: if_splits)
  with so f that show ?thesis by (auto simp: fill_realized_gain_def)
qed

end

text \<open>The realized gain of every step of a sale is (sale price - lot price) times the units of
  the step, in the currency of the price; the sale price is the stated one per unit, or the stated
  total divided by the units, the same for all steps.\<close>

theorem realized_gain_per_step:
  assumes A: "apd_exact A" and r: "book_reduce A (Some i) p m = Inr (Inr (steps, iv'))"
    and "p_price p = Some pr" and "amt_currency (pa_amount pr) \<noteq> []" and "p_amount p = Some amt"
    and "dval (amt_number amt) \<noteq> 0"
  shows "\<exists>sale. (\<not> pa_is_total pr \<longrightarrow> sale = amt_number (pa_amount pr)) \<and>
    (\<forall>u q. pa_is_total pr \<longrightarrow> apd_abs A (amt_number amt) = Inr u \<longrightarrow>
       apd_quo A quo_precision (amt_number (pa_amount pr)) u = Inr (q, False) \<longrightarrow>
       dval sale = dval (amt_number (pa_amount pr)) / \<bar>dval (amt_number amt)\<bar>) \<and>
    (\<forall>s\<in>set steps. rs_sale_price s = Some sale \<and> rs_gain_currency s = amt_currency (pa_amount pr) \<and>
       (\<exists>g. rs_gain s = Some g \<and> dval g = (dval sale - dval (lot_number (rs_lot s))) * dval (rs_units s)))"
proof -
  obtain sale ss where sale: "sale_price_per A pr amt = Inr (Some sale)"
    and ss: "fill_steps A sale (amt_currency (pa_amount pr)) ss = Inr steps"
    by (rule apd_exact.book_reduce_gain [OF assms])
  have "dval sale = dval (amt_number (pa_amount pr)) / \<bar>dval (amt_number amt)\<bar>"
    if "pa_is_total pr" and u: "apd_abs A (amt_number amt) = Inr u"
      and q: "apd_quo A quo_precision (amt_number (pa_amount pr)) u = Inr (q, False)" for u q
  proof -
    from sale that have "quo_normalized A quo_precision (amt_number (pa_amount pr)) u = Inr sale"
      by (auto simp: sale_price_per_def split: if_splits)
    from apd_exact.quo_normalized_val(1) [OF A this q] apd_exact.abs_val [OF A u] show ?thesis by simp
  qed
  moreover have "\<not> pa_is_total pr \<longrightarrow> sale = amt_number (pa_amount pr)"
    using sale by (auto simp: sale_price_per_def split: if_splits)
  ultimately show ?thesis
    using apd_exact.fill_steps_val [OF A ss] by blast
qed

definition ex_sale :: posting where
  "ex_sale = \<lparr>p_span = zero_span, p_flag = CHR 0x00, p_account = ''Assets:A'', p_amount = Some (ex_units (-12)),
     p_cost = None, p_price = Some \<lparr>pa_span = zero_span,
       pa_amount = \<lparr>amt_number = of_whole 150, amt_currency = ''USD''\<rparr>, pa_is_total = False\<rparr>,
     p_meta = Map.empty\<rparr>"

definition ex_gain :: "int \<Rightarrow> int \<Rightarrow> time \<Rightarrow> int \<Rightarrow> reduction_step" where
  "ex_gain u n d g = (ex_step u n d)\<lparr>rs_sale_price := Some (of_whole 150), rs_gain := Some (of_whole g),
     rs_gain_currency := ''USD''\<rparr>"

lemma ex_book_reduce: "book_reduce gda (Some ex_inv) ex_sale BookingFIFO =
    Inr (Inr ([ex_gain 10 100 1 500, ex_gain 2 120 2 60], Some [ex_pos 3 (Some (ex_lot 120 2))]))"
  by code_simp

lemma ex_gain_sels [simp]:
  "rs_sale_price (ex_gain u n d g) = Some (of_whole 150)" "rs_gain (ex_gain u n d g) = Some (of_whole g)"
  "rs_units (ex_gain u n d g) = of_whole u" "rs_lot (ex_gain u n d g) = ex_lot n d"
  by (simp_all add: ex_gain_def ex_step_def)

theorem realized_gain_per_step_witness:
  "dval (of_whole 500) = (150 - dval (lot_number (ex_lot 100 1))) * dval (of_whole 10)"
  using realized_gain_per_step [OF gda.apd_exact_axioms ex_book_reduce, of _ "ex_units (-12)"]
  by (auto simp: ex_sale_def ex_units_def)

end
