(* ===== verification/Visit_Contract.thy ===== *)
theory Visit_Contract
  imports Walk_Contract Inventory_Contract
begin

text \<open>
  What the postings and the inventories are worth after a visit: the auto posting and the children of a
  reduction over several lots, the undoing of bookings, and concrete runs where the reducer departs
  from its documentation.
\<close>

section \<open>The auto posting\<close>



text \<open>The units an account holds after a walk, read off its positions.\<close>

definition positions_of :: "unit walk_result result \<Rightarrow> account \<Rightarrow> (currency \<times> decimal) list" where
  "positions_of r a = (case r of Inr x \<Rightarrow> (case final x a of
      Some (Some i) \<Rightarrow> map (\<lambda>p. (amt_currency (pos_units p), amt_number (pos_units p))) i
    | _ \<Rightarrow> []) | Inl _ \<Rightarrow> [])"

definition finding_codes :: "unit walk_result result \<Rightarrow> string list option" where
  "finding_codes r = (case r of Inr x \<Rightarrow> Some (map diag_code (wr_diags x)) | Inl _ \<Rightarrow> None)"

definition postings_of :: "unit walk_result result \<Rightarrow> nat \<Rightarrow> posting list" where
  "postings_of r n = (case r of Inr x \<Rightarrow> (case wr_out x ! n of DTransaction t \<Rightarrow> txn_postings t | _ \<Rightarrow> []) | Inl _ \<Rightarrow> [])"

definition weights_of :: "posting list \<Rightarrow> (currency \<times> rat) list" where
  "weights_of ps = concat (map (\<lambda>p. case posting_weight gda p of
     Inr (Some w) \<Rightarrow> [(amt_currency w, dval (amt_number w))] | _ \<Rightarrow> []) ps)"

definition ex_lot_sale :: transaction where
  "ex_lot_sale = ex_txn 2 [ex_posting ''C'' (ex_amt 2 ''HOOL'') None, ex_posting ''A'' None None]"

definition ex_two_lots :: transaction where
  "ex_two_lots = ex_txn 1 [ex_posting ''A'' (ex_amt 1 ''HOOL'') (Some (ex_spec_cost 5)),
     ex_posting ''A'' (ex_amt 1 ''HOOL'') (Some (ex_spec_cost 6)), ex_posting ''B'' None None]"

definition ex_open_fifo :: directive where
  "ex_open_fifo = DOpen \<lparr>open_span = zero_span, open_date = 0, open_account = ''A'', open_currencies = [],
     open_booking = BookingFIFO, open_meta = Map.empty\<rparr>"

text \<open>The condition on the auto posting is needed: one that is matched against a lot held at cost
  receives the cost of the lot after its units were chosen to balance the transaction, which is then
  booked without a finding and has a residual in the commodity and one in the cost currency.\<close>

theorem auto_posting_against_lots:
  "finding_codes (run gda None [DTransaction ex_purchase, DTransaction ex_lot_sale]) = Some [] \<and>
   weights_of (postings_of (run gda None [DTransaction ex_purchase, DTransaction ex_lot_sale]) 1) =
     [(''HOOL'', 2), (''USD'', - 10)]"
  by code_simp

section \<open>Several lots\<close>

text \<open>A posting that reduces several lots is replaced by one child for each step, and the children
  have together exactly the units of the posting.\<close>

theorem children_add_up:
  assumes "apd_exact A" and "book_one A (Some i) p m d = Inr (Inr (l, steps, iv'))" and "p_amount p = Some amt"
    and "s \<in> set steps" and "real_lot A (rs_lot s)"
    and "add_multi_lot_reduction pr p steps = Inr pr'"
  shows "pr_postings pr' = pr_postings pr @ map (reduction_child p amt) steps \<and>
    sum_list (map (child_units \<circ> reduction_child p amt) steps) = dval (amt_number amt)"
  using apd_exact.multi_lot_children [OF assms(1-2) assms(3-6)] by blast

definition ex_sell_twelve :: posting where
  "ex_sell_twelve = ex_posting ''A'' (Some (ex_units (- 12))) None"

lemma ex_sell_twelve_booked:
  "book_one gda (Some ex_inv) ex_sell_twelve BookingFIFO 5 =
     Inr (Inr (None, [ex_step 10 100 1, ex_step 2 120 2], Some [ex_pos 3 (Some (ex_lot 120 2))]))"
  by code_simp

theorem children_add_up_witness:
  "sum_list (map (child_units \<circ> reduction_child ex_sell_twelve (ex_units (- 12)))
     [ex_step 10 100 1, ex_step 2 120 2]) = - 12"
proof -
  have p: "p_amount ex_sell_twelve = Some (ex_units (- 12))" by (simp add: ex_sell_twelve_def ex_posting_def)
  have r: "real_lot gda (rs_lot (ex_step 10 100 1))" by code_simp
  have "add_multi_lot_reduction new_posting_resolution ex_sell_twelve [ex_step 10 100 1, ex_step 2 120 2] =
      Inr (add_children new_posting_resolution ex_sell_twelve (ex_units (- 12)) [ex_step 10 100 1, ex_step 2 120 2])"
    by (simp add: add_multi_lot_reduction_def p)
  from children_add_up [OF gda.apd_exact_axioms ex_sell_twelve_booked p _ r this] show ?thesis
    by (simp add: ex_units_def)
qed

section \<open>Undoing\<close>

text \<open>Undoing a booking that added to an inventory is the inverse of adding: every slot has the
  units it had before.\<close>

theorem augmentation_undone:
  assumes "apd_exact A" and "inv_add A i \<lparr>pos_units = bp_units bp, pos_cost = bp_lot bp\<rparr> = Inr i'"
    and "bp_reduction bp = None" and "reverse_booking A (Some i') bp = Inr (Some i'')"
  shows "held A i'' c k = held A i c k"
  using apd_exact.reverse_augmentation [OF assms(1,2) refl refl assms(3,4)] .

definition ex_booked :: "amount \<Rightarrow> lot option \<Rightarrow> reduction_step option \<Rightarrow> booked_posting" where
  "ex_booked u l s = \<lparr>bp_source = None, bp_account = ''A'', bp_units = u, bp_lot = l, bp_reduction = s,
     bp_inferred = False\<rparr>"

theorem augmentation_undone_witness:
  "\<exists>i''. reverse_booking gda (Some [ex_pos 5 (Some (ex_lot 120 2)), ex_pos 17 (Some (ex_lot 100 1))])
      (ex_booked (ex_units 7) (Some (ex_lot 100 1)) None) = Inr (Some i'') \<and>
    held gda i'' ''HOOL'' (Some (ex_lot 100 1)) = held gda ex_inv ''HOOL'' (Some (ex_lot 100 1))"
proof -
  let ?b = "ex_booked (ex_units 7) (Some (ex_lot 100 1)) None"
  have r: "reverse_booking gda (Some [ex_pos 5 (Some (ex_lot 120 2)), ex_pos 17 (Some (ex_lot 100 1))]) ?b =
      Inr (Some ex_inv)"
    by code_simp
  have a: "inv_add gda ex_inv \<lparr>pos_units = bp_units ?b, pos_cost = bp_lot ?b\<rparr> =
      Inr [ex_pos 5 (Some (ex_lot 120 2)), ex_pos 17 (Some (ex_lot 100 1))]"
    using ex_add by (simp add: ex_booked_def ex_pos_def)
  from augmentation_undone [OF gda.apd_exact_axioms a _ r] r show ?thesis by (simp add: ex_booked_def)
qed

text \<open>C21 Undoing a reduction in one step restores every slot if the position it took from was long; if
  that position was short, its slot ends above where it was by twice the units of the step.\<close>

theorem reduction_undone_if_long:
  assumes "apd_exact A" and "inv_reduce A i (bp_units bp) mt m = Inr (Inr ([s], i'))"
    and "bp_reduction bp = Some s" and "reverse_booking A (Some i') bp = Inr (Some i'')"
    and "\<forall>p\<in>set i. \<forall>k. pos_cost p = Some k \<longrightarrow> real_lot A k"
  shows "\<exists>j<length i. rs_lot s = position_lot (i ! j) \<and>
    (\<forall>c k. held A i'' c k = held A i c k +
       (if in_slot A c k (i ! j) \<and> units_val (i ! j) < 0 then 2 * dval (rs_units s) else 0))"
  by (rule apd_exact.reverse_single_reduction [OF assms(1,2) refl assms(3-5)]) blast

theorem reduction_undone_if_long_witness:
  "\<exists>j<1. held gda [ex_pos (- 1) None] ''HOOL'' None = held gda [ex_pos (- 3) None] ''HOOL'' None +
     (if in_slot gda ''HOOL'' None ([ex_pos (- 3) None] ! j) \<and> units_val ([ex_pos (- 3) None] ! j) < 0 then 2 * 1 else 0)"
proof -
  let ?s = "\<lparr>rs_lot = zero_lot, rs_units = of_whole 1, rs_sale_price = None, rs_gain = None, rs_gain_currency = []\<rparr>"
  let ?b = "ex_booked (ex_units 1) None (Some ?s)"
  have red: "inv_reduce gda [ex_pos (- 3) None] (bp_units ?b) empty_matcher BookingFIFO =
      Inr (Inr ([?s], [ex_pos (- 2) None]))"
    by code_simp
  have rev: "reverse_booking gda (Some [ex_pos (- 2) None]) ?b = Inr (Some [ex_pos (- 1) None])"
    by code_simp
  from reduction_undone_if_long [OF gda.apd_exact_axioms red _ rev] obtain j where "j < 1"
    and h: "\<forall>c k. held gda [ex_pos (- 1) None] c k = held gda [ex_pos (- 3) None] c k +
       (if in_slot gda c k ([ex_pos (- 3) None] ! j) \<and> units_val ([ex_pos (- 3) None] ! j) < 0
        then 2 * dval (of_whole 1) else 0)"
    by (auto simp: ex_booked_def ex_pos_def)
  then show ?thesis by (metis dval_of_whole of_int_1)
qed

definition ex_cash_short :: transaction where
  "ex_cash_short = ex_txn 1 [ex_posting ''A'' (ex_amt (- 3) ''USD'') None, ex_posting ''C'' (ex_amt 1 ''HOOL'') (Some (ex_spec_cost 5)),
     ex_posting ''E'' None None]"

definition ex_failing :: transaction where
  "ex_failing = ex_txn 2 [ex_posting ''A'' (ex_amt 2 ''USD'') None, ex_posting ''C'' (ex_amt (- 1) ''HOOL'') (Some (ex_spec_cost 7))]"

text \<open>Undoing a reduction of a short position does not: an account at -3 whose posting of +2 is
  rolled back, because another posting of its transaction names a lot that does not exist, ends at +1.\<close>

theorem short_reduction_not_undone:
  "positions_of (run gda None [DTransaction ex_cash_short]) ''A'' = [(''USD'', of_whole (- 3))] \<and>
   finding_codes (run gda None [DTransaction ex_cash_short, DTransaction ex_failing]) = Some [''no-matching-lot''] \<and>
   positions_of (run gda None [DTransaction ex_cash_short, DTransaction ex_failing]) ''A'' = [(''USD'', of_whole 1)]"
  by code_simp

section \<open>Repeated walks\<close>

definition ex_ambiguous :: transaction where
  "ex_ambiguous = ex_txn 1 [ex_posting ''A'' (ex_amt 1 ''HOOL'') (Some (ex_cost 1)),
     ex_posting ''A'' (ex_amt 1 ''HOOL'') (Some (ex_cost 2)), ex_posting ''A'' (ex_amt (- 1) ''HOOL'') None]"

definition input_after :: "unit walk_result result \<Rightarrow> directive list" where
  "input_after r = (case r of Inr x \<Rightarrow> wr_input x | Inl _ \<Rightarrow> [])"

text \<open>A walk can edit the directives it was given, and a second walk over them can then find
  something else: a transaction without a cost specification is edited in place, and the posting that was
  reported the first time is gone the second.\<close>

theorem second_walk_differs:
  "finding_codes (run gda None [DTransaction ex_ambiguous]) = Some [''ambiguous-lot-match''] \<and>
   finding_codes (run gda None (input_after (run gda None [DTransaction ex_ambiguous]))) = Some []"
  by code_simp

end
