(* ===== verification/Validation_Contract.thy ===== *)
theory Validation_Contract
  imports Validators Visit_Contract
begin

text \<open>
  What the validations report, as properties of \<open>accountstate.Build\<close>, of the validators of
  \<open>validations\<close>, of \<open>tolerance.Infer\<close> and of the plugin that runs them: each report is stated over the
  directives themselves, not over the state the code threads.
\<close>

section \<open>Accounts\<close>

text \<open>The life of an account that \<open>Build\<close> records is read off the directives: none without an \<open>open\<close>;
  otherwise the first \<open>open\<close> of the account, closed by the first \<open>close\<close> after it if there is one; and
  every later \<open>open\<close> of the account, in order, is a duplicate.\<close>

theorem account_lifecycle:
  assumes "build A (Some ds) opts = Inr r"
  shows "life_of a ds (br_state r a) \<and>
    filter (\<lambda>x. open_account x = a) (br_duplicates r) = tl (opens_of a ds)"
  using build_lifecycle [OF assms] by blast

definition ex_open_dir :: "account \<Rightarrow> time \<Rightarrow> currency list \<Rightarrow> open_dir" where
  "ex_open_dir a d cs = \<lparr>open_span = zero_span, open_date = d, open_account = a, open_currencies = cs,
     open_booking = BookingFIFO, open_meta = Map.empty\<rparr>"

definition ex_close_dir :: "account \<Rightarrow> time \<Rightarrow> close_dir" where
  "ex_close_dir a d = \<lparr>close_span = zero_span, close_date = d, close_account = a, close_meta = Map.empty\<rparr>"

definition ex_life :: "directive list" where
  "ex_life = [DClose (ex_close_dir ''A'' 0), DOpen (ex_open_dir ''A'' 1 [''USD'']), DClose (ex_close_dir ''A'' 5),
     DOpen (ex_open_dir ''A'' 7 []), DOpen (ex_open_dir ''B'' 2 [])]"

definition ex_build :: build_result where
  "ex_build = \<lparr>br_state = Map.empty(''A'' \<mapsto> close_state (opened_state (ex_open_dir ''A'' 1 [''USD'']) BookingFIFO) (ex_close_dir ''A'' 5),
       ''B'' \<mapsto> opened_state (ex_open_dir ''B'' 2 []) BookingFIFO),
     br_duplicates = [ex_open_dir ''A'' 7 []], br_diags = []\<rparr>"

lemma ex_life_built: "build gda (Some ex_life) None = Inr ex_build"
  by (simp add: build_def ex_life_def build_step_def empty_build_def ex_open_dir_def ex_close_dir_def
      resolve_booking_method_def ex_build_def opened_state_def close_state_def)

theorem account_lifecycle_witness:
  "\<exists>r. build gda (Some ex_life) None = Inr r \<and> life_of ''A'' ex_life (br_state r ''A'') \<and>
     filter (\<lambda>x. open_account x = ''A'') (br_duplicates r) = [ex_open_dir ''A'' 7 []]"
  using account_lifecycle [OF ex_life_built] ex_life_built
  by (auto simp: ex_life_def opens_of_def ex_open_dir_def)

text \<open>What a directive has to say about the accounts it uses.\<close>

definition usage_codes :: "directive list \<Rightarrow> directive \<Rightarrow> string list" where
  "usage_codes ds d =
     (case d of
        DTransaction t \<Rightarrow>
          concat (map (\<lambda>p. opt_list (usage_verdict True ds (p_account p) (txn_date t))) (txn_postings t))
      | DBalance b \<Rightarrow> opt_list (usage_verdict False ds (bal_account b) (bal_date b))
      | DPad p \<Rightarrow> opt_list (usage_verdict True ds (pad_account p) (pad_date p)) @
          opt_list (usage_verdict True ds (pad_source p) (pad_date p))
      | DNote n \<Rightarrow> opt_list (usage_verdict False ds (note_account n) (note_date n))
      | DDocument x \<Rightarrow> opt_list (usage_verdict False ds (doc_account x) (doc_date x))
      | _ \<Rightarrow> [])"

lemma codes_opt_list [simp]: "map diag_code (opt_list x) = opt_list (map_option diag_code x)"
  by (cases x) (simp_all add: opt_list_def)

text \<open>C23 The use of accounts is checked exactly: a posting and a pad need the account to be opened, on or
  before their day, and not closed before it; a balance, a note and a document need only the first two; and
  the findings come in the order of the uses, one for each use that fails.\<close>

theorem account_usage_reported:
  assumes "build A (Some ds) opts = Inr r"
  shows "\<exists>xs. active_process (br_state r) d = Inr xs \<and> map diag_code xs = usage_codes ds d"
proof -
  note opened = check_opened_verdict [OF assms]
  have active: "\<exists>x. check_active (br_state r) a day sp = Inr x \<and> map_option diag_code x = usage_verdict True ds a day"
    for a day sp
    using check_active_no_panic check_active_verdict [OF assms] by metis
  show ?thesis
  proof (cases d)
    case (DTransaction t)
    obtain xs where "check_postings (br_state r) t (txn_postings t) = Inr xs"
      using check_postings_total by metis
    with check_postings_verdict [OF assms this] DTransaction show ?thesis
      by (simp add: active_process_def usage_codes_def)
  next
    case (DPad p)
    obtain x y where "check_active (br_state r) (pad_account p) (pad_date p) (pad_span p) = Inr x"
      "check_active (br_state r) (pad_source p) (pad_date p) (pad_span p) = Inr y"
      "map_option diag_code x = usage_verdict True ds (pad_account p) (pad_date p)"
      "map_option diag_code y = usage_verdict True ds (pad_source p) (pad_date p)"
      using active by metis
    with DPad show ?thesis by (simp add: active_process_def usage_codes_def)
  qed (simp_all add: active_process_def usage_codes_def opened)
qed

theorem account_usage_reported_witness:
  "\<exists>xs. active_process (br_state ex_build) (DTransaction (ex_txn 6 [ex_posting ''A'' (ex_amt 1 ''USD'') None,
       ex_posting ''B'' (ex_amt 1 ''USD'') None, ex_posting ''C'' None None])) = Inr xs \<and>
     map diag_code xs = [''account-closed'', ''account-not-open'']"
proof -
  have "usage_codes ex_life (DTransaction (ex_txn 6 [ex_posting ''A'' (ex_amt 1 ''USD'') None,
       ex_posting ''B'' (ex_amt 1 ''USD'') None, ex_posting ''C'' None None])) = [''account-closed'', ''account-not-open'']"
    by code_simp
  with account_usage_reported [OF ex_life_built] show ?thesis by metis
qed

section \<open>Currencies\<close>

definition may_hold :: "directive list \<Rightarrow> account \<Rightarrow> currency \<Rightarrow> bool" where
  "may_hold ds a c = (case opens_of a ds of [] \<Rightarrow> True | d # _ \<Rightarrow> open_currencies d = [] \<or> c \<in> set (open_currencies d))"

definition currency_code :: "directive list \<Rightarrow> posting \<Rightarrow> string list" where
  "currency_code ds p =
     (case p_amount p of
        None \<Rightarrow> [''auto-posting-unresolved'']
      | Some a \<Rightarrow> if may_hold ds (p_account p) (amt_currency a) then [] else [''currency-not-allowed''])"

lemma built_currencies:
  assumes "build A (Some ds) opts = Inr r"
  shows "(case br_state r a of None \<Rightarrow> True | Some s \<Rightarrow> allows_currency s c) = may_hold ds a c"
  using build_lifecycle(1) [OF assms, of a]
  by (cases "closes_of a (after_open a ds)")
    (auto simp: life_of_def may_hold_def allows_currency_iff split: list.splits)

text \<open>The currencies of an account are those of its first \<open>open\<close>: a posting is reported exactly if
  that directive names currencies and its own is not among them, whatever later \<open>open\<close>s say; an account
  that is never opened is not this check's business.\<close>

theorem currencies_reported:
  assumes "build A (Some ds) opts = Inr r"
  shows "map diag_code (currency_process (br_state r) (DTransaction t)) =
    concat (map (currency_code ds) (txn_postings t))"
proof -
  have "map diag_code (check_currencies (br_state r) t ps) = concat (map (currency_code ds) ps)" for ps
  proof (induction ps)
    case Nil
    then show ?case by simp
  next
    case (Cons p ps)
    then show ?case
      using built_currencies [OF assms, where a = "p_account p"]
      by (auto simp: currency_code_def split: option.splits)
  qed
  then show ?thesis by (simp add: currency_process_def)
qed

theorem currencies_reported_witness:
  "map diag_code (currency_process (br_state ex_build) (DTransaction (ex_txn 3
     [ex_posting ''A'' (ex_amt 1 ''EUR'') None, ex_posting ''B'' (ex_amt 1 ''EUR'') None]))) = [''currency-not-allowed'']"
  unfolding currencies_reported [OF ex_life_built] by code_simp

section \<open>Tolerances\<close>

text \<open>The tolerance that \<open>Infer\<close> derives exists for every currency asked for, whatever the postings
  and the options parsed from any directives, and is one formula: the multiplier times the coarsest
  last digit of the units posted in the currency, or the configured default where none are posted; and,
  where the options ask for it, at least the tolerance of every posting held at cost in the currency.\<close>

theorem infer_formula:
  assumes "apd_total A" and "c \<in> set cs"
  shows "\<exists>out t. infer A ps (Some (fst (parse_options A ds))) cs = Inr out \<and> out c = Some t \<and>
    dval t = txn_tolerance A (Some (fst (parse_options A ds))) ps c"
proof -
  let ?o = "Some (fst (parse_options A ds))"
  note typed = parse_options_typed [of A ds]
  obtain m d b where "opt_decimal A ?o ''tolerance_multiplier'' = Inr m"
    "opt_decimal_map A ?o ''inferred_tolerance_default'' = Inr d" "opt_bool A ?o ''infer_tolerance_from_cost'' = Inr b"
    using tolerance_options_total [OF typed] by blast
  moreover obtain out where "infer A ps ?o cs = Inr out" using apd_total.infer_total [OF assms(1) typed] by blast
  ultimately show ?thesis using apd_exact.infer_val [OF apd_total.axioms(1) [OF assms(1)] _ assms(2)]
    by (fastforce simp: txn_tolerance_def)
qed

definition ex_options :: "option_values option" where
  "ex_options = Some (fst (parse_options gda None))"

lemma ex_options: "\<exists>ds. ex_options = Some (fst (parse_options gda ds))"
  by (auto simp: ex_options_def)

definition ex_cents :: "int \<Rightarrow> amount" where
  "ex_cents n = \<lparr>amt_number = dec (n < 0) (nat \<bar>n\<bar>) (- 2), amt_currency = ''USD''\<rparr>"

definition ex_spread :: "int \<Rightarrow> transaction" where
  "ex_spread n = ex_txn 1 [ex_posting ''A'' (Some (ex_cents 1050)) None, ex_posting ''B'' (Some (ex_cents n)) None]"

lemma ex_spread_infer:
  "(case infer gda (txn_postings (ex_spread 0)) ex_options [''USD''] of Inr out \<Rightarrow> map_option dval (out ''USD'') | Inl _ \<Rightarrow> None) =
     Some (1 / 200)"
  by code_simp

theorem infer_formula_witness:
  "txn_tolerance gda ex_options (txn_postings (ex_spread 0)) ''USD'' = 1 / 200"
proof -
  from infer_formula [OF gda.apd_total_axioms, of "''USD''" "[''USD'']" "txn_postings (ex_spread 0)" None]
  obtain out t where "infer gda (txn_postings (ex_spread 0)) ex_options [''USD''] = Inr out" "out ''USD'' = Some t"
    "dval t = txn_tolerance gda ex_options (txn_postings (ex_spread 0)) ''USD''"
    by (auto simp: ex_options_def)
  with ex_spread_infer show ?thesis by simp
qed

section \<open>Balances of transactions\<close>

text \<open>C19 A transaction whose postings can be weighed is reported as unbalanced exactly if in some currency
  the weights do not sum to zero and exceed the tolerance derived for it; each posting without an amount
  is reported as such, and nothing else is.\<close>

theorem unbalanced_reported:
  assumes "apd_total A"
    and "\<forall>p\<in>set (txn_postings t). p_amount p \<noteq> None \<longrightarrow> (\<exists>w. posting_weight A p = Inr w)"
  shows "\<exists>xs. balances_process A (Some (fst (parse_options A ds))) (DTransaction t) = Inr xs \<and>
    map diag_code xs =
      replicate (length (filter (\<lambda>p. p_amount p = None) (txn_postings t))) ''auto-posting-unresolved'' @
      (if \<forall>c. net_weight A c (txn_postings t) = 0 \<or> \<bar>net_weight A c (txn_postings t)\<bar> \<le>
            txn_tolerance A (Some (fst (parse_options A ds))) (txn_postings t) c
       then [] else [''unbalanced-transaction''])"
proof -
  obtain xs rs where "balances_process A (Some (fst (parse_options A ds))) (DTransaction t) =
      Inr (xs @ (if rs = [] then [] else [mk_diag ''unbalanced-transaction'' (txn_span t)
         (''transaction does not balance: non-zero residual '' @ join_with '', '' rs)]))"
    "xs = map (unresolved_diag t) (filter (\<lambda>p. p_amount p = None) (txn_postings t))"
    "rs = [] \<longleftrightarrow> (\<forall>c. net_weight A c (txn_postings t) = 0 \<or> \<bar>net_weight A c (txn_postings t)\<bar> \<le>
       txn_tolerance A (Some (fst (parse_options A ds))) (txn_postings t) c)"
    by (rule apd_total.balances_process_val [OF assms(1) parse_options_typed assms(2)])
  moreover from this(2) have "map diag_code xs =
      replicate (length (filter (\<lambda>p. p_amount p = None) (txn_postings t))) ''auto-posting-unresolved''"
    by (simp add: map_replicate_const comp_def)
  ultimately show ?thesis by (cases "rs = []") auto
qed

lemma ex_spread_reported:
  "(case balances_process gda ex_options (DTransaction (ex_spread (- 1000))) of
      Inr xs \<Rightarrow> map diag_code xs | Inl _ \<Rightarrow> []) = [''unbalanced-transaction'']"
  by code_simp

theorem unbalanced_reported_witness:
  "\<not> (\<forall>c. net_weight gda c (txn_postings (ex_spread (- 1000))) = 0 \<or>
     \<bar>net_weight gda c (txn_postings (ex_spread (- 1000)))\<bar> \<le>
     txn_tolerance gda ex_options (txn_postings (ex_spread (- 1000))) c)"
proof -
  have "\<forall>p\<in>set (txn_postings (ex_spread (- 1000))). p_amount p \<noteq> None \<longrightarrow> (\<exists>w. posting_weight gda p = Inr w)"
    by (auto simp: ex_spread_def ex_txn_def posting_weight_def total_cost_def ex_posting_def)
  moreover have "filter (\<lambda>p. p_amount p = None) (txn_postings (ex_spread (- 1000))) = []"
    by (simp add: ex_spread_def ex_txn_def ex_posting_def)
  ultimately show ?thesis
    using unbalanced_reported [OF gda.apd_total_axioms, of "ex_spread (- 1000)" None] ex_spread_reported
    by (auto simp: ex_options_def split: if_splits)
qed



end
