(* ===== verification/Plugin_Contract.thy ===== *)
theory Plugin_Contract
  imports Pad_Report Validation_Contract
begin

text \<open>
  What the balance and the pad plugin promise, stated over the directives: the units that an assertion
  is compared with, the transactions that are inserted, and when a padded assertion holds; and runs
  where it does not.
\<close>

section \<open>Assertions\<close>

text \<open>C18 The balance plugin compares each assertion with the exact sum of the units that the
  transactions before it post to the account and the accounts below it, in the asserted currency. It
  returns new directives exactly if some assertion is off by more than its tolerance; they are the given
  ones in order, but each such assertion carries the exact difference. If none is, no mismatch is
  reported.\<close>

theorem balance_plugin_exact:
  assumes "apd_total A"
  shows "\<exists>out diags. balance_apply A (Some ds) (Some (fst (parse_options A os))) = Inr (out, diags) \<and>
    (out = None \<longleftrightarrow> (\<forall>i<length ds. \<not> failing A (Some (fst (parse_options A os))) (ds ! i)
       (\<lambda>b. ledger_units (asserted_key b) (take i ds)))) \<and>
    (out = None \<longrightarrow> (\<forall>x\<in>set diags. diag_code x \<noteq> ''balance-mismatch'')) \<and>
    (\<forall>ds'. out = Some ds' \<longrightarrow> length ds' = length ds \<and>
       (\<forall>i<length ds. checked_form A (Some (fst (parse_options A os))) (ds ! i)
          (\<lambda>b. ledger_units (asserted_key b) (take i ds)) (ds' ! i)))"
proof -
  obtain out changed diags where
    "balance_loop A (Some (fst (parse_options A os))) [] Map.empty ds = Inr (out, changed, diags)"
    "length out = length ds \<and>
    (\<forall>i<length ds. checked_form A (Some (fst (parse_options A os))) (ds ! i)
       (\<lambda>b. ledger_units (asserted_key b) (take i ds)) (out ! i)) \<and>
    (changed \<longleftrightarrow> (\<exists>i<length ds. failing A (Some (fst (parse_options A os))) (ds ! i)
       (\<lambda>b. ledger_units (asserted_key b) (take i ds)))) \<and>
    (\<not> changed \<longrightarrow> out = ds \<and> (\<forall>d\<in>set diags. diag_code d \<noteq> ''balance-mismatch''))"
    using apd_total.balance_loop_val [OF assms parse_options_typed, of os "[]" Map.empty ds] by auto
  then show ?thesis by (cases changed) (auto simp: balance_apply_def)
qed

definition ex_balance :: "account \<Rightarrow> time \<Rightarrow> int \<Rightarrow> balance_dir" where
  "ex_balance a d n = \<lparr>bal_span = zero_span, bal_date = d, bal_account = a,
     bal_amount = \<lparr>amt_number = of_whole n, amt_currency = ''USD''\<rparr>, bal_tolerance = None, bal_meta = Map.empty, bal_diff = None\<rparr>"

definition ex_pad :: "account \<Rightarrow> account \<Rightarrow> time \<Rightarrow> directive" where
  "ex_pad a b d = DPad \<lparr>pad_span = zero_span, pad_date = d, pad_account = a, pad_source = b, pad_meta = Map.empty\<rparr>"

definition ex_move :: "account \<Rightarrow> account \<Rightarrow> int \<Rightarrow> directive" where
  "ex_move a b n = DTransaction (ex_txn 1 [ex_posting a (ex_amt n ''USD'') None, ex_posting b (ex_amt (- n) ''USD'') None])"

definition ex_checked :: "directive list" where
  "ex_checked = [ex_move ''A:B'' ''C'' 5, DBalance (ex_balance ''A'' 2 5), DBalance (ex_balance ''A'' 3 7)]"

lemma ex_checked_run:
  "(case balance_apply gda (Some ex_checked) ex_options of Inr (out, diags) \<Rightarrow> out \<noteq> None \<and>
     map diag_code diags = [''balance-mismatch''] | Inl _ \<Rightarrow> False)"
  by code_simp

theorem balance_plugin_exact_witness:
  "\<exists>i<length ex_checked. failing gda ex_options (ex_checked ! i)
     (\<lambda>b. ledger_units (asserted_key b) (take i ex_checked))"
  using balance_plugin_exact [OF gda.apd_total_axioms, of ex_checked None] ex_checked_run
  by (auto simp: ex_options_def)

section \<open>Repeated assertions\<close>

definition asserted :: "directive list \<Rightarrow> balance_dir set" where
  "asserted ds = {b. DBalance b \<in> set ds}"

definition agrees :: "(seen_key \<Rightarrow> rat) \<Rightarrow> balance_dir set \<Rightarrow> bool" where
  "agrees f bs \<longleftrightarrow> (\<forall>b\<in>bs. expected_units b = f (new_seen_key b))"

definition extends :: "(seen_key \<Rightarrow> rat) \<Rightarrow> (seen_key \<rightharpoonup> amount) \<Rightarrow> bool" where
  "extends f seen \<longleftrightarrow> (\<forall>k a. seen k = Some a \<longrightarrow> f k = dval (amt_number a))"

definition repeats :: "diagnostic list \<Rightarrow> bool" where
  "repeats xs \<longleftrightarrow> (\<exists>x\<in>set xs. diag_code x = ''duplicate-balance'')"

lemma repeats_simps [simp]:
  "repeats [] \<longleftrightarrow> False" "repeats (x # xs) \<longleftrightarrow> diag_code x = ''duplicate-balance'' \<or> repeats xs"
  "repeats (xs @ ys) \<longleftrightarrow> repeats xs \<or> repeats ys"
  by (auto simp: repeats_def)

lemma asserted_simps [simp]:
  "asserted [] = {}" "asserted (DBalance b # ds) = insert b (asserted ds)"
  "(\<And>b. d \<noteq> DBalance b) \<Longrightarrow> asserted (d # ds) = asserted ds"
  by (auto simp: asserted_def)

lemma bal_postings_repeats: "bal_postings A t ps bs = (ds, bs') \<Longrightarrow> \<not> repeats ds"
proof (induction ps arbitrary: bs ds)
  case (Cons p ps)
  then show ?case by (auto split: option.splits prod.splits)
qed simp

lemma check_balance_repeats:
  assumes "apd_total A" and "opts_typed A opts" and "check_balance A b bs opts = Inr (c, ds)"
  shows "\<not> repeats ds"
  using apd_total.check_balance_val [OF assms(1,2), of b bs] assms(3)
  by (cases "holds_within A opts b (bucket_sum bs (asserted_key b))") (auto simp: mismatch_def)

lemma extends_update:
  "seen k = None \<Longrightarrow> extends f (seen(k \<mapsto> a)) \<longleftrightarrow> extends f seen \<and> f k = dval (amt_number a)"
  unfolding extends_def fun_upd_apply by (metis option.distinct(1) option.inject)

lemma check_duplicate_repeats:
  assumes "apd_exact A" and "check_duplicate A b seen = (ds, seen')"
  shows "\<not> repeats ds \<and> extends f seen' \<longleftrightarrow> extends f seen \<and> expected_units b = f (new_seen_key b)"
proof (cases "seen (new_seen_key b)")
  case None
  with assms show ?thesis by (auto simp: check_duplicate_def extends_update expected_units_def)
next
  case (Some prev)
  then have "extends f seen \<Longrightarrow> f (new_seen_key b) = dval (amt_number prev)"
    unfolding extends_def by blast
  with Some assms show ?thesis
    by (auto simp: check_duplicate_def expected_units_def apd_exact.cmp_0 [OF assms(1)] split: if_splits)
qed

lemma balance_loop_repeats:
  assumes "apd_total A" and "opts_typed A opts"
  shows "balance_loop A opts bs seen ds = Inr (out, changed, xs) \<Longrightarrow>
    \<not> repeats xs \<longleftrightarrow> (\<exists>f. extends f seen \<and> agrees f (asserted ds))"
proof (induction ds arbitrary: bs seen out changed xs)
  case Nil
  have "extends (\<lambda>k. case seen k of Some a \<Rightarrow> dval (amt_number a) | None \<Rightarrow> 0) seen" by (simp add: extends_def)
  with Nil show ?case by (auto simp: agrees_def)
next
  case (Cons d ds)
  show ?case
  proof (cases "\<exists>b. d = DBalance b")
    case True
    then obtain b where d: "d = DBalance b" ..
    obtain ys seen' where dup: "check_duplicate A b seen = (ys, seen')" by (cases "check_duplicate A b seen")
    from Cons.prems d dup obtain c zs out' changed' ws where c: "check_balance A b bs opts = Inr (c, zs)"
      and rest: "balance_loop A opts bs seen' ds = Inr (out', changed', ws)" and xs: "xs = zs @ ys @ ws"
      by (auto split: option.splits)
    from xs have "\<not> repeats xs \<longleftrightarrow> \<not> repeats ys \<and> \<not> repeats ws"
      using check_balance_repeats [OF assms c] by simp
    also have "\<dots> \<longleftrightarrow> (\<exists>f. extends f seen \<and> expected_units b = f (new_seen_key b) \<and> agrees f (asserted ds))"
      using check_duplicate_repeats [OF apd_total.axioms(1) [OF assms(1)] dup] Cons.IH [OF rest] by blast
    finally show ?thesis by (simp add: d agrees_def)
  next
    case False
    then have a: "asserted (d # ds) = asserted ds" by simp
    have other: "balance_loop A opts bs seen ds = Inr (tl out, changed, xs)" if "\<forall>t. d \<noteq> DTransaction t"
      using that False Cons.prems by (cases d) auto
    have "\<exists>bs' out' changed' ys ws. balance_loop A opts bs' seen ds = Inr (out', changed', ws) \<and>
        xs = ys @ ws \<and> \<not> repeats ys"
    proof (cases "\<exists>t. d = DTransaction t")
      case True
      then obtain t where d: "d = DTransaction t" ..
      obtain ys bs' where t: "bal_apply_transaction A t bs = (ys, bs')" by (cases "bal_apply_transaction A t bs")
      then have "\<not> repeats ys" using bal_postings_repeats by (simp add: bal_apply_transaction_def)
      with t Cons.prems d show ?thesis by fastforce
    next
      case False
      with other repeats_simps(1) show ?thesis by (metis append_Nil)
    qed
    with Cons.IH show ?thesis unfolding a by (metis repeats_simps(3))
  qed
qed

lemma agrees_iff:
  "(\<exists>f. agrees f bs) \<longleftrightarrow> (\<forall>b\<in>bs. \<forall>b'\<in>bs. new_seen_key b = new_seen_key b' \<longrightarrow> expected_units b = expected_units b')"
proof
  assume all: "\<forall>b\<in>bs. \<forall>b'\<in>bs. new_seen_key b = new_seen_key b' \<longrightarrow> expected_units b = expected_units b'"
  define f where "f = (\<lambda>k. expected_units (SOME b. b \<in> bs \<and> new_seen_key b = k))"
  have "expected_units b = f (new_seen_key b)" if "b \<in> bs" for b
    unfolding f_def using that all by (metis (mono_tags, lifting) someI_ex)
  then show "\<exists>f. agrees f bs" unfolding agrees_def by blast
qed (auto simp: agrees_def)

text \<open>A repeated assertion is reported exactly if two assertions of the same account, day and
  currency name different numbers, however many there are and in whatever order.\<close>

theorem repeated_assertions_reported:
  assumes "apd_total A" and "balance_apply A (Some ds) (Some (fst (parse_options A os))) = Inr (out, diags)"
  shows "(\<exists>x\<in>set diags. diag_code x = ''duplicate-balance'') \<longleftrightarrow>
    (\<exists>b b'. DBalance b \<in> set ds \<and> DBalance b' \<in> set ds \<and> new_seen_key b = new_seen_key b' \<and>
       expected_units b \<noteq> expected_units b')"
proof -
  from assms(2) obtain out' changed where
    "balance_loop A (Some (fst (parse_options A os))) [] Map.empty ds = Inr (out', changed, diags)"
    by (auto simp: balance_apply_def)
  from balance_loop_repeats [OF assms(1) parse_options_typed this] show ?thesis
    using agrees_iff [of "asserted ds"] by (auto simp: repeats_def extends_def asserted_def)
qed

definition ex_repeated :: "directive list" where
  "ex_repeated = [DBalance (ex_balance ''A'' 2 0), DBalance (ex_balance ''A'' 2 0), DBalance (ex_balance ''A'' 2 1)]"

theorem repeated_assertions_reported_witness:
  "\<exists>out diags. balance_apply gda (Some ex_repeated) ex_options = Inr (out, diags) \<and>
     (\<exists>x\<in>set diags. diag_code x = ''duplicate-balance'')"
proof -
  have "(case balance_apply gda (Some ex_repeated) ex_options of Inr _ \<Rightarrow> True | Inl _ \<Rightarrow> False)" by code_simp
  then obtain out diags where r: "balance_apply gda (Some ex_repeated) ex_options = Inr (out, diags)"
    by (auto split: sum.splits)
  have "new_seen_key (ex_balance ''A'' 2 0) = new_seen_key (ex_balance ''A'' 2 1)"
    "expected_units (ex_balance ''A'' 2 0) \<noteq> expected_units (ex_balance ''A'' 2 1)"
    by (simp_all add: new_seen_key_def ex_balance_def expected_units_def)
  then have "\<exists>b b'. DBalance b \<in> set ex_repeated \<and> DBalance b' \<in> set ex_repeated \<and> new_seen_key b = new_seen_key b' \<and>
       expected_units b \<noteq> expected_units b'"
    by (intro exI [of _ "ex_balance ''A'' 2 0"] exI [of _ "ex_balance ''A'' 2 1"]) (simp add: ex_repeated_def)
  with repeated_assertions_reported [OF gda.apd_total_axioms r [unfolded ex_options_def]] r show ?thesis by blast
qed

section \<open>Pads\<close>

text \<open>The directives after the pad plugin, which returns none when it inserts none.\<close>

definition padded :: "apd \<Rightarrow> directive list \<Rightarrow> directive list" where
  "padded A ds = (case fst (pad_apply A (Some ds)) of Some out \<Rightarrow> out | None \<Rightarrow> ds)"

lemma insert_nothing: "insert_synth [] i ds = ds"
  by (induction ds arbitrary: i) (simp_all add: synth_at_def)

definition synth_of :: "apd \<Rightarrow> directive list \<Rightarrow> (nat \<times> transaction) list" where
  "synth_of A ds = ps_synth (snd (pad_loop A 0 ds empty_pad_state))"

lemma padded_eq: "padded A ds = insert_synth (synth_of A ds) 0 ds"
  by (auto simp: padded_def pad_apply_def synth_of_def insert_nothing Let_def split: prod.splits)

lemma synth_of_ok:
  assumes "apd_total A" and "x \<in> set (synth_of A ds)"
  shows "synth_ok A ds x"
  using apd_total.pad_loop_inv [OF assms(1), of "[]" ds empty_pad_state] pad_inv_empty assms(2)
  by (cases "pad_loop A 0 ds empty_pad_state") (simp add: pad_inv_def synth_of_def)

lemma closes_gap_balanced:
  assumes "closes_gap A d t"
  shows "net_weight A c (txn_postings t) = 0"
    and "\<forall>p\<in>set (txn_postings t). \<exists>w. posting_weight A p = Inr (Some w)"
  using assms
  by (auto simp: closes_gap_def synth_txn_def synth_posting_def Let_def net_weight_def weight_in_def
      posting_weight_def total_cost_def)

lemma sum_list_map_zero: "\<forall>x\<in>set xs. f x = (0 :: rat) \<Longrightarrow> sum_list (map f xs) = 0"
  by (induction xs) auto

lemma pad_conserves:
  assumes "apd_total A"
  shows "ledger_units (\<lambda>k. snd k = c) (padded A ds) = ledger_units (\<lambda>k. snd k = c) ds"
proof -
  have zero: "posted_all (\<lambda>k. snd k = c) (txn_postings (snd x)) = 0" if "x \<in> set (synth_of A ds)" for x
  proof -
    have "synth_ok A ds x" using that by (rule synth_of_ok [OF assms])
    then obtain p e delta neg where "snd x = synth_txn A p e delta neg" "dval neg = - dval delta"
      by (auto simp: synth_ok_def closes_gap_def)
    then show ?thesis by (simp add: synth_txn_postings)
  qed
  have "synth_units (\<lambda>k. snd k = c) (filter (\<lambda>x. 0 \<le> fst x \<and> fst x < 0 + length ds) (synth_of A ds)) = 0"
    unfolding synth_units_def using zero by (intro sum_list_map_zero) auto
  then show ?thesis by (simp add: padded_eq insert_synth_units)
qed

text \<open>A transaction that serves a pad: on its day, with two postings without cost or price that move a
  number of units that is not zero from its source to its account.\<close>

definition plain_posting :: "posting \<Rightarrow> account \<Rightarrow> currency \<Rightarrow> rat \<Rightarrow> bool" where
  "plain_posting q a cur n \<longleftrightarrow> p_account q = a \<and> p_cost q = None \<and> p_price q = None \<and>
     (\<exists>amt. p_amount q = Some amt \<and> amt_currency amt = cur \<and> dval (amt_number amt) = n)"

definition moves_for :: "pad_dir \<Rightarrow> transaction \<Rightarrow> bool" where
  "moves_for p t \<longleftrightarrow> txn_date t = pad_date p \<and>
     (\<exists>to from cur n. txn_postings t = [to, from] \<and> n \<noteq> 0 \<and>
        plain_posting to (pad_account p) cur n \<and> plain_posting from (pad_source p) cur (- n))"

lemma closes_gap_moves: "closes_gap A p t \<Longrightarrow> moves_for p t"
  by (auto simp: closes_gap_def moves_for_def plain_posting_def synth_txn_def synth_posting_def Let_def)

lemma insert_synth_blocks:
  "insert_synth synth i ds =
     concat (map2 (#) ds (map (\<lambda>j. map DTransaction (synth_at synth j)) [i..<i + length ds]))"
proof (induction ds arbitrary: i)
  case (Cons d ds)
  have "[i..<i + length (d # ds)] = i # [Suc i..<Suc i + length ds]" by (subst upt_rec) simp
  then show ?case using Cons.IH [of "Suc i"] by simp
qed simp

text \<open>C25 The pad plugin only inserts, and only right after pads: its directives are the given ones in
  order, each followed by a block of transactions, which is empty but for pads. Those after a pad carry
  its date, move an amount that is not zero from its source to its account in two postings, and have no
  finding in the balance check of transactions. So padding makes no units: in every currency the units
  posted to all accounts together are the same as before.\<close>

theorem pad_plugin_inserts:
  assumes "apd_total A"
  shows "(\<exists>blocks. length blocks = length ds \<and> padded A ds = concat (map2 (#) ds blocks) \<and>
      (\<forall>i < length ds. \<forall>x \<in> set (blocks ! i). \<exists>p t. ds ! i = DPad p \<and> x = DTransaction t \<and> moves_for p t \<and>
         balances_process A (Some (fst (parse_options A os))) x = Inr [])) \<and>
    (\<forall>c. ledger_units (\<lambda>k. snd k = c) (padded A ds) = ledger_units (\<lambda>k. snd k = c) ds)"
proof (intro exI [of _ "map (\<lambda>j. map DTransaction (synth_at (synth_of A ds) j)) [0..<length ds]"] conjI allI impI ballI)
  show "padded A ds = concat (map2 (#) ds (map (\<lambda>j. map DTransaction (synth_at (synth_of A ds) j)) [0..<length ds]))"
    using insert_synth_blocks [of "synth_of A ds" 0 ds] by (simp add: padded_eq)
  show "ledger_units (\<lambda>k. snd k = c) (padded A ds) = ledger_units (\<lambda>k. snd k = c) ds" for c
    by (rule pad_conserves [OF assms])
  fix i x assume i: "i < length ds"
    and "x \<in> set (map (\<lambda>j. map DTransaction (synth_at (synth_of A ds) j)) [0..<length ds] ! i)"
  then obtain t where t: "x = DTransaction t" "(i, t) \<in> set (synth_of A ds)" by (auto simp: synth_at_def)
  then obtain p where p: "ds ! i = DPad p" "closes_gap A p t"
    using synth_of_ok [OF assms t(2)] by (auto simp: synth_ok_def pad_at_def)
  have "balances_process A (Some (fst (parse_options A os))) (DTransaction t) = Inr []"
    by (rule apd_total.balances_process_balanced [OF assms parse_options_typed])
      (simp_all add: closes_gap_balanced [OF p(2)])
  then show "\<exists>p t. ds ! i = DPad p \<and> x = DTransaction t \<and> moves_for p t \<and>
      balances_process A (Some (fst (parse_options A os))) x = Inr []"
    using t(1) p closes_gap_moves by blast
qed simp

text \<open>A pad is reported as unresolved exactly if no assertion of its account follows before the
  account is padded again or the directives end; the currency of the assertion does not matter.\<close>

theorem unresolved_pads_reported:
  "(\<exists>x\<in>set (snd (pad_apply A (Some ds))). diag_code x = ''pad-unresolved'') \<longleftrightarrow> \<not> pads_followed ds"
  using pad_loop_unresolved [of A 0 ds empty_pad_state]
  by (auto simp: pad_apply_def Let_def unresolved_def waiting_def empty_pad_state_def split: prod.splits)

text \<open>What a pad needs so that the assertion it serves holds.\<close>

definition serves :: "pad_dir \<Rightarrow> balance_dir \<Rightarrow> directive list \<Rightarrow> directive list \<Rightarrow> bool" where
  "serves p b pre mid \<longleftrightarrow> pad_account p = bal_account b \<and> bal_account b \<noteq> [] \<and>
     undisturbed (bal_account b) (amt_currency (bal_amount b)) mid \<and>
     cash_only (bal_account b, amt_currency (bal_amount b)) (pre @ DPad p # mid) \<and>
     no_source (bal_account b) (pre @ DPad p # mid) \<and> childless (bal_account b) (pre @ DPad p # mid)"

lemma serves_units:
  assumes A: "apd_total A" and sv: "serves p b pre mid"
  defines "front \<equiv> pre @ DPad p # mid"
  shows "ledger_units (asserted_key b) (insert_synth (synth_of A (front @ DBalance b # post)) 0 front) = expected_units b"
proof -
  let ?a = "bal_account b" and ?c = "amt_currency (bal_amount b)" and ?synth = "synth_of A (front @ DBalance b # post)"
  obtain d0 s0 where s0: "pad_loop A 0 pre empty_pad_state = (d0, s0)" by (cases "pad_loop A 0 pre empty_pad_state")
  obtain dp sp where sp: "record_pad p (length pre) s0 = (dp, sp)" by (cases "record_pad p (length pre) s0")
  obtain dm s1 where s1: "pad_loop A (Suc (length pre)) mid sp = (dm, s1)" by (cases "pad_loop A (Suc (length pre)) mid sp")
  obtain xs s where all: "pad_loop A 0 (front @ DBalance b # post) empty_pad_state = (xs, s)"
    by (cases "pad_loop A 0 (front @ DBalance b # post) empty_pad_state")
  have front: "pad_loop A 0 front empty_pad_state = (d0 @ dp @ dm, s1)"
    using s0 sp s1 by (simp add: front_def apd_total.pad_loop_append [OF A] pad_step_def)
  have "awaits ?a ?c p sp" using sp sv by (auto simp: record_pad_def awaits_def update_conv' serves_def)
  from apd_total.awaits_loop [OF A s1 this] sv obtain pp where
    pp: "map_of (ps_pending s1) ?a = Some pp" "?c \<notin> set (pp_padded pp)"
    by (auto simp: awaits_def serves_def)
  have "map_of (ps_costs s1) (?a, ?c) = None"
    using apd_total.costs_loop [OF A front, of "(?a, ?c)"] sv by (simp add: front_def empty_pad_state_def serves_def)
  then have cash: "\<not> held_at_cost b s1" by (simp add: held_at_cost_def bucket_val_def)
  have units: "ledger_units (\<lambda>x. x = (?a, ?c)) (insert_synth ?synth 0 front) = expected_units b"
    using apd_total.padded_bucket [OF A front pp cash _ all] sv all by (simp add: front_def synth_of_def serves_def)
  have "synth_ok A front x" if x: "x \<in> set ?synth" "fst x < length front" for x
    using synth_of_ok [OF A x(1)] x(2) by (auto simp: synth_ok_def pad_at_def nth_append)
  with childless_units [of b front ?synth A] sv units show ?thesis
    by (simp add: front_def serves_def)
qed

section \<open>Pads that miss\<close>

definition ex_codes :: "(directive list option \<times> diagnostic list) result \<Rightarrow> string list option" where
  "ex_codes r = (case r of Inr (_, xs) \<Rightarrow> Some (map diag_code xs) | Inl _ \<Rightarrow> None)"

text \<open>The conditions are needed. A parent whose child holds units is padded to the amount asserted as
  if the child held nothing, while the assertion counts the child; and a second pad that takes from the
  padded account, written before the assertion and resolved after it, is inserted before the assertion:
  in both cases the plugin reports nothing and the balance plugin then finds the padded assertion off.\<close>

theorem padded_assertion_can_fail:
  "snd (pad_apply gda (Some [ex_move ''A:B'' ''C'' 5, ex_pad ''A'' ''E'' 2, DBalance (ex_balance ''A'' 3 7)])) = [] \<and>
   ex_codes (balance_apply gda (Some (padded gda [ex_move ''A:B'' ''C'' 5, ex_pad ''A'' ''E'' 2,
     DBalance (ex_balance ''A'' 3 7)])) ex_options) = Some [''balance-mismatch''] \<and>
   snd (pad_apply gda (Some [ex_pad ''A'' ''E'' 1, ex_pad ''B'' ''A'' 1, DBalance (ex_balance ''A'' 2 10),
     DBalance (ex_balance ''B'' 3 4)])) = [] \<and>
   ex_codes (balance_apply gda (Some (padded gda [ex_pad ''A'' ''E'' 1, ex_pad ''B'' ''A'' 1,
     DBalance (ex_balance ''A'' 2 10), DBalance (ex_balance ''B'' 3 4)])) ex_options) = Some [''balance-mismatch'']"
  by (intro conjI) code_simp+

text \<open>A pad and the assertion after it: the transaction comes between them.\<close>

theorem pad_plugin_inserts_witness:
  "\<exists>p t. ex_pad ''A'' ''E'' 1 = DPad p \<and> moves_for p t \<and>
     padded gda [ex_pad ''A'' ''E'' 1, DBalance (ex_balance ''A'' 2 10)] =
       [DPad p, DTransaction t, DBalance (ex_balance ''A'' 2 10)]"
proof -
  let ?ds = "[ex_pad ''A'' ''E'' 1, DBalance (ex_balance ''A'' 2 10)]"
  obtain bs where bs: "length bs = length ?ds" "padded gda ?ds = concat (map2 (#) ?ds bs)"
    "\<forall>i < length ?ds. \<forall>x \<in> set (bs ! i). \<exists>p t. ?ds ! i = DPad p \<and> x = DTransaction t \<and> moves_for p t"
    using pad_plugin_inserts [OF gda.apd_total_axioms, of ?ds None] by blast
  then obtain b c where b: "bs = [b, c]" by (auto simp: length_Suc_conv)
  have "c = []" using bs(3) [rule_format, of 1] b by (cases c) auto
  then have out: "padded gda ?ds = ex_pad ''A'' ''E'' 1 # b @ [DBalance (ex_balance ''A'' 2 10)]" using bs(2) b by simp
  have "length (padded gda ?ds) = 3" by code_simp
  then obtain x where x: "b = [x]" using out by (auto simp: length_Suc_conv)
  then obtain p t where "ex_pad ''A'' ''E'' 1 = DPad p" "x = DTransaction t" "moves_for p t"
    using bs(3) [rule_format, of 0] b by auto
  with out x show ?thesis by auto
qed

end
