(* ===== verification/Pipeline.thy ===== *)
theory Pipeline
  imports Loader Plugin_Contract
begin

text \<open>
  The pipeline whatever its plugins do, and what its order and the resorting of the ledger after every
  plugin mean for the assertions that pads serve.
\<close>

section \<open>What no plugin can change\<close>

definition grows :: "full_ledger \<Rightarrow> full_ledger \<Rightarrow> bool" where
  "grows l l' \<longleftrightarrow> fl_files l' = fl_files l \<and> fl_options l' = fl_options l \<and>
     (\<exists>more. fl_diags l' = fl_diags l @ more) \<and> (ledger_ok (fl_ledger l) \<longrightarrow> ledger_ok (fl_ledger l'))"

lemma grows_refl [simp]: "grows l l"
  by (simp add: grows_def)

lemma grows_trans: "grows a b \<Longrightarrow> grows b c \<Longrightarrow> grows a c"
  by (auto simp: grows_def)

lemma replace_all_ok: "ledger_ok (ledger_replace_all g ds)"
  unfolding ledger_replace_all_def by (rule insert_all_ok) (simp add: ledger_ok_def)

lemma commit_grows: "grows l (commit l r)"
  by (auto simp: grows_def commit_def Let_def replace_all_ok split: option.splits)

lemma run_plugins_grows: "grows l (fst (run_plugins ctx reg src pds l))"
proof (induction pds arbitrary: l)
  case (Cons pd pds)
  have "grows l (l\<lparr>fl_diags := fl_diags l @ [unregistered pd]\<rparr>)" by (simp add: grows_def)
  with Cons show ?case
    by (auto intro: grows_trans commit_grows split: option.splits sum.splits go_error.splits)
qed simp

lemma run_builtin_grows: "grows l (fst (run_builtin ctx p l))"
  by (auto simp: run_builtin_def commit_grows split: option.splits sum.splits go_error.splits)

lemma in_sequence_grows:
  "\<forall>f\<in>set fs. \<forall>l. grows l (fst (f l)) \<Longrightarrow> grows l (fst (in_sequence fs l))"
proof (induction fs arbitrary: l)
  case (Cons f fs)
  obtain l' e where f: "f l = (l', e)" by (cases "f l")
  with Cons.prems have "grows l l'" by (metis fst_conv list.set_intros(1))
  moreover have "grows l' (fst (in_sequence fs l'))" using Cons by simp
  ultimately show ?case using f by (auto intro: grows_trans split: option.splits)
qed simp

lemma apply_default_grows: "grows l (fst (apply_default A ctx document reg l))"
  unfolding apply_default_def
  by (rule in_sequence_grows) (auto simp: postproc_apply_def run_plugins_grows run_builtin_grows)

lemma run_pipeline_grows: "grows l (fst (run_pipeline A ctx document reg l))"
  by (auto simp: run_pipeline_def postproc_apply_def run_plugins_grows apply_default_grows split: sum.splits)

section \<open>No error of its own\<close>

definition succeeds :: "plugin \<Rightarrow> bool" where
  "succeeds p \<longleftrightarrow> (\<forall>i. \<exists>r. p i = Inr r)"

lemma run_builtin_succeeds:
  assumes "\<exists>r. p \<lparr>in_directives = Some (directives_of l), in_options = fl_options l, in_config = [],
    in_directive = None, in_source = []\<rparr> = Inr r"
  shows "snd (run_builtin None p l) = None"
  using assms by (auto simp: run_builtin_def)

lemma run_plugins_append:
  "run_plugins None reg src xs l = (l1, None) \<Longrightarrow>
     run_plugins None reg src (xs @ ys) l = run_plugins None reg src ys l1"
  by (induction xs arbitrary: l) (auto split: option.splits sum.splits go_error.splits)

lemma run_plugins_succeeds: "\<forall>p\<in>ran reg. succeeds p \<Longrightarrow> snd (run_plugins None reg src pds l) = None"
proof (induction pds arbitrary: l)
  case (Cons pd pds)
  show ?case
  proof (cases "reg (plg_name pd)")
    case None
    with Cons show ?thesis by simp
  next
    case (Some p)
    then have "succeeds p" using Cons.prems by (auto simp: ran_def)
    then obtain r where "p \<lparr>in_directives = Some (directives_of l), in_options = fl_options l, in_config = plg_config pd,
        in_directive = Some pd, in_source = src\<rparr> = Inr r"
      by (auto simp: succeeds_def)
    with Some Cons show ?thesis by simp
  qed
qed simp

lemma booking_succeeds:
  assumes "opts_typed A (in_options i)"
  shows "\<exists>r. booking_plugin A i = Inr r"
proof (cases "in_directives i")
  case (Some ds)
  obtain r where "walk A (in_options i) (None :: unit visitor option) () ds = Inr r"
    using walk_loop_returns [OF assms] unfolding walk_def by metis
  with Some show ?thesis by (simp add: booking_plugin_def)
qed (simp add: booking_plugin_def)

lemma pad_succeeds: "\<exists>r. pad_plugin A i = Inr r"
  by (cases "pad_apply A (in_directives i)") (simp add: pad_plugin_def)

lemma balance_succeeds:
  assumes "apd_total A" and "opts_typed A (in_options i)"
  shows "\<exists>r. balance_plugin A i = Inr r"
proof (cases "in_directives i")
  case (Some ds)
  with apd_total.balance_loop_val [OF assms, of "[]" Map.empty ds] show ?thesis
    by (auto simp: balance_plugin_def balance_apply_def)
qed (simp add: balance_plugin_def balance_apply_def)

lemma validations_succeed:
  assumes "apd_total A" and "opts_typed A (in_options i)"
  shows "\<exists>r. validations_plugin A i = Inr r"
  using apd_total.validations_return [OF assms, of "in_directives i"] by (auto simp: validations_plugin_def)

lemma in_sequence_succeeds:
  "\<forall>f\<in>set fs. \<forall>l. fl_options l = opts \<longrightarrow> snd (f l) = None \<and> fl_options (fst (f l)) = opts \<Longrightarrow>
     fl_options l = opts \<Longrightarrow> snd (in_sequence fs l) = None"
proof (induction fs arbitrary: l)
  case (Cons f fs)
  then have "snd (f l) = None" "fl_options (fst (f l)) = opts" by simp_all
  then obtain l' where "f l = (l', None)" "fl_options l' = opts" by (cases "f l") auto
  with Cons show ?case by simp
qed simp

lemma builtin_step:
  assumes "\<And>i. in_options i = opts \<Longrightarrow> \<exists>r. p i = Inr r" and "fl_options l = opts"
  shows "snd (run_builtin None p l) = None \<and> fl_options (fst (run_builtin None p l)) = opts"
  using run_builtin_succeeds [of p l] assms run_builtin_grows [of l None p] by (auto simp: grows_def)

lemma mode_registered:
  "default_registry A ''plugin_processing_mode'' = Some (string_spec ''plugin_processing_mode'' '''')"
  by (rule default_registry_mem; simp add: default_specs_def)

lemma run_pipeline_succeeds:
  assumes A: "apd_total A" and opts: "opts_typed A (fl_options l)"
    and p: "succeeds document" "\<forall>p\<in>ran reg. succeeds p"
  shows "snd (run_pipeline A None document reg l) = None"
proof -
  have post: "snd (postproc_apply None reg l') = None \<and> fl_options (fst (postproc_apply None reg l')) = fl_options l'"
    for l'
    using run_plugins_succeeds [OF p(2)] run_plugins_grows [of l' None reg "source_filename l'"]
    by (auto simp: postproc_apply_def grows_def)
  have "snd (apply_default A None document reg l) = None"
    unfolding apply_default_def
  proof (rule in_sequence_succeeds [where opts = "fl_options l"])
    show "\<forall>f\<in>set ([run_builtin None document, run_builtin None (booking_plugin A), postproc_apply None reg] @
        map (run_builtin None) [pad_plugin A, balance_plugin A, validations_plugin A]).
      \<forall>l'. fl_options l' = fl_options l \<longrightarrow> snd (f l') = None \<and> fl_options (fst (f l')) = fl_options l"
      using post builtin_step [of "fl_options l" document] p(1)
        builtin_step [of "fl_options l" "booking_plugin A"] booking_succeeds
        builtin_step [of "fl_options l" "pad_plugin A"] pad_succeeds
        builtin_step [of "fl_options l" "balance_plugin A"] balance_succeeds [OF A]
        builtin_step [of "fl_options l" "validations_plugin A"] validations_succeed [OF A] opts
      by (simp add: succeeds_def)
  qed simp
  moreover obtain mode where "opt_string A (fl_options l) ''plugin_processing_mode'' = Inr mode"
    using opt_string_total [OF opts mode_registered] by (auto simp: string_spec_def mk_spec_def)
  ultimately show ?thesis using post by (simp add: run_pipeline_def)
qed

section \<open>The order of the ledger\<close>

text \<open>The part of the order that the calendar and the kinds of directives decide.\<close>

definition in_order :: "directive \<Rightarrow> directive \<Rightarrow> bool" where
  "in_order a b \<longleftrightarrow> dir_date a < dir_date b \<or>
     dir_date a = dir_date b \<and> kind_rank (dir_kind a) \<le> kind_rank (dir_kind b)"

lemma ledger_in_order:
  assumes "ledger_ok g"
  shows "sorted_wrt in_order (ledger_dirs g)"
proof -
  have "in_order (le_dir x) (le_dir y)"
    if e: "x \<in> set (lg_entries g)" "y \<in> set (lg_entries g)" "key_less x y" for x y
  proof -
    obtain j k where "le_key x = make_sort_key (le_dir x) j" "le_key y = make_sort_key (le_dir y) k"
      using assms e(1,2) unfolding ledger_ok_def keyed_below_def by blast
    with e(3) show ?thesis
      by (auto simp: compare_sort_key_def make_sort_key_def Let_def in_order_def time_compare_cmp
          cmp_compare_def split: if_splits)
  qed
  then have "sorted_wrt (\<lambda>x y. in_order (le_dir x) (le_dir y)) (lg_entries g)"
    using assms unfolding ledger_ok_def by (metis (mono_tags, lifting) sorted_wrt_mono_rel)
  then show ?thesis by (simp add: ledger_dirs_def sorted_wrt_map)
qed

lemma directives_of_eq: "directives_of l = ledger_dirs (fl_ledger l)"
  by (simp add: directives_of_def ledger_all_def ledger_dirs_def)

text \<open>The units before an assertion are those of the transactions of earlier days.\<close>

lemma ledger_units_sum: "ledger_units P ds = sum_list (map (\<lambda>d. ledger_units P [d]) ds)"
  by (induction P ds rule: ledger_units.induct) simp_all

lemma ledger_units_mset:
  assumes "mset xs = mset ys"
  shows "ledger_units P xs = ledger_units P ys"
proof -
  have "ledger_units P zs = sum_mset (image_mset (\<lambda>d. ledger_units P [d]) (mset zs))" for zs
    by (subst ledger_units_sum) (simp flip: sum_mset_sum_list)
  with assms show ?thesis by metis
qed

lemma ledger_units_filter:
  "(\<And>t. DTransaction t \<in> set xs \<Longrightarrow> Q (DTransaction t)) \<Longrightarrow> ledger_units P (filter Q xs) = ledger_units P xs"
proof (induction xs)
  case (Cons d xs)
  then have "ledger_units P (filter Q xs) = ledger_units P xs" by simp
  with Cons.prems show ?case by (cases d) auto
qed simp

lemma ledger_units_none:
  "(\<And>t. DTransaction t \<in> set xs \<Longrightarrow> \<not> Q (DTransaction t)) \<Longrightarrow> ledger_units P (filter Q xs) = 0"
proof (induction xs)
  case (Cons d xs)
  then have "ledger_units P (filter Q xs) = 0" by simp
  with Cons.prems show ?case by (cases d) auto
qed simp

definition earlier :: "time \<Rightarrow> directive \<Rightarrow> bool" where
  "earlier day d \<longleftrightarrow> dir_date d < day"

lemma split_at_balance:
  assumes "sorted_wrt in_order (xs @ DBalance b # ys)"
  shows "DTransaction t \<in> set xs \<Longrightarrow> earlier (bal_date b) (DTransaction t)"
    and "DPad p \<in> set xs \<Longrightarrow> pad_date p < bal_date b"
    and "DTransaction t \<in> set ys \<Longrightarrow> \<not> earlier (bal_date b) (DTransaction t)"
    and "DPad p \<in> set ys \<Longrightarrow> \<not> pad_date p < bal_date b"
  using assms by (force simp: sorted_wrt_append in_order_def earlier_def)+

lemma units_before_balance:
  assumes "sorted_wrt in_order ds" and "ds = xs @ DBalance b # ys"
  shows "ledger_units P xs = ledger_units P (filter (earlier (bal_date b)) ds)"
proof -
  note s = split_at_balance [OF assms(1) [unfolded assms(2)]]
  have "ledger_units P (filter (earlier (bal_date b)) xs) = ledger_units P xs"
    by (rule ledger_units_filter) (rule s(1))
  moreover have "ledger_units P (filter (earlier (bal_date b)) ys) = 0"
    by (rule ledger_units_none) (rule s(3))
  ultimately show ?thesis by (simp add: assms(2) ledger_units_append earlier_def)
qed

text \<open>In the directives of the pad plugin the transactions of earlier days are those before the
  assertion, too, though a transaction is inserted next to its pad.\<close>

lemma padded_before_balance:
  assumes A: "apd_total A" and sorted: "sorted_wrt in_order ds" and ds: "ds = front @ DBalance b # post"
  shows "ledger_units P (filter (earlier (bal_date b)) (padded A ds)) =
    ledger_units P (insert_synth (synth_of A ds) 0 front)"
proof -
  let ?s = "synth_of A ds" and ?n = "length front" and ?Q = "earlier (bal_date b)"
  note s = split_at_balance [OF sorted [unfolded ds]]
  have made: "\<exists>p. DPad p = ds ! i \<and> i < length ds \<and> txn_date t = pad_date p" if "(i, t) \<in> set ?s" for i t
    using synth_of_ok [OF A that] by (auto simp: synth_ok_def pad_at_def closes_gap_def synth_txn_def Let_def)
  have before: "ledger_units P (filter ?Q (insert_synth ?s 0 front)) = ledger_units P (insert_synth ?s 0 front)"
  proof (rule ledger_units_filter)
    fix t assume "DTransaction t \<in> set (insert_synth ?s 0 front)"
    then consider "DTransaction t \<in> set front" | j where "j < ?n" "(j, t) \<in> set ?s"
      using insert_synth_transactions by fastforce
    then show "?Q (DTransaction t)"
    proof cases
      case 2
      with made obtain p where "DPad p = front ! j" "txn_date t = pad_date p" by (fastforce simp: ds nth_append)
      with 2 s(2) [of p] show ?thesis by (simp add: earlier_def)
    qed (rule s(1))
  qed
  have none: "synth_at ?s ?n = []"
  proof -
    have "fst x \<noteq> ?n" if "x \<in> set ?s" for x
      using made [of "fst x" "snd x"] that by (auto simp: ds nth_append)
    then show ?thesis by (auto simp: synth_at_def filter_empty_conv)
  qed
  have after: "ledger_units P (filter ?Q (insert_synth ?s (Suc ?n) post)) = 0"
  proof (rule ledger_units_none)
    fix t assume "DTransaction t \<in> set (insert_synth ?s (Suc ?n) post)"
    then consider "DTransaction t \<in> set post" | j where "j < length post" "(Suc ?n + j, t) \<in> set ?s"
      using insert_synth_transactions by fastforce
    then show "\<not> ?Q (DTransaction t)"
    proof cases
      case 2
      with made obtain p where "DPad p = post ! j" "txn_date t = pad_date p" by (fastforce simp: ds nth_append)
      with 2 s(4) [of p] show ?thesis by (simp add: earlier_def)
    qed (rule s(3))
  qed
  have "padded A ds = insert_synth ?s 0 front @ DBalance b # insert_synth ?s (Suc ?n) post"
    using none by (simp add: padded_eq ds insert_synth_append)
  then show ?thesis
    using before after by (simp add: ledger_units_append earlier_def)
qed

text \<open>After the runner has put the directives of the pad plugin back in order.\<close>

lemma pad_builtin_ledger:
  "mset (directives_of (fst (run_builtin None (pad_plugin A) l))) = mset (padded A (directives_of l))"
  by (auto simp: run_builtin_def pad_plugin_def commit_def padded_def directives_of_eq Let_def
      ledger_replace_all_def insert_all_dirs ledger_dirs_def [of "_\<lparr>lg_entries := []\<rparr>"]
      split: prod.splits option.splits)

lemma padded_in_ledger:
  assumes A: "apd_total A" and ok: "ledger_ok (fl_ledger l)" and sv: "serves p b pre mid"
    and l: "directives_of l = pre @ DPad p # mid @ DBalance b # post"
    and l': "directives_of (fst (run_builtin None (pad_plugin A) l)) = xs @ DBalance b # ys"
  shows "ledger_units (asserted_key b) xs = expected_units b"
proof -
  let ?l' = "fst (run_builtin None (pad_plugin A) l)" and ?front = "pre @ DPad p # mid"
  have sorted: "sorted_wrt in_order (directives_of l)" using ledger_in_order [OF ok] by (simp add: directives_of_eq)
  have "ledger_ok (fl_ledger ?l')"
    using run_builtin_grows [of l None "pad_plugin A"] ok by (auto simp: grows_def)
  then have "sorted_wrt in_order (directives_of ?l')" using ledger_in_order by (simp add: directives_of_eq)
  from units_before_balance [OF this l']
  have "ledger_units (asserted_key b) xs =
      ledger_units (asserted_key b) (filter (earlier (bal_date b)) (directives_of ?l'))" .
  also have "\<dots> = ledger_units (asserted_key b) (filter (earlier (bal_date b)) (padded A (directives_of l)))"
    by (rule ledger_units_mset) (simp add: pad_builtin_ledger)
  also have "\<dots> = ledger_units (asserted_key b) (insert_synth (synth_of A (directives_of l)) 0 ?front)"
    using l by (intro padded_before_balance [OF A sorted]) simp
  also have "\<dots> = expected_units b" using serves_units [OF A sv, of post] by (simp add: l)
  finally show ?thesis .
qed

end
