(* ===== verification/Pipeline_Contract.thy ===== *)
theory Pipeline_Contract
  imports Pipeline
begin

text \<open>
  What the pipeline promises, as properties of \<open>runPipeline\<close>, \<open>postproc.Apply\<close> and \<open>runBuiltin\<close>, and a
  run in which one auto posting costs the user the whole ledger.
\<close>

section \<open>Any plugins\<close>

text \<open>C16 Whatever the document plugin and the registered plugins return, and whether or not the pipeline
  halts, the ledger it leaves is in canonical order, no finding made before is lost or moved, and the
  options and the files are those that were loaded.\<close>

theorem pipeline_keeps_ledger:
  assumes "run_pipeline A ctx document reg l = (l', e)" and "ledger_ok (fl_ledger l)"
  shows "ledger_ok (fl_ledger l') \<and> fl_options l' = fl_options l \<and> fl_files l' = fl_files l \<and>
    (\<exists>more. fl_diags l' = fl_diags l @ more)"
  using run_pipeline_grows [of l A ctx document reg] assms by (auto simp: grows_def)

definition ex_loaded :: "directive list \<Rightarrow> full_ledger" where
  "ex_loaded ds = \<lparr>fl_files = [Some ''main''], fl_diags = [], fl_options = ex_options,
     fl_ledger = ledger_insert_all \<lparr>lg_entries = [], lg_next_seq = 0\<rparr> ds\<rparr>"

lemma ex_loaded_ok: "ledger_ok (fl_ledger (ex_loaded ds))"
  unfolding ex_loaded_def full_ledger.simps by (rule insert_all_ok) (simp add: ledger_ok_def)

definition ex_no_documents :: plugin where
  "ex_no_documents i = Inr \<lparr>res_directives = None, res_diags = []\<rparr>"

theorem pipeline_keeps_ledger_witness:
  "\<exists>l' e. run_pipeline gda None ex_no_documents Map.empty (ex_loaded ex_checked) = (l', e) \<and> ledger_ok (fl_ledger l')"
proof -
  obtain l' e where "run_pipeline gda None ex_no_documents Map.empty (ex_loaded ex_checked) = (l', e)"
    by (cases "run_pipeline gda None ex_no_documents Map.empty (ex_loaded ex_checked)")
  with pipeline_keeps_ledger [OF this ex_loaded_ok] show ?thesis by blast
qed

text \<open>C15 The pipeline has no error of its own: with options parsed from any directives, basic arithmetic
  that succeeds, and plugins that return results, loading never ends in an error, whatever the ledger.\<close>

theorem pipeline_never_fails:
  assumes "apd_total A" and "fl_options l = Some (fst (parse_options A ds))"
    and "succeeds document" and "\<forall>p\<in>ran reg. succeeds p"
  shows "snd (run_pipeline A None document reg l) = None"
  using run_pipeline_succeeds [OF assms(1) _ assms(3,4), of l] assms(2) parse_options_typed by metis

theorem pipeline_never_fails_witness:
  "snd (run_pipeline gda None ex_no_documents Map.empty (ex_loaded ex_checked)) = None"
  by (rule pipeline_never_fails [OF gda.apd_total_axioms, of _ None])
    (auto simp: ex_loaded_def ex_options_def succeeds_def ex_no_documents_def)

text \<open>A plugin that fails halts the runner: the ledger is as the plugins before it left it, the error
  names the plugin, and the plugins after it do not run. A plugin that is not registered does not: it is
  reported at its directive, and the next one runs.\<close>

theorem failing_plugin_halts:
  assumes "run_plugins None reg src before l = (l1, None)"
  shows "(\<forall>p e. reg (plg_name pd) = Some p \<longrightarrow>
      p \<lparr>in_directives = Some (directives_of l1), in_options = fl_options l1, in_config = plg_config pd,
         in_directive = Some pd, in_source = src\<rparr> = Inl (SysErr e) \<longrightarrow>
      run_plugins None reg src (before @ pd # after) l =
        (l1, Some (SysErr (''plugin '' @ go_quote (plg_name pd) @ '': '' @ e)))) \<and>
    (reg (plg_name pd) = None \<longrightarrow>
      run_plugins None reg src (before @ pd # after) l =
        run_plugins None reg src after (l1\<lparr>fl_diags := fl_diags l1 @ [unregistered pd]\<rparr>))"
  using run_plugins_append [OF assms, of "pd # after"] by simp

definition ex_plugin :: "string \<Rightarrow> plugin_dir" where
  "ex_plugin n = \<lparr>plg_span = zero_span, plg_name = n, plg_config = []\<rparr>"

definition ex_registry :: "string \<rightharpoonup> plugin" where
  "ex_registry = Map.empty(''broken'' \<mapsto> \<lambda>i. Inl (SysErr ''no''))"

theorem failing_plugin_halts_witness:
  "run_plugins None ex_registry [] [ex_plugin ''other'', ex_plugin ''broken'', ex_plugin ''other''] (ex_loaded []) =
     ((ex_loaded [])\<lparr>fl_diags := [unregistered (ex_plugin ''other'')]\<rparr>,
      Some (SysErr (''plugin '' @ go_quote ''broken'' @ '': no'')))"
proof -
  have "run_plugins None ex_registry [] [ex_plugin ''other''] (ex_loaded []) =
      ((ex_loaded [])\<lparr>fl_diags := [unregistered (ex_plugin ''other'')]\<rparr>, None)"
    by (simp add: ex_registry_def ex_plugin_def ex_loaded_def)
  from failing_plugin_halts [OF this, of "ex_plugin ''broken''" "[ex_plugin ''other'']"] show ?thesis
    by (simp add: ex_registry_def ex_plugin_def)
qed

section \<open>Pads\<close>

text \<open>C14 A pad does what it is for, in the ledger: a ledger in canonical order has a pad of an account and
  later an assertion of it; in between, the account is not padded again and the currency not asserted; no
  posting up to there puts units of the currency into the account at cost, no pad up to there takes from
  the account, and nothing names an account below it. Then, after the pad plugin has run and the runner
  has sorted the ledger anew, the assertion is there, and wherever it is, the transactions before it post
  exactly the units it names to the account and the accounts below.\<close>

theorem padded_assertion_in_ledger:
  assumes "apd_total A" and "ledger_ok (fl_ledger l)" and "serves p b pre mid"
    and "directives_of l = pre @ DPad p # mid @ DBalance b # post"
    and "run_builtin None (pad_plugin A) l = (l', e)"
  shows "e = None \<and> DBalance b \<in> set (directives_of l') \<and>
    (\<forall>xs ys. directives_of l' = xs @ DBalance b # ys \<longrightarrow> ledger_units (asserted_key b) xs = expected_units b)"
proof (intro conjI allI impI)
  show "e = None"
    using run_builtin_succeeds [of "pad_plugin A" l] pad_succeeds assms(5) by simp
  have "set (directives_of l') = set (padded A (directives_of l))"
    using pad_builtin_ledger [of A l] assms(5) by (metis fst_conv mset_eq_setD)
  then show "DBalance b \<in> set (directives_of l')"
    using assms(4) by (simp add: padded_eq insert_synth_append)
  fix xs ys assume "directives_of l' = xs @ DBalance b # ys"
  then show "ledger_units (asserted_key b) xs = expected_units b"
    using padded_in_ledger [OF assms(1-4)] assms(5) by simp
qed

definition ex_padded :: "directive list" where
  "ex_padded = [ex_move ''A'' ''C'' 5, ex_pad ''A'' ''E'' 2, DBalance (ex_balance ''A'' 3 7)]"

definition ex_sorted :: "directive list \<Rightarrow> full_ledger" where
  "ex_sorted ds = \<lparr>fl_files = [Some ''main''], fl_diags = [], fl_options = ex_options,
     fl_ledger = \<lparr>lg_entries = keyed 0 ds, lg_next_seq = length ds\<rparr>\<rparr>"

lemma ex_sorted_dirs: "directives_of (ex_sorted ds) = ds"
  by (simp add: ex_sorted_def directives_of_eq ledger_dirs_def keyed_dirs)

lemma ex_padded_ok: "ledger_ok (fl_ledger (ex_sorted ex_padded))"
  by (auto simp: ledger_ok_def ex_sorted_def ex_padded_def keyed_below_def compare_sort_key_def make_sort_key_def
      Let_def time_compare_cmp cmp_compare_def ex_move_def ex_pad_def ex_balance_def ex_txn_def)

theorem padded_assertion_in_ledger_witness:
  "\<exists>l' e xs ys. run_builtin None (pad_plugin gda) (ex_sorted ex_padded) = (l', e) \<and>
     directives_of l' = xs @ DBalance (ex_balance ''A'' 3 7) # ys \<and>
     ledger_units (asserted_key (ex_balance ''A'' 3 7)) xs = 7"
proof -
  obtain l' e where r: "run_builtin None (pad_plugin gda) (ex_sorted ex_padded) = (l', e)"
    by (cases "run_builtin None (pad_plugin gda) (ex_sorted ex_padded)")
  define p where "p = \<lparr>pad_span = zero_span, pad_date = 2, pad_account = ''A'', pad_source = ''E'', pad_meta = Map.empty\<rparr>"
  have sv: "serves p (ex_balance ''A'' 3 7) [ex_move ''A'' ''C'' 5] []"
    by (auto simp: serves_def p_def ex_balance_def undisturbed_def cash_only_def no_source_def childless_def ex_move_def
        ex_txn_def ex_posting_def covers_iff)
  have ds: "directives_of (ex_sorted ex_padded) =
      [ex_move ''A'' ''C'' 5] @ DPad p # [] @ DBalance (ex_balance ''A'' 3 7) # []"
    by (simp add: ex_sorted_dirs ex_padded_def ex_pad_def p_def)
  note c = padded_assertion_in_ledger [OF gda.apd_total_axioms ex_padded_ok sv ds r]
  then obtain xs ys where "directives_of l' = xs @ DBalance (ex_balance ''A'' 3 7) # ys"
    by (meson split_list)
  with c r show ?thesis by (fastforce simp: expected_units_def ex_balance_def)
qed

section \<open>One posting, the whole ledger\<close>

definition emptied :: "full_ledger \<Rightarrow> full_ledger \<Rightarrow> bool" where
  "emptied l l' \<longleftrightarrow> directives_of l' = [] \<and>
     (\<exists>x. diag_code x = ''internal-error'' \<and> fl_diags l' = fl_diags l @ [x])"

lemma commit_nothing: "commit l \<lparr>res_directives = None, res_diags = []\<rparr> = l"
  by (simp add: commit_def)

lemma empty_builtin:
  assumes "directives_of l = []"
  shows "run_builtin None (pad_plugin A) l = (l, None)" and "run_builtin None (balance_plugin A) l = (l, None)"
    and "run_builtin None (validations_plugin A) l = (l, None)"
  using assms
  by (auto simp: run_builtin_def pad_plugin_def pad_apply_def empty_pad_state_def unresolved_pads_def sort_strings_def
      balance_plugin_def balance_apply_def validations_plugin_def validations_apply_def build_def empty_build_def
      open_close_finish_def commit_nothing)

lemma empty_postproc: "directives_of l = [] \<Longrightarrow> postproc_apply None reg l = (l, None)"
  by (simp add: postproc_apply_def collect_plugins_def directives_of_def)

text \<open>C17 A booking error costs the user the ledger. If the booking of a ledger halts with an error, which
  the code reserves for its own bugs, the pipeline succeeds and leaves no directive at all; of the
  findings of the booking and of all later checks there is one internal error. The run shows that such a
  ledger can be written: under FIFO booking, an auto posting whose residual takes from two lots.\<close>

theorem halted_booking_empties_ledger:
  assumes "opt_string A (fl_options l) ''plugin_processing_mode'' = Inr mode" and "mode \<noteq> ''raw''"
    and "run_builtin None document l = (l, None)"
    and "walk A (fl_options l) None () (directives_of l) = Inr r" and "wr_error r \<noteq> None"
  shows "\<exists>l'. run_pipeline A None document reg l = (l', None) \<and> emptied l l'"
proof -
  from assms(5) obtain e where e: "wr_error r = Some e" by blast
  define x where "x = mk_diag ''internal-error'' zero_span
    (''booking pass halted: '' @ (case e of SysErr m \<Rightarrow> m | Panic m \<Rightarrow> m))"
  have x: "diag_code x = ''internal-error''" by (simp add: x_def)
  have "booking_plugin A \<lparr>in_directives = Some (directives_of l), in_options = fl_options l, in_config = [],
       in_directive = None, in_source = []\<rparr> = Inr \<lparr>res_directives = Some [], res_diags = [x]\<rparr>"
    using assms(4) e by (simp add: booking_plugin_def assemble_result_def x_def)
  then have b: "run_builtin None (booking_plugin A) l =
      (l\<lparr>fl_diags := fl_diags l @ [x], fl_ledger := ledger_replace_all (fl_ledger l) []\<rparr>, None)"
    by (simp add: run_builtin_def commit_def)
  define l' where "l' = l\<lparr>fl_diags := fl_diags l @ [x], fl_ledger := ledger_replace_all (fl_ledger l) []\<rparr>"
  have none: "directives_of l' = []"
    by (simp add: l'_def directives_of_eq ledger_replace_all_def ledger_insert_all_def ledger_dirs_def)
  have "run_pipeline A None document reg l = (l', None)"
    using assms(1,2,3) b
    by (simp add: run_pipeline_def apply_default_def l'_def [symmetric] empty_postproc [OF none] empty_builtin [OF none])
  moreover have "emptied l l'"
    unfolding emptied_def using x none by (intro conjI exI [of _ x]) (simp_all add: l'_def)
  ultimately show ?thesis by blast
qed

definition ex_lots_ledger :: full_ledger where
  "ex_lots_ledger = ex_sorted [ex_open_fifo, DTransaction ex_two_lots, DTransaction ex_lot_sale]"

theorem halted_booking_empties_ledger_witness:
  "length (directives_of ex_lots_ledger) = 3 \<and>
   (\<exists>l'. run_pipeline gda None ex_no_documents Map.empty ex_lots_ledger = (l', None) \<and> emptied ex_lots_ledger l')"
proof
  show "length (directives_of ex_lots_ledger) = 3" by (simp add: ex_lots_ledger_def ex_sorted_dirs)
  have "opt_string gda ex_options ''plugin_processing_mode'' = Inr ''''" by code_simp
  then have m: "opt_string gda (fl_options ex_lots_ledger) ''plugin_processing_mode'' = Inr ''''"
    by (simp add: ex_lots_ledger_def ex_sorted_def)
  have d: "run_builtin None ex_no_documents ex_lots_ledger = (ex_lots_ledger, None)"
    by (simp add: run_builtin_def ex_no_documents_def commit_nothing)
  have "(case walk gda ex_options None () [ex_open_fifo, DTransaction ex_two_lots, DTransaction ex_lot_sale] of
      Inr r \<Rightarrow> wr_error r \<noteq> None | Inl _ \<Rightarrow> False)"
    by code_simp
  then obtain r where w: "walk gda (fl_options ex_lots_ledger) None () (directives_of ex_lots_ledger) = Inr r"
    "wr_error r \<noteq> None"
    by (simp add: ex_lots_ledger_def ex_sorted_dirs) (simp add: ex_sorted_def split: sum.splits)
  from halted_booking_empties_ledger [OF m _ d w] show
    "\<exists>l'. run_pipeline gda None ex_no_documents Map.empty ex_lots_ledger = (l', None) \<and> emptied ex_lots_ledger l'"
    by simp
qed

end
