(* ===== verification/Scanner.thy ===== *)
theory Scanner
  imports Prelude
begin

text \<open>
  The scanner of \<open>pkg/syntax/scanner.go\<close> with the tokens and trivia of \<open>token.go\<close>, \<open>token_kind.go\<close> and
  \<open>trivia.go\<close>. A source text is a list of bytes; the scanner keeps it whole with the offset of
  the next byte, and texts of tokens are slices of it. The tables of package \<open>unicode\<close> are a
  parameter: a function from code points to the two letters of their general category.
\<close>

named_theorems scan_simps \<open>what a scanning operation leaves alone\<close>

section \<open>Tokens\<close>

datatype token_kind = ILLEGAL | DATE | NUMBER | STRING | ACCOUNT | CURRENCY | TAG | LINK | IDENT
  | PLUS | MINUS | STAR | SLASH | LPAREN | RPAREN | LBRACE | RBRACE | LBRACE2 | RBRACE2
  | AT | ATAT | TILDE | COMMA | COLON | BANG | HASH | CARET | EOF

fun token_kind_name :: "token_kind \<Rightarrow> string" where
  "token_kind_name ILLEGAL = ''ILLEGAL''"
| "token_kind_name DATE = ''DATE''"
| "token_kind_name NUMBER = ''NUMBER''"
| "token_kind_name STRING = ''STRING''"
| "token_kind_name ACCOUNT = ''ACCOUNT''"
| "token_kind_name CURRENCY = ''CURRENCY''"
| "token_kind_name TAG = ''TAG''"
| "token_kind_name LINK = ''LINK''"
| "token_kind_name IDENT = ''IDENT''"
| "token_kind_name PLUS = ''PLUS''"
| "token_kind_name MINUS = ''MINUS''"
| "token_kind_name STAR = ''STAR''"
| "token_kind_name SLASH = ''SLASH''"
| "token_kind_name LPAREN = ''LPAREN''"
| "token_kind_name RPAREN = ''RPAREN''"
| "token_kind_name LBRACE = ''LBRACE''"
| "token_kind_name RBRACE = ''RBRACE''"
| "token_kind_name LBRACE2 = ''LBRACE2''"
| "token_kind_name RBRACE2 = ''RBRACE2''"
| "token_kind_name AT = ''AT''"
| "token_kind_name ATAT = ''ATAT''"
| "token_kind_name TILDE = ''TILDE''"
| "token_kind_name COMMA = ''COMMA''"
| "token_kind_name COLON = ''COLON''"
| "token_kind_name BANG = ''BANG''"
| "token_kind_name HASH = ''HASH''"
| "token_kind_name CARET = ''CARET''"
| "token_kind_name EOF = ''EOF''"

datatype trivia_kind = WhitespaceTrivia | CommentTrivia | NewlineTrivia | HeadingTrivia

record trivia =
  trv_kind :: trivia_kind
  trv_raw :: string

record token =
  tok_kind :: token_kind
  tok_pos :: nat
  tok_raw :: string
  tok_leading :: "trivia list"
  tok_trailing :: "trivia list"

definition mk_token :: "token_kind \<Rightarrow> nat \<Rightarrow> string \<Rightarrow> token" where
  "mk_token k pos raw = \<lparr>tok_kind = k, tok_pos = pos, tok_raw = raw, tok_leading = [], tok_trailing = []\<rparr>"

definition trivia_text :: "trivia list \<Rightarrow> string" where
  "trivia_text ts = concat (map trv_raw ts)"

definition token_end :: "token \<Rightarrow> nat" where
  "token_end t = tok_pos t + length (tok_raw t)"

definition full_pos :: "token \<Rightarrow> int" where
  "full_pos t =
     (if tok_leading t = [] then int (tok_pos t)
      else int (tok_pos t) - foldl (\<lambda>n tr. n + int (length (trv_raw tr))) 0 (tok_leading t))"

definition full_end :: "token \<Rightarrow> nat" where
  "full_end t = foldl (\<lambda>n tr. n + length (trv_raw tr)) (tok_pos t + length (tok_raw t)) (tok_trailing t)"

section \<open>UTF-8\<close>

text \<open>\<open>utf8.DecodeRuneInString\<close>: the code point and its width; \<open>RuneError\<close> with width 1 for bytes
  that are no encoding, with width 0 at the end of the text.\<close>

definition byte_of :: "char \<Rightarrow> nat" where
  "byte_of c = of_char c"

definition is_cont :: "nat \<Rightarrow> bool" where
  "is_cont b \<longleftrightarrow> 0x80 \<le> b \<and> b \<le> 0xBF"

definition rune_error :: nat where
  "rune_error = 0xFFFD"

fun decode_rune :: "string \<Rightarrow> nat \<times> nat" where
  "decode_rune [] = (rune_error, 0)"
| "decode_rune (c # cs) =
     (let b0 = byte_of c; bs = map byte_of (take 3 cs) in
      if b0 < 0x80 then (b0, 1)
      else if 0xC2 \<le> b0 \<and> b0 \<le> 0xDF \<and> 1 \<le> length bs \<and> is_cont (bs ! 0)
        then ((b0 - 0xC0) * 64 + (bs ! 0 - 0x80), 2)
      else if 0xE0 \<le> b0 \<and> b0 \<le> 0xEF \<and> 2 \<le> length bs \<and>
          (if b0 = 0xE0 then 0xA0 else 0x80) \<le> bs ! 0 \<and> bs ! 0 \<le> (if b0 = 0xED then 0x9F else 0xBF) \<and>
          is_cont (bs ! 1)
        then ((b0 - 0xE0) * 4096 + (bs ! 0 - 0x80) * 64 + (bs ! 1 - 0x80), 3)
      else if 0xF0 \<le> b0 \<and> b0 \<le> 0xF4 \<and> 3 \<le> length bs \<and>
          (if b0 = 0xF0 then 0x90 else 0x80) \<le> bs ! 0 \<and> bs ! 0 \<le> (if b0 = 0xF4 then 0x8F else 0xBF) \<and>
          is_cont (bs ! 1) \<and> is_cont (bs ! 2)
        then ((b0 - 0xF0) * 262144 + (bs ! 0 - 0x80) * 4096 + (bs ! 1 - 0x80) * 64 + (bs ! 2 - 0x80), 4)
      else (rune_error, 1))"

lemma decode_rune_width: "cs \<noteq> [] \<Longrightarrow> decode_rune cs = (r, n) \<Longrightarrow> 0 < n \<and> n \<le> length cs"
  by (cases cs) (auto simp: Let_def min_def split: if_splits)

declare decode_rune.simps(2) [simp del]

lemma decode_rune_drop:
  assumes "(r, w) = decode_rune (drop i src)" and "i < length src"
  shows "0 < w \<and> i + w \<le> length src"
  using decode_rune_width [of "drop i src" r w] assms by auto

section \<open>Classes of bytes and runes\<close>

definition is_digit :: "char \<Rightarrow> bool" where
  "is_digit ch \<longleftrightarrow> CHR ''0'' \<le> ch \<and> ch \<le> CHR ''9''"

definition is_upper_az :: "char \<Rightarrow> bool" where
  "is_upper_az ch \<longleftrightarrow> CHR ''A'' \<le> ch \<and> ch \<le> CHR ''Z''"

definition is_lower_az :: "char \<Rightarrow> bool" where
  "is_lower_az ch \<longleftrightarrow> CHR ''a'' \<le> ch \<and> ch \<le> CHR ''z''"

definition is_tag_link_char :: "char \<Rightarrow> bool" where
  "is_tag_link_char ch \<longleftrightarrow> is_upper_az ch \<or> is_lower_az ch \<or> is_digit ch \<or> ch = CHR ''_'' \<or> ch = CHR ''-''"

definition is_upper_word_char :: "char \<Rightarrow> bool" where
  "is_upper_word_char ch \<longleftrightarrow> is_upper_az ch \<or> is_lower_az ch \<or> is_digit ch \<or> ch = CHR 0x27 \<or>
     ch = CHR ''.'' \<or> ch = CHR ''_'' \<or> ch = CHR ''-''"

definition is_ident_char :: "char \<Rightarrow> bool" where
  "is_ident_char ch \<longleftrightarrow> is_upper_az ch \<or> is_lower_az ch \<or> is_digit ch \<or> ch = CHR ''_'' \<or> ch = CHR ''-''"

definition is_account_root :: "string \<Rightarrow> bool" where
  "is_account_root word \<longleftrightarrow>
     word \<in> set [''Assets'', ''Liabilities'', ''Equity'', ''Income'', ''Expenses'']"

type_synonym unicode = "nat \<Rightarrow> string"

definition is_account_component_start :: "unicode \<Rightarrow> nat \<Rightarrow> bool" where
  "is_account_component_start U r =
     (if r < 0x80 then (65 \<le> r \<and> r \<le> 90) \<or> (48 \<le> r \<and> r \<le> 57)
      else U r \<in> set [''Lu'', ''Lt'', ''Lo'', ''Lm'', ''Nd'', ''Nl'', ''No''])"

definition is_other_id_continue :: "nat \<Rightarrow> bool" where
  "is_other_id_continue r =
     (if r \<in> set [0x00B7, 0x0387, 0x19DA, 0x30FB, 0xFF65] then True
      else if 0x1369 \<le> r \<and> r \<le> 0x1371 then True else False)"

definition is_account_component_cont :: "unicode \<Rightarrow> nat \<Rightarrow> bool" where
  "is_account_component_cont U r =
     (if r = 45 then True
      else if r < 0x80 then (65 \<le> r \<and> r \<le> 90) \<or> (97 \<le> r \<and> r \<le> 122) \<or> (48 \<le> r \<and> r \<le> 57)
      else if is_other_id_continue r then True
      else U r \<in> set [''Lu'', ''Lt'', ''Lo'', ''Lm'', ''Nd'', ''Nl'', ''No'', ''Ll'', ''Mn'', ''Mc''])"

definition is_currency :: "string \<Rightarrow> bool" where
  "is_currency word =
     (if word = [] then False
      else if \<not> (is_upper_az (hd word) \<or> is_digit (hd word)) then False
      else if \<not> (is_upper_az (last word) \<or> is_digit (last word)) then False
      else \<forall>ch \<in> set (butlast (tl word)).
        is_upper_az ch \<or> is_digit ch \<or> ch = CHR 0x27 \<or> ch = CHR ''.'' \<or> ch = CHR ''_'' \<or> ch = CHR ''-'')"

definition is_tag_link_name :: "string \<Rightarrow> bool" where
  "is_tag_link_name name = (if name = [] then False else \<forall>ch \<in> set name. is_tag_link_char ch)"

section \<open>The scanner\<close>

record scanner =
  sc_src :: string
  sc_offset :: nat

definition new_scanner :: "string \<Rightarrow> scanner" where
  "new_scanner src = \<lparr>sc_src = src, sc_offset = 0\<rparr>"

text \<open>A test of the byte at an offset behind a check of the length.\<close>

definition byte_is :: "scanner \<Rightarrow> nat \<Rightarrow> (char \<Rightarrow> bool) \<Rightarrow> bool" where
  "byte_is s i P \<longleftrightarrow> i < length (sc_src s) \<and> P (sc_src s ! i)"

text \<open>\<open>s.src[a:b]\<close>.\<close>

definition slice :: "string \<Rightarrow> nat \<Rightarrow> nat \<Rightarrow> string" where
  "slice src a b = drop a (take b src)"

definition skip :: "nat \<Rightarrow> scanner \<Rightarrow> scanner" where
  "skip n s = s\<lparr>sc_offset := sc_offset s + n\<rparr>"

function skip_while :: "(char \<Rightarrow> bool) \<Rightarrow> scanner \<Rightarrow> scanner" where
  "skip_while P s = (if byte_is s (sc_offset s) P then skip_while P (skip 1 s) else s)"
  by pat_completeness auto
termination
  by (relation "measure (\<lambda>(P, s). length (sc_src s) - sc_offset s)") (auto simp: byte_is_def skip_def)

declare skip_while.simps [simp del]

definition token_from :: "token_kind \<Rightarrow> scanner \<Rightarrow> scanner \<Rightarrow> token \<times> scanner" where
  "token_from k s s' = (mk_token k (sc_offset s) (slice (sc_src s) (sc_offset s) (sc_offset s')), s')"

definition trivia_from :: "trivia_kind \<Rightarrow> scanner \<Rightarrow> scanner \<Rightarrow> trivia \<times> scanner" where
  "trivia_from k s s' =
     (\<lparr>trv_kind = k, trv_raw = slice (sc_src s) (sc_offset s) (sc_offset s')\<rparr>, s')"

definition is_blank :: "char \<Rightarrow> bool" where
  "is_blank ch \<longleftrightarrow> ch = CHR '' '' \<or> ch = CHR 0x09"

definition is_eol :: "char \<Rightarrow> bool" where
  "is_eol ch \<longleftrightarrow> ch = CHR 0x0A \<or> ch = CHR 0x0D"

definition scan_whitespace :: "scanner \<Rightarrow> trivia \<times> scanner" where
  "scan_whitespace s = trivia_from WhitespaceTrivia s (skip_while is_blank s)"

definition scan_comment :: "scanner \<Rightarrow> trivia \<times> scanner" where
  "scan_comment s = trivia_from CommentTrivia s (skip_while (\<lambda>ch. \<not> is_eol ch) s)"

definition is_heading_start :: "scanner \<Rightarrow> bool" where
  "is_heading_start s =
     byte_is s (sc_offset s + 1) (\<lambda>ch. ch = CHR ''*'' \<or> ch = CHR '' '' \<or> ch = CHR 0x09 \<or> ch = CHR 0x0A \<or> ch = CHR 0x0D)"

definition scan_heading :: "scanner \<Rightarrow> trivia \<times> scanner" where
  "scan_heading s = trivia_from HeadingTrivia s (skip_while (\<lambda>ch. \<not> is_eol ch) s)"

section \<open>How far the loops go\<close>

text \<open>A scanning operation never edits the text, never goes back and stays inside the text.\<close>

definition moves :: "scanner \<Rightarrow> scanner \<Rightarrow> bool" where
  "moves s s' \<longleftrightarrow> sc_src s' = sc_src s \<and> sc_offset s \<le> sc_offset s' \<and>
     (sc_offset s \<le> length (sc_src s) \<longrightarrow> sc_offset s' \<le> length (sc_src s))"

lemma moves_refl [simp, intro]: "moves s s"
  by (simp add: moves_def)

lemma moves_trans [trans]: "moves s s' \<Longrightarrow> moves s' s'' \<Longrightarrow> moves s s''"
  by (auto simp: moves_def)

lemma moves_src: "moves s s' \<Longrightarrow> sc_src s' = sc_src s"
  by (simp add: moves_def)

lemma skip_sels [simp]: "sc_src (skip n s) = sc_src s" "sc_offset (skip n s) = sc_offset s + n"
  by (simp_all add: skip_def)

lemma skip_while_eq:
  "skip_while P s = skip (length (takeWhile P (drop (sc_offset s) (sc_src s)))) s"
proof (induction P s rule: skip_while.induct)
  case (1 P s)
  show ?case
  proof (cases "byte_is s (sc_offset s) P")
    case True
    then have "drop (sc_offset s) (sc_src s) = sc_src s ! sc_offset s # drop (Suc (sc_offset s)) (sc_src s)"
      and "P (sc_src s ! sc_offset s)"
      by (auto simp: byte_is_def Cons_nth_drop_Suc)
    with 1 [OF True] True show ?thesis by (simp add: skip_while.simps [of P s])
  next
    case False
    then have "takeWhile P (drop (sc_offset s) (sc_src s)) = []"
      by (cases "drop (sc_offset s) (sc_src s)")
        (auto simp: byte_is_def not_less dest: nth_via_drop)
    with False show ?thesis by (simp add: skip_while.simps [of P s] skip_def)
  qed
qed

lemma moves_skip: "sc_offset s + n \<le> length (sc_src s) \<Longrightarrow> moves s (skip n s)"
  by (simp add: moves_def)

lemma skip_while_moves [simp, intro]: "moves s (skip_while P s)"
proof -
  have "length (takeWhile P (drop (sc_offset s) (sc_src s))) \<le> length (sc_src s) - sc_offset s"
    using length_takeWhile_le [of P "drop (sc_offset s) (sc_src s)"] by simp
  then show ?thesis by (auto simp: moves_def skip_while_eq)
qed

lemma skip_while_progress:
  assumes "byte_is s (sc_offset s) P"
  shows "sc_offset s < sc_offset (skip_while P s)"
proof -
  have "sc_offset (skip 1 s) \<le> sc_offset (skip_while P (skip 1 s))"
    using skip_while_moves [of "skip 1 s" P] unfolding moves_def by blast
  with assms show ?thesis by (simp add: skip_while.simps [of P s])
qed

lemma snd_trivia_from [simp]: "snd (trivia_from k s s') = s'"
  by (simp add: trivia_from_def)

lemma snd_token_from [simp]: "snd (token_from k s s') = s'"
  by (simp add: token_from_def)

section \<open>Trivia around a token\<close>

definition push_fst :: "'a \<Rightarrow> 'a list \<times> 's \<Rightarrow> 'a list \<times> 's" where
  "push_fst x r = (x # fst r, snd r)"

lemma push_fst_sels [simp]: "fst (push_fst x r) = x # fst r" "snd (push_fst x r) = snd r"
  by (simp_all add: push_fst_def)

function scan_leading :: "bool \<Rightarrow> scanner \<Rightarrow> trivia list \<times> scanner" where
  "scan_leading bol s =
     (if \<not> sc_offset s < length (sc_src s) then ([], s)
      else let ch = sc_src s ! sc_offset s in
        if ch = CHR '' '' \<or> ch = CHR 0x09 then
          push_fst (fst (scan_whitespace s)) (scan_leading False (snd (scan_whitespace s)))
        else if ch = CHR 0x0A then
          push_fst (fst (trivia_from NewlineTrivia s (skip 1 s))) (scan_leading True (skip 1 s))
        else if ch = CHR 0x0D \<and> byte_is s (sc_offset s + 1) (\<lambda>c. c = CHR 0x0A) then
          push_fst (fst (trivia_from NewlineTrivia s (skip 2 s))) (scan_leading True (skip 2 s))
        else if ch = CHR 0x0D then
          push_fst (fst (trivia_from NewlineTrivia s (skip 1 s))) (scan_leading True (skip 1 s))
        else if ch = CHR '';'' then
          push_fst (fst (scan_comment s)) (scan_leading False (snd (scan_comment s)))
        else if ch = CHR ''*'' \<and> bol \<and> is_heading_start s then
          push_fst (fst (scan_heading s)) (scan_leading False (snd (scan_heading s)))
        else ([], s))"
  by pat_completeness auto

lemma trivia_progress:
  assumes "sc_offset s < length (sc_src s)"
  shows "is_blank (sc_src s ! sc_offset s) \<Longrightarrow>
      length (sc_src s) - sc_offset (snd (scan_whitespace s)) < length (sc_src s) - sc_offset s"
    and "\<not> is_eol (sc_src s ! sc_offset s) \<Longrightarrow>
      length (sc_src s) - sc_offset (snd (scan_comment s)) < length (sc_src s) - sc_offset s"
    and "\<not> is_eol (sc_src s ! sc_offset s) \<Longrightarrow>
      length (sc_src s) - sc_offset (snd (scan_heading s)) < length (sc_src s) - sc_offset s"
  using assms skip_while_progress [of s is_blank] skip_while_progress [of s "\<lambda>c. \<not> is_eol c"]
  by (simp_all add: scan_whitespace_def scan_comment_def scan_heading_def byte_is_def diff_less_mono2)

lemma trivia_scan_moves [simp]:
  "moves s (snd (scan_whitespace s))" "moves s (snd (scan_comment s))" "moves s (snd (scan_heading s))"
  by (simp_all add: scan_whitespace_def scan_comment_def scan_heading_def)

lemmas trivia_scan_src [simp] = trivia_scan_moves [THEN moves_src]

termination scan_leading
  by (relation "measure (\<lambda>(bol, s). length (sc_src s) - sc_offset s)")
    (auto simp: trivia_progress is_blank_def is_eol_def)

declare scan_leading.simps [simp del]

definition scan_leading_trivia :: "scanner \<Rightarrow> trivia list \<times> scanner" where
  "scan_leading_trivia s = scan_leading (sc_offset s = 0) s"

function scan_trailing_trivia :: "scanner \<Rightarrow> trivia list \<times> scanner" where
  "scan_trailing_trivia s =
     (if \<not> sc_offset s < length (sc_src s) then ([], s)
      else let ch = sc_src s ! sc_offset s in
        if ch = CHR '' '' \<or> ch = CHR 0x09 then
          push_fst (fst (scan_whitespace s)) (scan_trailing_trivia (snd (scan_whitespace s)))
        else if ch = CHR '';'' then ([fst (scan_comment s)], snd (scan_comment s))
        else ([], s))"
  by pat_completeness auto
termination
  by (relation "measure (\<lambda>s. length (sc_src s) - sc_offset s)") (auto simp: trivia_progress is_blank_def)

declare scan_trailing_trivia.simps [simp del]

section \<open>Tokens of the source\<close>

definition scan_number :: "scanner \<Rightarrow> token \<times> scanner" where
  "scan_number s =
     (if byte_is s (sc_offset s) (\<lambda>c. c = CHR ''.'')
      then token_from NUMBER s (skip_while is_digit (skip 1 s))
      else let s1 = skip_while (\<lambda>c. is_digit c \<or> c = CHR '','') s in
        if byte_is s1 (sc_offset s1) (\<lambda>c. c = CHR ''.'')
        then token_from NUMBER s (skip_while is_digit (skip 1 s1))
        else token_from NUMBER s s1)"

definition date_shaped :: "string \<Rightarrow> bool" where
  "date_shaped w \<longleftrightarrow>
     is_digit (w ! 0) \<and> is_digit (w ! 1) \<and> is_digit (w ! 2) \<and> is_digit (w ! 3) \<and>
     (w ! 4 = CHR ''-'' \<or> w ! 4 = CHR ''/'') \<and> is_digit (w ! 5) \<and> is_digit (w ! 6) \<and>
     (w ! 7 = CHR ''-'' \<or> w ! 7 = CHR ''/'') \<and> is_digit (w ! 8) \<and> is_digit (w ! 9)"

definition scan_date_or_number :: "scanner \<Rightarrow> token \<times> scanner" where
  "scan_date_or_number s =
     (if sc_offset s + 10 \<le> length (sc_src s) \<and>
         date_shaped (slice (sc_src s) (sc_offset s) (sc_offset s + 10))
      then token_from DATE s (skip 10 s)
      else scan_number s)"

function component_rest :: "unicode \<Rightarrow> scanner \<Rightarrow> scanner" where
  "component_rest U s =
     (if sc_offset s < length (sc_src s)
      then (let (r, size) = decode_rune (drop (sc_offset s) (sc_src s)) in
            if is_account_component_cont U r then component_rest U (skip size s) else s)
      else s)"
  by pat_completeness auto
termination
  by (relation "measure (\<lambda>(U, s). length (sc_src s) - sc_offset s)")
    (auto dest!: decode_rune_drop)

declare component_rest.simps [simp del]

lemma component_rest_moves [simp]: "moves s (component_rest U s)"
proof (induction U s rule: component_rest.induct)
  case (1 U s)
  obtain r w where d: "decode_rune (drop (sc_offset s) (sc_src s)) = (r, w)" by fastforce
  show ?case
  proof (cases "sc_offset s < length (sc_src s) \<and> is_account_component_cont U r")
    case True
    then have "moves (skip w s) (component_rest U (skip w s))" using 1 d by auto
    moreover have "moves s (skip w s)"
      using True decode_rune_drop [OF d [symmetric]] by (intro moves_skip) auto
    ultimately show ?thesis
      using True d moves_trans by (simp add: component_rest.simps [of U s])
  next
    case False
    with d show ?thesis by (auto simp: component_rest.simps [of U s])
  qed
qed

lemmas component_rest_src [simp] = component_rest_moves [THEN moves_src]

text \<open>The loop over \<open>(:Component)+\<close> with the number of components.\<close>

function account_components :: "unicode \<Rightarrow> nat \<Rightarrow> scanner \<Rightarrow> nat \<times> scanner" where
  "account_components U n s =
     (if byte_is s (sc_offset s) (\<lambda>c. c = CHR '':'')
      then let next = sc_offset s + 1 in
        if next \<ge> length (sc_src s) then (n, s)
        else let (r, size) = decode_rune (drop next (sc_src s)) in
          if \<not> is_account_component_start U r then (n, s)
          else account_components U (n + 1) (component_rest U (skip (1 + size) s))
      else (n, s))"
  by pat_completeness auto

lemma component_progress:
  assumes "sc_offset s + 1 < length (sc_src s)"
    and "decode_rune (drop (sc_offset s + 1) (sc_src s)) = (r, w)"
  shows "moves s (component_rest U (skip (1 + w) s))"
    and "sc_offset s < sc_offset (component_rest U (skip (1 + w) s))"
proof -
  have "moves s (skip (1 + w) s)"
    using decode_rune_drop [OF assms(2) [symmetric] assms(1)] by (intro moves_skip) simp
  moreover note component_rest_moves [of "skip (1 + w) s" U]
  ultimately show "moves s (component_rest U (skip (1 + w) s))"
    and "sc_offset s < sc_offset (component_rest U (skip (1 + w) s))"
    by (auto intro: moves_trans simp: moves_def)
qed

termination account_components
proof (relation "measure (\<lambda>(U, n, s). length (sc_src s) - sc_offset s)", goal_cases)
  case (2 U n s i p r w)
  then show ?case
    using component_progress [of s r w U]
    by (simp add: byte_is_def diff_less_mono2)
qed simp

declare account_components.simps [simp del]

definition scan_upper_word :: "unicode \<Rightarrow> scanner \<Rightarrow> token \<times> scanner" where
  "scan_upper_word U s =
     (let s1 = skip_while is_upper_word_char (skip 1 s);
          word = slice (sc_src s) (sc_offset s) (sc_offset s1);
          (n, s2) =
            (if is_account_root word \<and> byte_is s1 (sc_offset s1) (\<lambda>c. c = CHR '':'')
             then account_components U 0 s1 else (0, s1)) in
      if 0 < n then token_from ACCOUNT s s2
      else if is_currency word then token_from CURRENCY s s1
      else token_from IDENT s s1)"

definition scan_ident :: "scanner \<Rightarrow> token \<times> scanner" where
  "scan_ident s = token_from IDENT s (skip_while is_ident_char (skip 1 s))"

definition scan_tag :: "scanner \<Rightarrow> token \<times> scanner" where
  "scan_tag s = token_from TAG s (skip_while is_tag_link_char (skip 1 s))"

definition scan_link :: "scanner \<Rightarrow> token \<times> scanner" where
  "scan_link s = token_from LINK s (skip_while is_tag_link_char (skip 1 s))"

text \<open>The loop of \<open>scanString\<close> after the opening quote.\<close>

function string_rest :: "scanner \<Rightarrow> scanner" where
  "string_rest s =
     (if \<not> sc_offset s < length (sc_src s) then s
      else let ch = sc_src s ! sc_offset s in
        if ch = CHR 0x5C \<and> sc_offset s + 1 < length (sc_src s) then string_rest (skip 2 s)
        else if ch = CHR 0x22 then skip 1 s
        else string_rest (skip 1 s))"
  by pat_completeness auto
termination
  by (relation "measure (\<lambda>s. length (sc_src s) - sc_offset s)") auto

declare string_rest.simps [simp del]

definition scan_string :: "scanner \<Rightarrow> token \<times> scanner" where
  "scan_string s = token_from STRING s (string_rest (skip 1 s))"

definition punctuation :: "char \<Rightarrow> token_kind option" where
  "punctuation ch = map_of
     [(CHR ''+'', PLUS), (CHR ''-'', MINUS), (CHR ''*'', STAR), (CHR ''/'', SLASH),
      (CHR ''('', LPAREN), (CHR '')'', RPAREN), (CHR ''~'', TILDE), (CHR '','', COMMA),
      (CHR '':'', COLON), (CHR ''!'', BANG)] ch"

definition doubled :: "char \<Rightarrow> (token_kind \<times> token_kind) option" where
  "doubled ch = map_of
     [(CHR ''{'', (LBRACE2, LBRACE)), (CHR ''}'', (RBRACE2, RBRACE)), (CHR ''@'', (ATAT, AT))] ch"

definition scan_illegal :: "scanner \<Rightarrow> token \<times> scanner" where
  "scan_illegal s =
     (let size = snd (decode_rune (drop (sc_offset s) (sc_src s))) in
      token_from ILLEGAL s (skip (if size = 0 then 1 else size) s))"

definition scan_token :: "unicode \<Rightarrow> scanner \<Rightarrow> token \<times> scanner" where
  "scan_token U s =
     (let ch = sc_src s ! sc_offset s in
      case punctuation ch of Some k \<Rightarrow> token_from k s (skip 1 s)
      | None \<Rightarrow>
      case doubled ch of
        Some (two, one) \<Rightarrow>
          if byte_is s (sc_offset s + 1) (\<lambda>c. c = ch) then token_from two s (skip 2 s)
          else token_from one s (skip 1 s)
      | None \<Rightarrow>
      if ch = CHR ''#'' then
        if byte_is s (sc_offset s + 1) is_tag_link_char then scan_tag s
        else token_from HASH s (skip 1 s)
      else if ch = CHR ''^'' then
        if byte_is s (sc_offset s + 1) is_tag_link_char then scan_link s
        else token_from CARET s (skip 1 s)
      else if ch = CHR 0x22 then scan_string s
      else if is_digit ch then scan_date_or_number s
      else if ch = CHR ''.'' \<and> byte_is s (sc_offset s + 1) is_digit then scan_number s
      else if is_upper_az ch then scan_upper_word U s
      else if is_lower_az ch then scan_ident s
      else scan_illegal s)"

definition scan :: "unicode \<Rightarrow> scanner \<Rightarrow> token \<times> scanner" where
  "scan U s =
     (let (leading, s1) = scan_leading_trivia s in
      if sc_offset s1 \<ge> length (sc_src s1)
      then (\<lparr>tok_kind = EOF, tok_pos = sc_offset s1, tok_raw = [], tok_leading = leading,
             tok_trailing = []\<rparr>, s1)
      else let (tok, s2) = scan_token U s1; (trailing, s3) = scan_trailing_trivia s2 in
        (tok\<lparr>tok_leading := leading, tok_trailing := trailing\<rparr>, s3))"

end
