(* ===== verification/Scanner_Facts.thy ===== *)
theory Scanner_Facts
  imports Scanner
begin

text \<open>
  What a call of \<open>scan\<close> does with the text: the pieces it returns, leading trivia, raw text and
  trailing trivia, are together exactly the slice it moves over, and it stops moving only at the end.
\<close>

section \<open>Slices\<close>

lemma slice_length [simp]: "b \<le> length src \<Longrightarrow> length (slice src a b) = b - a"
  by (simp add: slice_def)

lemma slice_empty [simp]: "slice src a a = []"
  by (simp add: slice_def)

lemma slice_append: "a \<le> b \<Longrightarrow> b \<le> c \<Longrightarrow> slice src a b @ slice src b c = slice src a c"
proof -
  assume le: "a \<le> b" "b \<le> c"
  have "take c src = take b src @ drop b (take c src)"
    using le by (metis append_take_drop_id min.absorb2 min.commute take_take)
  then have "drop a (take c src) = drop a (take b src) @ drop (a - length (take b src)) (drop b (take c src))"
    by (metis drop_append)
  then show ?thesis
    using le by (cases "b \<le> length src") (auto simp: slice_def)
qed

lemma slice_all [simp]: "slice src 0 (length src) = src"
  by (simp add: slice_def)

lemma slice_from_0: "slice src 0 b = take b src"
  by (simp add: slice_def)

text \<open>The text a scanner has moved over.\<close>

definition between :: "scanner \<Rightarrow> scanner \<Rightarrow> string" where
  "between s s' = slice (sc_src s) (sc_offset s) (sc_offset s')"

lemma between_refl [simp]: "between s s = []"
  by (simp add: between_def)

lemma between_append [simp]:
  "moves s s1 \<Longrightarrow> moves s1 s2 \<Longrightarrow> between s s1 @ between s1 s2 = between s s2"
  by (simp add: between_def moves_def slice_append)

lemma between_append_assoc [simp]:
  "moves s s1 \<Longrightarrow> moves s1 s2 \<Longrightarrow> between s s1 @ between s1 s2 @ xs = between s s2 @ xs"
  by (metis append_assoc between_append)

definition in_text :: "scanner \<Rightarrow> bool" where
  "in_text s \<longleftrightarrow> sc_offset s \<le> length (sc_src s)"

lemma moves_in_text: "moves s s' \<Longrightarrow> in_text s \<Longrightarrow> in_text s'"
  by (auto simp: moves_def in_text_def)

lemma between_length: "moves s s' \<Longrightarrow> in_text s \<Longrightarrow> length (between s s') = sc_offset s' - sc_offset s"
  by (simp add: between_def in_text_def moves_def)

lemma between_takeWhile: "between s (skip_while P s) = takeWhile P (drop (sc_offset s) (sc_src s))"
proof -
  have "take (length (takeWhile P ys)) ys = takeWhile P ys" for ys :: string
    by (metis takeWhile_eq_take)
  then show ?thesis by (simp add: between_def skip_while_eq slice_def drop_take)
qed

section \<open>Trivia\<close>

lemma trivia_text_simps [simp]:
  "trivia_text [] = []" "trivia_text (t # ts) = trv_raw t @ trivia_text ts"
  by (simp_all add: trivia_text_def)

lemma trivia_from_raw [simp]: "trv_raw (fst (trivia_from k s s')) = between s s'"
  by (simp add: trivia_from_def between_def)

lemma scan_trivia_raw [simp]:
  "trv_raw (fst (scan_whitespace s)) = between s (snd (scan_whitespace s))"
  "trv_raw (fst (scan_comment s)) = between s (snd (scan_comment s))"
  "trv_raw (fst (scan_heading s)) = between s (snd (scan_heading s))"
  by (simp_all add: scan_whitespace_def scan_comment_def scan_heading_def)

text \<open>A list of trivia read from \<open>s\<close> on.\<close>

definition reads :: "scanner \<Rightarrow> trivia list \<times> scanner \<Rightarrow> bool" where
  "reads s r \<longleftrightarrow> moves s (snd r) \<and> trivia_text (fst r) = between s (snd r)"

lemma reads_Nil [simp]: "reads s ([], s)"
  by (simp add: reads_def)

lemma reads_push:
  assumes "reads s1 r" and "moves s s1" and "trv_raw x = between s s1"
  shows "reads s (push_fst x r)"
  using assms moves_trans by (auto simp: reads_def)

lemma moves_skip_1: "sc_offset s < length (sc_src s) \<Longrightarrow> moves s (skip 1 s)"
  by (intro moves_skip) simp

lemma moves_skip_2: "byte_is s (sc_offset s + 1) P \<Longrightarrow> moves s (skip 2 s)"
  by (intro moves_skip) (simp add: byte_is_def)

lemma scan_leading_reads: "reads s (scan_leading bol s)"
proof (induction bol s rule: scan_leading.induct)
  case (1 bol s)
  show ?case
  proof (cases "sc_offset s < length (sc_src s)")
    case True
    then show ?thesis
      unfolding scan_leading.simps [of bol s] Let_def
      using 1 [simplified True, simplified, OF refl]
      by (auto intro!: reads_push simp: moves_skip_1 [simplified] moves_skip_2 [simplified])
  qed (simp add: scan_leading.simps [of bol s])
qed

lemma scan_leading_trivia_reads: "reads s (scan_leading_trivia s)"
  by (simp add: scan_leading_trivia_def scan_leading_reads)

lemma scan_trailing_reads: "reads s (scan_trailing_trivia s)"
proof (induction s rule: scan_trailing_trivia.induct)
  case (1 s)
  show ?case
  proof (cases "sc_offset s < length (sc_src s)")
    case True
    then show ?thesis
      unfolding scan_trailing_trivia.simps [of s] Let_def
      using 1 [simplified True, simplified, OF refl]
      by (auto intro!: reads_push) (simp add: reads_def)
  qed (simp add: scan_trailing_trivia.simps [of s])
qed

section \<open>Raw text\<close>

text \<open>A token whose raw text is what the scanner moved over, at least a byte.\<close>

definition lexes :: "scanner \<Rightarrow> token \<times> scanner \<Rightarrow> bool" where
  "lexes s r \<longleftrightarrow> moves s (snd r) \<and> sc_offset s < sc_offset (snd r) \<and> tok_pos (fst r) = sc_offset s \<and>
     tok_raw (fst r) = between s (snd r) \<and> tok_kind (fst r) \<noteq> EOF"

lemma lexes_token_from:
  "moves s s' \<Longrightarrow> sc_offset s < sc_offset s' \<Longrightarrow> k \<noteq> EOF \<Longrightarrow> lexes s (token_from k s s')"
  by (simp add: lexes_def token_from_def mk_token_def between_def)

lemma string_rest_moves: "moves s (string_rest s)"
proof (induction s rule: string_rest.induct)
  case (1 s)
  show ?case
  proof (cases "sc_offset s < length (sc_src s)")
    case True
    have "moves s (skip 2 s)" if "sc_offset s + 1 < length (sc_src s)"
      using that by (intro moves_skip) simp
    then show ?thesis
      unfolding string_rest.simps [of s] Let_def
      using True 1 [simplified True, simplified, OF refl] moves_skip_1 [OF True]
      by (auto intro: moves_trans)
  qed (simp add: string_rest.simps [of s])
qed

lemma account_components_moves: "moves s (snd (account_components U n s))"
proof (induction U n s rule: account_components.induct)
  case (1 U n s)
  obtain r w where d: "decode_rune (drop (sc_offset s + 1) (sc_src s)) = (r, w)" by fastforce
  show ?case
  proof (cases "sc_offset s + 1 < length (sc_src s)")
    case True
    then show ?thesis
      unfolding account_components.simps [of U n s] Let_def
      using 1 component_progress [OF True d, of U] d
      by (auto simp: byte_is_def intro: moves_trans)
  qed (auto simp: account_components.simps [of U n s])
qed

lemma moves_skip_more: "sc_offset s < length (sc_src s) \<Longrightarrow> moves (skip 1 s) s' \<Longrightarrow>
    moves s s' \<and> sc_offset s < sc_offset s'"
  by (auto simp: moves_def)

lemma scan_word_lexes:
  assumes "sc_offset s < length (sc_src s)"
  shows "lexes s (scan_ident s)" "lexes s (scan_tag s)" "lexes s (scan_link s)" "lexes s (scan_string s)"
  using moves_skip_more [OF assms skip_while_moves] moves_skip_more [OF assms string_rest_moves]
  by (auto simp: scan_ident_def scan_tag_def scan_link_def scan_string_def intro!: lexes_token_from)

lemma scan_upper_word_lexes:
  assumes "sc_offset s < length (sc_src s)"
  shows "lexes s (scan_upper_word U s)"
proof -
  define s1 where "s1 = skip_while is_upper_word_char (skip 1 s)"
  obtain n s2 where a: "account_components U 0 s1 = (n, s2)" by fastforce
  have "moves s s1 \<and> sc_offset s < sc_offset s1"
    using moves_skip_more [OF assms skip_while_moves] by (simp add: s1_def)
  moreover from this have "moves s s2 \<and> sc_offset s < sc_offset s2"
    using account_components_moves [of s1 U 0] a by (auto simp: moves_def)
  ultimately show ?thesis
    unfolding scan_upper_word_def Let_def s1_def [symmetric]
    by (auto simp: a intro!: lexes_token_from)
qed

lemma scan_number_lexes:
  assumes "sc_offset s < length (sc_src s)"
    and "is_digit (sc_src s ! sc_offset s) \<or> sc_src s ! sc_offset s = CHR ''.''"
  shows "lexes s (scan_number s)"
proof (cases "byte_is s (sc_offset s) (\<lambda>c. c = CHR ''.'')")
  case True
  then show ?thesis
    using moves_skip_more [OF assms(1) skip_while_moves]
    by (auto simp: scan_number_def intro!: lexes_token_from)
next
  case False
  define s1 where "s1 = skip_while (\<lambda>c. is_digit c \<or> c = CHR '','') s"
  have s1: "moves s s1" "sc_offset s < sc_offset s1"
    using skip_while_progress [of s "\<lambda>c. is_digit c \<or> c = CHR '',''"] assms False
    by (auto simp: s1_def byte_is_def)
  have "moves s (skip_while is_digit (skip 1 s1)) \<and> sc_offset s < sc_offset (skip_while is_digit (skip 1 s1))"
    if "byte_is s1 (sc_offset s1) (\<lambda>c. c = CHR ''.'')"
    using that moves_skip_more [OF _ skip_while_moves [of "skip 1 s1" is_digit]] s1 moves_trans
    by (fastforce simp: byte_is_def)
  with False s1 show ?thesis
    unfolding scan_number_def Let_def s1_def [symmetric] by (auto intro!: lexes_token_from)
qed

lemma scan_date_or_number_lexes:
  assumes "sc_offset s < length (sc_src s)" and "is_digit (sc_src s ! sc_offset s)"
  shows "lexes s (scan_date_or_number s)"
  using assms scan_number_lexes [of s]
  by (auto simp: scan_date_or_number_def intro!: lexes_token_from moves_skip)

lemma scan_illegal_lexes:
  assumes "sc_offset s < length (sc_src s)"
  shows "lexes s (scan_illegal s)"
proof -
  obtain r w where d: "(r, w) = decode_rune (drop (sc_offset s) (sc_src s))" by (metis surj_pair)
  show ?thesis
    using decode_rune_drop [OF d assms]
    by (auto simp: scan_illegal_def d [symmetric] intro!: lexes_token_from moves_skip)
qed

lemma punctuation_not_EOF: "punctuation ch = Some k \<Longrightarrow> k \<noteq> EOF"
  by (auto simp: punctuation_def split: if_splits)

lemma doubled_not_EOF: "doubled ch = Some (k, k') \<Longrightarrow> k \<noteq> EOF \<and> k' \<noteq> EOF"
  by (auto simp: doubled_def split: if_splits)

lemma scan_token_lexes:
  assumes "sc_offset s < length (sc_src s)"
  shows "lexes s (scan_token U s)"
proof -
  have one: "lexes s (token_from k s (skip 1 s))" if "k \<noteq> EOF" for k
    using that assms by (intro lexes_token_from moves_skip_1) simp_all
  have two: "lexes s (token_from k s (skip 2 s))" if "byte_is s (sc_offset s + 1) P" "k \<noteq> EOF" for k P
    using that by (intro lexes_token_from moves_skip_2) simp_all
  have branch: "lexes s (if b then x else y)" if "b \<Longrightarrow> lexes s x" "\<not> b \<Longrightarrow> lexes s y" for b x y
    using that by simp
  show ?thesis
  proof (cases "punctuation (sc_src s ! sc_offset s)")
    case (Some k)
    then show ?thesis using one [of k] by (simp add: scan_token_def punctuation_not_EOF)
  next
    case None
    note p = None
    show ?thesis
    proof (cases "doubled (sc_src s ! sc_offset s)")
      case (Some kk)
      obtain k k' where kk: "kk = (k, k')" by fastforce
      then have "k \<noteq> EOF" "k' \<noteq> EOF" using doubled_not_EOF Some by blast+
      then show ?thesis
        unfolding scan_token_def Let_def p Some kk option.case prod.case
        by (intro branch one two)
    next
      case None
      show ?thesis
        unfolding scan_token_def Let_def p None option.case
        by (intro branch one scan_word_lexes [OF assms] scan_upper_word_lexes [OF assms]
            scan_illegal_lexes [OF assms] scan_number_lexes [OF assms]
            scan_date_or_number_lexes [OF assms]) simp_all
    qed
  qed
qed

section \<open>One call of scan\<close>

definition token_text :: "token \<Rightarrow> string" where
  "token_text t = trivia_text (tok_leading t) @ tok_raw t @ trivia_text (tok_trailing t)"

text \<open>All that a caller of \<open>scan\<close> knows of a token and the scanner after it.\<close>

definition scanned :: "scanner \<Rightarrow> token \<Rightarrow> scanner \<Rightarrow> bool" where
  "scanned s t s' \<longleftrightarrow> moves s s' \<and> token_text t = between s s' \<and>
     tok_pos t = sc_offset s + length (trivia_text (tok_leading t)) \<and>
     (if tok_kind t = EOF then sc_offset s' = length (sc_src s) \<and> tok_raw t = [] \<and> tok_trailing t = []
      else sc_offset s < sc_offset s' \<and> tok_raw t \<noteq> [])"

lemma scan_scanned:
  assumes "in_text s"
  shows "scanned s (fst (scan U s)) (snd (scan U s))"
proof -
  obtain lead s1 where l: "scan_leading_trivia s = (lead, s1)" by fastforce
  obtain tok s2 where t: "scan_token U s1 = (tok, s2)" by fastforce
  obtain trail s3 where tr: "scan_trailing_trivia s2 = (trail, s3)" by fastforce
  have s1: "moves s s1" "trivia_text lead = between s s1"
    using scan_leading_trivia_reads [of s] l by (simp_all add: reads_def)
  then have len: "length (trivia_text lead) = sc_offset s1 - sc_offset s"
    using assms by (simp add: between_length)
  show ?thesis
  proof (cases "sc_offset s1 \<ge> length (sc_src s1)")
    case True
    then have "sc_offset s1 = length (sc_src s)"
      using s1(1) assms by (simp add: moves_def in_text_def)
    with True s1 len show ?thesis
      by (simp add: scan_def l scanned_def token_text_def moves_def)
  next
    case False
    then have s2: "lexes s1 (tok, s2)" using scan_token_lexes [of s1 U] t by simp
    have s3: "moves s2 s3" "trivia_text trail = between s2 s3"
      using scan_trailing_reads [of s2] tr by (simp_all add: reads_def)
    have "length (between s1 s2) = sc_offset s2 - sc_offset s1"
      using s2 moves_in_text [OF s1(1) assms] by (simp add: lexes_def between_length)
    then have "between s1 s2 \<noteq> []" using s2 by (auto simp: lexes_def)
    with False s1 s2 s3 len moves_trans [of s s1 s2] moves_trans [of s s2 s3] show ?thesis
      by (simp add: scan_def l t tr scanned_def token_text_def lexes_def moves_def)
  qed
qed

end
