(* ===== verification/Cst.thy ===== *)
theory Cst
  imports Scanner_Facts
begin

text \<open>
  The concrete syntax tree of \<open>pkg/syntax\<close>: \<open>node.go\<close>, \<open>node_kind.go\<close>, \<open>error.go\<close>, \<open>file.go\<close>. A
  \<open>Child\<close> holds a token or a node.
\<close>

datatype node_kind = FileNode | OptionDirective | PluginDirective | IncludeDirective | PushtagDirective
  | PoptagDirective | OpenDirective | CloseDirective | CommodityDirective | BalanceDirective
  | PadDirective | NoteDirective | DocumentDirective | PriceDirective | EventDirective
  | QueryDirective | CustomDirective | TransactionDirective | PostingNode | AmountNode
  | BalanceAmountNode | CostSpecNode | PriceAnnotNode | MetadataLineNode | ArithExprNode | ErrorNode
  | UnrecognizedLineNode

datatype node = Node (nd_kind: node_kind) (nd_children: "child list")
  and child = CToken token | CNode node

record syntax_error =
  se_pos :: nat
  se_msg :: string

record syntax_file =
  sf_root :: "node option"
  sf_errors :: "syntax_error list"

definition syntax_error_string :: "syntax_error \<Rightarrow> string" where
  "syntax_error_string e = ''offset '' @ show_nat (se_pos e) @ '': '' @ se_msg e"

definition add_token :: "node \<Rightarrow> token \<Rightarrow> node" where
  "add_token n t = Node (nd_kind n) (nd_children n @ [CToken t])"

definition add_node :: "node \<Rightarrow> node \<Rightarrow> node" where
  "add_node n m = Node (nd_kind n) (nd_children n @ [CNode m])"

fun node_tokens :: "node \<Rightarrow> token list" and child_tokens :: "child \<Rightarrow> token list" where
  "node_tokens (Node k cs) = concat (map child_tokens cs)"
| "child_tokens (CToken t) = [t]"
| "child_tokens (CNode n) = node_tokens n"

text \<open>\<open>walkTokens\<close> with a consumer that may stop it: \<open>yield\<close> returns whether to go on.\<close>

fun walk_tokens :: "('s \<Rightarrow> token \<Rightarrow> bool \<times> 's) \<Rightarrow> node \<Rightarrow> 's \<Rightarrow> bool \<times> 's"
  and walk_children :: "('s \<Rightarrow> token \<Rightarrow> bool \<times> 's) \<Rightarrow> child list \<Rightarrow> 's \<Rightarrow> bool \<times> 's"
  and walk_child :: "('s \<Rightarrow> token \<Rightarrow> bool \<times> 's) \<Rightarrow> child \<Rightarrow> 's \<Rightarrow> bool \<times> 's" where
  "walk_tokens yield (Node k cs) s = walk_children yield cs s"
| "walk_children yield [] s = (True, s)"
| "walk_children yield (c # cs) s =
     (case walk_child yield c s of (go_on, s') \<Rightarrow>
        if go_on then walk_children yield cs s' else (False, s'))"
| "walk_child yield (CToken t) s = yield s t"
| "walk_child yield (CNode n) s = walk_tokens yield n s"

definition find_tokens :: "node \<Rightarrow> token_kind \<Rightarrow> token list" where
  "find_tokens n k =
     concat (map (\<lambda>c. case c of CToken t \<Rightarrow> if tok_kind t = k then [t] else [] | CNode _ \<Rightarrow> []) (nd_children n))"

definition find_token :: "node \<Rightarrow> token_kind \<Rightarrow> token option" where
  "find_token n k = (case find_tokens n k of [] \<Rightarrow> None | t # _ \<Rightarrow> Some t)"

definition find_all_nodes :: "node \<Rightarrow> node_kind \<Rightarrow> node list" where
  "find_all_nodes n k =
     concat (map (\<lambda>c. case c of CNode m \<Rightarrow> if nd_kind m = k then [m] else [] | CToken _ \<Rightarrow> []) (nd_children n))"

definition find_node :: "node \<Rightarrow> node_kind \<Rightarrow> node option" where
  "find_node n k = (case find_all_nodes n k of [] \<Rightarrow> None | m # _ \<Rightarrow> Some m)"

definition full_text :: "node \<Rightarrow> string" where
  "full_text n = concat (map token_text (node_tokens n))"

definition file_full_text :: "syntax_file \<Rightarrow> string" where
  "file_full_text f = (case sf_root f of None \<Rightarrow> [] | Some n \<Rightarrow> full_text n)"

section \<open>Texts of children\<close>

definition children_text :: "child list \<Rightarrow> string" where
  "children_text cs = concat (map token_text (concat (map child_tokens cs)))"

lemma children_text_simps [simp]:
  "children_text [] = []"
  "children_text (CToken t # cs) = token_text t @ children_text cs"
  "children_text (CNode n # cs) = full_text n @ children_text cs"
  "children_text (cs @ ds) = children_text cs @ children_text ds"
  by (simp_all add: children_text_def full_text_def)

lemma full_text_Node [simp]: "full_text (Node k cs) = children_text cs"
  by (simp add: full_text_def children_text_def)

lemma full_text_add [simp]:
  "full_text (add_token n t) = full_text n @ token_text t"
  "full_text (add_node n m) = full_text n @ full_text m"
  by (cases n; simp add: add_token_def add_node_def)+

text \<open>The iterator visits the tokens in order, up to the one where the consumer stops.\<close>

fun feed :: "('s \<Rightarrow> token \<Rightarrow> bool \<times> 's) \<Rightarrow> token list \<Rightarrow> 's \<Rightarrow> bool \<times> 's" where
  "feed yield [] s = (True, s)"
| "feed yield (t # ts) s = (case yield s t of (go_on, s') \<Rightarrow> if go_on then feed yield ts s' else (False, s'))"

lemma feed_append:
  "feed yield (ts @ us) s = (case feed yield ts s of (go_on, s') \<Rightarrow> if go_on then feed yield us s' else (False, s'))"
  by (induction ts arbitrary: s) (auto split: prod.split)

lemma walk_is_feed:
  "walk_tokens yield n s = feed yield (node_tokens n) s"
  "walk_children yield cs s = feed yield (concat (map child_tokens cs)) s"
  "walk_child yield c s = feed yield (child_tokens c) s"
  by (induction yield n s and yield cs s and yield c s rule: walk_tokens_walk_children_walk_child.induct)
    (auto simp: feed_append split: prod.split)

end
