(* ===== verification/Parser.thy ===== *)
theory Parser
  imports Cst "HOL-Library.While_Combinator"
begin

text \<open>
  The recursive-descent parser of \<open>pkg/syntax/parser.go\<close> and \<open>balance_expr.go\<close>. A production that adds
  children to the node of its caller is a function from a parser to these children and the parser
  after it; \<open>steps\<close> runs such productions in order. The lookahead \<open>p.tok\<close> is part of the state.
\<close>

section \<open>The state of the parser\<close>

record parser =
  prs_scanner :: scanner
  prs_tok :: token
  prs_errors :: "syntax_error list"

definition new_parser :: "string \<Rightarrow> parser" where
  "new_parser src =
     \<lparr>prs_scanner = new_scanner src, prs_tok = mk_token ILLEGAL 0 [], prs_errors = []\<rparr>"

definition peek :: "parser \<Rightarrow> token_kind" where
  "peek p = tok_kind (prs_tok p)"

definition advance :: "unicode \<Rightarrow> parser \<Rightarrow> token \<times> parser" where
  "advance U p =
     (case scan U (prs_scanner p) of (t, s) \<Rightarrow> (prs_tok p, p\<lparr>prs_scanner := s, prs_tok := t\<rparr>))"

definition errorf :: "string \<Rightarrow> parser \<Rightarrow> parser" where
  "errorf msg p = p\<lparr>prs_errors := prs_errors p @ [\<lparr>se_pos = tok_pos (prs_tok p), se_msg = msg\<rparr>]\<rparr>"

definition expect :: "unicode \<Rightarrow> token_kind \<Rightarrow> parser \<Rightarrow> token \<times> parser" where
  "expect U k p =
     (if peek p = k then advance U p
      else (mk_token ILLEGAL (tok_pos (prs_tok p)) [],
            errorf (''expected '' @ token_kind_name k @ '', got '' @ token_kind_name (peek p)) p))"

definition at :: "token_kind list \<Rightarrow> parser \<Rightarrow> bool" where
  "at ks p \<longleftrightarrow> peek p \<in> set ks"

definition is_at_next_line :: "parser \<Rightarrow> bool" where
  "is_at_next_line p \<longleftrightarrow> (\<exists>t \<in> set (tok_leading (prs_tok p)). trv_kind t = NewlineTrivia)"

definition is_at_line_start :: "parser \<Rightarrow> bool" where
  "is_at_line_start p =
     (if tok_pos (prs_tok p) = 0 \<and> tok_leading (prs_tok p) = [] then True else is_at_next_line p)"

fun indented_after :: "bool \<Rightarrow> trivia list \<Rightarrow> bool" where
  "indented_after saw_newline [] = False"
| "indented_after saw_newline (t # ts) =
     (if trv_kind t = NewlineTrivia then indented_after True ts
      else if trv_kind t = WhitespaceTrivia \<and> saw_newline then True
      else indented_after saw_newline ts)"

definition is_indented :: "parser \<Rightarrow> bool" where
  "is_indented p = indented_after False (tok_leading (prs_tok p))"

section \<open>Productions\<close>

type_synonym production = "parser \<Rightarrow> child list \<times> parser"

fun steps :: "production list \<Rightarrow> production" where
  "steps [] p = ([], p)"
| "steps (f # fs) p = (case f p of (cs, p1) \<Rightarrow> case steps fs p1 of (ds, p2) \<Rightarrow> (cs @ ds, p2))"

definition given :: "token \<Rightarrow> production" where
  "given t p = ([CToken t], p)"

definition take_token :: "unicode \<Rightarrow> production" where
  "take_token U p = (case advance U p of (t, p1) \<Rightarrow> ([CToken t], p1))"

definition expect_token :: "unicode \<Rightarrow> token_kind \<Rightarrow> production" where
  "expect_token U k p = (case expect U k p of (t, p1) \<Rightarrow> ([CToken t], p1))"

definition sub_node :: "(parser \<Rightarrow> node \<times> parser) \<Rightarrow> production" where
  "sub_node f p = (case f p of (n, p1) \<Rightarrow> ([CNode n], p1))"

definition node_of :: "node_kind \<Rightarrow> production \<Rightarrow> parser \<Rightarrow> node \<times> parser" where
  "node_of k f p = (case f p of (cs, p1) \<Rightarrow> (Node k cs, p1))"

definition only_if :: "(parser \<Rightarrow> bool) \<Rightarrow> production \<Rightarrow> production" where
  "only_if c f p = (if c p then f p else ([], p))"

definition failing :: "(parser \<Rightarrow> string) \<Rightarrow> production" where
  "failing msg p = ([], errorf (msg p) p)"

section \<open>Progress\<close>

text \<open>What is left to read: the bytes the scanner has not seen, and the token in hand.\<close>

definition left_over :: "parser \<Rightarrow> nat" where
  "left_over p = length (sc_src (prs_scanner p)) - sc_offset (prs_scanner p) + (if peek p = EOF then 0 else 1)"

lemma scan_progress:
  "sc_src (snd (scan U s)) = sc_src s"
  "sc_offset s \<le> sc_offset (snd (scan U s))"
  "tok_kind (fst (scan U s)) \<noteq> EOF \<Longrightarrow>
     sc_offset s < sc_offset (snd (scan U s)) \<and> sc_offset (snd (scan U s)) \<le> length (sc_src s)"
proof -
  obtain lead s1 where l: "scan_leading_trivia s = (lead, s1)" by fastforce
  obtain tok s2 where t: "scan_token U s1 = (tok, s2)" by fastforce
  obtain trail s3 where tr: "scan_trailing_trivia s2 = (trail, s3)" by fastforce
  have s1: "moves s s1" using scan_leading_trivia_reads [of s] l by (simp add: reads_def)
  have s3: "moves s2 s3" using scan_trailing_reads [of s2] tr by (simp add: reads_def)
  have s2: "\<not> sc_offset s1 \<ge> length (sc_src s1) \<Longrightarrow> lexes s1 (tok, s2)"
    using scan_token_lexes [of s1 U] t by simp
  show "sc_src (snd (scan U s)) = sc_src s" "sc_offset s \<le> sc_offset (snd (scan U s))"
    "tok_kind (fst (scan U s)) \<noteq> EOF \<Longrightarrow>
     sc_offset s < sc_offset (snd (scan U s)) \<and> sc_offset (snd (scan U s)) \<le> length (sc_src s)"
    using s1 s2 s3 by (auto simp: scan_def l t tr lexes_def moves_def)
qed

lemma peek_errorf [simp]: "peek (errorf msg p) = peek p"
  by (simp add: peek_def errorf_def)

lemma left_over_errorf [simp]: "left_over (errorf msg p) = left_over p"
  by (simp add: left_over_def) (simp add: errorf_def)

lemma advance_progress:
  "left_over (snd (advance U p)) \<le> left_over p"
  "peek p \<noteq> EOF \<Longrightarrow> left_over (snd (advance U p)) < left_over p"
  using scan_progress [where U = U and s = "prs_scanner p"]
  by (auto simp: advance_def left_over_def peek_def split: prod.split)

section \<open>Expressions\<close>

text \<open>The loops of \<open>parseExpr\<close> and \<open>parseTerm\<close> carry the tree built so far.\<close>

function parse_expr :: "unicode \<Rightarrow> parser \<Rightarrow> node \<times> parser"
  and expr_loop :: "unicode \<Rightarrow> node \<Rightarrow> parser \<Rightarrow> node \<times> parser"
  and parse_term :: "unicode \<Rightarrow> parser \<Rightarrow> node \<times> parser"
  and term_loop :: "unicode \<Rightarrow> node \<Rightarrow> parser \<Rightarrow> node \<times> parser"
  and parse_factor :: "unicode \<Rightarrow> parser \<Rightarrow> node \<times> parser" where
  "parse_expr U p = (case parse_term U p of (left, p1) \<Rightarrow> expr_loop U left p1)"
| "expr_loop U left p =
     (if at [PLUS, MINUS] p then
        case advance U p of (op, p1) \<Rightarrow>
        case parse_term U p1 of (right, p2) \<Rightarrow>
        expr_loop U (Node ArithExprNode [CNode left, CToken op, CNode right]) p2
      else (left, p))"
| "parse_term U p = (case parse_factor U p of (left, p1) \<Rightarrow> term_loop U left p1)"
| "term_loop U left p =
     (if at [STAR, SLASH] p then
        case advance U p of (op, p1) \<Rightarrow>
        case parse_factor U p1 of (right, p2) \<Rightarrow>
        term_loop U (Node ArithExprNode [CNode left, CToken op, CNode right]) p2
      else (left, p))"
| "parse_factor U p =
     (if peek p = NUMBER then
        case advance U p of (num, p1) \<Rightarrow> (Node ArithExprNode [CToken num], p1)
      else if at [MINUS, PLUS] p then
        case advance U p of (op, p1) \<Rightarrow>
        case parse_factor U p1 of (operand, p2) \<Rightarrow> (Node ArithExprNode [CToken op, CNode operand], p2)
      else if peek p = LPAREN then
        case advance U p of (lp, p1) \<Rightarrow>
        case parse_expr U p1 of (inner, p2) \<Rightarrow>
        case expect U RPAREN p2 of (rp, p3) \<Rightarrow>
        (Node ArithExprNode [CToken lp, CNode inner, CToken rp], p3)
      else
        case advance U (errorf (''expected number or expression, got '' @ token_kind_name (peek p)) p) of
          (tok, p1) \<Rightarrow> (Node ArithExprNode [CToken tok], p1))"
  by pat_completeness auto

lemma expect_progress: "left_over (snd (expect U k p)) \<le> left_over p"
  by (simp add: expect_def advance_progress)

lemma at_not_EOF: "at ks p \<Longrightarrow> EOF \<notin> set ks \<Longrightarrow> peek p \<noteq> EOF"
  by (auto simp: at_def)

lemma advance_result:
  assumes "(t, q) = advance U p"
  shows "left_over q \<le> left_over p" and "peek p \<noteq> EOF \<Longrightarrow> left_over q < left_over p"
  using advance_progress [where U = U and p = p] by (simp_all add: assms [symmetric])

lemma advance_error_result:
  assumes "advance U (errorf msg p) = (t, q)"
  shows "left_over q \<le> left_over p" and "peek p \<noteq> EOF \<Longrightarrow> left_over q < left_over p"
  using advance_result [OF assms [symmetric]] by simp_all

text \<open>Needed for the calls on what another call has left: no production goes back.\<close>

lemma expr_dom_progress:
  "parse_expr_expr_loop_parse_term_term_loop_parse_factor_dom (Inl (Inl (U, p))) \<Longrightarrow>
     left_over (snd (parse_expr U p)) \<le> left_over p"
  "parse_expr_expr_loop_parse_term_term_loop_parse_factor_dom (Inl (Inr (U, l, p))) \<Longrightarrow>
     left_over (snd (expr_loop U l p)) \<le> left_over p"
  "parse_expr_expr_loop_parse_term_term_loop_parse_factor_dom (Inr (Inl (U, p))) \<Longrightarrow>
     left_over (snd (parse_term U p)) \<le> left_over p"
  "parse_expr_expr_loop_parse_term_term_loop_parse_factor_dom (Inr (Inr (Inl (U, l, p)))) \<Longrightarrow>
     left_over (snd (term_loop U l p)) \<le> left_over p"
  "parse_expr_expr_loop_parse_term_term_loop_parse_factor_dom (Inr (Inr (Inr (U, p)))) \<Longrightarrow>
     left_over (snd (parse_factor U p)) \<le> left_over p"
proof (induction U p and U l p and U p and U l p and U p
    rule: parse_expr_expr_loop_parse_term_term_loop_parse_factor.pinduct)
  case (1 U p)
  then show ?case
    by (auto simp: parse_expr.psimps split: prod.split)
next
  case (2 U l p)
  show ?case
  proof (cases "at [PLUS, MINUS] p")
    case True
    obtain op p1 where a: "advance U p = (op, p1)" by fastforce
    obtain r p2 where t: "parse_term U p1 = (r, p2)" by fastforce
    have "left_over p1 \<le> left_over p" using advance_result(1) [OF a [symmetric]] by simp
    with 2 True a t show ?thesis by (fastforce simp: expr_loop.psimps)
  qed (use 2 in \<open>simp add: expr_loop.psimps\<close>)
next
  case (3 U p)
  then show ?case
    by (auto simp: parse_term.psimps split: prod.split)
next
  case (4 U l p)
  show ?case
  proof (cases "at [STAR, SLASH] p")
    case True
    obtain op p1 where a: "advance U p = (op, p1)" by fastforce
    obtain r p2 where t: "parse_factor U p1 = (r, p2)" by fastforce
    have "left_over p1 \<le> left_over p" using advance_result(1) [OF a [symmetric]] by simp
    with 4 True a t show ?thesis by (fastforce simp: term_loop.psimps)
  qed (use 4 in \<open>simp add: term_loop.psimps\<close>)
next
  case (5 U p)
  obtain op p1 where a: "advance U p = (op, p1)" by fastforce
  obtain r p2 where t: "parse_factor U p1 = (r, p2)" by fastforce
  obtain i p3 where e: "parse_expr U p1 = (i, p3)" by fastforce
  have "left_over p1 \<le> left_over p" using advance_result(1) [OF a [symmetric]] by simp
  then show ?case
    using 5 a t e expect_progress [of U RPAREN p3]
    by (auto simp: parse_factor.psimps dest: advance_error_result(1) split: prod.splits)
qed

lemma expr_dom_result:
  "(n, q) = parse_term U p \<Longrightarrow>
     parse_expr_expr_loop_parse_term_term_loop_parse_factor_dom (Inr (Inl (U, p))) \<Longrightarrow>
     left_over q \<le> left_over p"
  "(n, q) = parse_factor U p \<Longrightarrow>
     parse_expr_expr_loop_parse_term_term_loop_parse_factor_dom (Inr (Inr (Inr (U, p)))) \<Longrightarrow>
     left_over q \<le> left_over p"
  using expr_dom_progress(3) [of U p] expr_dom_progress(5) [of U p] by (metis snd_conv)+

termination parse_expr
proof (relation "measure (\<lambda>x. case x of
      Inl (Inl (U, p)) \<Rightarrow> 4 * left_over p + 3
    | Inl (Inr (U, l, p)) \<Rightarrow> 4 * left_over p + 1
    | Inr (Inl (U, p)) \<Rightarrow> 4 * left_over p + 2
    | Inr (Inr (Inl (U, l, p))) \<Rightarrow> 4 * left_over p + 1
    | Inr (Inr (Inr (U, p))) \<Rightarrow> 4 * left_over p + 1)", goal_cases)
  case (3 U p l q)
  show ?case using expr_dom_result(1) [OF 3] by simp
next
  case (4 U l p op q)
  show ?case using advance_result(2) [OF 4(2) at_not_EOF [OF 4(1)]] by simp
next
  case (5 U l p op q r q')
  show ?case
    using advance_result(2) [OF 5(2) at_not_EOF [OF 5(1)]] expr_dom_result(1) [OF 5(3,4)] by simp
next
  case (7 U p l q)
  show ?case using expr_dom_result(2) [OF 7] by simp
next
  case (8 U l p op q)
  show ?case using advance_result(2) [OF 8(2) at_not_EOF [OF 8(1)]] by simp
next
  case (9 U l p op q r q')
  show ?case
    using advance_result(2) [OF 9(2) at_not_EOF [OF 9(1)]] expr_dom_result(2) [OF 9(3,4)] by simp
next
  case (10 U p op q)
  show ?case using advance_result(2) [OF 10(3) at_not_EOF [OF 10(2)]] by simp
next
  case (11 U p lp q)
  show ?case using advance_result(2) [OF 11(4)] 11(3) by simp
qed simp_all

declare parse_expr.simps [simp del] expr_loop.simps [simp del] parse_term.simps [simp del]
  term_loop.simps [simp del] parse_factor.simps [simp del]

section \<open>What a production reads\<close>

text \<open>A production never goes back; a strict one reads a token if there is one.\<close>

definition onward :: "(parser \<Rightarrow> 'a \<times> parser) \<Rightarrow> bool" where
  "onward f \<longleftrightarrow> (\<forall>p. left_over (snd (f p)) \<le> left_over p)"

definition strict :: "(parser \<Rightarrow> 'a \<times> parser) \<Rightarrow> bool" where
  "strict f \<longleftrightarrow> onward f \<and> (\<forall>p. peek p \<noteq> EOF \<longrightarrow> left_over (snd (f p)) < left_over p)"

lemma strict_onward: "strict f \<Longrightarrow> onward f"
  by (simp add: strict_def)

lemma expr_progress:
  "left_over (snd (parse_expr U p)) \<le> left_over p \<and> (peek p \<noteq> EOF \<longrightarrow> left_over (snd (parse_expr U p)) < left_over p)"
  "left_over (snd (expr_loop U l p)) \<le> left_over p"
  "left_over (snd (parse_term U p)) \<le> left_over p \<and> (peek p \<noteq> EOF \<longrightarrow> left_over (snd (parse_term U p)) < left_over p)"
  "left_over (snd (term_loop U l p)) \<le> left_over p"
  "left_over (snd (parse_factor U p)) \<le> left_over p \<and> (peek p \<noteq> EOF \<longrightarrow> left_over (snd (parse_factor U p)) < left_over p)"
proof (induction U p and U l p and U p and U l p and U p
    rule: parse_expr_expr_loop_parse_term_term_loop_parse_factor.induct)
  case (1 U p)
  then show ?case by (fastforce simp: parse_expr.simps split: prod.split)
next
  case (2 U l p)
  show ?case
  proof (cases "at [PLUS, MINUS] p")
    case True
    obtain op p1 where a: "advance U p = (op, p1)" by fastforce
    obtain r p2 where t: "parse_term U p1 = (r, p2)" by fastforce
    with 2 True a t advance_result(1) [OF a [symmetric]] show ?thesis
      by (fastforce simp: expr_loop.simps)
  qed (simp add: expr_loop.simps)
next
  case (3 U p)
  then show ?case by (fastforce simp: parse_term.simps split: prod.split)
next
  case (4 U l p)
  show ?case
  proof (cases "at [STAR, SLASH] p")
    case True
    obtain op p1 where a: "advance U p = (op, p1)" by fastforce
    obtain r p2 where t: "parse_factor U p1 = (r, p2)" by fastforce
    with 4 True a t advance_result(1) [OF a [symmetric]] show ?thesis
      by (fastforce simp: term_loop.simps)
  qed (simp add: term_loop.simps)
next
  case (5 U p)
  obtain op p1 where a: "advance U p = (op, p1)" by fastforce
  obtain r p2 where t: "parse_factor U p1 = (r, p2)" by fastforce
  obtain i p3 where e: "parse_expr U p1 = (i, p3)" by fastforce
  note * = advance_result [OF a [symmetric]]
  show ?case
  proof (cases "peek p = NUMBER \<or> at [MINUS, PLUS] p \<or> peek p = LPAREN")
    case True
    then have "peek p \<noteq> EOF" by (auto simp: at_def)
    with True 5 a t e expect_progress [of U RPAREN p3] * show ?thesis
      by (auto simp: parse_factor.simps [of U p] case_prod_beta)
  next
    case False
    then show ?thesis
      using advance_error_result [where U = U and p = p, OF surjective_pairing]
      by (simp add: parse_factor.simps [of U p] case_prod_beta)
  qed
qed

lemma onward_basic [simp]:
  "onward (given t)" "onward (take_token U)" "onward (expect_token U k)" "onward (failing msg)"
  "strict (take_token U)" "strict (parse_expr U)"
  using expect_progress advance_progress expr_progress(1)
  by (auto simp: onward_def strict_def given_def take_token_def expect_token_def failing_def
      split: prod.split) (metis snd_conv)+

lemma onward_steps: "(\<And>f. f \<in> set fs \<Longrightarrow> onward f) \<Longrightarrow> onward (steps fs)"
proof (induction fs)
  case (Cons f fs)
  then have "onward f" "onward (steps fs)" by simp_all
  then show ?case
    by (auto simp: onward_def split: prod.split) (metis le_trans snd_conv)
qed (simp add: onward_def)

lemma strict_steps: "strict f \<Longrightarrow> (\<And>g. g \<in> set fs \<Longrightarrow> onward g) \<Longrightarrow> strict (steps (f # fs))"
proof -
  assume f: "strict f" and "\<And>g. g \<in> set fs \<Longrightarrow> onward g"
  then have "onward (steps fs)" and "onward (steps (f # fs))"
    using strict_onward by (auto intro!: onward_steps)
  with f show "strict (steps (f # fs))"
    by (auto simp: onward_def strict_def split: prod.split) (metis le_less_trans snd_conv)
qed

lemma onward_wrap [simp]:
  "onward (sub_node f) \<longleftrightarrow> onward f" "strict (sub_node f) \<longleftrightarrow> strict f"
  "onward (node_of k g) \<longleftrightarrow> onward g" "strict (node_of k g) \<longleftrightarrow> strict g"
  by (simp_all add: onward_def strict_def sub_node_def node_of_def case_prod_beta)

lemma onward_only_if [simp]: "onward f \<Longrightarrow> onward (only_if c f)"
  by (simp add: onward_def only_if_def)

section \<open>Loops\<close>

text \<open>\<open>for c { f }\<close>, adding to the children read so far; the condition may look at these.\<close>

definition loop :: "(child list \<Rightarrow> parser \<Rightarrow> bool) \<Rightarrow> production \<Rightarrow> production" where
  "loop c f p =
     while (\<lambda>(cs, p). c cs p) (\<lambda>(cs, p). case f p of (ds, p1) \<Rightarrow> (cs @ ds, p1)) ([], p)"

text \<open>A loop over a strict body that stops at the end of the file terminates.\<close>

lemma loop_invariant:
  assumes "strict f" and "\<And>cs q. c cs q \<Longrightarrow> peek q \<noteq> EOF"
    and "Inv [] p" and "\<And>cs q. Inv cs q \<Longrightarrow> c cs q \<Longrightarrow> Inv (cs @ fst (f q)) (snd (f q))"
  shows "Inv (fst (loop c f p)) (snd (loop c f p)) \<and> \<not> c (fst (loop c f p)) (snd (loop c f p))"
  unfolding loop_def
proof (rule while_rule [where P = "\<lambda>(cs, q). Inv cs q" and r = "measure (\<lambda>(cs, q). left_over q)"],
    goal_cases)
  case (2 s)
  then show ?case using assms(4) by (auto split: prod.splits) (metis fst_conv snd_conv)
next
  case (5 s)
  then show ?case
    using assms(1,2) by (auto simp: strict_def split: prod.splits) (metis snd_conv)
qed (use assms(3) in auto)

lemma onward_loop:
  assumes "strict f" and "\<And>cs q. c cs q \<Longrightarrow> peek q \<noteq> EOF"
  shows "onward (loop c f)"
  unfolding onward_def
proof
  fix p
  have le: "left_over (snd (f q)) \<le> left_over q" for q
    using assms(1) by (simp add: strict_def onward_def)
  show "left_over (snd (loop c f p)) \<le> left_over p"
    using loop_invariant [of f c "\<lambda>cs q. left_over q \<le> left_over p" p, OF assms(1) assms(2)]
      le_trans [OF le] by simp
qed

section \<open>Amounts\<close>

definition parse_amount :: "unicode \<Rightarrow> parser \<Rightarrow> node \<times> parser" where
  "parse_amount U = node_of AmountNode (steps [sub_node (parse_expr U), expect_token U CURRENCY])"

definition parse_amount_optional_currency :: "unicode \<Rightarrow> parser \<Rightarrow> node \<times> parser" where
  "parse_amount_optional_currency U =
     node_of AmountNode (steps [sub_node (parse_expr U), only_if (at [CURRENCY]) (take_token U)])"

definition parse_price_annotation :: "unicode \<Rightarrow> parser \<Rightarrow> node \<times> parser" where
  "parse_price_annotation U = node_of PriceAnnotNode (steps [take_token U, sub_node (parse_amount U)])"

definition same_line :: "parser \<Rightarrow> bool" where
  "same_line p \<longleftrightarrow> \<not> is_at_next_line p"

definition rest_of_line :: "unicode \<Rightarrow> production" where
  "rest_of_line U = loop (\<lambda>_ p. peek p \<noteq> EOF \<and> same_line p) (take_token U)"

definition parse_balance_amount :: "unicode \<Rightarrow> parser \<Rightarrow> node \<times> parser" where
  "parse_balance_amount U = node_of BalanceAmountNode (steps
     [sub_node (parse_expr U),
      only_if (\<lambda>p. peek p = TILDE \<and> same_line p) (steps [take_token U, sub_node (parse_expr U)]),
      expect_token U CURRENCY,
      only_if (\<lambda>p. same_line p \<and> peek p \<noteq> EOF) (steps
        [failing (\<lambda>p. ''unexpected token '' @ token_kind_name (peek p) @ '' after balance amount''),
         rest_of_line U])])"

section \<open>Cost specifications\<close>

definition amount_start :: "parser \<Rightarrow> bool" where
  "amount_start = at [NUMBER, MINUS, PLUS, LPAREN]"

definition unexpected_cost :: "parser \<Rightarrow> string" where
  "unexpected_cost p = ''expected amount, date, or label in cost spec, got '' @ token_kind_name (peek p)"

definition parse_cost_element :: "unicode \<Rightarrow> production" where
  "parse_cost_element U p =
     (if amount_start p then sub_node (parse_amount U) p
      else if at [DATE, STRING] p then take_token U p
      else steps [failing unexpected_cost, take_token U] p)"

text \<open>The total side after \<open>#\<close>.\<close>

definition parse_cost_total :: "unicode \<Rightarrow> production" where
  "parse_cost_total U p =
     (if \<not> amount_start p then
        steps [failing (\<lambda>p. ''expected total amount after '' @ [CHR 0x27] @ ''#'' @ [CHR 0x27] @
                 '' in cost spec, got '' @ token_kind_name (peek p)),
               only_if (\<lambda>p. \<not> at [RBRACE, RBRACE2, EOF] p) (take_token U)] p
      else sub_node (parse_amount U) p)"

definition parse_cost_amount :: "unicode \<Rightarrow> bool \<Rightarrow> production" where
  "parse_cost_amount U is_total p =
     (case parse_amount_optional_currency U p of (amt, p1) \<Rightarrow>
        steps [\<lambda>p. ([CNode amt], p),
          if peek p1 = HASH then steps
            [only_if (\<lambda>_. find_token amt CURRENCY \<noteq> None)
               (failing (\<lambda>_. ''per-unit amount in combined cost form must not carry a currency'')),
             only_if (\<lambda>_. is_total) (failing (\<lambda>_. [CHR 0x27] @ ''#'' @ [CHR 0x27] @
               '' separator is not allowed inside total-cost braces {{...}}'')),
             take_token U,
             parse_cost_total U]
          else only_if (\<lambda>_. find_token amt CURRENCY = None)
            (failing (\<lambda>p. ''expected currency after amount in cost spec, got '' @ token_kind_name (peek p)))] p1)"

definition parse_cost_first :: "unicode \<Rightarrow> bool \<Rightarrow> production" where
  "parse_cost_first U is_total p =
     (if amount_start p then parse_cost_amount U is_total p
      else if at [CURRENCY, DATE, STRING] p then take_token U p
      else steps [failing unexpected_cost, take_token U] p)"

definition parse_cost_contents :: "unicode \<Rightarrow> bool \<Rightarrow> production" where
  "parse_cost_contents U is_total =
     only_if (\<lambda>p. \<not> at [RBRACE, RBRACE2] p) (steps
       [parse_cost_first U is_total,
        loop (\<lambda>_ p. peek p = COMMA) (steps [take_token U, parse_cost_element U])])"

definition parse_cost_spec :: "unicode \<Rightarrow> parser \<Rightarrow> node \<times> parser" where
  "parse_cost_spec U p = node_of CostSpecNode
     (if peek p = LBRACE2 then steps [take_token U, parse_cost_contents U True, expect_token U RBRACE2]
      else steps [take_token U, parse_cost_contents U False, expect_token U RBRACE]) p"

section \<open>Metadata, tags, links\<close>

definition parse_meta_value :: "unicode \<Rightarrow> production" where
  "parse_meta_value U p =
     (if at [STRING, NUMBER, DATE, ACCOUNT, CURRENCY, TAG, LINK, IDENT] p then take_token U p
      else failing (\<lambda>p. ''expected metadata value, got '' @ token_kind_name (peek p)) p)"

definition try_parse_metadata_line :: "unicode \<Rightarrow> parser \<Rightarrow> node \<times> parser" where
  "try_parse_metadata_line U p =
     (case advance U p of (key, p1) \<Rightarrow>
        node_of MetadataLineNode (steps [given key,
          (\<lambda>p. if peek p \<noteq> COLON
            then failing (\<lambda>_. ''expected '' @ [CHR 0x27] @ '':'' @ [CHR 0x27] @ '' after metadata key '' @
                   go_quote (tok_raw key)) p
            else steps [take_token U,
              only_if (\<lambda>p. same_line p \<and> peek p \<noteq> EOF) (parse_meta_value U)] p)]) p1)"

definition parse_metadata :: "unicode \<Rightarrow> production" where
  "parse_metadata U =
     loop (\<lambda>_ p. is_at_next_line p \<and> is_indented p \<and> peek p = IDENT)
       (sub_node (try_parse_metadata_line U))"

definition parse_trailing_tags_links :: "unicode \<Rightarrow> production" where
  "parse_trailing_tags_links U = loop (\<lambda>_ p. same_line p \<and> at [TAG, LINK] p) (take_token U)"

section \<open>Postings\<close>

definition parse_posting :: "unicode \<Rightarrow> parser \<Rightarrow> node \<times> parser" where
  "parse_posting U = node_of PostingNode (steps
     [only_if (at [STAR, BANG]) (take_token U),
      expect_token U ACCOUNT,
      only_if (\<lambda>p. same_line p \<and> amount_start p) (steps
        [sub_node (parse_amount U),
         only_if (\<lambda>p. same_line p \<and> at [LBRACE, LBRACE2] p) (sub_node (parse_cost_spec U)),
         only_if (\<lambda>p. same_line p \<and> at [AT, ATAT] p) (sub_node (parse_price_annotation U))])])"

text \<open>The posting that the next metadata line belongs to is kept apart, as it still grows; it is
  the last child of the transaction.\<close>

definition flush :: "node option \<Rightarrow> child list" where
  "flush posting = (case posting of None \<Rightarrow> [] | Some n \<Rightarrow> [CNode n])"

definition posting_line :: "unicode \<Rightarrow> child list \<times> node option \<times> parser \<Rightarrow> child list \<times> node option \<times> parser" where
  "posting_line U st =
     (case st of (cs, posting, p) \<Rightarrow>
        if at [ACCOUNT, STAR, BANG] p then
          case parse_posting U p of (n, p1) \<Rightarrow> (cs @ flush posting, Some n, p1)
        else
          case try_parse_metadata_line U p of (m, p1) \<Rightarrow>
          case posting of
            Some n \<Rightarrow> (cs, Some (add_node n m), p1)
          | None \<Rightarrow> (cs @ [CNode m], None, p1))"

definition parse_postings_and_metadata :: "unicode \<Rightarrow> production" where
  "parse_postings_and_metadata U p =
     (case while (\<lambda>(cs, posting, p). is_at_next_line p \<and> is_indented p \<and> peek p \<noteq> EOF \<and>
             at [ACCOUNT, STAR, BANG, IDENT] p) (posting_line U) ([], None, p) of
        (cs, posting, p1) \<Rightarrow> (cs @ flush posting, p1))"

section \<open>Directives\<close>

definition parse_option :: "unicode \<Rightarrow> parser \<Rightarrow> node \<times> parser" where
  "parse_option U = node_of OptionDirective (steps
     [take_token U, expect_token U STRING, expect_token U STRING, parse_metadata U])"

definition parse_plugin :: "unicode \<Rightarrow> parser \<Rightarrow> node \<times> parser" where
  "parse_plugin U = node_of PluginDirective (steps
     [take_token U, expect_token U STRING,
      only_if (\<lambda>p. peek p = STRING \<and> same_line p) (take_token U), parse_metadata U])"

definition parse_include :: "unicode \<Rightarrow> parser \<Rightarrow> node \<times> parser" where
  "parse_include U = node_of IncludeDirective (steps [take_token U, expect_token U STRING, parse_metadata U])"

definition parse_pushtag :: "unicode \<Rightarrow> parser \<Rightarrow> node \<times> parser" where
  "parse_pushtag U = node_of PushtagDirective (steps [take_token U, expect_token U TAG])"

definition parse_poptag :: "unicode \<Rightarrow> parser \<Rightarrow> node \<times> parser" where
  "parse_poptag U = node_of PoptagDirective (steps [take_token U, expect_token U TAG])"

definition parse_transaction :: "unicode \<Rightarrow> token \<Rightarrow> parser \<Rightarrow> node \<times> parser" where
  "parse_transaction U date = node_of TransactionDirective (steps
     [given date, take_token U,
      only_if (\<lambda>p. peek p = STRING \<and> same_line p) (steps
        [take_token U, only_if (\<lambda>p. peek p = STRING \<and> same_line p) (take_token U)]),
      parse_trailing_tags_links U,
      parse_postings_and_metadata U])"

definition parse_dated_unrecognized :: "unicode \<Rightarrow> token \<Rightarrow> parser \<Rightarrow> node \<times> parser" where
  "parse_dated_unrecognized U date = node_of UnrecognizedLineNode (steps [given date, rest_of_line U])"

definition parse_open :: "unicode \<Rightarrow> token \<Rightarrow> parser \<Rightarrow> node \<times> parser" where
  "parse_open U date = node_of OpenDirective (steps
     [given date, take_token U, expect_token U ACCOUNT,
      only_if (\<lambda>p. peek p = CURRENCY \<and> same_line p) (steps
        [take_token U,
         loop (\<lambda>_ p. peek p = COMMA \<and> same_line p) (steps [take_token U, expect_token U CURRENCY])]),
      only_if (\<lambda>p. peek p = STRING \<and> same_line p) (take_token U),
      parse_metadata U])"

definition parse_balance :: "unicode \<Rightarrow> token \<Rightarrow> parser \<Rightarrow> node \<times> parser" where
  "parse_balance U date = node_of BalanceDirective (steps
     [given date, take_token U, expect_token U ACCOUNT, sub_node (parse_balance_amount U), parse_metadata U])"

definition parse_pad :: "unicode \<Rightarrow> token \<Rightarrow> parser \<Rightarrow> node \<times> parser" where
  "parse_pad U date = node_of PadDirective (steps
     [given date, take_token U, expect_token U ACCOUNT, expect_token U ACCOUNT, parse_metadata U])"

definition parse_close :: "unicode \<Rightarrow> token \<Rightarrow> parser \<Rightarrow> node \<times> parser" where
  "parse_close U date = node_of CloseDirective (steps
     [given date, take_token U, expect_token U ACCOUNT, parse_metadata U])"

definition parse_commodity :: "unicode \<Rightarrow> token \<Rightarrow> parser \<Rightarrow> node \<times> parser" where
  "parse_commodity U date = node_of CommodityDirective (steps
     [given date, take_token U, expect_token U CURRENCY, parse_metadata U])"

definition parse_note :: "unicode \<Rightarrow> token \<Rightarrow> parser \<Rightarrow> node \<times> parser" where
  "parse_note U date = node_of NoteDirective (steps
     [given date, take_token U, expect_token U ACCOUNT, expect_token U STRING,
      parse_trailing_tags_links U, parse_metadata U])"

definition parse_document :: "unicode \<Rightarrow> token \<Rightarrow> parser \<Rightarrow> node \<times> parser" where
  "parse_document U date = node_of DocumentDirective (steps
     [given date, take_token U, expect_token U ACCOUNT, expect_token U STRING,
      parse_trailing_tags_links U, parse_metadata U])"

definition parse_event :: "unicode \<Rightarrow> token \<Rightarrow> parser \<Rightarrow> node \<times> parser" where
  "parse_event U date = node_of EventDirective (steps
     [given date, take_token U, expect_token U STRING, expect_token U STRING, parse_metadata U])"

definition parse_query :: "unicode \<Rightarrow> token \<Rightarrow> parser \<Rightarrow> node \<times> parser" where
  "parse_query U date = node_of QueryDirective (steps
     [given date, take_token U, expect_token U STRING, expect_token U STRING, parse_metadata U])"

definition parse_price :: "unicode \<Rightarrow> token \<Rightarrow> parser \<Rightarrow> node \<times> parser" where
  "parse_price U date = node_of PriceDirective (steps
     [given date, take_token U, expect_token U CURRENCY, sub_node (parse_amount U), parse_metadata U])"

definition custom_value_start :: "parser \<Rightarrow> bool" where
  "custom_value_start = at [STRING, DATE, ACCOUNT, CURRENCY, IDENT]"

definition parse_custom :: "unicode \<Rightarrow> token \<Rightarrow> parser \<Rightarrow> node \<times> parser" where
  "parse_custom U date = node_of CustomDirective (steps
     [given date, take_token U, expect_token U STRING,
      loop (\<lambda>_ p. same_line p \<and> peek p \<noteq> EOF \<and> (custom_value_start p \<or> amount_start p))
        (\<lambda>p. if custom_value_start p then take_token U p else sub_node (parse_amount U) p),
      parse_metadata U])"

definition parse_dated_directive :: "unicode \<Rightarrow> parser \<Rightarrow> node \<times> parser" where
  "parse_dated_directive U p =
     (case advance U p of (date, p) \<Rightarrow>
      let kw = tok_raw (prs_tok p) in
      if at [STAR, BANG] p then parse_transaction U date p
      else if peek p \<noteq> IDENT then parse_dated_unrecognized U date p
      else if kw = ''txn'' then parse_transaction U date p
      else if kw = ''open'' then parse_open U date p
      else if kw = ''balance'' then parse_balance U date p
      else if kw = ''pad'' then parse_pad U date p
      else if kw = ''close'' then parse_close U date p
      else if kw = ''commodity'' then parse_commodity U date p
      else if kw = ''note'' then parse_note U date p
      else if kw = ''document'' then parse_document U date p
      else if kw = ''event'' then parse_event U date p
      else if kw = ''query'' then parse_query U date p
      else if kw = ''price'' then parse_price U date p
      else if kw = ''custom'' then parse_custom U date p
      else parse_dated_unrecognized U date p)"

definition parse_unrecognized_line :: "unicode \<Rightarrow> parser \<Rightarrow> node \<times> parser" where
  "parse_unrecognized_line U = node_of UnrecognizedLineNode
     (loop (\<lambda>cs p. peek p \<noteq> EOF \<and> \<not> (is_at_line_start p \<and> cs \<noteq> [])) (take_token U))"

definition parse_top_level :: "unicode \<Rightarrow> parser \<Rightarrow> node \<times> parser" where
  "parse_top_level U p =
     (let kw = tok_raw (prs_tok p) in
      if peek p = DATE then parse_dated_directive U p
      else if peek p = IDENT then
        if kw = ''option'' then parse_option U p
        else if kw = ''plugin'' then parse_plugin U p
        else if kw = ''include'' then parse_include U p
        else if kw = ''pushtag'' then parse_pushtag U p
        else if kw = ''poptag'' then parse_poptag U p
        else parse_unrecognized_line U p
      else parse_unrecognized_line U p)"

definition parse_file :: "unicode \<Rightarrow> parser \<Rightarrow> syntax_file" where
  "parse_file U p =
     (case steps [loop (\<lambda>_ p. peek p \<noteq> EOF) (sub_node (parse_top_level U)), take_token U] p of
        (cs, p1) \<Rightarrow> \<lparr>sf_root = Some (Node FileNode cs), sf_errors = prs_errors p1\<rparr>)"

definition parse :: "unicode \<Rightarrow> string \<Rightarrow> syntax_file" where
  "parse U src = (case advance U (new_parser src) of (_, p) \<Rightarrow> parse_file U p)"

definition parse_standalone :: "unicode \<Rightarrow> string \<Rightarrow> (parser \<Rightarrow> node \<times> parser) \<Rightarrow> node \<times> syntax_error list" where
  "parse_standalone U src production =
     (case advance U (new_parser src) of (_, p) \<Rightarrow>
      case production p of (n, p1) \<Rightarrow>
      case only_if (\<lambda>p. peek p \<noteq> EOF) (steps
          [failing (\<lambda>_. ''unexpected trailing input''), loop (\<lambda>_ p. peek p \<noteq> EOF) (take_token U)]) p1 of
        (cs, p2) \<Rightarrow> (Node (nd_kind n) (nd_children n @ cs), prs_errors p2))"

definition parse_balance_amount_text :: "unicode \<Rightarrow> string \<Rightarrow> node \<times> syntax_error list" where
  "parse_balance_amount_text U src = parse_standalone U src (parse_balance_amount U)"

definition parse_amount_expression :: "unicode \<Rightarrow> string \<Rightarrow> node \<times> syntax_error list" where
  "parse_amount_expression U src = parse_standalone U src (parse_amount U)"

end
