(* ===== verification/Parser_Runs.thy ===== *)
theory Parser_Runs
  imports Parser
begin

text \<open>
  The parser as a transition system: whatever a production does, it takes tokens in the order of the
  scanner, records errors and makes up empty tokens. \<open>run\<close> is the relation of these steps, every
  production is shown to follow it, and facts on all of the parser are rule inductions on \<open>run\<close>.
\<close>

inductive run :: "unicode \<Rightarrow> parser \<Rightarrow> token list \<Rightarrow> parser \<Rightarrow> bool" for U where
  stop: "run U p [] p"
| take_step: "run U (snd (advance U p)) ts q \<Longrightarrow> run U p (prs_tok p # ts) q"
| error_step: "run U (errorf msg p) ts q \<Longrightarrow> run U p ts q"
| synthetic: "run U p ts q \<Longrightarrow> run U p (mk_token ILLEGAL (tok_pos (prs_tok p)) [] # ts) q"

lemma run_append: "run U p ts q \<Longrightarrow> run U q us r \<Longrightarrow> run U p (ts @ us) r"
  by (induction rule: run.induct) (auto intro: run.intros)

definition tokens_of :: "child list \<Rightarrow> token list" where
  "tokens_of cs = concat (map child_tokens cs)"

lemma tokens_of_simps [simp]:
  "tokens_of [] = []" "tokens_of (CToken t # cs) = t # tokens_of cs"
  "tokens_of (CNode n # cs) = node_tokens n @ tokens_of cs"
  "tokens_of (cs @ ds) = tokens_of cs @ tokens_of ds"
  by (simp_all add: tokens_of_def)

lemma node_tokens_Node [simp]: "node_tokens (Node k cs) = tokens_of cs"
  by (simp add: tokens_of_def)

lemma node_tokens_add_node: "node_tokens (add_node n m) = node_tokens n @ node_tokens m"
  by (cases n) (simp add: add_node_def tokens_of_def)

declare node_tokens.simps [simp del]

text \<open>Productions of children and productions of nodes that follow the relation.\<close>

definition runs :: "unicode \<Rightarrow> production \<Rightarrow> bool" where
  "runs U f \<longleftrightarrow> (\<forall>p. run U p (tokens_of (fst (f p))) (snd (f p)))"

definition node_runs :: "unicode \<Rightarrow> (parser \<Rightarrow> node \<times> parser) \<Rightarrow> bool" where
  "node_runs U f \<longleftrightarrow> (\<forall>p. run U p (node_tokens (fst (f p))) (snd (f p)))"

named_theorems run_intros \<open>the productions follow the relation\<close>

lemma run_advance: "run U p [fst (advance U p)] (snd (advance U p))"
proof -
  have "fst (advance U p) = prs_tok p" by (simp add: advance_def case_prod_beta)
  then show ?thesis using run.take_step [OF run.stop, of U p] by simp
qed

lemma run_error: "run U p [] (errorf msg p)"
  by (rule run.error_step [OF run.stop])

lemma run_expect: "run U p [fst (expect U k p)] (snd (expect U k p))"
  using run_append [OF run.synthetic [OF run.stop] run_error]
  by (simp add: expect_def run_advance)

lemma runs_take [run_intros]: "runs U (take_token U)"
  using run_advance by (simp add: runs_def take_token_def case_prod_beta)

lemma runs_expect [run_intros]: "runs U (expect_token U k)"
  using run_expect by (simp add: runs_def expect_token_def case_prod_beta)

lemma runs_failing [run_intros]: "runs U (failing msg)"
  by (simp add: runs_def failing_def run_error)

lemma runs_only_if [run_intros]: "runs U f \<Longrightarrow> runs U (only_if c f)"
  by (simp add: runs_def only_if_def run.stop)

lemma runs_sub_node [run_intros]: "node_runs U f \<Longrightarrow> runs U (sub_node f)"
  by (simp add: runs_def node_runs_def sub_node_def case_prod_beta)

lemma node_runs_node_of [run_intros]: "runs U f \<Longrightarrow> node_runs U (node_of k f)"
  by (simp add: runs_def node_runs_def node_of_def case_prod_beta)

lemma runs_Nil [run_intros]: "runs U (steps [])"
  by (simp add: runs_def run.stop)

lemma runs_Cons [run_intros]: "runs U f \<Longrightarrow> runs U (steps fs) \<Longrightarrow> runs U (steps (f # fs))"
  by (auto simp: runs_def split: prod.split) (metis fst_conv run_append snd_conv)

lemma runs_if [run_intros]: "runs U f \<Longrightarrow> runs U g \<Longrightarrow> runs U (\<lambda>p. if c p then f p else g p)"
  by (simp add: runs_def)

lemma runs_loop:
  assumes "runs U f" and "strict f" and "\<And>cs q. c cs q \<Longrightarrow> peek q \<noteq> EOF"
  shows "runs U (loop c f)"
  unfolding runs_def
proof
  fix p
  have "run U p (tokens_of (cs @ fst (f q))) (snd (f q))" if "run U p (tokens_of cs) q" for cs q
    using run_append [OF that] assms(1) by (simp add: runs_def)
  then show "run U p (tokens_of (fst (loop c f p))) (snd (loop c f p))"
    using loop_invariant [of f c "\<lambda>cs q. run U p (tokens_of cs) q" p, OF assms(2,3)]
    by (simp add: run.stop)
qed

section \<open>Expressions\<close>

lemma expr_runs:
  "run U p (node_tokens (fst (parse_expr U p))) (snd (parse_expr U p))"
  "\<exists>ts. node_tokens (fst (expr_loop U l p)) = node_tokens l @ ts \<and> run U p ts (snd (expr_loop U l p))"
  "run U p (node_tokens (fst (parse_term U p))) (snd (parse_term U p))"
  "\<exists>ts. node_tokens (fst (term_loop U l p)) = node_tokens l @ ts \<and> run U p ts (snd (term_loop U l p))"
  "run U p (node_tokens (fst (parse_factor U p))) (snd (parse_factor U p))"
proof (induction U p and U l p and U p and U l p and U p
    rule: parse_expr_expr_loop_parse_term_term_loop_parse_factor.induct)
  case (1 U p)
  obtain l q where t: "parse_term U p = (l, q)" by fastforce
  with 1 show ?case by (auto simp: parse_expr.simps [of U p] intro: run_append)
next
  case (2 U l p)
  show ?case
  proof (cases "at [PLUS, MINUS] p")
    case True
    obtain op p1 where a: "advance U p = (op, p1)" by fastforce
    obtain r p2 where t: "parse_term U p1 = (r, p2)" by fastforce
    have "run U p [op] p1" using run_advance [of U p] a by simp
    moreover have "run U p1 (node_tokens r) p2" using 2(1) [OF True a [symmetric]] t by simp
    ultimately have "run U p (op # node_tokens r) p2" using run_append by fastforce
    with 2(2) [OF True a [symmetric] t [symmetric]] show ?thesis
      by (auto simp: expr_loop.simps [of U l p] True a t intro: run_append)
        (metis Cons_eq_appendI run_append)
  qed (auto simp: expr_loop.simps [of U l p] intro: run.stop)
next
  case (3 U p)
  obtain l q where t: "parse_factor U p = (l, q)" by fastforce
  with 3 show ?case by (auto simp: parse_term.simps [of U p] intro: run_append)
next
  case (4 U l p)
  show ?case
  proof (cases "at [STAR, SLASH] p")
    case True
    obtain op p1 where a: "advance U p = (op, p1)" by fastforce
    obtain r p2 where t: "parse_factor U p1 = (r, p2)" by fastforce
    have "run U p [op] p1" using run_advance [of U p] a by simp
    moreover have "run U p1 (node_tokens r) p2" using 4(1) [OF True a [symmetric]] t by simp
    ultimately have "run U p (op # node_tokens r) p2" using run_append by fastforce
    with 4(2) [OF True a [symmetric] t [symmetric]] show ?thesis
      by (auto simp: term_loop.simps [of U l p] True a t intro: run_append)
        (metis Cons_eq_appendI run_append)
  qed (auto simp: term_loop.simps [of U l p] intro: run.stop)
next
  case (5 U p)
  obtain op p1 where a: "advance U p = (op, p1)" by fastforce
  obtain r p2 where t: "parse_factor U p1 = (r, p2)" by fastforce
  obtain i p3 where e: "parse_expr U p1 = (i, p3)" by fastforce
  obtain rp p4 where x: "expect U RPAREN p3 = (rp, p4)" by fastforce
  have op: "run U p [op] p1" using run_advance [of U p] a by simp
  have rp: "run U p3 [rp] p4" using run_expect [of U p3 RPAREN] x by simp
  have err: "run U p [fst (advance U (errorf msg p))] (snd (advance U (errorf msg p)))" for msg
    using run.error_step [OF run_advance] by blast
  show ?case
    using 5 a t e x op run_append [OF op, of "node_tokens r" p2] err
      run_append [OF op run_append [OF _ rp], of "node_tokens i"]
    by (auto simp: parse_factor.simps [of U p] case_prod_beta)
qed

lemma node_runs_expr [run_intros]: "node_runs U (parse_expr U)"
  by (simp add: node_runs_def expr_runs)

section \<open>Reading on\<close>

named_theorems onward_intros \<open>the productions do not go back\<close>
named_theorems strict_intros \<open>the productions that read a token if there is one\<close>

lemma strict_first [strict_intros]:
  "strict f \<Longrightarrow> onward (steps fs) \<Longrightarrow> strict (steps (f # fs))"
  unfolding strict_def onward_def
  by (auto split: prod.split) (metis order_trans snd_conv, metis le_less_trans snd_conv)

lemma onward_more [onward_intros]: "onward f \<Longrightarrow> onward (steps fs) \<Longrightarrow> onward (steps (f # fs))"
  unfolding onward_def by (auto split: prod.split) (metis order_trans snd_conv)

lemma onward_done [onward_intros]: "onward (steps [])"
  by (simp add: onward_def)

lemma onward_if [onward_intros]: "onward f \<Longrightarrow> onward g \<Longrightarrow> onward (\<lambda>p. if c p then f p else g p)"
  by (simp add: onward_def)

lemma strict_if [strict_intros]: "strict f \<Longrightarrow> strict g \<Longrightarrow> strict (\<lambda>p. if c p then f p else g p)"
  by (simp add: onward_def strict_def)

lemma strict_taking [strict_intros]:
  "(\<And>t. onward (f t)) \<Longrightarrow> strict (\<lambda>p. case advance U p of (t, q) \<Rightarrow> f t q)"
  unfolding strict_def onward_def
  by (auto split: prod.split)
    (metis advance_result(1) order_trans, metis advance_result(2) le_less_trans)

lemmas [onward_intros] = onward_basic(1-4) onward_only_if onward_wrap(1,3) [THEN iffD2]
lemmas [strict_intros] = onward_basic(5,6) onward_wrap(2,4) [THEN iffD2]

lemma onward_expr [onward_intros]: "onward (parse_expr U)"
  by (simp add: strict_onward)

lemma onward_rest_of_line [onward_intros]: "onward (rest_of_line U)"
  unfolding rest_of_line_def by (rule onward_loop) simp_all

lemma strict_amounts [strict_intros]:
  "strict (parse_amount U)" "strict (parse_amount_optional_currency U)"
  "strict (parse_price_annotation U)" "strict (parse_balance_amount U)"
  unfolding parse_amount_def parse_amount_optional_currency_def parse_price_annotation_def
    parse_balance_amount_def
  by (intro strict_intros onward_intros | simp add: parse_amount_def)+

lemmas onward_amounts [onward_intros] = strict_amounts [THEN strict_onward]

lemma onward_cost_element [onward_intros]: "onward (parse_cost_element U)"
  unfolding parse_cost_element_def by (intro onward_intros)

lemma onward_parse_meta_value [onward_intros]: "onward (parse_meta_value U)"
  unfolding parse_meta_value_def by (intro onward_intros)

lemma strict_metadata_line [strict_intros]: "strict (try_parse_metadata_line U)"
  unfolding try_parse_metadata_line_def by (intro strict_intros onward_intros)

lemma onward_parse_metadata [onward_intros]: "onward (parse_metadata U)"
  unfolding parse_metadata_def by (rule onward_loop) (auto intro: strict_intros)

lemma onward_tags_links [onward_intros]: "onward (parse_trailing_tags_links U)"
  unfolding parse_trailing_tags_links_def by (rule onward_loop) (auto simp: at_def)

section \<open>The productions follow the relation\<close>

lemma runs_rest_of_line [run_intros]: "runs U (rest_of_line U)"
  unfolding rest_of_line_def by (intro runs_loop) (auto intro: run_intros)

lemma runs_amounts [run_intros]:
  "node_runs U (parse_amount U)" "node_runs U (parse_amount_optional_currency U)"
  "node_runs U (parse_balance_amount U)"
  unfolding parse_amount_def parse_amount_optional_currency_def parse_balance_amount_def
  by (intro run_intros)+

lemma runs_price_annotation [run_intros]: "node_runs U (parse_price_annotation U)"
  unfolding parse_price_annotation_def by (intro run_intros)

text \<open>A node that starts with what was just parsed.\<close>

lemma runs_after_node [run_intros]:
  assumes "node_runs U g" and "\<And>n q. runs U (steps (fs n q))"
  shows "runs U (\<lambda>p. case g p of (n, q) \<Rightarrow> steps ((\<lambda>p. ([CNode n], p)) # fs n q) q)"
  using assms unfolding runs_def node_runs_def
  by (auto split: prod.split) (metis fst_conv run_append snd_conv)

definition dated :: "unicode \<Rightarrow> token \<Rightarrow> (parser \<Rightarrow> node \<times> parser) \<Rightarrow> bool" where
  "dated U t f \<longleftrightarrow>
     (\<forall>q. \<exists>ts. node_tokens (fst (f q)) = t # ts \<and> run U q ts (snd (f q)))"

lemma dated_node_of [run_intros]:
  "runs U (steps fs) \<Longrightarrow> dated U t (node_of k (steps (given t # fs)))"
  by (simp add: dated_def runs_def node_of_def given_def case_prod_beta)

lemma dated_if [run_intros]: "dated U t f \<Longrightarrow> dated U t g \<Longrightarrow> dated U t (\<lambda>q. if c q then f q else g q)"
  by (simp add: dated_def)

lemma node_runs_taking [run_intros]:
  assumes "\<And>t. dated U t (f t)"
  shows "node_runs U (\<lambda>p. case advance U p of (t, q) \<Rightarrow> f t q)"
  unfolding node_runs_def
proof
  fix p
  obtain t q where a: "advance U p = (t, q)" by fastforce
  obtain ts where "node_tokens (fst (f t q)) = t # ts" "run U q ts (snd (f t q))"
    using assms by (auto simp: dated_def)
  moreover have "run U p [t] q" using run_advance [of U p] a by simp
  ultimately show "run U p (node_tokens (fst (case advance U p of (t, q) \<Rightarrow> f t q)))
      (snd (case advance U p of (t, q) \<Rightarrow> f t q))"
    using run_append a by fastforce
qed

lemma node_runs_if [run_intros]:
  "node_runs U f \<Longrightarrow> node_runs U g \<Longrightarrow> node_runs U (\<lambda>p. if c p then f p else g p)"
  by (simp add: node_runs_def)

lemma runs_choice [run_intros]: "runs U f \<Longrightarrow> runs U g \<Longrightarrow> runs U (if b then f else g)"
  by simp

lemma runs_cost [run_intros]:
  "runs U (parse_cost_element U)" "runs U (parse_cost_total U)"
  unfolding parse_cost_element_def parse_cost_total_def by (intro run_intros)+

lemma runs_cost_amount [run_intros]: "runs U (parse_cost_amount U is_total)"
  unfolding parse_cost_amount_def by (intro run_intros)

lemma runs_cost_first [run_intros]: "runs U (parse_cost_first U is_total)"
  unfolding parse_cost_first_def by (intro run_intros)

lemma runs_cost_more [run_intros]:
  "runs U (loop (\<lambda>_ p. peek p = COMMA) (steps [take_token U, parse_cost_element U]))"
  by (rule runs_loop) (intro run_intros strict_intros onward_intros | simp)+

lemma runs_cost_contents [run_intros]: "runs U (parse_cost_contents U is_total)"
  unfolding parse_cost_contents_def by (intro run_intros)

lemma node_runs_branch [run_intros]:
  "runs U f \<Longrightarrow> runs U g \<Longrightarrow> node_runs U (\<lambda>p. node_of k (if c p then f else g) p)"
  by (simp add: node_runs_def node_of_def runs_def case_prod_beta)

lemma runs_cost_spec [run_intros]: "node_runs U (parse_cost_spec U)"
  unfolding parse_cost_spec_def by (intro run_intros)

lemma runs_meta_value [run_intros]: "runs U (parse_meta_value U)"
  unfolding parse_meta_value_def by (intro run_intros)

lemma runs_metadata_line [run_intros]: "node_runs U (try_parse_metadata_line U)"
  unfolding try_parse_metadata_line_def by (intro run_intros)

lemma runs_metadata [run_intros]: "runs U (parse_metadata U)"
  unfolding parse_metadata_def by (rule runs_loop) (auto intro: run_intros strict_intros)

lemma runs_tags_links [run_intros]: "runs U (parse_trailing_tags_links U)"
  unfolding parse_trailing_tags_links_def by (rule runs_loop) (auto intro: run_intros simp: at_def)

lemma runs_posting [run_intros]: "node_runs U (parse_posting U)"
  unfolding parse_posting_def by (intro run_intros)

text \<open>The loop over postings, with the posting that still grows.\<close>

lemma node_tokens_flush: "tokens_of (flush (Some n)) = node_tokens n" "tokens_of (flush None) = []"
  by (simp_all add: flush_def)

lemma posting_line_runs:
  assumes "run U p (tokens_of (cs @ flush n)) q" and "posting_line U (cs, n, q) = (cs', n', q')"
  shows "run U p (tokens_of (cs' @ flush n')) q'"
proof (cases "at [ACCOUNT, STAR, BANG] q")
  case True
  obtain m q1 where m: "parse_posting U q = (m, q1)" by fastforce
  moreover have "run U q (node_tokens m) q1"
    using runs_posting m by (auto simp: node_runs_def) (metis fst_conv snd_conv)
  ultimately show ?thesis
    using assms True run_append by (fastforce simp: posting_line_def node_tokens_flush)
next
  case False
  obtain m q1 where m: "try_parse_metadata_line U q = (m, q1)" by fastforce
  moreover have "run U q (node_tokens m) q1"
    using runs_metadata_line m by (auto simp: node_runs_def) (metis fst_conv snd_conv)
  ultimately show ?thesis
    using assms False run_append
    by (cases n) (fastforce simp: posting_line_def node_tokens_flush node_tokens_add_node)+
qed

lemma onward_cost [onward_intros]: "onward (parse_cost_total U)" "onward (parse_cost_first U is_total)"
proof -
  show "onward (parse_cost_total U)" unfolding parse_cost_total_def by (intro onward_intros)
  note [onward_intros] = this
  have more: "onward (\<lambda>p. case g p of (n, q) \<Rightarrow> steps ((\<lambda>p. ([CNode n], p)) # fs n q) q)"
    if "onward g" "\<And>n q. onward (steps (fs n q))" for g fs
    using that unfolding onward_def by (auto split: prod.split) (metis order_trans snd_conv)
  have choice: "onward (if b then f else g)" if "onward f" "onward g" for b and f g :: production
    using that by simp
  have "onward (parse_cost_amount U is_total)"
    unfolding parse_cost_amount_def by (intro more onward_intros choice)
  then show "onward (parse_cost_first U is_total)"
    unfolding parse_cost_first_def by (intro onward_intros)
qed

lemma onward_cost_contents [onward_intros]: "onward (parse_cost_contents U is_total)"
proof -
  have "onward (loop (\<lambda>_ p. peek p = COMMA) (steps [take_token U, parse_cost_element U]))"
    by (rule onward_loop) (intro strict_intros onward_intros | simp)+
  then show ?thesis unfolding parse_cost_contents_def by (intro onward_intros)
qed

lemma onward_cost_spec [onward_intros]: "onward (parse_cost_spec U)"
proof -
  have branch: "onward (\<lambda>p. node_of k (if c p then f else g) p)" if "onward f" "onward g" for k c and f g :: production
    using that by (simp add: onward_def node_of_def case_prod_beta)
  show ?thesis unfolding parse_cost_spec_def by (intro branch onward_intros)
qed

lemma posting_strict:
  assumes "at [ACCOUNT, STAR, BANG] p"
  shows "left_over (snd (parse_posting U p)) < left_over p"
proof -
  define rest where "rest = [only_if (\<lambda>p. same_line p \<and> amount_start p) (steps
        [sub_node (parse_amount U),
         only_if (\<lambda>p. same_line p \<and> at [LBRACE, LBRACE2] p) (sub_node (parse_cost_spec U)),
         only_if (\<lambda>p. same_line p \<and> at [AT, ATAT] p) (sub_node (parse_price_annotation U))])]"
  have rest: "onward (steps rest)"
    unfolding rest_def by (intro onward_intros)
  then have acct: "onward (steps (expect_token U ACCOUNT # rest))" by (intro onward_intros)
  have eof: "peek p \<noteq> EOF" using assms by (auto simp: at_def)
  have eq: "parse_posting U p =
      node_of PostingNode (steps (only_if (at [STAR, BANG]) (take_token U) # expect_token U ACCOUNT # rest)) p"
    by (simp only: parse_posting_def rest_def)
  show ?thesis
  proof (cases "at [STAR, BANG] p")
    case True
    have "strict (steps (take_token U # expect_token U ACCOUNT # rest))"
      using acct by (intro strict_intros)
    with True eof show ?thesis
      by (simp add: eq node_of_def only_if_def strict_def case_prod_beta)
  next
    case False
    with assms have "peek p = ACCOUNT" by (auto simp: at_def)
    then have "expect_token U ACCOUNT p = take_token U p"
      by (simp add: expect_token_def expect_def take_token_def)
    moreover have "strict (steps (take_token U # rest))" using rest by (intro strict_intros)
    ultimately show ?thesis using False eof
      by (simp add: eq node_of_def only_if_def strict_def case_prod_beta)
  qed
qed

lemma posting_line_strict:
  assumes "at [ACCOUNT, STAR, BANG, IDENT] p" and "posting_line U (cs, n, p) = (cs', n', p')"
  shows "left_over p' < left_over p"
proof (cases "at [ACCOUNT, STAR, BANG] p")
  case True
  then show ?thesis
    using assms(2) posting_strict [OF True, of U] by (auto simp: posting_line_def split: prod.splits)
next
  case False
  then have "left_over (snd (try_parse_metadata_line U p)) < left_over p"
    using assms(1) strict_metadata_line by (auto simp: strict_def at_def)
  with False assms(2) show ?thesis
    by (auto simp: posting_line_def split: prod.splits option.splits)
qed

lemma postings_invariant:
  assumes "Inv [] None p"
    and "\<And>cs n q cs' n' q'. Inv cs n q \<Longrightarrow> at [ACCOUNT, STAR, BANG, IDENT] q \<Longrightarrow>
      posting_line U (cs, n, q) = (cs', n', q') \<Longrightarrow> Inv cs' n' q'"
  shows "\<exists>cs n. fst (parse_postings_and_metadata U p) = cs @ flush n \<and>
    Inv cs n (snd (parse_postings_and_metadata U p))"
proof -
  let ?c = "\<lambda>(cs, n, p). is_at_next_line p \<and> is_indented p \<and> peek p \<noteq> EOF \<and> at [ACCOUNT, STAR, BANG, IDENT] p"
  have "(\<lambda>(cs, n, q). Inv cs n q) (while ?c (posting_line U) ([], None, p))"
  proof (rule while_rule [where P = "\<lambda>(cs, n, q). Inv cs n q" and r = "measure (\<lambda>(cs, n, q). left_over q)"],
      goal_cases)
    case (2 s)
    then show ?case using assms(2) by (auto split: prod.splits)
  next
    case (5 s)
    then show ?case using posting_line_strict by (auto split: prod.splits)
  qed (use assms(1) in auto)
  then show ?thesis by (auto simp: parse_postings_and_metadata_def split: prod.splits)
qed

lemma runs_postings [run_intros]: "runs U (parse_postings_and_metadata U)"
  unfolding runs_def
proof
  fix p
  have "\<exists>cs n. fst (parse_postings_and_metadata U p) = cs @ flush n \<and>
      run U p (tokens_of (cs @ flush n)) (snd (parse_postings_and_metadata U p))"
  proof (rule postings_invariant [where Inv = "\<lambda>cs n q. run U p (tokens_of (cs @ flush n)) q"])
    show "run U p (tokens_of ([] @ flush None)) p" by (simp add: node_tokens_flush run.stop)
  qed (rule posting_line_runs)
  then show "run U p (tokens_of (fst (parse_postings_and_metadata U p))) (snd (parse_postings_and_metadata U p))"
    by metis
qed

lemma onward_postings [onward_intros]: "onward (parse_postings_and_metadata U)"
  unfolding onward_def
proof
  fix p
  have "\<exists>cs n. fst (parse_postings_and_metadata U p) = cs @ flush n \<and>
      left_over (snd (parse_postings_and_metadata U p)) \<le> left_over p"
    by (rule postings_invariant [where Inv = "\<lambda>_ _ q. left_over q \<le> left_over p"])
      (auto dest: posting_line_strict)
  then show "left_over (snd (parse_postings_and_metadata U p)) \<le> left_over p" by blast
qed

section \<open>Directives and files\<close>

lemmas directive_defs = parse_transaction_def parse_dated_unrecognized_def parse_open_def
  parse_balance_def parse_pad_def parse_close_def parse_commodity_def parse_note_def
  parse_document_def parse_event_def parse_query_def parse_price_def parse_custom_def

lemmas undated_defs = parse_option_def parse_plugin_def parse_include_def parse_pushtag_def parse_poptag_def

lemma currency_list [run_intros, onward_intros]:
  "runs U (loop (\<lambda>_ p. peek p = COMMA \<and> same_line p) (steps [take_token U, expect_token U CURRENCY]))"
  "onward (loop (\<lambda>_ p. peek p = COMMA \<and> same_line p) (steps [take_token U, expect_token U CURRENCY]))"
  by (rule runs_loop onward_loop, (intro run_intros strict_intros onward_intros | simp)+)+

lemma custom_values [run_intros, onward_intros]:
  "runs U (loop (\<lambda>_ p. same_line p \<and> peek p \<noteq> EOF \<and> (custom_value_start p \<or> amount_start p))
     (\<lambda>p. if custom_value_start p then take_token U p else sub_node (parse_amount U) p))"
  "onward (loop (\<lambda>_ p. same_line p \<and> peek p \<noteq> EOF \<and> (custom_value_start p \<or> amount_start p))
     (\<lambda>p. if custom_value_start p then take_token U p else sub_node (parse_amount U) p))"
  by (rule runs_loop onward_loop, (intro run_intros strict_intros onward_intros | simp)+)+

lemma dated_directives [run_intros]:
  "dated U t (parse_transaction U t)" "dated U t (parse_dated_unrecognized U t)"
  "dated U t (parse_open U t)" "dated U t (parse_balance U t)" "dated U t (parse_pad U t)"
  "dated U t (parse_close U t)" "dated U t (parse_commodity U t)" "dated U t (parse_note U t)"
  "dated U t (parse_document U t)" "dated U t (parse_event U t)" "dated U t (parse_query U t)"
  "dated U t (parse_price U t)" "dated U t (parse_custom U t)"
  unfolding directive_defs by (intro run_intros)+

lemma onward_directives [onward_intros]:
  "onward (parse_transaction U t)" "onward (parse_dated_unrecognized U t)"
  "onward (parse_open U t)" "onward (parse_balance U t)" "onward (parse_pad U t)"
  "onward (parse_close U t)" "onward (parse_commodity U t)" "onward (parse_note U t)"
  "onward (parse_document U t)" "onward (parse_event U t)" "onward (parse_query U t)"
  "onward (parse_price U t)" "onward (parse_custom U t)"
  unfolding directive_defs by (intro onward_intros)+

lemma undated_directives [run_intros]:
  "node_runs U (parse_option U)" "node_runs U (parse_plugin U)" "node_runs U (parse_include U)"
  "node_runs U (parse_pushtag U)" "node_runs U (parse_poptag U)"
  unfolding undated_defs by (intro run_intros)+

lemma undated_strict [strict_intros]:
  "strict (parse_option U)" "strict (parse_plugin U)" "strict (parse_include U)"
  "strict (parse_pushtag U)" "strict (parse_poptag U)"
  unfolding undated_defs by (intro strict_intros onward_intros)+

lemma dated_directive [run_intros, strict_intros]:
  "node_runs U (parse_dated_directive U)" "strict (parse_dated_directive U)"
  unfolding parse_dated_directive_def Let_def
  by (intro run_intros, intro strict_intros onward_intros)

lemma unrecognized_runs [run_intros]: "node_runs U (parse_unrecognized_line U)"
  unfolding parse_unrecognized_line_def
  by (intro node_runs_node_of runs_loop) (auto intro: run_intros)

lemma unrecognized_strict [strict_intros]: "strict (parse_unrecognized_line U)"
proof -
  let ?c = "\<lambda>cs p. peek p \<noteq> EOF \<and> \<not> (is_at_line_start p \<and> cs \<noteq> ([] :: child list))"
  have le: "onward (loop ?c (take_token U))" by (rule onward_loop) simp_all
  have "left_over (snd (loop ?c (take_token U) p)) < left_over p" if "peek p \<noteq> EOF" for p
  proof -
    have le: "left_over (snd (take_token U q)) \<le> left_over q" for q
      using onward_basic(2) by (simp add: onward_def)
    have lt: "left_over (snd (take_token U p)) < left_over p"
      using that onward_basic(5) by (simp add: strict_def)
    have "(\<lambda>cs q. (cs = [] \<and> q = p) \<or> left_over q < left_over p)
        (fst (loop ?c (take_token U) p)) (snd (loop ?c (take_token U) p)) \<and>
      \<not> ?c (fst (loop ?c (take_token U) p)) (snd (loop ?c (take_token U) p))"
      by (rule loop_invariant) (use lt le le_less_trans in auto)
    with that show ?thesis by auto
  qed
  with le show ?thesis
    by (simp add: parse_unrecognized_line_def strict_def onward_def node_of_def case_prod_beta)
qed

lemma top_level [run_intros, strict_intros]:
  "node_runs U (parse_top_level U)" "strict (parse_top_level U)"
  unfolding parse_top_level_def Let_def
  by (intro run_intros, intro strict_intros)

lemma file_loop [run_intros]:
  "runs U (loop (\<lambda>_ p. peek p \<noteq> EOF) (sub_node (parse_top_level U)))"
  by (rule runs_loop) (intro run_intros strict_intros | simp)+

text \<open>The first \<open>advance\<close> drops the token that a new parser holds in place of a token.\<close>

lemma advance_sels [simp]:
  "fst (advance U p) = prs_tok p" "prs_errors (snd (advance U p)) = prs_errors p"
  "prs_tok (snd (advance U p)) = fst (scan U (prs_scanner p))"
  "prs_scanner (snd (advance U p)) = snd (scan U (prs_scanner p))"
  by (simp_all add: advance_def case_prod_beta)

lemma errorf_sels [simp]:
  "prs_tok (errorf msg p) = prs_tok p" "prs_scanner (errorf msg p) = prs_scanner p"
  "prs_errors (errorf msg p) = prs_errors p @ [\<lparr>se_pos = tok_pos (prs_tok p), se_msg = msg\<rparr>]"
  by (simp_all add: errorf_def)

lemma parse_runs:
  obtains cs p where
    "parse U src = \<lparr>sf_root = Some (Node FileNode (cs @ [CToken (prs_tok p)])), sf_errors = prs_errors p\<rparr>"
    and "peek p = EOF" and "run U (snd (advance U (new_parser src))) (tokens_of cs) p"
proof -
  define p0 where "p0 = snd (advance U (new_parser src))"
  define top where "top = loop (\<lambda>_ p. peek p \<noteq> EOF) (sub_node (parse_top_level U))"
  obtain cs p where l: "top p0 = (cs, p)" by fastforce
  have "peek p = EOF"
    using loop_invariant [of "sub_node (parse_top_level U)" "\<lambda>_ p. peek p \<noteq> EOF" "\<lambda>_ _. True" p0] l
    by (auto simp: top_def intro: strict_intros)
  moreover have "run U p0 (tokens_of cs) p"
    using file_loop [of U] l unfolding runs_def top_def by (metis fst_conv snd_conv)
  moreover have "parse U src = \<lparr>sf_root = Some (Node FileNode (cs @ [CToken (prs_tok p)])), sf_errors = prs_errors p\<rparr>"
    using l by (simp add: parse_def parse_file_def p0_def [symmetric] case_prod_beta top_def take_token_def)
  ultimately show ?thesis using that by (simp add: p0_def)
qed

end
