(* ===== verification/Parser_Facts.thy ===== *)
theory Parser_Facts
  imports Parser_Runs
begin

text \<open>
  What holds of the syntax tree of any text: it has every byte of the text and every token of the
  scanner, in order and at its place, and the errors point into the text in order.
\<close>

section \<open>The parser and its text\<close>

text \<open>The token in hand ends where the scanner stands.\<close>

definition parser_at :: "string \<Rightarrow> parser \<Rightarrow> bool" where
  "parser_at src p \<longleftrightarrow> sc_src (prs_scanner p) = src \<and> in_text (prs_scanner p) \<and>
     tok_pos (prs_tok p) + length (tok_raw (prs_tok p)) + length (trivia_text (tok_trailing (prs_tok p))) =
       sc_offset (prs_scanner p) \<and>
     slice src (tok_pos (prs_tok p)) (token_end (prs_tok p)) = tok_raw (prs_tok p) \<and>
     (peek p = EOF \<longrightarrow> sc_offset (prs_scanner p) = length src \<and> tok_raw (prs_tok p) = []) \<and>
     (peek p \<noteq> EOF \<longrightarrow> tok_raw (prs_tok p) \<noteq> [])"

lemma slice_slice:
  assumes "a + i + n \<le> c"
  shows "slice src (a + i) (a + i + n) = take n (drop i (slice src a c))"
proof -
  have "take n (drop i (slice src a c)) = take n (drop (a + i) (take c src))"
    by (simp add: slice_def add.commute)
  also have "\<dots> = drop (a + i) (take (n + (a + i)) (take c src))" by (rule take_drop)
  also have "\<dots> = slice src (a + i) (a + i + n)"
    using assms by (simp add: slice_def min_def ac_simps)
  finally show ?thesis by simp
qed

lemma scanned_slice:
  assumes "scanned s t s'" and "in_text s"
  shows "slice (sc_src s) (tok_pos t) (token_end t) = tok_raw t"
    and "tok_pos t + length (tok_raw t) + length (trivia_text (tok_trailing t)) = sc_offset s'"
proof -
  have m: "moves s s'" and full: "token_text t = between s s'"
    and pos: "tok_pos t = sc_offset s + length (trivia_text (tok_leading t))"
    using assms(1) by (auto simp: scanned_def)
  have len: "length (token_text t) = sc_offset s' - sc_offset s"
    using full between_length [OF m assms(2)] by simp
  with m show "tok_pos t + length (tok_raw t) + length (trivia_text (tok_trailing t)) = sc_offset s'"
    by (auto simp: token_text_def pos moves_def)
  then have "token_end t \<le> sc_offset s'" by (simp add: token_end_def)
  then have "slice (sc_src s) (tok_pos t) (token_end t) =
      take (length (tok_raw t)) (drop (length (trivia_text (tok_leading t))) (between s s'))"
    unfolding between_def pos token_end_def by (rule slice_slice)
  also have "\<dots> = tok_raw t" by (simp add: full [symmetric] token_text_def)
  finally show "slice (sc_src s) (tok_pos t) (token_end t) = tok_raw t" .
qed

lemma parser_at_advance:
  assumes "in_text (prs_scanner p)" and "sc_src (prs_scanner p) = src"
  shows "parser_at src (snd (advance U p))"
proof -
  let ?s = "prs_scanner p"
  have sc: "scanned ?s (fst (scan U ?s)) (snd (scan U ?s))" by (rule scan_scanned [OF assms(1)])
  then have m: "moves ?s (snd (scan U ?s))" by (simp add: scanned_def)
  with sc scanned_slice [OF sc assms(1)] moves_in_text [OF m assms(1)] assms(2) show ?thesis
    by (auto simp: parser_at_def peek_def moves_def scanned_def split: if_splits)
qed

lemma parser_at_errorf [simp]: "parser_at src (errorf msg p) \<longleftrightarrow> parser_at src p"
  by (simp add: parser_at_def)

lemma parser_at_advance': "parser_at src p \<Longrightarrow> parser_at src (snd (advance U p))"
  by (intro parser_at_advance) (simp_all add: parser_at_def)

lemma parser_at_start: "parser_at src (snd (advance U (new_parser src)))"
  by (rule parser_at_advance) (simp_all add: new_parser_def new_scanner_def in_text_def)

lemma run_parser_at: "run U p ts q \<Longrightarrow> parser_at src p \<Longrightarrow> parser_at src q"
  by (induction rule: run.induct) (auto dest: parser_at_advance')

section \<open>Every byte\<close>

definition remaining :: "parser \<Rightarrow> string" where
  "remaining p = token_text (prs_tok p) @ drop (sc_offset (prs_scanner p)) (sc_src (prs_scanner p))"

lemma scan_remaining:
  assumes "in_text s"
  shows "token_text (fst (scan U s)) @ drop (sc_offset (snd (scan U s))) (sc_src s) =
    drop (sc_offset s) (sc_src s)"
proof -
  let ?s' = "snd (scan U s)"
  have sc: "scanned s (fst (scan U s)) ?s'" by (rule scan_scanned [OF assms])
  then have m: "moves s ?s'" and "token_text (fst (scan U s)) = between s ?s'"
    by (simp_all add: scanned_def)
  with m assms slice_append [of "sc_offset s" "sc_offset ?s'" "length (sc_src s)" "sc_src s"]
  show ?thesis by (simp add: between_def moves_def in_text_def slice_def)
qed

lemma remaining_advance:
  assumes "parser_at src p"
  shows "remaining p = token_text (prs_tok p) @ remaining (snd (advance U p))"
  using scan_remaining [of "prs_scanner p" U] assms
  by (simp add: remaining_def parser_at_def scan_progress(1))

lemma remaining_errorf [simp]: "remaining (errorf msg p) = remaining p"
  by (simp add: remaining_def)

lemma token_text_synthetic [simp]: "token_text (mk_token k n []) = []"
  by (simp add: token_text_def mk_token_def)

lemma run_lossless:
  "run U p ts q \<Longrightarrow> parser_at src p \<Longrightarrow> remaining p = concat (map token_text ts) @ remaining q"
proof (induction rule: run.induct)
  case (take_step p ts q)
  then show ?case using remaining_advance [of src p U] parser_at_advance' by simp
qed auto

lemma remaining_start: "remaining (snd (advance U (new_parser src))) = src"
  using scan_remaining [of "new_scanner src" U]
  by (simp add: remaining_def new_parser_def scan_progress(1)) (simp add: new_scanner_def in_text_def)

lemma parse_full_text: "file_full_text (parse U src) = src"
proof -
  obtain cs p where f: "parse U src =
      \<lparr>sf_root = Some (Node FileNode (cs @ [CToken (prs_tok p)])), sf_errors = prs_errors p\<rparr>"
    and eof: "peek p = EOF" and run: "run U (snd (advance U (new_parser src))) (tokens_of cs) p"
    by (rule parse_runs)
  have "parser_at src p" by (rule run_parser_at [OF run parser_at_start])
  then have "remaining p = token_text (prs_tok p)" using eof by (simp add: remaining_def parser_at_def)
  then have "concat (map token_text (tokens_of cs @ [prs_tok p])) = src"
    using run_lossless [OF run parser_at_start] remaining_start [of U src] by simp
  then show ?thesis by (simp only: f file_full_text_def full_text_def) simp
qed

section \<open>Every token at its place\<close>

text \<open>Tokens in the order of the text, each with its text at its position, between two offsets.\<close>

fun located :: "string \<Rightarrow> nat \<Rightarrow> token list \<Rightarrow> nat \<Rightarrow> bool" where
  "located src a [] b \<longleftrightarrow> a \<le> b"
| "located src a (t # ts) b \<longleftrightarrow> a \<le> tok_pos t \<and> slice src (tok_pos t) (token_end t) = tok_raw t \<and>
     located src (token_end t) ts b"

lemma located_weaken: "located src a ts b \<Longrightarrow> a' \<le> a \<Longrightarrow> located src a' ts b"
  by (cases ts) auto

lemma located_le: "located src a ts b \<Longrightarrow> a \<le> b"
  by (induction ts arbitrary: a) (auto simp: token_end_def intro: order_trans add_leD1)

lemma scan_token_pos:
  assumes "in_text s"
  shows "sc_offset s \<le> tok_pos (fst (scan U s))"
  using scan_scanned [OF assms, of U] by (simp add: scanned_def)

lemma located_append: "located src a ts b \<Longrightarrow> located src b us c \<Longrightarrow> located src a (ts @ us) c"
  by (induction ts arbitrary: a) (auto intro: located_weaken)

lemma located_end:
  "located src a ts (tok_pos t) \<Longrightarrow> slice src (tok_pos t) (token_end t) = tok_raw t \<Longrightarrow> token_end t \<le> n \<Longrightarrow>
    located src a (ts @ [t]) n"
  by (rule located_append) auto

lemma advance_token_pos:
  assumes "parser_at src p"
  shows "token_end (prs_tok p) \<le> tok_pos (prs_tok (snd (advance U p)))"
  using assms scan_token_pos [of "prs_scanner p" U] by (simp add: parser_at_def token_end_def)

lemma run_located:
  "run U p ts q \<Longrightarrow> parser_at src p \<Longrightarrow> located src (tok_pos (prs_tok p)) ts (tok_pos (prs_tok q))"
proof (induction rule: run.induct)
  case (take_step p ts q)
  have "located src (token_end (prs_tok p)) ts (tok_pos (prs_tok q))"
    using take_step.IH [OF parser_at_advance' [OF take_step.prems]]
      advance_token_pos [OF take_step.prems, of U] located_weaken by blast
  with take_step.prems show ?case by (simp add: parser_at_def)
next
  case (synthetic p ts q)
  then show ?case by (simp add: mk_token_def token_end_def)
qed auto

lemma parser_at_end: "parser_at src p \<Longrightarrow> token_end (prs_tok p) \<le> length src"
  by (auto simp: parser_at_def token_end_def in_text_def)

section \<open>Errors in the order of the text\<close>

lemma run_errors:
  assumes "run U p ts q" and "parser_at src p"
  shows "\<exists>es. prs_errors q = prs_errors p @ es \<and> sorted (map se_pos es) \<and>
    (\<forall>e \<in> set es. tok_pos (prs_tok p) \<le> se_pos e \<and> se_pos e \<le> tok_pos (prs_tok q))"
  using assms
proof (induction rule: run.induct)
  case (stop p)
  then show ?case by simp
next
  case (take_step p ts q)
  have "tok_pos (prs_tok p) \<le> tok_pos (prs_tok (snd (advance U p)))"
    using advance_token_pos [OF take_step.prems, of U] by (simp add: token_end_def)
  with take_step.IH [OF parser_at_advance' [OF take_step.prems]] show ?case by fastforce
next
  case (error_step msg p ts q)
  have "parser_at src (errorf msg p)" using error_step.prems by simp
  then obtain es where es: "prs_errors q = prs_errors (errorf msg p) @ es" "sorted (map se_pos es)"
    "\<forall>e \<in> set es. tok_pos (prs_tok p) \<le> se_pos e \<and> se_pos e \<le> tok_pos (prs_tok q)"
    using error_step.IH by auto
  have "tok_pos (prs_tok p) \<le> tok_pos (prs_tok q)"
    using located_le [OF run_located [OF error_step.hyps(1) \<open>parser_at src (errorf msg p)\<close>]] by simp
  with es show ?case
    by (intro exI [of _ "\<lparr>se_pos = tok_pos (prs_tok p), se_msg = msg\<rparr> # es"]) auto
next
  case (synthetic p ts q)
  then show ?case by simp
qed

section \<open>The tokens of the scanner\<close>

text \<open>The scanner run to the end of the text.\<close>

function scan_all :: "unicode \<Rightarrow> scanner \<Rightarrow> token list" where
  "scan_all U s = (case scan U s of (t, s') \<Rightarrow> if tok_kind t = EOF then [t] else t # scan_all U s')"
  by pat_completeness auto
termination
proof (relation "measure (\<lambda>(U, s). length (sc_src s) - sc_offset s)", goal_cases)
  case (2 U s t s')
  have "tok_kind (fst (scan U s)) \<noteq> EOF" "s' = snd (scan U s)"
    using 2 by (metis fst_conv, metis snd_conv)
  then show ?case using scan_progress [where U = U and s = s] by (auto intro: diff_less_mono2)
qed simp

declare scan_all.simps [simp del]

definition has_text :: "token \<Rightarrow> bool" where
  "has_text t \<longleftrightarrow> tok_raw t \<noteq> []"

definition pending :: "unicode \<Rightarrow> parser \<Rightarrow> token list" where
  "pending U p = filter has_text (prs_tok p # (if peek p = EOF then [] else scan_all U (prs_scanner p)))"

lemma pending_advance:
  assumes "parser_at src p"
  shows "pending U p = filter has_text [prs_tok p] @ pending U (snd (advance U p))"
proof (cases "peek p = EOF")
  case True
  have q: "parser_at src (snd (advance U p))" by (rule parser_at_advance' [OF assms])
  have "sc_offset (snd (scan U (prs_scanner p))) = length src"
    using True assms q scan_progress(2) [where U = U and s = "prs_scanner p"]
    by (auto simp: parser_at_def in_text_def)
  moreover have "sc_offset (prs_scanner p) = length src" using True assms by (simp add: parser_at_def)
  ultimately have "tok_kind (fst (scan U (prs_scanner p))) = EOF"
    using scan_progress(3) [where U = U and s = "prs_scanner p"] by auto
  then have "peek (snd (advance U p)) = EOF" by (simp add: peek_def)
  moreover from this q have "\<not> has_text (prs_tok (snd (advance U p)))"
    unfolding parser_at_def has_text_def by blast
  ultimately show ?thesis using True by (simp add: pending_def)
next
  case False
  then show ?thesis
    by (simp add: pending_def scan_all.simps [of U "prs_scanner p"] case_prod_beta peek_def)
qed

lemma pending_errorf: "pending U (errorf msg p) = pending U p"
  by (simp only: pending_def errorf_sels peek_errorf)

lemma run_pending:
  "run U p ts q \<Longrightarrow> parser_at src p \<Longrightarrow> pending U p = filter has_text ts @ pending U q"
proof (induction rule: run.induct)
  case (take_step p ts q)
  then show ?case using pending_advance [of src p U] parser_at_advance' by auto
next
  case (error_step msg p ts q)
  then show ?case by (simp only: parser_at_errorf pending_errorf)
next
  case (synthetic p ts q)
  then show ?case by (simp add: has_text_def mk_token_def)
qed simp

end
