(* ===== verification/Grammar.thy ===== *)
theory Grammar
  imports Parser_Facts
begin

text \<open>
  The grammar of the ledger language as predicates on trees, and the parser on the tokens of an
  expression of the grammar: it finds that expression, so the grammar of expressions is unambiguous.
\<close>

section \<open>Sequences of children\<close>

type_synonym lang = "child list \<Rightarrow> bool"

definition tk :: "token_kind list \<Rightarrow> lang" where
  "tk ks cs \<longleftrightarrow> (\<exists>t. cs = [CToken t] \<and> tok_kind t \<in> set ks)"

definition kw :: "string \<Rightarrow> lang" where
  "kw w cs \<longleftrightarrow> (\<exists>t. cs = [CToken t] \<and> tok_kind t = IDENT \<and> tok_raw t = w)"

definition sub :: "(node \<Rightarrow> bool) \<Rightarrow> lang" where
  "sub P cs \<longleftrightarrow> (\<exists>n. cs = [CNode n] \<and> P n)"

fun cat :: "lang list \<Rightarrow> lang" where
  "cat [] cs \<longleftrightarrow> cs = []"
| "cat (A # As) cs \<longleftrightarrow> (\<exists>xs ys. cs = xs @ ys \<and> A xs \<and> cat As ys)"

definition opt :: "lang \<Rightarrow> lang" where
  "opt A cs \<longleftrightarrow> cs = [] \<or> A cs"

definition alt :: "lang \<Rightarrow> lang \<Rightarrow> lang" where
  "alt A B cs \<longleftrightarrow> A cs \<or> B cs"

definition many :: "lang \<Rightarrow> lang" where
  "many A cs \<longleftrightarrow> (\<exists>css. cs = concat css \<and> (\<forall>xs \<in> set css. A xs))"

definition rule_of :: "node_kind \<Rightarrow> lang \<Rightarrow> node \<Rightarrow> bool" where
  "rule_of k A n \<longleftrightarrow> nd_kind n = k \<and> A (nd_children n)"

section \<open>Expressions\<close>

text \<open>Addition and multiplication associate to the left, and the second binds closer.\<close>

inductive expr_tree :: "node \<Rightarrow> bool" and term_tree :: "node \<Rightarrow> bool" and factor_tree :: "node \<Rightarrow> bool" where
  expr_term: "term_tree n \<Longrightarrow> expr_tree n"
| expr_add: "expr_tree l \<Longrightarrow> tok_kind op \<in> {PLUS, MINUS} \<Longrightarrow> term_tree r \<Longrightarrow>
    expr_tree (Node ArithExprNode [CNode l, CToken op, CNode r])"
| term_factor: "factor_tree n \<Longrightarrow> term_tree n"
| term_mul: "term_tree l \<Longrightarrow> tok_kind op \<in> {STAR, SLASH} \<Longrightarrow> factor_tree r \<Longrightarrow>
    term_tree (Node ArithExprNode [CNode l, CToken op, CNode r])"
| factor_number: "tok_kind t = NUMBER \<Longrightarrow> factor_tree (Node ArithExprNode [CToken t])"
| factor_sign: "tok_kind t \<in> {PLUS, MINUS} \<Longrightarrow> factor_tree n \<Longrightarrow>
    factor_tree (Node ArithExprNode [CToken t, CNode n])"
| factor_parens: "tok_kind lp = LPAREN \<Longrightarrow> expr_tree n \<Longrightarrow> tok_kind rp = RPAREN \<Longrightarrow>
    factor_tree (Node ArithExprNode [CToken lp, CNode n, CToken rp])"

section \<open>Amounts, costs, postings\<close>

definition amount_tree :: "node \<Rightarrow> bool" where
  "amount_tree = rule_of AmountNode (cat [sub expr_tree, tk [CURRENCY]])"

definition bare_amount_tree :: "node \<Rightarrow> bool" where
  "bare_amount_tree = rule_of AmountNode (sub expr_tree)"

definition price_tree :: "node \<Rightarrow> bool" where
  "price_tree = rule_of PriceAnnotNode (cat [tk [AT, ATAT], sub amount_tree])"

definition balance_amount_tree :: "node \<Rightarrow> bool" where
  "balance_amount_tree = rule_of BalanceAmountNode
     (cat [sub expr_tree, opt (cat [tk [TILDE], sub expr_tree]), tk [CURRENCY]])"

definition cost_element :: lang where
  "cost_element = alt (sub amount_tree) (tk [DATE, STRING])"

definition cost_first :: "bool \<Rightarrow> lang" where
  "cost_first is_total = alt (alt (sub amount_tree) (tk [CURRENCY, DATE, STRING]))
     (\<lambda>cs. \<not> is_total \<and> cat [sub bare_amount_tree, tk [HASH], sub amount_tree] cs)"

definition cost_contents :: "bool \<Rightarrow> lang" where
  "cost_contents is_total = opt (cat [cost_first is_total, many (cat [tk [COMMA], cost_element])])"

definition cost_tree :: "node \<Rightarrow> bool" where
  "cost_tree = rule_of CostSpecNode
     (alt (cat [tk [LBRACE2], cost_contents True, tk [RBRACE2]])
          (cat [tk [LBRACE], cost_contents False, tk [RBRACE]]))"

definition metadata_tree :: "node \<Rightarrow> bool" where
  "metadata_tree = rule_of MetadataLineNode (cat [tk [IDENT], tk [COLON],
     opt (tk [STRING, NUMBER, DATE, ACCOUNT, CURRENCY, TAG, LINK, IDENT])])"

definition metadata :: lang where
  "metadata = many (sub metadata_tree)"

definition posting_tree :: "node \<Rightarrow> bool" where
  "posting_tree = rule_of PostingNode (cat
     [opt (tk [STAR, BANG]), tk [ACCOUNT],
      opt (cat [sub amount_tree, opt (sub cost_tree), opt (sub price_tree)]), metadata])"

section \<open>Directives\<close>

definition tags_links :: lang where
  "tags_links = many (tk [TAG, LINK])"

definition transaction_tree :: "node \<Rightarrow> bool" where
  "transaction_tree = rule_of TransactionDirective (cat
     [tk [DATE], alt (tk [STAR, BANG]) (kw ''txn''),
      opt (cat [tk [STRING], opt (tk [STRING])]), tags_links, metadata, many (sub posting_tree)])"

definition dated_rule :: "node_kind \<Rightarrow> string \<Rightarrow> lang list \<Rightarrow> node \<Rightarrow> bool" where
  "dated_rule k w body = rule_of k (cat ([tk [DATE], kw w] @ body @ [metadata]))"

definition custom_value :: lang where
  "custom_value = alt (tk [STRING, DATE, ACCOUNT, CURRENCY, IDENT]) (sub amount_tree)"

definition dated_trees :: "(node \<Rightarrow> bool) list" where
  "dated_trees =
    [dated_rule OpenDirective ''open'' [tk [ACCOUNT],
       opt (cat [tk [CURRENCY], many (cat [tk [COMMA], tk [CURRENCY]])]), opt (tk [STRING])],
     dated_rule BalanceDirective ''balance'' [tk [ACCOUNT], sub balance_amount_tree],
     dated_rule PadDirective ''pad'' [tk [ACCOUNT], tk [ACCOUNT]],
     dated_rule CloseDirective ''close'' [tk [ACCOUNT]],
     dated_rule CommodityDirective ''commodity'' [tk [CURRENCY]],
     dated_rule NoteDirective ''note'' [tk [ACCOUNT], tk [STRING], tags_links],
     dated_rule DocumentDirective ''document'' [tk [ACCOUNT], tk [STRING], tags_links],
     dated_rule EventDirective ''event'' [tk [STRING], tk [STRING]],
     dated_rule QueryDirective ''query'' [tk [STRING], tk [STRING]],
     dated_rule PriceDirective ''price'' [tk [CURRENCY], sub amount_tree],
     dated_rule CustomDirective ''custom'' [tk [STRING], many custom_value]]"

definition undated_trees :: "(node \<Rightarrow> bool) list" where
  "undated_trees =
    [rule_of OptionDirective (cat [kw ''option'', tk [STRING], tk [STRING], metadata]),
     rule_of PluginDirective (cat [kw ''plugin'', tk [STRING], opt (tk [STRING]), metadata]),
     rule_of IncludeDirective (cat [kw ''include'', tk [STRING], metadata]),
     rule_of PushtagDirective (cat [kw ''pushtag'', tk [TAG]]),
     rule_of PoptagDirective (cat [kw ''poptag'', tk [TAG]])]"

text \<open>A line the parser does not recognize is no error of its own.\<close>

definition unrecognized_tree :: "node \<Rightarrow> bool" where
  "unrecognized_tree = rule_of UnrecognizedLineNode
     (\<lambda>cs. \<forall>c \<in> set cs. \<exists>t. c = CToken t \<and> tok_kind t \<noteq> EOF)"

definition top_level_tree :: "node \<Rightarrow> bool" where
  "top_level_tree n \<longleftrightarrow> transaction_tree n \<or> unrecognized_tree n \<or>
     (\<exists>rule \<in> set (dated_trees @ undated_trees). rule n)"

definition file_tree :: "node \<Rightarrow> bool" where
  "file_tree = rule_of FileNode (cat [many (sub top_level_tree), tk [EOF]])"

section \<open>Expressions are found\<close>

text \<open>The tokens that come next, and the parser after reading so many of them.\<close>

fun ahead :: "unicode \<Rightarrow> parser \<Rightarrow> token list \<Rightarrow> bool" where
  "ahead U p [] \<longleftrightarrow> True"
| "ahead U p (t # ts) \<longleftrightarrow> prs_tok p = t \<and> ahead U (snd (advance U p)) ts"

fun after :: "unicode \<Rightarrow> nat \<Rightarrow> parser \<Rightarrow> parser" where
  "after U 0 p = p"
| "after U (Suc n) p = after U n (snd (advance U p))"

lemma ahead_append:
  "ahead U p (ts @ us) \<longleftrightarrow> ahead U p ts \<and> ahead U (after U (length ts) p) us"
  by (induction ts arbitrary: p) auto

lemma after_add: "after U (m + n) p = after U n (after U m p)"
  by (induction m arbitrary: p) auto

lemma after_advance: "snd (advance U (after U n p)) = after U n (snd (advance U p))"
  by (induction n arbitrary: p) auto

lemma expr_loop_stop: "\<not> at [PLUS, MINUS] p \<Longrightarrow> expr_loop U n p = (n, p)"
  by (simp add: expr_loop.simps [of U n p])

lemma term_loop_stop: "\<not> at [STAR, SLASH] p \<Longrightarrow> term_loop U n p = (n, p)"
  by (simp add: term_loop.simps [of U n p])

lemma trees_parse:
  "expr_tree n \<Longrightarrow> ahead U p (node_tokens n) \<Longrightarrow>
     \<not> at [STAR, SLASH] (after U (length (node_tokens n)) p) \<Longrightarrow>
     parse_expr U p = expr_loop U n (after U (length (node_tokens n)) p)"
  "term_tree n \<Longrightarrow> ahead U p (node_tokens n) \<Longrightarrow>
     parse_term U p = term_loop U n (after U (length (node_tokens n)) p)"
  "factor_tree n \<Longrightarrow> ahead U p (node_tokens n) \<Longrightarrow>
     parse_factor U p = (n, after U (length (node_tokens n)) p)"
proof (induction arbitrary: p and p and p rule: expr_tree_term_tree_factor_tree.inducts)
  case (expr_term n)
  then show ?case by (simp add: parse_expr.simps [of U p] term_loop_stop)
next
  case (expr_add l op r)
  let ?q = "after U (length (node_tokens l)) p"
  have q: "prs_tok ?q = op" "ahead U (snd (advance U ?q)) (node_tokens r)" "ahead U p (node_tokens l)"
    using expr_add.prems(1) by (auto simp: ahead_append)
  then have op: "at [PLUS, MINUS] ?q" "\<not> at [STAR, SLASH] ?q"
    using expr_add.hyps(2) by (auto simp: at_def peek_def)
  have end_r: "after U (length (node_tokens r)) (snd (advance U ?q)) =
      after U (length (node_tokens (Node ArithExprNode [CNode l, CToken op, CNode r]))) p"
    by (simp add: after_add after_advance)
  have "parse_expr U p = expr_loop U l ?q" by (rule expr_add.IH(1) [OF q(3) op(2)])
  moreover have "parse_term U (snd (advance U ?q)) =
      (r, after U (length (node_tokens r)) (snd (advance U ?q)))"
    using expr_add.IH(2) [OF q(2)] expr_add.prems(2) unfolding end_r by (simp add: term_loop_stop)
  ultimately show ?case
    unfolding end_r using op(1) q(1) by (simp add: expr_loop.simps [of U l ?q] case_prod_beta)
next
  case (term_factor n)
  then show ?case by (simp add: parse_term.simps [of U p])
next
  case (term_mul l op r)
  let ?q = "after U (length (node_tokens l)) p"
  have q: "prs_tok ?q = op" "ahead U (snd (advance U ?q)) (node_tokens r)" "ahead U p (node_tokens l)"
    using term_mul.prems(1) by (auto simp: ahead_append)
  then have op: "at [STAR, SLASH] ?q" using term_mul.hyps(2) by (auto simp: at_def peek_def)
  have end_r: "after U (length (node_tokens r)) (snd (advance U ?q)) =
      after U (length (node_tokens (Node ArithExprNode [CNode l, CToken op, CNode r]))) p"
    by (simp add: after_add after_advance)
  have "parse_term U p = term_loop U l ?q" by (rule term_mul.IH(1) [OF q(3)])
  moreover note term_mul.IH(2) [OF q(2)]
  ultimately show ?case
    unfolding end_r using op(1) q(1) by (simp add: term_loop.simps [of U l ?q] case_prod_beta)
next
  case (factor_number t)
  then show ?case by (simp add: parse_factor.simps [of U p] peek_def case_prod_beta)
next
  case (factor_sign t n)
  then have "at [MINUS, PLUS] p" "peek p \<noteq> NUMBER" by (auto simp: at_def peek_def)
  with factor_sign show ?case by (simp add: parse_factor.simps [of U p] case_prod_beta)
next
  case (factor_parens lp n rp)
  let ?p1 = "snd (advance U p)"
  let ?q = "after U (length (node_tokens n)) ?p1"
  have q: "prs_tok p = lp" "ahead U ?p1 (node_tokens n)" "prs_tok ?q = rp"
    using factor_parens.prems by (auto simp: ahead_append)
  then have kinds: "peek p = LPAREN" "\<not> at [MINUS, PLUS] p" "peek ?q = RPAREN"
    "\<not> at [STAR, SLASH] ?q" "\<not> at [PLUS, MINUS] ?q"
    using factor_parens.hyps by (auto simp: at_def peek_def)
  have "parse_expr U ?p1 = (n, ?q)"
    using factor_parens.IH [OF q(2) kinds(4)] kinds(5) by (simp add: expr_loop_stop)
  with kinds(1-3) q show ?case
    by (simp add: parse_factor.simps [of U p] expect_def case_prod_beta after_add after_advance)
qed

text \<open>Reading an expression with nothing of it left over.\<close>

lemma expr_tree_parsed:
  assumes "expr_tree n" and "ahead U p (node_tokens n)"
    and "\<not> at [PLUS, MINUS, STAR, SLASH] (after U (length (node_tokens n)) p)"
  shows "parse_expr U p = (n, after U (length (node_tokens n)) p)"
  using trees_parse(1) [OF assms(1,2)] assms(3) by (simp add: at_def expr_loop_stop)

lemma expr_tree_unambiguous:
  assumes "expr_tree m" and "expr_tree n" and same: "node_tokens m = node_tokens n"
    and ahead: "ahead U p (node_tokens n)"
    and stop: "\<not> at [PLUS, MINUS, STAR, SLASH] (after U (length (node_tokens n)) p)"
  shows "m = n"
proof -
  have "parse_expr U p = (m, after U (length (node_tokens m)) p)"
    by (rule expr_tree_parsed [OF assms(1)]) (simp_all only: same ahead stop not_False_eq_True)
  moreover have "parse_expr U p = (n, after U (length (node_tokens n)) p)"
    by (rule expr_tree_parsed [OF assms(2) ahead stop])
  ultimately show ?thesis by (metis prod.inject)
qed

end
