(* ===== verification/Grammar_Sound.thy ===== *)
theory Grammar_Sound
  imports Grammar
begin

text \<open>
  A parse that reports no error has built a tree of the grammar: for every production, what it yields
  when it adds nothing to the errors.
\<close>

section \<open>Parses without errors\<close>

text \<open>A production never takes errors back, and on a parser where \<open>P\<close> holds it reports an error or
  yields what is in \<open>A\<close>.\<close>

definition yields :: "(parser \<Rightarrow> bool) \<Rightarrow> (parser \<Rightarrow> 'a \<times> parser) \<Rightarrow> ('a \<Rightarrow> bool) \<Rightarrow> bool" where
  "yields P f A \<longleftrightarrow> (\<forall>p. length (prs_errors p) \<le> length (prs_errors (snd (f p))) \<and>
     (P p \<longrightarrow> length (prs_errors (snd (f p))) = length (prs_errors p) \<longrightarrow> A (fst (f p))))"

named_theorems yield_intros \<open>what productions yield\<close>

lemma yields_mono: "yields P f A \<Longrightarrow> (\<And>p. Q p \<Longrightarrow> P p) \<Longrightarrow> (\<And>x. A x \<Longrightarrow> B x) \<Longrightarrow> yields Q f B"
  by (auto simp: yields_def)

lemma yields_take: "(\<And>p. P p \<Longrightarrow> at ks p) \<Longrightarrow> yields P (take_token U) (tk ks)"
  by (auto simp: yields_def take_token_def case_prod_beta tk_def at_def peek_def)

lemma yields_take_kw:
  "(\<And>p. P p \<Longrightarrow> peek p = IDENT \<and> tok_raw (prs_tok p) = w) \<Longrightarrow> yields P (take_token U) (kw w)"
  by (auto simp: yields_def take_token_def case_prod_beta kw_def peek_def)

lemma yields_expect [yield_intros]: "yields P (expect_token U k) (tk [k])"
  by (auto simp: yields_def expect_token_def expect_def case_prod_beta tk_def peek_def)

lemma yields_failing: "yields P (failing msg) A"
  by (simp add: yields_def failing_def)

lemma yields_given [yield_intros]: "tok_kind t \<in> set ks \<Longrightarrow> yields P (given t) (tk ks)"
  by (simp add: yields_def given_def tk_def)

lemma yields_Nil [yield_intros]: "yields P (steps []) (cat [])"
  by (simp add: yields_def)

lemma yields_then:
  assumes "yields P f A" and "\<And>p. P p \<Longrightarrow> Q (snd (f p))" and "yields Q (steps fs) (cat As)"
  shows "yields P (steps (f # fs)) (cat (A # As))"
  unfolding yields_def
proof (intro allI conjI impI)
  fix p
  obtain cs q where f: "f p = (cs, q)" by fastforce
  obtain ds r where g: "steps fs q = (ds, r)" by fastforce
  have 1: "length (prs_errors p) \<le> length (prs_errors q)"
    "P p \<Longrightarrow> length (prs_errors q) = length (prs_errors p) \<Longrightarrow> A cs"
    using assms(1) f by (auto simp: yields_def) (metis fst_conv snd_conv)+
  have 2: "length (prs_errors q) \<le> length (prs_errors r)"
    "Q q \<Longrightarrow> length (prs_errors r) = length (prs_errors q) \<Longrightarrow> cat As ds"
    using assms(3) g by (auto simp: yields_def) (metis fst_conv snd_conv)+
  have 3: "P p \<Longrightarrow> Q q" using assms(2) [of p] f by simp
  show "length (prs_errors p) \<le> length (prs_errors (snd (steps (f # fs) p)))"
    using 1 2 f g by simp
  show "cat (A # As) (fst (steps (f # fs) p))"
    if "P p" "length (prs_errors (snd (steps (f # fs) p))) = length (prs_errors p)"
    using 1 2 3 f g that by auto
qed

lemma yields_Cons [yield_intros]:
  "yields P f A \<Longrightarrow> yields (\<lambda>_. True) (steps fs) (cat As) \<Longrightarrow> yields P (steps (f # fs)) (cat (A # As))"
  by (rule yields_then [where Q = "\<lambda>_. True"]) simp_all

lemma yields_only_if [yield_intros]: "yields c f A \<Longrightarrow> yields P (only_if c f) (opt A)"
  by (auto simp: yields_def only_if_def opt_def)

lemma yields_sub_node [yield_intros]: "yields P f A \<Longrightarrow> yields P (sub_node f) (sub A)"
  by (auto simp: yields_def sub_node_def sub_def case_prod_beta)

lemma yields_node_of [yield_intros]: "yields P f A \<Longrightarrow> yields P (node_of k f) (rule_of k A)"
  by (auto simp: yields_def node_of_def rule_of_def case_prod_beta)

lemma yields_if:
  "yields (\<lambda>p. P p \<and> c p) f A \<Longrightarrow> yields (\<lambda>p. P p \<and> \<not> c p) g A \<Longrightarrow>
     yields P (\<lambda>p. if c p then f p else g p) A"
  by (auto simp: yields_def)

lemma yields_loop:
  assumes "strict f" and "\<And>cs q. c cs q \<Longrightarrow> peek q \<noteq> EOF" and "yields (\<lambda>p. \<exists>cs. c cs p) f A"
  shows "yields P (loop c f) (many A)"
  unfolding yields_def
proof (intro allI)
  fix p :: parser
  let ?I = "\<lambda>cs q. length (prs_errors p) \<le> length (prs_errors q) \<and>
    (length (prs_errors q) = length (prs_errors p) \<longrightarrow> many A cs)"
  have "?I [] p" by (auto simp: many_def intro: exI [of _ "[]"])
  moreover have "?I (cs @ fst (f q)) (snd (f q))" if I: "?I cs q" and c: "c cs q" for cs q
  proof -
    have f: "length (prs_errors q) \<le> length (prs_errors (snd (f q)))"
      "length (prs_errors (snd (f q))) = length (prs_errors q) \<Longrightarrow> A (fst (f q))"
      using assms(3) c by (auto simp: yields_def)
    have "many A (cs @ fst (f q))" if "many A cs" "A (fst (f q))"
    proof -
      obtain css where "cs = concat css" "\<forall>xs \<in> set css. A xs" using \<open>many A cs\<close> by (auto simp: many_def)
      then show ?thesis
        using that unfolding many_def by (intro exI [of _ "css @ [fst (f q)]"]) auto
    qed
    with I f show ?thesis by auto
  qed
  ultimately have "?I (fst (loop c f p)) (snd (loop c f p))"
    using loop_invariant [where f = f and c = c and Inv = ?I and p = p] assms(1,2) by blast
  then show "length (prs_errors p) \<le> length (prs_errors (snd (loop c f p))) \<and>
    (P p \<longrightarrow> length (prs_errors (snd (loop c f p))) = length (prs_errors p) \<longrightarrow> many A (fst (loop c f p)))"
    by blast
qed

subsection \<open>Expressions\<close>

lemma expr_clean:
  "length (prs_errors p) \<le> length (prs_errors (snd (parse_expr U p))) \<and>
     (length (prs_errors (snd (parse_expr U p))) = length (prs_errors p) \<longrightarrow> expr_tree (fst (parse_expr U p)))"
  "length (prs_errors p) \<le> length (prs_errors (snd (expr_loop U l p))) \<and>
     (length (prs_errors (snd (expr_loop U l p))) = length (prs_errors p) \<longrightarrow> expr_tree l \<longrightarrow>
       expr_tree (fst (expr_loop U l p)))"
  "length (prs_errors p) \<le> length (prs_errors (snd (parse_term U p))) \<and>
     (length (prs_errors (snd (parse_term U p))) = length (prs_errors p) \<longrightarrow> term_tree (fst (parse_term U p)))"
  "length (prs_errors p) \<le> length (prs_errors (snd (term_loop U l p))) \<and>
     (length (prs_errors (snd (term_loop U l p))) = length (prs_errors p) \<longrightarrow> term_tree l \<longrightarrow>
       term_tree (fst (term_loop U l p)))"
  "length (prs_errors p) \<le> length (prs_errors (snd (parse_factor U p))) \<and>
     (length (prs_errors (snd (parse_factor U p))) = length (prs_errors p) \<longrightarrow> factor_tree (fst (parse_factor U p)))"
proof (induction U p and U l p and U p and U l p and U p
    rule: parse_expr_expr_loop_parse_term_term_loop_parse_factor.induct)
  case (1 U p)
  obtain l q where t: "parse_term U p = (l, q)" by fastforce
  with 1 show ?case by (auto simp: parse_expr.simps [of U p] intro: expr_term)
next
  case (2 U l p)
  show ?case
  proof (cases "at [PLUS, MINUS] p")
    case True
    obtain op p1 where a: "advance U p = (op, p1)" by fastforce
    obtain r p2 where t: "parse_term U p1 = (r, p2)" by fastforce
    have "op = prs_tok p" "prs_errors p1 = prs_errors p" using a by (metis advance_sels(1,2) fst_conv snd_conv)+
    moreover have "tok_kind (prs_tok p) \<in> {PLUS, MINUS}" using True by (auto simp: at_def peek_def)
    ultimately show ?thesis
      using 2(1) [OF True a [symmetric]] 2(2) [OF True a [symmetric] t [symmetric]] t
      by (auto simp: expr_loop.simps [of U l p] True a intro!: expr_add)
  qed (simp add: expr_loop.simps [of U l p])
next
  case (3 U p)
  obtain l q where t: "parse_factor U p = (l, q)" by fastforce
  with 3 show ?case by (auto simp: parse_term.simps [of U p] intro: term_factor)
next
  case (4 U l p)
  show ?case
  proof (cases "at [STAR, SLASH] p")
    case True
    obtain op p1 where a: "advance U p = (op, p1)" by fastforce
    obtain r p2 where t: "parse_factor U p1 = (r, p2)" by fastforce
    have "op = prs_tok p" "prs_errors p1 = prs_errors p" using a by (metis advance_sels(1,2) fst_conv snd_conv)+
    moreover have "tok_kind (prs_tok p) \<in> {STAR, SLASH}" using True by (auto simp: at_def peek_def)
    ultimately show ?thesis
      using 4(1) [OF True a [symmetric]] 4(2) [OF True a [symmetric] t [symmetric]] t
      by (auto simp: term_loop.simps [of U l p] True a intro!: term_mul)
  qed (simp add: term_loop.simps [of U l p])
next
  case (5 U p)
  obtain op p1 where a: "advance U p = (op, p1)" by fastforce
  obtain r p2 where t: "parse_factor U p1 = (r, p2)" by fastforce
  obtain i p3 where e: "parse_expr U p1 = (i, p3)" by fastforce
  have op: "op = prs_tok p" "prs_errors p1 = prs_errors p" using a by (metis advance_sels(1,2) fst_conv snd_conv)+
  have rp: "length (prs_errors p3) \<le> length (prs_errors (snd (expect U RPAREN p3)))"
    "length (prs_errors (snd (expect U RPAREN p3))) = length (prs_errors p3) \<Longrightarrow>
      tok_kind (fst (expect U RPAREN p3)) = RPAREN"
    by (auto simp: expect_def peek_def)
  consider "peek p = NUMBER" | "at [MINUS, PLUS] p" | "peek p = LPAREN"
    | "peek p \<noteq> NUMBER" "\<not> at [MINUS, PLUS] p" "peek p \<noteq> LPAREN" by blast
  then show ?case
  proof cases
    case 1
    then show ?thesis
      using op by (auto simp: parse_factor.simps [of U p] a peek_def intro: factor_number)
  next
    case 2
    then have "peek p \<noteq> NUMBER" "tok_kind (prs_tok p) \<in> {PLUS, MINUS}" by (auto simp: at_def peek_def)
    then show ?thesis
      using 2 5(1) [OF _ 2 a [symmetric]] op t
      by (auto simp: parse_factor.simps [of U p] a intro!: factor_sign)
  next
    case 3
    then have *: "peek p \<noteq> NUMBER" "\<not> at [MINUS, PLUS] p" "tok_kind (prs_tok p) = LPAREN"
      by (auto simp: at_def peek_def)
    then show ?thesis
      using 3 5(2) [OF *(1,2) 3 a [symmetric]] op e rp
      by (auto simp: parse_factor.simps [of U p] a case_prod_beta intro!: factor_parens)
  next
    case 4
    then show ?thesis by (simp add: parse_factor.simps [of U p] case_prod_beta)
  qed
qed

lemma yields_expr [yield_intros]: "yields P (parse_expr U) expr_tree"
  using expr_clean(1) by (simp add: yields_def)

subsection \<open>Amounts, costs, postings\<close>

lemma yields_amount [yield_intros]: "yields P (parse_amount U) amount_tree"
  unfolding parse_amount_def amount_tree_def by (intro yield_intros)

lemma yields_price [yield_intros]: "(\<And>p. P p \<Longrightarrow> at [AT, ATAT] p) \<Longrightarrow> yields P (parse_price_annotation U) price_tree"
  unfolding parse_price_annotation_def price_tree_def by (intro yield_intros yields_take) simp

text \<open>After a reported error anything may be read.\<close>

definition grows :: "(parser \<Rightarrow> 'a \<times> parser) \<Rightarrow> bool" where
  "grows f \<longleftrightarrow> (\<forall>p. length (prs_errors p) \<le> length (prs_errors (snd (f p))))"

lemma yields_grows: "yields P f A \<Longrightarrow> grows f"
  by (simp add: yields_def grows_def)

lemma grows_Cons: "grows f \<Longrightarrow> grows (steps fs) \<Longrightarrow> grows (steps (f # fs))"
  by (auto simp: grows_def case_prod_beta intro: le_trans)

lemma grows_take [simp]: "grows (take_token U)"
  by (simp add: grows_def take_token_def case_prod_beta)

lemma grows_Nil [simp]: "grows (steps [])"
  by (simp add: grows_def)

lemma yields_fails:
  assumes "grows (steps fs)"
  shows "yields P (steps (failing msg # fs)) A"
proof -
  have "length (prs_errors p) < length (prs_errors (snd (steps (failing msg # fs) p)))" for p
  proof -
    have "length (prs_errors (errorf (msg p) p)) \<le> length (prs_errors (snd (steps fs (errorf (msg p) p))))"
      using assms unfolding grows_def by blast
    then show ?thesis by (simp add: failing_def case_prod_beta)
  qed
  then show ?thesis by (auto simp: yields_def intro: less_imp_le) (metis less_irrefl)
qed

lemma grows_rest_of_line: "grows (rest_of_line U)"
  unfolding rest_of_line_def
  by (rule yields_grows [where P = "\<lambda>_. True" and A = "many (\<lambda>_. True)"], rule yields_loop)
    (auto simp: yields_def take_token_def case_prod_beta)

lemma yields_balance_amount [yield_intros]: "yields P (parse_balance_amount U) balance_amount_tree"
proof -
  have stray: "yields Q (steps [failing msg, rest_of_line U]) (\<lambda>_. False)" for Q msg
    by (intro yields_fails grows_Cons grows_rest_of_line grows_Nil)
  have "yields P (parse_balance_amount U) (rule_of BalanceAmountNode
     (cat [sub expr_tree, opt (cat [tk [TILDE], sub expr_tree]), tk [CURRENCY], opt (\<lambda>_. False)]))"
    unfolding parse_balance_amount_def
    by (intro yield_intros yields_take stray) (simp add: at_def)
  then show ?thesis
    by (rule yields_mono) (auto simp: balance_amount_tree_def rule_of_def opt_def)
qed

lemma yields_alt1: "yields P f A \<Longrightarrow> yields P f (alt A B)"
  by (auto simp: yields_def alt_def)

lemma yields_alt2: "yields P f B \<Longrightarrow> yields P f (alt A B)"
  by (auto simp: yields_def alt_def)

lemma yields_unexpected: "yields P (steps [failing msg, take_token U]) A"
  by (intro yields_fails grows_Cons grows_take grows_Nil)

lemma yields_cost_element [yield_intros]: "yields P (parse_cost_element U) cost_element"
  unfolding parse_cost_element_def cost_element_def
  by (intro yields_if yields_unexpected)
    (intro yields_alt1 yield_intros, intro yields_alt2 yields_take, simp)

lemma grows_only_if: "grows f \<Longrightarrow> grows (only_if c f)"
  by (simp add: grows_def only_if_def)

lemma yields_cost_total [yield_intros]: "yields P (parse_cost_total U) (sub amount_tree)"
  unfolding parse_cost_total_def
  by (intro yields_if yields_fails grows_Cons grows_only_if grows_take grows_Nil yield_intros)

lemma find_token_amount:
  "bare_amount_tree n \<Longrightarrow> find_token n CURRENCY = None"
  "amount_tree n \<Longrightarrow> find_token n CURRENCY \<noteq> None"
  by (auto simp: bare_amount_tree_def amount_tree_def rule_of_def sub_def tk_def find_token_def find_tokens_def)

lemma yields_optional_currency:
  "yields P (parse_amount_optional_currency U) (\<lambda>n. amount_tree n \<or> bare_amount_tree n)"
proof -
  have "yields P (parse_amount_optional_currency U) (rule_of AmountNode (cat [sub expr_tree, opt (tk [CURRENCY])]))"
    unfolding parse_amount_optional_currency_def by (intro yield_intros yields_take)
  then show ?thesis
    by (rule yields_mono) (auto simp: amount_tree_def bare_amount_tree_def rule_of_def opt_def)
qed

lemma yields_reject: "yields P (only_if (\<lambda>_. b) (failing m)) (\<lambda>cs. \<not> b \<and> cs = [])"
  by (simp add: yields_def only_if_def failing_def)

lemma peek_reject: "peek (snd (only_if c (failing m) p)) = peek p"
  by (simp add: only_if_def failing_def)

lemma yields_cost_amount: "yields P (parse_cost_amount U is_total) (cost_first is_total)"
  unfolding yields_def
proof (intro allI)
  fix p :: parser
  obtain amt q where a: "parse_amount_optional_currency U p = (amt, q)" by fastforce
  have 1: "length (prs_errors p) \<le> length (prs_errors q)"
    "length (prs_errors q) = length (prs_errors p) \<Longrightarrow> amount_tree amt \<or> bare_amount_tree amt"
    using yields_optional_currency [of "\<lambda>_. True" U] a
    by (auto simp: yields_def) (metis fst_conv snd_conv)+
  define has_cur where "has_cur \<longleftrightarrow> find_token amt CURRENCY \<noteq> None"
  define more where "more = (if peek q = HASH then steps
            [only_if (\<lambda>_. has_cur)
               (failing (\<lambda>_. ''per-unit amount in combined cost form must not carry a currency'')),
             only_if (\<lambda>_. is_total) (failing (\<lambda>_. [CHR 0x27] @ ''#'' @ [CHR 0x27] @
               '' separator is not allowed inside total-cost braces {{...}}'')),
             take_token U,
             parse_cost_total U]
          else only_if (\<lambda>_. find_token amt CURRENCY = None)
            (failing (\<lambda>p. ''expected currency after amount in cost spec, got '' @ token_kind_name (peek p))))"
  have eq: "parse_cost_amount U is_total p = (CNode amt # fst (more q), snd (more q))"
    by (simp add: parse_cost_amount_def a more_def has_cur_def case_prod_beta)
  have 2: "yields (\<lambda>p. p = q) more (\<lambda>cs. if peek q = HASH then \<not> has_cur \<and> \<not> is_total \<and> cat [tk [HASH], sub amount_tree] cs
      else has_cur \<and> cs = [])"
  proof (cases "peek q = HASH")
    case True
    have "yields (at [HASH]) more (cat [\<lambda>cs. \<not> has_cur \<and> cs = [], \<lambda>cs. \<not> is_total \<and> cs = [], tk [HASH], sub amount_tree])"
      unfolding more_def using True
      by simp (intro yields_then [OF yields_reject, where Q = "at [HASH]"] yield_intros yields_take,
        simp_all add: at_def peek_reject)
    then show ?thesis using True by (elim yields_mono) (auto simp: at_def)
  next
    case False
    then show ?thesis by (auto simp: more_def has_cur_def yields_def only_if_def failing_def)
  qed
  have "length (prs_errors q) \<le> length (prs_errors (snd (more q)))" using 2 by (simp add: yields_def)
  moreover have "cost_first is_total (CNode amt # fst (more q))"
    if ok: "length (prs_errors (snd (more q))) = length (prs_errors q)" "amount_tree amt \<or> bare_amount_tree amt"
  proof (cases "peek q = HASH")
    case True
    then have "\<not> has_cur" "\<not> is_total" and hash: "cat [tk [HASH], sub amount_tree] (fst (more q))"
      using 2 ok(1) by (auto simp: yields_def)
    then have "sub bare_amount_tree [CNode amt]"
      using ok(2) find_token_amount(2) [of amt] by (auto simp: has_cur_def sub_def)
    with hash have "cat [sub bare_amount_tree, tk [HASH], sub amount_tree] ([CNode amt] @ fst (more q))"
      by (metis cat.simps(2))
    then show ?thesis
      using \<open>\<not> is_total\<close> unfolding cost_first_def alt_def by (simp only: append_Cons append_Nil simp_thms)
  next
    case False
    then have "has_cur" "fst (more q) = []" using 2 ok(1) by (auto simp: yields_def)
    then have "amount_tree amt" using ok(2) find_token_amount(1) [of amt] by (auto simp: has_cur_def)
    then show ?thesis by (simp add: cost_first_def alt_def sub_def \<open>fst (more q) = []\<close>)
  qed
  ultimately show "length (prs_errors p) \<le> length (prs_errors (snd (parse_cost_amount U is_total p))) \<and>
    (P p \<longrightarrow> length (prs_errors (snd (parse_cost_amount U is_total p))) = length (prs_errors p) \<longrightarrow>
      cost_first is_total (fst (parse_cost_amount U is_total p)))"
    using 1 by (simp add: eq)
qed

lemma yields_cost_first [yield_intros]: "yields P (parse_cost_first U is_total) (cost_first is_total)"
  unfolding parse_cost_first_def
proof (intro yields_if yields_cost_amount yields_unexpected)
  show "yields (\<lambda>p. (P p \<and> \<not> amount_start p) \<and> at [CURRENCY, DATE, STRING] p) (take_token U) (cost_first is_total)"
    unfolding cost_first_def by (intro yields_alt1 yields_alt2 yields_take) simp
qed

lemma yields_cost_contents [yield_intros]: "yields P (parse_cost_contents U is_total) (cost_contents is_total)"
proof -
  have "yields Q (loop (\<lambda>_ p. peek p = COMMA) (steps [take_token U, parse_cost_element U]))
      (many (cat [tk [COMMA], cost_element]))" for Q
    by (rule yields_loop, (intro strict_intros onward_intros | simp)+)
      (intro yield_intros yields_take, simp add: at_def)
  then show ?thesis
    unfolding parse_cost_contents_def cost_contents_def by (intro yield_intros)
qed

lemma yields_cost_spec [yield_intros]:
  assumes "\<And>p. P p \<Longrightarrow> at [LBRACE, LBRACE2] p"
  shows "yields P (parse_cost_spec U) cost_tree"
proof -
  have *: "yields P (\<lambda>p. (if peek p = LBRACE2
        then steps [take_token U, parse_cost_contents U True, expect_token U RBRACE2] p
        else steps [take_token U, parse_cost_contents U False, expect_token U RBRACE] p))
     (alt (cat [tk [LBRACE2], cost_contents True, tk [RBRACE2]])
          (cat [tk [LBRACE], cost_contents False, tk [RBRACE]]))"
  proof (rule yields_if)
    show "yields (\<lambda>p. P p \<and> peek p = LBRACE2) (steps [take_token U, parse_cost_contents U True, expect_token U RBRACE2])
      (alt (cat [tk [LBRACE2], cost_contents True, tk [RBRACE2]])
          (cat [tk [LBRACE], cost_contents False, tk [RBRACE]]))"
      by (rule yields_alt1, intro yield_intros yields_take) (simp add: at_def)
    show "yields (\<lambda>p. P p \<and> peek p \<noteq> LBRACE2) (steps [take_token U, parse_cost_contents U False, expect_token U RBRACE])
      (alt (cat [tk [LBRACE2], cost_contents True, tk [RBRACE2]])
          (cat [tk [LBRACE], cost_contents False, tk [RBRACE]]))"
      by (rule yields_alt2, intro yield_intros yields_take) (use assms in \<open>auto simp: at_def\<close>)
  qed
  have eq: "parse_cost_spec U = node_of CostSpecNode (\<lambda>p. (if peek p = LBRACE2
        then steps [take_token U, parse_cost_contents U True, expect_token U RBRACE2] p
        else steps [take_token U, parse_cost_contents U False, expect_token U RBRACE] p))"
    by (rule ext) (simp add: parse_cost_spec_def node_of_def del: steps.simps)
  show ?thesis
    unfolding cost_tree_def eq by (rule yields_node_of [OF *])
qed

lemma yields_meta_value: "yields P (parse_meta_value U) (tk [STRING, NUMBER, DATE, ACCOUNT, CURRENCY, TAG, LINK, IDENT])"
  unfolding parse_meta_value_def by (intro yields_if yields_take yields_failing) simp

lemma run_grows: "run U p ts q \<Longrightarrow> length (prs_errors p) \<le> length (prs_errors q)"
  by (induction rule: run.induct) simp_all

lemma node_runs_grows: "node_runs U f \<Longrightarrow> grows f"
  unfolding node_runs_def grows_def by (intro allI run_grows) (rule spec)

lemma yields_taking:
  assumes "\<And>t. tok_kind t \<in> set ks \<Longrightarrow> yields (\<lambda>_. True) (f t) A" and "\<And>p. P p \<Longrightarrow> at ks p"
    and "node_runs U g" and g: "\<And>p. g p = f (prs_tok p) (snd (advance U p))"
  shows "yields P g A"
  unfolding yields_def
proof (intro allI conjI impI)
  fix p :: parser
  show "length (prs_errors p) \<le> length (prs_errors (snd (g p)))"
    using node_runs_grows [OF assms(3)] unfolding grows_def by (rule spec)
  assume "P p" and "length (prs_errors (snd (g p))) = length (prs_errors p)"
  then show "A (fst (g p))"
    using assms(1) [of "prs_tok p"] assms(2) [of p] unfolding g
    by (simp add: yields_def at_def peek_def)
qed

lemma yields_metadata_line:
  assumes "\<And>p. P p \<Longrightarrow> at [IDENT] p"
  shows "yields P (try_parse_metadata_line U) metadata_tree"
proof -
  let ?val = "tk [STRING, NUMBER, DATE, ACCOUNT, CURRENCY, TAG, LINK, IDENT]"
  let ?rest = "\<lambda>key p. if peek p \<noteq> COLON
            then failing (\<lambda>_. ''expected '' @ [CHR 0x27] @ '':'' @ [CHR 0x27] @ '' after metadata key '' @
                   go_quote (tok_raw key)) p
            else steps [take_token U, only_if (\<lambda>p. same_line p \<and> peek p \<noteq> EOF) (parse_meta_value U)] p"
  have rest: "yields Q (?rest key) (cat [tk [COLON], opt ?val])" for Q key
    by (intro yields_if yields_failing yield_intros yields_take yields_meta_value) (simp add: at_def)
  have line: "yields (\<lambda>_. True) (node_of MetadataLineNode (steps [given key, ?rest key])) metadata_tree"
    if "tok_kind key \<in> set [IDENT]" for key
  proof -
    have "yields (\<lambda>_. True) (node_of MetadataLineNode (steps [given key, ?rest key]))
        (rule_of MetadataLineNode (cat [tk [IDENT], cat [tk [COLON], opt ?val]]))"
      using that by (intro yield_intros rest)
    then show ?thesis by (rule yields_mono) (auto simp: metadata_tree_def rule_of_def)
  qed
  have eq: "try_parse_metadata_line U p =
      node_of MetadataLineNode (steps [given (prs_tok p), ?rest (prs_tok p)]) (snd (advance U p))" for p
    unfolding try_parse_metadata_line_def case_prod_beta advance_sels(1) ..
  show ?thesis
    by (rule yields_taking [where ks = "[IDENT]", OF line assms runs_metadata_line eq])
qed

lemma yields_metadata [yield_intros]: "yields P (parse_metadata U) metadata"
  unfolding parse_metadata_def metadata_def
  by (rule yields_loop) (auto simp: at_def intro!: strict_intros yield_intros yields_metadata_line)

lemma yields_tags_links [yield_intros]: "yields P (parse_trailing_tags_links U) tags_links"
  unfolding parse_trailing_tags_links_def tags_links_def
  by (rule yields_loop) (auto simp: at_def intro!: yields_take)

text \<open>A posting without and with its metadata.\<close>

definition bare_posting :: lang where
  "bare_posting = cat [opt (tk [STAR, BANG]), tk [ACCOUNT],
     opt (cat [sub amount_tree, opt (sub cost_tree), opt (sub price_tree)])]"

lemma yields_posting: "yields P (parse_posting U) (rule_of PostingNode bare_posting)"
  unfolding parse_posting_def bare_posting_def
  by (intro yield_intros yields_take yields_price yields_cost_spec) simp_all

lemma many_append: "many A xs \<Longrightarrow> many A ys \<Longrightarrow> many A (xs @ ys)"
  unfolding many_def by (metis Un_iff concat_append set_append)

lemma many_single: "A xs \<Longrightarrow> many A xs"
  unfolding many_def by (intro exI [of _ "[xs]"]) simp

lemma many_Nil: "many A []"
  unfolding many_def by (intro exI [of _ "[]"]) simp

lemma metadata_add: "metadata ms \<Longrightarrow> metadata_tree m \<Longrightarrow> metadata (ms @ [CNode m])"
proof -
  assume ms: "metadata ms" and "metadata_tree m"
  then have "many (sub metadata_tree) [CNode m]" by (intro many_single) (simp add: sub_def)
  with ms show ?thesis unfolding metadata_def by (rule many_append)
qed

lemma cat_snoc: "cat (As @ [B]) cs \<longleftrightarrow> (\<exists>xs ys. cs = xs @ ys \<and> cat As xs \<and> B ys)"
proof (induction As arbitrary: cs)
  case (Cons A As)
  show ?case
  proof
    assume "cat ((A # As) @ [B]) cs"
    then obtain xs ys where "cs = xs @ ys" "A xs" "cat (As @ [B]) ys" by auto
    then obtain us vs where "ys = us @ vs" "cat As us" "B vs" using Cons.IH by blast
    with \<open>cs = xs @ ys\<close> \<open>A xs\<close> show "\<exists>xs ys. cs = xs @ ys \<and> cat (A # As) xs \<and> B ys"
      by (intro exI [of _ "xs @ us"] exI [of _ vs]) auto
  next
    assume "\<exists>xs ys. cs = xs @ ys \<and> cat (A # As) xs \<and> B ys"
    then obtain xs us vs where "cs = (xs @ us) @ vs" "A xs" "cat As us" "B vs" by auto
    then have "cat (As @ [B]) (us @ vs)" using Cons.IH by blast
    with \<open>cs = (xs @ us) @ vs\<close> \<open>A xs\<close> show "cat ((A # As) @ [B]) cs" by auto
  qed
qed auto

lemma posting_tree_iff: "posting_tree n \<longleftrightarrow> nd_kind n = PostingNode \<and>
    (\<exists>xs ys. nd_children n = xs @ ys \<and> bare_posting xs \<and> metadata ys)"
proof -
  have "posting_tree n \<longleftrightarrow> nd_kind n = PostingNode \<and> cat ([opt (tk [STAR, BANG]), tk [ACCOUNT],
     opt (cat [sub amount_tree, opt (sub cost_tree), opt (sub price_tree)])] @ [metadata]) (nd_children n)"
    unfolding posting_tree_def rule_of_def append_Cons append_Nil ..
  then show ?thesis unfolding cat_snoc bare_posting_def .
qed

lemma posting_tree_bare: "rule_of PostingNode bare_posting n \<Longrightarrow> posting_tree n"
  unfolding posting_tree_iff rule_of_def metadata_def by (metis append_Nil2 many_Nil)

lemma posting_tree_add: "posting_tree n \<Longrightarrow> metadata_tree m \<Longrightarrow> posting_tree (add_node n m)"
proof -
  assume "posting_tree n" and m: "metadata_tree m"
  then obtain xs ys where "nd_kind n = PostingNode" "nd_children n = xs @ ys" "bare_posting xs" "metadata ys"
    by (auto simp: posting_tree_iff)
  moreover from this have "metadata (ys @ [CNode m])" using m by (intro metadata_add)
  ultimately show ?thesis unfolding posting_tree_iff add_node_def by auto
qed

text \<open>Metadata of the transaction, then postings with theirs.\<close>

definition postings_so_far :: "child list \<Rightarrow> node option \<Rightarrow> bool" where
  "postings_so_far cs n \<longleftrightarrow>
     (case n of None \<Rightarrow> metadata cs
      | Some m \<Rightarrow> posting_tree m \<and> cat [metadata, many (sub posting_tree)] cs)"

lemma postings_flushed:
  assumes "postings_so_far cs n"
  shows "cat [metadata, many (sub posting_tree)] (cs @ flush n)"
proof (cases n)
  case None
  with assms have "metadata cs" by (simp add: postings_so_far_def)
  then show ?thesis using many_Nil [of "sub posting_tree"] by (auto simp: None flush_def)
next
  case (Some k)
  with assms obtain xs ys where cs: "cs = xs @ ys" "metadata xs" "many (sub posting_tree) ys" "posting_tree k"
    by (auto simp: postings_so_far_def)
  then have "many (sub posting_tree) [CNode k]" by (intro many_single) (simp add: sub_def)
  with cs have "many (sub posting_tree) (ys @ [CNode k])" by (intro many_append)
  with cs show ?thesis by (auto simp: Some flush_def)
qed

lemma yields_postings [yield_intros]:
  "yields P (parse_postings_and_metadata U) (cat [metadata, many (sub posting_tree)])"
  unfolding yields_def
proof (intro allI)
  fix p :: parser
  let ?I = "\<lambda>cs n q. length (prs_errors p) \<le> length (prs_errors q) \<and>
    (length (prs_errors q) = length (prs_errors p) \<longrightarrow> postings_so_far cs n)"
  have body: "?I cs' n' q'" if I: "?I cs n q" and at: "at [ACCOUNT, STAR, BANG, IDENT] q"
    and step: "posting_line U (cs, n, q) = (cs', n', q')" for cs n q cs' n' q'
  proof (cases "at [ACCOUNT, STAR, BANG] q")
    case True
    obtain m q1 where m: "parse_posting U q = (m, q1)" by fastforce
    have 1: "length (prs_errors q) \<le> length (prs_errors q1)"
      "length (prs_errors q1) = length (prs_errors q) \<Longrightarrow> posting_tree m"
      using yields_posting [of "\<lambda>_. True" U] posting_tree_bare m
      by (auto simp: yields_def) (metis fst_conv snd_conv)+
    show ?thesis
      using step True I 1 postings_flushed [of cs n] by (auto simp: posting_line_def m postings_so_far_def simp del: cat.simps)
  next
    case False
    obtain m q1 where m: "try_parse_metadata_line U q = (m, q1)" by fastforce
    have "at [IDENT] q" using at False by (auto simp: at_def)
    then have 1: "length (prs_errors q) \<le> length (prs_errors q1)"
      "length (prs_errors q1) = length (prs_errors q) \<Longrightarrow> metadata_tree m"
      using yields_metadata_line [of "at [IDENT]" U] m by (auto simp: yields_def)
    show ?thesis
      using step False I 1 metadata_add posting_tree_add
      by (auto simp: posting_line_def m postings_so_far_def simp del: cat.simps split: option.splits)
  qed
  have "\<exists>cs n. fst (parse_postings_and_metadata U p) = cs @ flush n \<and> ?I cs n (snd (parse_postings_and_metadata U p))"
  proof (rule postings_invariant [where Inv = ?I])
    show "?I [] None p" by (simp add: postings_so_far_def metadata_def many_Nil)
  qed (rule body)
  then show "length (prs_errors p) \<le> length (prs_errors (snd (parse_postings_and_metadata U p))) \<and>
    (P p \<longrightarrow> length (prs_errors (snd (parse_postings_and_metadata U p))) = length (prs_errors p) \<longrightarrow>
      cat [metadata, many (sub posting_tree)] (fst (parse_postings_and_metadata U p)))"
    using postings_flushed by metis
qed

subsection \<open>Directives and files\<close>

definition keyword :: "string \<Rightarrow> parser \<Rightarrow> bool" where
  "keyword w p \<longleftrightarrow> peek p = IDENT \<and> tok_raw (prs_tok p) = w"

lemma yields_dated:
  assumes "tok_kind t = DATE" and "yields (\<lambda>_. True) (steps fs) (cat As)"
  shows "yields (keyword w) (steps (given t # take_token U # fs)) (cat (tk [DATE] # kw w # As))"
  using assms
  by (intro yields_then [where Q = "keyword w"] yields_given yields_Cons yields_take_kw)
    (simp_all add: given_def keyword_def)

lemma yields_undated:
  assumes "yields (\<lambda>_. True) (steps fs) (cat As)"
  shows "yields (keyword w) (steps (take_token U # fs)) (cat (kw w # As))"
  using assms by (intro yields_Cons yields_take_kw) (simp_all add: keyword_def)

lemma yields_currency_list [yield_intros]:
  "yields P (loop (\<lambda>_ p. peek p = COMMA \<and> same_line p) (steps [take_token U, expect_token U CURRENCY]))
     (many (cat [tk [COMMA], tk [CURRENCY]]))"
  by (rule yields_loop, (intro strict_intros onward_intros | simp)+)
    (intro yield_intros yields_take, simp add: at_def)

lemma yields_custom_values [yield_intros]:
  "yields P (loop (\<lambda>_ p. same_line p \<and> peek p \<noteq> EOF \<and> (custom_value_start p \<or> amount_start p))
     (\<lambda>p. if custom_value_start p then take_token U p else sub_node (parse_amount U) p)) (many custom_value)"
  by (rule yields_loop, (intro strict_intros | simp)+)
    (unfold custom_value_def, intro yields_if, rule yields_alt1, intro yields_take,
      simp add: custom_value_start_def, rule yields_alt2, intro yield_intros)

lemma dated_yields:
  assumes t: "tok_kind t = DATE"
  shows "yields (keyword ''open'') (parse_open U t) top_level_tree"
    "yields (keyword ''balance'') (parse_balance U t) top_level_tree"
    "yields (keyword ''pad'') (parse_pad U t) top_level_tree"
    "yields (keyword ''close'') (parse_close U t) top_level_tree"
    "yields (keyword ''commodity'') (parse_commodity U t) top_level_tree"
    "yields (keyword ''note'') (parse_note U t) top_level_tree"
    "yields (keyword ''document'') (parse_document U t) top_level_tree"
    "yields (keyword ''event'') (parse_event U t) top_level_tree"
    "yields (keyword ''query'') (parse_query U t) top_level_tree"
    "yields (keyword ''price'') (parse_price U t) top_level_tree"
    "yields (keyword ''custom'') (parse_custom U t) top_level_tree"
proof -
  have intro: "yields (keyword w) (node_of k (steps (given t # take_token U # fs))) top_level_tree"
    if "yields (\<lambda>_. True) (steps fs) (cat (body @ [metadata]))" "dated_rule k w body \<in> set dated_trees" for w k fs body
  proof (rule yields_mono [OF yields_node_of [OF yields_dated [OF t that(1)]]])
    fix n assume "rule_of k (cat (tk [DATE] # kw w # body @ [metadata])) n"
    with that(2) show "top_level_tree n" by (auto simp: top_level_tree_def dated_rule_def)
  qed
  have mem: "dated_rule OpenDirective ''open'' [tk [ACCOUNT],
       opt (cat [tk [CURRENCY], many (cat [tk [COMMA], tk [CURRENCY]])]), opt (tk [STRING])] \<in> set dated_trees"
     "dated_rule BalanceDirective ''balance'' [tk [ACCOUNT], sub balance_amount_tree] \<in> set dated_trees"
     "dated_rule PadDirective ''pad'' [tk [ACCOUNT], tk [ACCOUNT]] \<in> set dated_trees"
     "dated_rule CloseDirective ''close'' [tk [ACCOUNT]] \<in> set dated_trees"
     "dated_rule CommodityDirective ''commodity'' [tk [CURRENCY]] \<in> set dated_trees"
     "dated_rule NoteDirective ''note'' [tk [ACCOUNT], tk [STRING], tags_links] \<in> set dated_trees"
     "dated_rule DocumentDirective ''document'' [tk [ACCOUNT], tk [STRING], tags_links] \<in> set dated_trees"
     "dated_rule EventDirective ''event'' [tk [STRING], tk [STRING]] \<in> set dated_trees"
     "dated_rule QueryDirective ''query'' [tk [STRING], tk [STRING]] \<in> set dated_trees"
     "dated_rule PriceDirective ''price'' [tk [CURRENCY], sub amount_tree] \<in> set dated_trees"
     "dated_rule CustomDirective ''custom'' [tk [STRING], many custom_value] \<in> set dated_trees"
    unfolding dated_trees_def by simp_all
  show "yields (keyword ''open'') (parse_open U t) top_level_tree"
    unfolding parse_open_def
    by (rule intro [OF _ mem(1)], unfold append_Cons append_Nil) (intro yield_intros yields_take, simp_all add: at_def)
  show "yields (keyword ''balance'') (parse_balance U t) top_level_tree"
    unfolding parse_balance_def by (rule intro [OF _ mem(2)], unfold append_Cons append_Nil) (intro yield_intros)
  show "yields (keyword ''pad'') (parse_pad U t) top_level_tree"
    unfolding parse_pad_def by (rule intro [OF _ mem(3)], unfold append_Cons append_Nil) (intro yield_intros)
  show "yields (keyword ''close'') (parse_close U t) top_level_tree"
    unfolding parse_close_def by (rule intro [OF _ mem(4)], unfold append_Cons append_Nil) (intro yield_intros)
  show "yields (keyword ''commodity'') (parse_commodity U t) top_level_tree"
    unfolding parse_commodity_def by (rule intro [OF _ mem(5)], unfold append_Cons append_Nil) (intro yield_intros)
  show "yields (keyword ''note'') (parse_note U t) top_level_tree"
    unfolding parse_note_def by (rule intro [OF _ mem(6)], unfold append_Cons append_Nil) (intro yield_intros)
  show "yields (keyword ''document'') (parse_document U t) top_level_tree"
    unfolding parse_document_def by (rule intro [OF _ mem(7)], unfold append_Cons append_Nil) (intro yield_intros)
  show "yields (keyword ''event'') (parse_event U t) top_level_tree"
    unfolding parse_event_def by (rule intro [OF _ mem(8)], unfold append_Cons append_Nil) (intro yield_intros)
  show "yields (keyword ''query'') (parse_query U t) top_level_tree"
    unfolding parse_query_def by (rule intro [OF _ mem(9)], unfold append_Cons append_Nil) (intro yield_intros)
  show "yields (keyword ''price'') (parse_price U t) top_level_tree"
    unfolding parse_price_def by (rule intro [OF _ mem(10)], unfold append_Cons append_Nil) (intro yield_intros)
  show "yields (keyword ''custom'') (parse_custom U t) top_level_tree"
    unfolding parse_custom_def by (rule intro [OF _ mem(11)], unfold append_Cons append_Nil) (intro yield_intros)
qed

lemma undated_yields:
  "yields (keyword ''option'') (parse_option U) top_level_tree"
  "yields (keyword ''plugin'') (parse_plugin U) top_level_tree"
  "yields (keyword ''include'') (parse_include U) top_level_tree"
  "yields (keyword ''pushtag'') (parse_pushtag U) top_level_tree"
  "yields (keyword ''poptag'') (parse_poptag U) top_level_tree"
proof -
  have intro: "yields (keyword w) (node_of k (steps (take_token U # fs))) top_level_tree"
    if "yields (\<lambda>_. True) (steps fs) (cat As)" "rule_of k (cat (kw w # As)) \<in> set undated_trees" for w k fs As
  proof (rule yields_mono [OF yields_node_of [OF yields_undated [OF that(1)]]])
    fix n assume "rule_of k (cat (kw w # As)) n"
    with that(2) show "top_level_tree n" by (auto simp: top_level_tree_def)
  qed
  have mem: "rule_of OptionDirective (cat [kw ''option'', tk [STRING], tk [STRING], metadata]) \<in> set undated_trees"
     "rule_of PluginDirective (cat [kw ''plugin'', tk [STRING], opt (tk [STRING]), metadata]) \<in> set undated_trees"
     "rule_of IncludeDirective (cat [kw ''include'', tk [STRING], metadata]) \<in> set undated_trees"
     "rule_of PushtagDirective (cat [kw ''pushtag'', tk [TAG]]) \<in> set undated_trees"
     "rule_of PoptagDirective (cat [kw ''poptag'', tk [TAG]]) \<in> set undated_trees"
    unfolding undated_trees_def by simp_all
  show "yields (keyword ''option'') (parse_option U) top_level_tree"
    unfolding parse_option_def by (rule intro [OF _ mem(1)]) (intro yield_intros)
  show "yields (keyword ''plugin'') (parse_plugin U) top_level_tree"
    unfolding parse_plugin_def by (rule intro [OF _ mem(2)]) (intro yield_intros yields_take, simp add: at_def)
  show "yields (keyword ''include'') (parse_include U) top_level_tree"
    unfolding parse_include_def by (rule intro [OF _ mem(3)]) (intro yield_intros)
  show "yields (keyword ''pushtag'') (parse_pushtag U) top_level_tree"
    unfolding parse_pushtag_def by (rule intro [OF _ mem(4)]) (intro yield_intros)
  show "yields (keyword ''poptag'') (parse_poptag U) top_level_tree"
    unfolding parse_poptag_def by (rule intro [OF _ mem(5)]) (intro yield_intros)
qed

lemma cat_nested: "cat (As @ [cat Bs]) cs \<Longrightarrow> cat (As @ Bs) cs"
proof (induction As arbitrary: cs)
  case (Cons A As)
  then show ?case by auto
qed simp

lemma transaction_yields:
  assumes "tok_kind t = DATE" and "\<And>p. P p \<Longrightarrow> at [STAR, BANG] p \<or> keyword ''txn'' p"
  shows "yields P (parse_transaction U t) top_level_tree"
proof -
  have flag: "yields P (take_token U) (alt (tk [STAR, BANG]) (kw ''txn''))"
    using assms(2)
    by (fastforce simp: yields_def take_token_def case_prod_beta alt_def tk_def kw_def at_def peek_def keyword_def)
  have "yields P (parse_transaction U t) (rule_of TransactionDirective (cat
     ([tk [DATE], alt (tk [STAR, BANG]) (kw ''txn''),
      opt (cat [tk [STRING], opt (tk [STRING])]), tags_links] @ [cat [metadata, many (sub posting_tree)]])))"
    unfolding parse_transaction_def append_Cons append_Nil
    by (intro yields_node_of yields_then [OF yields_given, where Q = P] yields_Cons [OF flag] yield_intros yields_take)
      (simp_all add: assms(1) given_def at_def)
  then show ?thesis
  proof (rule yields_mono)
    fix n assume "rule_of TransactionDirective (cat
     ([tk [DATE], alt (tk [STAR, BANG]) (kw ''txn''),
      opt (cat [tk [STRING], opt (tk [STRING])]), tags_links] @ [cat [metadata, many (sub posting_tree)]])) n"
    then have "rule_of TransactionDirective (cat
     ([tk [DATE], alt (tk [STAR, BANG]) (kw ''txn''),
      opt (cat [tk [STRING], opt (tk [STRING])]), tags_links] @ [metadata, many (sub posting_tree)])) n"
      unfolding rule_of_def using cat_nested by blast
    then have "transaction_tree n" by (simp only: transaction_tree_def append_Cons append_Nil)
    then show "top_level_tree n" by (simp add: top_level_tree_def)
  qed
qed

lemma many_tokens:
  "many (\<lambda>cs. \<exists>t. cs = [CToken t] \<and> tok_kind t \<noteq> EOF) cs \<Longrightarrow> \<forall>c \<in> set cs. \<exists>t. c = CToken t \<and> tok_kind t \<noteq> EOF"
  unfolding many_def by fastforce

lemma unrecognized_yields:
  "yields P (parse_unrecognized_line U) top_level_tree"
  "tok_kind t = DATE \<Longrightarrow> yields P (parse_dated_unrecognized U t) top_level_tree"
proof -
  let ?A = "\<lambda>cs. \<exists>t. cs = [CToken t] \<and> tok_kind t \<noteq> EOF"
  have take: "yields (\<lambda>p. \<exists>cs. peek p \<noteq> EOF \<and> c cs p) (take_token U) ?A" for c :: "child list \<Rightarrow> parser \<Rightarrow> bool"
    by (auto simp: yields_def take_token_def case_prod_beta peek_def)
  have "yields P (loop (\<lambda>cs p. peek p \<noteq> EOF \<and> \<not> (is_at_line_start p \<and> cs \<noteq> [])) (take_token U)) (many ?A)"
    by (rule yields_loop [OF _ _ take]) simp_all
  then have "yields P (parse_unrecognized_line U) (rule_of UnrecognizedLineNode (many ?A))"
    unfolding parse_unrecognized_line_def by (rule yields_node_of)
  then show "yields P (parse_unrecognized_line U) top_level_tree"
    by (rule yields_mono) (auto simp: top_level_tree_def unrecognized_tree_def rule_of_def dest: many_tokens)
  assume t: "tok_kind t = DATE"
  have "yields (\<lambda>_. True) (rest_of_line U) (many ?A)"
    unfolding rest_of_line_def by (rule yields_loop [OF _ _ take]) simp_all
  then have "yields P (parse_dated_unrecognized U t) (rule_of UnrecognizedLineNode (cat [tk [DATE], many ?A]))"
    unfolding parse_dated_unrecognized_def using t by (intro yield_intros) simp_all
  then show "yields P (parse_dated_unrecognized U t) top_level_tree"
  proof (rule yields_mono)
    fix n assume "rule_of UnrecognizedLineNode (cat [tk [DATE], many ?A]) n"
    then have "nd_kind n = UnrecognizedLineNode" "\<forall>c \<in> set (nd_children n). \<exists>t. c = CToken t \<and> tok_kind t \<noteq> EOF"
      by (auto simp: rule_of_def tk_def dest!: many_tokens)
    then show "top_level_tree n" by (simp add: top_level_tree_def unrecognized_tree_def rule_of_def)
  qed
qed

lemma yields_keyword:
  fixes f g :: "parser \<Rightarrow> node \<times> parser"
  assumes "yields (keyword w) f A" and "yields P g A"
  shows "yields P (\<lambda>p. if keyword w p then f p else g p) A"
  using assms by (auto simp: yields_def)

lemma dated_directive_yields:
  assumes "\<And>p. P p \<Longrightarrow> at [DATE] p"
  shows "yields P (parse_dated_directive U) top_level_tree"
proof -
  let ?f = "\<lambda>date p. if at [STAR, BANG] p then parse_transaction U date p
      else if peek p \<noteq> IDENT then parse_dated_unrecognized U date p
      else if keyword ''txn'' p then parse_transaction U date p
      else if keyword ''open'' p then parse_open U date p
      else if keyword ''balance'' p then parse_balance U date p
      else if keyword ''pad'' p then parse_pad U date p
      else if keyword ''close'' p then parse_close U date p
      else if keyword ''commodity'' p then parse_commodity U date p
      else if keyword ''note'' p then parse_note U date p
      else if keyword ''document'' p then parse_document U date p
      else if keyword ''event'' p then parse_event U date p
      else if keyword ''query'' p then parse_query U date p
      else if keyword ''price'' p then parse_price U date p
      else if keyword ''custom'' p then parse_custom U date p
      else parse_dated_unrecognized U date p"
  have txn: "yields (keyword ''txn'') (parse_transaction U t) top_level_tree" if "tok_kind t = DATE" for t
    by (rule transaction_yields [OF that]) simp
  have date: "yields (\<lambda>_. True) (?f t) top_level_tree" if "tok_kind t \<in> set [DATE]" for t
  proof -
    from that have t: "tok_kind t = DATE" by simp
    note rest = yields_keyword [OF txn [OF t]] yields_keyword [OF dated_yields(1) [OF t]]
      yields_keyword [OF dated_yields(2) [OF t]] yields_keyword [OF dated_yields(3) [OF t]]
      yields_keyword [OF dated_yields(4) [OF t]] yields_keyword [OF dated_yields(5) [OF t]]
      yields_keyword [OF dated_yields(6) [OF t]] yields_keyword [OF dated_yields(7) [OF t]]
      yields_keyword [OF dated_yields(8) [OF t]] yields_keyword [OF dated_yields(9) [OF t]]
      yields_keyword [OF dated_yields(10) [OF t]] yields_keyword [OF dated_yields(11) [OF t]]
    show ?thesis
      by (rule yields_if, rule transaction_yields [OF t], simp, rule yields_if,
          rule unrecognized_yields(2) [OF t], (rule rest)+, rule unrecognized_yields(2) [OF t])
  qed
  have eq: "parse_dated_directive U p = ?f (prs_tok p) (snd (advance U p))" for p
    unfolding parse_dated_directive_def keyword_def Let_def case_prod_beta by simp
  show ?thesis
    by (rule yields_taking [where f = ?f, OF date assms dated_directive(1) eq])
qed

lemma top_level_yields: "yields P (parse_top_level U) top_level_tree"
proof -
  have eq: "parse_top_level U = (\<lambda>p. if peek p = DATE then parse_dated_directive U p
      else if keyword ''option'' p then parse_option U p
      else if keyword ''plugin'' p then parse_plugin U p
      else if keyword ''include'' p then parse_include U p
      else if keyword ''pushtag'' p then parse_pushtag U p
      else if keyword ''poptag'' p then parse_poptag U p
      else parse_unrecognized_line U p)"
    by (rule ext) (auto simp: parse_top_level_def keyword_def Let_def)
  show ?thesis
    unfolding eq
    by (rule yields_if, rule dated_directive_yields, simp add: at_def,
        (rule undated_yields [THEN yields_keyword])+, rule unrecognized_yields(1))
qed

lemma parse_yields_file:
  assumes "sf_errors (parse U src) = []"
  shows "\<exists>root. sf_root (parse U src) = Some root \<and> file_tree root"
proof -
  let ?top = "loop (\<lambda>_ p. peek p \<noteq> EOF) (sub_node (parse_top_level U))"
  have top: "yields (\<lambda>_. True) ?top (many (sub top_level_tree))"
    by (rule yields_loop) (auto intro: strict_intros yields_sub_node top_level_yields)
  define p0 where "p0 = snd (advance U (new_parser src))"
  obtain cs p where l: "?top p0 = (cs, p)" by fastforce
  have eof: "peek p = EOF"
    using loop_invariant [of "sub_node (parse_top_level U)" "\<lambda>_ p. peek p \<noteq> EOF" "\<lambda>_ _. True" p0] l
    by (auto intro: strict_intros)
  have f: "parse U src = \<lparr>sf_root = Some (Node FileNode (cs @ [CToken (prs_tok p)])), sf_errors = prs_errors p\<rparr>"
    using l by (simp add: parse_def parse_file_def p0_def [symmetric] case_prod_beta take_token_def)
  have "length (prs_errors p0) \<le> length (prs_errors p)"
    and "length (prs_errors p) = length (prs_errors p0) \<Longrightarrow> many (sub top_level_tree) cs"
    using top l by (auto simp: yields_def) (metis fst_conv snd_conv)+
  then have "many (sub top_level_tree) cs" using assms by (simp add: f)
  moreover have "tk [EOF] [CToken (prs_tok p)]" using eof by (simp add: tk_def peek_def)
  ultimately show ?thesis by (auto simp: f file_tree_def rule_of_def)
qed

end
