(* ===== verification/Runes.thy ===== *)
theory Runes
  imports Scanner_Facts
begin

text \<open>
  Texts as runes, the way Go reads them: the loop \<open>for i, r := range s\<close>, \<open>utf8.RuneCountInString\<close>,
  and the quoting of texts and runes by \<open>%q\<close>, over the scanner's \<open>decode_rune\<close>.
\<close>

section \<open>Decoding\<close>

lemma decode_rune_shape:
  assumes "decode_rune (c # cs) = (r, w)"
  shows "byte_of c < 0x80 \<and> r = byte_of c \<and> w = 1 \<or>
    0x80 \<le> byte_of c \<and> 1 \<le> w \<and> w \<le> Suc (length cs) \<and> (\<forall>i < w - 1. 0x80 \<le> byte_of (cs ! i))"
proof -
  let ?bs = "map byte_of (take 3 cs)"
  have nth: "is_cont (?bs ! i) \<or> 0x80 \<le> ?bs ! i \<Longrightarrow> i < length ?bs \<Longrightarrow> 0x80 \<le> byte_of (cs ! i)" for i
    by (auto simp: is_cont_def)
  have less: "i < 2 \<longleftrightarrow> i = 0 \<or> i = 1" "i < 3 \<longleftrightarrow> i = 0 \<or> i = 1 \<or> i = 2" for i :: nat by auto
  define bs where "bs = ?bs"
  have len: "n \<le> length bs \<Longrightarrow> n \<le> length cs" for n by (simp add: bs_def)
  have ne: "Suc 0 \<le> length bs \<Longrightarrow> bs \<noteq> []" "2 \<le> length bs \<Longrightarrow> bs \<noteq> [] \<and> Suc 0 < length bs"
    "3 \<le> length bs \<Longrightarrow> bs \<noteq> [] \<and> Suc 0 < length bs \<and> 2 < length bs" by auto
  show ?thesis
    using assms unfolding decode_rune.simps(2) Let_def bs_def [symmetric]
    using nth [folded bs_def, of 0] nth [folded bs_def, of 1] nth [folded bs_def, of 2] len ne
    by (simp split: if_splits) (auto simp: less)
qed

lemma decode_rune_byte:
  assumes "decode_rune s = (r, w)" and "c \<in> set (take w s)" and "byte_of c < 0x80"
  shows "r = byte_of c"
proof (cases s)
  case (Cons d ds)
  have at: "decode_rune (d # ds) = (r, w)" using assms(1) Cons by simp
  from decode_rune_shape [OF at] show ?thesis
  proof
    assume "0x80 \<le> byte_of d \<and> 1 \<le> w \<and> w \<le> Suc (length ds) \<and> (\<forall>i < w - 1. 0x80 \<le> byte_of (ds ! i))"
    then have "\<forall>x \<in> set (take w s). 0x80 \<le> byte_of x"
      by (cases w) (auto simp: Cons in_set_conv_nth)
    with assms(2,3) show ?thesis by fastforce
  qed (use assms(2) Cons in auto)
qed (use assms(2) in simp)

text \<open>The first rune does not change when the text goes on after it with an ASCII byte.\<close>

definition ascii_or_end :: "string \<Rightarrow> bool" where
  "ascii_or_end rest \<longleftrightarrow> rest = [] \<or> byte_of (hd rest) < 0x80"

lemma decode_rune_append:
  assumes "s \<noteq> []" and "ascii_or_end rest"
  shows "decode_rune (s @ rest) = decode_rune s"
proof -
  obtain c cs where s: "s = c # cs" using assms(1) by (cases s) auto
  show ?thesis
  proof (cases rest)
    case Nil
    then show ?thesis by simp
  next
    case (Cons d ds)
    then have d: "byte_of d < 0x80" using assms(2) by (simp add: ascii_or_end_def)
    consider "cs = []" | x where "cs = [x]" | x y where "cs = [x, y]" | x y z zs where "cs = x # y # z # zs"
      by (metis neq_Nil_conv)
    then show ?thesis
      using d by cases (simp_all add: s Cons decode_rune.simps(2) Let_def is_cont_def numeral_3_eq_3)
  qed
qed

text \<open>The first rune of a text is that of every longer beginning of it.\<close>

lemma decode_rune_prefix:
  assumes "decode_rune (xs @ ys) = (r, w)" and "w \<le> length xs"
  shows "decode_rune xs = (r, w)"
proof (cases xs)
  case Nil
  then have "w = 0" using assms(2) by simp
  then have "ys = []" using assms(1) decode_rune_width [of ys r w] Nil by auto
  then show ?thesis using assms(1) Nil by simp
next
  case (Cons c cs)
  consider "cs = []" | x where "cs = [x]" | x y where "cs = [x, y]" | x y z zs where "cs = x # y # z # zs"
    by (metis neq_Nil_conv)
  then show ?thesis
    using assms
    by cases (auto simp: Cons decode_rune.simps(2) Let_def numeral_3_eq_3 split: if_splits)
qed

section \<open>Ranging over a text\<close>

function runes :: "nat \<Rightarrow> string \<Rightarrow> (nat \<times> nat) list" where
  "runes i s =
     (if s = [] then []
      else let (r, w) = decode_rune s in (i, r) # runes (i + w) (drop w s))"
  by pat_completeness auto
termination
proof (relation "measure (\<lambda>(i, s). length s)", goal_cases)
  case (2 i s p r w)
  then show ?case using decode_rune_width [of s r w] by auto
qed simp

declare runes.simps [simp del]

lemma runes_Nil [simp]: "runes i [] = []"
  by (simp add: runes.simps)

lemma runes_step: "s \<noteq> [] \<Longrightarrow> decode_rune s = (r, w) \<Longrightarrow> runes i s = (i, r) # runes (i + w) (drop w s)"
  by (simp add: runes.simps [of i s])

lemma map_snd_runes: "map snd (runes i s) = map snd (runes j s)"
proof (induction i s arbitrary: j rule: runes.induct)
  case (1 i s)
  show ?case
  proof (cases "s = []")
    case False
    obtain r w where d: "decode_rune s = (r, w)" by fastforce
    show ?thesis using 1 [OF False d [symmetric] refl, of "j + w"] False d by (simp add: runes_step)
  qed simp
qed

lemma length_runes [simp]: "length (runes i s) \<le> length s"
proof (induction i s rule: runes.induct)
  case (1 i s)
  show ?case
  proof (cases "s = []")
    case False
    obtain r w where d: "decode_rune s = (r, w)" by fastforce
    have "0 < w" "w \<le> length s" "length (runes (i + w) (drop w s)) \<le> length s - w"
      using decode_rune_width [OF False d] 1 [OF False d [symmetric] refl] by simp_all
    with False d show ?thesis by (simp add: runes_step)
  qed simp
qed

definition rune_count :: "string \<Rightarrow> nat" where
  "rune_count s = length (runes 0 s)"

lemma all_runes_step:
  assumes "s \<noteq> []" and "decode_rune s = (r, w)"
  shows "(\<forall>x \<in> set (runes i s). P (snd x)) \<longleftrightarrow> P r \<and> (\<forall>x \<in> set (runes 0 (drop w s)). P (snd x))"
proof -
  have l: "(\<forall>x \<in> set (runes j t). P (snd x)) \<longleftrightarrow> list_all P (map snd (runes j t))" for j t
    by (simp add: list_all_iff)
  have "(\<forall>x \<in> set (runes j t). P (snd x)) \<longleftrightarrow> (\<forall>x \<in> set (runes 0 t). P (snd x))" for j t
    unfolding l map_snd_runes [of j t 0] ..
  from this [of "i + w" "drop w s"] show ?thesis using assms by (simp add: runes_step)
qed

section \<open>Quoting\<close>

definition hex_digit :: "nat \<Rightarrow> char" where
  "hex_digit n = ''0123456789abcdef'' ! (n mod 16)"

fun hex_digits :: "nat \<Rightarrow> nat \<Rightarrow> string" where
  "hex_digits 0 r = []"
| "hex_digits (Suc k) r = hex_digits k (r div 16) @ [hex_digit r]"

definition is_print :: "unicode \<Rightarrow> nat \<Rightarrow> bool" where
  "is_print U r =
     (if r < 0x80 then 0x20 \<le> r \<and> r \<le> 0x7E
      else take 1 (U r) \<in> set [''L'', ''M'', ''N'', ''P'', ''S''])"

definition encode_rune :: "nat \<Rightarrow> string" where
  "encode_rune r =
     map char_of
      (if r < 0x80 then [r]
       else if r < 0x800 then [0xC0 + r div 64, 0x80 + r mod 64]
       else if r < 0x10000 then [0xE0 + r div 4096, 0x80 + r div 64 mod 64, 0x80 + r mod 64]
       else [0xF0 + r div 262144, 0x80 + r div 4096 mod 64, 0x80 + r div 64 mod 64, 0x80 + r mod 64])"

definition escape_rune :: "unicode \<Rightarrow> char \<Rightarrow> nat \<Rightarrow> string" where
  "escape_rune U quote r =
     (if r = byte_of quote \<or> r = 0x5C then [CHR 0x5C, char_of r]
      else if is_print U r then encode_rune r
      else case map_of [(7, CHR ''a''), (8, CHR ''b''), (12, CHR ''f''), (10, CHR ''n''), (13, CHR ''r''),
             (9, CHR ''t''), (11, CHR ''v'')] r of
        Some c \<Rightarrow> [CHR 0x5C, c]
      | None \<Rightarrow>
        if r < 0x20 \<or> r = 0x7F then [CHR 0x5C, CHR ''x''] @ hex_digits 2 r
        else if r < 0x10000 then [CHR 0x5C, CHR ''u''] @ hex_digits 4 r
        else [CHR 0x5C, CHR ''U''] @ hex_digits 8 r)"

text \<open>\<open>%q\<close> of a rune and of a text; a byte that is no encoding is written in hexadecimal.\<close>

definition quote_rune :: "unicode \<Rightarrow> nat \<Rightarrow> string" where
  "quote_rune U r = CHR 0x27 # escape_rune U (CHR 0x27) r @ [CHR 0x27]"

function quote_body :: "unicode \<Rightarrow> string \<Rightarrow> string" where
  "quote_body U s =
     (if s = [] then []
      else let (r, w) = decode_rune s in
        (if w = 1 \<and> r = rune_error then [CHR 0x5C, CHR ''x''] @ hex_digits 2 (byte_of (hd s))
         else escape_rune U (CHR 0x22) r) @ quote_body U (drop w s))"
  by pat_completeness auto
termination
proof (relation "measure (\<lambda>(U, s). length s)", goal_cases)
  case (2 U s p r w)
  then show ?case using decode_rune_width [of s r w] by auto
qed simp

declare quote_body.simps [simp del]

definition quote_text :: "unicode \<Rightarrow> string \<Rightarrow> string" where
  "quote_text U s = CHR 0x22 # quote_body U s @ [CHR 0x22]"

end
