(* ===== verification/Account_Names.thy ===== *)
theory Account_Names
  imports Account Runes
begin

text \<open>
  Validity and construction of account names (\<open>pkg/ast/account.go\<close>), and the agreement of this
  check with the scanner: the texts it reads as one account are the valid names with a component
  after the root.
\<close>

section \<open>Components\<close>

definition is_valid_component :: "unicode \<Rightarrow> string \<Rightarrow> bool" where
  "is_valid_component U s =
     (if s = [] then False
      else case runes 0 s of [] \<Rightarrow> True
      | (i, r) # rest \<Rightarrow>
          if \<not> is_account_component_start U r then False
          else \<forall>x \<in> set rest. is_account_component_cont U (snd x))"

definition validate_component :: "unicode \<Rightarrow> string \<Rightarrow> string option" where
  "validate_component U s =
     (if s = [] then Some ''ast: empty account component''
      else case find (\<lambda>(i, r). if i = 0 then \<not> is_account_component_start U r
                       else \<not> is_account_component_cont U r) (runes 0 s) of
        None \<Rightarrow> None
      | Some (i, r) \<Rightarrow>
          Some (''ast: invalid account component '' @ quote_text U s @
            (if i = 0 then '': illegal start rune '' @ quote_rune U r
             else '': illegal rune '' @ quote_rune U r @ '' at offset '' @ show_nat i)))"

definition acct_sub :: "unicode \<Rightarrow> account \<Rightarrow> string list \<Rightarrow> account result" where
  "acct_sub U a components =
     (if components = [] then Inr a
      else case List.find (\<lambda>c. validate_component U c \<noteq> None) components of
        Some c \<Rightarrow> Inl (SysErr (the (validate_component U c)))
      | None \<Rightarrow> Inr (a @ concat (map (\<lambda>c. CHR '':'' # c) components)))"

definition acct_must_sub :: "unicode \<Rightarrow> account \<Rightarrow> string list \<Rightarrow> account result" where
  "acct_must_sub U a components =
     (case acct_sub U a components of Inl (SysErr e) \<Rightarrow> Inl (Panic e) | r \<Rightarrow> r)"

definition account_valid :: "unicode \<Rightarrow> account \<Rightarrow> bool" where
  "account_valid U a =
     (if a = [] then False
      else case split_on (CHR '':'') a of [] \<Rightarrow> False
      | w # rest \<Rightarrow> if \<not> is_account_root w then False else \<forall>c \<in> set rest. is_valid_component U c)"

section \<open>Words of component characters\<close>

definition cont_word :: "unicode \<Rightarrow> string \<Rightarrow> bool" where
  "cont_word U s \<longleftrightarrow> (\<forall>x \<in> set (runes 0 s). is_account_component_cont U (snd x))"

lemma cont_word_Nil [simp]: "cont_word U []"
  by (simp add: cont_word_def)

lemma cont_word_step:
  "s \<noteq> [] \<Longrightarrow> decode_rune s = (r, w) \<Longrightarrow>
     cont_word U s \<longleftrightarrow> is_account_component_cont U r \<and> cont_word U (drop w s)"
  by (simp add: cont_word_def all_runes_step)

lemma valid_component_step:
  assumes "s \<noteq> []" and "decode_rune s = (r, w)"
  shows "is_valid_component U s \<longleftrightarrow> is_account_component_start U r \<and> cont_word U (drop w s)"
proof -
  have *: "(\<forall>x \<in> set (runes j t). is_account_component_cont U (snd x)) \<longleftrightarrow> cont_word U t" for j t
  proof (cases "t = []")
    case False
    obtain r w where "decode_rune t = (r, w)" by fastforce
    with False show ?thesis by (simp add: cont_word_step all_runes_step) (simp add: cont_word_def)
  qed simp
  from assms * [of w "drop w s"] show ?thesis by (simp add: is_valid_component_def runes_step)
qed

lemma runes_positive: "x \<in> set (runes i s) \<Longrightarrow> i \<le> fst x"
proof (induction i s rule: runes.induct)
  case (1 i s)
  show ?case
  proof (cases "s = []")
    case False
    obtain r w where d: "decode_rune s = (r, w)" by fastforce
    with 1 False show ?thesis by (fastforce simp: runes_step)
  qed (use 1 in simp)
qed

lemma validate_component_None: "validate_component U s = None \<longleftrightarrow> is_valid_component U s"
proof (cases "s = []")
  case False
  obtain r w where d: "decode_rune s = (r, w)" by fastforce
  have "0 < w" using decode_rune_width [OF False d] by simp
  then have "fst x \<noteq> 0" if "x \<in> set (runes w (drop w s))" for x
    using runes_positive [OF that] by simp
  then have "List.find (\<lambda>(i, r). if i = 0 then \<not> is_account_component_start U r
        else \<not> is_account_component_cont U r) (runes w (drop w s)) =
      List.find (\<lambda>x. \<not> is_account_component_cont U (snd x)) (runes w (drop w s))"
    by (intro find_cong) fastforce+
  with False d show ?thesis
    by (auto simp: validate_component_def is_valid_component_def runes_step find_None_iff
        dest: find_SomeD split: option.splits)
qed (simp_all add: validate_component_def is_valid_component_def)

lemma colon_not_cont: "\<not> is_account_component_cont U 58" "\<not> is_account_component_start U 58"
  by (simp_all add: is_account_component_cont_def is_account_component_start_def)

lemma byte_of_colon [simp]: "byte_of (CHR '':'') = 58"
  by (simp add: byte_of_def)

lemma decode_no_colon:
  assumes "decode_rune s = (r, w)" and "r \<noteq> 58"
  shows "CHR '':'' \<notin> set (take w s)"
  using decode_rune_byte [OF assms(1), of "CHR '':''"] assms(2) by auto

lemma set_take_drop: "x \<in> set s \<Longrightarrow> x \<in> set (take n s) \<or> x \<in> set (drop n s)"
  by (metis Un_iff append_take_drop_id set_append)

lemma cont_word_no_colon: "cont_word U s \<Longrightarrow> CHR '':'' \<notin> set s"
proof (induction s rule: length_induct)
  case (1 s)
  show ?case
  proof (cases "s = []")
    case False
    obtain r w where d: "decode_rune s = (r, w)" by fastforce
    with 1 False have "is_account_component_cont U r" "cont_word U (drop w s)"
      by (simp_all add: cont_word_step)
    moreover from this have "r \<noteq> 58" using colon_not_cont by metis
    ultimately show ?thesis
      using 1 decode_rune_width [OF False d] decode_no_colon [OF d]
      by (auto dest: set_take_drop [of _ s w])
  qed simp
qed

lemma valid_component_no_colon: "is_valid_component U s \<Longrightarrow> CHR '':'' \<notin> set s"
proof (cases "s = []")
  case False
  assume v: "is_valid_component U s"
  obtain r w where d: "decode_rune s = (r, w)" by fastforce
  with v False have "is_account_component_start U r" "cont_word U (drop w s)"
    by (simp_all add: valid_component_step)
  moreover from this have "r \<noteq> 58" using colon_not_cont by metis
  ultimately show ?thesis
    using cont_word_no_colon [of U "drop w s"] decode_no_colon [OF d]
    by (auto dest: set_take_drop [of _ s w])
qed simp

section \<open>Paths\<close>

definition below :: "string list \<Rightarrow> string" where
  "below cs = concat (map (\<lambda>c. CHR '':'' # c) cs)"

lemma below_simps [simp]: "below [] = []" "below (c # cs) = CHR '':'' # c @ below cs"
  "below (as @ bs) = below as @ below bs"
  by (simp_all add: below_def)

lemma split_on_free: "c \<notin> set s \<Longrightarrow> split_on c s = [s]"
  by (induction s) auto

lemma split_on_sep: "split_on c (a @ c # s) = split_on c a @ split_on c s"
proof (induction a)
  case (Cons x a)
  then show ?case by (cases "split_on c a") auto
qed simp

lemma split_below: "\<forall>c \<in> set cs. CHR '':'' \<notin> set c \<Longrightarrow> split_on (CHR '':'') (a @ below cs) = split_on (CHR '':'') a @ cs"
proof (induction cs arbitrary: a)
  case (Cons c cs)
  then show ?case using Cons.IH [of "a @ CHR '':'' # c"] by (simp add: split_on_sep split_on_free)
qed simp

lemma join_below: "xs \<noteq> [] \<Longrightarrow> join_with '':'' xs = hd xs @ below (tl xs)"
  by (induction xs rule: induct_list012) auto

lemma split_parts: "split_on (CHR '':'') a = w # cs \<Longrightarrow> a = w @ below cs"
  using join_split [of "CHR '':''" a] by (simp add: join_below)

lemma root_no_colon: "is_account_root w \<Longrightarrow> w \<noteq> [] \<and> CHR '':'' \<notin> set w"
  by (auto simp: is_account_root_def)

lemma account_valid_iff:
  "account_valid U a \<longleftrightarrow>
     (\<exists>w cs. a = w @ below cs \<and> is_account_root w \<and> (\<forall>c \<in> set cs. is_valid_component U c))"
proof
  assume v: "account_valid U a"
  obtain w cs where s: "split_on (CHR '':'') a = w # cs" by (cases "split_on (CHR '':'') a") auto
  with v have "is_account_root w" "\<forall>c \<in> set cs. is_valid_component U c"
    by (auto simp: account_valid_def split: if_splits)
  with split_parts [OF s]
  show "\<exists>w cs. a = w @ below cs \<and> is_account_root w \<and> (\<forall>c \<in> set cs. is_valid_component U c)" by blast
next
  assume "\<exists>w cs. a = w @ below cs \<and> is_account_root w \<and> (\<forall>c \<in> set cs. is_valid_component U c)"
  then obtain w cs where a: "a = w @ below cs" and w: "is_account_root w"
    and cs: "\<forall>c \<in> set cs. is_valid_component U c" by blast
  have "split_on (CHR '':'') a = w # cs"
  proof -
    have "\<forall>c \<in> set cs. CHR '':'' \<notin> set c" using cs valid_component_no_colon by blast
    then show ?thesis using a root_no_colon [OF w] split_below [of cs w] by (simp add: split_on_free)
  qed
  then show "account_valid U a" using a w cs root_no_colon [OF w] by (simp add: account_valid_def)
qed

lemma acct_sub_Inr:
  "acct_sub U a cs = Inr b \<longleftrightarrow> (\<forall>c \<in> set cs. is_valid_component U c) \<and> b = a @ below cs"
proof (cases "List.find (\<lambda>c. validate_component U c \<noteq> None) cs")
  case None
  then have "\<forall>c \<in> set cs. is_valid_component U c"
    by (simp add: find_None_iff validate_component_None [symmetric])
  with None show ?thesis by (auto simp: acct_sub_def below_def)
next
  case (Some c)
  then have "c \<in> set cs" "\<not> is_valid_component U c" "cs \<noteq> []"
    using find_SomeD [OF Some] by (auto simp: validate_component_None [symmetric])
  with Some show ?thesis by (auto simp: acct_sub_def)
qed

section \<open>The accounts of the scanner\<close>

definition rest_text :: "scanner \<Rightarrow> string" where
  "rest_text s = drop (sc_offset s) (sc_src s)"

lemma rest_text_skip: "rest_text (skip n s) = drop n (rest_text s)"
  by (simp add: rest_text_def add.commute)

lemma rest_text_Nil: "\<not> sc_offset s < length (sc_src s) \<longleftrightarrow> rest_text s = []"
  by (auto simp: rest_text_def)

lemma between_rest: "moves s s' \<Longrightarrow> between s s' @ rest_text s' = rest_text s"
proof -
  assume m: "moves s s'"
  show ?thesis
  proof (cases "sc_offset s' \<le> length (sc_src s)")
    case True
    then show ?thesis
      using m slice_append [of "sc_offset s" "sc_offset s'" "length (sc_src s)" "sc_src s"]
      by (simp add: between_def rest_text_def moves_def slice_def)
  next
    case False
    then have "length (sc_src s) < sc_offset s" using m by (auto simp: moves_def)
    with False m show ?thesis by (simp add: between_def rest_text_def slice_def moves_def)
  qed
qed

lemma between_skip: "w \<le> length (rest_text s) \<Longrightarrow> rest_text s \<noteq> [] \<Longrightarrow> between s (skip w s) = take w (rest_text s)"
  by (simp add: between_def slice_def rest_text_def take_drop add.commute)

text \<open>What \<open>component_rest\<close> reads is a word of component characters, and it goes on as long as it can.\<close>

lemma component_rest_word: "cont_word U (between s (component_rest U s))"
proof (induction U s rule: component_rest.induct)
  case (1 U s)
  obtain r w where d: "decode_rune (rest_text s) = (r, w)" by fastforce
  show ?case
  proof (cases "rest_text s \<noteq> [] \<and> is_account_component_cont U r")
    case True
    let ?s1 = "skip w s" and ?s2 = "component_rest U (skip w s)"
    have w: "0 < w" "w \<le> length (rest_text s)" using decode_rune_width [OF _ d] True by auto
    have lt: "sc_offset s < length (sc_src s)" using True rest_text_Nil [of s] by blast
    have eq: "component_rest U s = ?s2"
      using True d lt by (simp add: component_rest.simps [of U s] rest_text_def)
    have m: "moves s ?s1" using w lt by (intro moves_skip) (simp add: rest_text_def)
    have b: "between s ?s2 = take w (rest_text s) @ between ?s1 ?s2"
      using between_append [OF m component_rest_moves [of ?s1 U]] True w by (simp add: between_skip)
    have "rest_text s = between s ?s2 @ rest_text ?s2"
      using between_rest [OF component_rest_moves [of s U]] eq by simp
    then have "decode_rune (between s ?s2 @ rest_text ?s2) = (r, w)" using d by simp
    moreover have "w \<le> length (between s ?s2)" using b w by simp
    ultimately have "decode_rune (between s ?s2) = (r, w)" by (rule decode_rune_prefix)
    moreover have "cont_word U (between ?s1 ?s2)"
      using 1 [OF lt, of "(r, w)" r w] d True by (simp add: rest_text_def)
    ultimately show ?thesis
      using True w b by (auto simp: eq cont_word_step)
  next
    case False
    then have "component_rest U s = s"
      using d rest_text_Nil [of s] by (auto simp: component_rest.simps [of U s] rest_text_def)
    then show ?thesis by simp
  qed
qed

lemma component_rest_all:
  assumes "rest_text s = x @ rest" and "cont_word U x"
    and "rest = [] \<or> (\<exists>ys. rest = CHR '':'' # ys)"
  shows "component_rest U s = skip (length x) s"
  using assms(1,2)
proof (induction "length x" arbitrary: x s rule: less_induct)
  case less
  have ae: "ascii_or_end rest" using assms(3) by (auto simp: ascii_or_end_def)
  show ?case
  proof (cases "x = []")
    case True
    have "fst (decode_rune rest) = 58" if "rest \<noteq> []"
      using that assms(3) by (auto simp: decode_rune.simps(2) Let_def)
    then have "component_rest U s = s"
      using less.prems True colon_not_cont rest_text_Nil [of s]
      by (cases "decode_rune rest") (auto simp: component_rest.simps [of U s] rest_text_def)
    then show ?thesis using True by (simp add: skip_def)
  next
    case False
    obtain r w where d: "decode_rune x = (r, w)" by fastforce
    have w: "0 < w" "w \<le> length x" using decode_rune_width [OF False d] by auto
    have "decode_rune (rest_text s) = (r, w)"
      using decode_rune_append [OF False ae] less.prems d by simp
    moreover have "is_account_component_cont U r" "cont_word U (drop w x)"
      using less.prems(2) False d by (simp_all add: cont_word_step)
    moreover have "sc_offset s < length (sc_src s)"
      using less.prems(1) False rest_text_Nil [of s] by auto
    ultimately have "component_rest U s = component_rest U (skip w s)"
      by (simp add: component_rest.simps [of U s] rest_text_def)
    also have "\<dots> = skip (length (drop w x)) (skip w s)"
      using less.prems w \<open>cont_word U (drop w x)\<close>
      by (intro less.hyps) (simp_all add: rest_text_skip)
    also have "\<dots> = skip (length x) s" using w by (simp add: skip_def)
    finally show ?thesis .
  qed
qed

lemma byte_is_rest: "byte_is s (sc_offset s) P \<longleftrightarrow> (\<exists>c cs. rest_text s = c # cs \<and> P c)"
  by (cases "rest_text s") (auto simp: byte_is_def rest_text_def not_less dest: nth_via_drop
      intro: ccontr)

lemma account_components_read:
  "account_components U n s = (m, s') \<Longrightarrow>
     \<exists>cs. between s s' = below cs \<and> m = n + length cs \<and> (\<forall>c \<in> set cs. is_valid_component U c)"
proof (induction U n s rule: account_components.induct)
  case (1 U n s)
  obtain r w where d: "decode_rune (drop (sc_offset s + 1) (sc_src s)) = (r, w)" by fastforce
  show ?case
  proof (cases "byte_is s (sc_offset s) (\<lambda>c. c = CHR '':'') \<and> sc_offset s + 1 < length (sc_src s) \<and>
      is_account_component_start U r")
    case False
    then have "m = n \<and> s' = s"
      using 1(2) d by (auto simp: account_components.simps [of U n s] Let_def split: if_splits)
    then show ?thesis by (intro exI [of _ "[]"]) simp
  next
    case True
    let ?s1 = "skip 1 s" and ?s2 = "skip (1 + w) s"
    let ?s3 = "component_rest U ?s2"
    have w: "0 < w" "w \<le> length (rest_text ?s1)" "rest_text ?s1 \<noteq> []"
      using decode_rune_width [OF _ d] True by (auto simp: rest_text_def)
    have dr: "decode_rune (rest_text ?s1) = (r, w)" using d by (simp add: rest_text_def)
    have rec: "account_components U (n + 1) ?s3 = (m, s')"
      using 1(2) d True by (simp add: account_components.simps [of U n s])
    then obtain cs where cs: "between ?s3 s' = below cs" "m = n + 1 + length cs"
      "\<forall>c \<in> set cs. is_valid_component U c"
      using 1(1) [of "sc_offset s + 1" "(r, w)" r w] True d by auto
    define c where "c = between ?s1 ?s3"
    have s2: "?s2 = skip w ?s1" by (simp add: skip_def)
    have m12: "moves ?s1 ?s2" using w unfolding s2 by (intro moves_skip) (simp add: rest_text_def)
    have m13: "moves ?s1 ?s3" using m12 component_rest_moves moves_trans by blast
    have m01: "moves s ?s1" using True by (intro moves_skip_1) (simp add: byte_is_def)
    have m3: "moves ?s3 s'" using account_components_moves [of ?s3 U "n + 1"] rec by simp
    have colon: "between s ?s1 = '':''"
      using True by (auto simp: byte_is_rest between_skip)
    have ct: "c = take w (rest_text ?s1) @ between ?s2 ?s3"
    proof -
      have "between ?s1 ?s2 = take w (rest_text ?s1)" unfolding s2 by (rule between_skip [OF w(2,3)])
      then show ?thesis using between_append [OF m12 component_rest_moves [of ?s2 U]] by (simp only: c_def)
    qed
    have "rest_text ?s1 = c @ rest_text ?s3"
      using between_rest [OF m13] by (simp add: c_def)
    then have "decode_rune c = (r, w)" using dr ct w by (intro decode_rune_prefix [of c "rest_text ?s3"]) auto
    moreover have "drop w c = between ?s2 ?s3" using ct w by simp
    ultimately have "is_valid_component U c"
      using True w ct component_rest_word [of U ?s2] by (auto simp: valid_component_step)
    moreover have "between s s' = '':'' @ c @ below cs"
      by (simp only: between_append [OF m01 m13, symmetric] colon cs(1) c_def append_assoc
          between_append [OF moves_trans [OF m01 m13] m3, symmetric])
    ultimately show ?thesis using cs by (intro exI [of _ "c # cs"]) simp
  qed
qed

lemma account_components_all:
  assumes "rest_text s = below cs" and "\<forall>c \<in> set cs. is_valid_component U c"
  shows "account_components U n s = (n + length cs, skip (length (below cs)) s)"
  using assms
proof (induction cs arbitrary: s n)
  case Nil
  then show ?case by (simp add: account_components.simps [of U n s] byte_is_rest skip_def)
next
  case (Cons c cs)
  have c: "is_valid_component U c" "c \<noteq> []" using Cons.prems(2) by (auto simp: is_valid_component_def)
  obtain r w where d: "decode_rune c = (r, w)" by fastforce
  have w: "0 < w" "w \<le> length c" using decode_rune_width [OF c(2) d] by auto
  have v: "is_account_component_start U r" "cont_word U (drop w c)"
    using c valid_component_step [OF c(2) d] by simp_all
  have rest: "below cs = [] \<or> (\<exists>ys. below cs = CHR '':'' # ys)" by (cases cs) auto
  have "ascii_or_end (below cs)" using rest by (auto simp: ascii_or_end_def)
  then have dr: "decode_rune (drop (sc_offset s + 1) (sc_src s)) = (r, w)"
    using Cons.prems(1) decode_rune_append [OF c(2)] d rest_text_skip [of 1 s]
    by (simp add: rest_text_def)
  have lt: "sc_offset s + 1 < length (sc_src s)"
    using Cons.prems(1) c(2) rest_text_Nil [of "skip 1 s"] by (auto simp: rest_text_skip)
  let ?s2 = "skip (1 + w) s"
  have comp: "component_rest U ?s2 = skip (length (drop w c)) ?s2"
    by (rule component_rest_all [OF _ v(2) rest]) (use Cons.prems(1) w in \<open>simp add: rest_text_skip\<close>)
  have s3: "skip (length (drop w c)) ?s2 = skip (1 + length c) s" using w by (simp add: skip_def)
  have "account_components U n s = account_components U (n + 1) (skip (1 + length c) s)"
    using Cons.prems(1) lt dr v(1) comp s3 by (simp add: account_components.simps [of U n s] byte_is_rest)
  also have "\<dots> = (n + 1 + length cs, skip (length (below cs)) (skip (1 + length c) s))"
    using Cons.prems by (intro Cons.IH) (simp_all add: rest_text_skip)
  finally show ?case by (simp add: skip_def ac_simps)
qed

text \<open>A scanner in front of an upper-case letter.\<close>

lemma roots_of_upper_words:
  "list_all (\<lambda>w. list_all is_upper_word_char w \<and> w \<noteq> [] \<and> is_upper_az (hd w))
     [''Assets'', ''Liabilities'', ''Equity'', ''Income'', ''Expenses'']"
  by code_simp

lemma upper_word_of_root: "is_account_root w \<Longrightarrow> \<forall>c \<in> set w. is_upper_word_char c"
  using roots_of_upper_words by (simp only: is_account_root_def list_all_iff) blast

lemma root_upper: "is_account_root w \<Longrightarrow> \<exists>c cs. w = c # cs \<and> is_upper_az c"
  using roots_of_upper_words by (simp only: is_account_root_def list_all_iff) (metis list.collapse)

lemma colon_no_upper_word: "\<not> is_upper_word_char (CHR '':'')"
  by code_simp

lemma scan_account_read:
  assumes "tok_kind (fst (scan_upper_word U s)) = ACCOUNT" and "sc_offset s < length (sc_src s)"
  shows "account_valid U (tok_raw (fst (scan_upper_word U s))) \<and>
    CHR '':'' \<in> set (tok_raw (fst (scan_upper_word U s)))"
proof -
  define s1 where "s1 = skip_while is_upper_word_char (skip 1 s)"
  obtain n s2 where a: "account_components U 0 s1 = (n, s2)" by fastforce
  have root: "is_account_root (between s s1)" and n: "0 < n"
    and raw: "tok_raw (fst (scan_upper_word U s)) = between s s2"
  proof -
    have eq: "scan_upper_word U s =
        (case (if is_account_root (between s s1) \<and> byte_is s1 (sc_offset s1) (\<lambda>c. c = CHR '':'')
               then (n, s2) else (0, s1)) of
           (n, s2) \<Rightarrow> if 0 < n then token_from ACCOUNT s s2
             else if is_currency (between s s1) then token_from CURRENCY s s1 else token_from IDENT s s1)"
      unfolding scan_upper_word_def Let_def s1_def [symmetric] a between_def ..
    show "is_account_root (between s s1)" "0 < n"
      using assms(1) unfolding eq by (auto simp: token_from_def mk_token_def split: if_splits)
    then show "tok_raw (fst (scan_upper_word U s)) = between s s2"
      using assms(1) unfolding eq by (auto simp: token_from_def mk_token_def between_def split: if_splits)
  qed
  have "moves s s1" using moves_skip_more [OF assms(2) skip_while_moves] by (simp add: s1_def)
  moreover have "moves s1 s2" using account_components_moves [of s1 U 0] a by simp
  ultimately have b: "between s s2 = between s s1 @ between s1 s2" by simp
  from account_components_read [OF a] obtain cs where
    cs: "between s1 s2 = below cs" "n = length cs" "\<forall>c \<in> set cs. is_valid_component U c" by auto
  have "CHR '':'' \<in> set (below cs)" using n cs(2) by (cases cs) auto
  with raw b cs root show ?thesis by (auto simp: account_valid_iff)
qed

lemma scan_account_all:
  assumes "rest_text s = a" and "account_valid U a" and "CHR '':'' \<in> set a"
  shows "scan_upper_word U s = token_from ACCOUNT s (skip (length a) s)"
proof -
  obtain w cs where a: "a = w @ below cs" and w: "is_account_root w"
    and cs: "\<forall>c \<in> set cs. is_valid_component U c"
    using assms(2) account_valid_iff by blast
  have ne: "cs \<noteq> []" using a assms(3) root_no_colon [OF w] by auto
  obtain c ws where c: "w = c # ws" "is_upper_az c" using root_upper [OF w] by blast
  have s1: "skip_while is_upper_word_char (skip 1 s) = skip (length w) s"
  proof -
    have "takeWhile is_upper_word_char (ws @ below cs) = ws"
      using upper_word_of_root [OF w] c(1) ne
      by (cases cs) (auto simp: takeWhile_append colon_no_upper_word)
    moreover have "drop (sc_offset (skip 1 s)) (sc_src (skip 1 s)) = ws @ below cs"
      using assms(1) a c rest_text_skip [of 1 s] by (simp add: rest_text_def)
    ultimately show ?thesis using c by (simp add: skip_while_eq skip_def)
  qed
  have word: "slice (sc_src s) (sc_offset s) (sc_offset (skip (length w) s)) = w"
    using assms(1) a c between_skip [of "length w" s] by (simp add: between_def)
  have r1: "rest_text (skip (length w) s) = below cs"
    using assms(1) a by (simp add: rest_text_skip)
  have colon: "byte_is (skip (length w) s) (sc_offset (skip (length w) s)) (\<lambda>c. c = CHR '':'')"
    unfolding byte_is_rest using r1 ne by (cases cs) auto
  have comps: "account_components U 0 (skip (length w) s) =
      (length cs, skip (length (below cs)) (skip (length w) s))"
    using account_components_all [OF r1 cs, of 0] by simp
  have "0 < length cs" using ne by simp
  moreover have "skip (length (below cs)) (skip (length w) s) = skip (length a) s"
    by (simp add: a skip_def)
  ultimately show ?thesis
    unfolding scan_upper_word_def Let_def s1 word
    using w colon comps by simp
qed

end
