(* ===== verification/Lexemes.thy ===== *)
theory Lexemes
  imports Account_Names Parser_Facts
begin

text \<open>
  The lexical grammar: the texts that a token of each kind may have. Every token of the scanner, and so
  every token of a syntax tree that is not left out of the text, has a text of its kind.
\<close>

definition all_chars :: "(char \<Rightarrow> bool) \<Rightarrow> string \<Rightarrow> bool" where
  "all_chars P w \<longleftrightarrow> (\<forall>c \<in> set w. P c)"

definition word_of :: "char \<Rightarrow> (char \<Rightarrow> bool) \<Rightarrow> string \<Rightarrow> bool" where
  "word_of c P w \<longleftrightarrow> (\<exists>cs. w = c # cs \<and> cs \<noteq> [] \<and> all_chars P cs)"

definition number_shaped :: "string \<Rightarrow> bool" where
  "number_shaped w \<longleftrightarrow>
     (\<exists>ds. w = CHR ''.'' # ds \<and> ds \<noteq> [] \<and> all_chars is_digit ds) \<or>
     (\<exists>ip fp. w = ip @ fp \<and> ip \<noteq> [] \<and> is_digit (hd ip) \<and> all_chars (\<lambda>c. is_digit c \<or> c = CHR '','') ip \<and>
        (fp = [] \<or> (\<exists>ds. fp = CHR ''.'' # ds \<and> all_chars is_digit ds)))"

text \<open>A string after its opening quote: up to the first quote that is not escaped, or to the end.\<close>

fun string_body :: "string \<Rightarrow> bool" where
  "string_body [] = True"
| "string_body [c] = True"
| "string_body (c # d # cs) = (if c = CHR 0x5C then string_body cs else c \<noteq> CHR 0x22 \<and> string_body (d # cs))"

definition ident_shaped :: "string \<Rightarrow> bool" where
  "ident_shaped w \<longleftrightarrow>
     (\<exists>c cs. w = c # cs \<and> (is_upper_az c \<and> all_chars is_upper_word_char cs \<or> is_lower_az c \<and> all_chars is_ident_char cs))"

fun lexeme :: "unicode \<Rightarrow> token_kind \<Rightarrow> string \<Rightarrow> bool" where
  "lexeme U ILLEGAL w \<longleftrightarrow> w \<noteq> []"
| "lexeme U DATE w \<longleftrightarrow> length w = 10 \<and> date_shaped w"
| "lexeme U NUMBER w \<longleftrightarrow> number_shaped w"
| "lexeme U STRING w \<longleftrightarrow> (\<exists>cs. w = CHR 0x22 # cs \<and> string_body cs)"
| "lexeme U ACCOUNT w \<longleftrightarrow> account_valid U w \<and> CHR '':'' \<in> set w"
| "lexeme U CURRENCY w \<longleftrightarrow> is_currency w \<and> is_upper_az (hd w)"
| "lexeme U TAG w \<longleftrightarrow> word_of (CHR ''#'') is_tag_link_char w"
| "lexeme U LINK w \<longleftrightarrow> word_of (CHR ''^'') is_tag_link_char w"
| "lexeme U IDENT w \<longleftrightarrow> ident_shaped w"
| "lexeme U PLUS w \<longleftrightarrow> w = ''+''"
| "lexeme U MINUS w \<longleftrightarrow> w = ''-''"
| "lexeme U STAR w \<longleftrightarrow> w = ''*''"
| "lexeme U SLASH w \<longleftrightarrow> w = ''/''"
| "lexeme U LPAREN w \<longleftrightarrow> w = ''(''"
| "lexeme U RPAREN w \<longleftrightarrow> w = '')''"
| "lexeme U LBRACE w \<longleftrightarrow> w = ''{''"
| "lexeme U RBRACE w \<longleftrightarrow> w = ''}''"
| "lexeme U LBRACE2 w \<longleftrightarrow> w = ''{{''"
| "lexeme U RBRACE2 w \<longleftrightarrow> w = ''}}''"
| "lexeme U AT w \<longleftrightarrow> w = ''@''"
| "lexeme U ATAT w \<longleftrightarrow> w = ''@@''"
| "lexeme U TILDE w \<longleftrightarrow> w = ''~''"
| "lexeme U COMMA w \<longleftrightarrow> w = '',''"
| "lexeme U COLON w \<longleftrightarrow> w = '':''"
| "lexeme U BANG w \<longleftrightarrow> w = ''!''"
| "lexeme U HASH w \<longleftrightarrow> w = ''#''"
| "lexeme U CARET w \<longleftrightarrow> w = ''^''"
| "lexeme U EOF w \<longleftrightarrow> w = []"

section \<open>What the loops read\<close>

lemma between_word:
  assumes "rest_text s = c # cs"
  shows "between s (skip_while P (skip 1 s)) = c # takeWhile P cs"
    and "rest_text (skip_while P (skip 1 s)) = dropWhile P cs"
proof -
  have d: "drop (sc_offset (skip 1 s)) (sc_src (skip 1 s)) = cs"
    using assms rest_text_skip [of 1 s] by (simp add: rest_text_def)
  have len: "Suc (length (takeWhile P cs)) \<le> length (rest_text s)"
    using assms by (simp add: length_takeWhile_le)
  have sk: "skip_while P (skip 1 s) = skip (Suc (length (takeWhile P cs))) s"
    unfolding skip_while_eq d by (simp add: skip_def)
  show "between s (skip_while P (skip 1 s)) = c # takeWhile P cs"
    unfolding sk using between_skip [OF len] assms by (simp add: takeWhile_eq_take [symmetric])
  show "rest_text (skip_while P (skip 1 s)) = dropWhile P cs"
    unfolding sk using assms by (simp add: rest_text_skip dropWhile_eq_drop)
qed

lemma between_while: "between s (skip_while P s) = takeWhile P (rest_text s)"
  by (simp add: between_takeWhile rest_text_def)

lemma rest_text_while: "rest_text (skip_while P s) = dropWhile P (rest_text s)"
  by (simp add: skip_while_eq rest_text_skip rest_text_def [symmetric] dropWhile_eq_drop)

lemma all_takeWhile [simp]: "all_chars P (takeWhile P cs)"
  by (auto simp: all_chars_def dest: set_takeWhileD)

lemma all_chars_simps [simp]: "all_chars P []" "all_chars P (c # cs) \<longleftrightarrow> P c \<and> all_chars P cs"
  by (simp_all add: all_chars_def)

lemma raw_from [simp]: "tok_raw (fst (token_from k s s')) = between s s'" "tok_kind (fst (token_from k s s')) = k"
  by (simp_all add: token_from_def mk_token_def between_def)

text \<open>A token whose text is a lexeme of its kind.\<close>

definition well_lexed :: "unicode \<Rightarrow> token \<times> scanner \<Rightarrow> bool" where
  "well_lexed U r \<longleftrightarrow> lexeme U (tok_kind (fst r)) (tok_raw (fst r))"

lemma well_lexed_from: "lexeme U k (between s s') \<Longrightarrow> well_lexed U (token_from k s s')"
  by (simp add: well_lexed_def)

lemma string_rest_body: "string_body (between s (string_rest s))"
proof (induction s rule: string_rest.induct)
  case (1 s)
  show ?case
  proof (cases "rest_text s")
    case Nil
    then show ?thesis using rest_text_Nil [of s] by (simp add: string_rest.simps [of s])
  next
    case (Cons c cs)
    have lt: "sc_offset s < length (sc_src s)" using Cons rest_text_Nil [of s] by auto
    have ch: "sc_src s ! sc_offset s = c" using Cons by (simp add: rest_text_def nth_via_drop)
    have m1: "moves s (skip 1 s)" using moves_skip_1 [OF lt] .
    have one: "between s (skip 1 s) = [c]" using Cons between_skip [of 1 s] by simp
    consider "c = CHR 0x5C" "sc_offset s + 1 < length (sc_src s)"
      | "c = CHR 0x5C" "\<not> sc_offset s + 1 < length (sc_src s)"
      | "c = CHR 0x22" | "c \<noteq> CHR 0x5C" "c \<noteq> CHR 0x22" by blast
    then show ?thesis
    proof cases
      case 1
      then obtain d ds where ds: "cs = d # ds"
        using Cons by (cases cs) (auto simp: rest_text_def dest!: arg_cong [of _ _ length])
      have m2: "moves s (skip 2 s)" using 1 by (intro moves_skip) simp
      have two: "between s (skip 2 s) = [c, d]" using Cons ds between_skip [of 2 s] by simp
      have eq: "string_rest s = string_rest (skip 2 s)" using 1 lt ch by (simp add: string_rest.simps [of s])
      have "between s (string_rest s) = [c, d] @ between (skip 2 s) (string_rest (skip 2 s))"
        unfolding eq using between_append [OF m2 string_rest_moves] two by simp
      moreover have "string_body (between (skip 2 s) (string_rest (skip 2 s)))"
        using "1.IH"(1) lt ch 1 by simp
      ultimately show ?thesis using 1 by simp
    next
      case 2
      then have eq: "string_rest s = string_rest (skip 1 s)" using lt ch by (simp add: string_rest.simps [of s])
      have "\<not> sc_offset (skip 1 s) < length (sc_src (skip 1 s))" using 2 by simp
      then have "string_rest (skip 1 s) = skip 1 s" unfolding string_rest.simps [of "skip 1 s"] by (rule if_P)
      with eq one show ?thesis by simp
    next
      case 3
      then show ?thesis using lt ch one by (simp add: string_rest.simps [of s])
    next
      case 4
      then have eq: "string_rest s = string_rest (skip 1 s)" using lt ch by (simp add: string_rest.simps [of s])
      have b: "between s (string_rest s) = c # between (skip 1 s) (string_rest (skip 1 s))"
        unfolding eq using between_append [OF m1 string_rest_moves] one by simp
      have "string_body (between (skip 1 s) (string_rest (skip 1 s)))"
        using "1.IH"(2) lt ch 4 by simp
      then show ?thesis using b 4 by (cases "between (skip 1 s) (string_rest (skip 1 s))") auto
    qed
  qed
qed

section \<open>Every token of the scanner\<close>

text \<open>A scanner in front of a character.\<close>

lemma facing: "rest_text s = c # cs \<Longrightarrow> sc_offset s < length (sc_src s) \<and> sc_src s ! sc_offset s = c"
  using rest_text_Nil [of s] by (auto simp: rest_text_def nth_via_drop)

lemma facing_next: "byte_is s (sc_offset s + 1) P \<Longrightarrow> \<exists>c d cs. rest_text s = c # d # cs \<and> P d"
  using byte_is_rest [of "skip 1 s" P] by (cases "rest_text s") (auto simp: rest_text_skip byte_is_def simp del: One_nat_def, auto)

lemma scan_string_lexed: "rest_text s = CHR 0x22 # cs \<Longrightarrow> well_lexed U (scan_string s)"
proof -
  assume r: "rest_text s = CHR 0x22 # cs"
  then have m: "moves s (skip 1 s)" using facing moves_skip_1 by blast
  have "between s (string_rest (skip 1 s)) = CHR 0x22 # between (skip 1 s) (string_rest (skip 1 s))"
    using between_append [OF m string_rest_moves] between_skip [of 1 s] r by simp
  then show ?thesis unfolding scan_string_def by (intro well_lexed_from) (simp add: string_rest_body)
qed

lemma scan_tag_lexed:
  assumes "rest_text s = CHR ''#'' # d # cs" and "is_tag_link_char d"
  shows "well_lexed U (scan_tag s)"
  unfolding scan_tag_def using assms
  by (intro well_lexed_from) (simp add: between_word(1) [OF assms(1)] word_of_def del: One_nat_def)

lemma scan_link_lexed:
  assumes "rest_text s = CHR ''^'' # d # cs" and "is_tag_link_char d"
  shows "well_lexed U (scan_link s)"
  unfolding scan_link_def using assms
  by (intro well_lexed_from) (simp add: between_word(1) [OF assms(1)] word_of_def del: One_nat_def)

lemma scan_ident_lexed: "rest_text s = c # cs \<Longrightarrow> is_lower_az c \<Longrightarrow> well_lexed U (scan_ident s)"
  unfolding scan_ident_def by (intro well_lexed_from) (simp add: between_word(1) ident_shaped_def del: One_nat_def)

lemma scan_upper_word_lexed:
  assumes "rest_text s = c # cs" and "is_upper_az c"
  shows "well_lexed U (scan_upper_word U s)"
proof -
  define s1 where "s1 = skip_while is_upper_word_char (skip 1 s)"
  obtain n s2 where a: "account_components U 0 s1 = (n, s2)" by fastforce
  have w: "between s s1 = c # takeWhile is_upper_word_char cs"
    unfolding s1_def by (rule between_word(1) [OF assms(1)])
  have eq: "scan_upper_word U s =
      (case (if is_account_root (between s s1) \<and> byte_is s1 (sc_offset s1) (\<lambda>c. c = CHR '':'')
             then (n, s2) else (0, s1)) of
         (n, s2) \<Rightarrow> if 0 < n then token_from ACCOUNT s s2
           else if is_currency (between s s1) then token_from CURRENCY s s1 else token_from IDENT s s1)"
    unfolding scan_upper_word_def Let_def s1_def [symmetric] a between_def ..
  show ?thesis
  proof (cases "tok_kind (fst (scan_upper_word U s)) = ACCOUNT")
    case True
    then show ?thesis
      using scan_account_read [OF True] facing [OF assms(1)] by (simp add: well_lexed_def)
  next
    case False
    with w assms(2) show ?thesis
      unfolding eq by (auto simp: well_lexed_def ident_shaped_def split: if_splits)
  qed
qed

lemma digit_not_point: "is_digit c \<Longrightarrow> c \<noteq> CHR ''.''" "is_digit c \<Longrightarrow> c \<noteq> CHR '',''"
  by (auto simp: is_digit_def)

lemma scan_number_lexed:
  assumes "rest_text s = c # cs" and "is_digit c \<or> c = CHR ''.'' \<and> cs \<noteq> [] \<and> is_digit (hd cs)"
  shows "well_lexed U (scan_number s)"
proof (cases "c = CHR ''.''")
  case True
  then have ds: "cs \<noteq> []" "is_digit (hd cs)" using assms(2) digit_not_point by blast+
  have "byte_is s (sc_offset s) (\<lambda>c. c = CHR ''.'')" using True assms(1) by (simp add: byte_is_rest)
  moreover have "number_shaped (CHR ''.'' # takeWhile is_digit cs)"
    unfolding number_shaped_def by (rule disjI1) (use ds in \<open>cases cs; auto\<close>)
  ultimately show ?thesis
    using True between_word(1) [OF assms(1), of is_digit]
    by (simp add: scan_number_def well_lexed_def)
next
  case False
  then have d: "is_digit c" using assms(2) by blast
  let ?P = "\<lambda>c. is_digit c \<or> c = CHR '',''"
  define s1 where "s1 = skip_while ?P s"
  define ip where "ip = takeWhile ?P (c # cs)"
  have no: "\<not> byte_is s (sc_offset s) (\<lambda>c. c = CHR ''.'')" using False assms(1) by (simp add: byte_is_rest)
  have b1: "between s s1 = ip" using assms(1) by (simp add: s1_def between_while ip_def)
  have ip: "ip \<noteq> []" "is_digit (hd ip)" "all_chars ?P ip" using d by (simp_all add: ip_def)
  show ?thesis
  proof (cases "byte_is s1 (sc_offset s1) (\<lambda>c. c = CHR ''.'')")
    case True
    then obtain ds where r1: "rest_text s1 = CHR ''.'' # ds" by (auto simp: byte_is_rest)
    let ?s2 = "skip_while is_digit (skip 1 s1)"
    have m1: "moves s s1" by (simp add: s1_def)
    have m2: "moves s1 ?s2" using moves_skip_more [OF _ skip_while_moves] facing [OF r1] by blast
    have "between s ?s2 = ip @ CHR ''.'' # takeWhile is_digit ds"
      using between_append [OF m1 m2] b1 between_word(1) [OF r1] by simp
    moreover have "number_shaped (ip @ CHR ''.'' # takeWhile is_digit ds)"
      unfolding number_shaped_def using ip
      by (intro disjI2 exI [of _ ip] exI [of _ "CHR ''.'' # takeWhile is_digit ds"]) simp
    ultimately show ?thesis
      using no True by (simp add: scan_number_def well_lexed_def s1_def [symmetric])
  next
    case False
    have "number_shaped ip"
      unfolding number_shaped_def using ip by (intro disjI2 exI [of _ ip] exI [of _ "[]"]) simp
    then show ?thesis
      using no False b1 by (simp add: scan_number_def well_lexed_def s1_def [symmetric])
  qed
qed

lemma scan_date_or_number_lexed:
  assumes "rest_text s = c # cs" and "is_digit c"
  shows "well_lexed U (scan_date_or_number s)"
proof -
  have "length (slice (sc_src s) (sc_offset s) (sc_offset s + 10)) = 10" if "sc_offset s + 10 \<le> length (sc_src s)"
    using that by simp
  moreover have "well_lexed U (scan_number s)" by (rule scan_number_lexed [OF assms(1)]) (simp add: assms(2))
  ultimately show ?thesis
    by (simp add: scan_date_or_number_def) (simp add: well_lexed_def between_def)
qed

lemma punctuation_lexeme: "punctuation ch = Some k \<Longrightarrow> lexeme U k [ch]"
  by (auto simp: punctuation_def split: if_splits)

lemma doubled_lexeme: "doubled ch = Some (k, k') \<Longrightarrow> lexeme U k [ch, ch] \<and> lexeme U k' [ch]"
  by (auto simp: doubled_def split: if_splits)

lemma scan_token_lexed:
  assumes r: "rest_text s = c # cs"
  shows "well_lexed U (scan_token U s)"
proof -
  have ch: "sc_src s ! sc_offset s = c" and lt: "sc_offset s < length (sc_src s)" using facing [OF r] by simp_all
  have one: "between s (skip 1 s) = [c]" using r between_skip [of 1 s] by simp
  have two: "between s (skip 2 s) = [c, d]" if "cs = d # ds" for d ds using that r between_skip [of 2 s] by simp
  have next_char: "\<exists>d ds. cs = d # ds \<and> P d" if "byte_is s (sc_offset s + 1) P" for P
    using facing_next [OF that] r by auto
  show ?thesis
  proof (cases "punctuation c")
    case (Some k)
    then show ?thesis
      unfolding scan_token_def Let_def ch Some option.case
      using punctuation_lexeme [OF Some, of U] by (intro well_lexed_from) (simp only: one)
  next
    case None
    note p = None
    show ?thesis
    proof (cases "doubled c")
      case (Some kk)
      obtain k k' where kk: "kk = (k, k')" by fastforce
      note lexemes = doubled_lexeme [OF Some [unfolded kk], of U]
      show ?thesis
      proof (cases "byte_is s (sc_offset s + 1) (\<lambda>d. d = c)")
        case True
        with next_char two have "between s (skip 2 s) = [c, c]" by blast
        then show ?thesis
          using lexemes True unfolding scan_token_def Let_def ch p Some kk option.case prod.case
          by (simp add: well_lexed_from)
      next
        case False
        then show ?thesis
          using lexemes one unfolding scan_token_def Let_def ch p Some kk option.case prod.case
          by (simp add: well_lexed_from)
      qed
    next
      case None
      have branch: "well_lexed U (if b then x else y)" if "b \<Longrightarrow> well_lexed U x" "\<not> b \<Longrightarrow> well_lexed U y" for b x y
        using that by simp
      have ill: "well_lexed U (scan_illegal s)"
      proof -
        have "lexes s (scan_illegal s)" by (rule scan_illegal_lexes [OF lt])
        then have "tok_raw (fst (scan_illegal s)) \<noteq> []"
          using between_length [of s "snd (scan_illegal s)"] lt by (auto simp: lexes_def in_text_def)
        then show ?thesis by (simp add: well_lexed_def scan_illegal_def Let_def)
      qed
      have num: "cs \<noteq> [] \<and> is_digit (hd cs)" if "byte_is s (sc_offset s + 1) is_digit"
        using next_char [OF that] by auto
      show ?thesis
        unfolding scan_token_def Let_def ch p None option.case
        using r num next_char scan_tag_lexed [of s] scan_link_lexed [of s] one
        by (intro branch well_lexed_from ill)
          (auto intro: scan_string_lexed scan_date_or_number_lexed scan_number_lexed scan_upper_word_lexed
            scan_ident_lexed dest!: next_char)
    qed
  qed
qed

lemma scan_lexed: "lexeme U (tok_kind (fst (scan U s))) (tok_raw (fst (scan U s)))"
proof -
  obtain lead s1 where l: "scan_leading_trivia s = (lead, s1)" by fastforce
  show ?thesis
  proof (cases "rest_text s1")
    case Nil
    then show ?thesis using l rest_text_Nil [of s1] by (simp add: scan_def)
  next
    case (Cons c cs)
    then have "\<not> length (sc_src s1) \<le> sc_offset s1" using rest_text_Nil [of s1] by auto
    then show ?thesis
      using scan_token_lexed [OF Cons, of U] l by (simp add: scan_def case_prod_beta well_lexed_def)
  qed
qed

lemma marks_not_upper:
  "list_all (\<lambda>c. \<not> is_upper_az c)
     [CHR ''+'', CHR ''-'', CHR ''*'', CHR ''/'', CHR ''('', CHR '')'', CHR ''~'', CHR '','', CHR '':'',
      CHR ''!'', CHR ''{'', CHR ''}'', CHR ''@'', CHR ''#'', CHR ''^'', CHR 0x22, CHR ''.'']"
  by code_simp

lemma upper_not_digit: "is_upper_az c \<Longrightarrow> \<not> is_digit c"
proof -
  have "\<not> CHR ''A'' \<le> CHR ''9''" by code_simp
  then show "is_upper_az c \<Longrightarrow> \<not> is_digit c"
    unfolding is_upper_az_def is_digit_def by (meson order_trans)
qed

lemma upper_scans_word:
  assumes "is_upper_az c"
  shows "scan_token U \<lparr>sc_src = c # cs, sc_offset = 0\<rparr> = scan_upper_word U \<lparr>sc_src = c # cs, sc_offset = 0\<rparr>"
proof -
  have ne: "c \<noteq> d" if "\<not> is_upper_az d" for d using assms that by blast
  have "punctuation c = None" "doubled c = None"
    using ne marks_not_upper by (simp_all add: punctuation_def doubled_def)
  then show ?thesis
    using ne [of "CHR ''#''"] ne [of "CHR ''^''"] ne [of "CHR 0x22"] ne [of "CHR ''.''"] marks_not_upper
      upper_not_digit [OF assms] assms
    by (simp add: scan_token_def)
qed

section \<open>Every token of a tree\<close>

text \<open>A token that the parser puts in for a missing one is \<open>ILLEGAL\<close> and has no text.\<close>

definition lexed :: "unicode \<Rightarrow> token \<Rightarrow> bool" where
  "lexed U t \<longleftrightarrow> lexeme U (tok_kind t) (tok_raw t) \<or> tok_kind t = ILLEGAL \<and> tok_raw t = []"

lemma lexed_advance: "lexed U (prs_tok (snd (advance U p)))"
  by (simp add: lexed_def scan_lexed)

lemma run_lexed: "run U p ts q \<Longrightarrow> lexed U (prs_tok p) \<Longrightarrow> (\<forall>t \<in> set ts. lexed U t) \<and> lexed U (prs_tok q)"
proof (induction rule: run.induct)
  case (take_step p ts q)
  then show ?case using lexed_advance by auto
next
  case (synthetic p ts q)
  then show ?case by (auto simp: lexed_def mk_token_def)
qed auto

text \<open>The tree of a text: its tokens are well formed and stand in the text.\<close>

lemma parse_root:
  obtains root where "sf_root (parse U src) = Some root" "nd_kind root = FileNode"
    "located src 0 (node_tokens root) (length src)" "\<forall>t \<in> set (node_tokens root). lexed U t"
proof -
  obtain cs p where f: "parse U src =
      \<lparr>sf_root = Some (Node FileNode (cs @ [CToken (prs_tok p)])), sf_errors = prs_errors p\<rparr>"
    and eof: "peek p = EOF" and run: "run U (snd (advance U (new_parser src))) (tokens_of cs) p"
    by (rule parse_runs)
  note start = parser_at_start [of src U]
  have p: "parser_at src p" by (rule run_parser_at [OF run start])
  then have raw: "slice src (tok_pos (prs_tok p)) (token_end (prs_tok p)) = tok_raw (prs_tok p)"
    by (simp add: parser_at_def)
  from located_end [OF run_located [OF run start] this parser_at_end [OF p]]
  have "located src 0 (tokens_of cs @ [prs_tok p]) (length src)" by (rule located_weaken) simp
  moreover have "\<forall>t \<in> set (tokens_of cs @ [prs_tok p]). lexed U t"
    using run_lexed [OF run lexed_advance] by simp
  ultimately show ?thesis using that [of "Node FileNode (cs @ [CToken (prs_tok p)])"] by (simp add: f)
qed

end
