(* ===== verification/Syntax_Contract.thy ===== *)
theory Syntax_Contract
  imports Grammar_Sound Lexemes
begin

text \<open>
  What the scanner and the parser promise of any text, as properties of \<open>parse\<close>, of the expression
  parser and of the account names, with concrete texts.
\<close>

section \<open>The syntax tree of a text\<close>

text \<open>C4 The syntax tree is lossless: whatever the text, valid or not, the tree that \<open>parse\<close> builds
  prints back as exactly that text, byte for byte.\<close>

theorem parse_lossless: "file_full_text (parse U src) = src"
  by (rule parse_full_text)

text \<open>C8 The tokens of the tree, in order, are the tokens of the scanner run over the whole text: none
  with a text is lost, doubled or moved, whatever errors the parser recovers from. Each stands in the
  text at its position, they do not overlap, and each has a text of its kind (a token put in for a
  missing one is \<open>ILLEGAL\<close> with no text).\<close>

theorem parse_keeps_tokens:
  "\<exists>root. sf_root (parse U src) = Some root \<and>
     filter has_text (node_tokens root) = filter has_text (scan_all U (new_scanner src)) \<and>
     located src 0 (node_tokens root) (length src) \<and> list_all (lexed U) (node_tokens root)"
proof -
  obtain cs p where f: "parse U src =
      \<lparr>sf_root = Some (Node FileNode (cs @ [CToken (prs_tok p)])), sf_errors = prs_errors p\<rparr>"
    and eof: "peek p = EOF" and run: "run U (snd (advance U (new_parser src))) (tokens_of cs) p"
    by (rule parse_runs)
  note start = parser_at_start [of src U]
  have tokens: "node_tokens (Node FileNode (cs @ [CToken (prs_tok p)])) = tokens_of cs @ [prs_tok p]" by simp
  have p: "parser_at src p" by (rule run_parser_at [OF run start])
  have no_text: "\<not> has_text (prs_tok p)" using p eof by (simp add: parser_at_def has_text_def)
  have scanned: "pending U (snd (advance U (new_parser src))) = filter has_text (scan_all U (new_scanner src))"
    by (simp add: pending_def scan_all.simps [of U "new_scanner src"] case_prod_beta peek_def new_parser_def)
  have "filter has_text (tokens_of cs @ [prs_tok p]) = filter has_text (scan_all U (new_scanner src))"
    using run_pending [OF run start] scanned no_text eof by (simp add: pending_def)
  moreover have "located src 0 (tokens_of cs @ [prs_tok p]) (length src)"
  proof -
    have "slice src (tok_pos (prs_tok p)) (token_end (prs_tok p)) = tok_raw (prs_tok p)"
      using p by (simp add: parser_at_def)
    from located_end [OF run_located [OF run start] this parser_at_end [OF p]]
    show ?thesis by (rule located_weaken) simp
  qed
  moreover have "list_all (lexed U) (tokens_of cs @ [prs_tok p])"
    using run_lexed [OF run lexed_advance] by (simp add: list_all_iff)
  ultimately show ?thesis by (simp only: f tokens) simp
qed

text \<open>The errors of a parse are in the order of the text and point into it.\<close>

theorem parse_errors_in_order:
  "sorted (map se_pos (sf_errors (parse U src))) \<and>
   list_all (\<lambda>e. se_pos e \<le> length src) (sf_errors (parse U src))"
proof -
  obtain cs p where f: "parse U src =
      \<lparr>sf_root = Some (Node FileNode (cs @ [CToken (prs_tok p)])), sf_errors = prs_errors p\<rparr>"
    and run: "run U (snd (advance U (new_parser src))) (tokens_of cs) p"
    by (rule parse_runs)
  have "parser_at src p" by (rule run_parser_at [OF run parser_at_start])
  then have "tok_pos (prs_tok p) \<le> length src" using parser_at_end by (fastforce simp: token_end_def)
  with run_errors [OF run parser_at_start] show ?thesis by (auto simp: f new_parser_def list_all_iff)
qed

text \<open>C5 A text parsed without an error is a sentence of the ledger grammar: the tree's top level is a
  sequence of directives, each with its keyword, its parts in the order and number the grammar has,
  its metadata and postings, or a line that no rule covers; nothing is missing or left over.\<close>

theorem parse_conforms:
  assumes "sf_errors (parse U src) = []"
  shows "\<exists>root. sf_root (parse U src) = Some root \<and> file_tree root"
  using assms by (rule parse_yields_file)

definition ex_text :: string where
  "ex_text = ''2024-01-31 open Assets:Cash USD'' @ [CHR 0x0A] @ ''  since: 2024'' @ [CHR 0x0A]"

theorem parse_conforms_witness:
  "(\<exists>root. sf_root (parse (\<lambda>_. []) ex_text) = Some root \<and> file_tree root) \<and>
   map nd_kind (find_all_nodes (the (sf_root (parse (\<lambda>_. []) ex_text))) OpenDirective) = [OpenDirective]"
proof
  show "\<exists>root. sf_root (parse (\<lambda>_. []) ex_text) = Some root \<and> file_tree root"
    by (rule parse_conforms) code_simp
  show "map nd_kind (find_all_nodes (the (sf_root (parse (\<lambda>_. []) ex_text))) OpenDirective) = [OpenDirective]"
    by code_simp
qed

section \<open>Expressions\<close>

text \<open>C9 The expression parser finds every expression: on the tokens of a tree of the grammar of
  arithmetic, in which addition and multiplication associate to the left and multiplication binds
  closer, it builds that tree and stops after its last token. So no text has two such trees.\<close>

theorem expression_parsed:
  assumes "expr_tree n" and "ahead U p (node_tokens n)"
    and "\<not> Parser.at [PLUS, MINUS, STAR, SLASH] (after U (length (node_tokens n)) p)"
  shows "parse_expr U p = (n, after U (length (node_tokens n)) p) \<and>
    (\<forall>m. expr_tree m \<longrightarrow> node_tokens m = node_tokens n \<longrightarrow> m = n)"
  using expr_tree_parsed [OF assms] expr_tree_unambiguous [OF _ assms(1) _ assms(2,3)] by blast

definition ex_num :: "nat \<Rightarrow> string \<Rightarrow> node" where
  "ex_num pos raw = Node ArithExprNode [CToken (mk_token NUMBER pos raw)]"

definition ex_op :: "token_kind \<Rightarrow> nat \<Rightarrow> string \<Rightarrow> node \<Rightarrow> node \<Rightarrow> node" where
  "ex_op k pos raw l r = Node ArithExprNode [CNode l, CToken (mk_token k pos raw), CNode r]"

lemma ex_num_factor: "factor_tree (ex_num pos raw)"
  unfolding ex_num_def by (rule factor_number) (simp add: mk_token_def)

theorem expression_parsed_witness:
  "fst (parse_expr (\<lambda>_. []) (snd (advance (\<lambda>_. []) (new_parser ''8-2*3-1'')))) =
     ex_op MINUS 5 ''-'' (ex_op MINUS 1 ''-'' (ex_num 0 ''8'') (ex_op STAR 3 ''*'' (ex_num 2 ''2'') (ex_num 4 ''3'')))
       (ex_num 6 ''1'')"
  (is "fst (parse_expr ?U ?p) = ?n")
proof -
  have "expr_tree ?n"
    unfolding ex_op_def
    by (intro expr_add expr_term term_mul term_factor ex_num_factor) (simp_all add: mk_token_def)
  moreover have "ahead ?U ?p (node_tokens ?n)" by code_simp
  moreover have "\<not> Parser.at [PLUS, MINUS, STAR, SLASH] (after ?U (length (node_tokens ?n)) ?p)" by code_simp
  ultimately show ?thesis using expression_parsed [of ?n ?U ?p] by simp
qed

section \<open>Accounts\<close>

text \<open>C26 The scanner and \<open>Account.IsValid\<close> agree: a text that starts with an upper-case letter is one
  \<open>ACCOUNT\<close> token exactly when it is a valid account name with a component after the root.\<close>

theorem scanner_accounts_valid:
  assumes "w \<noteq> []" and "is_upper_az (hd w)"
  shows "(let (t, s) = scan_token U (new_scanner w) in tok_kind t = ACCOUNT \<and> tok_raw t = w) \<longleftrightarrow>
    account_valid U w \<and> CHR '':'' \<in> set w"
proof -
  have r: "rest_text (new_scanner w) = w" by (simp add: rest_text_def new_scanner_def)
  obtain c cs where c: "w = c # cs" "is_upper_az c" using assms by (cases w) auto
  have scan: "scan_token U (new_scanner w) = scan_upper_word U (new_scanner w)"
    using c(2) upper_scans_word by (simp add: c(1) new_scanner_def)
  show ?thesis
    using scan_account_all [OF r] scan_account_read [of U "new_scanner w"] assms(1) scan
    by (auto simp: case_prod_beta new_scanner_def token_from_def mk_token_def skip_def)
qed

theorem scanner_accounts_valid_witness:
  "(let (t, s) = scan_token (\<lambda>_. []) (new_scanner ''Assets:Cash-1'') in
      tok_kind t = ACCOUNT \<and> tok_raw t = ''Assets:Cash-1'') \<and>
   account_valid (\<lambda>_. []) ''Assets:Cash-1''"
proof -
  have "account_valid (\<lambda>_. []) ''Assets:Cash-1''" by code_simp
  moreover have "is_upper_az (hd ''Assets:Cash-1'')" by code_simp
  ultimately show ?thesis using scanner_accounts_valid [of "''Assets:Cash-1''" "\<lambda>_. []"] by simp
qed

text \<open>\<open>Sub\<close> extends an account exactly by valid components: it succeeds when every component is
  valid, and below a valid account the result is a valid account whose parts are the old ones followed
  by the new ones.\<close>

theorem sub_extends_account:
  assumes "account_valid U a"
  shows "((\<exists>b. acct_sub U a cs = Inr b) \<longleftrightarrow> (\<forall>c \<in> set cs. is_valid_component U c)) \<and>
    (\<forall>b. acct_sub U a cs = Inr b \<longrightarrow>
       account_valid U b \<and> acct_parts b = acct_parts a @ cs \<and> (cs \<noteq> [] \<longrightarrow> is_ancestor_of a b))"
proof -
  have a: "a \<noteq> []" using assms by (simp add: account_valid_def split: if_splits)
  have "acct_parts (a @ below cs) = acct_parts a @ cs" if "\<forall>c \<in> set cs. is_valid_component U c"
    using that a valid_component_no_colon split_below [of cs a] by (auto simp: acct_parts_def)
  moreover have "account_valid U (a @ below cs)" if "\<forall>c \<in> set cs. is_valid_component U c"
  proof -
    obtain w ds where "a = w @ below ds" "is_account_root w" "\<forall>c \<in> set ds. is_valid_component U c"
      using assms account_valid_iff by blast
    with that show ?thesis unfolding account_valid_iff
      by (intro exI [of _ w] exI [of _ "ds @ cs"]) auto
  qed
  moreover have "is_ancestor_of a (a @ below cs)" if "cs \<noteq> []"
    using that a by (cases cs) (auto simp: is_ancestor_of_iff)
  ultimately show ?thesis by (auto simp: acct_sub_Inr)
qed

theorem sub_extends_account_witness:
  "acct_sub (\<lambda>_. []) ''Assets'' [''Bank'', ''Cash''] = Inr ''Assets:Bank:Cash'' \<and>
   account_valid (\<lambda>_. []) ''Assets:Bank:Cash''"
proof -
  have "account_valid (\<lambda>_. []) ''Assets''" by code_simp
  moreover have "acct_sub (\<lambda>_. []) ''Assets'' [''Bank'', ''Cash''] = Inr ''Assets:Bank:Cash''" by code_simp
  ultimately show ?thesis using sub_extends_account [of "\<lambda>_. []" "''Assets''" "[''Bank'', ''Cash'']"] by simp
qed

end
