(* ===== verification/Dates.thy ===== *)
theory Dates
  imports Prelude
begin

text \<open>
  Calendar dates of the source: \<open>time.Parse\<close> with the layouts \<open>2006-01-02\<close> and \<open>2006/01/02\<close>, and the
  agreement of the day number it gives with the calendar date of the text.
\<close>

definition is_leap :: "int \<Rightarrow> bool" where
  "is_leap y \<longleftrightarrow> y mod 4 = 0 \<and> (y mod 100 \<noteq> 0 \<or> y mod 400 = 0)"

definition days_in :: "int \<Rightarrow> int \<Rightarrow> int" where
  "days_in y m =
     (if m = 2 then if is_leap y then 29 else 28
      else if m = 4 \<or> m = 6 \<or> m = 9 \<or> m = 11 then 30 else 31)"

text \<open>\<open>time.Date(y, m, d, 0, 0, 0, 0, time.UTC)\<close> for a month from 1 to 12, by eras of 400 years counted
  from March.\<close>

definition days_from_civil :: "int \<Rightarrow> int \<Rightarrow> int \<Rightarrow> time" where
  "days_from_civil y m d =
     (let y' = (if m \<le> 2 then y - 1 else y);
          era = y' div 400;
          yoe = y' mod 400;
          mp = (if m \<le> 2 then m + 9 else m - 3);
          doy = (153 * mp + 2) div 5 + d - 1;
          doe = 365 * yoe + yoe div 4 - yoe div 100 + doy
      in era * 146097 + doe - 306)"

section \<open>The calendar\<close>

text \<open>The year of the era from the day of the era.\<close>

definition year_of :: "int \<Rightarrow> int" where
  "year_of doe = (doe - doe div 1460 + doe div 36524 - doe div 146096) div 365"

definition year_start :: "int \<Rightarrow> int" where
  "year_start yoe = 365 * yoe + yoe div 4 - yoe div 100"

definition year_length :: "int \<Rightarrow> int" where
  "year_length yoe = (if is_leap (yoe + 1) then 366 else 365)"

lemma div_between: "0 < k \<Longrightarrow> k * q \<le> x \<Longrightarrow> x < k * (q + 1) \<Longrightarrow> x div k = (q :: int)"
  by (rule int_div_pos_eq [of x k q "x - k * q"]) (auto simp: algebra_simps)

text \<open>The corrections of \<open>year_of\<close> count the leap days before the day, but for the last day of a leap
  year, which would otherwise begin the next one.\<close>

lemma year_of_doe:
  assumes "0 \<le> y" "y < 400" "0 \<le> doy" "doy < year_length y"
  shows "year_of (year_start y + doy) = y"
proof -
  define c where "c = y div 100"
  define q where "q = y mod 100 div 4"
  define r where "r = y mod 4"
  define doe where "doe = year_start y + doy"
  have "y mod 100 mod 4 = y mod 4" by (rule mod_mod_cancel) simp
  then have y: "y = 100 * c + 4 * q + r"
    using mult_div_mod_eq [of 100 y] mult_div_mod_eq [of 4 "y mod 100"] unfolding c_def q_def r_def by linarith
  have "y mod 100 < 100" by simp
  then have bounds: "0 \<le> c" "c \<le> 3" "0 \<le> q" "q \<le> 24" "0 \<le> r" "r \<le> 3"
    using assms(1,2) by (auto simp: c_def q_def r_def)
  have "y div 4 = 25 * c + q" using bounds by (simp add: y)
  then have doe: "doe = 36524 * c + 1461 * q + 365 * r + doy"
    by (simp add: doe_def year_start_def c_def [symmetric]) (simp add: y)
  have leap: "doy \<le> 364 \<or> doy = 365 \<and> r = 3 \<and> (q = 24 \<longrightarrow> c = 3)"
  proof (cases "is_leap (y + 1)")
    case True
    then have y4: "(y + 1) mod 4 = 0" "(y + 1) mod 100 \<noteq> 0 \<or> (y + 1) mod 400 = 0" by (simp_all add: is_leap_def)
    have "r = 3" using y4(1) unfolding r_def by presburger
    moreover have "c = 3" if "q = 24"
    proof -
      have y1: "y + 1 = 100 * (c + 1)" using that \<open>r = 3\<close> by (simp add: y)
      then have "100 * (c + 1) mod 400 = 0"
        using y4(2) by (metis mod_mult_self1_is_0)
      moreover have "c = 0 \<or> c = 1 \<or> c = 2 \<or> c = 3" using bounds(1,2) by linarith
      ultimately show ?thesis by auto
    qed
    ultimately have "r = 3 \<and> (q = 24 \<longrightarrow> c = 3)" by blast
    then show ?thesis using assms(4) by (auto simp: year_length_def split: if_splits)
  qed (use assms(4) in \<open>simp add: year_length_def\<close>)
  have centuries: "doe div 36524 - doe div 146096 = c"
  proof (cases "doe = 146096")
    case True
    then have "c = 3" using doe leap bounds assms(3) by linarith
    with True show ?thesis by simp
  next
    case False
    have "doe < 36524 * (c + 1)" using False doe leap bounds by auto
    then have "doe div 36524 = c" using doe bounds assms(3) by (intro div_between) auto
    moreover have "doe div 146096 = 0" using doe leap bounds assms(3) False by (intro div_between) auto
    ultimately show ?thesis by simp
  qed
  define k where "k = (if 24 * c + q + 365 * r + doy < 1460 then 0 else 1 :: int)"
  have "doe div 1460 = 25 * c + q + k"
    using doe leap bounds assms(3) by (intro div_between) (auto simp: k_def)
  then have f: "doe - doe div 1460 + doe div 36524 - doe div 146096 = 365 * y + (doy - k)"
    using centuries doe y by simp
  have "0 \<le> doy - k" "doy - k \<le> 364" using leap bounds assms(3) by (auto simp: k_def)
  then show ?thesis
    unfolding year_of_def doe_def [symmetric] f by (intro div_between) auto
qed

text \<open>The months of a year that begins in March.\<close>

definition month_days :: "int \<Rightarrow> int" where
  "month_days mp = [31, 30, 31, 30, 31, 31, 30, 31, 30, 31, 31, 29] ! nat mp"

lemma months_of_year:
  "list_all (\<lambda>mp. list_all (\<lambda>d. let doy = (153 * mp + 2) div 5 + d - 1 in
      (5 * doy + 2) div 153 = mp \<and> 0 \<le> doy \<and> doy \<le> 365 \<and> (mp \<noteq> 11 \<or> d \<le> 28 \<longrightarrow> doy \<le> 364))
     [1..month_days mp]) [0..11]"
  by code_simp

lemma is_leap_era: "is_leap (a + 400 * e) \<longleftrightarrow> is_leap a"
proof -
  have "(a + 400 * e) mod 4 = a mod 4" "(a + 400 * e) mod 100 = a mod 100"
    using mod_mult_self1 [of a "100 * e" 4] mod_mult_self1 [of a "4 * e" 100] by (simp_all add: mult.commute)
  then show ?thesis by (simp add: is_leap_def)
qed

lemma year_start_bound: "0 \<le> y \<Longrightarrow> y < 400 \<Longrightarrow> 0 \<le> year_start y \<and> year_start y \<le> 145731"
proof -
  assume y: "0 \<le> y" "y < 400"
  then have "0 \<le> y div 4" "y div 4 \<le> 99" "0 \<le> y div 100" "y div 100 \<le> y"
    by presburger+
  with y show ?thesis by (cases "y = 399") (auto simp: year_start_def)
qed

lemma civil_days_from_civil:
  assumes "1 \<le> m" "m \<le> 12" "1 \<le> d" "d \<le> days_in y m"
  shows "civil (days_from_civil y m d) = (y, m, d)"
proof -
  define y' where "y' = (if m \<le> 2 then y - 1 else y)"
  define era where "era = y' div 400"
  define yoe where "yoe = y' mod 400"
  define mp where "mp = (if m \<le> 2 then m + 9 else m - 3)"
  define doy where "doy = (153 * mp + 2) div 5 + d - 1"
  define doe where "doe = year_start yoe + doy"
  have t: "days_from_civil y m d = era * 146097 + doe - 306"
    by (simp only: days_from_civil_def Let_def doe_def year_start_def doy_def mp_def era_def yoe_def y'_def)
  have yoe: "0 \<le> yoe" "yoe < 400" by (simp_all add: yoe_def)
  have y': "y' = yoe + 400 * era" by (simp add: yoe_def era_def)
  have mp: "mp \<in> set [0..11]" using assms(1,2) by (simp add: mp_def)
  have len: "days_in y m \<le> month_days mp"
  proof -
    have "m \<in> set [1..12]" using assms(1,2) by simp
    then have "m = 1 \<or> m = 2 \<or> m = 3 \<or> m = 4 \<or> m = 5 \<or> m = 6 \<or> m = 7 \<or> m = 8 \<or> m = 9 \<or> m = 10 \<or> m = 11 \<or> m = 12"
      by simp presburger
    then show ?thesis by (elim disjE) (simp_all add: mp_def days_in_def month_days_def)
  qed
  have "d \<in> set [1..month_days mp]" using assms(3,4) len by simp
  then have md: "(5 * doy + 2) div 153 = mp" "0 \<le> doy" "doy \<le> 365" "mp \<noteq> 11 \<or> d \<le> 28 \<longrightarrow> doy \<le> 364"
    using months_of_year mp by (auto simp only: list_all_iff Let_def doy_def)
  have "doy < year_length yoe"
  proof (cases "doy = 365")
    case True
    then have "m = 2" "d = 29" using md(4) assms by (auto simp: mp_def days_in_def split: if_splits)
    then have "is_leap y" using assms(4) by (simp add: days_in_def split: if_splits)
    moreover have "y = (yoe + 1) + 400 * era" using y' \<open>m = 2\<close> by (simp add: y'_def)
    ultimately have "is_leap (yoe + 1)" using is_leap_era by metis
    then show ?thesis using True by (simp add: year_length_def)
  qed (use md(3) in \<open>simp add: year_length_def\<close>)
  then have yr: "year_of doe = yoe" using year_of_doe yoe md(2) by (simp add: doe_def)
  have doe: "0 \<le> doe" "doe < 146097" using year_start_bound [OF yoe] md by (simp_all add: doe_def)
  have z: "(days_from_civil y m d + 306) div 146097 = era" "(days_from_civil y m d + 306) mod 146097 = doe"
    using doe by (simp_all add: t)
  have doy: "doe - (365 * yoe + yoe div 4 - yoe div 100) = doy" by (simp add: doe_def year_start_def)
  have month: "(if mp < 10 then mp + 3 else mp - 9) = m" using assms(1,2) by (auto simp: mp_def)
  show ?thesis
    unfolding civil_def Let_def z yr [unfolded year_of_def] doy md(1) month
    using y' by (auto simp: y'_def doy_def)
qed

section \<open>Dates as text\<close>

definition digit_value :: "char \<Rightarrow> nat" where
  "digit_value c = of_char c - 48"

definition digits_value :: "string \<Rightarrow> nat" where
  "digits_value s = foldl (\<lambda>n c. 10 * n + digit_value c) 0 s"

definition all_digits :: "string \<Rightarrow> bool" where
  "all_digits s \<longleftrightarrow> (\<forall>c \<in> set s. CHR ''0'' \<le> c \<and> c \<le> CHR ''9'')"

text \<open>\<open>time.Parse\<close> with the layout whose separator is \<open>sep\<close>; the text of the error for a value of
  another shape is shortened.\<close>

definition time_parse :: "char \<Rightarrow> string \<Rightarrow> string + time" where
  "time_parse sep s =
     (let ys = take 4 s; ms = take 2 (drop 5 s); ds = drop 8 s in
      if length s = 10 \<and> all_digits (ys @ ms @ ds) \<and> s ! 4 = sep \<and> s ! 7 = sep then
        let y = int (digits_value ys); m = int (digits_value ms); d = int (digits_value ds) in
        if m < 1 \<or> 12 < m then Inl (''parsing time '' @ go_quote s @ '': month out of range'')
        else if d < 1 \<or> days_in y m < d then Inl (''parsing time '' @ go_quote s @ '': day out of range'')
        else Inr (days_from_civil y m d)
      else Inl (''parsing time '' @ go_quote s @ '': cannot parse''))"

text \<open>Digits of a fixed width.\<close>

fun fixed_digits :: "nat \<Rightarrow> nat \<Rightarrow> string" where
  "fixed_digits 0 n = []"
| "fixed_digits (Suc k) n = fixed_digits k (n div 10) @ [char_of (48 + n mod 10)]"

lemma length_fixed_digits [simp]: "length (fixed_digits k n) = k"
  by (induction k arbitrary: n) auto

lemma fixed_digits_0: "fixed_digits k 0 = replicate k (CHR ''0'')"
proof (induction k)
  case (Suc k)
  have "char_of (48 :: nat) = CHR ''0''" by code_simp
  with Suc show ?case by (simp add: replicate_append_same)
qed simp

lemma pad_zero_show: "n < 10 ^ k \<Longrightarrow> 0 < k \<Longrightarrow> pad_zero k (show_nat n) = fixed_digits k n"
proof (induction k arbitrary: n)
  case (Suc k)
  show ?case
  proof (cases "n < 10")
    case True
    then show ?thesis by (simp add: show_nat.simps [of n] pad_zero_def fixed_digits_0)
  next
    case False
    then have "0 < k" using Suc.prems by (cases k) auto
    moreover have "n div 10 < 10 ^ k" using Suc.prems by (simp add: less_mult_imp_div_less mult.commute)
    ultimately have "pad_zero k (show_nat (n div 10)) = fixed_digits k (n div 10)" using Suc.IH by blast
    then show ?thesis using False by (simp add: show_nat.simps [of n] pad_zero_def)
  qed
qed simp

lemma digit_value_char: "CHR ''0'' \<le> c \<Longrightarrow> c \<le> CHR ''9'' \<Longrightarrow> digit_value c < 10 \<and> char_of (48 + digit_value c) = c"
proof -
  assume "CHR ''0'' \<le> c" "c \<le> CHR ''9''"
  then have "48 \<le> (of_char c :: nat)" "(of_char c :: nat) \<le> 57" by (simp_all add: less_eq_char_def)
  then show ?thesis by (simp add: digit_value_def)
qed

lemma digits_value_snoc: "digits_value (s @ [c]) = 10 * digits_value s + digit_value c"
  by (simp add: digits_value_def)

lemma fixed_digits_value: "all_digits s \<Longrightarrow> fixed_digits (length s) (digits_value s) = s \<and> digits_value s < 10 ^ length s"
proof (induction s rule: rev_induct)
  case (snoc c s)
  then have c: "digit_value c < 10" "char_of (48 + digit_value c) = c"
    using digit_value_char [of c] by (simp_all add: all_digits_def)
  from snoc have s: "fixed_digits (length s) (digits_value s) = s" "digits_value s < 10 ^ length s"
    by (simp_all add: all_digits_def)
  have "(10 * digits_value s + digit_value c) div 10 = digits_value s"
    "(10 * digits_value s + digit_value c) mod 10 = digit_value c" using c by simp_all
  with c s show ?case by (simp add: digits_value_snoc)
qed (simp add: digits_value_def)

lemma show_int_nat [simp]: "show_int (int n) = show_nat n"
  by (simp add: show_int_def)

lemma time_parse_format:
  assumes "time_parse sep s = Inr t"
  shows "format_date t = s[4 := CHR ''-'', 7 := CHR ''-'']"
proof -
  define ys where "ys = take 4 s" define ms where "ms = take 2 (drop 5 s)" define ds where "ds = drop 8 s"
  define y where "y = digits_value ys" define m where "m = digits_value ms" define d where "d = digits_value ds"
  have len: "length s = 10" and dig: "all_digits ys" "all_digits ms" "all_digits ds"
    and range: "1 \<le> int m" "int m \<le> 12" "1 \<le> int d" "int d \<le> days_in (int y) (int m)"
    and t: "t = days_from_civil (int y) (int m) (int d)"
    using assms by (auto simp: time_parse_def Let_def ys_def [symmetric] ms_def [symmetric] ds_def [symmetric]
        y_def m_def d_def all_digits_def split: if_splits)
  have lens: "length ys = 4" "length ms = 2" "length ds = 2" using len by (simp_all add: ys_def ms_def ds_def)
  have "pad_zero 4 (show_nat y) = ys" "pad_zero 2 (show_nat m) = ms" "pad_zero 2 (show_nat d) = ds"
    using fixed_digits_value [OF dig(1)] fixed_digits_value [OF dig(2)] fixed_digits_value [OF dig(3)] lens
      pad_zero_show [of y 4] pad_zero_show [of m 2] pad_zero_show [of d 2]
    by (simp_all add: y_def m_def d_def)
  then have f: "format_date t = ys @ ''-'' @ ms @ ''-'' @ ds"
    by (simp add: format_date_def t civil_days_from_civil [OF range])
  obtain a0 a1 a2 a3 a4 a5 a6 a7 a8 a9 where "s = [a0, a1, a2, a3, a4, a5, a6, a7, a8, a9]"
    using len by (auto simp: length_Suc_conv numeral_eq_Suc)
  then show ?thesis unfolding f by (simp add: ys_def ms_def ds_def numeral_eq_Suc)
qed

end
