(* ===== verification/Lower.thy ===== *)
theory Lower
  imports Dates Runes Costs Parser
begin

text \<open>
  From the syntax tree to directives: \<open>pkg/ast/lower.go\<close>, with the evaluation of arithmetic and the
  amounts of \<open>balance_expr.go\<close>. The decimal context of the arithmetic, \<open>arithCtx\<close>, is the argument \<open>A\<close>.
  A read past the end of a token's text is a panic; everything else goes wrong with a diagnostic.
\<close>

section \<open>Spans of offsets\<close>

definition offset_pos :: "int \<Rightarrow> srcpos" where
  "offset_pos i = zero_pos\<lparr>pos_offset := i\<rparr>"

definition offset_span :: "int \<Rightarrow> int \<Rightarrow> span" where
  "offset_span a b = \<lparr>span_start = offset_pos a, span_end = offset_pos b\<rparr>"

text \<open>The first and the last token of a node.\<close>

definition node_ends :: "node \<Rightarrow> (token \<times> token) option" where
  "node_ends n = (case node_tokens n of [] \<Rightarrow> None | t # ts \<Rightarrow> Some (t, last (t # ts)))"

definition span_of_node :: "node \<Rightarrow> span" where
  "span_of_node n =
     (case node_ends n of None \<Rightarrow> zero_span
      | Some (first, final) \<Rightarrow> offset_span (int (tok_pos first)) (int (tok_pos final + length (tok_raw final))))"

section \<open>Arithmetic\<close>

definition remove_commas :: "string \<Rightarrow> string" where
  "remove_commas s = filter (\<lambda>c. c \<noteq> CHR '','') s"

definition parse_number_token :: "unicode \<Rightarrow> apd \<Rightarrow> token \<Rightarrow> string + decimal" where
  "parse_number_token U A t =
     (case apd_parse A (remove_commas (tok_raw t)) of
        Inl e \<Rightarrow> Inl (''invalid number '' @ quote_text U (tok_raw t) @ '': '' @ e)
      | Inr d \<Rightarrow> Inr d)"

fun nodes_in :: "child list \<Rightarrow> node list" where
  "nodes_in [] = []"
| "nodes_in (CNode n # cs) = n # nodes_in cs"
| "nodes_in (CToken t # cs) = nodes_in cs"

fun tokens_in :: "child list \<Rightarrow> token list" where
  "tokens_in [] = []"
| "tokens_in (CNode n # cs) = tokens_in cs"
| "tokens_in (CToken t # cs) = t # tokens_in cs"

lemma size_nodes_in: "n \<in> set (nodes_in cs) \<Longrightarrow> size n < size_list size cs"
  by (induction cs rule: nodes_in.induct) auto

lemma size_nodes_in_node: "n \<in> set (nodes_in (nd_children m)) \<Longrightarrow> size n < size m"
  using size_nodes_in [of n "nd_children m"] by (cases m) auto

definition binary :: "apd \<Rightarrow> token_kind \<Rightarrow> decimal \<Rightarrow> decimal \<Rightarrow> decimal result option" where
  "binary A k left right =
     (case k of PLUS \<Rightarrow> Some (plain_err (apd_add A left right))
      | MINUS \<Rightarrow> Some (plain_err (apd_sub A left right))
      | STAR \<Rightarrow> Some (plain_err (apd_mul A left right))
      | SLASH \<Rightarrow> Some (quo_normalized A quo_precision left right)
      | _ \<Rightarrow> None)"

definition err_text :: "go_error \<Rightarrow> string" where
  "err_text e = (case e of SysErr m \<Rightarrow> m | Panic m \<Rightarrow> m)"

function eval_arith :: "unicode \<Rightarrow> apd \<Rightarrow> node \<Rightarrow> diagnostic + decimal" where
  "eval_arith U A n =
     (let nodes = nodes_in (nd_children n); tokens = tokens_in (nd_children n) in
      if nodes = [] \<and> length tokens = 1 \<and> tok_kind (tokens ! 0) = NUMBER then
        (case parse_number_token U A (tokens ! 0) of
           Inl e \<Rightarrow> Inl (mk_diag [] (span_of_node n) e) | Inr d \<Rightarrow> Inr d)
      else if length nodes = 1 \<and> length tokens = 2 \<and> tok_kind (tokens ! 0) = LPAREN then
        eval_arith U A (nodes ! 0)
      else if length nodes = 1 \<and> length tokens = 1 \<and> tok_kind (tokens ! 0) \<in> {PLUS, MINUS} then
        (case eval_arith U A (nodes ! 0) of
           Inl d \<Rightarrow> Inl d
         | Inr v \<Rightarrow> Inr (if tok_kind (tokens ! 0) = MINUS then v\<lparr>d_neg := \<not> d_neg v\<rparr> else v))
      else if length nodes = 2 \<and> length tokens = 1 then
        (case eval_arith U A (nodes ! 0) of
           Inl d \<Rightarrow> Inl d
         | Inr left \<Rightarrow>
           (case eval_arith U A (nodes ! 1) of
              Inl d \<Rightarrow> Inl d
            | Inr right \<Rightarrow>
              (case binary A (tok_kind (tokens ! 0)) left right of
                 None \<Rightarrow> Inl (mk_diag [] (span_of_node n)
                   (''unexpected operator '' @ token_kind_name (tok_kind (tokens ! 0)) @ '' in expression''))
               | Some (Inl e) \<Rightarrow> Inl (mk_diag [] (span_of_node n) (''arithmetic error: '' @ err_text e))
               | Some (Inr r) \<Rightarrow> Inr r)))
      else Inl (mk_diag [] (span_of_node n) ''malformed arithmetic expression''))"
  by pat_completeness auto
termination
  by (relation "measure (\<lambda>(U, A, n). size n)") (auto intro!: size_nodes_in_node nth_mem)

declare eval_arith.simps [simp del]

section \<open>Amounts on their own\<close>

definition is_space :: "unicode \<Rightarrow> nat \<Rightarrow> bool" where
  "is_space U r =
     (if r < 0x100 then r \<in> set [9, 10, 11, 12, 13, 32, 0x85, 0xA0] else U r \<in> set [''Zs'', ''Zl'', ''Zp''])"

text \<open>\<open>strings.TrimSpace(s) == ""\<close>.\<close>

definition blank_text :: "unicode \<Rightarrow> string \<Rightarrow> bool" where
  "blank_text U s \<longleftrightarrow> (\<forall>x \<in> set (runes 0 s). is_space U (snd x))"

definition is_trailing_error :: "syntax_error \<Rightarrow> bool" where
  "is_trailing_error e \<longleftrightarrow>
     se_msg e = ''unexpected trailing input'' \<or> take 16 (se_msg e) = ''unexpected token''"

definition classify_structural_errors :: "string \<Rightarrow> syntax_error list \<Rightarrow> token option \<Rightarrow> diagnostic list" where
  "classify_structural_errors s errs cur =
     (let trailing = List.find is_trailing_error errs;
          parse_errs = filter (\<lambda>e. \<not> is_trailing_error e \<and> take 17 (se_msg e) \<noteq> ''expected CURRENCY'' \<and>
            \<not> (case trailing of None \<Rightarrow> False | Some t \<Rightarrow> se_pos t \<le> se_pos e)) errs;
          diags = map (\<lambda>e. mk_diag ''amount-expr-parse'' (offset_span (int (se_pos e)) (int (se_pos e))) (se_msg e))
            parse_errs
      in case trailing of
           Some t \<Rightarrow> diags @ [mk_diag ''amount-trailing-input''
             (offset_span (int (se_pos t)) (int (length s))) ''unexpected trailing input'']
         | None \<Rightarrow>
           if cur = None \<and> parse_errs = [] then diags @ [mk_diag ''amount-missing-currency''
             (offset_span 0 (int (length s))) ''amount expression missing currency'']
           else diags)"

text \<open>Indexing a slice and reading through a nil pointer panic.\<close>

definition at_index :: "'a list \<Rightarrow> nat \<Rightarrow> 'a result" where
  "at_index xs i = (if i < length xs then Inr (xs ! i) else Inl (Panic ''index out of range''))"

definition empty_amount :: "string \<Rightarrow> diagnostic" where
  "empty_amount s = mk_diag ''amount-expr-parse'' (offset_span 0 (int (length s))) ''empty amount expression''"

definition parse_amount_text :: "unicode \<Rightarrow> apd \<Rightarrow> string \<Rightarrow> (diagnostic list + amount) result" where
  "parse_amount_text U A s =
     (if blank_text U s then Inr (Inl [empty_amount s])
      else case parse_amount_expression U s of (n, errs) \<Rightarrow>
        let exprs = find_all_nodes n ArithExprNode; cur = find_token n CURRENCY;
            diags = classify_structural_errors s errs cur in
        if diags \<noteq> [] then Inr (Inl diags)
        else rbind (at_index exprs 0) (\<lambda>e. case eval_arith U A e of
          Inl d \<Rightarrow> Inr (Inl [d\<lparr>diag_code := ''amount-expr-eval''\<rparr>])
        | Inr num \<Rightarrow> rbind (deref cur) (\<lambda>c. Inr (Inr \<lparr>amt_number = num, amt_currency = tok_raw c\<rparr>))))"

definition parse_balance_text :: "unicode \<Rightarrow> apd \<Rightarrow> string \<Rightarrow> (diagnostic list + amount \<times> decimal option) result" where
  "parse_balance_text U A s =
     (if blank_text U s then Inr (Inl [empty_amount s])
      else case parse_balance_amount_text U s of (n, errs) \<Rightarrow>
        let exprs = find_all_nodes n ArithExprNode; cur = find_token n CURRENCY; tilde = find_token n TILDE;
            diags = classify_structural_errors s errs cur in
        if diags \<noteq> [] then Inr (Inl diags)
        else rbind (at_index exprs 0) (\<lambda>e. case eval_arith U A e of
          Inl d \<Rightarrow> Inr (Inl [d\<lparr>diag_code := ''amount-expr-eval''\<rparr>])
        | Inr num \<Rightarrow> rbind (deref cur) (\<lambda>c.
            let amt = \<lparr>amt_number = num, amt_currency = tok_raw c\<rparr> in
            if tilde \<noteq> None \<and> 2 \<le> length exprs then
              (case eval_arith U A (exprs ! 1) of
                 Inl d \<Rightarrow> Inr (Inl [d\<lparr>diag_code := ''balance-tolerance-eval''\<rparr>])
               | Inr tol \<Rightarrow> Inr (Inr (amt, Some tol)))
            else Inr (Inr (amt, None)))))"

section \<open>The lowerer\<close>

record ast_file =
  af_filename :: string
  af_directives :: "directive list"
  af_diagnostics :: "diagnostic list"

record lowerer =
  lw_filename :: string
  lw_file :: ast_file
  lw_tags :: "string set"
  lw_source :: string
  lw_line_starts :: "nat list"
  lw_err_offsets :: "nat list"

fun line_starts_from :: "nat \<Rightarrow> string \<Rightarrow> nat list" where
  "line_starts_from i [] = []"
| "line_starts_from i (c # cs) =
     (if c = CHR 0x0A then (i + 1) # line_starts_from (i + 1) cs else line_starts_from (i + 1) cs)"

definition compute_line_starts :: "string \<Rightarrow> nat list" where
  "compute_line_starts src = 0 # line_starts_from 0 src"

text \<open>\<open>sort.SearchInts\<close> on a sorted slice: the number of elements below \<open>x\<close>.\<close>

definition search_ints :: "nat list \<Rightarrow> nat \<Rightarrow> nat" where
  "search_ints xs x = length (takeWhile (\<lambda>y. y < x) xs)"

definition pos_at :: "lowerer \<Rightarrow> int \<Rightarrow> srcpos" where
  "pos_at l offset =
     (let pos = \<lparr>pos_filename = lw_filename l, pos_offset = offset, pos_line = 0, pos_column = 0\<rparr> in
      if lw_line_starts l = [] \<or> offset < 0 \<or> int (length (lw_source l)) < offset then pos
      else let i = search_ints (lw_line_starts l) (nat offset + 1) - 1 in
        pos\<lparr>pos_line := int i + 1,
            pos_column := int (rune_count (slice (lw_source l) (lw_line_starts l ! i) (nat offset))) + 1\<rparr>)"

definition span_from_offset :: "lowerer \<Rightarrow> int \<Rightarrow> span" where
  "span_from_offset l offset = \<lparr>span_start = pos_at l offset, span_end = pos_at l offset\<rparr>"

definition span_from_node :: "lowerer \<Rightarrow> node \<Rightarrow> span" where
  "span_from_node l n =
     (case node_ends n of None \<Rightarrow> zero_span
      | Some (first, final) \<Rightarrow>
          \<lparr>span_start = pos_at l (int (tok_pos first)),
           span_end = pos_at l (int (tok_pos final + length (tok_raw final)))\<rparr>)"

definition add_diag :: "diagnostic \<Rightarrow> lowerer \<Rightarrow> lowerer" where
  "add_diag d l = l\<lparr>lw_file := (lw_file l)\<lparr>af_diagnostics := af_diagnostics (lw_file l) @ [d]\<rparr>\<rparr>"

definition add_diagnostic :: "node \<Rightarrow> string \<Rightarrow> lowerer \<Rightarrow> lowerer" where
  "add_diagnostic n msg l = add_diag (mk_diag [] (span_from_node l n) msg) l"

definition add_token_diagnostic :: "token \<Rightarrow> string \<Rightarrow> lowerer \<Rightarrow> lowerer" where
  "add_token_diagnostic t msg l =
     add_diag (mk_diag [] \<lparr>span_start = pos_at l (int (tok_pos t)),
       span_end = zero_pos\<lparr>pos_filename := lw_filename l, pos_offset := int (tok_pos t + length (tok_raw t))\<rparr>\<rparr>
       msg) l"

definition add_directive :: "directive \<Rightarrow> lowerer \<Rightarrow> lowerer" where
  "add_directive d l = l\<lparr>lw_file := (lw_file l)\<lparr>af_directives := af_directives (lw_file l) @ [d]\<rparr>\<rparr>"

definition has_parser_error_in :: "lowerer \<Rightarrow> node \<Rightarrow> bool" where
  "has_parser_error_in l n =
     (if lw_err_offsets l = [] then False
      else case node_ends n of None \<Rightarrow> False
      | Some (first, final) \<Rightarrow>
          let i = search_ints (lw_err_offsets l) (tok_pos first) in
          i < length (lw_err_offsets l) \<and>
          lw_err_offsets l ! i < tok_pos final + length (tok_raw final))"

section \<open>Values of tokens\<close>

definition unquote_string :: "token \<Rightarrow> string" where
  "unquote_string t =
     (let s = tok_raw t in
      if 2 \<le> length s \<and> s ! 0 = CHR 0x22 \<and> s ! (length s - 1) = CHR 0x22
      then slice s 1 (length s - 1) else s)"

definition parse_date :: "unicode \<Rightarrow> token \<Rightarrow> string + time" where
  "parse_date U t =
     (let s = tok_raw t; dash = CHR ''-'' \<in> set s; slash = CHR ''/'' \<in> set s in
      if dash \<and> \<not> slash then time_parse (CHR ''-'') s
      else if slash \<and> \<not> dash then time_parse (CHR ''/'') s
      else Inl (''invalid date '' @ quote_text U s @ '': separators must be all '' @ [CHR 0x27] @ ''-'' @
        [CHR 0x27] @ '' or all '' @ [CHR 0x27] @ ''/'' @ [CHR 0x27]))"

definition mk_meta :: "meta_kind \<Rightarrow> meta_value" where
  "mk_meta k = \<lparr>mv_kind = k, mv_string = [], mv_date = zero_time, mv_number = dzero,
     mv_amount = \<lparr>amt_number = dzero, amt_currency = []\<rparr>, mv_bool = False\<rparr>"

definition meta_string :: "meta_kind \<Rightarrow> string \<Rightarrow> meta_value" where
  "meta_string k s = (mk_meta k)\<lparr>mv_string := s\<rparr>"

definition token_to_meta_value :: "unicode \<Rightarrow> apd \<Rightarrow> node \<Rightarrow> token \<Rightarrow> lowerer \<Rightarrow> meta_value \<times> lowerer" where
  "token_to_meta_value U A n t l =
     (if (tok_kind t = CURRENCY \<or> tok_kind t = IDENT) \<and> (tok_raw t = ''TRUE'' \<or> tok_raw t = ''FALSE'')
      then ((mk_meta MetaBool)\<lparr>mv_bool := (tok_raw t = ''TRUE'')\<rparr>, l)
      else case tok_kind t of
        STRING \<Rightarrow> (meta_string MetaString (unquote_string t), l)
      | ACCOUNT \<Rightarrow> (meta_string MetaAccount (tok_raw t), l)
      | CURRENCY \<Rightarrow> (meta_string MetaCurrency (tok_raw t), l)
      | DATE \<Rightarrow>
          (case parse_date U t of
             Inl e \<Rightarrow> (meta_string MetaString (tok_raw t),
               add_diagnostic n (''invalid metadata date '' @ quote_text U (tok_raw t) @ '': '' @ e) l)
           | Inr d \<Rightarrow> ((mk_meta MetaDate)\<lparr>mv_date := d\<rparr>, l))
      | TAG \<Rightarrow> (meta_string MetaTag (tok_raw t), l)
      | LINK \<Rightarrow> (meta_string MetaLink (tok_raw t), l)
      | NUMBER \<Rightarrow>
          (case parse_number_token U A t of
             Inl e \<Rightarrow> (meta_string MetaString (tok_raw t),
               add_diagnostic n (''invalid metadata number '' @ quote_text U (tok_raw t) @ '': '' @ e) l)
           | Inr num \<Rightarrow> ((mk_meta MetaNumber)\<lparr>mv_number := num\<rparr>, l))
      | _ \<Rightarrow> (meta_string MetaString (tok_raw t), l))"

text \<open>The first child token after the first colon.\<close>

fun value_token :: "bool \<Rightarrow> child list \<Rightarrow> token option" where
  "value_token found [] = None"
| "value_token found (CToken t # cs) =
     (if tok_kind t = COLON then value_token True cs
      else if found then Some t else value_token found cs)"
| "value_token found (CNode n # cs) = value_token found cs"

definition lower_metadata_line ::
  "unicode \<Rightarrow> apd \<Rightarrow> node \<Rightarrow> lowerer \<Rightarrow> (string \<times> meta_value) option \<times> lowerer" where
  "lower_metadata_line U A n l =
     (case find_token n IDENT of
        None \<Rightarrow> (None, add_diagnostic n ''metadata line missing key'' l)
      | Some key \<Rightarrow>
        (case value_token False (nd_children n) of
           None \<Rightarrow> (None, add_diagnostic n ''metadata line missing value'' l)
         | Some t \<Rightarrow>
           (case token_to_meta_value U A n t l of (v, l1) \<Rightarrow> (Some (tok_raw key, v), l1))))"

fun lower_metadata_lines ::
  "unicode \<Rightarrow> apd \<Rightarrow> node list \<Rightarrow> metadata \<Rightarrow> lowerer \<Rightarrow> metadata \<times> lowerer" where
  "lower_metadata_lines U A [] meta l = (meta, l)"
| "lower_metadata_lines U A (n # ns) meta l =
     (case lower_metadata_line U A n l of
        (None, l1) \<Rightarrow> lower_metadata_lines U A ns meta l1
      | (Some (key, v), l1) \<Rightarrow>
          if meta key \<noteq> None then
            lower_metadata_lines U A ns meta
              (add_diagnostic n (''duplicate metadata key '' @ quote_text U key) l1)
          else lower_metadata_lines U A ns (meta(key \<mapsto> v)) l1)"

definition lower_metadata :: "unicode \<Rightarrow> apd \<Rightarrow> node \<Rightarrow> lowerer \<Rightarrow> metadata \<times> lowerer" where
  "lower_metadata U A n l = lower_metadata_lines U A (find_all_nodes n MetadataLineNode) Map.empty l"

text \<open>\<open>t.Raw[1:]\<close>.\<close>

definition after_sigil :: "token \<Rightarrow> string result" where
  "after_sigil t = (case tok_raw t of [] \<Rightarrow> Inl (Panic ''slice bounds out of range'') | _ # cs \<Rightarrow> Inr cs)"

text \<open>The tags and links among the child tokens of a node.\<close>

fun tags_and_links :: "token list \<Rightarrow> (string list \<times> string list) result" where
  "tags_and_links [] = Inr ([], [])"
| "tags_and_links (t # ts) =
     (if tok_kind t = TAG then
        rbind (after_sigil t) (\<lambda>s. rbind (tags_and_links ts) (\<lambda>(tags, links). Inr (s # tags, links)))
      else if tok_kind t = LINK then
        rbind (after_sigil t) (\<lambda>s. rbind (tags_and_links ts) (\<lambda>(tags, links). Inr (tags, s # links)))
      else tags_and_links ts)"

definition merge_active_tags :: "string list \<Rightarrow> string set \<Rightarrow> string list" where
  "merge_active_tags tags active =
     (if active = {} then tags
      else tags @ filter (\<lambda>t. t \<notin> set tags) (sorted_list_of_set active))"

section \<open>Amounts, costs, prices\<close>

definition rebase_diagnostic :: "lowerer \<Rightarrow> diagnostic \<Rightarrow> diagnostic" where
  "rebase_diagnostic l d =
     d\<lparr>diag_span := \<lparr>span_start = pos_at l (pos_offset (span_start (diag_span d))),
                      span_end = pos_at l (pos_offset (span_end (diag_span d)))\<rparr>\<rparr>"

definition eval_expr :: "unicode \<Rightarrow> apd \<Rightarrow> node \<Rightarrow> lowerer \<Rightarrow> decimal option \<times> lowerer" where
  "eval_expr U A n l =
     (case eval_arith U A n of Inl d \<Rightarrow> (None, add_diag (rebase_diagnostic l d) l) | Inr v \<Rightarrow> (Some v, l))"

definition lower_amount_optional_currency ::
  "unicode \<Rightarrow> apd \<Rightarrow> node \<Rightarrow> lowerer \<Rightarrow> amount option \<times> lowerer" where
  "lower_amount_optional_currency U A n l =
     (case find_node n ArithExprNode of
        None \<Rightarrow> (None, add_diagnostic n ''amount missing expression'' l)
      | Some e \<Rightarrow>
        (case eval_expr U A e l of
           (None, l1) \<Rightarrow> (None, l1)
         | (Some num, l1) \<Rightarrow>
             (Some \<lparr>amt_number = num,
                    amt_currency = (case find_token n CURRENCY of None \<Rightarrow> [] | Some t \<Rightarrow> tok_raw t)\<rparr>, l1)))"

definition lower_amount :: "unicode \<Rightarrow> apd \<Rightarrow> node \<Rightarrow> lowerer \<Rightarrow> amount option \<times> lowerer" where
  "lower_amount U A n l =
     (case lower_amount_optional_currency U A n l of
        (None, l1) \<Rightarrow> (None, l1)
      | (Some amt, l1) \<Rightarrow>
          if amt_currency amt = [] then (None, add_diagnostic n ''amount missing currency'' l1)
          else (Some amt, l1))"

definition lower_cost_combined ::
  "unicode \<Rightarrow> apd \<Rightarrow> node \<Rightarrow> cost_spec \<Rightarrow> lowerer \<Rightarrow> cost_spec option \<times> lowerer" where
  "lower_cost_combined U A n cs l =
     (let amounts = find_all_nodes n AmountNode in
      if length amounts < 2 then (None, add_diagnostic n ''combined cost form requires two amounts'' l)
      else case lower_amount U A (amounts ! 1) l of
        (None, l1) \<Rightarrow> (None, l1)
      | (Some tot, l1) \<Rightarrow>
          if amt_currency tot = [] then
            (None, add_diagnostic (amounts ! 1) ''total amount in combined cost form requires a currency'' l1)
          else case lower_amount_optional_currency U A (amounts ! 0) l1 of
            (None, l2) \<Rightarrow> (None, l2)
          | (Some per, l2) \<Rightarrow>
              (Some (cs\<lparr>cs_per_unit := Some (amt_number per), cs_total := Some (amt_number tot),
                        cs_currency := amt_currency tot\<rparr>), l2))"

definition lower_cost_amounts ::
  "unicode \<Rightarrow> apd \<Rightarrow> node \<Rightarrow> cost_spec \<Rightarrow> lowerer \<Rightarrow> cost_spec option \<times> lowerer" where
  "lower_cost_amounts U A n cs l =
     (let is_total = (find_token n LBRACE2 \<noteq> None) in
      if find_token n HASH \<noteq> None then
        if is_total then
          (None, add_diagnostic n ([CHR 0x27] @ ''#'' @ [CHR 0x27] @
             '' separator is not allowed inside total-cost braces {{...}}'') l)
        else lower_cost_combined U A n cs l
      else case find_node n AmountNode of
        Some a \<Rightarrow>
          (case lower_amount U A a l of
             (None, l1) \<Rightarrow> (None, l1)
           | (Some amt, l1) \<Rightarrow>
               (Some (if is_total then cs\<lparr>cs_currency := amt_currency amt, cs_total := Some (amt_number amt)\<rparr>
                      else cs\<lparr>cs_currency := amt_currency amt, cs_per_unit := Some (amt_number amt)\<rparr>), l1))
      | None \<Rightarrow>
          (case find_tokens n CURRENCY of
             [] \<Rightarrow> (Some cs, l)
           | t # _ \<Rightarrow> (Some (cs\<lparr>cs_currency := tok_raw t\<rparr>), l)))"

definition lower_cost_spec :: "unicode \<Rightarrow> apd \<Rightarrow> node \<Rightarrow> lowerer \<Rightarrow> cost_spec option \<times> lowerer" where
  "lower_cost_spec U A n l =
     (case lower_cost_amounts U A n
        \<lparr>cs_span = span_from_node l n, cs_per_unit = None, cs_total = None, cs_currency = [],
         cs_date = None, cs_label = []\<rparr> l of
        (None, l1) \<Rightarrow> (None, l1)
      | (Some cs, l1) \<Rightarrow>
          let labelled = (\<lambda>cs. case find_token n STRING of None \<Rightarrow> cs | Some t \<Rightarrow> cs\<lparr>cs_label := unquote_string t\<rparr>) in
          (case find_token n DATE of
             None \<Rightarrow> (Some (labelled cs), l1)
           | Some t \<Rightarrow>
             (case parse_date U t of
                Inl e \<Rightarrow> (None, add_diagnostic n (''invalid cost date '' @ quote_text U (tok_raw t) @ '': '' @ e) l1)
              | Inr d \<Rightarrow> (Some (labelled (cs\<lparr>cs_date := Some d\<rparr>)), l1))))"

definition lower_price_annotation ::
  "unicode \<Rightarrow> apd \<Rightarrow> node \<Rightarrow> lowerer \<Rightarrow> price_annotation option \<times> lowerer" where
  "lower_price_annotation U A n l =
     (case find_node n AmountNode of
        None \<Rightarrow> (None, add_diagnostic n ''price annotation missing amount'' l)
      | Some a \<Rightarrow>
        (case lower_amount U A a l of
           (None, l1) \<Rightarrow> (None, l1)
         | (Some amt, l1) \<Rightarrow>
             (Some \<lparr>pa_span = span_from_node l n, pa_amount = amt,
                    pa_is_total = (find_token n ATAT \<noteq> None)\<rparr>, l1)))"

section \<open>Postings\<close>

definition lower_posting :: "unicode \<Rightarrow> apd \<Rightarrow> node \<Rightarrow> lowerer \<Rightarrow> posting option \<times> lowerer" where
  "lower_posting U A n l =
     (let flag = (if find_token n STAR \<noteq> None then CHR ''*''
                  else if find_token n BANG \<noteq> None then CHR ''!'' else CHR 0x00);
          p = \<lparr>p_span = span_from_node l n, p_flag = flag, p_account = [], p_amount = None, p_cost = None,
               p_price = None, p_meta = Map.empty\<rparr> in
      case find_token n ACCOUNT of
        None \<Rightarrow> (None, add_diagnostic n ''posting missing account'' l)
      | Some acct \<Rightarrow>
        let p1 = p\<lparr>p_account := tok_raw acct\<rparr> in
        case (case find_node n AmountNode of
                None \<Rightarrow> (Some p1, l)
              | Some m \<Rightarrow> (case lower_amount U A m l of
                  (None, l1) \<Rightarrow> (None, l1) | (Some amt, l1) \<Rightarrow> (Some (p1\<lparr>p_amount := Some amt\<rparr>), l1))) of
          (None, l1) \<Rightarrow> (None, l1)
        | (Some p2, l1) \<Rightarrow>
        case (case find_node n CostSpecNode of
                None \<Rightarrow> (Some p2, l1)
              | Some m \<Rightarrow> (case lower_cost_spec U A m l1 of
                  (None, l2) \<Rightarrow> (None, l2) | (Some cs, l2) \<Rightarrow> (Some (p2\<lparr>p_cost := Some (HSpec cs)\<rparr>), l2))) of
          (None, l2) \<Rightarrow> (None, l2)
        | (Some p3, l2) \<Rightarrow>
        case (case find_node n PriceAnnotNode of
                None \<Rightarrow> (Some p3, l2)
              | Some m \<Rightarrow> (case lower_price_annotation U A m l2 of
                  (None, l3) \<Rightarrow> (None, l3) | (Some pa, l3) \<Rightarrow> (Some (p3\<lparr>p_price := Some pa\<rparr>), l3))) of
          (None, l3) \<Rightarrow> (None, l3)
        | (Some p4, l3) \<Rightarrow>
          (case lower_metadata U A n l3 of (meta, l4) \<Rightarrow> (Some (p4\<lparr>p_meta := meta\<rparr>), l4)))"

fun lower_postings :: "unicode \<Rightarrow> apd \<Rightarrow> node list \<Rightarrow> lowerer \<Rightarrow> posting list \<times> lowerer" where
  "lower_postings U A [] l = ([], l)"
| "lower_postings U A (n # ns) l =
     (case lower_posting U A n l of
        (None, l1) \<Rightarrow> lower_postings U A ns l1
      | (Some p, l1) \<Rightarrow> (case lower_postings U A ns l1 of (ps, l2) \<Rightarrow> (p # ps, l2)))"

end
