(* ===== verification/Lowering.thy ===== *)
theory Lowering
  imports Lower
begin

text \<open>
  The handlers of \<open>pkg/ast/lower.go\<close>, one per kind of directive, and \<open>Lower\<close> itself, which turns the
  parser's errors into diagnostics and hands the top-level nodes to them in order.
\<close>

section \<open>Directives with a date\<close>

text \<open>What every dated handler begins with; \<open>what\<close> is its name in the message.\<close>

definition with_date ::
  "unicode \<Rightarrow> string \<Rightarrow> node \<Rightarrow> (time \<Rightarrow> lowerer \<Rightarrow> lowerer result) \<Rightarrow> lowerer \<Rightarrow> lowerer result" where
  "with_date U what n k l =
     (case find_token n DATE of
        None \<Rightarrow> Inr (add_diagnostic n (what @ '' missing date'') l)
      | Some t \<Rightarrow>
        (case parse_date U t of
           Inl e \<Rightarrow> Inr (add_diagnostic n (''invalid date '' @ tok_raw t @ '': '' @ e) l)
         | Inr d \<Rightarrow> k d l))"

text \<open>A token of the kind that has to be there.\<close>

definition with_token ::
  "token_kind \<Rightarrow> string \<Rightarrow> node \<Rightarrow> (token \<Rightarrow> lowerer \<Rightarrow> lowerer result) \<Rightarrow> lowerer \<Rightarrow> lowerer result" where
  "with_token k missing n f l =
     (case find_token n k of None \<Rightarrow> Inr (add_diagnostic n missing l) | Some t \<Rightarrow> f t l)"

text \<open>The directive is built after its metadata has been read.\<close>

definition emit :: "unicode \<Rightarrow> apd \<Rightarrow> node \<Rightarrow> (span \<Rightarrow> metadata \<Rightarrow> directive) \<Rightarrow> lowerer \<Rightarrow> lowerer result" where
  "emit U A n make_dir l =
     (case lower_metadata U A n l of (meta, l1) \<Rightarrow> Inr (add_directive (make_dir (span_from_node l n) meta) l1))"

definition lower_booking :: "unicode \<Rightarrow> node \<Rightarrow> lowerer \<Rightarrow> booking_method \<times> lowerer" where
  "lower_booking U n l =
     (case find_tokens n STRING of
        [] \<Rightarrow> (BookingDefault, l)
      | t # _ \<Rightarrow>
        (case parse_booking_method (unquote_string t) of
           Inl _ \<Rightarrow> (BookingDefault,
             add_token_diagnostic t (''invalid booking method '' @ quote_text U (unquote_string t)) l)
         | Inr m \<Rightarrow> (m, l)))"

definition lower_open :: "unicode \<Rightarrow> apd \<Rightarrow> node \<Rightarrow> lowerer \<Rightarrow> lowerer result" where
  "lower_open U A n = with_date U ''open directive'' n (\<lambda>date.
     with_token ACCOUNT ''open directive missing account'' n (\<lambda>acct l.
       (case lower_booking U n l of (booking, l1) \<Rightarrow>
          emit U A n (\<lambda>s meta. DOpen
            \<lparr>open_span = s, open_date = date, open_account = tok_raw acct,
             open_currencies = map tok_raw (find_tokens n CURRENCY), open_booking = booking,
             open_meta = meta\<rparr>) l1)))"

definition lower_close :: "unicode \<Rightarrow> apd \<Rightarrow> node \<Rightarrow> lowerer \<Rightarrow> lowerer result" where
  "lower_close U A n = with_date U ''close directive'' n (\<lambda>date.
     with_token ACCOUNT ''close directive missing account'' n (\<lambda>acct.
       emit U A n (\<lambda>s meta. DClose
         \<lparr>close_span = s, close_date = date, close_account = tok_raw acct, close_meta = meta\<rparr>)))"

definition lower_option :: "node \<Rightarrow> lowerer \<Rightarrow> lowerer result" where
  "lower_option n l =
     (case find_tokens n STRING of
        key # val # _ \<Rightarrow> Inr (add_directive (DOption
          \<lparr>opt_span = span_from_node l n, opt_key = unquote_string key, opt_value = unquote_string val\<rparr>) l)
      | _ \<Rightarrow> Inr (add_diagnostic n ''option directive requires two string arguments'' l))"

definition lower_plugin :: "node \<Rightarrow> lowerer \<Rightarrow> lowerer result" where
  "lower_plugin n l =
     (case find_tokens n STRING of
        [] \<Rightarrow> Inr (add_diagnostic n ''plugin directive requires a string argument'' l)
      | name # rest \<Rightarrow> Inr (add_directive (DPlugin
          \<lparr>plg_span = span_from_node l n, plg_name = unquote_string name,
           plg_config = (case rest of [] \<Rightarrow> [] | config # _ \<Rightarrow> unquote_string config)\<rparr>) l))"

definition lower_include :: "node \<Rightarrow> lowerer \<Rightarrow> lowerer result" where
  "lower_include n l =
     (case find_tokens n STRING of
        [] \<Rightarrow> Inr (add_diagnostic n ''include directive requires a string argument'' l)
      | path # _ \<Rightarrow> Inr (add_directive (DInclude
          \<lparr>inc_span = span_from_node l n, inc_path = unquote_string path\<rparr>) l))"

definition lower_commodity :: "unicode \<Rightarrow> apd \<Rightarrow> node \<Rightarrow> lowerer \<Rightarrow> lowerer result" where
  "lower_commodity U A n = with_date U ''commodity directive'' n (\<lambda>date.
     with_token CURRENCY ''commodity directive missing currency'' n (\<lambda>cur.
       emit U A n (\<lambda>s meta. DCommodity
         \<lparr>com_span = s, com_date = date, com_currency = tok_raw cur, com_meta = meta\<rparr>)))"

definition lower_balance :: "unicode \<Rightarrow> apd \<Rightarrow> node \<Rightarrow> lowerer \<Rightarrow> lowerer result" where
  "lower_balance U A n = with_date U ''balance directive'' n (\<lambda>date.
     with_token ACCOUNT ''balance directive missing account'' n (\<lambda>acct l.
       (case find_node n BalanceAmountNode of
          None \<Rightarrow> Inr (add_diagnostic n ''balance directive missing amount'' l)
        | Some body \<Rightarrow>
          (case find_all_nodes body ArithExprNode of
             [] \<Rightarrow> Inr (add_diagnostic n ''balance directive missing amount'' l)
           | e # rest \<Rightarrow>
             (case find_token body CURRENCY of
                None \<Rightarrow> Inr (add_diagnostic n ''balance directive missing currency'' l)
              | Some cur \<Rightarrow>
                (case eval_expr U A e l of
                   (None, l1) \<Rightarrow> Inr l1
                 | (Some num, l1) \<Rightarrow>
                   (case lower_metadata U A n l1 of (meta, l2) \<Rightarrow>
                      let bal = \<lparr>bal_span = span_from_node l n, bal_date = date, bal_account = tok_raw acct,
                        bal_amount = \<lparr>amt_number = num, amt_currency = tok_raw cur\<rparr>,
                        bal_tolerance = None, bal_meta = meta, bal_diff = None\<rparr> in
                      if rest \<noteq> [] \<and> find_token body TILDE \<noteq> None then
                        (case eval_expr U A (hd rest) l2 of
                           (tol, l3) \<Rightarrow> Inr (add_directive (DBalance (bal\<lparr>bal_tolerance := tol\<rparr>)) l3))
                      else Inr (add_directive (DBalance bal) l2))))))))"

definition lower_pad :: "unicode \<Rightarrow> apd \<Rightarrow> node \<Rightarrow> lowerer \<Rightarrow> lowerer result" where
  "lower_pad U A n = with_date U ''pad directive'' n (\<lambda>date l.
     (case find_tokens n ACCOUNT of
        acct # source # _ \<Rightarrow> emit U A n (\<lambda>s meta. DPad
          \<lparr>pad_span = s, pad_date = date, pad_account = tok_raw acct, pad_source = tok_raw source,
           pad_meta = meta\<rparr>) l
      | _ \<Rightarrow> Inr (add_diagnostic n ''pad directive requires two accounts'' l)))"

text \<open>A note and a document: an account, a string, tags and links, to which the active tags are added.\<close>

definition with_text_and_tags ::
  "string \<Rightarrow> node \<Rightarrow> (string \<Rightarrow> string list \<Rightarrow> string list \<Rightarrow> lowerer \<Rightarrow> lowerer result) \<Rightarrow> lowerer \<Rightarrow> lowerer result" where
  "with_text_and_tags missing n f l =
     (case find_tokens n STRING of
        [] \<Rightarrow> Inr (add_diagnostic n missing l)
      | s # _ \<Rightarrow> rbind (tags_and_links (tokens_in (nd_children n))) (\<lambda>(tags, links).
          f (unquote_string s) (merge_active_tags tags (lw_tags l)) links l))"

definition lower_note :: "unicode \<Rightarrow> apd \<Rightarrow> node \<Rightarrow> lowerer \<Rightarrow> lowerer result" where
  "lower_note U A n = with_date U ''note directive'' n (\<lambda>date.
     with_token ACCOUNT ''note directive missing account'' n (\<lambda>acct.
       with_text_and_tags ''note directive missing comment string'' n (\<lambda>comment tags links.
         emit U A n (\<lambda>s meta. DNote
           \<lparr>note_span = s, note_date = date, note_account = tok_raw acct, note_comment = comment,
            note_tags = tags, note_links = links, note_meta = meta\<rparr>))))"

definition lower_document :: "unicode \<Rightarrow> apd \<Rightarrow> node \<Rightarrow> lowerer \<Rightarrow> lowerer result" where
  "lower_document U A n = with_date U ''document directive'' n (\<lambda>date.
     with_token ACCOUNT ''document directive missing account'' n (\<lambda>acct.
       with_text_and_tags ''document directive missing path string'' n (\<lambda>path tags links.
         emit U A n (\<lambda>s meta. DDocument
           \<lparr>doc_span = s, doc_date = date, doc_account = tok_raw acct, doc_path = path,
            doc_tags = tags, doc_links = links, doc_meta = meta\<rparr>))))"

definition lower_event :: "unicode \<Rightarrow> apd \<Rightarrow> node \<Rightarrow> lowerer \<Rightarrow> lowerer result" where
  "lower_event U A n = with_date U ''event directive'' n (\<lambda>date l.
     (case find_tokens n STRING of
        name # val # _ \<Rightarrow> emit U A n (\<lambda>s meta. DEvent
          \<lparr>evt_span = s, evt_date = date, evt_name = unquote_string name, evt_value = unquote_string val,
           evt_meta = meta\<rparr>) l
      | _ \<Rightarrow> Inr (add_diagnostic n ''event directive requires two string arguments'' l)))"

definition lower_query :: "unicode \<Rightarrow> apd \<Rightarrow> node \<Rightarrow> lowerer \<Rightarrow> lowerer result" where
  "lower_query U A n = with_date U ''query directive'' n (\<lambda>date l.
     (case find_tokens n STRING of
        name # bql # _ \<Rightarrow> emit U A n (\<lambda>s meta. DQuery
          \<lparr>qry_span = s, qry_date = date, qry_name = unquote_string name, qry_bql = unquote_string bql,
           qry_meta = meta\<rparr>) l
      | _ \<Rightarrow> Inr (add_diagnostic n ''query directive requires two string arguments'' l)))"

definition lower_price :: "unicode \<Rightarrow> apd \<Rightarrow> node \<Rightarrow> lowerer \<Rightarrow> lowerer result" where
  "lower_price U A n = with_date U ''price directive'' n (\<lambda>date.
     with_token CURRENCY ''price directive missing commodity'' n (\<lambda>commodity l.
       (case find_node n AmountNode of
          None \<Rightarrow> Inr (add_diagnostic n ''price directive missing amount'' l)
        | Some m \<Rightarrow>
          (case lower_amount U A m l of
             (None, l1) \<Rightarrow> Inr l1
           | (Some amt, l1) \<Rightarrow> emit U A n (\<lambda>s meta. DPrice
               \<lparr>prc_span = s, prc_date = date, prc_commodity = tok_raw commodity, prc_amount = amt,
                prc_meta = meta\<rparr>) l1))))"

section \<open>Transactions and custom directives\<close>

text \<open>The last flag among the child tokens; \<open>txn\<close> is a star.\<close>

definition flag_of :: "token \<Rightarrow> char option" where
  "flag_of t =
     (if tok_kind t = STAR then Some (CHR ''*'')
      else if tok_kind t = BANG then Some (CHR ''!'')
      else if tok_kind t = IDENT \<and> tok_raw t = ''txn'' then Some (CHR ''*'') else None)"

definition last_flag :: "token list \<Rightarrow> char" where
  "last_flag ts = foldl (\<lambda>f t. case flag_of t of None \<Rightarrow> f | Some g \<Rightarrow> g) (CHR 0x00) ts"

definition payee_narration :: "token list \<Rightarrow> string \<times> string" where
  "payee_narration strs =
     (case strs of [] \<Rightarrow> ([], []) | [s] \<Rightarrow> ([], unquote_string s)
      | p # s # _ \<Rightarrow> (unquote_string p, unquote_string s))"

definition lower_transaction :: "unicode \<Rightarrow> apd \<Rightarrow> node \<Rightarrow> lowerer \<Rightarrow> lowerer result" where
  "lower_transaction U A n = with_date U ''transaction'' n (\<lambda>date l.
     let ts = tokens_in (nd_children n) in
     rbind (tags_and_links ts) (\<lambda>(tags, links).
       case payee_narration (filter (\<lambda>t. tok_kind t = STRING) ts) of (payee, narration) \<Rightarrow>
       case lower_postings U A (find_all_nodes n PostingNode) l of (ps, l1) \<Rightarrow>
       emit U A n (\<lambda>s meta. DTransaction
         \<lparr>txn_span = s, txn_date = date, txn_flag = last_flag ts, txn_payee = payee,
          txn_narration = narration, txn_tags = merge_active_tags tags (lw_tags l), txn_links = links,
          txn_postings = ps, txn_meta = meta\<rparr>) l1))"

text \<open>The children after the first string.\<close>

fun after_type_name :: "child list \<Rightarrow> (token \<times> child list) option" where
  "after_type_name [] = None"
| "after_type_name (c # cs) =
     (case c of CToken t \<Rightarrow> if tok_kind t = STRING then Some (t, cs) else after_type_name cs
      | CNode _ \<Rightarrow> after_type_name cs)"

fun lower_custom_values ::
  "unicode \<Rightarrow> apd \<Rightarrow> node \<Rightarrow> child list \<Rightarrow> lowerer \<Rightarrow> meta_value list \<times> lowerer" where
  "lower_custom_values U A n [] l = ([], l)"
| "lower_custom_values U A n (CToken t # cs) l =
     (case token_to_meta_value U A n t l of (v, l1) \<Rightarrow>
      case lower_custom_values U A n cs l1 of (vs, l2) \<Rightarrow> (v # vs, l2))"
| "lower_custom_values U A n (CNode m # cs) l =
     (if nd_kind m = AmountNode then
        (case lower_amount U A m l of
           (None, l1) \<Rightarrow> lower_custom_values U A n cs l1
         | (Some amt, l1) \<Rightarrow>
             (case lower_custom_values U A n cs l1 of
                (vs, l2) \<Rightarrow> ((mk_meta MetaAmount)\<lparr>mv_amount := amt\<rparr> # vs, l2)))
      else lower_custom_values U A n cs l)"

definition lower_custom :: "unicode \<Rightarrow> apd \<Rightarrow> node \<Rightarrow> lowerer \<Rightarrow> lowerer result" where
  "lower_custom U A n = with_date U ''custom directive'' n (\<lambda>date l.
     (case after_type_name (nd_children n) of
        None \<Rightarrow> Inr (add_diagnostic n ''custom directive missing type name'' l)
      | Some (t, cs) \<Rightarrow>
        (case lower_custom_values U A n cs l of (vs, l1) \<Rightarrow>
           emit U A n (\<lambda>s meta. DCustom
             \<lparr>cus_span = s, cus_date = date, cus_type = unquote_string t, cus_values = vs,
              cus_meta = meta\<rparr>) l1)))"

section \<open>The tag stack\<close>

definition handle_pushtag :: "node \<Rightarrow> lowerer \<Rightarrow> lowerer result" where
  "handle_pushtag n = with_token TAG ''pushtag missing tag'' n (\<lambda>t l.
     rbind (after_sigil t) (\<lambda>tag. Inr (l\<lparr>lw_tags := insert tag (lw_tags l)\<rparr>)))"

definition handle_poptag :: "unicode \<Rightarrow> node \<Rightarrow> lowerer \<Rightarrow> lowerer result" where
  "handle_poptag U n = with_token TAG ''poptag missing tag'' n (\<lambda>t l.
     rbind (after_sigil t) (\<lambda>tag.
       if tag \<notin> lw_tags l then
         Inr (add_diagnostic n (''poptag: tag '' @ quote_text U tag @ '' was not previously pushed'') l)
       else Inr (l\<lparr>lw_tags := lw_tags l - {tag}\<rparr>)))"

section \<open>Files\<close>

fun node_kind_name :: "node_kind \<Rightarrow> string" where
  "node_kind_name FileNode = ''FileNode''"
| "node_kind_name OptionDirective = ''OptionDirective''"
| "node_kind_name PluginDirective = ''PluginDirective''"
| "node_kind_name IncludeDirective = ''IncludeDirective''"
| "node_kind_name PushtagDirective = ''PushtagDirective''"
| "node_kind_name PoptagDirective = ''PoptagDirective''"
| "node_kind_name OpenDirective = ''OpenDirective''"
| "node_kind_name CloseDirective = ''CloseDirective''"
| "node_kind_name CommodityDirective = ''CommodityDirective''"
| "node_kind_name BalanceDirective = ''BalanceDirective''"
| "node_kind_name PadDirective = ''PadDirective''"
| "node_kind_name NoteDirective = ''NoteDirective''"
| "node_kind_name DocumentDirective = ''DocumentDirective''"
| "node_kind_name PriceDirective = ''PriceDirective''"
| "node_kind_name EventDirective = ''EventDirective''"
| "node_kind_name QueryDirective = ''QueryDirective''"
| "node_kind_name CustomDirective = ''CustomDirective''"
| "node_kind_name TransactionDirective = ''TransactionDirective''"
| "node_kind_name PostingNode = ''PostingNode''"
| "node_kind_name AmountNode = ''AmountNode''"
| "node_kind_name BalanceAmountNode = ''BalanceAmountNode''"
| "node_kind_name CostSpecNode = ''CostSpecNode''"
| "node_kind_name PriceAnnotNode = ''PriceAnnotNode''"
| "node_kind_name MetadataLineNode = ''MetadataLineNode''"
| "node_kind_name ArithExprNode = ''ArithExprNode''"
| "node_kind_name ErrorNode = ''ErrorNode''"
| "node_kind_name UnrecognizedLineNode = ''UnrecognizedLineNode''"

definition lower_unrecognized :: "node \<Rightarrow> lowerer \<Rightarrow> lowerer result" where
  "lower_unrecognized n l =
     Inr (if has_parser_error_in l n then l else add_diagnostic n ''syntax error'' l)"

definition lower_directive :: "unicode \<Rightarrow> apd \<Rightarrow> node \<Rightarrow> lowerer \<Rightarrow> lowerer result" where
  "lower_directive U A n =
     (case nd_kind n of
        ErrorNode \<Rightarrow> lower_unrecognized n
      | UnrecognizedLineNode \<Rightarrow> lower_unrecognized n
      | OptionDirective \<Rightarrow> lower_option n
      | PluginDirective \<Rightarrow> lower_plugin n
      | IncludeDirective \<Rightarrow> lower_include n
      | PushtagDirective \<Rightarrow> handle_pushtag n
      | PoptagDirective \<Rightarrow> handle_poptag U n
      | OpenDirective \<Rightarrow> lower_open U A n
      | CloseDirective \<Rightarrow> lower_close U A n
      | CommodityDirective \<Rightarrow> lower_commodity U A n
      | BalanceDirective \<Rightarrow> lower_balance U A n
      | PadDirective \<Rightarrow> lower_pad U A n
      | NoteDirective \<Rightarrow> lower_note U A n
      | DocumentDirective \<Rightarrow> lower_document U A n
      | PriceDirective \<Rightarrow> lower_price U A n
      | EventDirective \<Rightarrow> lower_event U A n
      | QueryDirective \<Rightarrow> lower_query U A n
      | CustomDirective \<Rightarrow> lower_custom U A n
      | TransactionDirective \<Rightarrow> lower_transaction U A n
      | k \<Rightarrow> (\<lambda>l. Inr (add_diagnostic n (''unknown directive kind: '' @ node_kind_name k) l)))"

fun lower_children :: "unicode \<Rightarrow> apd \<Rightarrow> child list \<Rightarrow> lowerer \<Rightarrow> lowerer result" where
  "lower_children U A [] l = Inr l"
| "lower_children U A (CNode n # cs) l = rbind (lower_directive U A n l) (lower_children U A cs)"
| "lower_children U A (CToken t # cs) l = lower_children U A cs l"

definition new_lowerer :: "string \<Rightarrow> syntax_file \<Rightarrow> lowerer" where
  "new_lowerer filename cst =
     (let src = file_full_text cst;
          l = \<lparr>lw_filename = filename,
               lw_file = \<lparr>af_filename = filename, af_directives = [], af_diagnostics = []\<rparr>,
               lw_tags = {}, lw_source = src, lw_line_starts = compute_line_starts src, lw_err_offsets = []\<rparr>;
          l1 = foldl (\<lambda>l e. add_diag (mk_diag [] (span_from_offset l (int (se_pos e))) (se_msg e)) l) l
                 (sf_errors cst)
      in l1\<lparr>lw_err_offsets := sort (map se_pos (sf_errors cst))\<rparr>)"

text \<open>\<open>Lower\<close>, for a file that is not nil.\<close>

definition lower_file :: "unicode \<Rightarrow> apd \<Rightarrow> string \<Rightarrow> syntax_file \<Rightarrow> ast_file result" where
  "lower_file U A filename cst =
     (let l = new_lowerer filename cst in
      case sf_root cst of
        None \<Rightarrow> Inr (lw_file l)
      | Some n \<Rightarrow> rbind (lower_children U A (nd_children n) l) (\<lambda>l. Inr (lw_file l)))"

end
