(* ===== verification/Lowering_Facts.thy ===== *)
theory Lowering_Facts
  imports Lowering Lexemes
begin

text \<open>
  What a handler does to the lowerer: it adds diagnostics, and either one directive made from its node
  or none, and then it has said why.
\<close>

section \<open>Diagnostics\<close>

definition add_diags :: "diagnostic list \<Rightarrow> lowerer \<Rightarrow> lowerer" where
  "add_diags es l = l\<lparr>lw_file := (lw_file l)\<lparr>af_diagnostics := af_diagnostics (lw_file l) @ es\<rparr>\<rparr>"

lemma add_diags_Nil [simp]: "add_diags [] l = l"
  by (simp add: add_diags_def)

lemma add_diags_add_diags [simp]: "add_diags fs (add_diags es l) = add_diags (es @ fs) l"
  by (simp add: add_diags_def)

lemma add_diag_diags: "add_diag d l = add_diags [d] l"
  by (simp add: add_diag_def add_diags_def)

lemma add_diags_sels [simp]:
  "lw_filename (add_diags es l) = lw_filename l" "lw_tags (add_diags es l) = lw_tags l"
  "lw_source (add_diags es l) = lw_source l" "lw_line_starts (add_diags es l) = lw_line_starts l"
  "lw_err_offsets (add_diags es l) = lw_err_offsets l"
  "af_directives (lw_file (add_diags es l)) = af_directives (lw_file l)"
  "af_diagnostics (lw_file (add_diags es l)) = af_diagnostics (lw_file l) @ es"
  "af_filename (lw_file (add_diags es l)) = af_filename (lw_file l)"
  by (simp_all add: add_diags_def)

lemma add_directive_sels [simp]:
  "lw_filename (add_directive d l) = lw_filename l" "lw_tags (add_directive d l) = lw_tags l"
  "lw_source (add_directive d l) = lw_source l" "lw_line_starts (add_directive d l) = lw_line_starts l"
  "lw_err_offsets (add_directive d l) = lw_err_offsets l"
  "af_directives (lw_file (add_directive d l)) = af_directives (lw_file l) @ [d]"
  "af_diagnostics (lw_file (add_directive d l)) = af_diagnostics (lw_file l)"
  "af_filename (lw_file (add_directive d l)) = af_filename (lw_file l)"
  by (simp_all add: add_directive_def)

lemma pos_at_add_diags [simp]: "pos_at (add_diags es l) i = pos_at l i"
  by (simp only: pos_at_def add_diags_sels)

lemma span_from_node_add_diags [simp]: "span_from_node (add_diags es l) n = span_from_node l n"
  by (simp only: span_from_node_def pos_at_add_diags)

lemma has_parser_error_add_diags [simp]: "has_parser_error_in (add_diags es l) n = has_parser_error_in l n"
  by (simp only: has_parser_error_in_def add_diags_sels)

text \<open>A step that only adds diagnostics; one that adds at least one.\<close>

definition quiet :: "lowerer \<Rightarrow> lowerer \<Rightarrow> bool" where
  "quiet l l' \<longleftrightarrow> (\<exists>es. l' = add_diags es l)"

definition said :: "lowerer \<Rightarrow> lowerer \<Rightarrow> bool" where
  "said l l' \<longleftrightarrow> (\<exists>es. es \<noteq> [] \<and> l' = add_diags es l)"

named_theorems quiet_intros \<open>steps that only add diagnostics\<close>

lemma quiet_refl [simp, quiet_intros]: "quiet l l"
  unfolding quiet_def by (metis add_diags_Nil)

lemma quiet_trans [trans]: "quiet l l1 \<Longrightarrow> quiet l1 l2 \<Longrightarrow> quiet l l2"
  unfolding quiet_def by (metis add_diags_add_diags)

lemma said_quiet: "said l l' \<Longrightarrow> quiet l l'"
  by (auto simp: said_def quiet_def)

lemma quiet_said [trans]: "quiet l l1 \<Longrightarrow> said l1 l2 \<Longrightarrow> said l l2"
  unfolding quiet_def said_def by (metis add_diags_add_diags append_is_Nil_conv)

lemma said_quiet_trans [trans]: "said l l1 \<Longrightarrow> quiet l1 l2 \<Longrightarrow> said l l2"
  unfolding quiet_def said_def by (metis add_diags_add_diags append_is_Nil_conv)

lemma said_add_diag [simp, quiet_intros]: "said l (add_diag d l)"
  unfolding said_def add_diag_diags by blast

lemma said_add_diagnostic [simp, quiet_intros]: "said l (add_diagnostic n msg l)"
  by (simp add: add_diagnostic_def)

lemma said_add_token_diagnostic [simp, quiet_intros]: "said l (add_token_diagnostic t msg l)"
  by (simp add: add_token_diagnostic_def)

lemma quiet_add [simp, quiet_intros]: "quiet l (add_diagnostic n msg l)" "quiet l (add_diag d l)"
  "quiet l (add_token_diagnostic t msg l)"
  by (simp_all add: said_quiet)

lemma quiet_span: "quiet l l' \<Longrightarrow> span_from_node l' n = span_from_node l n"
  by (auto simp: quiet_def)

lemma quiet_sels:
  assumes "quiet l l'"
  shows "lw_tags l' = lw_tags l" "lw_filename l' = lw_filename l" "lw_source l' = lw_source l"
    "lw_line_starts l' = lw_line_starts l" "lw_err_offsets l' = lw_err_offsets l"
  using assms by (auto simp: quiet_def)

text \<open>A step that returns a value or says why it does not.\<close>

definition yields_or_says :: "('a \<Rightarrow> bool) \<Rightarrow> lowerer \<Rightarrow> 'a option \<times> lowerer \<Rightarrow> bool" where
  "yields_or_says P l r \<longleftrightarrow> (case fst r of None \<Rightarrow> said l (snd r) | Some x \<Rightarrow> P x \<and> quiet l (snd r))"

lemma yields_or_says_None [simp]: "yields_or_says P l (None, l') \<longleftrightarrow> said l l'"
  by (simp add: yields_or_says_def)

lemma yields_or_says_Some [simp]: "yields_or_says P l (Some x, l') \<longleftrightarrow> P x \<and> quiet l l'"
  by (simp add: yields_or_says_def)

text \<open>The next step after one that returned a value.\<close>

lemma yields_or_says_bind:
  assumes "yields_or_says P l r" and "\<And>x l1. P x \<Longrightarrow> quiet l l1 \<Longrightarrow> yields_or_says Q l1 (f x l1)"
  shows "yields_or_says Q l (case r of (None, l1) \<Rightarrow> (None, l1) | (Some x, l1) \<Rightarrow> f x l1)"
proof (cases r)
  case (Pair v l1)
  show ?thesis
  proof (cases v)
    case None
    then show ?thesis using assms(1) Pair by simp
  next
    case (Some x)
    then have x: "P x" "quiet l l1" using assms(1) Pair by simp_all
    obtain w l2 where "f x l1 = (w, l2)" by fastforce
    with assms(2) [OF x] x show ?thesis
      by (cases w) (auto simp: Pair Some intro: quiet_trans quiet_said)
  qed
qed

lemma yields_or_says_if:
  "(b \<Longrightarrow> yields_or_says P l x) \<Longrightarrow> (\<not> b \<Longrightarrow> yields_or_says P l y) \<Longrightarrow> yields_or_says P l (if b then x else y)"
  by simp

text \<open>An optional part of a node.\<close>

lemma yields_or_says_optional:
  assumes "Q x" and "\<And>m. z = Some m \<Longrightarrow> yields_or_says P l (f m)" and "\<And>y. P y \<Longrightarrow> Q (upd y)"
  shows "yields_or_says Q l (case z of None \<Rightarrow> (Some x, l)
    | Some m \<Rightarrow> (case f m of (None, l1) \<Rightarrow> (None, l1) | (Some y, l1) \<Rightarrow> (Some (upd y), l1)))"
proof (cases z)
  case (Some m)
  show ?thesis
    unfolding Some option.case using assms(3) by (intro yields_or_says_bind [OF assms(2) [OF Some]]) simp
qed (simp add: assms(1))

section \<open>Tokens of a node\<close>

definition lexed_node :: "unicode \<Rightarrow> node \<Rightarrow> bool" where
  "lexed_node U n \<longleftrightarrow> (\<forall>t \<in> set (node_tokens n). lexed U t)"

lemma tokens_in_child: "t \<in> set (tokens_in cs) \<longleftrightarrow> CToken t \<in> set cs"
  by (induction cs rule: tokens_in.induct) auto

lemma nodes_in_child: "m \<in> set (nodes_in cs) \<longleftrightarrow> CNode m \<in> set cs"
  by (induction cs rule: nodes_in.induct) auto

lemma node_tokens_children: "set (node_tokens n) = (\<Union>c \<in> set (nd_children n). set (child_tokens c))"
  by (cases n) auto

lemma tokens_in_node: "t \<in> set (tokens_in (nd_children n)) \<Longrightarrow> t \<in> set (node_tokens n)"
  unfolding node_tokens_children tokens_in_child by force

lemma nodes_in_node: "m \<in> set (nodes_in (nd_children n)) \<Longrightarrow> set (node_tokens m) \<subseteq> set (node_tokens n)"
proof -
  assume "m \<in> set (nodes_in (nd_children n))"
  then have "CNode m \<in> set (nd_children n)" by (simp add: nodes_in_child)
  then have "set (child_tokens (CNode m)) \<subseteq> (\<Union>c \<in> set (nd_children n). set (child_tokens c))" by (rule UN_upper)
  then show ?thesis by (simp only: node_tokens_children [of n] child_tokens.simps)
qed

lemma lexed_node_sub: "lexed_node U n \<Longrightarrow> m \<in> set (nodes_in (nd_children n)) \<Longrightarrow> lexed_node U m"
  using nodes_in_node by (fastforce simp: lexed_node_def)

lemma find_tokens_eq: "find_tokens n k = filter (\<lambda>t. tok_kind t = k) (tokens_in (nd_children n))"
proof -
  have "concat (map (\<lambda>c. case c of CToken t \<Rightarrow> if tok_kind t = k then [t] else [] | CNode _ \<Rightarrow> []) cs) =
      filter (\<lambda>t. tok_kind t = k) (tokens_in cs)" for cs
    by (induction cs rule: tokens_in.induct) auto
  then show ?thesis by (simp add: find_tokens_def)
qed

lemma find_all_nodes_eq: "find_all_nodes n k = filter (\<lambda>m. nd_kind m = k) (nodes_in (nd_children n))"
proof -
  have "concat (map (\<lambda>c. case c of CNode m \<Rightarrow> if nd_kind m = k then [m] else [] | CToken _ \<Rightarrow> []) cs) =
      filter (\<lambda>m. nd_kind m = k) (nodes_in cs)" for cs
    by (induction cs rule: nodes_in.induct) auto
  then show ?thesis by (simp add: find_all_nodes_def)
qed

lemma in_find_tokens: "t \<in> set (find_tokens n k) \<Longrightarrow> tok_kind t = k \<and> t \<in> set (tokens_in (nd_children n))"
  by (simp add: find_tokens_eq)

lemma find_token_in: "find_token n k = Some t \<Longrightarrow> t \<in> set (find_tokens n k)"
  by (auto simp: find_token_def split: list.splits)

lemma in_find_all_nodes: "m \<in> set (find_all_nodes n k) \<Longrightarrow> nd_kind m = k \<and> m \<in> set (nodes_in (nd_children n))"
  by (simp add: find_all_nodes_eq)

lemma find_node_in: "find_node n k = Some m \<Longrightarrow> m \<in> set (find_all_nodes n k)"
  by (auto simp: find_node_def split: list.splits)

lemma lexed_kind:
  assumes "lexed_node U n" and "t \<in> set (find_tokens n k)" and "k \<noteq> ILLEGAL"
  shows "lexeme U k (tok_raw t)"
proof -
  have "tok_kind t = k" "t \<in> set (node_tokens n)" using in_find_tokens [OF assms(2)] tokens_in_node by blast+
  then show ?thesis using assms(1,3) by (auto simp: lexed_node_def lexed_def)
qed

lemma lexed_find_token: "lexed_node U n \<Longrightarrow> find_token n k = Some t \<Longrightarrow> k \<noteq> ILLEGAL \<Longrightarrow> lexeme U k (tok_raw t)"
  using lexed_kind find_token_in by blast

lemma lexed_find_node: "lexed_node U n \<Longrightarrow> find_node n k = Some m \<Longrightarrow> lexed_node U m"
  using lexed_node_sub in_find_all_nodes find_node_in by blast

section \<open>Names\<close>

definition currency_ok :: "unicode \<Rightarrow> currency \<Rightarrow> bool" where
  "currency_ok U c \<longleftrightarrow> lexeme U CURRENCY c"

definition account_ok :: "unicode \<Rightarrow> account \<Rightarrow> bool" where
  "account_ok U a \<longleftrightarrow> lexeme U ACCOUNT a"

definition spec_names_ok :: "unicode \<Rightarrow> cost_spec \<Rightarrow> bool" where
  "spec_names_ok U cs \<longleftrightarrow> cs_currency cs = [] \<or> currency_ok U (cs_currency cs)"

definition posting_names_ok :: "unicode \<Rightarrow> posting \<Rightarrow> bool" where
  "posting_names_ok U p \<longleftrightarrow> account_ok U (p_account p) \<and>
     (case p_amount p of None \<Rightarrow> True | Some a \<Rightarrow> currency_ok U (amt_currency a)) \<and>
     (case p_cost p of Some (HSpec cs) \<Rightarrow> spec_names_ok U cs | Some (HCost c) \<Rightarrow> False | None \<Rightarrow> True) \<and>
     (case p_price p of None \<Rightarrow> True | Some pa \<Rightarrow> currency_ok U (amt_currency (pa_amount pa)))"

definition tags_ok :: "string list \<Rightarrow> bool" where
  "tags_ok ts \<longleftrightarrow> (\<forall>t \<in> set ts. is_tag_link_name t)"

fun names_ok :: "unicode \<Rightarrow> directive \<Rightarrow> bool" where
  "names_ok U (DOpen d) \<longleftrightarrow> account_ok U (open_account d) \<and> (\<forall>c \<in> set (open_currencies d). currency_ok U c)"
| "names_ok U (DClose d) \<longleftrightarrow> account_ok U (close_account d)"
| "names_ok U (DCommodity d) \<longleftrightarrow> currency_ok U (com_currency d)"
| "names_ok U (DBalance d) \<longleftrightarrow> account_ok U (bal_account d) \<and> currency_ok U (amt_currency (bal_amount d))"
| "names_ok U (DPad d) \<longleftrightarrow> account_ok U (pad_account d) \<and> account_ok U (pad_source d)"
| "names_ok U (DNote d) \<longleftrightarrow> account_ok U (note_account d) \<and> tags_ok (note_tags d) \<and> tags_ok (note_links d)"
| "names_ok U (DDocument d) \<longleftrightarrow> account_ok U (doc_account d) \<and> tags_ok (doc_tags d) \<and> tags_ok (doc_links d)"
| "names_ok U (DPrice d) \<longleftrightarrow> currency_ok U (prc_commodity d) \<and> currency_ok U (amt_currency (prc_amount d))"
| "names_ok U (DTransaction d) \<longleftrightarrow> (\<forall>p \<in> set (txn_postings d). posting_names_ok U p) \<and>
     tags_ok (txn_tags d) \<and> tags_ok (txn_links d)"
| "names_ok U (DOption d) \<longleftrightarrow> True"
| "names_ok U (DPlugin d) \<longleftrightarrow> True"
| "names_ok U (DInclude d) \<longleftrightarrow> True"
| "names_ok U (DEvent d) \<longleftrightarrow> True"
| "names_ok U (DQuery d) \<longleftrightarrow> True"
| "names_ok U (DCustom d) \<longleftrightarrow> True"

section \<open>Values\<close>

lemma token_to_meta_value_quiet: "quiet l (snd (token_to_meta_value U A n t l))"
  by (auto simp: token_to_meta_value_def split: token_kind.splits sum.splits)

lemma lower_metadata_line_quiet: "quiet l (snd (lower_metadata_line U A n l))"
  using token_to_meta_value_quiet [of l U A n] 
  by (auto simp: lower_metadata_line_def split: option.splits prod.splits) (metis snd_conv)

lemma lower_metadata_lines_quiet: "quiet l (snd (lower_metadata_lines U A ns meta l))"
proof (induction ns arbitrary: meta l)
  case (Cons n ns)
  obtain v l1 where v: "lower_metadata_line U A n l = (v, l1)" by fastforce
  then have l1: "quiet l l1" using lower_metadata_line_quiet [of l U A n] by simp
  note step = Cons.IH
  show ?case
    using quiet_trans [OF l1 step] quiet_trans [OF l1 quiet_trans [OF quiet_add(1) step]]
    by (simp add: v split: option.split)
qed simp

lemma lower_metadata_quiet: "quiet l (snd (lower_metadata U A n l))"
  by (simp add: lower_metadata_def lower_metadata_lines_quiet)

lemma eval_expr_yields: "yields_or_says (\<lambda>_. True) l (eval_expr U A n l)"
  by (auto simp: eval_expr_def split: sum.splits)

lemma lower_optional_currency_yields:
  assumes "lexed_node U n"
  shows "yields_or_says (\<lambda>a. amt_currency a = [] \<or> currency_ok U (amt_currency a)) l
    (lower_amount_optional_currency U A n l)"
proof (cases "find_node n ArithExprNode")
  case (Some e)
  have "(case find_token n CURRENCY of None \<Rightarrow> [] | Some t \<Rightarrow> tok_raw t) = [] \<or>
      currency_ok U (case find_token n CURRENCY of None \<Rightarrow> [] | Some t \<Rightarrow> tok_raw t)"
    using lexed_find_token [OF assms, of CURRENCY] by (auto simp: currency_ok_def split: option.splits)
  then show ?thesis
    unfolding lower_amount_optional_currency_def Some option.case
    by (intro yields_or_says_bind [OF eval_expr_yields]) simp
qed (simp add: lower_amount_optional_currency_def)

lemma lower_amount_yields:
  assumes "lexed_node U n"
  shows "yields_or_says (\<lambda>a. currency_ok U (amt_currency a)) l (lower_amount U A n l)"
  unfolding lower_amount_def
  by (rule yields_or_says_bind [OF lower_optional_currency_yields [OF assms]]) auto

lemma lower_cost_amounts_yields:
  assumes "lexed_node U n" and "cs_currency cs = []"
  shows "yields_or_says (spec_names_ok U) l (lower_cost_amounts U A n cs l)"
proof -
  have amounts: "lexed_node U m" if "m \<in> set (find_all_nodes n AmountNode)" for m
    using that in_find_all_nodes lexed_node_sub [OF assms(1)] by blast
  have combined: "yields_or_says (spec_names_ok U) l (lower_cost_combined U A n cs l)"
  proof (cases "length (find_all_nodes n AmountNode) < 2")
    case False
    then have "0 < length (find_all_nodes n AmountNode)" "1 < length (find_all_nodes n AmountNode)" by linarith+
    then have m: "lexed_node U (find_all_nodes n AmountNode ! 0)" "lexed_node U (find_all_nodes n AmountNode ! 1)"
      using amounts [OF nth_mem] by blast+
    show ?thesis
      unfolding lower_cost_combined_def Let_def if_not_P [OF False]
    proof (rule yields_or_says_bind [OF lower_amount_yields [OF m(2)]])
      fix tot l1
      assume tot: "currency_ok U (amt_currency tot)"
      show "yields_or_says (spec_names_ok U) l1
        (if amt_currency tot = [] then (None, add_diagnostic (find_all_nodes n AmountNode ! 1)
            ''total amount in combined cost form requires a currency'' l1)
         else case lower_amount_optional_currency U A (find_all_nodes n AmountNode ! 0) l1 of
             (None, l2) \<Rightarrow> (None, l2)
           | (Some per, l2) \<Rightarrow> (Some (cs\<lparr>cs_per_unit := Some (amt_number per), cs_total := Some (amt_number tot),
               cs_currency := amt_currency tot\<rparr>), l2))"
        using tot by (intro yields_or_says_if yields_or_says_bind [OF lower_optional_currency_yields [OF m(1)]])
          (simp_all add: spec_names_ok_def)
    qed
  qed (simp add: lower_cost_combined_def)
  have single: "yields_or_says (spec_names_ok U) l
      (case lower_amount U A a l of (None, l1) \<Rightarrow> (None, l1)
       | (Some amt, l1) \<Rightarrow> (Some (f amt), l1))"
    if "find_node n AmountNode = Some a" "\<And>amt. cs_currency (f amt) = amt_currency amt" for a f
    using that lexed_find_node [OF assms(1)]
    by (intro yields_or_says_bind [OF lower_amount_yields]) (auto simp: spec_names_ok_def)
  show ?thesis
  proof (cases "find_token n HASH")
    case None
    then show ?thesis
      using single assms lexed_kind [OF assms(1), of _ CURRENCY]
      by (auto simp: lower_cost_amounts_def spec_names_ok_def currency_ok_def split: option.splits list.splits)
  next
    case (Some t)
    then show ?thesis using combined by (simp add: lower_cost_amounts_def)
  qed
qed

lemma lower_cost_spec_yields:
  assumes "lexed_node U n"
  shows "yields_or_says (spec_names_ok U) l (lower_cost_spec U A n l)"
proof -
  have label: "spec_names_ok U (case find_token n STRING of None \<Rightarrow> cs | Some t \<Rightarrow> cs\<lparr>cs_label := unquote_string t\<rparr>)"
    if "spec_names_ok U cs" for cs
    using that by (auto simp: spec_names_ok_def split: option.split)
  show ?thesis
    unfolding lower_cost_spec_def Let_def
  proof (rule yields_or_says_bind [OF lower_cost_amounts_yields [OF assms]], simp)
    fix cs l1
    assume cs: "spec_names_ok U cs"
    then have "spec_names_ok U (cs\<lparr>cs_date := Some d\<rparr>)" for d by (simp add: spec_names_ok_def)
    with cs label show "yields_or_says (spec_names_ok U) l1
      (case find_token n DATE of
         None \<Rightarrow> (Some (case find_token n STRING of None \<Rightarrow> cs | Some t \<Rightarrow> cs\<lparr>cs_label := unquote_string t\<rparr>), l1)
       | Some t \<Rightarrow>
         (case parse_date U t of
            Inl e \<Rightarrow> (None, add_diagnostic n (''invalid cost date '' @ quote_text U (tok_raw t) @ '': '' @ e) l1)
          | Inr d \<Rightarrow> (Some (case find_token n STRING of None \<Rightarrow> cs\<lparr>cs_date := Some d\<rparr>
              | Some t \<Rightarrow> cs\<lparr>cs_date := Some d\<rparr>\<lparr>cs_label := unquote_string t\<rparr>), l1)))"
      by (auto split: option.split sum.split)
  qed
qed

lemma lower_price_annotation_yields:
  assumes "lexed_node U n"
  shows "yields_or_says (\<lambda>pa. currency_ok U (amt_currency (pa_amount pa))) l (lower_price_annotation U A n l)"
proof (cases "find_node n AmountNode")
  case (Some m)
  show ?thesis
    unfolding lower_price_annotation_def Some option.case
    by (rule yields_or_says_bind [OF lower_amount_yields [OF lexed_find_node [OF assms Some]]]) simp
qed (simp add: lower_price_annotation_def)

lemma lower_posting_yields:
  assumes n: "lexed_node U n"
  shows "yields_or_says (posting_names_ok U) l (lower_posting U A n l)"
proof (cases "find_token n ACCOUNT")
  case (Some acct)
  have a: "account_ok U (tok_raw acct)" using lexed_find_token [OF n Some] by (simp add: account_ok_def)
  show ?thesis
    unfolding lower_posting_def Let_def Some option.case
  proof (rule yields_or_says_bind, rule yields_or_says_optional
      [where Q = "\<lambda>p. posting_names_ok U p \<and> p_cost p = None \<and> p_price p = None"])
    fix p2 l1
    assume p2: "posting_names_ok U p2 \<and> p_cost p2 = None \<and> p_price p2 = None"
    show "yields_or_says (posting_names_ok U) l1
      (case (case find_node n CostSpecNode of
               None \<Rightarrow> (Some p2, l1)
             | Some m \<Rightarrow> (case lower_cost_spec U A m l1 of
                 (None, l2) \<Rightarrow> (None, l2) | (Some cs, l2) \<Rightarrow> (Some (p2\<lparr>p_cost := Some (HSpec cs)\<rparr>), l2))) of
         (None, l2) \<Rightarrow> (None, l2)
       | (Some p3, l2) \<Rightarrow>
       case (case find_node n PriceAnnotNode of
               None \<Rightarrow> (Some p3, l2)
             | Some m \<Rightarrow> (case lower_price_annotation U A m l2 of
                 (None, l3) \<Rightarrow> (None, l3) | (Some pa, l3) \<Rightarrow> (Some (p3\<lparr>p_price := Some pa\<rparr>), l3))) of
         (None, l3) \<Rightarrow> (None, l3)
       | (Some p4, l3) \<Rightarrow>
         (case lower_metadata U A n l3 of (meta, l4) \<Rightarrow> (Some (p4\<lparr>p_meta := meta\<rparr>), l4)))"
    proof (rule yields_or_says_bind, rule yields_or_says_optional
        [where Q = "\<lambda>p. posting_names_ok U p \<and> p_price p = None"])
      fix p3 l2
      assume p3: "posting_names_ok U p3 \<and> p_price p3 = None"
      show "yields_or_says (posting_names_ok U) l2
        (case (case find_node n PriceAnnotNode of
                 None \<Rightarrow> (Some p3, l2)
               | Some m \<Rightarrow> (case lower_price_annotation U A m l2 of
                   (None, l3) \<Rightarrow> (None, l3) | (Some pa, l3) \<Rightarrow> (Some (p3\<lparr>p_price := Some pa\<rparr>), l3))) of
           (None, l3) \<Rightarrow> (None, l3)
         | (Some p4, l3) \<Rightarrow>
           (case lower_metadata U A n l3 of (meta, l4) \<Rightarrow> (Some (p4\<lparr>p_meta := meta\<rparr>), l4)))"
      proof (rule yields_or_says_bind, rule yields_or_says_optional [where Q = "posting_names_ok U"])
        fix p4 l3
        assume "posting_names_ok U p4"
        then show "yields_or_says (posting_names_ok U) l3
          (case lower_metadata U A n l3 of (meta, l4) \<Rightarrow> (Some (p4\<lparr>p_meta := meta\<rparr>), l4))"
          using lower_metadata_quiet [of l3 U A n] by (simp add: posting_names_ok_def case_prod_beta)
      qed (use p3 lexed_find_node [OF n] lower_price_annotation_yields in \<open>auto simp: posting_names_ok_def\<close>)
    qed (use p2 lexed_find_node [OF n] lower_cost_spec_yields in \<open>auto simp: posting_names_ok_def\<close>)
  qed (use a lexed_find_node [OF n] lower_amount_yields in \<open>auto simp: posting_names_ok_def\<close>)
qed (simp add: lower_posting_def Let_def)

lemma lower_postings_quiet:
  assumes "\<forall>n \<in> set ns. lexed_node U n"
  shows "quiet l (snd (lower_postings U A ns l)) \<and> (\<forall>p \<in> set (fst (lower_postings U A ns l)). posting_names_ok U p)"
  using assms
proof (induction ns arbitrary: l)
  case (Cons n ns)
  obtain v l1 where v: "lower_posting U A n l = (v, l1)" by fastforce
  have y: "yields_or_says (posting_names_ok U) l (v, l1)"
    using lower_posting_yields [of U n l A] Cons.prems v by simp
  then have "quiet l l1" by (cases v) (simp_all add: said_quiet)
  moreover have "quiet l1 (snd (lower_postings U A ns l1))"
    and "\<forall>p \<in> set (fst (lower_postings U A ns l1)). posting_names_ok U p"
    using Cons.IH [of l1] Cons.prems by auto
  ultimately show ?case
    using y by (cases v) (auto simp: v case_prod_beta intro: quiet_trans)
qed simp

lemma lower_custom_values_quiet: "quiet l (snd (lower_custom_values U A n cs l))"
proof (induction cs arbitrary: l)
  case (Cons c cs)
  show ?case
  proof (cases c)
    case (CToken t)
    then show ?thesis
      using quiet_trans [OF token_to_meta_value_quiet Cons.IH] by (simp add: case_prod_beta)
  next
    case (CNode m)
    have "quiet l (snd (lower_amount U A m l))"
      by (auto simp: lower_amount_def lower_amount_optional_currency_def eval_expr_def intro: quiet_trans
          split: option.splits sum.splits prod.splits)
    then show ?thesis
      using Cons.IH by (cases "lower_amount U A m l") (auto simp: CNode case_prod_beta intro: quiet_trans split: option.splits)
  qed
qed simp

end
