(* ===== verification/Lowering_Steps.thy ===== *)
theory Lowering_Steps
  imports Lowering_Facts "HOL-Library.Sublist"
begin

text \<open>
  The outcome of every handler, the state of the tags between them, and with these what \<open>Lower\<close> makes
  of the top-level nodes, one after the other.
\<close>

section \<open>Outcomes\<close>

fun made_kind :: "directive \<Rightarrow> node_kind" where
  "made_kind (DOption _) = OptionDirective"
| "made_kind (DPlugin _) = PluginDirective"
| "made_kind (DInclude _) = IncludeDirective"
| "made_kind (DOpen _) = OpenDirective"
| "made_kind (DClose _) = CloseDirective"
| "made_kind (DCommodity _) = CommodityDirective"
| "made_kind (DBalance _) = BalanceDirective"
| "made_kind (DPad _) = PadDirective"
| "made_kind (DNote _) = NoteDirective"
| "made_kind (DDocument _) = DocumentDirective"
| "made_kind (DEvent _) = EventDirective"
| "made_kind (DQuery _) = QueryDirective"
| "made_kind (DPrice _) = PriceDirective"
| "made_kind (DTransaction _) = TransactionDirective"
| "made_kind (DCustom _) = CustomDirective"

definition made_from :: "unicode \<Rightarrow> lowerer \<Rightarrow> node \<Rightarrow> directive \<Rightarrow> bool" where
  "made_from U l n d \<longleftrightarrow> node_tokens n \<noteq> [] \<and> dir_span d = span_from_node l n \<and> made_kind d = nd_kind n \<and>
     names_ok U d"

text \<open>A handler says why there is no directive, or adds one after its diagnostics.\<close>

definition outcome :: "unicode \<Rightarrow> lowerer \<Rightarrow> node \<Rightarrow> lowerer result \<Rightarrow> bool" where
  "outcome U l n r \<longleftrightarrow>
     (\<exists>l'. r = Inr l' \<and> (said l l' \<or> (\<exists>d l1. quiet l l1 \<and> l' = add_directive d l1 \<and> made_from U l n d)))"

lemma outcome_said: "said l l' \<Longrightarrow> outcome U l n (Inr l')"
  by (auto simp: outcome_def)

lemma outcome_quiet: "quiet l l1 \<Longrightarrow> outcome U l1 n r \<Longrightarrow> outcome U l n r"
  unfolding outcome_def made_from_def
  by (metis quiet_said quiet_trans quiet_span)

lemma outcome_directive: "made_from U l n d \<Longrightarrow> quiet l l1 \<Longrightarrow> outcome U l n (Inr (add_directive d l1))"
  by (auto simp: outcome_def)

lemma node_has_token: "t \<in> set (find_tokens n k) \<Longrightarrow> node_tokens n \<noteq> []"
  using in_find_tokens [of t n k] tokens_in_node [of t n] by fastforce

lemma outcome_with_date:
  assumes "\<And>d. node_tokens n \<noteq> [] \<Longrightarrow> outcome U l n (k d l)"
  shows "outcome U l n (with_date U what n k l)"
proof (cases "find_token n DATE")
  case (Some t)
  then have "node_tokens n \<noteq> []" using find_token_in node_has_token by blast
  with Some assms show ?thesis by (auto simp: with_date_def intro: outcome_said split: sum.split)
qed (simp add: with_date_def outcome_said)

lemma outcome_with_token:
  assumes "\<And>t. t \<in> set (find_tokens n k) \<Longrightarrow> outcome U l n (f t l)"
  shows "outcome U l n (with_token k missing n f l)"
  using assms find_token_in by (auto simp: with_token_def intro: outcome_said split: option.split)

lemma outcome_tokens:
  assumes "\<And>t ts. find_tokens n k = t # ts \<Longrightarrow> node_tokens n \<noteq> [] \<Longrightarrow> outcome U l n (f t ts)"
  shows "outcome U l n (case find_tokens n k of [] \<Rightarrow> Inr (add_diagnostic n m l) | t # ts \<Rightarrow> f t ts)"
proof (cases "find_tokens n k")
  case (Cons t ts)
  then have "node_tokens n \<noteq> []" using node_has_token [of t n k] by simp
  with Cons assms show ?thesis by simp
qed (simp add: outcome_said)

lemma outcome_two_tokens:
  assumes "\<And>a b ts. find_tokens n k = a # b # ts \<Longrightarrow> node_tokens n \<noteq> [] \<Longrightarrow> outcome U l n (f a b ts)"
  shows "outcome U l n (case find_tokens n k of a # b # ts \<Rightarrow> f a b ts | _ \<Rightarrow> Inr (add_diagnostic n m l))"
  using assms by (intro outcome_tokens) (simp add: outcome_said split: list.split)

text \<open>A step that only adds diagnostics, in front of the rest of a handler.\<close>

lemma outcome_pair:
  assumes "quiet l (snd r)" and "outcome U (snd r) n (f (fst r) (snd r))"
  shows "outcome U l n (case r of (x, l1) \<Rightarrow> f x l1)"
  using outcome_quiet [OF assms] by (simp add: case_prod_beta)

lemma outcome_emit:
  assumes "\<And>s meta. dir_span (f s meta) = s \<and> made_kind (f s meta) = nd_kind n \<and> names_ok U (f s meta)"
    and "node_tokens n \<noteq> []"
  shows "outcome U l n (emit U A n f l)"
  unfolding emit_def case_prod_beta
  by (rule outcome_directive [OF _ lower_metadata_quiet]) (simp add: made_from_def assms)

section \<open>Tags\<close>

definition active_ok :: "lowerer \<Rightarrow> bool" where
  "active_ok l \<longleftrightarrow> finite (lw_tags l) \<and> (\<forall>t \<in> lw_tags l. is_tag_link_name t)"

lemma quiet_active: "quiet l l' \<Longrightarrow> active_ok l' \<longleftrightarrow> active_ok l"
  by (simp add: active_ok_def quiet_sels)

lemma tag_name:
  assumes "lexeme U k w" and "k = TAG \<or> k = LINK"
  shows "\<exists>c cs. w = c # cs \<and> is_tag_link_name cs"
proof -
  have "\<exists>c cs. w = c # cs \<and> is_tag_link_name cs" if "word_of x is_tag_link_char w" for x
    using that by (auto simp: word_of_def all_chars_def is_tag_link_name_def)
  then show ?thesis using assms by auto
qed

lemma after_sigil_lexed:
  assumes "lexed U t" and "tok_kind t = TAG \<or> tok_kind t = LINK"
  shows "\<exists>s. after_sigil t = Inr s \<and> is_tag_link_name s"
proof -
  have "lexeme U (tok_kind t) (tok_raw t)" using assms by (auto simp: lexed_def)
  from tag_name [OF this assms(2)] show ?thesis by (auto simp: after_sigil_def)
qed

lemma tags_and_links_lexed:
  "\<forall>t \<in> set ts. lexed U t \<Longrightarrow> \<exists>tags links. tags_and_links ts = Inr (tags, links) \<and> tags_ok tags \<and> tags_ok links"
proof (induction ts)
  case Nil
  then show ?case by (simp add: tags_ok_def)
next
  case (Cons t ts)
  then obtain tags links where ih: "tags_and_links ts = Inr (tags, links)" "tags_ok tags" "tags_ok links" by auto
  have "lexed U t" using Cons.prems by simp
  then show ?case using after_sigil_lexed [of U t] ih by (auto simp: tags_ok_def)
qed

lemma merge_active_ok: "tags_ok tags \<Longrightarrow> active_ok l \<Longrightarrow> tags_ok (merge_active_tags tags (lw_tags l))"
  by (auto simp: tags_ok_def merge_active_tags_def active_ok_def)

lemma lexed_tokens_in: "lexed_node U n \<Longrightarrow> \<forall>t \<in> set (tokens_in (nd_children n)). lexed U t"
  using tokens_in_node by (auto simp: lexed_node_def)

lemma outcome_text_and_tags:
  assumes "lexed_node U n" and "active_ok l"
    and "\<And>s tags links. tags_ok tags \<Longrightarrow> tags_ok links \<Longrightarrow> outcome U l n (f s tags links l)"
  shows "outcome U l n (with_text_and_tags missing n f l)"
proof (cases "find_tokens n STRING")
  case (Cons t ts)
  obtain tags links where "tags_and_links (tokens_in (nd_children n)) = Inr (tags, links)"
    "tags_ok tags" "tags_ok links"
    using tags_and_links_lexed [OF lexed_tokens_in [OF assms(1)]] by blast
  then show ?thesis
    using assms(3) merge_active_ok [OF _ assms(2)] Cons by (simp add: with_text_and_tags_def)
qed (simp add: with_text_and_tags_def outcome_said)

section \<open>The handlers\<close>

lemma names_of_tokens:
  assumes "lexed_node U n"
  shows "t \<in> set (find_tokens n ACCOUNT) \<Longrightarrow> account_ok U (tok_raw t)"
    and "t \<in> set (find_tokens n CURRENCY) \<Longrightarrow> currency_ok U (tok_raw t)"
  unfolding account_ok_def currency_ok_def by (rule lexed_kind [OF assms], assumption, simp)+

lemma lower_booking_quiet: "quiet l (snd (lower_booking U n l))"
  by (auto simp: lower_booking_def split: list.split sum.split)

lemma outcome_open:
  assumes "lexed_node U n" "nd_kind n = OpenDirective"
  shows "outcome U l n (lower_open U A n l)"
  unfolding lower_open_def
  by (intro outcome_with_date outcome_with_token outcome_pair [OF lower_booking_quiet] outcome_emit)
    (auto simp: assms(2) intro: names_of_tokens [OF assms(1)])

lemma outcome_account_or_currency:
  assumes "lexed_node U n"
  shows "nd_kind n = CloseDirective \<Longrightarrow> outcome U l n (lower_close U A n l)"
    and "nd_kind n = CommodityDirective \<Longrightarrow> outcome U l n (lower_commodity U A n l)"
  unfolding lower_close_def lower_commodity_def
  by (intro outcome_with_date outcome_with_token outcome_emit; simp add: names_of_tokens [OF assms])+

lemma outcome_undated:
  shows "nd_kind n = OptionDirective \<Longrightarrow> outcome U l n (lower_option n l)"
    and "nd_kind n = PluginDirective \<Longrightarrow> outcome U l n (lower_plugin n l)"
    and "nd_kind n = IncludeDirective \<Longrightarrow> outcome U l n (lower_include n l)"
  unfolding lower_option_def lower_plugin_def lower_include_def
  by ((intro outcome_two_tokens outcome_tokens; rule outcome_directive [OF _ quiet_refl]; simp add: made_from_def),
      (intro outcome_tokens; rule outcome_directive [OF _ quiet_refl]; simp add: made_from_def),
      (intro outcome_tokens; rule outcome_directive [OF _ quiet_refl]; simp add: made_from_def))

lemma outcome_strings:
  shows "nd_kind n = EventDirective \<Longrightarrow> outcome U l n (lower_event U A n l)"
    and "nd_kind n = QueryDirective \<Longrightarrow> outcome U l n (lower_query U A n l)"
  unfolding lower_event_def lower_query_def
  by (intro outcome_with_date outcome_two_tokens outcome_emit; simp)+

lemma outcome_pad:
  assumes "lexed_node U n" "nd_kind n = PadDirective"
  shows "outcome U l n (lower_pad U A n l)"
proof -
  have "account_ok U (tok_raw a) \<and> account_ok U (tok_raw b)" if "find_tokens n ACCOUNT = a # b # ts" for a b ts
    using names_of_tokens(1) [OF assms(1)] that by simp
  then show ?thesis
    unfolding lower_pad_def by (intro outcome_with_date outcome_two_tokens outcome_emit) (simp_all add: assms(2))
qed

lemma outcome_note_document:
  assumes "lexed_node U n" "active_ok l"
  shows "nd_kind n = NoteDirective \<Longrightarrow> outcome U l n (lower_note U A n l)"
    and "nd_kind n = DocumentDirective \<Longrightarrow> outcome U l n (lower_document U A n l)"
proof -
  note rules = outcome_with_date outcome_with_token outcome_text_and_tags [OF assms]
  show "outcome U l n (lower_note U A n l)" if "nd_kind n = NoteDirective"
    unfolding lower_note_def
    by (intro rules outcome_emit) (simp_all add: that names_of_tokens [OF assms(1)])
  show "outcome U l n (lower_document U A n l)" if "nd_kind n = DocumentDirective"
    unfolding lower_document_def
    by (intro rules outcome_emit) (simp_all add: that names_of_tokens [OF assms(1)])
qed

text \<open>A step that may say why there is no directive, in front of the rest of a handler.\<close>

lemma outcome_after:
  assumes "yields_or_says P l r" and "\<And>x l1. P x \<Longrightarrow> quiet l l1 \<Longrightarrow> outcome U l n (f x l1)"
  shows "outcome U l n (case r of (None, l1) \<Rightarrow> Inr l1 | (Some x, l1) \<Rightarrow> f x l1)"
proof (cases r)
  case (Pair v l1)
  show ?thesis
  proof (cases v)
    case None
    with assms(1) Pair show ?thesis by (simp add: outcome_said)
  next
    case (Some x)
    with assms(1) Pair have "P x" "quiet l l1" by simp_all
    from assms(2) [OF this] show ?thesis by (simp add: Pair Some)
  qed
qed

lemma outcome_price:
  assumes "lexed_node U n" "nd_kind n = PriceDirective"
  shows "outcome U l n (lower_price U A n l)"
  unfolding lower_price_def
proof (intro outcome_with_date outcome_with_token)
  fix d t
  assume ne: "node_tokens n \<noteq> []" and t: "t \<in> set (find_tokens n CURRENCY)"
  show "outcome U l n (case find_node n AmountNode of
      None \<Rightarrow> Inr (add_diagnostic n ''price directive missing amount'' l)
    | Some m \<Rightarrow> (case lower_amount U A m l of (None, l1) \<Rightarrow> Inr l1
       | (Some amt, l1) \<Rightarrow> emit U A n (\<lambda>s meta. DPrice
           \<lparr>prc_span = s, prc_date = d, prc_commodity = tok_raw t, prc_amount = amt, prc_meta = meta\<rparr>) l1))"
  proof (cases "find_node n AmountNode")
    case (Some m)
    show ?thesis
      unfolding Some option.case
      using ne names_of_tokens(2) [OF assms(1) t]
      by (intro outcome_after [OF lower_amount_yields [OF lexed_find_node [OF assms(1) Some]]],
          elim outcome_quiet, intro outcome_emit) (simp_all add: assms(2))
  qed (simp add: outcome_said)
qed

lemma outcome_balance:
  assumes "lexed_node U n" "nd_kind n = BalanceDirective"
  shows "outcome U l n (lower_balance U A n l)"
  unfolding lower_balance_def
proof (intro outcome_with_date outcome_with_token)
  fix d t
  assume ne: "node_tokens n \<noteq> []" and t: "t \<in> set (find_tokens n ACCOUNT)"
  have finish: "outcome U l n
      (case lower_metadata U A n l1 of (meta, l2) \<Rightarrow>
         let bal = \<lparr>bal_span = span_from_node l n, bal_date = d, bal_account = tok_raw t,
           bal_amount = \<lparr>amt_number = num, amt_currency = tok_raw cur\<rparr>,
           bal_tolerance = None, bal_meta = meta, bal_diff = None\<rparr> in
         if b then (case eval_expr U A e l2 of
             (tol, l3) \<Rightarrow> Inr (add_directive (DBalance (bal\<lparr>bal_tolerance := tol\<rparr>)) l3))
         else Inr (add_directive (DBalance bal) l2))"
    if "quiet l l1" and "currency_ok U (tok_raw cur)" for l1 num cur b e
  proof -
    have l2: "quiet l (snd (lower_metadata U A n l1))" using that(1) lower_metadata_quiet quiet_trans by blast
    have "quiet l2 (snd (eval_expr U A e l2))" for l2
      by (auto simp: eval_expr_def split: sum.split)
    with l2 have l3: "quiet l (snd (eval_expr U A e (snd (lower_metadata U A n l1))))" using quiet_trans by blast
    show ?thesis
      unfolding case_prod_beta Let_def
      using ne names_of_tokens(1) [OF assms(1) t] that(2)
      by (auto intro!: outcome_directive l2 l3 simp: made_from_def assms(2))
  qed
  show "outcome U l n
     (case find_node n BalanceAmountNode of
        None \<Rightarrow> Inr (add_diagnostic n ''balance directive missing amount'' l)
      | Some body \<Rightarrow>
        (case find_all_nodes body ArithExprNode of
           [] \<Rightarrow> Inr (add_diagnostic n ''balance directive missing amount'' l)
         | e # rest \<Rightarrow>
           (case find_token body CURRENCY of
              None \<Rightarrow> Inr (add_diagnostic n ''balance directive missing currency'' l)
            | Some cur \<Rightarrow>
              (case eval_expr U A e l of
                 (None, l1) \<Rightarrow> Inr l1
               | (Some num, l1) \<Rightarrow>
                 (case lower_metadata U A n l1 of (meta, l2) \<Rightarrow>
                    let bal = \<lparr>bal_span = span_from_node l n, bal_date = d, bal_account = tok_raw t,
                      bal_amount = \<lparr>amt_number = num, amt_currency = tok_raw cur\<rparr>,
                      bal_tolerance = None, bal_meta = meta, bal_diff = None\<rparr> in
                    if rest \<noteq> [] \<and> find_token body TILDE \<noteq> None then
                      (case eval_expr U A (hd rest) l2 of
                         (tol, l3) \<Rightarrow> Inr (add_directive (DBalance (bal\<lparr>bal_tolerance := tol\<rparr>)) l3))
                    else Inr (add_directive (DBalance bal) l2))))))"
  proof (cases "find_node n BalanceAmountNode")
    case None
    then show ?thesis by (simp add: outcome_said)
  next
    case (Some body)
    note body = lexed_find_node [OF assms(1) Some]
    show ?thesis
    proof (cases "find_all_nodes body ArithExprNode")
      case Nil
      then show ?thesis by (simp add: Some outcome_said)
    next
      case (Cons e rest)
      show ?thesis
      proof (cases "find_token body CURRENCY")
        case None
        then show ?thesis by (simp add: \<open>find_node n BalanceAmountNode = Some body\<close> Cons outcome_said)
      next
        case (Some cur)
        have c: "currency_ok U (tok_raw cur)" using lexed_find_token [OF body Some] by (simp add: currency_ok_def)
        show ?thesis
          unfolding \<open>find_node n BalanceAmountNode = Some body\<close> Cons Some option.case list.case
          by (intro outcome_after [OF eval_expr_yields] finish c)
      qed
    qed
  qed
qed

lemma outcome_transaction:
  assumes "lexed_node U n" "nd_kind n = TransactionDirective" "active_ok l"
  shows "outcome U l n (lower_transaction U A n l)"
  unfolding lower_transaction_def Let_def
proof (rule outcome_with_date)
  fix d
  assume ne: "node_tokens n \<noteq> []"
  obtain tags links where tl: "tags_and_links (tokens_in (nd_children n)) = Inr (tags, links)"
    and ok: "tags_ok tags" "tags_ok links"
    using tags_and_links_lexed [OF lexed_tokens_in [OF assms(1)]] by blast
  have "\<forall>m \<in> set (find_all_nodes n PostingNode). lexed_node U m"
    using in_find_all_nodes lexed_node_sub [OF assms(1)] by blast
  note ps = lower_postings_quiet [OF this, of l A]
  obtain payee narration where
    pn: "payee_narration (filter (\<lambda>t. tok_kind t = STRING) (tokens_in (nd_children n))) = (payee, narration)"
    by fastforce
  show "outcome U l n (rbind (tags_and_links (tokens_in (nd_children n))) (\<lambda>(tags, links).
      case payee_narration (filter (\<lambda>t. tok_kind t = STRING) (tokens_in (nd_children n))) of (payee, narration) \<Rightarrow>
      case lower_postings U A (find_all_nodes n PostingNode) l of (ps, l1) \<Rightarrow>
      emit U A n (\<lambda>s meta. DTransaction
        \<lparr>txn_span = s, txn_date = d, txn_flag = last_flag (tokens_in (nd_children n)), txn_payee = payee,
         txn_narration = narration, txn_tags = merge_active_tags tags (lw_tags l), txn_links = links,
         txn_postings = ps, txn_meta = meta\<rparr>) l1))"
    unfolding tl rbind_Inr prod.case pn
    using conjunct2 [OF ps] ok(2) merge_active_ok [OF ok(1) assms(3)] ne
    by (intro outcome_pair [OF conjunct1 [OF ps]] outcome_emit) (simp_all add: assms(2))
qed

lemma outcome_custom:
  assumes "nd_kind n = CustomDirective"
  shows "outcome U l n (lower_custom U A n l)"
  unfolding lower_custom_def
proof (rule outcome_with_date)
  fix d
  assume ne: "node_tokens n \<noteq> []"
  show "outcome U l n (case after_type_name (nd_children n) of
        None \<Rightarrow> Inr (add_diagnostic n ''custom directive missing type name'' l)
      | Some (t, cs) \<Rightarrow>
        (case lower_custom_values U A n cs l of (vs, l1) \<Rightarrow>
           emit U A n (\<lambda>s meta. DCustom
             \<lparr>cus_span = s, cus_date = d, cus_type = unquote_string t, cus_values = vs, cus_meta = meta\<rparr>) l1))"
  proof (cases "after_type_name (nd_children n)")
    case (Some p)
    then show ?thesis
      unfolding Some option.case case_prod_beta [of _ p]
      by (intro outcome_pair [OF lower_custom_values_quiet] outcome_emit) (simp_all add: assms ne)
  qed (simp add: outcome_said)
qed

section \<open>One top-level node after the other\<close>

text \<open>What the handlers read of the lowerer and leave as it is.\<close>

definition same_env :: "lowerer \<Rightarrow> lowerer \<Rightarrow> bool" where
  "same_env l l' \<longleftrightarrow> lw_filename l' = lw_filename l \<and> lw_source l' = lw_source l \<and>
     lw_line_starts l' = lw_line_starts l \<and> lw_err_offsets l' = lw_err_offsets l"

lemma same_env_refl [simp]: "same_env l l"
  by (simp add: same_env_def)

lemma same_env_trans: "same_env l l1 \<Longrightarrow> same_env l1 l2 \<Longrightarrow> same_env l l2"
  by (simp add: same_env_def)

lemma same_env_span: "same_env l l' \<Longrightarrow> span_from_node l' n = span_from_node l n"
  by (simp only: same_env_def span_from_node_def pos_at_def)

lemma same_env_made: "same_env l l' \<Longrightarrow> made_from U l' n d = made_from U l n d"
  by (simp add: made_from_def same_env_span)

lemma same_env_error: "same_env l l' \<Longrightarrow> has_parser_error_in l' n = has_parser_error_in l n"
  by (simp only: same_env_def has_parser_error_in_def)

text \<open>The nodes that become a directive, if nothing is said about them.\<close>

definition tag_node :: "node \<Rightarrow> bool" where
  "tag_node n \<longleftrightarrow> nd_kind n \<in> {PushtagDirective, PoptagDirective}"

definition unread_node :: "node \<Rightarrow> bool" where
  "unread_node n \<longleftrightarrow> nd_kind n \<in> {ErrorNode, UnrecognizedLineNode}"

definition silent :: "lowerer \<Rightarrow> node \<Rightarrow> bool" where
  "silent l n \<longleftrightarrow> tag_node n \<or> unread_node n \<and> has_parser_error_in l n"

text \<open>From \<open>l\<close> to \<open>l'\<close> over the nodes \<open>ns\<close>: the directives of some of them, in their order, and
  diagnostics; of all that are not silent, if there is no diagnostic.\<close>

definition lowered :: "unicode \<Rightarrow> node list \<Rightarrow> lowerer \<Rightarrow> lowerer \<Rightarrow> bool" where
  "lowered U ns l l' \<longleftrightarrow> same_env l l' \<and> active_ok l' \<and>
     (\<exists>ms ds es. af_directives (lw_file l') = af_directives (lw_file l) @ ds \<and>
        af_diagnostics (lw_file l') = af_diagnostics (lw_file l) @ es \<and>
        af_filename (lw_file l') = af_filename (lw_file l) \<and>
        list_all2 (made_from U l) ms ds \<and> subseq ms (filter (\<lambda>n. \<not> silent l n) ns) \<and>
        (es = [] \<longrightarrow> ms = filter (\<lambda>n. \<not> silent l n) ns))"

lemma lowered_Nil: "active_ok l \<Longrightarrow> lowered U [] l l"
  by (simp add: lowered_def)

lemma lowered_append:
  assumes "lowered U ms l l1" and "lowered U ns l1 l2"
  shows "lowered U (ms @ ns) l l2"
proof -
  have env: "same_env l l1" and "same_env l1 l2" using assms by (simp_all add: lowered_def)
  then have "same_env l l2" by (rule same_env_trans)
  have sil: "silent l1 = silent l" using same_env_error [OF env] by (auto simp: silent_def)
  have made: "made_from U l1 = made_from U l" using same_env_made [OF env] by blast
  obtain xs ds es where 1: "af_directives (lw_file l1) = af_directives (lw_file l) @ ds"
    "af_diagnostics (lw_file l1) = af_diagnostics (lw_file l) @ es" "af_filename (lw_file l1) = af_filename (lw_file l)"
    "list_all2 (made_from U l) xs ds" "subseq xs (filter (\<lambda>n. \<not> silent l n) ms)"
    "es = [] \<longrightarrow> xs = filter (\<lambda>n. \<not> silent l n) ms"
    using assms(1) unfolding lowered_def by blast
  obtain ys gs fs where 2: "af_directives (lw_file l2) = af_directives (lw_file l1) @ gs"
    "af_diagnostics (lw_file l2) = af_diagnostics (lw_file l1) @ fs" "af_filename (lw_file l2) = af_filename (lw_file l1)"
    "list_all2 (made_from U l) ys gs" "subseq ys (filter (\<lambda>n. \<not> silent l n) ns)"
    "fs = [] \<longrightarrow> ys = filter (\<lambda>n. \<not> silent l n) ns"
    using assms(2) unfolding lowered_def sil made by blast
  show ?thesis
    unfolding lowered_def
  proof (intro conjI exI)
    show "list_all2 (made_from U l) (xs @ ys) (ds @ gs)" using 1(4) 2(4) by (rule list_all2_appendI)
    show "subseq (xs @ ys) (filter (\<lambda>n. \<not> silent l n) (ms @ ns))"
      using 1(5) 2(5) by (simp add: list_emb_append_mono)
    show "af_diagnostics (lw_file l2) = af_diagnostics (lw_file l) @ (es @ fs)" using 1 2 by simp
    show "af_directives (lw_file l2) = af_directives (lw_file l) @ (ds @ gs)" using 1 2 by simp
    show "es @ fs = [] \<longrightarrow> xs @ ys = filter (\<lambda>n. \<not> silent l n) (ms @ ns)" using 1(6) 2(6) by simp
  qed (use \<open>same_env l l2\<close> assms(2) 1 2 in \<open>simp_all add: lowered_def\<close>)
qed

lemma lowered_add_diags: "active_ok l \<Longrightarrow> es \<noteq> [] \<or> silent l n \<Longrightarrow> lowered U [n] l (add_diags es l)"
  unfolding lowered_def
  by (intro conjI exI [of _ "[]"] exI [of _ es]) (auto simp: same_env_def active_ok_def)

lemma lowered_said: "active_ok l \<Longrightarrow> said l l' \<Longrightarrow> lowered U [n] l l'"
  by (auto simp: said_def intro: lowered_add_diags)

lemma lowered_directive:
  assumes "active_ok l" "quiet l l1" "made_from U l n d" "\<not> silent l n"
  shows "lowered U [n] l (add_directive d l1)"
proof -
  obtain es where l1: "l1 = add_diags es l" using assms(2) by (auto simp: quiet_def)
  show ?thesis
    unfolding lowered_def l1
    by (intro conjI exI [of _ "[n]"] exI [of _ "[d]"] exI [of _ es])
      (use assms in \<open>simp_all add: same_env_def active_ok_def\<close>)
qed

lemma lowered_tags:
  assumes "tag_node n" "finite T" "\<forall>t \<in> T. is_tag_link_name t"
  shows "lowered U [n] l (l\<lparr>lw_tags := T\<rparr>)"
  unfolding lowered_def
  by (intro conjI exI [of _ "[]"]) (use assms in \<open>simp_all add: same_env_def active_ok_def silent_def\<close>)

lemma handle_tags_lowered:
  assumes "lexed_node U n" "active_ok l" "tag_node n"
  shows "\<exists>l'. handle_pushtag n l = Inr l' \<and> lowered U [n] l l'"
    and "\<exists>l'. handle_poptag U n l = Inr l' \<and> lowered U [n] l l'"
proof -
  note said = lowered_said [OF assms(2) said_add_diagnostic]
  show "\<exists>l'. handle_pushtag n l = Inr l' \<and> lowered U [n] l l'" (is ?push)
    and "\<exists>l'. handle_poptag U n l = Inr l' \<and> lowered U [n] l l'" (is ?pop)
  proof -
    have "?push \<and> ?pop"
    proof (cases "find_token n TAG")
      case None
      then show ?thesis using said by (simp add: handle_pushtag_def handle_poptag_def with_token_def)
    next
      case (Some t)
      then have "tok_kind t = TAG" "lexed U t"
        using find_token_in [OF Some] in_find_tokens [of t n TAG] lexed_tokens_in [OF assms(1)] by auto
      then obtain s where s: "after_sigil t = Inr s" "is_tag_link_name s" using after_sigil_lexed by blast
      have "lowered U [n] l (l\<lparr>lw_tags := insert s (lw_tags l)\<rparr>)" "lowered U [n] l (l\<lparr>lw_tags := lw_tags l - {s}\<rparr>)"
        using assms s(2) by (auto simp: active_ok_def intro!: lowered_tags)
      then show ?thesis using Some s said by (simp add: handle_pushtag_def handle_poptag_def with_token_def)
    qed
    then show ?push ?pop by blast+
  qed
qed

lemma outcome_lowered:
  assumes "outcome U l n r" "active_ok l" "\<not> silent l n"
  shows "\<exists>l'. r = Inr l' \<and> lowered U [n] l l'"
  using assms lowered_said lowered_directive unfolding outcome_def by blast

lemmas handler_outcomes = outcome_open outcome_account_or_currency outcome_undated outcome_strings outcome_pad
  outcome_note_document outcome_price outcome_balance outcome_transaction outcome_custom

lemma lower_directive_lowered:
  assumes "lexed_node U n" "active_ok l"
  shows "\<exists>l'. lower_directive U A n l = Inr l' \<and> lowered U [n] l l'"
proof (cases "tag_node n \<or> unread_node n")
  case True
  have "\<exists>l'. lower_unrecognized n l = Inr l' \<and> lowered U [n] l l'" if "unread_node n"
  proof (cases "has_parser_error_in l n")
    case True
    then have "lowered U [n] l l" using that lowered_add_diags [OF assms(2), of "[]" n U] by (simp add: silent_def)
    with True show ?thesis by (simp add: lower_unrecognized_def)
  next
    case False
    then show ?thesis using lowered_said [OF assms(2) said_add_diagnostic] by (simp add: lower_unrecognized_def)
  qed
  then show ?thesis
    using True handle_tags_lowered [OF assms] by (auto simp: tag_node_def unread_node_def lower_directive_def)
next
  case False
  have "outcome U l n (lower_directive U A n l)"
    using False by (cases "nd_kind n")
      (simp_all add: lower_directive_def tag_node_def unread_node_def handler_outcomes outcome_said assms)
  then show ?thesis using False assms(2) by (intro outcome_lowered) (simp_all add: silent_def)
qed

lemma lower_children_lowered:
  assumes "\<forall>n \<in> set (nodes_in cs). lexed_node U n" "active_ok l"
  shows "\<exists>l'. lower_children U A cs l = Inr l' \<and> lowered U (nodes_in cs) l l'"
  using assms
proof (induction cs arbitrary: l)
  case Nil
  then show ?case by (simp add: lowered_Nil)
next
  case (Cons c cs)
  show ?case
  proof (cases c)
    case (CNode n)
    with Cons.prems obtain l1 where l1: "lower_directive U A n l = Inr l1" "lowered U [n] l l1"
      using lower_directive_lowered [of U n l A] by auto
    then have "active_ok l1" by (simp add: lowered_def)
    with Cons CNode obtain l2 where "lower_children U A cs l1 = Inr l2" "lowered U (nodes_in cs) l1 l2" by auto
    with lowered_append [OF l1(2)] CNode l1(1) show ?thesis by fastforce
  qed (use Cons in simp)
qed

end
