(* ===== verification/Lowering_Contract.thy ===== *)
theory Lowering_Contract
  imports Lowering_Steps
begin

text \<open>
  What \<open>Lower\<close> promises of the tree of any text: it returns; every directive has well-formed names and the
  kind and place of its own node, in the order of the text; nothing is dropped without a diagnostic.
\<close>

section \<open>The lowerer at the start\<close>

lemma fold_errors:
  "foldl (\<lambda>l e. add_diag (mk_diag [] (span_from_offset l (int (se_pos e))) (se_msg e)) l) l es =
    add_diags (map (\<lambda>e. mk_diag [] (span_from_offset l (int (se_pos e))) (se_msg e)) es) l"
  by (induction es rule: rev_induct) (simp_all add: add_diag_diags span_from_offset_def)

definition first_lowerer :: "string \<Rightarrow> string \<Rightarrow> lowerer" where
  "first_lowerer filename src =
     \<lparr>lw_filename = filename, lw_file = \<lparr>af_filename = filename, af_directives = [], af_diagnostics = []\<rparr>,
      lw_tags = {}, lw_source = src, lw_line_starts = compute_line_starts src, lw_err_offsets = []\<rparr>"

lemma new_lowerer_parse:
  "new_lowerer filename (parse U src) =
    (add_diags (map (\<lambda>e. mk_diag [] (span_from_offset (first_lowerer filename src) (int (se_pos e))) (se_msg e))
       (sf_errors (parse U src))) (first_lowerer filename src))
    \<lparr>lw_err_offsets := sort (map se_pos (sf_errors (parse U src)))\<rparr>"
  by (simp add: new_lowerer_def Let_def parse_full_text fold_errors first_lowerer_def)

lemma new_lowerer_sels:
  "lw_filename (new_lowerer filename (parse U src)) = filename"
  "lw_source (new_lowerer filename (parse U src)) = src"
  "lw_line_starts (new_lowerer filename (parse U src)) = compute_line_starts src"
  "lw_err_offsets (new_lowerer filename (parse U src)) = sort (map se_pos (sf_errors (parse U src)))"
  "lw_tags (new_lowerer filename (parse U src)) = {}"
  "af_directives (lw_file (new_lowerer filename (parse U src))) = []"
  "af_filename (lw_file (new_lowerer filename (parse U src))) = filename"
  "length (af_diagnostics (lw_file (new_lowerer filename (parse U src)))) = length (sf_errors (parse U src))"
  by (simp_all add: new_lowerer_parse first_lowerer_def add_diags_def)

text \<open>The span of a node, and what becomes of the top-level nodes of a text.\<close>

definition text_span :: "string \<Rightarrow> string \<Rightarrow> node \<Rightarrow> span" where
  "text_span filename src = span_from_node (first_lowerer filename src)"

lemma text_span_new: "span_from_node (new_lowerer filename (parse U src)) n = text_span filename src n"
proof -
  have "lw_filename (first_lowerer filename src) = lw_filename (new_lowerer filename (parse U src))"
    "lw_source (first_lowerer filename src) = lw_source (new_lowerer filename (parse U src))"
    "lw_line_starts (first_lowerer filename src) = lw_line_starts (new_lowerer filename (parse U src))"
    by (simp_all add: new_lowerer_sels) (simp_all add: first_lowerer_def)
  then show ?thesis by (simp only: text_span_def span_from_node_def pos_at_def)
qed

definition top_nodes :: "unicode \<Rightarrow> string \<Rightarrow> node list" where
  "top_nodes U src = (case sf_root (parse U src) of None \<Rightarrow> [] | Some tree \<Rightarrow> nodes_in (nd_children tree))"

lemma lower_parse:
  obtains l where "lower_file U A filename (parse U src) = Inr (lw_file l)"
    "lowered U (top_nodes U src) (new_lowerer filename (parse U src)) l"
proof -
  obtain tree where tree: "sf_root (parse U src) = Some tree" and lexed: "\<forall>t \<in> set (node_tokens tree). lexed U t"
    by (rule parse_root)
  have "lexed_node U tree" using lexed by (simp add: lexed_node_def)
  then have "\<forall>n \<in> set (nodes_in (nd_children tree)). lexed_node U n" using lexed_node_sub by blast
  moreover have "active_ok (new_lowerer filename (parse U src))" by (simp add: active_ok_def new_lowerer_sels)
  ultimately obtain l where "lower_children U A (nd_children tree) (new_lowerer filename (parse U src)) = Inr l"
    "lowered U (nodes_in (nd_children tree)) (new_lowerer filename (parse U src)) l"
    using lower_children_lowered by blast
  then show ?thesis by (intro that [of l]) (simp_all add: lower_file_def tree top_nodes_def)
qed

section \<open>Properties\<close>

lemma directives_from:
  assumes "lower_file U A filename (parse U src) = Inr f"
  obtains ms where "list_all2 (made_from U (new_lowerer filename (parse U src))) ms (af_directives f)"
    "subseq ms (top_nodes U src)"
proof -
  obtain l where l: "lower_file U A filename (parse U src) = Inr (lw_file l)"
    "lowered U (top_nodes U src) (new_lowerer filename (parse U src)) l"
    by (rule lower_parse)
  with assms have f: "f = lw_file l" by simp
  obtain ms where "list_all2 (made_from U (new_lowerer filename (parse U src))) ms (af_directives f)"
    and "subseq ms (filter (\<lambda>n. \<not> silent (new_lowerer filename (parse U src)) n) (top_nodes U src))"
    using l(2) by (auto simp: lowered_def f new_lowerer_sels)
  moreover have "subseq (filter (\<lambda>n. \<not> silent (new_lowerer filename (parse U src)) n) (top_nodes U src)) (top_nodes U src)"
    by simp
  ultimately show ?thesis using that subseq_order.trans by blast
qed

text \<open>C6 Lowering the tree of any text, valid or not, returns: no slice bound or pointer is ever wrong. Each
  directive it returns comes from a top-level node of its own, in the order of the nodes, is of the node's
  kind and has its place; its accounts, currencies, tags and links are well-formed names of their kind.\<close>

theorem lower_total:
  "\<exists>f ns. lower_file U A filename (parse U src) = Inr f \<and> af_filename f = filename \<and>
     subseq ns (top_nodes U src) \<and>
     map dir_span (af_directives f) = map (text_span filename src) ns \<and>
     map made_kind (af_directives f) = map nd_kind ns \<and> list_all (names_ok U) (af_directives f)"
proof -
  obtain l where l: "lower_file U A filename (parse U src) = Inr (lw_file l)"
    "lowered U (top_nodes U src) (new_lowerer filename (parse U src)) l"
    by (rule lower_parse)
  obtain ms where "list_all2 (made_from U (new_lowerer filename (parse U src))) ms (af_directives (lw_file l))"
    "subseq ms (top_nodes U src)"
    by (rule directives_from [OF l(1)])
  moreover have "af_filename (lw_file l) = filename" using l(2) by (auto simp: lowered_def new_lowerer_sels)
  ultimately show ?thesis
    using l(1) by (intro exI [of _ "lw_file l"] exI [of _ ms])
      (auto simp: made_from_def text_span_new list_all2_conv_all_nth list_all_length intro: nth_equalityI)
qed

text \<open>C7 Nothing is dropped silently: when a text is lowered without a diagnostic, it had no syntax error and
  no line the parser did not recognize, and there is exactly one directive for each top-level node that is
  not a \<open>pushtag\<close> or \<open>poptag\<close>.\<close>

theorem lower_drops_nothing:
  assumes "lower_file U A filename (parse U src) = Inr f" and "af_diagnostics f = []"
  shows "sf_errors (parse U src) = [] \<and> list_all (\<lambda>n. \<not> unread_node n) (top_nodes U src) \<and>
    map made_kind (af_directives f) = map nd_kind (filter (\<lambda>n. \<not> tag_node n) (top_nodes U src))"
proof -
  obtain l where l: "lower_file U A filename (parse U src) = Inr (lw_file l)"
    "lowered U (top_nodes U src) (new_lowerer filename (parse U src)) l"
    by (rule lower_parse)
  with assms(1) have f: "f = lw_file l" by simp
  let ?l = "new_lowerer filename (parse U src)"
  obtain ms es where ms: "list_all2 (made_from U ?l) ms (af_directives f)"
    and es: "af_diagnostics f = af_diagnostics (lw_file ?l) @ es"
    "es = [] \<longrightarrow> ms = filter (\<lambda>n. \<not> silent ?l n) (top_nodes U src)"
    using l(2) by (auto simp: lowered_def f new_lowerer_sels)
  have no_errors: "sf_errors (parse U src) = []"
    using es(1) assms(2) new_lowerer_sels(8) [of filename U src] by simp
  then have "silent ?l = tag_node" by (auto simp: silent_def has_parser_error_in_def new_lowerer_sels)
  then have eq: "ms = filter (\<lambda>n. \<not> tag_node n) (top_nodes U src)" using es assms(2) by simp
  have kinds: "map made_kind (af_directives f) = map nd_kind ms"
    using ms by (auto simp: made_from_def list_all2_conv_all_nth intro: nth_equalityI)
  have "\<not> unread_node n" if "n \<in> set (top_nodes U src)" for n
  proof
    assume u: "unread_node n"
    then have "nd_kind n \<in> set (map nd_kind ms)" using that eq by (auto simp: unread_node_def tag_node_def)
    then have "nd_kind n \<in> made_kind ` set (af_directives f)" using kinds by (metis list.set_map)
    moreover have "made_kind d \<noteq> ErrorNode \<and> made_kind d \<noteq> UnrecognizedLineNode" for d by (cases d) auto
    ultimately show False using u by (fastforce simp: unread_node_def)
  qed
  then show ?thesis using no_errors kinds eq by (simp add: list_all_iff)
qed

definition ex_ledger :: string where
  "ex_ledger = ''pushtag #trip'' @ [CHR 0x0A] @ ''2024-01-31 * ''
     @ [CHR 0x22] @ ''Lunch'' @ [CHR 0x22] @ [CHR 0x0A] @
     ''  Expenses:Food  2*(3-1)/4 USD'' @ [CHR 0x0A] @ ''  Assets:Cash'' @ [CHR 0x0A] @ ''poptag #trip'' @ [CHR 0x0A]"

theorem lower_drops_nothing_witness:
  "\<exists>f. lower_file (\<lambda>_. []) gda ''f'' (parse (\<lambda>_. []) ex_ledger) = Inr f \<and>
     map made_kind (af_directives f) = [TransactionDirective] \<and> sf_errors (parse (\<lambda>_. []) ex_ledger) = []"
  (is "\<exists>f. ?r = Inr f \<and> _")
proof -
  have e: "map_sum id (\<lambda>f. (af_diagnostics f, map made_kind (af_directives f))) ?r = Inr ([], [TransactionDirective])"
    by code_simp
  then obtain f where f: "?r = Inr f" "af_diagnostics f = []" "map made_kind (af_directives f) = [TransactionDirective]"
    by (cases ?r) auto
  with lower_drops_nothing [OF f(1,2)] show ?thesis by auto
qed

section \<open>Places\<close>

lemma located_split: "located src a (xs @ ys) b \<Longrightarrow> \<exists>m. located src a xs m \<and> located src m ys b"
proof (induction xs arbitrary: a)
  case (Cons t ts)
  then show ?case by fastforce
qed auto

text \<open>A node with tokens lies between two offsets.\<close>

definition inside :: "nat \<Rightarrow> node \<Rightarrow> nat \<Rightarrow> bool" where
  "inside a n b \<longleftrightarrow> node_tokens n \<noteq> [] \<and> a \<le> tok_pos (hd (node_tokens n)) \<and>
     tok_pos (hd (node_tokens n)) \<le> token_end (last (node_tokens n)) \<and> token_end (last (node_tokens n)) \<le> b"

definition in_order :: "node \<Rightarrow> node \<Rightarrow> bool" where
  "in_order m n \<longleftrightarrow> node_tokens m \<noteq> [] \<longrightarrow> node_tokens n \<noteq> [] \<longrightarrow>
     token_end (last (node_tokens m)) \<le> tok_pos (hd (node_tokens n))"

lemma located_inside: "located src a (node_tokens n) b \<Longrightarrow> node_tokens n \<noteq> [] \<Longrightarrow> inside a n b"
proof -
  have "located src a ts b \<Longrightarrow> ts \<noteq> [] \<Longrightarrow>
      a \<le> tok_pos (hd ts) \<and> tok_pos (hd ts) \<le> token_end (last ts) \<and> token_end (last ts) \<le> b" for ts
  proof (induction ts arbitrary: a)
    case (Cons t ts)
    then show ?case by (cases ts) (fastforce simp: token_end_def)+
  qed simp
  then show "located src a (node_tokens n) b \<Longrightarrow> node_tokens n \<noteq> [] \<Longrightarrow> inside a n b" by (simp add: inside_def)
qed

lemma located_nodes:
  "located src a (tokens_of cs) b \<Longrightarrow>
    (\<forall>n \<in> set (nodes_in cs). node_tokens n \<noteq> [] \<longrightarrow> inside a n b) \<and> sorted_wrt in_order (nodes_in cs)"
proof (induction cs arbitrary: a)
  case (Cons c cs)
  show ?case
  proof (cases c)
    case (CToken t)
    with Cons.prems have "located src (token_end t) (tokens_of cs) b" "a \<le> token_end t"
      by (auto simp: token_end_def)
    from Cons.IH [OF located_weaken [OF this]] show ?thesis by (simp add: CToken)
  next
    case (CNode n)
    with Cons.prems obtain m where m: "located src a (node_tokens n) m" "located src m (tokens_of cs) b"
      using located_split by fastforce
    note rest = Cons.IH [OF m(2)] and n = located_inside [OF m(1)]
    have "a \<le> m" "m \<le> b" using m by (auto dest: located_le)
    then show ?thesis using rest n by (fastforce simp: CNode in_order_def inside_def)
  qed
qed simp

definition offsets :: "directive \<Rightarrow> int \<times> int" where
  "offsets d = (pos_offset (span_start (dir_span d)), pos_offset (span_end (dir_span d)))"

lemma pos_offset_at [simp]: "pos_offset (pos_at l i) = i"
  by (simp add: pos_at_def Let_def)

lemma subseq_part: "subseq xs ys \<Longrightarrow> set xs \<subseteq> set ys \<and> (sorted_wrt P ys \<longrightarrow> sorted_wrt P xs)"
  by (induction rule: list_emb.induct) auto

lemma offsets_span:
  assumes "node_tokens n \<noteq> []" and "dir_span d = text_span filename src n"
  shows "offsets d = (int (tok_pos (hd (node_tokens n))), int (token_end (last (node_tokens n))))"
proof -
  obtain t ts where "node_tokens n = t # ts" using assms(1) by (cases "node_tokens n") auto
  then show ?thesis
    by (simp add: offsets_def assms(2) text_span_def span_from_node_def node_ends_def token_end_def)
qed

lemma top_nodes_located:
  shows "\<forall>n \<in> set (top_nodes U src). node_tokens n \<noteq> [] \<longrightarrow> inside 0 n (length src)"
    and "sorted_wrt in_order (top_nodes U src)"
proof -
  obtain tree where tree: "sf_root (parse U src) = Some tree" "located src 0 (node_tokens tree) (length src)"
    by (rule parse_root)
  have "node_tokens tree = tokens_of (nd_children tree)" by (cases tree) (simp only: node_tokens_Node node.sel)
  with located_nodes [of src 0 "nd_children tree" "length src"] tree
  show "\<forall>n \<in> set (top_nodes U src). node_tokens n \<noteq> [] \<longrightarrow> inside 0 n (length src)"
    "sorted_wrt in_order (top_nodes U src)"
    by (simp_all add: top_nodes_def)
qed

text \<open>C27 The spans of the directives lie in the text, in the order of the directives, and do not overlap.\<close>

theorem lowered_spans_in_order:
  assumes "lower_file U A filename (parse U src) = Inr f"
  shows "list_all (\<lambda>d. 0 \<le> fst (offsets d) \<and> fst (offsets d) \<le> snd (offsets d) \<and>
       snd (offsets d) \<le> int (length src)) (af_directives f) \<and>
    sorted_wrt (\<lambda>d e. snd (offsets d) \<le> fst (offsets e)) (af_directives f)"
proof -
  obtain ms where ms: "list_all2 (made_from U (new_lowerer filename (parse U src))) ms (af_directives f)"
    "subseq ms (top_nodes U src)"
    by (rule directives_from [OF assms])
  have at_node: "node_tokens (ms ! i) \<noteq> [] \<and> offsets (af_directives f ! i) =
      (int (tok_pos (hd (node_tokens (ms ! i)))), int (token_end (last (node_tokens (ms ! i)))))"
    if "i < length (af_directives f)" for i
  proof -
    have "made_from U (new_lowerer filename (parse U src)) (ms ! i) (af_directives f ! i)"
      using ms(1) that by (simp add: list_all2_conv_all_nth)
    then show ?thesis using offsets_span by (simp add: made_from_def text_span_new)
  qed
  have len: "length ms = length (af_directives f)" using ms(1) by (simp add: list_all2_lengthD)
  have part: "set ms \<subseteq> set (top_nodes U src)" "sorted_wrt in_order ms"
    using subseq_part [OF ms(2)] top_nodes_located(2) [of U src] by blast+
  have "inside 0 (ms ! i) (length src)" if i: "i < length (af_directives f)" for i
  proof -
    have "ms ! i \<in> set (top_nodes U src)" using part(1) i len nth_mem [of i ms] by (simp add: subset_iff)
    then show ?thesis using at_node [OF i] top_nodes_located(1) [of U src] by blast
  qed
  moreover have "in_order (ms ! i) (ms ! j)" if "i < j" "j < length (af_directives f)" for i j
    using that len sorted_wrt_nth_less [OF part(2)] by simp
  ultimately show ?thesis
    using at_node by (simp add: list_all_length sorted_wrt_iff_nth_less inside_def in_order_def)
qed

theorem lowered_spans_in_order_witness:
  "\<exists>f. lower_file (\<lambda>_. []) gda ''f'' (parse (\<lambda>_. []) ex_ledger) = Inr f \<and>
     map offsets (af_directives f) = [(14, 79)]"
  (is "\<exists>f. ?r = Inr f \<and> _")
proof -
  have e: "map_sum id (\<lambda>f. map offsets (af_directives f)) ?r = Inr [(14, 79)]"
    by code_simp
  then obtain f where f: "?r = Inr f" "map offsets (af_directives f) = [(14, 79)]"
    by (cases ?r) auto
  with lowered_spans_in_order [OF f(1)] show ?thesis by auto
qed

section \<open>Lines and columns\<close>

definition newlines :: "string \<Rightarrow> nat" where
  "newlines w = length (filter (\<lambda>c. c = CHR 0x0A) w)"

definition last_line :: "string \<Rightarrow> string" where
  "last_line w = rev (takeWhile (\<lambda>c. c \<noteq> CHR 0x0A) (rev w))"

lemma line_starts_append: "line_starts_from i (xs @ ys) = line_starts_from i xs @ line_starts_from (i + length xs) ys"
  by (induction xs arbitrary: i) auto

lemma line_starts_range: "n \<in> set (line_starts_from i xs) \<Longrightarrow> i < n \<and> n \<le> i + length xs"
  by (induction xs arbitrary: i) (fastforce split: if_splits)+

lemma length_line_starts: "length (line_starts_from i xs) = newlines xs"
  by (induction xs arbitrary: i) (auto simp: newlines_def)

lemma drop_last_start: "drop (last (0 # line_starts_from 0 xs)) xs = last_line xs \<and> last (0 # line_starts_from 0 xs) \<le> length xs"
  by (induction xs rule: rev_induct) (auto simp: line_starts_append last_line_def)

lemma search_line:
  assumes "offset \<le> length src"
  shows "search_ints (compute_line_starts src) (offset + 1) = newlines (take offset src) + 1"
    and "compute_line_starts src ! newlines (take offset src) = last (0 # line_starts_from 0 (take offset src))"
proof -
  let ?xs = "take offset src"
  have split: "compute_line_starts src = (0 # line_starts_from 0 ?xs) @ line_starts_from offset (drop offset src)"
    using line_starts_append [of 0 ?xs "drop offset src"] assms by (simp add: compute_line_starts_def)
  have before: "\<forall>n \<in> set (0 # line_starts_from 0 ?xs). n < offset + 1"
    using line_starts_range [of _ 0 ?xs] assms by fastforce
  have "takeWhile (\<lambda>y. y < offset + 1) (line_starts_from offset (drop offset src)) = []"
    using line_starts_range [of _ offset "drop offset src"]
    by (cases "line_starts_from offset (drop offset src)") fastforce+
  with before show "search_ints (compute_line_starts src) (offset + 1) = newlines ?xs + 1"
    unfolding search_ints_def split by (subst takeWhile_append2) (auto simp: length_line_starts)
  have "length (line_starts_from 0 ?xs) = newlines ?xs" by (rule length_line_starts)
  then have "((0 # line_starts_from 0 ?xs) @ r) ! newlines ?xs = (0 # line_starts_from 0 ?xs) ! newlines ?xs"
    "last (0 # line_starts_from 0 ?xs) = (0 # line_starts_from 0 ?xs) ! newlines ?xs" for r
    using last_conv_nth [of "0 # line_starts_from 0 ?xs"] by (subst nth_append, simp_all)
  then show "compute_line_starts src ! newlines ?xs = last (0 # line_starts_from 0 ?xs)"
    unfolding split by (simp only:)
qed

text \<open>The position of an offset of the text: its line is one more than the newlines before it, its column
  one more than the characters (not the bytes) between the last of these and the offset.\<close>

theorem position_of_offset:
  assumes "offset \<le> length src" and "lw_source l = src" and "lw_line_starts l = compute_line_starts src"
  shows "pos_at l (int offset) =
    \<lparr>pos_filename = lw_filename l, pos_offset = int offset, pos_line = 1 + int (newlines (take offset src)),
     pos_column = 1 + int (rune_count (last_line (take offset src)))\<rparr>"
proof -
  have "slice src (compute_line_starts src ! newlines (take offset src)) offset = last_line (take offset src)"
    using drop_last_start [of "take offset src"] by (simp add: search_line [OF assms(1)] slice_def drop_take)
  moreover have "compute_line_starts src \<noteq> []" by (simp add: compute_line_starts_def)
  ultimately show ?thesis using search_line(1) [OF assms(1)] assms by (simp add: pos_at_def)
qed

theorem position_of_offset_witness:
  "pos_at (first_lowerer ''f'' ex_ledger) 21 =
    \<lparr>pos_filename = ''f'', pos_offset = 21, pos_line = 2, pos_column = 8\<rparr>"
proof -
  have "21 \<le> length ex_ledger" "newlines (take 21 ex_ledger) = 1" "rune_count (last_line (take 21 ex_ledger)) = 7"
    by code_simp+
  then show ?thesis
    using position_of_offset [of 21 ex_ledger "first_lowerer ''f'' ex_ledger"] by (simp add: first_lowerer_def)
qed

end
