(* ===== verification/Lowering_Values.thy ===== *)
theory Lowering_Values
  imports Lower Lexemes Grammar Gda
begin

text \<open>
  The values that tokens and expressions are given: dates against the calendar, and arithmetic against
  the rational numbers.
\<close>

section \<open>Dates\<close>

lemma time_parse_cases:
  assumes "length s = 10" and "all_digits (take 4 s @ take 2 (drop 5 s) @ drop 8 s)"
  shows "(\<exists>t. time_parse sep s = Inr t) \<longleftrightarrow> s ! 4 = sep \<and> s ! 7 = sep \<and>
    1 \<le> int (digits_value (take 2 (drop 5 s))) \<and> int (digits_value (take 2 (drop 5 s))) \<le> 12 \<and>
    1 \<le> int (digits_value (drop 8 s)) \<and>
    int (digits_value (drop 8 s)) \<le> days_in (int (digits_value (take 4 s))) (int (digits_value (take 2 (drop 5 s))))"
  using assms by (auto simp: time_parse_def Let_def)

lemma date_shaped_parts:
  assumes "length s = 10" and "date_shaped s"
  shows "all_digits (take 4 s @ take 2 (drop 5 s) @ drop 8 s)"
    and "CHR ''-'' \<in> set s \<longleftrightarrow> s ! 4 = CHR ''-'' \<or> s ! 7 = CHR ''-''"
    and "CHR ''/'' \<in> set s \<longleftrightarrow> s ! 4 = CHR ''/'' \<or> s ! 7 = CHR ''/''"
proof -
  obtain a0 a1 a2 a3 a4 a5 a6 a7 a8 a9 where s: "s = [a0, a1, a2, a3, a4, a5, a6, a7, a8, a9]"
    using assms(1) by (auto simp: length_Suc_conv numeral_eq_Suc)
  have d: "is_digit a0" "is_digit a1" "is_digit a2" "is_digit a3" "is_digit a5" "is_digit a6" "is_digit a8"
    "is_digit a9"
    using assms(2) by (simp_all add: date_shaped_def s)
  have digit: "c \<noteq> CHR ''-'' \<and> c \<noteq> CHR ''/''" if "is_digit c" for c
    using that by (auto simp: is_digit_def less_eq_char_def)
  show "all_digits (take 4 s @ take 2 (drop 5 s) @ drop 8 s)"
    using d by (simp add: s all_digits_def is_digit_def)
  show "CHR ''-'' \<in> set s \<longleftrightarrow> s ! 4 = CHR ''-'' \<or> s ! 7 = CHR ''-''"
    "CHR ''/'' \<in> set s \<longleftrightarrow> s ! 4 = CHR ''/'' \<or> s ! 7 = CHR ''/''"
    using d [THEN digit] by (auto simp: s)
qed

definition date_exists :: "string \<Rightarrow> bool" where
  "date_exists s \<longleftrightarrow>
     (let y = int (digits_value (take 4 s)); m = int (digits_value (take 2 (drop 5 s))); d = int (digits_value (drop 8 s))
      in 1 \<le> m \<and> m \<le> 12 \<and> 1 \<le> d \<and> d \<le> days_in y m)"

text \<open>C28 A date token denotes a date exactly when its two separators are the same and the calendar has the
  day; it is then the day that is written, and formatting it gives the token back, with dashes.\<close>

theorem date_of_token:
  assumes "lexed U t" and "tok_kind t = DATE"
  shows "((\<exists>d. parse_date U t = Inr d) \<longleftrightarrow> tok_raw t ! 4 = tok_raw t ! 7 \<and> date_exists (tok_raw t)) \<and>
    (\<forall>d. parse_date U t = Inr d \<longrightarrow> format_date d = (tok_raw t)[4 := CHR ''-'', 7 := CHR ''-''])"
proof -
  have s: "length (tok_raw t) = 10" "date_shaped (tok_raw t)" using assms by (simp_all add: lexed_def)
  note parts = date_shaped_parts [OF s]
  have seps: "tok_raw t ! 4 = CHR ''-'' \<or> tok_raw t ! 4 = CHR ''/''" "tok_raw t ! 7 = CHR ''-'' \<or> tok_raw t ! 7 = CHR ''/''"
    using s(2) by (simp_all add: date_shaped_def)
  note cases = time_parse_cases [OF s(1) parts(1)]
  have "(\<exists>d. parse_date U t = Inr d) \<longleftrightarrow> tok_raw t ! 4 = tok_raw t ! 7 \<and> date_exists (tok_raw t)"
    using seps cases [of "CHR ''-''"] cases [of "CHR ''/''"]
    by (auto simp: parse_date_def Let_def parts date_exists_def)
  moreover have "format_date d = (tok_raw t)[4 := CHR ''-'', 7 := CHR ''-'']" if "parse_date U t = Inr d" for d
    using that by (auto simp: parse_date_def Let_def split: if_splits intro: time_parse_format)
  ultimately show ?thesis by blast
qed

theorem date_of_token_witness:
  "(\<exists>d. parse_date (\<lambda>_. []) (mk_token DATE 0 ''2024/02/29'') = Inr d \<and> format_date d = ''2024-02-29'') \<and>
   (\<nexists>d. parse_date (\<lambda>_. []) (mk_token DATE 0 ''2023/02/29'') = Inr d)"
proof -
  have l: "lexed (\<lambda>_. []) (mk_token DATE 0 ''2024/02/29'')" "lexed (\<lambda>_. []) (mk_token DATE 0 ''2023/02/29'')"
    by (simp_all add: lexed_def mk_token_def date_shaped_def is_digit_def)
  have "date_exists ''2024/02/29''" "\<not> date_exists ''2023/02/29''" by code_simp+
  then show ?thesis
    using date_of_token [OF l(1)] date_of_token [OF l(2)] by (auto simp: mk_token_def)
qed

section \<open>Arithmetic\<close>





lemma diag_message_mk [simp]: "diag_message (mk_diag c s m) = m"
  by (simp add: mk_diag_def)










end
