(* ===== verification/Std_Accounts.thy ===== *)
theory Std_Accounts
  imports Loader "HOL-Library.AList"
begin

text \<open>
  The plugins of \<open>pkg/ext/postproc/std\<close> that look at accounts: \<open>autoaccounts\<close>, \<open>closetree\<close>, \<open>nounused\<close>,
  \<open>leafonly\<close> and \<open>checkdrained\<close>. A Go map is an association list in the order of insertion, a set of
  keys a list without repetitions; what the code sorts after ranging over a map is sorted here.
\<close>

section \<open>Common pieces\<close>

definition no_change :: plugin_result where
  "no_change = \<lparr>res_directives = None, res_diags = []\<rparr>"

definition only_diags :: "diagnostic list \<Rightarrow> plugin_result" where
  "only_diags ds = \<lparr>res_directives = None, res_diags = ds\<rparr>"

definition replaced :: "directive list \<Rightarrow> plugin_result" where
  "replaced ds = \<lparr>res_directives = Some ds, res_diags = []\<rparr>"

definition trigger_span :: "plugin_dir option \<Rightarrow> span" where
  "trigger_span p = (case p of None \<Rightarrow> zero_span | Some d \<Rightarrow> plg_span d)"

text \<open>The span of a directive if it has one, else that of the plugin directive.\<close>

definition span_or_trigger :: "span option \<Rightarrow> plugin_dir option \<Rightarrow> span" where
  "span_or_trigger s trigger =
     (case s of Some sp \<Rightarrow> if sp \<noteq> zero_span then sp else trigger_span trigger | None \<Rightarrow> trigger_span trigger)"

definition add_ref :: "account list \<Rightarrow> account \<Rightarrow> account list" where
  "add_ref set_of a = (if a = [] then set_of else List.insert a set_of)"

text \<open>The first \<open>open\<close> of every account.\<close>

definition record_open :: "open_dir \<Rightarrow> (account \<times> open_dir) list \<Rightarrow> (account \<times> open_dir) list" where
  "record_open d opens =
     (case map_of opens (open_account d) of None \<Rightarrow> AList.update (open_account d) d opens | Some _ \<Rightarrow> opens)"

definition sorted_keys :: "('k::linorder \<times> 'v) list \<Rightarrow> 'k list" where
  "sorted_keys al = sort (map fst al)"

section \<open>Opening accounts on their first use\<close>

definition record_use :: "(account \<times> time) list \<Rightarrow> account \<Rightarrow> time \<Rightarrow> (account \<times> time) list" where
  "record_use first_use acct date =
     (if acct = [] then first_use
      else case map_of first_use acct of
        Some prev \<Rightarrow> if \<not> date < prev then first_use else AList.update acct date first_use
      | None \<Rightarrow> AList.update acct date first_use)"

definition visit_uses ::
  "directive \<Rightarrow> account list \<times> (account \<times> time) list \<Rightarrow> account list \<times> (account \<times> time) list" where
  "visit_uses d s =
     (case s of (opened, uses) \<Rightarrow>
      (case d of
         DOpen x \<Rightarrow> (List.insert (open_account x) opened, record_use uses (open_account x) (open_date x))
       | DClose x \<Rightarrow> (opened, record_use uses (close_account x) (close_date x))
       | DBalance x \<Rightarrow> (opened, record_use uses (bal_account x) (bal_date x))
       | DPad x \<Rightarrow> (opened, record_use (record_use uses (pad_account x) (pad_date x)) (pad_source x) (pad_date x))
       | DNote x \<Rightarrow> (opened, record_use uses (note_account x) (note_date x))
       | DDocument x \<Rightarrow> (opened, record_use uses (doc_account x) (doc_date x))
       | DTransaction x \<Rightarrow>
           (opened, foldl (\<lambda>u p. record_use u (p_account p) (txn_date x)) uses (txn_postings x))
       | _ \<Rightarrow> (opened, uses)))"

definition synthesized_open :: "account \<Rightarrow> time \<Rightarrow> directive" where
  "synthesized_open a date = DOpen
     \<lparr>open_span = zero_span, open_date = date, open_account = a, open_currencies = [],
      open_booking = BookingDefault, open_meta = Map.empty\<rparr>"

definition auto_accounts :: plugin where
  "auto_accounts inp =
     (case in_directives inp of
        None \<Rightarrow> Inr no_change
      | Some ds \<Rightarrow>
          (case fold visit_uses ds ([], []) of (opened, uses) \<Rightarrow>
             let missing = filter (\<lambda>a. a \<notin> set opened) (sorted_keys uses) in
             if missing = [] then Inr no_change
             else Inr (replaced (map (\<lambda>a. synthesized_open a (the (map_of uses a))) missing @ ds))))"

section \<open>Closing the accounts below a closed one\<close>

definition below_closed :: "close_dir \<Rightarrow> (account \<times> open_dir) list \<Rightarrow> account list \<Rightarrow> account list" where
  "below_closed c opened shut =
     filter (\<lambda>a. a \<notin> set shut \<and> is_ancestor_of (close_account c) a \<and>
         \<not> close_date c < open_date (the (map_of opened a)))
       (sorted_keys opened)"

definition synthesized_close :: "close_dir \<Rightarrow> account \<Rightarrow> directive" where
  "synthesized_close c a = DClose
     \<lparr>close_span = close_span c, close_date = close_date c, close_account = a, close_meta = Map.empty\<rparr>"

text \<open>The output and whether a \<open>close\<close> was added.\<close>

fun close_loop ::
  "directive list \<Rightarrow> (account \<times> open_dir) list \<Rightarrow> account list \<Rightarrow> directive list \<times> bool" where
  "close_loop [] opened shut = ([], False)"
| "close_loop (d # ds) opened shut =
     (case d of
        DOpen x \<Rightarrow> (case close_loop ds (record_open x opened) shut of (out, extra) \<Rightarrow> (d # out, extra))
      | DClose c \<Rightarrow>
          (let shut = List.insert (close_account c) shut;
               subs = below_closed c opened shut in
           case close_loop ds opened (fold List.insert subs shut) of (out, extra) \<Rightarrow>
             (d # map (synthesized_close c) subs @ out, subs \<noteq> [] \<or> extra))
      | _ \<Rightarrow> (case close_loop ds opened shut of (out, extra) \<Rightarrow> (d # out, extra)))"

definition close_tree :: plugin where
  "close_tree inp =
     (case in_directives inp of
        None \<Rightarrow> Inr no_change
      | Some ds \<Rightarrow>
          if ds = [] then Inr no_change
          else (case close_loop ds [] [] of (out, synthesized) \<Rightarrow>
            if \<not> synthesized then Inr no_change else Inr (replaced out)))"

section \<open>Unused accounts\<close>

definition unused_step ::
  "directive \<Rightarrow> (account \<times> open_dir) list \<times> account list \<Rightarrow> (account \<times> open_dir) list \<times> account list" where
  "unused_step d s =
     (case s of (opens, refs) \<Rightarrow>
      (case d of
         DOpen x \<Rightarrow> (record_open x opens, refs)
       | DClose x \<Rightarrow> (opens, add_ref refs (close_account x))
       | DBalance x \<Rightarrow> (opens, add_ref refs (bal_account x))
       | DNote x \<Rightarrow> (opens, add_ref refs (note_account x))
       | DDocument x \<Rightarrow> (opens, add_ref refs (doc_account x))
       | DPad x \<Rightarrow> (opens, add_ref (add_ref refs (pad_account x)) (pad_source x))
       | DTransaction x \<Rightarrow> (opens, foldl (\<lambda>r p. add_ref r (p_account p)) refs (txn_postings x))
       | _ \<Rightarrow> (opens, refs)))"

definition no_unused :: plugin where
  "no_unused inp =
     (case in_directives inp of
        None \<Rightarrow> Inr no_change
      | Some ds \<Rightarrow>
          (case fold unused_step ds ([], []) of (opens, refs) \<Rightarrow>
             Inr (only_diags (map (\<lambda>a. mk_diag ''unused-account''
                 (span_or_trigger (map_option open_span (map_of opens a)) (in_directive inp))
                 (''Unused account '' @ [CHR 0x27] @ a @ [CHR 0x27]))
               (filter (\<lambda>a. a \<notin> set refs) (sorted_keys opens))))))"

section \<open>Postings on accounts that are not leaves\<close>

definition leaf_refs :: "directive \<Rightarrow> account list \<Rightarrow> account list" where
  "leaf_refs d refs =
     (case d of
        DOpen x \<Rightarrow> add_ref refs (open_account x)
      | DClose x \<Rightarrow> add_ref refs (close_account x)
      | DBalance x \<Rightarrow> add_ref refs (bal_account x)
      | DPad x \<Rightarrow> add_ref (add_ref refs (pad_account x)) (pad_source x)
      | DNote x \<Rightarrow> add_ref refs (note_account x)
      | DDocument x \<Rightarrow> add_ref refs (doc_account x)
      | DTransaction x \<Rightarrow> foldl (\<lambda>r p. add_ref r (p_account p)) refs (txn_postings x)
      | DCustom x \<Rightarrow> foldl (\<lambda>r v. if mv_kind v = MetaAccount then add_ref r (mv_string v) else r) refs (cus_values x)
      | _ \<Rightarrow> refs)"

lemma acct_parent_shorter: "acct_parent a \<noteq> [] \<Longrightarrow> length (acct_parent a) < length a"
proof -
  have last_index: "last_index_byte xs c = Some i \<Longrightarrow> i < length xs" for xs c i
    by (induction xs arbitrary: i) (auto split: option.splits if_splits)
  show "acct_parent a \<noteq> [] \<Longrightarrow> length (acct_parent a) < length a"
    using last_index [of a "CHR '':''"] by (auto simp: acct_parent_def split: if_splits option.splits)
qed

function acct_above :: "account \<Rightarrow> account list" where
  "acct_above a = (if acct_parent a = [] then [] else acct_parent a # acct_above (acct_parent a))"
  by pat_completeness auto
termination acct_above
  by (relation "measure length") (simp_all add: acct_parent_shorter)

declare acct_above.simps [simp del]

definition non_leaves :: "account list \<Rightarrow> account list" where
  "non_leaves refs = filter (\<lambda>p. p \<in> set refs) (concat (map acct_above refs))"

definition leaf_diag :: "posting \<Rightarrow> transaction \<Rightarrow> plugin_dir option \<Rightarrow> diagnostic" where
  "leaf_diag p t trigger = mk_diag ''non-leaf-account''
     (if p_span p \<noteq> zero_span then p_span p
      else if txn_span t \<noteq> zero_span then txn_span t else trigger_span trigger)
     (''Non-leaf account '' @ [CHR 0x27] @ p_account p @ [CHR 0x27] @ '' has postings on it'')"

fun transactions_in :: "directive list \<Rightarrow> transaction list" where
  "transactions_in [] = []"
| "transactions_in (d # ds) = (case d of DTransaction t \<Rightarrow> t # transactions_in ds | _ \<Rightarrow> transactions_in ds)"

definition leaf_only :: plugin where
  "leaf_only inp =
     (case in_directives inp of
        None \<Rightarrow> Inr no_change
      | Some ds \<Rightarrow>
          let refs = fold leaf_refs ds []; bad = non_leaves refs in
          Inr (only_diags (concat (map (\<lambda>t. map (\<lambda>p. leaf_diag p t (in_directive inp))
            (filter (\<lambda>p. p_account p \<in> set bad) (txn_postings t))) (transactions_in ds)))))"

section \<open>Drained accounts\<close>

definition is_balance_sheet :: "account \<Rightarrow> bool" where
  "is_balance_sheet a \<longleftrightarrow> acct_root a \<in> {''Assets'', ''Liabilities'', ''Equity''}"

definition add_to :: "'k \<Rightarrow> 'v \<Rightarrow> ('k \<times> 'v list) list \<Rightarrow> ('k \<times> 'v list) list" where
  "add_to k v m = AList.update k (List.insert v (case map_of m k of None \<Rightarrow> [] | Some vs \<Rightarrow> vs)) m"

type_synonym drained = "(account \<times> currency list) list \<times> (account \<times> (time \<times> currency) list) list"

definition drained_step :: "directive \<Rightarrow> drained \<Rightarrow> drained" where
  "drained_step d s =
     (case s of (currencies, balances) \<Rightarrow>
      (case d of
         DTransaction t \<Rightarrow> (foldl (\<lambda>m p. case p_amount p of
             None \<Rightarrow> m
           | Some a \<Rightarrow> if is_balance_sheet (p_account p) then add_to (p_account p) (amt_currency a) m else m)
             currencies (txn_postings t), balances)
       | DOpen x \<Rightarrow>
           (if \<not> is_balance_sheet (open_account x) then currencies
            else foldl (\<lambda>m c. add_to (open_account x) c m) currencies (open_currencies x), balances)
       | DBalance x \<Rightarrow>
           (currencies, if \<not> is_balance_sheet (bal_account x) then balances
            else add_to (bal_account x) (bal_date x, amt_currency (bal_amount x)) balances)
       | _ \<Rightarrow> (currencies, balances)))"

definition zero_balance :: "close_dir \<Rightarrow> currency \<Rightarrow> directive" where
  "zero_balance c cur = DBalance
     \<lparr>bal_span = close_span c, bal_date = close_date c + 1, bal_account = close_account c,
      bal_amount = \<lparr>amt_number = dzero, amt_currency = cur\<rparr>, bal_tolerance = None,
      bal_meta = close_meta c, bal_diff = None\<rparr>"

definition synthesize_balances :: "drained \<Rightarrow> close_dir \<Rightarrow> directive list" where
  "synthesize_balances s c =
     (case s of (currencies, balances) \<Rightarrow>
      let curs = (case map_of currencies (close_account c) of None \<Rightarrow> [] | Some cs \<Rightarrow> cs);
          known = (case map_of balances (close_account c) of None \<Rightarrow> [] | Some ks \<Rightarrow> ks)
      in map (zero_balance c) (filter (\<lambda>cur. (close_date c, cur) \<notin> set known) (sort curs)))"

definition check_drained :: plugin where
  "check_drained inp =
     (case in_directives inp of
        None \<Rightarrow> Inr no_change
      | Some ds \<Rightarrow>
          let s = fold drained_step ds ([], []) in
          Inr (replaced (concat (map (\<lambda>d. case d of
              DClose c \<Rightarrow> if is_balance_sheet (close_account c) then synthesize_balances s c @ [d] else [d]
            | _ \<Rightarrow> [d]) ds))))"

end
