(* ===== verification/Std_Checks.thy ===== *)
theory Std_Checks
  imports Std_Accounts Lower "HOL-Library.Product_Lexorder"
begin

text \<open>
  The plugins of \<open>pkg/ext/postproc/std\<close> that look at prices, costs, commodities and transactions:
  \<open>implicitprices\<close>, \<open>uniqueprices\<close>, \<open>noduplicates\<close>, \<open>coherentcost\<close>, \<open>onecommodity\<close>, \<open>checkcommodity\<close>,
  \<open>excludetag\<close> and \<open>checkclosing\<close>. The text of a decimal in the format \<open>'G'\<close> is the argument \<open>G\<close>;
  \<open>regexp.Compile\<close> is \<open>R\<close>, from a pattern to an error or the matcher; \<open>json.Unmarshal\<close> into a map of
  strings is \<open>J\<close>, to an error or the pairs of the map.
\<close>

type_synonym decimal_text = "decimal \<Rightarrow> string"
type_synonym regexps = "string \<Rightarrow> string + (string \<Rightarrow> bool)"
type_synonym json_maps = "string \<Rightarrow> string + (string \<times> string) list"

section \<open>Prices from postings\<close>

definition price_error :: "transaction \<Rightarrow> string \<Rightarrow> diagnostic" where
  "price_error t msg = mk_diag ''implicit-price-error'' (txn_span t) msg"

definition per_unit_number ::
  "apd \<Rightarrow> decimal \<Rightarrow> decimal \<Rightarrow> bool \<Rightarrow> transaction \<Rightarrow> string \<Rightarrow> diagnostic + decimal option" where
  "per_unit_number A num units is_total t source =
     (if \<not> is_total then Inr (Some num)
      else if apd_sign A units = 0 then Inr None
      else case apd_abs A units of
        Inl e \<Rightarrow> Inl (price_error t (''abs of units in '' @ source @ '' annotation: '' @ e))
      | Inr abs_units \<Rightarrow>
          (case apd_quo A quo_precision num abs_units of
             Inl e \<Rightarrow> Inl (price_error t (''divide total '' @ source @ '' by units: '' @ e))
           | Inr (q, _) \<Rightarrow> Inr (Some q)))"

definition price_of :: "transaction \<Rightarrow> currency \<Rightarrow> amount \<Rightarrow> price_dir" where
  "price_of t commodity amt =
     \<lparr>prc_span = txn_span t, prc_date = txn_date t, prc_commodity = commodity, prc_amount = amt,
      prc_meta = Map.empty\<rparr>"

definition build_price :: "apd \<Rightarrow> transaction \<Rightarrow> posting \<Rightarrow> diagnostic + price_dir option" where
  "build_price A t p =
     (case p_amount p of
        None \<Rightarrow> Inr None
      | Some amt \<Rightarrow>
        if amt_currency amt = [] then Inr None
        else case p_price p of
          Some pr \<Rightarrow>
            if amt_currency (pa_amount pr) = [] then Inr None
            else (case per_unit_number A (amt_number (pa_amount pr)) (amt_number amt) (pa_is_total pr) t ''price'' of
              Inl d \<Rightarrow> Inl d
            | Inr None \<Rightarrow> Inr None
            | Inr (Some num) \<Rightarrow> Inr (Some (price_of t (amt_currency amt)
                \<lparr>amt_number = num, amt_currency = amt_currency (pa_amount pr)\<rparr>)))
        | None \<Rightarrow>
          (case p_cost p of
             None \<Rightarrow> Inr None
           | Some h \<Rightarrow>
             if \<not> is_booked h \<and> get_total h \<noteq> None \<and> apd_sign A (amt_number amt) = 0 then Inr None
             else (case posting_per_unit_cost A (Some p) of
               Inl e \<Rightarrow> Inl (price_error t (''derive per-unit cost: '' @ err_text e))
             | Inr None \<Rightarrow> Inr None
             | Inr (Some c) \<Rightarrow> Inr (Some (price_of t (amt_currency amt) c)))))"

type_synonym price_key = "string \<times> currency \<times> currency \<times> string"

definition price_dedup_key :: "decimal_text \<Rightarrow> price_dir \<Rightarrow> price_key" where
  "price_dedup_key G p =
     (format_date (prc_date p), prc_commodity p, amt_currency (prc_amount p), G (amt_number (prc_amount p)))"

fun price_postings ::
  "decimal_text \<Rightarrow> apd \<Rightarrow> transaction \<Rightarrow> posting list \<Rightarrow> price_key list \<Rightarrow>
     directive list \<times> diagnostic list \<times> price_key list" where
  "price_postings G A t [] seen = ([], [], seen)"
| "price_postings G A t (p # ps) seen =
     (case build_price A t p of
        Inl d \<Rightarrow> (case price_postings G A t ps seen of (out, diags, s) \<Rightarrow> (out, d # diags, s))
      | Inr None \<Rightarrow> price_postings G A t ps seen
      | Inr (Some pe) \<Rightarrow>
          if price_dedup_key G pe \<in> set seen then price_postings G A t ps seen
          else (case price_postings G A t ps (price_dedup_key G pe # seen) of
            (out, diags, s) \<Rightarrow> (DPrice pe # out, diags, s)))"

fun price_loop ::
  "decimal_text \<Rightarrow> apd \<Rightarrow> directive list \<Rightarrow> price_key list \<Rightarrow> directive list \<times> diagnostic list" where
  "price_loop G A [] seen = ([], [])"
| "price_loop G A (d # ds) seen =
     (case d of
        DTransaction t \<Rightarrow>
          (case price_postings G A t (txn_postings t) seen of (new, diags, seen) \<Rightarrow>
           case price_loop G A ds seen of (out, rest) \<Rightarrow> (d # new @ out, diags @ rest))
      | _ \<Rightarrow> (case price_loop G A ds seen of (out, rest) \<Rightarrow> (d # out, rest)))"

definition implicit_prices :: "decimal_text \<Rightarrow> apd \<Rightarrow> plugin" where
  "implicit_prices G A inp =
     (case in_directives inp of
        None \<Rightarrow> Inr no_change
      | Some ds \<Rightarrow>
          if ds = [] then Inr no_change
          else (case price_loop G A ds [] of (out, diags) \<Rightarrow>
            Inr \<lparr>res_directives = Some out, res_diags = diags\<rparr>))"

section \<open>Prices that disagree\<close>

definition unique_price_key :: "price_dir \<Rightarrow> string \<times> currency \<times> currency" where
  "unique_price_key p = (format_date (prc_date p), prc_commodity p, amt_currency (prc_amount p))"

definition price_disagrees :: "decimal_text \<Rightarrow> price_dir \<Rightarrow> price_dir \<Rightarrow> plugin_dir option \<Rightarrow> diagnostic" where
  "price_disagrees G first p trigger = mk_diag ''duplicate-price'' (span_or_trigger (Some (prc_span p)) trigger)
     (''Disagreeing price for '' @ prc_commodity p @ ''/'' @ amt_currency (prc_amount p) @ '' on '' @
      format_date (prc_date p) @ '': '' @ G (amt_number (prc_amount first)) @ '' vs '' @
      G (amt_number (prc_amount p)))"

fun unique_loop ::
  "decimal_text \<Rightarrow> apd \<Rightarrow> plugin_dir option \<Rightarrow> directive list \<Rightarrow>
     ((string \<times> currency \<times> currency) \<times> price_dir) list \<Rightarrow> diagnostic list" where
  "unique_loop G A trigger [] firsts = []"
| "unique_loop G A trigger (d # ds) firsts =
     (case d of
        DPrice p \<Rightarrow>
          (case map_of firsts (unique_price_key p) of
             None \<Rightarrow> unique_loop G A trigger ds (AList.update (unique_price_key p) p firsts)
           | Some first \<Rightarrow>
               if apd_cmp A (amt_number (prc_amount first)) (amt_number (prc_amount p)) = 0
               then unique_loop G A trigger ds firsts
               else price_disagrees G first p trigger # unique_loop G A trigger ds firsts)
      | _ \<Rightarrow> unique_loop G A trigger ds firsts)"

definition unique_prices :: "decimal_text \<Rightarrow> apd \<Rightarrow> plugin" where
  "unique_prices G A inp =
     (case in_directives inp of
        None \<Rightarrow> Inr no_change
      | Some ds \<Rightarrow> Inr (only_diags (unique_loop G A (in_directive inp) ds [])))"

section \<open>Transactions that are there twice\<close>

definition posting_tuple :: "decimal_text \<Rightarrow> posting \<Rightarrow> string" where
  "posting_tuple G p =
     (case p_amount p of
        None \<Rightarrow> p_account p @ ''||''
      | Some a \<Rightarrow> p_account p @ ''|'' @ G (amt_number a) @ ''|'' @ amt_currency a)"

definition similarity_key :: "decimal_text \<Rightarrow> transaction \<Rightarrow> string" where
  "similarity_key G t =
     format_date (txn_date t) @ [CHR 0x0A] @
     join_with [CHR 0x0A] (sort (map (posting_tuple G) (txn_postings t)))"

definition duplicate_diag :: "transaction \<Rightarrow> plugin_dir option \<Rightarrow> diagnostic" where
  "duplicate_diag t trigger = mk_diag ''duplicate-transaction'' (span_or_trigger (Some (txn_span t)) trigger)
     (''Duplicate transaction on '' @ format_date (txn_date t) @ '': same postings as earlier entry'')"

fun duplicate_loop ::
  "decimal_text \<Rightarrow> plugin_dir option \<Rightarrow> transaction list \<Rightarrow> string list \<Rightarrow> diagnostic list" where
  "duplicate_loop G trigger [] firsts = []"
| "duplicate_loop G trigger (t # ts) firsts =
     (if similarity_key G t \<notin> set firsts then duplicate_loop G trigger ts (similarity_key G t # firsts)
      else duplicate_diag t trigger # duplicate_loop G trigger ts firsts)"

definition no_duplicates :: "decimal_text \<Rightarrow> plugin" where
  "no_duplicates G inp =
     (case in_directives inp of
        None \<Rightarrow> Inr no_change
      | Some ds \<Rightarrow> Inr (only_diags (duplicate_loop G (in_directive inp) (transactions_in ds) [])))"

section \<open>Commodities held with and without cost\<close>

type_synonym cost_seen =
  "(account \<times> currency) list \<times> (account \<times> currency) list \<times> (account \<times> open_dir) list"

definition coherent_step :: "directive \<Rightarrow> cost_seen \<Rightarrow> cost_seen" where
  "coherent_step d s =
     (case s of (with_cost, without_cost, opens) \<Rightarrow>
      (case d of
         DOpen x \<Rightarrow> (with_cost, without_cost, record_open x opens)
       | DTransaction t \<Rightarrow>
           (foldl (\<lambda>s p. case p_amount p of Some a \<Rightarrow>
                if p_cost p \<noteq> None then List.insert (p_account p, amt_currency a) s else s | None \<Rightarrow> s)
              with_cost (txn_postings t),
            foldl (\<lambda>s p. case p_amount p of Some a \<Rightarrow>
                if p_cost p = None then List.insert (p_account p, amt_currency a) s else s | None \<Rightarrow> s)
              without_cost (txn_postings t),
            opens)
       | _ \<Rightarrow> (with_cost, without_cost, opens)))"

definition incoherent :: "account \<times> currency \<Rightarrow> (account \<times> open_dir) list \<Rightarrow> plugin_dir option \<Rightarrow> diagnostic" where
  "incoherent k opens trigger = mk_diag ''incoherent-cost''
     (span_or_trigger (map_option open_span (map_of opens (fst k))) trigger)
     (''Account '' @ [CHR 0x27] @ fst k @ [CHR 0x27] @ '' holds '' @ [CHR 0x27] @ snd k @ [CHR 0x27] @
      '' both with and without a cost'')"

definition coherent_cost :: plugin where
  "coherent_cost inp =
     (case in_directives inp of
        None \<Rightarrow> Inr no_change
      | Some ds \<Rightarrow>
          (case fold coherent_step ds ([], [], []) of (with_cost, without_cost, opens) \<Rightarrow>
             Inr (only_diags (map (\<lambda>k. incoherent k opens (in_directive inp))
               (sort (filter (\<lambda>k. k \<in> set without_cost) with_cost))))))"

section \<open>Accounts with more than one commodity\<close>

text \<open>\<open>strings.EqualFold\<close> with a lower-case ASCII word: besides the upper-case letters only the long s
  and the Kelvin sign fold to a letter of ASCII.\<close>

definition fold_rune :: "nat \<Rightarrow> nat" where
  "fold_rune r =
     (if 65 \<le> r \<and> r \<le> 90 then r + 32 else if r = 0x17F then 115 else if r = 0x212A then 107 else r)"

definition equal_fold :: "string \<Rightarrow> string \<Rightarrow> bool" where
  "equal_fold s w \<longleftrightarrow> map (\<lambda>x. fold_rune (snd x)) (runes 0 s) = map (\<lambda>x. fold_rune (snd x)) (runes 0 w)"

definition opted_in :: "metadata \<Rightarrow> bool" where
  "opted_in meta =
     (case meta ''onecommodity'' of
        None \<Rightarrow> True
      | Some v \<Rightarrow>
          (case mv_kind v of
             MetaBool \<Rightarrow> mv_bool v
           | MetaString \<Rightarrow> \<not> equal_fold (mv_string v) ''false''
           | _ \<Rightarrow> True))"

definition anchored :: "string \<Rightarrow> string" where
  "anchored pat = [CHR 0x5C] @ ''A(?:'' @ pat @ '')''"

definition compile_filter ::
  "unicode \<Rightarrow> regexps \<Rightarrow> string \<Rightarrow> plugin_dir option \<Rightarrow> (string \<Rightarrow> bool) option \<times> diagnostic list" where
  "compile_filter U R cfg trigger =
     (if cfg = [] then (None, [])
      else case R (anchored cfg) of
        Inl e \<Rightarrow> (None, [mk_diag ''invalid-regexp'' (trigger_span trigger)
          (''invalid onecommodity account regexp '' @ quote_text U cfg @ '': '' @ e)])
      | Inr m \<Rightarrow> (Some m, []))"

definition skipped :: "(string \<Rightarrow> bool) option \<Rightarrow> open_dir \<Rightarrow> bool" where
  "skipped re o' \<longleftrightarrow> \<not> opted_in (open_meta o') \<or> 1 < length (open_currencies o') \<or>
     (case re of None \<Rightarrow> False | Some m \<Rightarrow> \<not> m (open_account o'))"

type_synonym currency_sets = "(account \<times> currency list) list"

definition observe ::
  "(string \<Rightarrow> bool) option \<Rightarrow> (account \<times> open_dir) list \<Rightarrow> account \<Rightarrow> currency \<Rightarrow> currency_sets \<Rightarrow> currency_sets" where
  "observe re opens a cur s =
     (if cur = [] then s
      else case map_of opens a of
        None \<Rightarrow> (case re of None \<Rightarrow> add_to a cur s | Some m \<Rightarrow> if \<not> m a then s else add_to a cur s)
      | Some o' \<Rightarrow> if skipped re o' then s else add_to a cur s)"

definition observe_amount ::
  "(string \<Rightarrow> bool) option \<Rightarrow> (account \<times> open_dir) list \<Rightarrow> account \<Rightarrow> amount option \<Rightarrow> currency_sets \<Rightarrow> currency_sets" where
  "observe_amount re opens a amt s =
     (case amt of None \<Rightarrow> s | Some x \<Rightarrow> observe re opens a (amt_currency x) s)"

definition commodity_step ::
  "(string \<Rightarrow> bool) option \<Rightarrow> (account \<times> open_dir) list \<Rightarrow> directive \<Rightarrow> currency_sets \<times> currency_sets \<Rightarrow>
     currency_sets \<times> currency_sets" where
  "commodity_step re opens d s =
     (case s of (units, costs) \<Rightarrow>
      (case d of
         DTransaction t \<Rightarrow>
           (foldl (\<lambda>s p. observe_amount re opens (p_account p) (p_amount p) s) units (txn_postings t),
            foldl (\<lambda>s p. case p_cost p of None \<Rightarrow> s
              | Some h \<Rightarrow> observe_amount re opens (p_account p) (get_total h)
                  (observe_amount re opens (p_account p) (get_per_unit h) s)) costs (txn_postings t))
       | DBalance b \<Rightarrow> (observe re opens (bal_account b) (amt_currency (bal_amount b)) units, costs)
       | _ \<Rightarrow> (units, costs)))"

definition many_commodities ::
  "currency_sets \<Rightarrow> (account \<times> open_dir) list \<Rightarrow> plugin_dir option \<Rightarrow> string \<Rightarrow> diagnostic list" where
  "many_commodities s opens trigger prefix =
     map (\<lambda>a. mk_diag ''multi-commodity-account''
         (span_or_trigger (map_option open_span (map_of opens a)) trigger)
         (prefix @ '' '' @ [CHR 0x27] @ a @ [CHR 0x27] @ '': '' @ join_with '','' (sort (the (map_of s a)))))
       (filter (\<lambda>a. 1 < length (the (map_of s a))) (sorted_keys s))"

definition one_commodity :: "unicode \<Rightarrow> regexps \<Rightarrow> plugin" where
  "one_commodity U R inp =
     (case compile_filter U R (in_config inp) (in_directive inp) of (re, errs) \<Rightarrow>
      (case in_directives inp of
         None \<Rightarrow> Inr (only_diags errs)
       | Some ds \<Rightarrow>
           let opens = fold (\<lambda>d s. case d of DOpen x \<Rightarrow> record_open x s | _ \<Rightarrow> s) ds [] in
           (case fold (commodity_step re opens) ds ([], []) of (units, costs) \<Rightarrow>
              Inr (only_diags (errs @
                many_commodities units opens (in_directive inp) ''More than one currency in account'' @
                many_commodities costs opens (in_directive inp) ''More than one cost currency in account'')))))"

section \<open>Undeclared commodities\<close>

type_synonym occurrence = "string \<times> currency"

definition price_context :: string where
  "price_context = ''Price Directive Context''"

definition posting_occurrences :: "posting \<Rightarrow> occurrence list" where
  "posting_occurrences p =
     map (Pair (p_account p))
       ((case p_amount p of None \<Rightarrow> [] | Some a \<Rightarrow> [amt_currency a]) @
        (case p_cost p of None \<Rightarrow> [] | Some h \<Rightarrow>
          (case get_per_unit h of None \<Rightarrow> [] | Some a \<Rightarrow> [amt_currency a]) @
          (case get_total h of None \<Rightarrow> [] | Some a \<Rightarrow> [amt_currency a])) @
        (case p_price p of None \<Rightarrow> [] | Some pr \<Rightarrow> [amt_currency (pa_amount pr)]))"

fun declared_commodities :: "directive \<Rightarrow> currency list" where
  "declared_commodities (DCommodity x) = [com_currency x]"
| "declared_commodities d = []"

fun account_occurrences :: "directive \<Rightarrow> occurrence list" where
  "account_occurrences (DOpen x) = map (Pair (open_account x)) (open_currencies x)"
| "account_occurrences (DTransaction t) = concat (map posting_occurrences (txn_postings t))"
| "account_occurrences (DBalance b) = [(bal_account b, amt_currency (bal_amount b))]"
| "account_occurrences d = []"

fun price_occurrences :: "directive \<Rightarrow> occurrence list" where
  "price_occurrences (DPrice p) = [(price_context, prc_commodity p), (price_context, amt_currency (prc_amount p))]"
| "price_occurrences d = []"

definition sort_occurrences :: "occurrence list \<Rightarrow> occurrence list" where
  "sort_occurrences occs = sort (remdups occs)"

type_synonym ignore_pairs = "((string \<Rightarrow> bool) \<times> (string \<Rightarrow> bool)) list"

fun compile_pairs ::
  "unicode \<Rightarrow> regexps \<Rightarrow> plugin_dir option \<Rightarrow> (string \<times> string) list \<Rightarrow> ignore_pairs \<times> diagnostic list" where
  "compile_pairs U R trigger [] = ([], [])"
| "compile_pairs U R trigger ((k, v) # kvs) =
     (case compile_pairs U R trigger kvs of (pairs, diags) \<Rightarrow>
      let bad = (case R (anchored k) of Inr _ \<Rightarrow> [] | Inl e \<Rightarrow> [mk_diag ''invalid-regexp'' (trigger_span trigger)
                  (''invalid account regexp '' @ quote_text U k @ '': '' @ e)]) @
                (case R (anchored v) of Inr _ \<Rightarrow> [] | Inl e \<Rightarrow> [mk_diag ''invalid-regexp'' (trigger_span trigger)
                  (''invalid currency regexp '' @ quote_text U v @ '': '' @ e)])
      in case (R (anchored k), R (anchored v)) of
           (Inr m, Inr n) \<Rightarrow> ((m, n) # pairs, bad @ diags)
         | _ \<Rightarrow> (pairs, bad @ diags))"

text \<open>None is the fatal result.\<close>

definition parse_ignores ::
  "unicode \<Rightarrow> regexps \<Rightarrow> json_maps \<Rightarrow> string \<Rightarrow> plugin_dir option \<Rightarrow> ignore_pairs option \<times> diagnostic list" where
  "parse_ignores U R J cfg trigger =
     (if cfg = [] then (Some [], [])
      else case J cfg of
        Inl e \<Rightarrow> (None, [mk_diag ''invalid-config'' (trigger_span trigger) (''invalid check_commodity config: '' @ e)])
      | Inr raw \<Rightarrow>
          (case compile_pairs U R trigger (map (\<lambda>k. (k, the (map_of raw k))) (sort (remdups (map fst raw)))) of
             (pairs, diags) \<Rightarrow> (Some pairs, diags)))"

definition matches_ignore :: "ignore_pairs \<Rightarrow> occurrence \<Rightarrow> bool" where
  "matches_ignore pairs occ \<longleftrightarrow> list_ex (\<lambda>(m, n). m (fst occ) \<and> n (snd occ)) pairs"

definition missing_commodity :: "unicode \<Rightarrow> occurrence \<Rightarrow> plugin_dir option \<Rightarrow> diagnostic" where
  "missing_commodity U occ trigger = mk_diag ''missing-commodity'' (trigger_span trigger)
     (''missing Commodity directive for '' @ quote_text U (snd occ) @ '' in '' @ quote_text U (fst occ))"

text \<open>The diagnosed occurrences; the currencies issued and ignored are the state.\<close>

fun missing_in_accounts ::
  "currency list \<Rightarrow> ignore_pairs \<Rightarrow> occurrence list \<Rightarrow> currency list \<Rightarrow> currency list \<Rightarrow>
     occurrence list \<times> currency list \<times> currency list" where
  "missing_in_accounts declared pairs [] issued ignored = ([], issued, ignored)"
| "missing_in_accounts declared pairs (occ # occs) issued ignored =
     (if snd occ \<in> set declared \<or> snd occ \<in> set issued
      then missing_in_accounts declared pairs occs issued ignored
      else if matches_ignore pairs occ
      then missing_in_accounts declared pairs occs issued (snd occ # ignored)
      else (case missing_in_accounts declared pairs occs (snd occ # issued) ignored of
        (out, s) \<Rightarrow> (occ # out, s)))"

fun missing_in_prices :: "currency list \<Rightarrow> occurrence list \<Rightarrow> currency list \<Rightarrow> currency list \<Rightarrow> occurrence list" where
  "missing_in_prices declared [] issued ignored = []"
| "missing_in_prices declared (occ # occs) issued ignored =
     (if snd occ \<in> set declared \<or> snd occ \<in> set issued \<or> snd occ \<in> set ignored
      then missing_in_prices declared occs issued ignored
      else occ # missing_in_prices declared occs (snd occ # issued) ignored)"

definition check_commodity :: "unicode \<Rightarrow> regexps \<Rightarrow> json_maps \<Rightarrow> plugin" where
  "check_commodity U R J inp =
     (case parse_ignores U R J (in_config inp) (in_directive inp) of
        (None, diags) \<Rightarrow> Inr (only_diags diags)
      | (Some pairs, diags) \<Rightarrow>
          (case in_directives inp of
             None \<Rightarrow> Inr (only_diags diags)
           | Some ds \<Rightarrow>
               let declared = concat (map declared_commodities ds) in
               (case missing_in_accounts declared pairs (sort_occurrences (concat (map account_occurrences ds))) [] [] of
                  (occs, issued, ignored) \<Rightarrow>
                    Inr (only_diags (diags @ map (\<lambda>o'. missing_commodity U o' (in_directive inp)) (occs @
                      missing_in_prices declared (sort_occurrences (concat (map price_occurrences ds))) issued ignored))))))"

section \<open>Leaving out tagged transactions\<close>

fun has_tag :: "directive \<Rightarrow> string \<Rightarrow> bool" where
  "has_tag (DTransaction t) tag = (tag \<in> set (txn_tags t))"
| "has_tag d tag = False"

definition exclude_tag :: plugin where
  "exclude_tag inp =
     (case in_directives inp of
        None \<Rightarrow> Inr no_change
      | Some ds \<Rightarrow>
          let tag = (if in_config inp = [] then ''virtual'' else in_config inp) in
          if filter (\<lambda>d. has_tag d tag) ds = [] then Inr no_change
          else Inr (replaced (filter (\<lambda>d. \<not> has_tag d tag) ds)))"

section \<open>Closing postings\<close>

definition is_closing :: "metadata \<Rightarrow> bool" where
  "is_closing meta =
     (case meta ''closing'' of
        None \<Rightarrow> False
      | Some v \<Rightarrow>
          (case mv_kind v of
             MetaBool \<Rightarrow> mv_bool v
           | MetaString \<Rightarrow> equal_fold (mv_string v) ''true''
           | _ \<Rightarrow> False))"

definition strip_closing :: "posting \<Rightarrow> posting" where
  "strip_closing p = p\<lparr>p_meta := (p_meta p)(''closing'' := None)\<rparr>"

definition closing_balance :: "transaction \<Rightarrow> posting \<Rightarrow> amount \<Rightarrow> directive" where
  "closing_balance t p amt = DBalance
     \<lparr>bal_span = txn_span t, bal_date = txn_date t + 1, bal_account = p_account p,
      bal_amount = \<lparr>amt_number = dzero, amt_currency = amt_currency amt\<rparr>, bal_tolerance = None,
      bal_meta = Map.empty, bal_diff = None\<rparr>"

text \<open>The posting as it is kept and the assertion it gives.\<close>

definition expand_posting :: "transaction \<Rightarrow> posting \<Rightarrow> posting \<times> directive list" where
  "expand_posting t p =
     (if \<not> is_closing (p_meta p) then (p, [])
      else case p_amount p of None \<Rightarrow> (p, []) | Some amt \<Rightarrow> (strip_closing p, [closing_balance t p amt]))"

definition expand_closing :: "transaction \<Rightarrow> transaction \<times> directive list" where
  "expand_closing t =
     (t\<lparr>txn_postings := map (\<lambda>p. fst (expand_posting t p)) (txn_postings t)\<rparr>,
      concat (map (\<lambda>p. snd (expand_posting t p)) (txn_postings t)))"

definition check_closing :: plugin where
  "check_closing inp =
     (case in_directives inp of
        None \<Rightarrow> Inr no_change
      | Some [] \<Rightarrow> Inr no_change
      | Some ds \<Rightarrow> Inr (replaced (concat (map (\<lambda>d. case d of
          DTransaction t \<Rightarrow> (case expand_closing t of (t', balances) \<Rightarrow> balances @ [DTransaction t'])
        | _ \<Rightarrow> [d]) ds))))"

end
