(* ===== verification/Std_Facts.thy ===== *)
theory Std_Facts
  imports Std_Checks Validation_Contract "HOL-Library.Multiset" "HOL-Library.Sublist"
begin

text \<open>
  What the loops of the plugins of \<open>Std_Accounts\<close> and \<open>Std_Checks\<close> compute, in terms of the directives alone.
\<close>

section \<open>The accounts a directive uses\<close>

definition uses_of :: "directive \<Rightarrow> (account \<times> time) list" where
  "uses_of d =
     (case d of
        DOpen x \<Rightarrow> [(open_account x, open_date x)]
      | DClose x \<Rightarrow> [(close_account x, close_date x)]
      | DBalance x \<Rightarrow> [(bal_account x, bal_date x)]
      | DPad x \<Rightarrow> [(pad_account x, pad_date x), (pad_source x, pad_date x)]
      | DNote x \<Rightarrow> [(note_account x, note_date x)]
      | DDocument x \<Rightarrow> [(doc_account x, doc_date x)]
      | DTransaction x \<Rightarrow> map (\<lambda>p. (p_account p, txn_date x)) (txn_postings x)
      | _ \<Rightarrow> [])"

definition all_uses :: "directive list \<Rightarrow> (account \<times> time) list" where
  "all_uses ds = concat (map uses_of ds)"

lemma all_uses_simps [simp]: "all_uses [] = []" "all_uses (d # ds) = uses_of d @ all_uses ds"
  "all_uses (ds @ es) = all_uses ds @ all_uses es"
  by (simp_all add: all_uses_def)

section \<open>First uses\<close>

definition earliest_in :: "(account \<times> time) list \<Rightarrow> (account \<times> time) list \<Rightarrow> bool" where
  "earliest_in ps u \<longleftrightarrow> distinct (map fst u) \<and>
     (\<forall>a. case map_of u a of None \<Rightarrow> a = [] \<or> a \<notin> fst ` set ps
        | Some t \<Rightarrow> a \<noteq> [] \<and> (a, t) \<in> set ps \<and> (\<forall>t'. (a, t') \<in> set ps \<longrightarrow> t \<le> t'))"

lemma earliest_Nil: "earliest_in [] []"
  by (simp add: earliest_in_def)

lemma map_of_record_use:
  "map_of (record_use u a t) b =
    (if b = a \<and> a \<noteq> [] then Some (case map_of u a of None \<Rightarrow> t | Some t' \<Rightarrow> min t' t) else map_of u b)"
  by (auto simp: record_use_def update_conv' min_def split: option.split)

lemma distinct_record_use: "distinct (map fst u) \<Longrightarrow> distinct (map fst (record_use u a t))"
  by (auto simp: record_use_def distinct_update split: option.split)

lemma earliest_record:
  assumes "earliest_in ps u"
  shows "earliest_in (ps @ [(a, t)]) (record_use u a t)"
  unfolding earliest_in_def
proof (intro conjI allI)
  show "distinct (map fst (record_use u a t))" using assms by (simp add: earliest_in_def distinct_record_use)
  fix b
  have b: "case map_of u b of None \<Rightarrow> b = [] \<or> b \<notin> fst ` set ps
      | Some t \<Rightarrow> b \<noteq> [] \<and> (b, t) \<in> set ps \<and> (\<forall>t'. (b, t') \<in> set ps \<longrightarrow> t \<le> t')"
    using assms by (simp add: earliest_in_def)
  show "case map_of (record_use u a t) b of None \<Rightarrow> b = [] \<or> b \<notin> fst ` set (ps @ [(a, t)])
      | Some s \<Rightarrow> b \<noteq> [] \<and> (b, s) \<in> set (ps @ [(a, t)]) \<and> (\<forall>t'. (b, t') \<in> set (ps @ [(a, t)]) \<longrightarrow> s \<le> t')"
  proof (cases "b = a \<and> a \<noteq> []")
    case True
    then show ?thesis
      using b by (cases "map_of u a") (auto simp: map_of_record_use min_def image_iff)
  next
    case False
    then show ?thesis
      using b by (cases "map_of u b") (auto simp: map_of_record_use)
  qed
qed

lemma earliest_records:
  "earliest_in ps u \<Longrightarrow> earliest_in (ps @ qs) (foldl (\<lambda>u (a, t). record_use u a t) u qs)"
proof (induction qs arbitrary: ps u)
  case (Cons q qs)
  then show ?case using earliest_record [OF Cons.prems, of "fst q" "snd q"] by (cases q) fastforce
qed simp

lemma visit_uses_eq:
  "visit_uses d (opened, u) =
    ((case d of DOpen x \<Rightarrow> List.insert (open_account x) opened | _ \<Rightarrow> opened),
     foldl (\<lambda>u (a, t). record_use u a t) u (uses_of d))"
proof -
  have "foldl (\<lambda>u p. record_use u (p_account p) t) u ps =
      foldl (\<lambda>u (a, t). record_use u a t) u (map (\<lambda>p. (p_account p, t)) ps)" for t ps
    by (induction ps arbitrary: u) auto
  then show ?thesis by (cases d) (simp_all add: visit_uses_def uses_of_def)
qed

lemma visits:
  assumes "earliest_in ps u" and "fold visit_uses ds (opened, u) = (opened', u')"
  shows "earliest_in (ps @ all_uses ds) u' \<and> set opened' = set opened \<union> {a. opens_of a ds \<noteq> []}"
  using assms
proof (induction ds arbitrary: opened u ps)
  case Nil
  then show ?case by (simp add: opens_of_def)
next
  case (Cons d ds)
  define o1 where "o1 = (case d of DOpen x \<Rightarrow> List.insert (open_account x) opened | _ \<Rightarrow> opened)"
  have "fold visit_uses ds (o1, foldl (\<lambda>u (a, t). record_use u a t) u (uses_of d)) = (opened', u')"
    using Cons.prems(2) by (simp add: visit_uses_eq o1_def)
  from Cons.IH [OF earliest_records [OF Cons.prems(1)] this]
  have "earliest_in (ps @ all_uses (d # ds)) u'" "set opened' = set o1 \<union> {a. opens_of a ds \<noteq> []}" by simp_all
  moreover have "set o1 \<union> {a. opens_of a ds \<noteq> []} = set opened \<union> {a. opens_of a (d # ds) \<noteq> []}"
    by (cases d) (auto simp: o1_def opens_of_def)
  ultimately show ?case by simp
qed

section \<open>Ancestors\<close>

lemma acct_above_iff: "a \<in> set (acct_above b) \<longleftrightarrow> is_ancestor_of a b"
proof (induction b rule: acct_above.induct)
  case (1 b)
  show ?case
  proof (cases "acct_parent b = []")
    case True
    then show ?thesis using ancestor_covers_parent [of a b] by (auto simp: acct_above.simps [of b])
  next
    case False
    have "is_ancestor_of a b \<longleftrightarrow> a = acct_parent b \<or> is_ancestor_of a (acct_parent b)"
      using parent_is_ancestor [OF False] ancestor_covers_parent [of a b] is_ancestor_of_trans [of a "acct_parent b" b]
      by (auto simp: covers_def split: if_splits)
    then show ?thesis using 1 [OF False] False by (simp add: acct_above.simps [of b])
  qed
qed

definition mentions :: "directive \<Rightarrow> account set" where
  "mentions d = (fst ` set (uses_of d) \<union>
     (case d of DCustom x \<Rightarrow> mv_string ` {v \<in> set (cus_values x). mv_kind v = MetaAccount} | _ \<Rightarrow> {})) - {[]}"

lemma set_add_ref: "set (add_ref r a) = set r \<union> ({a} - {[]})"
  by (auto simp: add_ref_def)

lemma set_leaf_refs: "set (leaf_refs d refs) = set refs \<union> mentions d"
proof -
  have ps: "set (foldl (\<lambda>r p. add_ref r (p_account p)) refs ps) = set refs \<union> (p_account ` set ps - {[]})" for refs ps
    by (induction ps arbitrary: refs) (auto simp: set_add_ref)
  have vs: "set (foldl (\<lambda>r v. if mv_kind v = MetaAccount then add_ref r (mv_string v) else r) refs vs) =
      set refs \<union> (mv_string ` {v \<in> set vs. mv_kind v = MetaAccount} - {[]})" for refs vs
    by (induction vs arbitrary: refs) (auto simp: set_add_ref)
  show ?thesis
    by (cases d) (auto simp: leaf_refs_def mentions_def uses_of_def set_add_ref ps vs image_image)
qed

lemma set_all_leaf_refs: "set (fold leaf_refs ds refs) = set refs \<union> \<Union> (mentions ` set ds)"
  by (induction ds arbitrary: refs) (auto simp: set_leaf_refs)

lemma set_non_leaves: "set (non_leaves refs) = {a \<in> set refs. \<exists>b \<in> set refs. is_ancestor_of a b}"
  by (auto simp: non_leaves_def acct_above_iff)

end
