(* ===== verification/Std_Contract.thy ===== *)
theory Std_Contract
  imports Std_Facts Plugin_Contract
begin

text \<open>
  What the plugins of \<open>pkg/ext/postproc/std\<close> promise of the ledger they return or of what they report.
\<close>

definition output_of :: "plugin_result \<Rightarrow> directive list \<Rightarrow> directive list" where
  "output_of r ds = (case res_directives r of None \<Rightarrow> ds | Some out \<Rightarrow> out)"

lemma output_of_simps [simp]: "output_of no_change ds = ds" "output_of (replaced out) ds = out"
  by (simp_all add: output_of_def no_change_def replaced_def)

section \<open>Opening accounts\<close>

lemma in_opens_of: "x \<in> set (opens_of a ds) \<longleftrightarrow> DOpen x \<in> set ds \<and> open_account x = a"
proof (induction ds)
  case (Cons d ds)
  then show ?case by (cases d) (auto simp: opens_of_def)
qed (simp add: opens_of_def)

lemma uses_open: "DOpen x \<in> set ds \<Longrightarrow> (open_account x, open_date x) \<in> set (all_uses ds)"
  by (force simp: all_uses_def uses_of_def)

lemma auto_accounts_output:
  assumes "auto_accounts inp = Inr r" and "in_directives inp = Some ds"
  obtains u where "earliest_in (all_uses ds) u"
    "output_of r ds = map (\<lambda>a. synthesized_open a (the (map_of u a)))
       (filter (\<lambda>a. opens_of a ds = []) (sorted_keys u)) @ ds"
proof -
  obtain opened u where f: "fold visit_uses ds ([], []) = (opened, u)" by fastforce
  from visits [OF earliest_Nil f] have u: "earliest_in (all_uses ds) u" and o': "set opened = {a. opens_of a ds \<noteq> []}"
    by simp_all
  have "filter (\<lambda>a. a \<notin> set opened) (sorted_keys u) = filter (\<lambda>a. opens_of a ds = []) (sorted_keys u)"
    by (simp add: o')
  then have "output_of r ds = map (\<lambda>a. synthesized_open a (the (map_of u a)))
       (filter (\<lambda>a. opens_of a ds = []) (sorted_keys u)) @ ds"
    using assms f by (auto simp: auto_accounts_def Let_def split: if_splits)
  with u show ?thesis by (rule that)
qed

text \<open>C29 After \<open>autoaccounts\<close>, and however the runner orders its output, no use of an account is reported
  as \<open>account-not-open\<close>; an account without an \<open>open\<close> of its own is open on every day it is used; and
  every directive of the ledger is kept.\<close>

theorem auto_accounts_opens:
  assumes "auto_accounts inp = Inr r" and "in_directives inp = Some ds"
    and "set out = set (output_of r ds)" and "(a, day) \<in> set (all_uses out)" and "a \<noteq> []"
  shows "usage_verdict close_aware out a day \<noteq> Some ''account-not-open'' \<and>
    (opens_of a ds = [] \<longrightarrow> usage_verdict False out a day = None) \<and> set ds \<subseteq> set out"
proof -
  obtain u where u: "earliest_in (all_uses ds) u"
    and out: "output_of r ds = map (\<lambda>a. synthesized_open a (the (map_of u a)))
       (filter (\<lambda>a. opens_of a ds = []) (sorted_keys u)) @ ds"
    using auto_accounts_output [OF assms(1,2)] by blast
  have keys: "b \<in> set (sorted_keys u) \<longleftrightarrow> map_of u b \<noteq> None" for b
    by (simp add: sorted_keys_def map_of_eq_None_iff)
  have sub: "set ds \<subseteq> set out" using assms(3) out by simp
  have used: "\<exists>t. (a, t) \<in> set (all_uses ds) \<and> t \<le> day"
  proof -
    from assms(4) obtain d where d: "d \<in> set out" "(a, day) \<in> set (uses_of d)" by (auto simp: all_uses_def)
    show ?thesis
    proof (cases "d \<in> set ds")
      case True
      with d show ?thesis by (auto simp: all_uses_def)
    next
      case False
      with d(1) assms(3) out obtain b where b: "d = synthesized_open b (the (map_of u b))" "b \<in> set (sorted_keys u)"
        by auto
      then obtain t where "map_of u b = Some t" using keys by auto
      with b(1) d(2) u show ?thesis
        by (auto simp: synthesized_open_def uses_of_def earliest_in_def split: option.splits dest: spec [of _ b])
    qed
  qed
  then obtain t0 where t0: "(a, t0) \<in> set (all_uses ds)" "t0 \<le> day" by blast
  then obtain t where t: "map_of u a = Some t" "t \<le> day"
    using u assms(5) by (cases "map_of u a") (force simp: earliest_in_def dest: spec [of _ a])+
  have opens: "x \<in> set (opens_of a out) \<longleftrightarrow> x \<in> set (opens_of a ds) \<or>
      opens_of a ds = [] \<and> DOpen x = synthesized_open a t" for x
  proof -
    have acct: "open_account x = b" if "DOpen x = synthesized_open b s" for b s
      using that by (simp add: synthesized_open_def)
    have "DOpen x \<in> set out \<longleftrightarrow> DOpen x \<in> set ds \<or>
        (\<exists>b. b \<in> set (sorted_keys u) \<and> opens_of b ds = [] \<and> DOpen x = synthesized_open b (the (map_of u b)))"
      unfolding assms(3) out by auto
    then have "DOpen x \<in> set out \<and> open_account x = a \<longleftrightarrow> DOpen x \<in> set ds \<and> open_account x = a \<or>
        a \<in> set (sorted_keys u) \<and> opens_of a ds = [] \<and> DOpen x = synthesized_open a (the (map_of u a))"
      using acct by metis
    then show ?thesis using t(1) keys [of a] by (simp add: in_opens_of)
  qed
  have ne: "opens_of a out \<noteq> []"
  proof (cases "opens_of a ds = []")
    case True
    obtain x where "synthesized_open a t = DOpen x" by (simp add: synthesized_open_def)
    with opens [of x] True show ?thesis by auto
  next
    case False
    then obtain x where "x \<in> set (opens_of a ds)" by (cases "opens_of a ds") auto
    with opens [of x] show ?thesis by auto
  qed
  then have "usage_verdict close_aware out a day \<noteq> Some ''account-not-open''"
    by (auto simp: usage_verdict_def split: list.splits if_splits)
  moreover have "usage_verdict False out a day = None" if "opens_of a ds = []"
  proof -
    obtain x xs where x: "opens_of a out = x # xs" using ne by (cases "opens_of a out") auto
    then have "DOpen x = synthesized_open a t" using opens [of x] that by simp
    then have "open_date x = t" by (simp add: synthesized_open_def)
    with x t(2) show ?thesis by (simp add: usage_verdict_def)
  qed
  ultimately show ?thesis using sub by blast
qed

definition ex_input :: "directive list \<Rightarrow> plugin_input" where
  "ex_input ds = \<lparr>in_directives = Some ds, in_options = None, in_config = [], in_directive = None, in_source = []\<rparr>"

lemma ex_input_directives [simp]: "in_directives (ex_input ds) = Some ds" "in_config (ex_input ds) = []"
  by (simp_all add: ex_input_def)

text \<open>Two accounts, the first opened only after its use.\<close>

definition ex_unopened :: "directive list" where
  "ex_unopened = [ex_move ''A'' ''B'' 5, DOpen (ex_open_dir ''A'' 4 [])]"

lemma ex_unopened_run:
  "auto_accounts (ex_input ex_unopened) = Inr (replaced (synthesized_open ''B'' 1 # ex_unopened))"
proof -
  have "fold visit_uses ex_unopened ([], []) = ([''A''], [(''A'', 1), (''B'', 1)])" by code_simp
  moreover have "filter (\<lambda>a. a \<notin> set [''A'']) (sorted_keys [(''A'', 1 :: time), (''B'', 1)]) = [''B'']" by code_simp
  ultimately show ?thesis by (simp add: auto_accounts_def)
qed

theorem auto_accounts_opens_witness:
  "usage_verdict False (synthesized_open ''B'' 1 # ex_unopened) ''B'' 1 = None \<and> usage_verdict False ex_unopened ''B'' 1 \<noteq> None"
proof -
  have use: "(''B'', 1) \<in> set (all_uses (synthesized_open ''B'' 1 # ex_unopened))" by code_simp
  have "opens_of ''B'' ex_unopened = [] \<longrightarrow> usage_verdict False (synthesized_open ''B'' 1 # ex_unopened) ''B'' 1 = None"
    using auto_accounts_opens [OF ex_unopened_run ex_input_directives(1) _ use] by simp
  moreover have "opens_of ''B'' ex_unopened = []" by (simp add: ex_unopened_def opens_of_def ex_move_def ex_open_dir_def)
  ultimately show ?thesis by (simp add: usage_verdict_def)
qed

section \<open>Closing trees\<close>

lemma below_closed_iff:
  "b \<in> set (below_closed c op sh) \<longleftrightarrow> b \<notin> set sh \<and> is_ancestor_of (close_account c) b \<and>
     (\<exists>x. map_of op b = Some x \<and> \<not> close_date c < open_date x)"
  by (auto simp: below_closed_def sorted_keys_def dest: weak_map_of_SomeI split: option.splits)
    (metis map_of_eq_None_iff not_None_eq option.sel)

lemma closes_of_simps [simp]:
  "closes_of b [] = []" "closes_of b (d # ds) = (case d of DClose x \<Rightarrow> if close_account x = b then [x] else [] | _ \<Rightarrow> []) @ closes_of b ds"
  "closes_of b (ds @ es) = closes_of b ds @ closes_of b es"
  by (simp_all add: closes_of_def)

lemma closes_synthesized: "closes_of b (map (synthesized_close c) subs) =
    map (\<lambda>_. \<lparr>close_span = close_span c, close_date = close_date c, close_account = b, close_meta = Map.empty\<rparr>)
      (filter (\<lambda>a. a = b) subs)"
  by (induction subs) (auto simp: synthesized_close_def)

lemma set_fold_insert: "set (fold List.insert xs ys) = set xs \<union> set ys"
  by (induction xs arbitrary: ys) auto

lemma record_open_keeps: "map_of op b = Some x \<Longrightarrow> map_of (record_open y op) b = Some x"
  by (auto simp: record_open_def update_conv' split: option.split)

lemma record_open_other: "open_account y \<noteq> b \<Longrightarrow> map_of (record_open y op) b = map_of op b"
  by (auto simp: record_open_def update_conv' split: option.split)

lemma record_open_new: "map_of op (open_account y) = None \<Longrightarrow> map_of (record_open y op) (open_account y) = Some y"
  by (simp add: record_open_def update_conv')

text \<open>An open account below \<open>c\<close>'s gets a \<open>close\<close> by \<open>c\<close> at the latest.\<close>

lemma close_loop_closes:
  assumes "map_of op b = Some x" "open_date x \<le> close_date c" "is_ancestor_of (close_account c) b" "b \<notin> set sh"
    and "\<forall>d \<in> set xs. dir_date d \<le> close_date c"
  shows "\<exists>e es. closes_of b (fst (close_loop (xs @ DClose c # ys) op sh)) = e # es \<and> close_date e \<le> close_date c"
  using assms
proof (induction xs arbitrary: op sh)
  case Nil
  have "b \<noteq> close_account c" using Nil.prems(3) is_ancestor_of_irrefl by blast
  then have "b \<in> set (below_closed c op (List.insert (close_account c) sh))"
    using Nil.prems by (auto simp: below_closed_iff)
  then have "filter (\<lambda>a. a = b) (below_closed c op (List.insert (close_account c) sh)) \<noteq> []"
    by (auto simp: filter_empty_conv)
  with \<open>b \<noteq> close_account c\<close> show ?case
    by (cases "filter (\<lambda>a. a = b) (below_closed c op (List.insert (close_account c) sh))")
      (auto simp: Let_def case_prod_beta closes_synthesized)
next
  case (Cons d ds)
  note IH = Cons.IH [OF _ Cons.prems(2,3)]
  have le: "\<forall>d \<in> set ds. dir_date d \<le> close_date c" using Cons.prems(5) by simp
  show ?case
  proof (cases d)
    case (DOpen y)
    then show ?thesis
      using IH [OF record_open_keeps [OF Cons.prems(1)] Cons.prems(4) le] by (simp add: case_prod_beta)
  next
    case (DClose y)
    define sh1 where "sh1 = List.insert (close_account y) sh"
    have y: "close_date y \<le> close_date c" using Cons.prems(5) DClose by simp
    have out: "fst (close_loop ((d # ds) @ DClose c # ys) op sh) = DClose y # map (synthesized_close y) (below_closed y op sh1) @
        fst (close_loop (ds @ DClose c # ys) op (fold List.insert (below_closed y op sh1) sh1))"
      by (simp add: DClose sh1_def Let_def case_prod_beta)
    show ?thesis
    proof (cases "b = close_account y \<or> b \<in> set (below_closed y op sh1)")
      case True
      then show ?thesis
        using y unfolding out
        by (cases "filter (\<lambda>a. a = b) (below_closed y op sh1)") (auto simp: closes_synthesized filter_empty_conv)
    next
      case False
      then have "b \<notin> set (fold List.insert (below_closed y op sh1) sh1)"
        using Cons.prems(4) by (simp add: set_fold_insert sh1_def)
      moreover have "filter (\<lambda>a. a = b) (below_closed y op sh1) = []" using False by (auto simp: filter_empty_conv)
      ultimately show ?thesis
        using IH [OF Cons.prems(1) _ le] False y unfolding out by (auto simp: closes_synthesized)
    qed
  qed (use IH [OF Cons.prems(1,4) le] in \<open>simp_all add: case_prod_beta\<close>)
qed

text \<open>Before the account is opened.\<close>

lemma close_loop_before:
  assumes "\<forall>d \<in> set zs. \<not> opens_account b d" "closes_of b zs = []" "map_of op b = None" "b \<notin> set sh"
  shows "\<exists>pre op' sh'. fst (close_loop (zs @ rest) op sh) = pre @ fst (close_loop rest op' sh') \<and>
    (\<forall>d \<in> set pre. \<not> opens_account b d) \<and> map_of op' b = None \<and> b \<notin> set sh'"
  using assms
proof (induction zs arbitrary: op sh)
  case Nil
  then show ?case by (metis append_Nil empty_iff list.set(1))
next
  case (Cons d ds)
  have rest: "\<forall>d \<in> set ds. \<not> opens_account b d" "closes_of b ds = []" and d: "\<not> opens_account b d"
    using Cons.prems(1,2) by auto
  have step: "\<exists>pre op' sh'. fst (close_loop ((d # ds) @ rest) op sh) = pre @ fst (close_loop rest op' sh') \<and>
      (\<forall>d \<in> set pre. \<not> opens_account b d) \<and> map_of op' b = None \<and> b \<notin> set sh'"
    if new: "fst (close_loop ((d # ds) @ rest) op sh) = new @ fst (close_loop (ds @ rest) op1 sh1)"
      "\<forall>d \<in> set new. \<not> opens_account b d" and st: "map_of op1 b = None" "b \<notin> set sh1" for new op1 sh1
  proof -
    obtain pre op' sh' where "fst (close_loop (ds @ rest) op1 sh1) = pre @ fst (close_loop rest op' sh')"
      "\<forall>d \<in> set pre. \<not> opens_account b d" "map_of op' b = None" "b \<notin> set sh'"
      using Cons.IH [OF rest st] by blast
    with new show ?thesis by (intro exI [of _ "new @ pre"] exI [of _ op'] exI [of _ sh']) auto
  qed
  show ?case
  proof (cases d)
    case (DOpen y)
    then have "open_account y \<noteq> b" using d by (simp add: opens_account_def)
    then show ?thesis
      using Cons.prems(3,4) d
      by (intro step [of "[d]" "record_open y op" sh]) (simp_all add: DOpen case_prod_beta record_open_other)
  next
    case (DClose y)
    define sh1 where "sh1 = List.insert (close_account y) sh"
    have "close_account y \<noteq> b" using Cons.prems(2) DClose by (auto split: if_splits)
    moreover have "b \<notin> set (below_closed y op sh1)" using Cons.prems(3) by (simp add: below_closed_iff)
    ultimately have "b \<notin> set (fold List.insert (below_closed y op sh1) sh1)"
      using Cons.prems(4) by (auto simp: set_fold_insert sh1_def)
    then show ?thesis
      using Cons.prems(3)
      by (intro step [of "DClose y # map (synthesized_close y) (below_closed y op sh1)" op
            "fold List.insert (below_closed y op sh1) sh1"])
        (auto simp: DClose sh1_def Let_def case_prod_beta opens_account_def synthesized_close_def)
  qed (use Cons.prems(3,4) d in \<open>intro step [of "[d]" op sh]; simp add: case_prod_beta\<close>)+
qed

lemma close_loop_same: "\<not> snd (close_loop ds op sh) \<Longrightarrow> fst (close_loop ds op sh) = ds"
proof (induction ds arbitrary: op sh)
  case (Cons d ds)
  then show ?case by (cases d) (auto simp: Let_def case_prod_beta)
qed simp

lemma close_tree_output:
  assumes "close_tree inp = Inr r" and "in_directives inp = Some ds"
  shows "output_of r ds = fst (close_loop ds [] [])"
  using assms close_loop_same [of ds "[]" "[]"]
  by (auto simp: close_tree_def case_prod_beta split: if_splits)

lemma opens_of_account: "opens_of b ds = [] \<longleftrightarrow> (\<forall>d \<in> set ds. \<not> opens_account b d)"
  by (induction ds) (auto simp: opens_of_def opens_account_def split: directive.splits)

lemma sorted_dates_before:
  assumes "sorted (map dir_date (xs @ d # ys))" and "e \<in> set xs"
  shows "dir_date e \<le> dir_date d"
  using assms by (auto simp: sorted_append)

text \<open>C30 After \<open>closetree\<close> on a ledger in the order of dates, an account that was opened below one that is
  closed later is closed with it or before: its use on any day after is reported as \<open>account-closed\<close>. (The
  account had no \<open>close\<close> before it was opened.)\<close>

theorem close_tree_closes_below:
  assumes "close_tree inp = Inr r" and "in_directives inp = Some (zs @ DOpen x # xs @ DClose c # ys)"
    and "sorted (map dir_date (zs @ DOpen x # xs @ DClose c # ys))"
    and "opens_of (open_account x) zs = []" and "closes_of (open_account x) zs = []"
    and "is_ancestor_of (close_account c) (open_account x)" and "close_date c < day"
  shows "usage_verdict True (output_of r (zs @ DOpen x # xs @ DClose c # ys)) (open_account x) day =
    Some ''account-closed''"
proof -
  let ?b = "open_account x" let ?rest = "DOpen x # xs @ DClose c # ys"
  obtain pre op sh where pre: "fst (close_loop (zs @ ?rest) [] []) = pre @ fst (close_loop ?rest op sh)"
    "\<forall>d \<in> set pre. \<not> opens_account ?b d" "map_of op ?b = None" "?b \<notin> set sh"
    using close_loop_before [of zs ?b "[]" "[]" ?rest] assms(4,5) by (auto simp: opens_of_account)
  have dates: "sorted (map dir_date (xs @ DClose c # ys))" "open_date x \<le> close_date c"
    using assms(3) by (auto simp: sorted_append)
  have le: "\<forall>d \<in> set xs. dir_date d \<le> close_date c" using sorted_dates_before [OF dates(1)] by simp
  define out where "out = fst (close_loop (xs @ DClose c # ys) (record_open x op) sh)"
  have o': "output_of r (zs @ ?rest) = pre @ DOpen x # out"
    using close_tree_output [OF assms(1,2)] pre(1) by (simp add: out_def case_prod_beta)
  obtain e es where e: "closes_of ?b out = e # es" "close_date e \<le> close_date c"
    using close_loop_closes [OF record_open_new [OF pre(3)] dates(2) assms(6) pre(4) le, where ys = ys]
    unfolding out_def by blast
  have "after_open ?b (pre @ DOpen x # out) = out"
    using pre(2) by (simp add: after_open_def dropWhile_append2 opens_account_def [of _ "DOpen x"])
  moreover have "opens_of ?b (pre @ DOpen x # out) = opens_of ?b pre @ x # opens_of ?b out"
    by (simp add: opens_of_def)
  moreover have "opens_of ?b pre = []" using pre(2) by (simp add: opens_of_account)
  ultimately show ?thesis
    using e dates(2) assms(7) unfolding o' by (simp add: usage_verdict_def)
qed

theorem close_tree_closes_below_witness:
  "\<exists>r. close_tree (ex_input [DOpen (ex_open_dir ''A:B'' 1 []), DClose (ex_close_dir ''A'' 4)]) = Inr r \<and>
    usage_verdict True (output_of r [DOpen (ex_open_dir ''A:B'' 1 []), DClose (ex_close_dir ''A'' 4)]) ''A:B'' 5 =
    Some ''account-closed''"
proof -
  let ?ds = "[DOpen (ex_open_dir ''A:B'' 1 []), DClose (ex_close_dir ''A'' 4)]"
  obtain r where r: "close_tree (ex_input ?ds) = Inr r"
    by (cases "close_loop ?ds [] []"; cases "snd (close_loop ?ds [] [])") (auto simp: close_tree_def simp del: close_loop.simps)
  have below: "is_ancestor_of (close_account (ex_close_dir ''A'' 4)) (open_account (ex_open_dir ''A:B'' 1 []))" by code_simp
  have "usage_verdict True (output_of r ?ds) (open_account (ex_open_dir ''A:B'' 1 [])) 5 = Some ''account-closed''"
    using close_tree_closes_below [of "ex_input ?ds" r "[]" "ex_open_dir ''A:B'' 1 []" "[]" "ex_close_dir ''A'' 4" "[]" 5] r below
    by (simp add: opens_of_def ex_open_dir_def ex_close_dir_def)
  with r show ?thesis by (auto simp: ex_open_dir_def)
qed

section \<open>Leaves\<close>

text \<open>\<open>leafonly\<close> reports exactly the postings on an account below which the ledger mentions another
  one, in the order of the ledger.\<close>

theorem leaf_only_exact:
  assumes "leaf_only inp = Inr r" and "in_directives inp = Some ds"
  shows "res_directives r = None \<and> res_diags r = concat (map (\<lambda>t. map (\<lambda>p. leaf_diag p t (in_directive inp))
    (filter (\<lambda>p. \<exists>d \<in> set ds. \<exists>b \<in> mentions d. is_ancestor_of (p_account p) b) (txn_postings t))) (transactions_in ds))"
proof -
  have txns: "t \<in> set (transactions_in ds) \<Longrightarrow> DTransaction t \<in> set ds" for t
    by (induction ds) (auto split: directive.splits)
  define refs where "refs = fold leaf_refs ds []"
  have refs: "set refs = \<Union> (mentions ` set ds)" by (simp add: refs_def set_all_leaf_refs)
  have "p_account p \<in> set (non_leaves refs) \<longleftrightarrow> (\<exists>d \<in> set ds. \<exists>b \<in> mentions d. is_ancestor_of (p_account p) b)"
    if "t \<in> set (transactions_in ds)" "p \<in> set (txn_postings t)" for t p
  proof -
    have "p_account p \<in> mentions (DTransaction t)" if "is_ancestor_of (p_account p) b" for b
      using that \<open>p \<in> set (txn_postings t)\<close> by (force simp: mentions_def uses_of_def is_ancestor_of_iff)
    then show ?thesis using txns [OF that(1)] by (auto simp: set_non_leaves refs)
  qed
  then have "concat (map (\<lambda>t. map (\<lambda>p. leaf_diag p t (in_directive inp))
      (filter (\<lambda>p. p_account p \<in> set (non_leaves refs)) (txn_postings t))) (transactions_in ds)) =
    concat (map (\<lambda>t. map (\<lambda>p. leaf_diag p t (in_directive inp))
      (filter (\<lambda>p. \<exists>d \<in> set ds. \<exists>b \<in> mentions d. is_ancestor_of (p_account p) b) (txn_postings t))) (transactions_in ds))"
    by (intro arg_cong [of _ _ concat] map_cong refl filter_cong) auto
  then show ?thesis using assms by (auto simp: leaf_only_def Let_def only_diags_def refs_def)
qed

theorem leaf_only_exact_witness:
  "\<exists>r. leaf_only (ex_input [ex_move ''A'' ''A:B'' 5]) = Inr r \<and>
    map diag_message (res_diags r) = [''Non-leaf account '' @ [CHR 0x27] @ ''A'' @ [CHR 0x27] @ '' has postings on it'']"
proof -
  obtain r where r: "leaf_only (ex_input [ex_move ''A'' ''A:B'' 5]) = Inr r" by (simp add: leaf_only_def Let_def)
  define t where "t = ex_txn 1 [ex_posting ''A'' (ex_amt 5 ''USD'') None, ex_posting ''A:B'' (ex_amt (- 5) ''USD'') None]"
  have t: "ex_move ''A'' ''A:B'' 5 = DTransaction t" by (simp add: ex_move_def t_def)
  have m: "mentions (DTransaction t) = {''A'', ''A:B''}"
    by (auto simp: mentions_def uses_of_def t_def ex_txn_def ex_posting_def)
  define low where "low a = (is_ancestor_of a ''A'' \<or> is_ancestor_of a ''A:B'')" for a
  have low: "low ''A''" "\<not> low ''A:B''" unfolding low_def by code_simp+
  have bad: "(\<exists>d \<in> set [DTransaction t]. \<exists>b \<in> mentions d. is_ancestor_of a b) = low a" for a
    by (simp add: m low_def)
  have "res_diags r = map (\<lambda>p. leaf_diag p t (in_directive (ex_input [DTransaction t]))) (filter (\<lambda>p. low (p_account p)) (txn_postings t))"
    using leaf_only_exact [OF r ex_input_directives(1)] unfolding t bad by (simp del: ex_input_directives)
  then have "map diag_message (res_diags r) = [''Non-leaf account '' @ [CHR 0x27] @ ''A'' @ [CHR 0x27] @ '' has postings on it'']"
    by (simp add: t_def ex_txn_def ex_posting_def leaf_diag_def low)
  with r show ?thesis by (intro exI [of _ r] conjI)
qed

section \<open>Prices\<close>

definition price_value :: "price_dir \<Rightarrow> rat" where
  "price_value p = dval (amt_number (prc_amount p))"

text \<open>The values in \<open>P\<close> fit the first values \<open>W\<close> of their keys and each other.\<close>

definition fits :: "('p \<Rightarrow> 'k) \<Rightarrow> ('p \<Rightarrow> 'v) \<Rightarrow> ('k \<rightharpoonup> 'v) \<Rightarrow> 'p set \<Rightarrow> bool" where
  "fits K V W P \<longleftrightarrow> (\<forall>p \<in> P. \<forall>v. W (K p) = Some v \<longrightarrow> v = V p) \<and>
     (\<forall>p \<in> P. \<forall>q \<in> P. W (K p) = None \<longrightarrow> K q = K p \<longrightarrow> V q = V p)"

lemma fits_known: "W (K p) = Some v \<Longrightarrow> fits K V W (insert p P) \<longleftrightarrow> v = V p \<and> fits K V W P"
proof -
  assume w: "W (K p) = Some v"
  have "V s = V q" if "fits K V W P" "q \<in> insert p P" "s \<in> insert p P" "W (K q) = None" "K s = K q" for q s
  proof -
    have "q \<noteq> p" "s \<noteq> p" using w that(4,5) by auto
    then show ?thesis using that unfolding fits_def by blast
  qed
  moreover have "u = V q" if "fits K V W P" "v = V p" "q \<in> insert p P" "W (K q) = Some u" for q u
    using that w unfolding fits_def by (cases "q = p") auto
  moreover have "v = V p" if "fits K V W (insert p P)" using that w unfolding fits_def by blast
  moreover have "fits K V W P" if "fits K V W (insert p P)" using that unfolding fits_def by blast
  ultimately show "fits K V W (insert p P) \<longleftrightarrow> v = V p \<and> fits K V W P"
    unfolding fits_def [of K V W "insert p P"] by blast
qed

lemma fits_new:
  assumes w: "W (K p) = None"
  shows "fits K V W (insert p P) \<longleftrightarrow> fits K V (W(K p \<mapsto> V p)) P"
proof
  assume "fits K V W (insert p P)"
  then have known: "\<forall>q \<in> P. \<forall>v. W (K q) = Some v \<longrightarrow> v = V q"
    and new: "\<forall>q \<in> insert p P. \<forall>s \<in> insert p P. W (K q) = None \<longrightarrow> K s = K q \<longrightarrow> V s = V q"
    unfolding fits_def by (elim conjE, blast)+
  show "fits K V (W(K p \<mapsto> V p)) P"
    unfolding fits_def
  proof (intro conjI ballI allI impI)
    fix q v
    assume q: "q \<in> P" "(W(K p \<mapsto> V p)) (K q) = Some v"
    show "v = V q"
    proof (cases "K q = K p")
      case True
      then have "V q = V p" using new w q(1) by blast
      with q(2) True show ?thesis by simp
    next
      case False
      with q known show ?thesis by simp
    qed
  next
    fix q s
    assume q: "q \<in> P" "s \<in> P" "(W(K p \<mapsto> V p)) (K q) = None" "K s = K q"
    then have "W (K q) = None" by (simp split: if_splits)
    then show "V s = V q" using new q by blast
  qed
next
  assume r: "fits K V (W(K p \<mapsto> V p)) P"
  have known: "\<forall>q \<in> P. \<forall>v. (W(K p \<mapsto> V p)) (K q) = Some v \<longrightarrow> v = V q"
    using r unfolding fits_def by (rule conjunct1)
  have new: "\<forall>q \<in> P. \<forall>s \<in> P. (W(K p \<mapsto> V p)) (K q) = None \<longrightarrow> K s = K q \<longrightarrow> V s = V q"
    using r unfolding fits_def by (rule conjunct2)
  have eq: "V q = V p" if "q \<in> insert p P" "K q = K p" for q
  proof (cases "q = p")
    case False
    then have "(W(K p \<mapsto> V p)) (K q) = Some (V p)" "q \<in> P" using that by simp_all
    with known show ?thesis by metis
  qed simp
  show "fits K V W (insert p P)"
    unfolding fits_def
  proof (intro conjI ballI allI impI)
    fix q v
    assume q: "q \<in> insert p P" "W (K q) = Some v"
    then have "K q \<noteq> K p" using w by auto
    with q have "q \<in> P" "(W(K p \<mapsto> V p)) (K q) = Some v" by auto
    with known show "v = V q" by blast
  next
    fix q s
    assume q: "q \<in> insert p P" "s \<in> insert p P" "W (K q) = None" "K s = K q"
    show "V s = V q"
    proof (cases "K q = K p")
      case True
      then have "V q = V p" "V s = V p" using eq [OF q(1)] eq [OF q(2)] q(4) by metis+
      then show ?thesis by simp
    next
      case False
      then have "q \<in> P" "s \<in> P" "(W(K p \<mapsto> V p)) (K q) = None" using q by auto
      with new q(4) show ?thesis by blast
    qed
  qed
qed

lemma unique_loop_silent:
  assumes "apd_exact A"
  shows "unique_loop G A tr ds firsts = [] \<longleftrightarrow>
    fits unique_price_key price_value (\<lambda>k. map_option price_value (map_of firsts k)) {p. DPrice p \<in> set ds}"
proof (induction ds arbitrary: firsts)
  case Nil
  then show ?case by (simp add: fits_def)
next
  case (Cons d ds)
  note cmp = apd_exact.cmp_0 [OF assms]
  show ?case
  proof (cases d)
    case (DPrice p)
    have ins: "{q. DPrice q \<in> set (d # ds)} = insert p {q. DPrice q \<in> set ds}" by (auto simp: DPrice)
    show ?thesis
    proof (cases "map_of firsts (unique_price_key p)")
      case None
      have w: "(\<lambda>k. map_option price_value (map_of (AList.update (unique_price_key p) p firsts) k)) =
          (\<lambda>k. map_option price_value (map_of firsts k))(unique_price_key p \<mapsto> price_value p)"
        by (auto simp: update_conv')
      show ?thesis
        unfolding ins using fits_new [of "\<lambda>k. map_option price_value (map_of firsts k)" unique_price_key p] None
          Cons.IH [of "AList.update (unique_price_key p) p firsts", unfolded w]
        by (simp add: DPrice)
    next
      case (Some f)
      then show ?thesis
        using Cons.IH [of firsts]
          fits_known [of "\<lambda>k. map_option price_value (map_of firsts k)" unique_price_key p "price_value f"]
        unfolding ins by (simp add: DPrice cmp price_value_def [symmetric])
    qed
  qed (use Cons.IH [of firsts] in simp_all)
qed

text \<open>C31 \<open>uniqueprices\<close> is silent exactly on ledgers in which a day and a pair of commodities determine the
  price, whatever its notation.\<close>

theorem unique_prices_silent:
  assumes "apd_exact A" and "unique_prices G A inp = Inr r" and "in_directives inp = Some ds"
  shows "res_diags r = [] \<longleftrightarrow>
    (\<forall>p q. DPrice p \<in> set ds \<and> DPrice q \<in> set ds \<and> format_date (prc_date p) = format_date (prc_date q) \<and>
       prc_commodity p = prc_commodity q \<and> amt_currency (prc_amount p) = amt_currency (prc_amount q) \<longrightarrow>
       dval (amt_number (prc_amount p)) = dval (amt_number (prc_amount q)))"
proof -
  have "res_diags r = unique_loop G A (in_directive inp) ds []"
    using assms(2,3) by (auto simp: unique_prices_def only_diags_def)
  then show ?thesis
    using unique_loop_silent [OF assms(1), of G "in_directive inp" ds "[]"]
    by (simp add: fits_def unique_price_key_def price_value_def) blast
qed

theorem unique_prices_silent_witness:
  "\<exists>r p. unique_prices (\<lambda>_. []) gda (ex_input [DPrice p, DPrice p]) = Inr r \<and> res_diags r = [] \<and>
    (\<exists>r'. unique_prices (\<lambda>_. []) gda (ex_input [DPrice p, DPrice (p\<lparr>prc_amount := the (ex_amt 3 ''USD'')\<rparr>)]) = Inr r' \<and>
      res_diags r' \<noteq> [])"
proof -
  define p where "p = \<lparr>prc_span = zero_span, prc_date = 1, prc_commodity = ''X'', prc_amount = the (ex_amt 2 ''USD''),
    prc_meta = Map.empty\<rparr>"
  let ?one = "[DPrice p, DPrice p]" and ?two = "[DPrice p, DPrice (p\<lparr>prc_amount := the (ex_amt 3 ''USD'')\<rparr>)]"
  obtain r r' where r: "unique_prices (\<lambda>_. []) gda (ex_input ?one) = Inr r" "unique_prices (\<lambda>_. []) gda (ex_input ?two) = Inr r'"
    by (simp add: unique_prices_def)
  have "dval (of_whole 2) \<noteq> dval (of_whole 3)" by code_simp
  then have "\<not> (\<forall>q q'. DPrice q \<in> set ?two \<and> DPrice q' \<in> set ?two \<and> format_date (prc_date q) = format_date (prc_date q') \<and>
      prc_commodity q = prc_commodity q' \<and> amt_currency (prc_amount q) = amt_currency (prc_amount q') \<longrightarrow>
      dval (amt_number (prc_amount q)) = dval (amt_number (prc_amount q')))"
    by - (rule notI, drule spec [of _ p], drule spec [of _ "p\<lparr>prc_amount := the (ex_amt 3 ''USD'')\<rparr>"],
      simp add: p_def ex_amt_def)
  then have "res_diags r' \<noteq> []"
    using unique_prices_silent [OF gda.apd_exact_axioms r(2) ex_input_directives(1)] by simp
  moreover have "res_diags r = []" using unique_prices_silent [OF gda.apd_exact_axioms r(1) ex_input_directives(1)] by simp
  ultimately show ?thesis using r by blast
qed

section \<open>Duplicate transactions\<close>

text \<open>Same day, and the same multiset of accounts with their amounts.\<close>

definition similar :: "transaction \<Rightarrow> transaction \<Rightarrow> bool" where
  "similar t u \<longleftrightarrow> format_date (txn_date t) = format_date (txn_date u) \<and>
     mset (map (\<lambda>p. (p_account p, p_amount p)) (txn_postings t)) = mset (map (\<lambda>p. (p_account p, p_amount p)) (txn_postings u))"

text \<open>The scientific text of a decimal (\<open>String\<close> of \<open>apd.Decimal\<close>) tells all decimals apart, and has
  digits, signs, a point and an \<open>E\<close> only.\<close>

definition decimal_string :: "decimal_text \<Rightarrow> bool" where
  "decimal_string G \<longleftrightarrow> inj G \<and> (\<forall>x. G x \<noteq> [] \<and> CHR ''|'' \<notin> set (G x) \<and> CHR 0x0A \<notin> set (G x))"

text \<open>Names without the separators of the key.\<close>

definition plain_posting_names :: "posting \<Rightarrow> bool" where
  "plain_posting_names p \<longleftrightarrow> CHR ''|'' \<notin> set (p_account p) \<and> CHR 0x0A \<notin> set (p_account p) \<and>
     (\<forall>a. p_amount p = Some a \<longrightarrow> CHR 0x0A \<notin> set (amt_currency a))"

definition plain_names :: "transaction \<Rightarrow> bool" where
  "plain_names t \<longleftrightarrow> (\<forall>p \<in> set (txn_postings t). plain_posting_names p)"

lemma posting_tuple_ne [simp]: "posting_tuple G p \<noteq> []"
  by (simp add: posting_tuple_def split: option.split)

lemma split_joined:
  "ws \<noteq> [] \<Longrightarrow> \<forall>w \<in> set ws. c \<notin> set w \<Longrightarrow> split_on c (join_with [c] ws) = ws"
proof (induction ws rule: induct_list012)
  case (2 w)
  have "c \<notin> set w \<Longrightarrow> split_on c w = [w]" for w by (induction w) auto
  with 2 show ?case by simp
next
  case (3 w v ws)
  have "c \<notin> set w \<Longrightarrow> split_on c (w @ c # s) = w # split_on c s" for w s by (induction w) auto
  with 3 show ?case by simp
qed simp

lemma join_injective:
  assumes "join_with [c] xs = join_with [c] ys"
    and "\<forall>w \<in> set xs \<union> set ys. c \<notin> set w \<and> w \<noteq> []"
  shows "xs = ys"
proof -
  have ne: "join_with [c] (w # ws) \<noteq> []" if "w \<noteq> []" for w ws using that by (cases ws) auto
  show ?thesis
  proof (cases "xs = [] \<or> ys = []")
    case True
    then have "join_with [c] xs = [] \<and> join_with [c] ys = []" using assms(1) by auto
    then have empty: "join_with [c] xs = []" "join_with [c] ys = []" by simp_all
    have nil: "zs = []" if "join_with [c] zs = []" "\<forall>w \<in> set zs. w \<noteq> []" for zs
      using that ne [of "hd zs" "tl zs"] by (cases zs) simp_all
    have "xs = []" by (rule nil [OF empty(1)]) (use assms(2) in blast)
    moreover have "ys = []" by (rule nil [OF empty(2)]) (use assms(2) in blast)
    ultimately show ?thesis by simp
  next
    case False
    have "split_on c (join_with [c] xs) = xs" using False assms(2) by (intro split_joined) auto
    moreover have "split_on c (join_with [c] ys) = ys" using False assms(2) by (intro split_joined) auto
    ultimately show ?thesis using assms(1) by metis
  qed
qed

lemma cut_at:
  assumes "v @ c # s = w @ c # r" and "c \<notin> set v" and "c \<notin> set w"
  shows "v = w \<and> s = r"
proof -
  have "takeWhile (\<lambda>x. x \<noteq> c) (u @ c # z) = u \<and> dropWhile (\<lambda>x. x \<noteq> c) (u @ c # z) = c # z" if "c \<notin> set u" for u z
    using that by (induction u) auto
  from this [of v s] this [of w r] assms(2,3)
  have "v = takeWhile (\<lambda>x. x \<noteq> c) (v @ c # s)" "takeWhile (\<lambda>x. x \<noteq> c) (w @ c # r) = w"
    "c # s = dropWhile (\<lambda>x. x \<noteq> c) (v @ c # s)" "dropWhile (\<lambda>x. x \<noteq> c) (w @ c # r) = c # r" by simp_all
  then show ?thesis unfolding assms(1) by (metis list.inject)
qed

text \<open>The text of a posting as a function of what is compared, and that it tells them apart.\<close>

definition tuple_of :: "decimal_text \<Rightarrow> account \<times> amount option \<Rightarrow> string" where
  "tuple_of G x = (case snd x of
     None \<Rightarrow> fst x @ CHR ''|'' # ''|''
   | Some a \<Rightarrow> fst x @ CHR ''|'' # G (amt_number a) @ CHR ''|'' # amt_currency a)"

lemma posting_tuple_of: "posting_tuple G p = tuple_of G (p_account p, p_amount p)"
  by (simp add: posting_tuple_def tuple_of_def split: option.split)

lemma tuple_of_injective:
  assumes G: "decimal_string G" and "tuple_of G x = tuple_of G y"
    and "CHR ''|'' \<notin> set (fst x)" and "CHR ''|'' \<notin> set (fst y)"
  shows "x = y"
proof -
  define rest where "rest z = (case z of None \<Rightarrow> ''|'' | Some a \<Rightarrow> G (amt_number a) @ CHR ''|'' # amt_currency a)"
    for z :: "amount option"
  have tuple: "tuple_of G z = fst z @ CHR ''|'' # rest (snd z)" for z
    by (simp add: tuple_of_def rest_def split: option.split)
  have first: "fst x = fst y" "rest (snd x) = rest (snd y)"
    using cut_at [OF assms(2) [unfolded tuple] assms(3,4)] by simp_all
  have G': "G n \<noteq> []" "CHR ''|'' \<notin> set (G n)" "G n = G m \<longleftrightarrow> n = m" for n m
    using G by (auto simp: decimal_string_def dest: injD)
  have "rest None \<noteq> rest (Some a)" for a
    using G'(1,2) [of "amt_number a"] by (cases "G (amt_number a)") (auto simp: rest_def)
  moreover have "rest (Some a) = rest (Some b) \<Longrightarrow> a = b" for a b
    using cut_at [of "G (amt_number a)" "CHR ''|''" "amt_currency a" "G (amt_number b)" "amt_currency b"] G'
    by (simp add: rest_def)
  ultimately have "snd x = snd y" using first(2) by (cases "snd x"; cases "snd y") metis+
  with first(1) show ?thesis by (simp add: prod_eq_iff)
qed

lemma show_nat_digits: "c \<in> set (show_nat n) \<Longrightarrow> 48 \<le> (of_char c :: nat) \<and> (of_char c :: nat) \<le> 57"
proof (induction n rule: show_nat.induct)
  case (1 n)
  have "n mod 10 < 10" by simp
  then have "48 \<le> (of_char (char_of (48 + n mod 10)) :: nat) \<and> (of_char (char_of (48 + n mod 10)) :: nat) \<le> 57"
    by (simp add: of_char_of)
  moreover have "n < 10 \<Longrightarrow> n mod 10 = n" by simp
  ultimately show ?case using 1 by (cases "n < 10") (auto simp: show_nat.simps [of n])
qed

lemma format_date_one_line: "CHR 0x0A \<notin> set (format_date d)"
proof -
  have small: "(of_char (CHR 0x0A) :: nat) = 10" by code_simp
  have "CHR 0x0A \<notin> set (show_nat n)" for n using show_nat_digits [of "CHR 0x0A" n] small by auto
  then have "CHR 0x0A \<notin> set (pad_zero k (show_int i))" for k i by (simp add: pad_zero_def show_int_def)
  then show ?thesis by (simp add: format_date_def case_prod_beta)
qed

lemma plain_tuple: "decimal_string G \<Longrightarrow> plain_posting_names p \<Longrightarrow> CHR 0x0A \<notin> set (posting_tuple G p)"
  by (auto simp: decimal_string_def plain_posting_names_def posting_tuple_def split: option.split)

lemma same_tuples:
  assumes "decimal_string G" and "plain_names t" and "plain_names u"
  shows "mset (map (posting_tuple G) (txn_postings t)) = mset (map (posting_tuple G) (txn_postings u)) \<longleftrightarrow>
    mset (map (\<lambda>p. (p_account p, p_amount p)) (txn_postings t)) = mset (map (\<lambda>p. (p_account p, p_amount p)) (txn_postings u))"
    (is "?texts \<longleftrightarrow> ?key t = ?key u")
proof -
  have image: "mset (map (posting_tuple G) (txn_postings v)) = image_mset (tuple_of G) (?key v)" for v
    by (simp add: posting_tuple_of [abs_def] image_mset.compositionality comp_def)
  have "x = y" if "x \<in># ?key t" "y \<in># ?key u" "tuple_of G x = tuple_of G y" for x y
    by (rule tuple_of_injective [OF assms(1) that(3)]) (use that assms(2,3) in \<open>auto simp: plain_names_def plain_posting_names_def\<close>)
  then have "?key t = ?key u" if "image_mset (tuple_of G) (?key t) = image_mset (tuple_of G) (?key u)"
    using that by (rule multiset.inj_map_strong)
  then show ?thesis unfolding image by auto
qed

lemma similar_keys:
  assumes G: "decimal_string G" and plain: "plain_names t" "plain_names u"
  shows "similarity_key G t = similarity_key G u \<longleftrightarrow> similar t u"
proof
  let ?ts = "sort (map (posting_tuple G) (txn_postings t))" and ?us = "sort (map (posting_tuple G) (txn_postings u))"
  assume e: "similarity_key G t = similarity_key G u"
  have first: "takeWhile (\<lambda>c. c \<noteq> CHR 0x0A) (format_date d @ CHR 0x0A # s) = format_date d"
    "tl (dropWhile (\<lambda>c. c \<noteq> CHR 0x0A) (format_date d @ CHR 0x0A # s)) = s" for d s
    using format_date_one_line [of d] by (subst takeWhile_append2 dropWhile_append2; auto)+
  have "format_date (txn_date t) = format_date (txn_date u)"
    using first(1) e unfolding similarity_key_def by (metis append_Cons append_Nil)
  moreover have "join_with [CHR 0x0A] ?ts = join_with [CHR 0x0A] ?us"
    using first(2) e unfolding similarity_key_def by (metis append_Cons append_Nil)
  then have "?ts = ?us" by (rule join_injective) (use plain plain_tuple [OF G] in \<open>auto simp: plain_names_def\<close>)
  then have "mset ?ts = mset ?us" by simp
  ultimately show "similar t u" using same_tuples [OF assms] by (simp add: similar_def)
next
  assume "similar t u"
  then show "similarity_key G t = similarity_key G u"
    unfolding similar_def similarity_key_def same_tuples [OF assms, symmetric]
    using properties_for_sort [of "sort (map (posting_tuple G) (txn_postings u))" "map (posting_tuple G) (txn_postings t)"]
    by simp
qed

lemma duplicate_loop_silent:
  "duplicate_loop G tr ts firsts = [] \<longleftrightarrow>
    sorted_wrt (\<lambda>t u. similarity_key G t \<noteq> similarity_key G u) ts \<and> (\<forall>t \<in> set ts. similarity_key G t \<notin> set firsts)"
  by (induction ts arbitrary: firsts) auto

text \<open>C32 \<open>noduplicates\<close> is silent exactly when no two transactions have the same date and the same postings,
  in any order, as multisets of the account and of the number and the currency of the amount, if there is
  one; flags, texts, costs and prices do not matter. Decimals are compared as they are written: 1.5 is not
  1.50. Accounts and currencies are taken to be free of the separators, a bar and a line break.\<close>

theorem no_duplicates_silent:
  assumes "decimal_string G" and "no_duplicates G inp = Inr r" and "in_directives inp = Some ds"
    and "list_all plain_names (transactions_in ds)"
  shows "res_diags r = [] \<longleftrightarrow> sorted_wrt (\<lambda>t u. \<not> similar t u) (transactions_in ds)"
proof -
  have "sorted_wrt (\<lambda>t u. similarity_key G t \<noteq> similarity_key G u) ts = sorted_wrt (\<lambda>t u. \<not> similar t u) ts"
    if "list_all plain_names ts" for ts
    using that similar_keys [OF assms(1)] by (induction ts) (auto simp: list_all_iff)
  with assms show ?thesis by (auto simp: no_duplicates_def only_diags_def duplicate_loop_silent)
qed

text \<open>A text of decimals of this kind, and two transactions that are a duplicate and one that is not.\<close>

definition ex_text :: decimal_text where
  "ex_text d = (if d_neg d then ''-'' else []) @ show_nat (d_coeff d) @ CHR ''E'' # show_int (d_exp d)"

lemma show_nat_value: "digits_value (show_nat n) = n"
proof (induction n rule: show_nat.induct)
  case (1 n)
  have digit: "k < 10 \<Longrightarrow> digit_value (char_of (48 + k)) = k" for k by (simp add: digit_value_def of_char_of)
  show ?case
  proof (cases "n < 10")
    case True
    then show ?thesis using digit [of n] by (simp add: show_nat.simps [of n] digits_value_def)
  next
    case False
    then show ?thesis using 1 digit [of "n mod 10"] by (simp add: show_nat.simps [of n] digits_value_snoc)
  qed
qed

lemma show_nat_plain: "\<not> (48 \<le> (of_char c :: nat) \<and> (of_char c :: nat) \<le> 57) \<Longrightarrow> c \<notin> set (show_nat n)"
  using show_nat_digits by blast

lemma signed_injective:
  assumes "(if a then ''-'' else []) @ show_nat m = (if b then ''-'' else []) @ show_nat n"
  shows "a = b \<and> m = n"
proof -
  have code: "(of_char (CHR ''-'') :: nat) = 45" by code_simp
  have minus: "CHR ''-'' \<notin> set (show_nat k)" for k by (rule show_nat_plain) (simp add: code)
  have "a = b"
  proof (rule ccontr)
    assume "a \<noteq> b"
    then have "show_nat m = CHR ''-'' # show_nat n \<or> show_nat n = CHR ''-'' # show_nat m" using assms by (auto split: if_splits)
    then have "CHR ''-'' \<in> set (show_nat m) \<or> CHR ''-'' \<in> set (show_nat n)" by (metis list.set_intros(1))
    with minus show False by blast
  qed
  with assms have "show_nat m = show_nat n" by auto
  with \<open>a = b\<close> show_nat_value show ?thesis by metis
qed

lemma ex_text_string: "decimal_string ex_text"
proof -
  have codes: "(of_char (CHR ''-'') :: nat) = 45" "(of_char (CHR ''E'') :: nat) = 69" "(of_char (CHR ''|'') :: nat) = 124"
    "(of_char (CHR 0x0A) :: nat) = 10" by code_simp+
  have plain: "CHR ''E'' \<notin> set (show_nat n)" "CHR ''|'' \<notin> set (show_nat n)" "CHR 0x0A \<notin> set (show_nat n)" for n
    using show_nat_plain [of "CHR ''E''" n] show_nat_plain [of "CHR ''|''" n] show_nat_plain [of "CHR 0x0A" n] codes by simp_all
  have int: "show_int i = (if i < 0 then ''-'' else []) @ show_nat (nat \<bar>i\<bar>)" for i by (simp add: show_int_def)
  have "x = y" if e: "ex_text x = ex_text y" for x y
  proof -
    have c: "(if d_neg x then ''-'' else []) @ show_nat (d_coeff x) = (if d_neg y then ''-'' else []) @ show_nat (d_coeff y) \<and>
        show_int (d_exp x) = show_int (d_exp y)"
      by (rule cut_at) (use e plain in \<open>auto simp: ex_text_def\<close>)
    then have "d_neg x = d_neg y" "d_coeff x = d_coeff y" using signed_injective by blast+
    moreover have "(d_exp x < 0) = (d_exp y < 0)" "nat \<bar>d_exp x\<bar> = nat \<bar>d_exp y\<bar>"
      using c signed_injective unfolding int by blast+
    then have "d_exp x = d_exp y" by linarith
    ultimately show ?thesis by simp
  qed
  moreover have "ex_text x \<noteq> [] \<and> CHR ''|'' \<notin> set (ex_text x) \<and> CHR 0x0A \<notin> set (ex_text x)" for x
    using plain by (auto simp: ex_text_def int)
  ultimately show ?thesis by (auto simp: decimal_string_def inj_def)
qed

theorem no_duplicates_silent_witness:
  "(\<exists>r. no_duplicates ex_text (ex_input [ex_move ''A'' ''B'' 5, ex_move ''B'' ''A'' (- 5)]) = Inr r \<and> res_diags r \<noteq> []) \<and>
   (\<exists>r. no_duplicates ex_text (ex_input [ex_move ''A'' ''B'' 5, ex_move ''B'' ''A'' 5]) = Inr r \<and> res_diags r = [])"
proof -
  let ?ds = "[ex_move ''A'' ''B'' 5, ex_move ''B'' ''A'' (- 5)]" and ?es = "[ex_move ''A'' ''B'' 5, ex_move ''B'' ''A'' 5]"
  obtain r q where r: "no_duplicates ex_text (ex_input ?ds) = Inr r" and q: "no_duplicates ex_text (ex_input ?es) = Inr q"
    by (simp add: no_duplicates_def)
  have plain: "list_all plain_names (transactions_in ?ds)" "list_all plain_names (transactions_in ?es)"
    by (simp_all add: ex_move_def ex_txn_def ex_posting_def ex_amt_def plain_names_def plain_posting_names_def)
  have "\<not> sorted_wrt (\<lambda>t u. \<not> similar t u) (transactions_in ?ds)"
    by (simp add: ex_move_def ex_txn_def ex_posting_def ex_amt_def similar_def add_mset_commute)
  moreover have "sorted_wrt (\<lambda>t u. \<not> similar t u) (transactions_in ?es)"
    by (simp add: ex_move_def ex_txn_def ex_posting_def ex_amt_def similar_def of_whole_def dec_def add_eq_conv_ex)
  ultimately show ?thesis
    using no_duplicates_silent [OF ex_text_string r ex_input_directives(1) plain(1)]
      no_duplicates_silent [OF ex_text_string q ex_input_directives(1) plain(2)] r q by blast
qed

section \<open>Closing postings\<close>

text \<open>An assertion of zero, without a tolerance.\<close>

definition zero_on :: "time \<Rightarrow> span \<Rightarrow> account \<Rightarrow> currency \<Rightarrow> balance_dir \<Rightarrow> bool" where
  "zero_on day sp a cur b \<longleftrightarrow> bal_date b = day \<and> bal_span b = sp \<and> bal_account b = a \<and>
     amt_currency (bal_amount b) = cur \<and> dval (amt_number (bal_amount b)) = 0 \<and> bal_tolerance b = None"

text \<open>The postings that are marked as closing, by a true boolean or by the text \<open>true\<close> in any case, with
  the currency of their amount; and what is kept of a posting.\<close>

definition marked :: "posting \<Rightarrow> bool" where
  "marked p \<longleftrightarrow> (\<exists>v. p_meta p ''closing'' = Some v \<and>
     (mv_kind v = MetaBool \<and> mv_bool v \<or> mv_kind v = MetaString \<and> equal_fold (mv_string v) ''true''))"

definition closings :: "posting list \<Rightarrow> (account \<times> currency) list" where
  "closings ps = map (\<lambda>p. (p_account p, amt_currency (the (p_amount p)))) (filter (\<lambda>p. marked p \<and> p_amount p \<noteq> None) ps)"

definition unmarked :: "posting \<Rightarrow> posting" where
  "unmarked p = (if marked p \<and> p_amount p \<noteq> None then p\<lparr>p_meta := (p_meta p)(''closing'' := None)\<rparr> else p)"

definition closed_up :: "directive \<Rightarrow> directive list \<Rightarrow> bool" where
  "closed_up d out \<longleftrightarrow> (case d of
     DTransaction t \<Rightarrow> (\<exists>bs. out = map DBalance bs @ [DTransaction (t\<lparr>txn_postings := map unmarked (txn_postings t)\<rparr>)] \<and>
       list_all2 (\<lambda>(a, cur). zero_on (txn_date t + 1) (txn_span t) a cur) (closings (txn_postings t)) bs)
   | _ \<Rightarrow> out = [d])"

lemma is_closing_marked: "is_closing (p_meta p) \<longleftrightarrow> marked p"
  by (auto simp: is_closing_def marked_def split: option.split meta_kind.split)

lemma expanded_posting: "fst (expand_posting t p) = unmarked p"
  by (auto simp: expand_posting_def unmarked_def is_closing_marked strip_closing_def split: option.split)

lemma closing_balances:
  "\<exists>bs. concat (map (\<lambda>p. snd (expand_posting t p)) ps) = map DBalance bs \<and>
     list_all2 (\<lambda>(a, cur). zero_on (txn_date t + 1) (txn_span t) a cur) (closings ps) bs"
proof (induction ps)
  case Nil
  show ?case by (simp add: closings_def)
next
  case (Cons p ps)
  then obtain bs where bs: "concat (map (\<lambda>p. snd (expand_posting t p)) ps) = map DBalance bs"
    "list_all2 (\<lambda>(a, cur). zero_on (txn_date t + 1) (txn_span t) a cur) (closings ps) bs" by blast
  show ?case
  proof (cases "marked p \<and> p_amount p \<noteq> None")
    case True
    then obtain amt where amt: "p_amount p = Some amt" by blast
    define b where "b = \<lparr>bal_span = txn_span t, bal_date = txn_date t + 1, bal_account = p_account p,
      bal_amount = \<lparr>amt_number = dzero, amt_currency = amt_currency amt\<rparr>, bal_tolerance = None,
      bal_meta = Map.empty, bal_diff = None\<rparr>"
    have "snd (expand_posting t p) = [DBalance b]"
      using True amt by (simp add: expand_posting_def is_closing_marked closing_balance_def b_def)
    moreover have "zero_on (txn_date t + 1) (txn_span t) (p_account p) (amt_currency amt) b" by (simp add: zero_on_def b_def)
    ultimately show ?thesis using True amt bs by (intro exI [of _ "b # bs"]) (simp add: closings_def)
  next
    case False
    then have "snd (expand_posting t p) = []" by (auto simp: expand_posting_def is_closing_marked split: option.split)
    with False bs show ?thesis by (auto simp: closings_def)
  qed
qed

lemma strip_not_closing [simp]: "\<not> is_closing (p_meta (strip_closing p))"
  by (simp add: is_closing_def strip_closing_def)

lemma expand_again: "expand_posting u (fst (expand_posting t p)) = (fst (expand_posting t p), [])"
  by (auto simp: expand_posting_def split: option.split)

lemma expand_closing_again:
  "expand_closing (fst (expand_closing t)) = (fst (expand_closing t), [])"
  by (simp add: expand_closing_def expand_again comp_def)

definition closing_step :: "directive \<Rightarrow> directive list" where
  "closing_step d = (case d of
     DTransaction t \<Rightarrow> (case expand_closing t of (t', balances) \<Rightarrow> balances @ [DTransaction t']) | _ \<Rightarrow> [d])"

lemma concat_fixed: "(\<And>p. concat (map f (g p)) = g p) \<Longrightarrow> concat (map f (concat (map g ps))) = concat (map g ps)"
  by (induction ps) simp_all

lemma closing_step_again: "concat (map closing_step (closing_step d)) = closing_step d"
proof (cases d)
  case (DTransaction t)
  have "concat (map closing_step (snd (expand_posting t p))) = snd (expand_posting t p)" for p
    by (auto simp: expand_posting_def closing_balance_def closing_step_def split: option.split)
  then have "concat (map closing_step (snd (expand_closing t))) = snd (expand_closing t)"
    unfolding expand_closing_def snd_conv by (rule concat_fixed)
  then show ?thesis
    using expand_closing_again [of t] by (simp add: DTransaction closing_step_def case_prod_beta)
qed (simp_all add: closing_step_def)

lemma check_closing_output:
  assumes "check_closing inp = Inr r" and "in_directives inp = Some ds"
  shows "output_of r ds = concat (map closing_step ds)"
  using assms by (cases ds) (auto simp: check_closing_def closing_step_def [abs_def])

lemma closing_step_closed_up: "closed_up d (closing_step d)"
proof (cases d)
  case (DTransaction t)
  obtain bs where "concat (map (\<lambda>p. snd (expand_posting t p)) (txn_postings t)) = map DBalance bs"
    "list_all2 (\<lambda>(a, cur). zero_on (txn_date t + 1) (txn_span t) a cur) (closings (txn_postings t)) bs"
    using closing_balances by blast
  then show ?thesis
    by (auto simp: DTransaction closing_step_def closed_up_def expand_closing_def expanded_posting)
qed (simp_all add: closing_step_def closed_up_def)

text \<open>C33 \<open>checkclosing\<close> puts before each transaction, for every posting in it that is marked as closing
  and has an amount, in their order, an assertion that the account holds zero of the currency on the day
  after the transaction; it takes the mark off these postings, and changes nothing else. So it leaves
  nothing to do: on what it returns it changes nothing.\<close>

theorem check_closing_complete:
  assumes "check_closing inp = Inr r" and "in_directives inp = Some ds"
  shows "(\<exists>blocks. output_of r ds = concat blocks \<and> list_all2 closed_up ds blocks) \<and>
    (\<forall>inp' r'. check_closing inp' = Inr r' \<and> in_directives inp' = Some (output_of r ds) \<longrightarrow>
       output_of r' (output_of r ds) = output_of r ds)"
proof -
  have out: "output_of r ds = concat (map closing_step ds)" by (rule check_closing_output [OF assms])
  have blocks: "list_all2 closed_up ds (map closing_step ds)"
    by (simp add: list_all2_conv_all_nth closing_step_closed_up)
  have fixed: "concat (map closing_step (output_of r ds)) = output_of r ds"
    unfolding out by (rule concat_fixed) (rule closing_step_again)
  have again: "output_of r' (output_of r ds) = output_of r ds"
    if "check_closing inp' = Inr r'" "in_directives inp' = Some (output_of r ds)" for inp' r'
    using check_closing_output [OF that] fixed by simp
  show ?thesis using out blocks again by blast
qed

theorem check_closing_complete_witness:
  "\<exists>r t u b. check_closing (ex_input [DTransaction t]) = Inr r \<and> txn_date t = 1 \<and>
     output_of r [DTransaction t] = [DBalance b, DTransaction u] \<and> zero_on 2 (txn_span t) ''A'' ''USD'' b"
proof -
  define p where "p = (ex_posting ''A'' (ex_amt 5 ''USD'') None)\<lparr>p_meta := Map.empty(''closing'' \<mapsto>
    \<lparr>mv_kind = MetaBool, mv_string = [], mv_date = 0, mv_number = dzero, mv_amount = \<lparr>amt_number = dzero, amt_currency = []\<rparr>, mv_bool = True\<rparr>)\<rparr>"
  define t where "t = ex_txn 1 [p]"
  have t: "txn_date t = 1" "closings (txn_postings t) = [(''A'', ''USD'')]"
    by (simp_all add: t_def ex_txn_def p_def closings_def marked_def ex_posting_def ex_amt_def)
  obtain r where r: "check_closing (ex_input [DTransaction t]) = Inr r" by (simp add: check_closing_def)
  obtain blocks where "output_of r [DTransaction t] = concat blocks" "list_all2 closed_up [DTransaction t] blocks"
    using check_closing_complete [OF r ex_input_directives(1)] by blast
  then have "closed_up (DTransaction t) (output_of r [DTransaction t])" by (auto simp: list_all2_Cons1)
  then have "\<exists>b u. output_of r [DTransaction t] = [DBalance b, DTransaction u] \<and> zero_on 2 (txn_span t) ''A'' ''USD'' b"
    by (auto simp: closed_up_def t list_all2_Cons1)
  with r t show ?thesis by blast
qed

section \<open>Drained accounts\<close>

fun held_by :: "directive \<Rightarrow> account \<Rightarrow> currency set" where
  "held_by (DTransaction t) a =
     {cur. \<exists>p amt. p \<in> set (txn_postings t) \<and> p_account p = a \<and> p_amount p = Some amt \<and> amt_currency amt = cur}"
| "held_by (DOpen x) a = (if open_account x = a then set (open_currencies x) else {})"
| "held_by d a = {}"

definition held_in :: "directive list \<Rightarrow> account \<Rightarrow> currency set" where
  "held_in ds a = (\<Union>d \<in> set ds. held_by d a)"

definition asserted_on :: "directive list \<Rightarrow> account \<Rightarrow> time \<Rightarrow> currency set" where
  "asserted_on ds a day =
     {cur. \<exists>b. DBalance b \<in> set ds \<and> bal_account b = a \<and> bal_date b = day \<and> amt_currency (bal_amount b) = cur}"

definition due_balances :: "directive list \<Rightarrow> close_dir \<Rightarrow> currency list" where
  "due_balances ds c =
     (if is_balance_sheet (close_account c)
      then sorted_list_of_set (held_in ds (close_account c) - asserted_on ds (close_account c) (close_date c)) else [])"

definition entries :: "('k \<times> 'v list) list \<Rightarrow> 'k \<Rightarrow> 'v list" where
  "entries m k = (case map_of m k of None \<Rightarrow> [] | Some vs \<Rightarrow> vs)"

lemma entries_add_to: "entries (add_to k v m) k' = (if k' = k then List.insert v (entries m k) else entries m k')"
  by (simp add: entries_def add_to_def update_conv')

lemma entries_transaction:
  "set (entries (foldl (\<lambda>m p. case p_amount p of None \<Rightarrow> m
     | Some a \<Rightarrow> if is_balance_sheet (p_account p) then add_to (p_account p) (amt_currency a) m else m) m ps) a) =
   set (entries m a) \<union> {cur. is_balance_sheet a \<and> (\<exists>p amt. p \<in> set ps \<and> p_account p = a \<and> p_amount p = Some amt \<and>
     amt_currency amt = cur)}"
proof (induction ps arbitrary: m)
  case (Cons p ps)
  then show ?case by (cases "p_amount p") (auto simp: entries_add_to)
qed simp

lemma entries_currencies:
  "set (entries (foldl (\<lambda>m c. add_to b c m) m cs) a) = set (entries m a) \<union> (if a = b then set cs else {})"
  by (induction cs arbitrary: m) (auto simp: entries_add_to)

lemma distinct_entries_foldl:
  assumes "\<And>m x. \<forall>a. distinct (entries m a) \<Longrightarrow> \<forall>a. distinct (entries (f m x) a)" and "\<forall>a. distinct (entries m a)"
  shows "\<forall>a. distinct (entries (foldl f m xs) a)"
  using assms(2) by (induction xs arbitrary: m) (auto intro: assms(1) [rule_format])

lemma drained_fold:
  assumes "fold drained_step ds (cs, bs) = (cs', bs')" and "\<forall>a. distinct (entries cs a)"
  shows "(\<forall>a. distinct (entries cs' a)) \<and>
    (\<forall>a. is_balance_sheet a \<longrightarrow> set (entries cs' a) = set (entries cs a) \<union> held_in ds a) \<and>
    (\<forall>a day cur. is_balance_sheet a \<longrightarrow>
      ((day, cur) \<in> set (entries bs' a) \<longleftrightarrow> (day, cur) \<in> set (entries bs a) \<or> cur \<in> asserted_on ds a day))"
  using assms
proof (induction ds arbitrary: cs bs)
  case Nil
  then show ?case by (simp add: held_in_def asserted_on_def)
next
  case (Cons d ds)
  obtain cs1 bs1 where d: "drained_step d (cs, bs) = (cs1, bs1)" by fastforce
  have dist: "\<forall>a. distinct (entries cs1 a)"
  proof -
    have step: "\<forall>a. distinct (entries m a) \<Longrightarrow> \<forall>a. distinct (entries (add_to b c m) a)" for m :: "(account \<times> currency list) list" and b c
      by (simp add: entries_add_to)
    show ?thesis
      using d Cons.prems(2)
      by (cases d) (auto simp: drained_step_def split: if_splits intro!: distinct_entries_foldl [rule_format] step [rule_format] split: option.split)
  qed
  have cs1: "set (entries cs1 a) = set (entries cs a) \<union> held_by d a" if "is_balance_sheet a" for a
  proof -
    have "cs1 = fst (drained_step d (cs, bs))" using d by simp
    then show ?thesis
      using that by (cases d) (simp_all add: drained_step_def entries_transaction entries_currencies)
  qed
  have bs1: "(day, cur) \<in> set (entries bs1 a) \<longleftrightarrow> (day, cur) \<in> set (entries bs a) \<or> cur \<in> asserted_on [d] a day"
    if "is_balance_sheet a" for a day cur
    using d that by (cases d) (auto simp: drained_step_def entries_add_to asserted_on_def split: if_splits)
  have held: "held_in (d # ds) a = held_by d a \<union> held_in ds a" and asserted_on: "asserted_on (d # ds) a day = asserted_on [d] a day \<union> asserted_on ds a day" for a day
    by (auto simp: held_in_def asserted_on_def)
  have "fold drained_step ds (cs1, bs1) = (cs', bs')" using Cons.prems(1) d by simp
  from Cons.IH [OF this dist] show ?case by (simp add: cs1 bs1 held asserted_on Un_assoc)
qed

lemma check_drained_output:
  assumes "check_drained inp = Inr r" and "in_directives inp = Some ds"
  shows "output_of r ds = concat (map (\<lambda>d. case d of
    DClose c \<Rightarrow> map (zero_balance c) (due_balances ds c) @ [d] | _ \<Rightarrow> [d]) ds)"
proof -
  obtain cs bs where f: "fold drained_step ds ([], []) = (cs, bs)" by fastforce
  have "\<forall>a. distinct (entries [] a :: currency list)" by (simp add: entries_def)
  note facts = drained_fold [OF f this]
  have "synthesize_balances (cs, bs) c = map (zero_balance c) (due_balances ds c)" if b: "is_balance_sheet (close_account c)" for c
  proof -
    let ?a = "close_account c"
    have curs: "set (entries cs ?a) = held_in ds ?a" "distinct (entries cs ?a)"
      using facts b by (simp_all add: entries_def)
    have known: "(close_date c, cur) \<in> set (entries bs ?a) \<longleftrightarrow> cur \<in> asserted_on ds ?a (close_date c)" for cur
      using facts b by (simp add: entries_def)
    have "filter (\<lambda>cur. cur \<notin> asserted_on ds ?a (close_date c)) (sort (entries cs ?a)) =
        sorted_list_of_set (held_in ds ?a - asserted_on ds ?a (close_date c))"
    proof (rule sorted_distinct_set_unique)
      have fin: "finite (held_in ds ?a - asserted_on ds ?a (close_date c))" using curs(1) finite_set by (metis finite_Diff)
      then show "set (filter (\<lambda>cur. cur \<notin> asserted_on ds ?a (close_date c)) (sort (entries cs ?a))) =
          set (sorted_list_of_set (held_in ds ?a - asserted_on ds ?a (close_date c)))"
        using curs(1) by auto
    qed (use curs(2) in \<open>simp_all add: sorted_wrt_filter\<close>)
    then show ?thesis
      using b known by (simp add: synthesize_balances_def Let_def due_balances_def entries_def [symmetric])
  qed
  then have "(case d of DClose c \<Rightarrow> if is_balance_sheet (close_account c) then synthesize_balances (cs, bs) c @ [d] else [d]
      | _ \<Rightarrow> [d]) = (case d of DClose c \<Rightarrow> map (zero_balance c) (due_balances ds c) @ [d] | _ \<Rightarrow> [d])" for d
    by (cases d) (simp_all add: due_balances_def)
  with assms f show ?thesis by (auto simp: check_drained_def Let_def)
qed

text \<open>What stands for a directive.\<close>

definition drained_out :: "directive list \<Rightarrow> directive \<Rightarrow> directive list \<Rightarrow> bool" where
  "drained_out ds d out \<longleftrightarrow> (case d of
     DClose c \<Rightarrow> (\<exists>bs. out = map DBalance bs @ [d] \<and>
       list_all2 (zero_on (close_date c + 1) (close_span c) (close_account c)) (due_balances ds c) bs)
   | _ \<Rightarrow> out = [d])"

lemma zero_balances: "\<exists>bs. map (zero_balance c) curs = map DBalance bs \<and>
    list_all2 (zero_on (close_date c + 1) (close_span c) (close_account c)) curs bs"
proof (induction curs)
  case (Cons cur curs)
  then obtain bs where bs: "map (zero_balance c) curs = map DBalance bs"
    "list_all2 (zero_on (close_date c + 1) (close_span c) (close_account c)) curs bs" by blast
  obtain b where "zero_balance c cur = DBalance b" "zero_on (close_date c + 1) (close_span c) (close_account c) cur b"
    by (simp add: zero_balance_def zero_on_def)
  with bs show ?case by (intro exI [of _ "b # bs"]) simp
qed simp

text \<open>C34 \<open>checkdrained\<close> inserts before the \<open>close\<close> of a balance-sheet account, for every currency that the
  ledger lets it hold or posts to it, in alphabetical order, an assertion that it holds zero of it on the
  day after the close, and changes nothing else; except where the ledger asserts a balance of the currency
  on the closing day itself. This is what the code does; the package comment says that an assertion on the
  day after is looked for, which is not the case.\<close>

theorem check_drained_exact:
  assumes "check_drained inp = Inr r" and "in_directives inp = Some ds"
  shows "\<exists>blocks. output_of r ds = concat blocks \<and> list_all2 (drained_out ds) ds blocks"
proof (intro exI conjI)
  let ?f = "\<lambda>d. case d of DClose c \<Rightarrow> map (zero_balance c) (due_balances ds c) @ [d] | _ \<Rightarrow> [d]"
  show "output_of r ds = concat (map ?f ds)" by (rule check_drained_output [OF assms])
  have "drained_out ds d (?f d)" for d
    using zero_balances by (cases d) (simp_all add: drained_out_def)
  then show "list_all2 (drained_out ds) ds (map ?f ds)" by (simp add: list_all2_conv_all_nth)
qed

theorem check_drained_exact_witness:
  "\<exists>r b b'. check_drained (ex_input [DOpen (ex_open_dir ''Assets:A'' 1 [''USD'', ''EUR'']), DClose (ex_close_dir ''Assets:A'' 4)]) = Inr r \<and>
    output_of r [DOpen (ex_open_dir ''Assets:A'' 1 [''USD'', ''EUR'']), DClose (ex_close_dir ''Assets:A'' 4)] =
      [DOpen (ex_open_dir ''Assets:A'' 1 [''USD'', ''EUR'']), DBalance b, DBalance b', DClose (ex_close_dir ''Assets:A'' 4)] \<and>
    zero_on 5 zero_span ''Assets:A'' ''EUR'' b \<and> zero_on 5 zero_span ''Assets:A'' ''USD'' b'"
proof -
  let ?o = "ex_open_dir ''Assets:A'' 1 [''USD'', ''EUR'']" and ?c = "ex_close_dir ''Assets:A'' 4"
  obtain r where r: "check_drained (ex_input [DOpen ?o, DClose ?c]) = Inr r" by (simp add: check_drained_def Let_def)
  have "held_in [DOpen ?o, DClose ?c] ''Assets:A'' = set [''USD'', ''EUR'']" "asserted_on [DOpen ?o, DClose ?c] ''Assets:A'' 4 = {}"
    by (auto simp: held_in_def asserted_on_def ex_open_dir_def ex_close_dir_def)
  moreover have "sort (remdups [''USD'', ''EUR'']) = [''EUR'', ''USD'']" "is_balance_sheet ''Assets:A''" by code_simp+
  ultimately have due: "due_balances [DOpen ?o, DClose ?c] ?c = [''EUR'', ''USD'']"
    unfolding due_balances_def ex_close_dir_def close_dir.simps by (simp only: sorted_list_of_set_sort_remdups Diff_empty if_True)
  obtain blocks where "output_of r [DOpen ?o, DClose ?c] = concat blocks"
    "list_all2 (drained_out [DOpen ?o, DClose ?c]) [DOpen ?o, DClose ?c] blocks"
    using check_drained_exact [OF r ex_input_directives(1)] by blast
  then have "drained_out [DOpen ?o, DClose ?c] (DClose ?c) (tl (output_of r [DOpen ?o, DClose ?c]))"
    "output_of r [DOpen ?o, DClose ?c] = DOpen ?o # tl (output_of r [DOpen ?o, DClose ?c])"
    by (auto simp: list_all2_Cons1 drained_out_def)
  moreover have "close_date ?c = 4" "close_span ?c = zero_span" "close_account ?c = ''Assets:A''" by (simp_all add: ex_close_dir_def)
  ultimately show ?thesis using r by (auto simp: drained_out_def due list_all2_Cons1)
qed

section \<open>Undeclared commodities\<close>

definition used_currencies :: "directive list \<Rightarrow> currency set" where
  "used_currencies ds = snd ` set (concat (map account_occurrences ds)) \<union> snd ` set (concat (map price_occurrences ds))"

definition declared_currencies :: "directive list \<Rightarrow> currency set" where
  "declared_currencies ds = {com_currency x |x. DCommodity x \<in> set ds}"

lemma missing_accounts:
  assumes "missing_in_accounts declared [] occs issued ignored = (out, issued', ignored')"
  shows "ignored' = ignored \<and> set issued' = set issued \<union> snd ` set out \<and> distinct (map snd out) \<and>
    snd ` set out = snd ` set occs - set declared - set issued \<and> set out \<subseteq> set occs"
  using assms
proof (induction occs arbitrary: issued out)
  case (Cons occ occs)
  show ?case
  proof (cases "snd occ \<in> set declared \<or> snd occ \<in> set issued")
    case True
    then have "missing_in_accounts declared [] occs issued ignored = (out, issued', ignored')" using Cons.prems by auto
    from Cons.IH [OF this] True show ?thesis by auto
  next
    case False
    then obtain out1 where out: "out = occ # out1"
      and o1: "missing_in_accounts declared [] occs (snd occ # issued) ignored = (out1, issued', ignored')"
      using Cons.prems by (auto simp: matches_ignore_def split: prod.splits)
    from Cons.IH [OF o1] False show ?thesis by (auto simp: out)
  qed
qed simp

lemma missing_prices:
  "distinct (map snd (missing_in_prices declared occs issued [])) \<and>
   snd ` set (missing_in_prices declared occs issued []) = snd ` set occs - set declared - set issued \<and>
   set (missing_in_prices declared occs issued []) \<subseteq> set occs"
proof (induction occs arbitrary: issued)
  case (Cons occ occs)
  then show ?case
    using Cons.IH [of issued] Cons.IH [of "snd occ # issued"] by auto
qed simp

text \<open>With no configuration, \<open>checkcommodity\<close> reports every currency that an account or a price uses and
  no \<open>commodity\<close> declares, each once.\<close>

theorem check_commodity_exact:
  assumes "check_commodity U R J inp = Inr r" and "in_directives inp = Some ds" and "in_config inp = []"
  shows "\<exists>occs. res_diags r = map (\<lambda>occ. missing_commodity U occ (in_directive inp)) occs \<and> distinct (map snd occs) \<and>
    snd ` set occs = used_currencies ds - declared_currencies ds"
proof -
  let ?declared = "concat (map declared_commodities ds)"
  have d: "set ?declared = declared_currencies ds"
  proof -
    have "cur \<in> set (declared_commodities d) \<longleftrightarrow> (\<exists>x. d = DCommodity x \<and> com_currency x = cur)" for d cur
      by (cases d) auto
    then show ?thesis by (auto simp: declared_currencies_def)
  qed
  obtain out issued ignored where m: "missing_in_accounts ?declared []
      (sort_occurrences (concat (map account_occurrences ds))) [] [] = (out, issued, ignored)"
    by (metis prod_cases3)
  note acc = missing_accounts [OF m]
  let ?prices = "missing_in_prices ?declared (sort_occurrences (concat (map price_occurrences ds))) issued []"
  note pr = missing_prices [of ?declared "sort_occurrences (concat (map price_occurrences ds))" issued]
  have "res_diags r = map (\<lambda>occ. missing_commodity U occ (in_directive inp)) (out @ ?prices)"
    using assms m acc by (auto simp: check_commodity_def parse_ignores_def only_diags_def)
  moreover have "distinct (map snd (out @ ?prices))" using acc pr by auto
  moreover have "snd ` set (out @ ?prices) = used_currencies ds - declared_currencies ds"
  proof -
    have sets: "set (sort_occurrences occs) = set occs" for occs by (simp add: sort_occurrences_def)
    have a: "snd ` set out = snd ` set (concat (map account_occurrences ds)) - declared_currencies ds"
      using acc unfolding sets d by simp
    have p: "snd ` set ?prices = snd ` set (concat (map price_occurrences ds)) - declared_currencies ds - set issued"
      using pr unfolding sets d by blast
    have i: "set issued = snd ` set out" using acc by simp
    show ?thesis unfolding set_append image_Un p i a used_currencies_def by blast
  qed
  ultimately show ?thesis by blast
qed

definition ex_unicode :: unicode where
  "ex_unicode r = ''Po''"

theorem check_commodity_exact_witness:
  "\<exists>r. check_commodity ex_unicode (\<lambda>_. Inl []) (\<lambda>_. Inl []) (ex_input [DOpen (ex_open_dir ''A'' 1 [''USD''])]) = Inr r \<and>
    length (res_diags r) = 1"
proof -
  let ?ds = "[DOpen (ex_open_dir ''A'' 1 [''USD''])]"
  obtain r where r: "check_commodity ex_unicode (\<lambda>_. Inl []) (\<lambda>_. Inl []) (ex_input ?ds) = Inr r"
    by (simp add: check_commodity_def parse_ignores_def Let_def case_prod_beta)
  obtain occs where o: "res_diags r = map (\<lambda>occ. missing_commodity ex_unicode occ (in_directive (ex_input ?ds))) occs"
    "distinct (map snd occs)" "snd ` set occs = used_currencies ?ds - declared_currencies ?ds"
    using check_commodity_exact [OF r ex_input_directives] by blast
  have "used_currencies ?ds - declared_currencies ?ds = {''USD''}"
    by (auto simp: used_currencies_def declared_currencies_def ex_open_dir_def)
  then have "card (set (map snd occs)) = 1" using o(3) by simp
  with o(2) have "length occs = 1" using distinct_card by force
  with o(1) r show ?thesis by auto
qed

end
