(* ===== verification/Sprout_Checks.thy ===== *)
theory Sprout_Checks
  imports Std_Checks Validators
begin

text \<open>
  The plugins of \<open>pkg/ext/postproc/sprout\<close> that report and change nothing (\<open>checkmetadata\<close>,
  \<open>commoditypattern\<close>, \<open>leafonly\<close>, \<open>tradingvalidation\<close>), and \<open>std/sellgains\<close>. Regular expressions are the
  argument \<open>R\<close>, \<open>unicode.ToLower\<close> of a rune is \<open>L\<close>; what a failed addition leaves in its destination, which
  \<open>sellgains\<close> goes on with, is \<open>F\<close>.
\<close>

section \<open>Texts\<close>

text \<open>\<open>strings.TrimSpace\<close> and \<open>strings.Fields\<close>.\<close>

definition space_at :: "unicode \<Rightarrow> nat \<times> nat \<Rightarrow> bool" where
  "space_at U x \<longleftrightarrow> Lower.is_space U (snd x)"

definition rune_end :: "string \<Rightarrow> nat \<times> nat \<Rightarrow> nat" where
  "rune_end s x = fst x + snd (decode_rune (drop (fst x) s))"

definition trim_text :: "unicode \<Rightarrow> string \<Rightarrow> string" where
  "trim_text U s =
     (case filter (\<lambda>x. \<not> space_at U x) (runes 0 s) of
        [] \<Rightarrow> []
      | x # xs \<Rightarrow> slice s (fst x) (rune_end s (List.last (x # xs))))"

fun field_runes :: "unicode \<Rightarrow> (nat \<times> nat) list \<Rightarrow> (nat \<times> nat) list \<Rightarrow> (nat \<times> nat) list list" where
  "field_runes U cur [] = (if cur = [] then [] else [cur])"
| "field_runes U cur (x # xs) =
     (if \<not> space_at U x then field_runes U (cur @ [x]) xs
      else (if cur = [] then [] else [cur]) @ field_runes U [] xs)"

definition text_fields :: "unicode \<Rightarrow> string \<Rightarrow> string list" where
  "text_fields U s = map (\<lambda>f. slice s (fst (hd f)) (rune_end s (List.last f))) (field_runes U [] (runes 0 s))"

definition lower_text :: "(nat \<Rightarrow> nat) \<Rightarrow> string \<Rightarrow> string" where
  "lower_text L s = concat (map (\<lambda>x. encode_rune (L (snd x))) (runes 0 s))"

definition has_prefix :: "string \<Rightarrow> string \<Rightarrow> bool" where
  "has_prefix s p \<longleftrightarrow> take (length p) s = p"

section \<open>Metadata that must be there\<close>

text \<open>\<open>ast.AccountOf\<close>.\<close>

fun account_of :: "directive \<Rightarrow> account option" where
  "account_of (DOpen x) = Some (open_account x)"
| "account_of (DClose x) = Some (close_account x)"
| "account_of (DBalance x) = Some (bal_account x)"
| "account_of (DPad x) = Some (pad_account x)"
| "account_of (DNote x) = Some (note_account x)"
| "account_of (DDocument x) = Some (doc_account x)"
| "account_of d = None"

definition valid_directives :: "string list" where
  "valid_directives = [''open'', ''close'', ''balance'', ''note'', ''document'', ''commodity'']"

definition config_lines :: "unicode \<Rightarrow> string \<Rightarrow> string list" where
  "config_lines U config =
     filter (\<lambda>l. l \<noteq> []) (map (trim_text U) (split_on (CHR 0x0A) (trim_text U config)))"

definition metadata_config :: "unicode \<Rightarrow> (nat \<Rightarrow> nat) \<Rightarrow> string \<Rightarrow> string \<times> string \<times> string list" where
  "metadata_config U L config =
     (case config_lines U config of
        [] \<Rightarrow> ([], [], [])
      | l # ls \<Rightarrow>
          (lower_text L (hd (text_fields U l)),
           if 2 \<le> length (text_fields U l) then join_with '' '' (tl (text_fields U l)) else [],
           ls))"

definition leaf_accounts :: "directive list \<Rightarrow> string \<Rightarrow> account list" where
  "leaf_accounts ds prefix =
     (let refs = fold (\<lambda>d refs. case d of DPad x \<Rightarrow> refs
            | _ \<Rightarrow> (case account_of d of None \<Rightarrow> refs | Some a \<Rightarrow> List.insert a refs)) ds []
      in filter (\<lambda>a. a \<notin> set (non_leaves refs) \<and>
           (prefix = [] \<or> a = prefix \<or> has_prefix a (prefix @ '':''))) refs)"

definition missing_keys :: "metadata \<Rightarrow> string list \<Rightarrow> string list" where
  "missing_keys meta required = sort (filter (\<lambda>k. meta k = None) required)"

definition missing_diags ::
  "unicode \<Rightarrow> metadata \<Rightarrow> span \<Rightarrow> string list \<Rightarrow> string \<Rightarrow> account \<Rightarrow> currency \<Rightarrow> diagnostic list" where
  "missing_diags U meta sp required name acct cur =
     (if missing_keys meta required = [] then []
      else let text = join_with '', '' (missing_keys meta required) in
       [mk_diag ''check-metadata-missing'' sp
         (if name = ''Commodity'' then ''commodity '' @ quote_text U cur @ '' is missing required metadata: '' @ text
          else name @ '' directive for account '' @ quote_text U acct @ '' is missing required metadata: '' @ text)])"

text \<open>The metadata, span and account of a directive of the configured type.\<close>

definition checked_part :: "directive \<Rightarrow> string \<Rightarrow> (metadata \<times> span \<times> account) option" where
  "checked_part d name =
     (case d of
        DOpen x \<Rightarrow> if name = ''open'' then Some (open_meta x, open_span x, open_account x) else None
      | DClose x \<Rightarrow> if name = ''close'' then Some (close_meta x, close_span x, close_account x) else None
      | DBalance x \<Rightarrow> if name = ''balance'' then Some (bal_meta x, bal_span x, bal_account x) else None
      | DNote x \<Rightarrow> if name = ''note'' then Some (note_meta x, note_span x, note_account x) else None
      | DDocument x \<Rightarrow> if name = ''document'' then Some (doc_meta x, doc_span x, doc_account x) else None
      | _ \<Rightarrow> None)"

definition check_directive :: "unicode \<Rightarrow> directive \<Rightarrow> string \<Rightarrow> string list \<Rightarrow> account list \<Rightarrow> diagnostic list" where
  "check_directive U d name keys leaves =
     (if name = ''commodity''
      then (case d of DCommodity x \<Rightarrow> missing_diags U (com_meta x) (com_span x) keys ''Commodity'' [] (com_currency x) | _ \<Rightarrow> [])
      else case checked_part d name of
        None \<Rightarrow> []
      | Some (meta, sp, a) \<Rightarrow>
          if a \<notin> set leaves then []
          else missing_diags U meta sp keys (to_upper (take 1 name) @ drop 1 name) a [])"

definition check_metadata :: "unicode \<Rightarrow> (nat \<Rightarrow> nat) \<Rightarrow> plugin" where
  "check_metadata U L inp =
     (case metadata_config U L (in_config inp) of (name, prefix, keys) \<Rightarrow>
      if name = [] \<or> keys = [] then Inr no_change
      else if name \<notin> set valid_directives
      then Inr (only_diags [mk_diag ''check-metadata-invalid-config'' (trigger_span (in_directive inp))
        (''unknown directive type: '' @ quote_text U name @ ''; valid types: '' @
         join_with '', '' (sort valid_directives))])
      else case in_directives inp of
        None \<Rightarrow> Inr no_change
      | Some ds \<Rightarrow>
          let leaves = (if name = ''commodity'' then [] else leaf_accounts ds prefix) in
          Inr (only_diags (concat (map (\<lambda>d. check_directive U d name keys leaves) ds))))"

section \<open>Commodities that must match a pattern\<close>

type_synonym patterns = "account \<rightharpoonup> (string \<Rightarrow> bool) \<times> string"

definition full_match :: "string \<Rightarrow> string" where
  "full_match pattern = anchored pattern @ [CHR 0x5C, CHR ''z'']"

fun build_patterns ::
  "unicode \<Rightarrow> regexps \<Rightarrow> plugin_dir option \<Rightarrow> directive list \<Rightarrow> patterns \<Rightarrow> patterns \<times> diagnostic list" where
  "build_patterns U R trigger [] m = (m, [])"
| "build_patterns U R trigger (d # ds) m =
     (case d of
        DOpen x \<Rightarrow>
          (case open_meta x ''commodity-pattern'' of
             None \<Rightarrow> build_patterns U R trigger ds m
           | Some v \<Rightarrow>
               (case R (full_match (mv_string v)) of
                  Inl e \<Rightarrow> (case build_patterns U R trigger ds m of (m', diags) \<Rightarrow>
                    (m', mk_diag ''commodity-pattern-invalid-regexp''
                       (span_or_trigger (Some (open_span x)) trigger)
                       (''invalid regex pattern '' @ quote_text U (mv_string v) @ '' for account '' @
                        quote_text U (open_account x) @ '': '' @ e) # diags))
                | Inr f \<Rightarrow> build_patterns U R trigger ds (m(open_account x \<mapsto> (f, mv_string v)))))
      | _ \<Rightarrow> build_patterns U R trigger ds m)"

definition posting_span :: "posting \<Rightarrow> transaction \<Rightarrow> plugin_dir option \<Rightarrow> span" where
  "posting_span p t trigger =
     (if p_span p \<noteq> zero_span then p_span p
      else if txn_span t \<noteq> zero_span then txn_span t else trigger_span trigger)"

definition pattern_diags :: "unicode \<Rightarrow> patterns \<Rightarrow> plugin_dir option \<Rightarrow> transaction \<Rightarrow> diagnostic list" where
  "pattern_diags U m trigger t =
     concat (map (\<lambda>p. case p_amount p of
        None \<Rightarrow> []
      | Some a \<Rightarrow>
          (case m (p_account p) of
             None \<Rightarrow> []
           | Some (f, pattern) \<Rightarrow>
               if f (amt_currency a) then []
               else [mk_diag ''commodity-pattern-mismatch'' (posting_span p t trigger)
                 (''Commodity '' @ quote_text U (amt_currency a) @ '' in account '' @ quote_text U (p_account p) @
                  '' does not match pattern '' @ quote_text U pattern)])) (txn_postings t))"

definition commodity_pattern :: "unicode \<Rightarrow> regexps \<Rightarrow> plugin" where
  "commodity_pattern U R inp =
     (case in_directives inp of
        None \<Rightarrow> Inr no_change
      | Some ds \<Rightarrow>
          (case build_patterns U R (in_directive inp) ds Map.empty of (m, invalid) \<Rightarrow>
             if invalid \<noteq> [] then Inr (only_diags invalid)
             else Inr (only_diags (concat (map (pattern_diags U m (in_directive inp)) (transactions_in ds))))))"

section \<open>Postings and pads on accounts that are not leaves\<close>

fun pads_in :: "directive list \<Rightarrow> pad_dir list" where
  "pads_in [] = []"
| "pads_in (d # ds) = (case d of DPad x \<Rightarrow> x # pads_in ds | _ \<Rightarrow> pads_in ds)"

definition non_leaf :: "account \<Rightarrow> span \<Rightarrow> diagnostic" where
  "non_leaf a sp = mk_diag ''non-leaf-account'' sp
     (''non-leaf account '' @ [CHR 0x27] @ a @ [CHR 0x27] @ '' has transactions or pad directives on it'')"

definition sprout_leaf_only :: plugin where
  "sprout_leaf_only inp =
     (case in_directives inp of
        None \<Rightarrow> Inr no_change
      | Some ds \<Rightarrow>
          let bad = non_leaves (fold leaf_refs ds []) in
          Inr (only_diags
            (concat (map (\<lambda>t. map (\<lambda>p. non_leaf (p_account p) (posting_span p t (in_directive inp)))
               (filter (\<lambda>p. p_account p \<in> set bad) (txn_postings t))) (transactions_in ds)) @
             map (\<lambda>x. non_leaf (pad_account x) (span_or_trigger (Some (pad_span x)) (in_directive inp)))
               (filter (\<lambda>x. pad_account x \<in> set bad) (pads_in ds)))))"

section \<open>Trading accounts\<close>

definition is_trading :: "string \<Rightarrow> account \<Rightarrow> bool" where
  "is_trading prefix a \<longleftrightarrow> a = prefix \<or> has_prefix a (prefix @ '':'')"

fun disabled_commodities :: "directive list \<Rightarrow> currency list" where
  "disabled_commodities [] = []"
| "disabled_commodities (d # ds) =
     (case d of
        DCommodity x \<Rightarrow>
          (case com_meta x ''trading-account'' of
             Some v \<Rightarrow> if mv_kind v = MetaString \<and> mv_string v = ''disabled''
               then com_currency x # disabled_commodities ds else disabled_commodities ds
           | None \<Rightarrow> disabled_commodities ds)
      | _ \<Rightarrow> disabled_commodities ds)"

text \<open>The sums of the weights; a weight that is absent or fails is left out.\<close>

fun trading_sums :: "apd \<Rightarrow> posting list \<Rightarrow> currency_sum \<Rightarrow> currency_sum result" where
  "trading_sums A [] acc = Inr acc"
| "trading_sums A (p # ps) acc =
     (case posting_weight A p of
        Inl (Panic e) \<Rightarrow> Inl (Panic e)
      | Inl (SysErr e) \<Rightarrow> trading_sums A ps acc
      | Inr None \<Rightarrow> trading_sums A ps acc
      | Inr (Some w) \<Rightarrow>
          rbind (rewrap ''accumulate posting weight'' (sum_add A acc w)) (trading_sums A ps))"

fun outside :: "apd \<Rightarrow> currency_sum \<Rightarrow> (currency \<rightharpoonup> decimal) \<Rightarrow> currency list \<Rightarrow> (currency \<times> decimal) list result" where
  "outside A acc tols [] = Inr []"
| "outside A acc tols (c # cs) =
     rbind (deref (map_of acc c)) (\<lambda>s.
     rbind (deref (tols c)) (\<lambda>t.
     rbind (rewrap ''check tolerance'' (within_tol A s t)) (\<lambda>ok.
     rbind (outside A acc tols cs) (\<lambda>rs. Inr (if ok then rs else (c, s) # rs)))))"

definition trading_residuals ::
  "apd \<Rightarrow> option_values option \<Rightarrow> posting list \<Rightarrow> (currency \<times> decimal) list result" where
  "trading_residuals A opts ps =
     (if ps = [] then Inr []
      else rbind (trading_sums A ps []) (\<lambda>acc.
        let non_zero = non_zero_currencies A acc in
        if non_zero = [] then Inr []
        else rbind (rewrap ''infer tolerance'' (infer A ps opts non_zero)) (\<lambda>tols. outside A acc tols non_zero)))"

definition effective_commodity :: "currency list \<Rightarrow> posting \<Rightarrow> currency option" where
  "effective_commodity disabled p =
     (case p_amount p of
        None \<Rightarrow> None
      | Some a \<Rightarrow>
          if amt_currency a \<in> set disabled then map_option (\<lambda>pr. amt_currency (pa_amount pr)) (p_price p)
          else Some (amt_currency a))"

definition effective_commodities :: "currency list \<Rightarrow> posting list \<Rightarrow> currency list" where
  "effective_commodities disabled ps = sort (remdups (List.map_filter (effective_commodity disabled) ps))"

definition postings_for_commodity :: "currency list \<Rightarrow> currency \<Rightarrow> posting list \<Rightarrow> posting list" where
  "postings_for_commodity disabled c ps =
     List.map_filter (\<lambda>p. case p_amount p of
        None \<Rightarrow> None
      | Some a \<Rightarrow>
          if amt_currency a \<in> set disabled
          then (case p_price p of
                  None \<Rightarrow> None
                | Some pr \<Rightarrow> if amt_currency (pa_amount pr) \<noteq> c then None else Some p)
          else if amt_currency a \<noteq> c then None
          else Some (p\<lparr>p_cost := None, p_price := None\<rparr>)) ps"

fun commodity_residuals ::
  "apd \<Rightarrow> option_values option \<Rightarrow> currency list \<Rightarrow> span \<Rightarrow> posting list \<Rightarrow> currency list \<Rightarrow> diagnostic list result" where
  "commodity_residuals A opts disabled sp ps [] = Inr []"
| "commodity_residuals A opts disabled sp ps (c # cs) =
     rbind (trading_residuals A opts (postings_for_commodity disabled c ps)) (\<lambda>rs.
     rbind (commodity_residuals A opts disabled sp ps cs) (\<lambda>rest.
       Inr (map (\<lambda>(cur, s). mk_diag ''trading-commodity-not-balanced'' sp
         (''commodity '' @ c @ '' does not balance: '' @ apd_text A s @ '' '' @ cur)) rs @ rest)))"

definition check_trading ::
  "apd \<Rightarrow> transaction \<Rightarrow> string \<Rightarrow> currency list \<Rightarrow> option_values option \<Rightarrow> plugin_dir option \<Rightarrow> diagnostic list result" where
  "check_trading A t prefix disabled opts trigger =
     (let sp = span_or_trigger (Some (txn_span t)) trigger;
          ps = txn_postings t;
          say = (\<lambda>side (cur, s). mk_diag ''trading-not-balanced'' sp
            (side @ '' accounts do not balance for '' @ cur @ '': '' @ apd_text A s))
      in
      rbind (trading_residuals A opts (filter (\<lambda>p. is_trading prefix (p_account p)) ps)) (\<lambda>r1.
      rbind (trading_residuals A opts (filter (\<lambda>p. \<not> is_trading prefix (p_account p)) ps)) (\<lambda>r2.
      rbind (commodity_residuals A opts disabled sp ps (effective_commodities disabled ps)) (\<lambda>r3.
        Inr (map (say ''trading'') r1 @ map (say ''non-trading'') r2 @ r3)))))"

fun trading_loop ::
  "apd \<Rightarrow> string \<Rightarrow> currency list \<Rightarrow> option_values option \<Rightarrow> plugin_dir option \<Rightarrow> transaction list \<Rightarrow> diagnostic list result" where
  "trading_loop A prefix disabled opts trigger [] = Inr []"
| "trading_loop A prefix disabled opts trigger (t # ts) =
     (if \<not> list_ex (\<lambda>p. is_trading prefix (p_account p)) (txn_postings t)
      then trading_loop A prefix disabled opts trigger ts
      else rbind (check_trading A t prefix disabled opts trigger) (\<lambda>ds.
           rbind (trading_loop A prefix disabled opts trigger ts) (\<lambda>rest. Inr (ds @ rest))))"

definition trading_validation :: "unicode \<Rightarrow> apd \<Rightarrow> plugin" where
  "trading_validation U A inp =
     (let prefix = (if trim_text U (in_config inp) = [] then ''Equity:Trading'' else trim_text U (in_config inp)) in
      case in_directives inp of
        None \<Rightarrow> Inr no_change
      | Some ds \<Rightarrow> rbind (trading_loop A prefix (disabled_commodities ds) (in_options inp) (in_directive inp) (transactions_in ds))
          (\<lambda>diags. Inr (only_diags diags)))"

section \<open>Gains of sales\<close>

definition price_contribution :: "apd \<Rightarrow> posting \<Rightarrow> amount result" where
  "price_contribution A p =
     rbind (deref (p_price p)) (\<lambda>pr.
     rbind (deref (p_amount p)) (\<lambda>amt.
     rbind (if pa_is_total pr
            then (if apd_sign A (amt_number amt) = 0 then Inr dzero
                  else if apd_sign A (amt_number amt) = - 1 then Inr (amt_number (pa_amount pr))
                  else plain_err (apd_neg A (amt_number (pa_amount pr))))
            else rbind (plain_err (apd_neg A (amt_number amt))) (\<lambda>neg.
                 plain_err (apd_mul A (amt_number (pa_amount pr)) neg)))
       (\<lambda>n. Inr \<lparr>amt_number = n, amt_currency = amt_currency (pa_amount pr)\<rparr>)))"

definition add_into ::
  "unicode \<Rightarrow> apd \<Rightarrow> (decimal \<Rightarrow> decimal \<Rightarrow> decimal) \<Rightarrow> amount \<Rightarrow> currency_sum \<Rightarrow> currency_sum" where
  "add_into U A F delta m =
     (let cur = trim_text U (amt_currency delta) in
      if cur = [] then m
      else let cell = (case map_of m cur of None \<Rightarrow> dzero | Some s \<Rightarrow> s) in
        AList.update cur (case apd_add A cell (amt_number delta) of Inl _ \<Rightarrow> F cell (amt_number delta) | Inr s \<Rightarrow> s) m)"

text \<open>None stands for the early return without a finding.\<close>

fun total_price ::
  "unicode \<Rightarrow> apd \<Rightarrow> (decimal \<Rightarrow> decimal \<Rightarrow> decimal) \<Rightarrow> posting list \<Rightarrow> currency_sum \<Rightarrow> currency_sum option result" where
  "total_price U A F [] m = Inr (Some m)"
| "total_price U A F (p # ps) m =
     (case price_contribution A p of
        Inl (Panic e) \<Rightarrow> Inl (Panic e)
      | Inl (SysErr e) \<Rightarrow> Inr None
      | Inr c \<Rightarrow> total_price U A F ps (add_into U A F c m))"

definition proceeds_roots :: "account list" where
  "proceeds_roots = [''Assets'', ''Liabilities'', ''Equity'', ''Expenses'']"

fun total_proceeds ::
  "unicode \<Rightarrow> apd \<Rightarrow> (decimal \<Rightarrow> decimal \<Rightarrow> decimal) \<Rightarrow> posting list \<Rightarrow> currency_sum \<Rightarrow> currency_sum option result" where
  "total_proceeds U A F [] m = Inr (Some m)"
| "total_proceeds U A F (p # ps) m =
     (if p_cost p \<noteq> None \<or> acct_root (p_account p) \<notin> set proceeds_roots then total_proceeds U A F ps m
      else case posting_weight A p of
        Inl (Panic e) \<Rightarrow> Inl (Panic e)
      | Inl (SysErr e) \<Rightarrow> Inr None
      | Inr None \<Rightarrow> total_proceeds U A F ps m
      | Inr (Some w) \<Rightarrow> total_proceeds U A F ps (add_into U A F w m))"

fun min_exponents :: "posting list \<Rightarrow> (currency \<rightharpoonup> int) \<Rightarrow> (currency \<rightharpoonup> int)" where
  "min_exponents [] m = m"
| "min_exponents (p # ps) m =
     (case p_amount p of
        None \<Rightarrow> min_exponents ps m
      | Some a \<Rightarrow>
          if (case m (amt_currency a) of None \<Rightarrow> True | Some e \<Rightarrow> d_exp (amt_number a) < e)
          then min_exponents ps (m(amt_currency a \<mapsto> d_exp (amt_number a)))
          else min_exponents ps m)"

definition sale_tolerance :: "apd \<Rightarrow> posting list \<Rightarrow> currency \<Rightarrow> decimal" where
  "sale_tolerance A ps cur =
     (case min_exponents ps Map.empty cur of
        None \<Rightarrow> dzero
      | Some e \<Rightarrow>
          let base = dec False 5 (- 1 + e) in
          (case apd_mul A base (dec False 2 0) of Inl _ \<Rightarrow> base | Inr t \<Rightarrow> t))"

text \<open>The currencies that disagree; None as above.\<close>

fun disagreements ::
  "apd \<Rightarrow> posting list \<Rightarrow> currency_sum \<Rightarrow> currency_sum \<Rightarrow> currency list \<Rightarrow> string list option" where
  "disagreements A ps prices proceeds [] = Some []"
| "disagreements A ps prices proceeds (cur # cs) =
     (let price = (case map_of prices cur of None \<Rightarrow> dzero | Some s \<Rightarrow> s);
          proc = (case map_of proceeds cur of None \<Rightarrow> dzero | Some s \<Rightarrow> s);
          tol = sale_tolerance A ps cur
      in case apd_sub A price proc of
           Inl _ \<Rightarrow> None
         | Inr diff \<Rightarrow>
             (case apd_abs A diff of
                Inl _ \<Rightarrow> None
              | Inr mag \<Rightarrow>
                  (case disagreements A ps prices proceeds cs of
                     None \<Rightarrow> None
                   | Some rest \<Rightarrow>
                       if 0 < apd_cmp A mag tol
                       then Some ((cur @ '': price='' @ apd_text A price @ '' proceeds='' @ apd_text A proc @
                          '' diff='' @ apd_text A diff @ '' tol='' @ apd_text A tol) # rest)
                       else Some rest)))"

definition check_sale ::
  "unicode \<Rightarrow> apd \<Rightarrow> (decimal \<Rightarrow> decimal \<Rightarrow> decimal) \<Rightarrow> transaction \<Rightarrow> plugin_dir option \<Rightarrow> diagnostic list result" where
  "check_sale U A F t trigger =
     (let at_cost = filter (\<lambda>p. p_cost p \<noteq> None) (txn_postings t) in
      if at_cost = [] then Inr []
      else if list_ex (\<lambda>p. p_price p = None) at_cost then Inr []
      else rbind (total_price U A F at_cost []) (\<lambda>prices.
        case prices of
          None \<Rightarrow> Inr []
        | Some prices \<Rightarrow>
            rbind (total_proceeds U A F (txn_postings t) []) (\<lambda>proceeds.
              case proceeds of
                None \<Rightarrow> Inr []
              | Some proceeds \<Rightarrow>
                  (case disagreements A (txn_postings t) prices proceeds
                      (sort (remdups (map fst prices @ map fst proceeds))) of
                     None \<Rightarrow> Inr []
                   | Some [] \<Rightarrow> Inr []
                   | Some ws \<Rightarrow> Inr [mk_diag ''invalid-sell-gains'' (span_or_trigger (Some (txn_span t)) trigger)
                       (''Invalid price vs. proceeds for '' @ format_date (txn_date t) @ '': '' @ join_with ''; '' ws)]))))"

fun sale_loop ::
  "unicode \<Rightarrow> apd \<Rightarrow> (decimal \<Rightarrow> decimal \<Rightarrow> decimal) \<Rightarrow> plugin_dir option \<Rightarrow> transaction list \<Rightarrow> diagnostic list result" where
  "sale_loop U A F trigger [] = Inr []"
| "sale_loop U A F trigger (t # ts) =
     rbind (check_sale U A F t trigger) (\<lambda>ds. rbind (sale_loop U A F trigger ts) (\<lambda>rest. Inr (ds @ rest)))"

definition sell_gains :: "unicode \<Rightarrow> apd \<Rightarrow> (decimal \<Rightarrow> decimal \<Rightarrow> decimal) \<Rightarrow> plugin" where
  "sell_gains U A F inp =
     (case in_directives inp of
        None \<Rightarrow> Inr no_change
      | Some ds \<Rightarrow> rbind (sale_loop U A F (in_directive inp) (transactions_in ds)) (\<lambda>diags. Inr (only_diags diags)))"

end
