(* ===== verification/Sale_Contract.thy ===== *)
theory Sale_Contract
  imports Sprout_Checks Std_Contract
begin

text \<open>
  What \<open>sellgains\<close> promises: which sales it reports, stated by sums over the postings.
\<close>

section \<open>The two sides of a sale\<close>







section \<open>The sums\<close>








end
