(* ===== verification/Sprout_Edits.thy ===== *)
theory Sprout_Edits
  imports Sprout_Checks Dates
begin

text \<open>
  The plugins of \<open>pkg/ext/postproc/sprout\<close> that change directives: \<open>inheritmetadata\<close>, \<open>infermetadata\<close>,
  \<open>comprehensivebalance\<close> and \<open>fiscalincomeexpense\<close>. A YAML file is read by the argument \<open>Y\<close>, from the name
  of the source file and the path in the rule to an error or the parsed mapping (absent for an empty
  document); what a failed addition leaves in its destination is \<open>F\<close>.
\<close>

section \<open>Metadata from the accounts above\<close>

text \<open>\<open>bufio.Scanner\<close> stops at a line that does not fit its buffer.\<close>

definition scanned_lines :: "string \<Rightarrow> string list" where
  "scanned_lines s = takeWhile (\<lambda>l. length l < 65536) (split_on (CHR 0x0A) s)"

definition inherited_keys :: "unicode \<Rightarrow> string \<Rightarrow> string list" where
  "inherited_keys U config =
     filter (\<lambda>l. l \<noteq> [] \<and> \<not> has_prefix l '';'') (map (trim_text U) (scanned_lines config))"

type_synonym meta_index = "account \<Rightarrow> metadata"

definition index_open :: "string list \<Rightarrow> directive \<Rightarrow> meta_index \<Rightarrow> meta_index" where
  "index_open keys d index =
     (case d of
        DOpen x \<Rightarrow> index(open_account x := index (open_account x) ++ (open_meta x |` set keys))
      | _ \<Rightarrow> index)"

fun first_above :: "meta_index \<Rightarrow> string \<Rightarrow> account list \<Rightarrow> meta_value option" where
  "first_above index k [] = None"
| "first_above index k (a # as) = (case index a k of Some v \<Rightarrow> Some v | None \<Rightarrow> first_above index k as)"

definition find_inherited :: "account \<Rightarrow> string list \<Rightarrow> meta_index \<Rightarrow> metadata \<Rightarrow> metadata" where
  "find_inherited a keys index existing =
     (\<lambda>k. if k \<in> set keys \<and> existing k = None then first_above index k (acct_above a) else None)"

text \<open>Whether something is inherited is asked key by key.\<close>

definition inherits :: "string list \<Rightarrow> meta_index \<Rightarrow> directive \<Rightarrow> bool" where
  "inherits keys index d =
     (case d of
        DOpen x \<Rightarrow> list_ex (\<lambda>k. find_inherited (open_account x) keys index (open_meta x) k \<noteq> None) keys
      | _ \<Rightarrow> False)"

definition inherit_open :: "string list \<Rightarrow> meta_index \<Rightarrow> directive \<Rightarrow> directive" where
  "inherit_open keys index d =
     (case d of
        DOpen x \<Rightarrow> DOpen (x\<lparr>open_meta := open_meta x ++ find_inherited (open_account x) keys index (open_meta x)\<rparr>)
      | _ \<Rightarrow> d)"

definition inherit_metadata :: "unicode \<Rightarrow> plugin" where
  "inherit_metadata U inp =
     (case in_directives inp of
        None \<Rightarrow> Inr no_change
      | Some ds \<Rightarrow>
          let keys = inherited_keys U (in_config inp);
              index = fold (index_open keys) ds (\<lambda>_. Map.empty)
          in if keys = [] then Inr no_change
             else if \<not> list_ex (inherits keys index) ds then Inr no_change
             else Inr (replaced (map (inherit_open keys index) ds)))"

section \<open>Metadata from rules\<close>

record infer_rule =
  rl_directive :: string
  rl_target :: string
  rl_source :: string
  rl_file :: string

datatype yaml_value = YString string | YBool bool | YOther string

datatype yaml_load = Unreadable string | Unparsable string | Loaded "(string \<rightharpoonup> yaml_value) option"

type_synonym yaml_files = "string \<Rightarrow> string \<Rightarrow> yaml_load"

definition before_comment :: "string \<Rightarrow> string" where
  "before_comment l = takeWhile (\<lambda>c. c \<noteq> CHR '';'') l"

fun parse_rules :: "unicode \<Rightarrow> plugin_dir option \<Rightarrow> string list \<Rightarrow> infer_rule list \<times> diagnostic list" where
  "parse_rules U trigger [] = ([], [])"
| "parse_rules U trigger (raw # rest) =
     (case parse_rules U trigger rest of (rules, diags) \<Rightarrow>
      let line = trim_text U (before_comment raw); parts = text_fields U line in
      if line = [] then (rules, diags)
      else if length parts < 3 then (rules, mk_diag ''infer-metadata-invalid-config'' (trigger_span trigger)
        (''expected '' @ [CHR 0x27] @ ''<directive> <target> <source> [file:<path>]'' @ [CHR 0x27] @ '', got '' @
         quote_text U line) # diags)
      else (\<lparr>rl_directive = parts ! 0, rl_target = parts ! 1, rl_source = parts ! 2,
             rl_file = (if 4 \<le> length parts \<and> has_prefix (parts ! 3) ''file:'' then drop 5 (parts ! 3) else [])\<rparr> # rules,
            diags))"

definition resolve_file_rules ::
  "infer_rule list \<Rightarrow> string \<Rightarrow> plugin_dir option \<Rightarrow> diagnostic list \<Rightarrow> infer_rule list \<times> diagnostic list" where
  "resolve_file_rules rules src trigger diags =
     (if \<not> list_ex (\<lambda>r. rl_file r \<noteq> []) rules \<or> src \<noteq> [] then (rules, diags)
      else (filter (\<lambda>r. rl_file r = []) rules,
            diags @ [mk_diag ''infer-metadata-no-source-file'' (trigger_span trigger)
              ''cannot resolve YAML mapping path: api.Input.SourceFilename is empty; file-based rules skipped'']))"

fun directive_name :: "directive \<Rightarrow> string" where
  "directive_name (DOpen _) = ''open''"
| "directive_name (DClose _) = ''close''"
| "directive_name (DBalance _) = ''balance''"
| "directive_name (DPad _) = ''pad''"
| "directive_name (DDocument _) = ''document''"
| "directive_name (DNote _) = ''note''"
| "directive_name (DCommodity _) = ''commodity''"
| "directive_name (DTransaction _) = ''transaction''"
| "directive_name d = []"

text \<open>\<open>DirMeta\<close>.\<close>

fun dir_meta :: "directive \<Rightarrow> metadata" where
  "dir_meta (DOpen x) = open_meta x"
| "dir_meta (DClose x) = close_meta x"
| "dir_meta (DCommodity x) = com_meta x"
| "dir_meta (DBalance x) = bal_meta x"
| "dir_meta (DPad x) = pad_meta x"
| "dir_meta (DNote x) = note_meta x"
| "dir_meta (DDocument x) = doc_meta x"
| "dir_meta (DEvent x) = evt_meta x"
| "dir_meta (DQuery x) = qry_meta x"
| "dir_meta (DPrice x) = prc_meta x"
| "dir_meta (DTransaction x) = txn_meta x"
| "dir_meta (DCustom x) = cus_meta x"
| "dir_meta d = Map.empty"

fun with_meta :: "directive \<Rightarrow> metadata \<Rightarrow> directive" where
  "with_meta (DOpen x) m = DOpen (x\<lparr>open_meta := m\<rparr>)"
| "with_meta (DClose x) m = DClose (x\<lparr>close_meta := m\<rparr>)"
| "with_meta (DCommodity x) m = DCommodity (x\<lparr>com_meta := m\<rparr>)"
| "with_meta (DBalance x) m = DBalance (x\<lparr>bal_meta := m\<rparr>)"
| "with_meta (DPad x) m = DPad (x\<lparr>pad_meta := m\<rparr>)"
| "with_meta (DNote x) m = DNote (x\<lparr>note_meta := m\<rparr>)"
| "with_meta (DDocument x) m = DDocument (x\<lparr>doc_meta := m\<rparr>)"
| "with_meta (DEvent x) m = DEvent (x\<lparr>evt_meta := m\<rparr>)"
| "with_meta (DQuery x) m = DQuery (x\<lparr>qry_meta := m\<rparr>)"
| "with_meta (DPrice x) m = DPrice (x\<lparr>prc_meta := m\<rparr>)"
| "with_meta (DTransaction x) m = DTransaction (x\<lparr>txn_meta := m\<rparr>)"
| "with_meta (DCustom x) m = DCustom (x\<lparr>cus_meta := m\<rparr>)"
| "with_meta d m = d"

definition leaf_name :: "account \<Rightarrow> string" where
  "leaf_name a = (case last_index_byte a (CHR '':'') of Some i \<Rightarrow> drop (i + 1) a | None \<Rightarrow> a)"

definition source_value :: "directive \<Rightarrow> string \<Rightarrow> metadata \<Rightarrow> meta_value option" where
  "source_value d source props =
     (if source = ''__commodity__''
      then (case d of DCommodity x \<Rightarrow> Some (meta_string MetaCurrency (com_currency x)) | _ \<Rightarrow> None)
      else if source = ''__account__''
      then map_option (\<lambda>a. meta_string MetaString (leaf_name a)) (account_of d)
      else props source)"

definition meta_value_as_key :: "meta_value \<Rightarrow> string option" where
  "meta_value_as_key v =
     (if mv_kind v \<in> {MetaString, MetaAccount, MetaCurrency, MetaTag, MetaLink} then Some (mv_string v) else None)"

fun yaml_value_to_meta :: "yaml_value \<Rightarrow> meta_value" where
  "yaml_value_to_meta (YString s) = meta_string MetaString s"
| "yaml_value_to_meta (YBool b) = (mk_meta MetaBool)\<lparr>mv_bool := b\<rparr>"
| "yaml_value_to_meta (YOther s) = meta_string MetaString s"

text \<open>The cache holds the mappings by path, absent ones after an error; the result is the mapping (which
  may be empty), the diagnostic of a first failure, and whether there is one to look up in.\<close>

type_synonym mappings = "string \<rightharpoonup> (string \<rightharpoonup> yaml_value) option"

definition load_mapping ::
  "yaml_files \<Rightarrow> string \<Rightarrow> string \<Rightarrow> mappings \<Rightarrow> plugin_dir option \<Rightarrow>
     (string \<rightharpoonup> yaml_value) option \<times> diagnostic list \<times> bool \<times> mappings" where
  "load_mapping Y src path cache trigger =
     (case cache path of
        Some m \<Rightarrow> (m, [], m \<noteq> None, cache)
      | None \<Rightarrow>
          (case Y src path of
             Unreadable e \<Rightarrow> (None, [mk_diag ''infer-metadata-yaml-read-error'' (trigger_span trigger)
               (''cannot read YAML mapping '' @ path @ '': '' @ e)], False, cache(path \<mapsto> None))
           | Unparsable e \<Rightarrow> (None, [mk_diag ''infer-metadata-yaml-read-error'' (trigger_span trigger)
               (''cannot parse YAML mapping '' @ path @ '': '' @ e)], False, cache(path \<mapsto> None))
           | Loaded m \<Rightarrow> (m, [], True, cache(path \<mapsto> m))))"

text \<open>One rule: the value to set, the diagnostics, the cache.\<close>

definition rule_value ::
  "unicode \<Rightarrow> yaml_files \<Rightarrow> string \<Rightarrow> plugin_dir option \<Rightarrow> directive \<Rightarrow> metadata \<Rightarrow> infer_rule \<Rightarrow> mappings \<Rightarrow>
     meta_value option \<times> diagnostic list \<times> mappings" where
  "rule_value U Y src trigger d props r cache =
     (if props (rl_target r) \<noteq> None then (None, [], cache)
      else case source_value d (rl_source r) props of
        None \<Rightarrow> (None, [], cache)
      | Some v \<Rightarrow>
          if rl_file r = [] then (Some v, [], cache)
          else (case load_mapping Y src (rl_file r) cache trigger of (m, diags, loaded, cache') \<Rightarrow>
            if \<not> loaded then (None, diags, cache')
            else case meta_value_as_key v of
              None \<Rightarrow> (None, diags, cache')
            | Some key \<Rightarrow>
                (case (case m of None \<Rightarrow> None | Some f \<Rightarrow> f key) of
                   None \<Rightarrow> (None, diags @ [mk_diag ''infer-metadata-yaml-key-not-found''
                     (span_or_trigger (Some (dir_span d)) trigger)
                     (''key '' @ quote_text U key @ '' not found in mapping file '' @ rl_file r)], cache')
                 | Some raw \<Rightarrow> (Some (yaml_value_to_meta raw), diags, cache'))))"

fun apply_rules ::
  "unicode \<Rightarrow> yaml_files \<Rightarrow> string \<Rightarrow> plugin_dir option \<Rightarrow> directive \<Rightarrow> infer_rule list \<Rightarrow> metadata \<Rightarrow> mappings \<Rightarrow>
     metadata \<times> bool \<times> diagnostic list \<times> mappings" where
  "apply_rules U Y src trigger d [] props cache = (props, False, [], cache)"
| "apply_rules U Y src trigger d (r # rs) props cache =
     (case rule_value U Y src trigger d props r cache of (v, diags, cache1) \<Rightarrow>
      (case v of
         None \<Rightarrow> (case apply_rules U Y src trigger d rs props cache1 of
           (props', changed, ds, cache2) \<Rightarrow> (props', changed, diags @ ds, cache2))
       | Some v \<Rightarrow> (case apply_rules U Y src trigger d rs (props(rl_target r \<mapsto> v)) cache1 of
           (props', _, ds, cache2) \<Rightarrow> (props', True, diags @ ds, cache2))))"

fun infer_loop ::
  "unicode \<Rightarrow> yaml_files \<Rightarrow> string \<Rightarrow> plugin_dir option \<Rightarrow> infer_rule list \<Rightarrow> directive list \<Rightarrow> mappings \<Rightarrow>
     directive list \<times> bool \<times> diagnostic list" where
  "infer_loop U Y src trigger rules [] cache = ([], False, [])"
| "infer_loop U Y src trigger rules (d # ds) cache =
     (case apply_rules U Y src trigger d (filter (\<lambda>r. rl_directive r = directive_name d) rules) (dir_meta d) cache of
        (props, changed, diags, cache1) \<Rightarrow>
      case infer_loop U Y src trigger rules ds cache1 of (out, others, rest) \<Rightarrow>
        ((if changed then with_meta d props else d) # out, changed \<or> others, diags @ rest))"

definition infer_metadata :: "unicode \<Rightarrow> yaml_files \<Rightarrow> plugin" where
  "infer_metadata U Y inp =
     (case in_directives inp of
        None \<Rightarrow> Inr no_change
      | Some ds \<Rightarrow>
          (case parse_rules U (in_directive inp) (split_on (CHR 0x0A) (in_config inp)) of (rules, parse_diags) \<Rightarrow>
           if rules = [] then Inr (only_diags parse_diags)
           else case resolve_file_rules rules (in_source inp) (in_directive inp) parse_diags of (rules, diags) \<Rightarrow>
           case infer_loop U Y (in_source inp) (in_directive inp) rules ds Map.empty of (out, changed, found) \<Rightarrow>
             Inr \<lparr>res_directives = (if changed then Some out else None), res_diags = diags @ found\<rparr>))"

section \<open>Balances of all commodities\<close>

fun meta_kind_name :: "meta_kind \<Rightarrow> string" where
  "meta_kind_name MetaString = ''string''"
| "meta_kind_name MetaAccount = ''account''"
| "meta_kind_name MetaCurrency = ''currency''"
| "meta_kind_name MetaDate = ''date''"
| "meta_kind_name MetaTag = ''tag''"
| "meta_kind_name MetaLink = ''link''"
| "meta_kind_name MetaNumber = ''number''"
| "meta_kind_name MetaAmount = ''amount''"
| "meta_kind_name MetaBool = ''bool''"

record assertion =
  as_currency :: currency
  as_number :: decimal
  as_tolerance :: "decimal option"

text \<open>\<open>parseAssertions\<close>: the assertions, the currencies seen and the diagnostics.\<close>

fun parse_assertion_lines ::
  "unicode \<Rightarrow> apd \<Rightarrow> span \<Rightarrow> string list \<Rightarrow> currency list \<Rightarrow> (assertion list \<times> diagnostic list) result" where
  "parse_assertion_lines U A sp [] seen = Inr ([], [])"
| "parse_assertion_lines U A sp (raw # rest) seen =
     (let line = trim_text U raw;
          expr = (if CHR '';'' \<in> set line then trim_text U (before_comment line) else line)
      in if line = [] \<or> has_prefix line '';'' then parse_assertion_lines U A sp rest seen
         else rbind (parse_balance_text U A expr) (\<lambda>v.
           case v of
             Inl pds \<Rightarrow> rbind (parse_assertion_lines U A sp rest seen) (\<lambda>(asserts, diags).
               Inr (asserts, map (\<lambda>pd. mk_diag ''comprehensive-balance-parse'' sp
                 (''comprehensive_balance: '' @ diag_message pd @ '' ('' @ diag_code pd @ '') in '' @ quote_text U expr)) pds @ diags))
           | Inr (amt, tol) \<Rightarrow>
               if amt_currency amt \<in> set seen
               then rbind (parse_assertion_lines U A sp rest seen) (\<lambda>(asserts, diags).
                 Inr (asserts, mk_diag ''comprehensive-balance-duplicate-currency'' sp
                   (''duplicate currency '' @ quote_text U (amt_currency amt) @ '' in comprehensive_balance body'') # diags))
               else rbind (parse_assertion_lines U A sp rest (amt_currency amt # seen)) (\<lambda>(asserts, diags).
                 Inr (\<lparr>as_currency = amt_currency amt, as_number = amt_number amt, as_tolerance = tol\<rparr> # asserts, diags))))"

text \<open>A finding of the plugin on the configuration; the assertions of a well-formed directive with their account.\<close>

definition account_parameter :: "span \<Rightarrow> string \<Rightarrow> meta_value \<Rightarrow> diagnostic + account" where
  "account_parameter sp code v =
     (if mv_kind v \<noteq> MetaAccount \<or> mv_string v = []
      then Inl (mk_diag code sp (''first parameter must be an account, got '' @ meta_kind_name (mv_kind v)))
      else Inr (mv_string v))"

definition custom_assertions ::
  "unicode \<Rightarrow> apd \<Rightarrow> custom_dir \<Rightarrow> span \<Rightarrow> (diagnostic list + account \<times> assertion list) result" where
  "custom_assertions U A c sp =
     (case cus_values c of
        [acct, body] \<Rightarrow>
          (case account_parameter sp ''comprehensive-balance-invalid-config'' acct of
             Inl d \<Rightarrow> Inr (Inl [d])
           | Inr a \<Rightarrow>
               if mv_kind body \<noteq> MetaString
               then Inr (Inl [mk_diag ''comprehensive-balance-invalid-config'' sp
                 (''second parameter must be a string, got '' @ meta_kind_name (mv_kind body))])
               else rbind (parse_assertion_lines U A sp (split_on (CHR 0x0A) (mv_string body)) [])
                 (\<lambda>(asserts, diags). Inr (if diags \<noteq> [] then Inl diags else Inr (a, asserts))))
      | vs \<Rightarrow> Inr (Inl [mk_diag ''comprehensive-balance-invalid-config'' sp
          (''comprehensive_balance requires exactly 2 parameters (account, body), got '' @ show_nat (length vs))]))"

definition emitted_balance :: "custom_dir \<Rightarrow> account \<Rightarrow> assertion list \<Rightarrow> currency \<Rightarrow> directive" where
  "emitted_balance c a asserts cur =
     (case List.find (\<lambda>x. as_currency x = cur) asserts of
        Some x \<Rightarrow> DBalance \<lparr>bal_span = cus_span c, bal_date = cus_date c, bal_account = a,
          bal_amount = \<lparr>amt_number = as_number x, amt_currency = cur\<rparr>, bal_tolerance = as_tolerance x,
          bal_meta = cus_meta c, bal_diff = None\<rparr>
      | None \<Rightarrow> DBalance \<lparr>bal_span = cus_span c, bal_date = cus_date c, bal_account = a,
          bal_amount = \<lparr>amt_number = dzero, amt_currency = cur\<rparr>, bal_tolerance = None,
          bal_meta = cus_meta c, bal_diff = None\<rparr>)"

type_synonym seen_currencies = "account \<Rightarrow> currency list"

definition mark_seen :: "account \<Rightarrow> currency \<Rightarrow> seen_currencies \<Rightarrow> seen_currencies" where
  "mark_seen a cur seen = (if cur = [] then seen else seen(a := List.insert cur (seen a)))"

definition process_custom ::
  "unicode \<Rightarrow> apd \<Rightarrow> custom_dir \<Rightarrow> seen_currencies \<Rightarrow> plugin_dir option \<Rightarrow> (directive list \<times> diagnostic list) result" where
  "process_custom U A c seen trigger =
     rbind (custom_assertions U A c (span_or_trigger (Some (cus_span c)) trigger)) (\<lambda>v.
       case v of
         Inl diags \<Rightarrow> Inr ([], diags)
       | Inr (a, asserts) \<Rightarrow>
           Inr (map (emitted_balance c a asserts) (sort (remdups (seen a @ map as_currency asserts))), []))"

fun comprehensive_loop ::
  "unicode \<Rightarrow> apd \<Rightarrow> plugin_dir option \<Rightarrow> directive list \<Rightarrow> seen_currencies \<Rightarrow> (directive list \<times> diagnostic list) result" where
  "comprehensive_loop U A trigger [] seen = Inr ([], [])"
| "comprehensive_loop U A trigger (d # ds) seen =
     (let keep = (\<lambda>seen. rbind (comprehensive_loop U A trigger ds seen) (\<lambda>(out, diags). Inr (d # out, diags))) in
      case d of
        DTransaction t \<Rightarrow>
          keep (fold (\<lambda>p s. case p_amount p of None \<Rightarrow> s
            | Some a \<Rightarrow> mark_seen (p_account p) (amt_currency a) s) (txn_postings t) seen)
      | DBalance b \<Rightarrow> keep (mark_seen (bal_account b) (amt_currency (bal_amount b)) seen)
      | DCustom c \<Rightarrow>
          if cus_type c \<noteq> ''comprehensive_balance'' then keep seen
          else rbind (process_custom U A c seen trigger) (\<lambda>(balances, new).
               rbind (comprehensive_loop U A trigger ds seen) (\<lambda>(out, diags). Inr (balances @ out, new @ diags)))
      | _ \<Rightarrow> keep seen)"

text \<open>The output slice is nil, and so no change, when nothing was appended.\<close>

definition comprehensive_balance :: "unicode \<Rightarrow> apd \<Rightarrow> plugin" where
  "comprehensive_balance U A inp =
     (case in_directives inp of
        None \<Rightarrow> Inr no_change
      | Some ds \<Rightarrow>
          if ds = [] then Inr no_change
          else rbind (comprehensive_loop U A (in_directive inp) ds (\<lambda>_. [])) (\<lambda>(out, diags).
            Inr \<lparr>res_directives = (if out = [] then None else Some out), res_diags = diags\<rparr>))"

section \<open>Net changes over a period\<close>

record fiscal_check =
  fc_account :: account
  fc_begin :: time
  fc_end :: time
  fc_expected :: decimal
  fc_currency :: currency
  fc_tolerance :: decimal

definition half :: decimal where
  "half = dec False 5 (- 1)"

definition inferred_tolerance :: "apd \<Rightarrow> decimal \<Rightarrow> decimal" where
  "inferred_tolerance A d =
     (if 0 \<le> d_exp d then half
      else case apd_mul A (dec False 1 (d_exp d)) half of Inl _ \<Rightarrow> half | Inr t \<Rightarrow> t)"

definition parse_expected ::
  "unicode \<Rightarrow> apd \<Rightarrow> meta_value \<Rightarrow> span \<Rightarrow> (diagnostic list + decimal \<times> currency \<times> decimal) result" where
  "parse_expected U A v sp =
     (case mv_kind v of
        MetaAmount \<Rightarrow> Inr (Inr (amt_number (mv_amount v), amt_currency (mv_amount v),
          inferred_tolerance A (amt_number (mv_amount v))))
      | MetaString \<Rightarrow>
          rbind (parse_balance_text U A (trim_text U (mv_string v))) (\<lambda>r.
            case r of
              Inl pds \<Rightarrow> Inr (Inl (map (\<lambda>pd. mk_diag ''fiscal-income-expense-parse'' sp
                (''fiscal_income_expense: '' @ diag_message pd @ '' ('' @ diag_code pd @ '') in '' @ quote_text U (mv_string v))) pds))
            | Inr (amt, tol) \<Rightarrow> Inr (Inr (amt_number amt, amt_currency amt,
                case tol of Some t \<Rightarrow> t | None \<Rightarrow> inferred_tolerance A (amt_number amt))))
      | k \<Rightarrow> Inr (Inl [mk_diag ''fiscal-income-expense-invalid-config'' sp
          (''expected amount must be an amount or string, got '' @ meta_kind_name k)]))"

definition fiscal_period :: "custom_dir \<Rightarrow> span \<Rightarrow> diagnostic + time \<times> meta_value" where
  "fiscal_period c sp =
     (if length (cus_values c) = 3
      then if mv_kind (cus_values c ! 1) \<noteq> MetaDate
           then Inl (mk_diag ''fiscal-income-expense-invalid-config'' sp
             (''second parameter must be a date, got '' @ meta_kind_name (mv_kind (cus_values c ! 1))))
           else Inr (mv_date (cus_values c ! 1), cus_values c ! 2)
      else Inr (days_from_civil (fst (civil (cus_date c))) 1 1, cus_values c ! 1))"

definition parse_check :: "unicode \<Rightarrow> apd \<Rightarrow> custom_dir \<Rightarrow> span \<Rightarrow> (diagnostic list + fiscal_check) result" where
  "parse_check U A c sp =
     (if length (cus_values c) < 2 \<or> 3 < length (cus_values c)
      then Inr (Inl [mk_diag ''fiscal-income-expense-invalid-config'' sp
        (''fiscal_income_expense requires 2 or 3 parameters (account, [begin_date,] expected), got '' @
         show_nat (length (cus_values c)))])
      else case account_parameter sp ''fiscal-income-expense-invalid-config'' (cus_values c ! 0) of
        Inl d \<Rightarrow> Inr (Inl [d])
      | Inr a \<Rightarrow>
          (case fiscal_period c sp of
             Inl d \<Rightarrow> Inr (Inl [d])
           | Inr (begin', expected) \<Rightarrow>
               if cus_date c < begin'
               then Inr (Inl [mk_diag ''fiscal-income-expense-invalid-config'' sp
                 (''begin date '' @ format_date begin' @ '' must be on or before end date '' @ format_date (cus_date c))])
               else rbind (parse_expected U A expected sp) (\<lambda>r.
                 case r of
                   Inl ds \<Rightarrow> Inr (Inl ds)
                 | Inr (num, cur, tol) \<Rightarrow> Inr (Inr \<lparr>fc_account = a, fc_begin = begin', fc_end = cus_date c,
                     fc_expected = num, fc_currency = cur, fc_tolerance = tol\<rparr>))))"

definition in_period :: "time \<Rightarrow> time \<Rightarrow> transaction \<Rightarrow> bool" where
  "in_period b e t \<longleftrightarrow> \<not> (txn_date t < b \<or> e < txn_date t)"

definition flow_of :: "account \<Rightarrow> currency \<Rightarrow> posting \<Rightarrow> decimal option" where
  "flow_of a cur p =
     (case p_amount p of
        None \<Rightarrow> None
      | Some amt \<Rightarrow> if amt_currency amt \<noteq> cur \<or> \<not> covers a (p_account p) then None else Some (amt_number amt))"

definition cost_warning :: "posting \<Rightarrow> diagnostic" where
  "cost_warning p = (mk_diag ''fiscal-income-expense-cost-on-flow-account'' (p_span p)
     (''fiscal_income_expense: cost annotation on posting to '' @ p_account p @
      '' is ignored; lots are unusual on income/expense accounts and the raw amount is summed instead''))
     \<lparr>diag_severity := SevWarning\<rparr>"

definition net_change ::
  "apd \<Rightarrow> (decimal \<Rightarrow> decimal \<Rightarrow> decimal) \<Rightarrow> directive list \<Rightarrow> fiscal_check \<Rightarrow> decimal \<times> diagnostic list" where
  "net_change A F ds k =
     (let ps = concat (map txn_postings (filter (in_period (fc_begin k) (fc_end k)) (transactions_in ds)));
          flows = filter (\<lambda>p. flow_of (fc_account k) (fc_currency k) p \<noteq> None) ps
      in (foldl (\<lambda>s n. case apd_add A s n of Inl _ \<Rightarrow> F s n | Inr s' \<Rightarrow> s') dzero
            (List.map_filter (flow_of (fc_account k) (fc_currency k)) ps),
          map cost_warning (filter (\<lambda>p. p_cost p \<noteq> None) flows)))"

definition fiscal_validate ::
  "unicode \<Rightarrow> decimal_text \<Rightarrow> apd \<Rightarrow> (decimal \<Rightarrow> decimal \<Rightarrow> decimal) \<Rightarrow> custom_dir \<Rightarrow> directive list \<Rightarrow>
     plugin_dir option \<Rightarrow> diagnostic list result" where
  "fiscal_validate U G A F c all trigger =
     (let sp = span_or_trigger (Some (cus_span c)) trigger in
      rbind (parse_check U A c sp) (\<lambda>r.
        case r of
          Inl diags \<Rightarrow> Inr diags
        | Inr k \<Rightarrow>
            (case net_change A F all k of (actual, diags) \<Rightarrow>
             (case apd_sub A actual (fc_expected k) of
                Inl e \<Rightarrow> Inr (diags @ [mk_diag ''fiscal-income-expense-mismatch'' sp
                  (''fiscal_income_expense: arithmetic error subtracting expected from actual: '' @ e)])
              | Inr diff \<Rightarrow>
                  (case apd_abs A diff of
                     Inl e \<Rightarrow> Inr (diags @ [mk_diag ''fiscal-income-expense-mismatch'' sp
                       (''fiscal_income_expense: arithmetic error taking |diff|: '' @ e)])
                   | Inr mag \<Rightarrow>
                       if 0 < apd_cmp A mag (fc_tolerance k)
                       then Inr (diags @ [mk_diag ''fiscal-income-expense-mismatch'' sp
                         (''fiscal_income_expense: balance check failed for '' @ fc_account k @ '' ('' @
                          format_date (fc_begin k) @ '' to '' @ format_date (fc_end k) @ ''): expected '' @
                          G (fc_expected k) @ '' '' @ fc_currency k @ '' (tolerance '' @ G (fc_tolerance k) @
                          ''), got '' @ G actual @ '' '' @ fc_currency k @ '' (difference '' @ G diff @ '')'')])
                       else Inr diags)))))"

fun is_fiscal :: "directive \<Rightarrow> bool" where
  "is_fiscal (DCustom c) = (cus_type c = ''fiscal_income_expense'')"
| "is_fiscal d = False"

fun fiscal_loop ::
  "unicode \<Rightarrow> decimal_text \<Rightarrow> apd \<Rightarrow> (decimal \<Rightarrow> decimal \<Rightarrow> decimal) \<Rightarrow> directive list \<Rightarrow> plugin_dir option \<Rightarrow>
     directive list \<Rightarrow> (directive list \<times> diagnostic list) result" where
  "fiscal_loop U G A F all trigger [] = Inr ([], [])"
| "fiscal_loop U G A F all trigger (d # ds) =
     (case d of
        DCustom c \<Rightarrow>
          if is_fiscal d
          then rbind (fiscal_validate U G A F c all trigger) (\<lambda>new.
               rbind (fiscal_loop U G A F all trigger ds) (\<lambda>(out, diags). Inr (out, new @ diags)))
          else rbind (fiscal_loop U G A F all trigger ds) (\<lambda>(out, diags). Inr (d # out, diags))
      | _ \<Rightarrow> rbind (fiscal_loop U G A F all trigger ds) (\<lambda>(out, diags). Inr (d # out, diags)))"

definition fiscal_income_expense ::
  "unicode \<Rightarrow> decimal_text \<Rightarrow> apd \<Rightarrow> (decimal \<Rightarrow> decimal \<Rightarrow> decimal) \<Rightarrow> plugin" where
  "fiscal_income_expense U G A F inp =
     (case in_directives inp of
        None \<Rightarrow> Inr no_change
      | Some ds \<Rightarrow>
          if ds = [] then Inr no_change
          else rbind (fiscal_loop U G A F ds (in_directive inp) ds) (\<lambda>(out, diags).
            Inr \<lparr>res_directives = Some out, res_diags = diags\<rparr>))"

end
