(* ===== verification/Sprout_Contract.thy ===== *)
theory Sprout_Contract
  imports Sprout_Edits Std_Contract
begin

text \<open>
  What \<open>tradingvalidation\<close>, \<open>sellgains\<close> and the plugins that change directives promise.
\<close>

section \<open>Trading accounts\<close>

text \<open>Within the tolerance of the validators.\<close>

definition settled :: "apd \<Rightarrow> option_values option \<Rightarrow> posting list \<Rightarrow> bool" where
  "settled A opts ps \<longleftrightarrow> (\<forall>c. net_weight A c ps = 0 \<or> \<bar>net_weight A c ps\<bar> \<le> txn_tolerance A opts ps c)"

text \<open>The postings that count for a commodity: those of its units, and those of a disabled commodity that are
  priced in it. All but the disabled ones count by their units alone.\<close>

definition counts_for :: "currency list \<Rightarrow> currency \<Rightarrow> posting \<Rightarrow> bool" where
  "counts_for disabled c p \<longleftrightarrow> (\<exists>a. p_amount p = Some a \<and>
     (if amt_currency a \<in> set disabled then \<exists>pr. p_price p = Some pr \<and> amt_currency (pa_amount pr) = c
      else amt_currency a = c))"

definition counted_as :: "currency list \<Rightarrow> posting \<Rightarrow> posting" where
  "counted_as disabled p = (case p_amount p of
     Some a \<Rightarrow> if amt_currency a \<in> set disabled then p else p\<lparr>p_cost := None, p_price := None\<rparr>
   | None \<Rightarrow> p)"

definition trading_settled ::
  "apd \<Rightarrow> option_values option \<Rightarrow> string \<Rightarrow> currency list \<Rightarrow> posting list \<Rightarrow> bool" where
  "trading_settled A opts pfx disabled ps \<longleftrightarrow>
     settled A opts (filter (\<lambda>p. is_trading pfx (p_account p)) ps) \<and>
     settled A opts (filter (\<lambda>p. \<not> is_trading pfx (p_account p)) ps) \<and>
     (\<forall>c. settled A opts (map (counted_as disabled) (filter (counts_for disabled c) ps)))"

lemma postings_for_counted:
  "postings_for_commodity disabled c ps = map (counted_as disabled) (filter (counts_for disabled c) ps)"
  by (induction ps)
    (auto simp: postings_for_commodity_def List.map_filter_simps counts_for_def counted_as_def
      split: option.splits if_splits)

lemma map_filter_none: "(\<And>x. x \<in> set xs \<Longrightarrow> f x = None) \<Longrightarrow> List.map_filter f xs = []"
  by (induction xs) (simp_all add: List.map_filter_simps)

lemma postings_for_other:
  assumes "c \<notin> set (effective_commodities disabled ps)"
  shows "postings_for_commodity disabled c ps = []"
proof -
  have "effective_commodity disabled p \<noteq> Some c" if "p \<in> set ps" for p
    using assms that by (force simp: effective_commodities_def List.map_filter_def)
  then show ?thesis
    unfolding postings_for_commodity_def
    by (intro map_filter_none) (force simp: effective_commodity_def split: option.splits if_splits)
qed

context apd_total
begin

lemma trading_sums_val:
  assumes "distinct (map fst acc)"
  shows "\<exists>acc'. trading_sums A ps acc = Inr acc' \<and> distinct (map fst acc') \<and>
    (\<forall>c. sum_val acc' c = sum_val acc c + net_weight A c ps)"
  using assms
proof (induction ps arbitrary: acc)
  case Nil
  then show ?case by (simp add: net_weight_def)
next
  case (Cons p ps)
  show ?case
  proof (cases "posting_weight A p")
    case (Inl e)
    then obtain s where "e = SysErr s"
      using posting_weight_no_panic [of A p] by (cases e) (simp_all add: is_panic_def)
    with Inl Cons.IH [OF Cons.prems] show ?thesis by (simp add: net_weight_def weight_in_def)
  next
    case (Inr w)
    show ?thesis
    proof (cases w)
      case None
      with Inr Cons.IH [OF Cons.prems] show ?thesis by (simp add: net_weight_def weight_in_def)
    next
      case (Some v)
      obtain s where s: "sum_add A acc v = Inr s" using sum_add_total by blast
      have v: "distinct (map fst s)" "sum_val s c = sum_val acc c + weight_in A c p" for c
        using sum_add_val [OF s Cons.prems, of c] Inr Some by (simp_all add: weight_in_def)
      from Cons.IH [OF v(1)] show ?thesis
        using Inr Some s v(2) by (auto simp: net_weight_def rewrap_def)
    qed
  qed
qed

lemma tolerances_known:
  assumes opts: "opts_typed A opts"
  shows "\<exists>tols. infer A ps opts cs = Inr tols \<and> (\<forall>c \<in> set cs. \<exists>t. tols c = Some t \<and> dval t = txn_tolerance A opts ps c)"
proof -
  obtain tols where tols: "infer A ps opts cs = Inr tols" using infer_total [OF opts] by blast
  obtain m d b where o': "opt_decimal A opts ''tolerance_multiplier'' = Inr m"
    "opt_decimal_map A opts ''inferred_tolerance_default'' = Inr d"
    "opt_bool A opts ''infer_tolerance_from_cost'' = Inr b"
    using tolerance_options_total [OF opts] by blast
  have "\<forall>c \<in> set cs. \<exists>t. tols c = Some t \<and> dval t = txn_tolerance A opts ps c"
    using infer_val [OF tols _ o'] by (auto simp: txn_tolerance_def o')
  with tols show ?thesis by blast
qed

lemma outside_nil:
  assumes "\<forall>c \<in> set cs. map_of acc c \<noteq> None" and "\<forall>c \<in> set cs. \<exists>t. tols c = Some t \<and> dval t = f c"
  shows "\<exists>rs. outside A acc tols cs = Inr rs \<and> (rs = [] \<longleftrightarrow> (\<forall>c \<in> set cs. \<bar>sum_val acc c\<bar> \<le> f c))"
  using assms
proof (induction cs)
  case (Cons c cs)
  obtain s where s: "map_of acc c = Some s" using Cons.prems(1) by auto
  obtain t where t: "tols c = Some t" "dval t = f c" using Cons.prems(2) by auto
  obtain ok where ok: "within_tol A s t = Inr ok" using within_tol_total by blast
  obtain rs where rs: "outside A acc tols cs = Inr rs" "rs = [] \<longleftrightarrow> (\<forall>c \<in> set cs. \<bar>sum_val acc c\<bar> \<le> f c)"
    using Cons.IH Cons.prems by auto
  have "ok \<longleftrightarrow> \<bar>sum_val acc c\<bar> \<le> f c" using within_tol_iff [OF ok] s t(2) by (simp add: sum_val_def)
  with s t ok rs show ?case by (simp add: rewrap_def deref_def)
qed simp

lemma trading_residuals_nil:
  assumes opts: "opts_typed A opts"
  shows "\<exists>rs. trading_residuals A opts ps = Inr rs \<and> (rs = [] \<longleftrightarrow> settled A opts ps)"
proof (cases "ps = []")
  case True
  then show ?thesis by (simp add: trading_residuals_def settled_def net_weight_def)
next
  case False
  obtain acc where acc: "trading_sums A ps [] = Inr acc" "distinct (map fst acc)"
    "\<forall>c. sum_val acc c = net_weight A c ps"
    using trading_sums_val [of "[]" ps] by (auto simp: sum_val_def)
  let ?cs = "non_zero_currencies A acc"
  have nz: "c \<in> set ?cs \<longleftrightarrow> net_weight A c ps \<noteq> 0" for c
    using non_zero_currencies_iff [OF acc(2)] acc(3) by simp
  obtain tols where tols: "infer A ps opts ?cs = Inr tols"
    "\<forall>c \<in> set ?cs. \<exists>t. tols c = Some t \<and> dval t = txn_tolerance A opts ps c"
    using tolerances_known [OF opts] by blast
  have "map_of acc c \<noteq> None" if "c \<in> set ?cs" for c
    using that nz [of c] acc(3) by (auto simp: sum_val_def split: option.splits)
  then obtain rs where rs: "outside A acc tols ?cs = Inr rs"
    "rs = [] \<longleftrightarrow> (\<forall>c \<in> set ?cs. \<bar>sum_val acc c\<bar> \<le> txn_tolerance A opts ps c)"
    using outside_nil [OF _ tols(2)] by blast
  have "settled A opts ps \<longleftrightarrow> (\<forall>c \<in> set ?cs. \<bar>sum_val acc c\<bar> \<le> txn_tolerance A opts ps c)"
    using nz acc(3) by (auto simp: settled_def)
  moreover have "settled A opts ps" if "?cs = []"
    using nz that by (simp add: settled_def)
  ultimately show ?thesis
    using False acc(1) tols(1) rs by (cases "?cs = []") (simp_all add: trading_residuals_def Let_def rewrap_def)
qed

lemma commodity_residuals_nil:
  assumes opts: "opts_typed A opts"
  shows "\<exists>ds. commodity_residuals A opts disabled sp ps cs = Inr ds \<and>
    (ds = [] \<longleftrightarrow> (\<forall>c \<in> set cs. settled A opts (postings_for_commodity disabled c ps)))"
proof (induction cs)
  case (Cons c cs)
  obtain rs where "trading_residuals A opts (postings_for_commodity disabled c ps) = Inr rs"
    "rs = [] \<longleftrightarrow> settled A opts (postings_for_commodity disabled c ps)"
    using trading_residuals_nil [OF opts] by blast
  with Cons show ?case by auto
qed simp

lemma check_trading_nil:
  assumes opts: "opts_typed A opts"
  shows "\<exists>ds. check_trading A t pfx disabled opts trigger = Inr ds \<and>
    (ds = [] \<longleftrightarrow> trading_settled A opts pfx disabled (txn_postings t))"
proof -
  let ?ps = "txn_postings t"
  obtain r1 where r1: "trading_residuals A opts (filter (\<lambda>p. is_trading pfx (p_account p)) ?ps) = Inr r1"
    "r1 = [] \<longleftrightarrow> settled A opts (filter (\<lambda>p. is_trading pfx (p_account p)) ?ps)"
    using trading_residuals_nil [OF opts] by blast
  obtain r2 where r2: "trading_residuals A opts (filter (\<lambda>p. \<not> is_trading pfx (p_account p)) ?ps) = Inr r2"
    "r2 = [] \<longleftrightarrow> settled A opts (filter (\<lambda>p. \<not> is_trading pfx (p_account p)) ?ps)"
    using trading_residuals_nil [OF opts] by blast
  obtain r3 where r3: "commodity_residuals A opts disabled (span_or_trigger (Some (txn_span t)) trigger) ?ps
      (effective_commodities disabled ?ps) = Inr r3"
    "r3 = [] \<longleftrightarrow> (\<forall>c \<in> set (effective_commodities disabled ?ps). settled A opts (postings_for_commodity disabled c ?ps))"
    using commodity_residuals_nil [OF opts] by blast
  have "settled A opts []" by (simp add: settled_def net_weight_def)
  then have "(\<forall>c. settled A opts (postings_for_commodity disabled c ?ps)) \<longleftrightarrow>
      (\<forall>c \<in> set (effective_commodities disabled ?ps). settled A opts (postings_for_commodity disabled c ?ps))"
    using postings_for_other by metis
  with r1 r2 r3 show ?thesis by (simp add: check_trading_def Let_def trading_settled_def postings_for_counted [symmetric])
qed

lemma trading_loop_nil:
  assumes opts: "opts_typed A opts"
  shows "\<exists>ds. trading_loop A pfx disabled opts trigger ts = Inr ds \<and>
    (ds = [] \<longleftrightarrow> (\<forall>t \<in> set ts. list_ex (\<lambda>p. is_trading pfx (p_account p)) (txn_postings t) \<longrightarrow>
       trading_settled A opts pfx disabled (txn_postings t)))"
proof (induction ts)
  case (Cons t ts)
  obtain ds where "check_trading A t pfx disabled opts trigger = Inr ds"
    "ds = [] \<longleftrightarrow> trading_settled A opts pfx disabled (txn_postings t)"
    using check_trading_nil [OF opts] by blast
  with Cons show ?case by auto
qed simp

end

text \<open>C36 \<open>tradingvalidation\<close> never fails, and is silent exactly if in every transaction with a posting to a
  trading account the trading postings, the other postings, and for every commodity the postings that count
  for it each sum to zero within the tolerances. What counts for a commodity are the units in it, and the
  full weight of the disabled commodities that are priced in it. The trading accounts are those under the
  configured name, \<open>Equity:Trading\<close> if none is given.\<close>

theorem trading_validation_exact:
  assumes "apd_total A" and "in_options inp = Some (fst (parse_options A os))" and "in_directives inp = Some ds"
    and "pfx = (if trim_text U (in_config inp) = [] then ''Equity:Trading'' else trim_text U (in_config inp))"
  shows "\<exists>r. trading_validation U A inp = Inr r \<and> res_directives r = None \<and>
    (res_diags r = [] \<longleftrightarrow> (\<forall>t. DTransaction t \<in> set ds \<and>
       (\<exists>p \<in> set (txn_postings t). is_trading pfx (p_account p)) \<longrightarrow>
       trading_settled A (in_options inp) pfx (disabled_commodities ds) (txn_postings t)))"
proof -
  have opts: "opts_typed A (in_options inp)" unfolding assms(2) by (rule parse_options_typed)
  have txns: "t \<in> set (transactions_in ds) \<longleftrightarrow> DTransaction t \<in> set ds" for t
    by (induction ds) (auto split: directive.splits)
  obtain diags where "trading_loop A pfx (disabled_commodities ds) (in_options inp) (in_directive inp)
      (transactions_in ds) = Inr diags"
    "diags = [] \<longleftrightarrow> (\<forall>t \<in> set (transactions_in ds). list_ex (\<lambda>p. is_trading pfx (p_account p)) (txn_postings t) \<longrightarrow>
       trading_settled A (in_options inp) pfx (disabled_commodities ds) (txn_postings t))"
    using apd_total.trading_loop_nil [OF assms(1) opts] by blast
  moreover have "trading_validation U A inp = rbind (trading_loop A pfx (disabled_commodities ds) (in_options inp)
      (in_directive inp) (transactions_in ds)) (\<lambda>diags. Inr (only_diags diags))"
    unfolding assms(4) by (simp only: trading_validation_def Let_def assms(3) option.case)
  ultimately show ?thesis
    by (auto simp: only_diags_def txns list_ex_iff)
qed

text \<open>A transaction whose trading posting stands alone.\<close>

definition ex_traded :: transaction where
  "ex_traded = ex_txn 1 [ex_posting ''Equity:Trading'' (ex_amt 5 ''USD'') None, ex_posting ''A'' (ex_amt (- 5) ''USD'') None]"

definition ex_optioned :: "directive list \<Rightarrow> plugin_input" where
  "ex_optioned ds = (ex_input ds)\<lparr>in_options := ex_options\<rparr>"

lemma ex_traded_run:
  "(case trading_validation ex_unicode gda (ex_optioned [DTransaction ex_traded]) of Inr r \<Rightarrow> res_diags r \<noteq> [] | Inl _ \<Rightarrow> False)"
  by code_simp

theorem trading_validation_exact_witness:
  "\<not> trading_settled gda ex_options ''Equity:Trading'' [] (txn_postings ex_traded)"
proof -
  have opts: "in_options (ex_optioned [DTransaction ex_traded]) = Some (fst (parse_options gda None))"
    and ds: "in_directives (ex_optioned [DTransaction ex_traded]) = Some [DTransaction ex_traded]"
    and cfg: "''Equity:Trading'' = (if trim_text ex_unicode (in_config (ex_optioned [DTransaction ex_traded])) = []
      then ''Equity:Trading'' else trim_text ex_unicode (in_config (ex_optioned [DTransaction ex_traded])))"
    by (simp_all add: ex_optioned_def ex_options_def ex_input_def trim_text_def)
  obtain r where r: "trading_validation ex_unicode gda (ex_optioned [DTransaction ex_traded]) = Inr r"
    "res_diags r = [] \<longleftrightarrow> (\<forall>t. DTransaction t \<in> set [DTransaction ex_traded] \<and>
       (\<exists>p \<in> set (txn_postings t). is_trading ''Equity:Trading'' (p_account p)) \<longrightarrow>
       trading_settled gda (in_options (ex_optioned [DTransaction ex_traded])) ''Equity:Trading''
         (disabled_commodities [DTransaction ex_traded]) (txn_postings t))"
    using trading_validation_exact [OF gda.apd_total_axioms opts ds cfg] by blast
  have "res_diags r \<noteq> []" using ex_traded_run r(1) by simp
  with r(2) show ?thesis by (auto simp: ex_optioned_def)
qed

section \<open>Metadata from the accounts above\<close>

lemma above_above: "b \<in> set (acct_above a) \<Longrightarrow> set (acct_above b) \<subseteq> set (acct_above a)"
proof (induction a rule: acct_above.induct)
  case (1 a)
  show ?case
  proof (cases "acct_parent a = []")
    case False
    then have "acct_above a = acct_parent a # acct_above (acct_parent a)" by (simp add: acct_above.simps [of a])
    with 1 False show ?thesis by auto
  qed (use 1 in \<open>simp add: acct_above.simps [of a]\<close>)
qed

lemma first_above_None: "first_above index k as = None \<longleftrightarrow> (\<forall>a \<in> set as. index a k = None)"
  by (induction as) (auto split: option.split)

lemma index_known:
  assumes "k \<in> set keys"
  shows "fold (index_open keys) ds index a k \<noteq> None \<longleftrightarrow>
    index a k \<noteq> None \<or> (\<exists>x. DOpen x \<in> set ds \<and> open_account x = a \<and> open_meta x k \<noteq> None)"
proof (induction ds arbitrary: index)
  case (Cons d ds)
  have "index_open keys d index a k \<noteq> None \<longleftrightarrow>
      index a k \<noteq> None \<or> (\<exists>x. d = DOpen x \<and> open_account x = a \<and> open_meta x k \<noteq> None)"
    using assms by (cases d) (auto simp: index_open_def map_add_def split: option.split)
  with Cons.IH [of "index_open keys d index"] show ?case by auto
qed simp

definition closed_upwards :: "string list \<Rightarrow> directive list \<Rightarrow> bool" where
  "closed_upwards keys ds \<longleftrightarrow> (\<forall>y z k. DOpen y \<in> set ds \<and> DOpen z \<in> set ds \<and> k \<in> set keys \<and>
     open_account z \<in> set (acct_above (open_account y)) \<and> open_meta z k \<noteq> None \<longrightarrow> open_meta y k \<noteq> None)"

lemma inherit_open_closed:
  "closed_upwards keys (map (inherit_open keys (fold (index_open keys) ds (\<lambda>_. Map.empty))) ds)"
proof -
  define index where "index = fold (index_open keys) ds (\<lambda>_. Map.empty)"
  have known: "index a k \<noteq> None \<longleftrightarrow> (\<exists>x. DOpen x \<in> set ds \<and> open_account x = a \<and> open_meta x k \<noteq> None)"
    if "k \<in> set keys" for a k
    unfolding index_def using index_known [OF that, of ds "\<lambda>_. Map.empty" a] by simp
  have made: "\<exists>x. DOpen x \<in> set ds \<and> open_account y = open_account x \<and> (k \<in> set keys \<longrightarrow>
      open_meta y k = (case open_meta x k of Some v \<Rightarrow> Some v | None \<Rightarrow> first_above index k (acct_above (open_account x))))"
    if y: "DOpen y \<in> set (map (inherit_open keys index) ds)" for y k
  proof -
    obtain d where d: "d \<in> set ds" "DOpen y = inherit_open keys index d" using y by auto
    then obtain x where x: "d = DOpen x" by (cases d rule: directive.exhaust) (simp_all add: inherit_open_def)
    with d show ?thesis
      by (intro exI [of _ x]) (auto simp: inherit_open_def find_inherited_def map_add_def split: option.split)
  qed
  have "open_meta y k \<noteq> None"
    if ps: "DOpen y \<in> set (map (inherit_open keys index) ds)" "DOpen z \<in> set (map (inherit_open keys index) ds)"
      "k \<in> set keys" "open_account z \<in> set (acct_above (open_account y))" "open_meta z k \<noteq> None" for y z k
  proof -
    obtain x where x: "DOpen x \<in> set ds" "open_account y = open_account x"
      "open_meta y k = (case open_meta x k of Some v \<Rightarrow> Some v | None \<Rightarrow> first_above index k (acct_above (open_account x)))"
      using made [OF ps(1), of k] ps(3) by blast
    obtain w where w: "DOpen w \<in> set ds" "open_account z = open_account w"
      "open_meta z k = (case open_meta w k of Some v \<Rightarrow> Some v | None \<Rightarrow> first_above index k (acct_above (open_account w)))"
      using made [OF ps(2), of k] ps(3) by blast
    have "\<exists>b \<in> insert (open_account z) (set (acct_above (open_account z))). index b k \<noteq> None"
    proof (cases "open_meta w k")
      case None
      with w(3) ps(5) have "first_above index k (acct_above (open_account w)) \<noteq> None" by simp
      then show ?thesis using w(2) by (auto simp: first_above_None)
    next
      case (Some v)
      then have "index (open_account z) k \<noteq> None" using known [OF ps(3)] w(1,2) by auto
      then show ?thesis by blast
    qed
    then have "\<exists>b \<in> set (acct_above (open_account y)). index b k \<noteq> None"
      using ps(4) above_above [OF ps(4)] by blast
    then have "first_above index k (acct_above (open_account x)) \<noteq> None"
      unfolding first_above_None x(2) by simp
    then show ?thesis using x(3) by (auto split: option.split)
  qed
  then show ?thesis unfolding closed_upwards_def index_def by blast
qed

lemma not_inherits:
  assumes "closed_upwards keys ds"
  shows "\<not> list_ex (inherits keys (fold (index_open keys) ds (\<lambda>_. Map.empty))) ds"
proof
  let ?index = "fold (index_open keys) ds (\<lambda>_. Map.empty)"
  assume "list_ex (inherits keys ?index) ds"
  then obtain d where d: "d \<in> set ds" "inherits keys ?index d" by (auto simp: list_ex_iff)
  then obtain y k where y: "d = DOpen y" "k \<in> set keys" "open_meta y k = None"
    "first_above ?index k (acct_above (open_account y)) \<noteq> None"
    by (cases d rule: directive.exhaust) (auto simp: inherits_def find_inherited_def list_ex_iff split: if_splits)
  then obtain b where b: "b \<in> set (acct_above (open_account y))" "?index b k \<noteq> None"
    unfolding first_above_None by blast
  then obtain z where "DOpen z \<in> set ds" "open_account z = b" "open_meta z k \<noteq> None"
    using index_known [OF y(2), of ds "\<lambda>_. Map.empty" b] by auto
  with assms d(1) y b show False unfolding closed_upwards_def by blast
qed

definition extends_open :: "directive \<Rightarrow> directive \<Rightarrow> bool" where
  "extends_open d e \<longleftrightarrow> e = d \<or> (\<exists>x m. d = DOpen x \<and> e = DOpen (x\<lparr>open_meta := m\<rparr>) \<and> open_meta x \<subseteq>\<^sub>m m)"

lemma inherit_open_extends: "extends_open d (inherit_open keys index d)"
proof (cases d)
  case (DOpen x)
  have "open_meta x \<subseteq>\<^sub>m open_meta x ++ find_inherited (open_account x) keys index (open_meta x)"
    by (auto simp: map_le_def find_inherited_def map_add_def split: option.split)
  with DOpen show ?thesis by (auto simp: inherit_open_def extends_open_def)
qed (simp_all add: inherit_open_def extends_open_def)

text \<open>C37 \<open>inheritmetadata\<close> leaves every directive as it is but for new metadata on opens, after which an
  open has each of the keys that an open of an account above it has; so on what it returns it has nothing
  left to do.\<close>

theorem inherit_metadata_closes:
  assumes "inherit_metadata U inp = Inr r" and "in_directives inp = Some ds"
  shows "closed_upwards (inherited_keys U (in_config inp)) (output_of r ds) \<and>
    list_all2 extends_open ds (output_of r ds) \<and>
    inherit_metadata U (inp\<lparr>in_directives := Some (output_of r ds)\<rparr>) = Inr no_change"
proof -
  let ?keys = "inherited_keys U (in_config inp)"
  let ?index = "fold (index_open ?keys) ds (\<lambda>_. Map.empty)"
  have none: "closed_upwards ?keys ds" if "\<not> list_ex (inherits ?keys ?index) ds"
  proof -
    have "inherit_open ?keys ?index d = d" if "d \<in> set ds" for d
    proof -
      have "\<not> inherits ?keys ?index d" using that \<open>\<not> list_ex _ _\<close> by (auto simp: list_ex_iff)
      then have "find_inherited (open_account x) ?keys ?index (open_meta x) = Map.empty" if "d = DOpen x" for x
        using that by (auto simp: inherits_def list_ex_iff find_inherited_def fun_eq_iff)
      then show ?thesis by (cases d) (simp_all add: inherit_open_def)
    qed
    then have "map (inherit_open ?keys ?index) ds = ds" by (simp add: map_idI)
    then show ?thesis using inherit_open_closed [of ?keys ds] by simp
  qed
  have out: "output_of r ds = ds \<and> (?keys = [] \<or> \<not> list_ex (inherits ?keys ?index) ds) \<or>
      output_of r ds = map (inherit_open ?keys ?index) ds"
    using assms by (auto simp: inherit_metadata_def Let_def split: if_splits)
  have clo: "closed_upwards ?keys (output_of r ds)"
    using out none inherit_open_closed [of ?keys ds] by (auto simp: closed_upwards_def [of "[]"])
  moreover have "list_all2 extends_open ds (output_of r ds)"
  proof -
    have "list_all2 extends_open ds ds" by (simp add: list_all2_same extends_open_def)
    moreover have "list_all2 extends_open ds (map (inherit_open ?keys ?index) ds)"
      unfolding list.rel_map by (intro list.rel_refl) (rule inherit_open_extends)
    ultimately show ?thesis using out by metis
  qed
  moreover have "inherit_metadata U (inp\<lparr>in_directives := Some (output_of r ds)\<rparr>) = Inr no_change"
    using not_inherits [OF clo] by (simp add: inherit_metadata_def Let_def)
  ultimately show ?thesis by blast
qed

lemma inherit_metadata_total: "\<exists>r. inherit_metadata U inp = Inr r"
  by (cases "in_directives inp") (auto simp: inherit_metadata_def Let_def)

definition ex_region :: meta_value where
  "ex_region = meta_string MetaString ''north''"

definition ex_with_region :: open_dir where
  "ex_with_region = (ex_open_dir ''A'' 1 [])\<lparr>open_meta := Map.empty(''region'' \<mapsto> ex_region)\<rparr>"

theorem inherit_metadata_closes_witness:
  "\<exists>r y. inherit_metadata ex_unicode ((ex_input [DOpen ex_with_region, DOpen (ex_open_dir ''A:B'' 2 [])])
      \<lparr>in_config := ''region''\<rparr>) = Inr r \<and>
    DOpen y \<in> set (output_of r [DOpen ex_with_region, DOpen (ex_open_dir ''A:B'' 2 [])]) \<and>
    open_account y = ''A:B'' \<and> open_meta y ''region'' \<noteq> None"
proof -
  let ?ds = "[DOpen ex_with_region, DOpen (ex_open_dir ''A:B'' 2 [])]"
  let ?inp = "(ex_input ?ds)\<lparr>in_config := ''region''\<rparr>"
  have ds: "in_directives ?inp = Some ?ds" by (simp add: ex_input_def)
  obtain r where r: "inherit_metadata ex_unicode ?inp = Inr r" using inherit_metadata_total by blast
  note c = inherit_metadata_closes [OF r ds]
  have keys: "inherited_keys ex_unicode (in_config ?inp) = [''region'']"
  proof -
    have "trim_text ex_unicode ''region'' = ''region''" "split_on (CHR 0x0A) ''region'' = [''region'']" by code_simp+
    then show ?thesis by (simp add: ex_input_def inherited_keys_def scanned_lines_def has_prefix_def)
  qed
  obtain e1 e2 where out: "output_of r ?ds = [e1, e2]" "extends_open (DOpen ex_with_region) e1"
    "extends_open (DOpen (ex_open_dir ''A:B'' 2 [])) e2"
    using c by (auto simp: list_all2_Cons1)
  obtain z where z: "e1 = DOpen z" "open_account z = ''A''" "open_meta z ''region'' = Some ex_region"
    using out(2) by (auto simp: extends_open_def ex_with_region_def ex_open_dir_def map_le_def)
  obtain y where y: "e2 = DOpen y" "open_account y = ''A:B''"
    using out(3) by (auto simp: extends_open_def ex_open_dir_def)
  have above: "open_account z \<in> set (acct_above (open_account y))" unfolding z(2) y(2) by code_simp
  have "DOpen y \<in> set (output_of r ?ds)" "DOpen z \<in> set (output_of r ?ds)" by (simp_all add: out(1) y(1) z(1))
  moreover have "''region'' \<in> set (inherited_keys ex_unicode (in_config ?inp))" unfolding keys by simp
  ultimately have "open_meta y ''region'' \<noteq> None"
    using conjunct1 [OF c] above z(3) unfolding closed_upwards_def by (metis option.discI)
  then show ?thesis using r out(1) y by (intro exI [of _ r] exI [of _ y]) simp
qed

end
