(* ===== verification/Sprout_Customs.thy ===== *)
theory Sprout_Customs
  imports Sprout_Contract
begin

text \<open>
  What \<open>infermetadata\<close>, \<open>comprehensivebalance\<close> and \<open>fiscalincomeexpense\<close> promise.
\<close>

section \<open>Metadata from rules\<close>

text \<open>Only new metadata, under the targets of the rules for the kind of directive.\<close>

definition inferred_by :: "infer_rule list \<Rightarrow> directive \<Rightarrow> directive \<Rightarrow> bool" where
  "inferred_by rules d e \<longleftrightarrow> (\<exists>m. e = with_meta d m \<and> dir_meta d \<subseteq>\<^sub>m m \<and>
     (\<forall>k. m k \<noteq> None \<and> dir_meta d k = None \<longrightarrow>
       (\<exists>r \<in> set rules. rl_directive r = directive_name d \<and> rl_target r = k)))"

lemma rule_value_new: "rule_value U Y src tr d props r cache = (Some v, diags, cache') \<Longrightarrow> props (rl_target r) = None"
  by (simp add: rule_value_def split: if_splits)

lemma apply_rules_extends:
  assumes "apply_rules U Y src tr d rs props cache = (props', changed, diags, cache')"
  shows "props \<subseteq>\<^sub>m props' \<and> (\<forall>k. props' k \<noteq> None \<and> props k = None \<longrightarrow> (\<exists>r \<in> set rs. rl_target r = k)) \<and>
    (\<not> changed \<longrightarrow> props' = props)"
  using assms
proof (induction rs arbitrary: props cache changed diags)
  case (Cons r rs)
  obtain v ds cache1 where v: "rule_value U Y src tr d props r cache = (v, ds, cache1)" by (metis prod_cases3)
  show ?case
  proof (cases v)
    case None
    with v Cons.prems obtain ds' where "apply_rules U Y src tr d rs props cache1 = (props', changed, ds', cache')"
      by (auto split: prod.splits)
    from Cons.IH [OF this] show ?thesis by auto
  next
    case (Some x)
    have new: "props (rl_target r) = None" using rule_value_new v Some by blast
    from v Some Cons.prems obtain ch ds' where
      "apply_rules U Y src tr d rs (props(rl_target r \<mapsto> x)) cache1 = (props', ch, ds', cache')" and c: "changed"
      by (auto split: prod.splits)
    note rest = Cons.IH [OF this(1)]
    have ih: "props(rl_target r \<mapsto> x) \<subseteq>\<^sub>m props'"
      "\<forall>k. props' k \<noteq> None \<and> (props(rl_target r \<mapsto> x)) k = None \<longrightarrow> (\<exists>r' \<in> set rs. rl_target r' = k)"
      by (rule conjunct1 [OF rest], rule conjunct1 [OF conjunct2 [OF rest]])
    have "props \<subseteq>\<^sub>m props(rl_target r \<mapsto> x)" using new by (auto simp: map_le_def)
    then have "props \<subseteq>\<^sub>m props'" using ih(1) map_le_trans by blast
    moreover have "\<exists>r' \<in> set (r # rs). rl_target r' = k" if "props' k \<noteq> None" "props k = None" for k
      using ih(2) that by (cases "k = rl_target r") auto
    ultimately show ?thesis using c by blast
  qed
qed auto

lemma with_own_meta [simp]: "with_meta d (dir_meta d) = d"
  by (cases d) simp_all

lemma infer_loop_extends:
  "infer_loop U Y src tr rules ds cache = (out, changed, diags) \<Longrightarrow>
     list_all2 (inferred_by rules) ds out \<and> (\<not> changed \<longrightarrow> out = ds)"
proof (induction ds arbitrary: cache out changed diags)
  case (Cons d ds)
  obtain props ch ds1 cache1 where a: "apply_rules U Y src tr d
      (filter (\<lambda>r. rl_directive r = directive_name d) rules) (dir_meta d) cache = (props, ch, ds1, cache1)"
    by (metis prod_cases4)
  obtain out1 ch1 rest where l: "infer_loop U Y src tr rules ds cache1 = (out1, ch1, rest)" by (metis prod_cases3)
  note ext = apply_rules_extends [OF a]
  have "(if ch then with_meta d props else d) = with_meta d props" using ext by (cases ch) auto
  then have "inferred_by rules d (if ch then with_meta d props else d)"
    unfolding inferred_by_def using ext by (intro exI [of _ props]) fastforce
  with Cons.prems Cons.IH [OF l] a l show ?case by auto
qed simp

lemma inferred_mono: "inferred_by rules d e \<Longrightarrow> set rules \<subseteq> set rules' \<Longrightarrow> inferred_by rules' d e"
  unfolding inferred_by_def by blast

lemma resolved_rules: "set (fst (resolve_file_rules rules src tr diags)) \<subseteq> set rules"
  by (auto simp: resolve_file_rules_def)

text \<open>C38 \<open>infermetadata\<close> never fails, keeps the directives in place and all their metadata as it is, and
  adds metadata only under the targets of rules for that kind of directive.\<close>

theorem infer_metadata_extends:
  assumes "in_directives inp = Some ds"
  shows "\<exists>r. infer_metadata U Y inp = Inr r \<and>
    list_all2 (inferred_by (fst (parse_rules U (in_directive inp) (split_on (CHR 0x0A) (in_config inp))))) ds (output_of r ds)"
proof -
  obtain rules pd where p: "parse_rules U (in_directive inp) (split_on (CHR 0x0A) (in_config inp)) = (rules, pd)"
    by fastforce
  obtain rs diags where r: "resolve_file_rules rules (in_source inp) (in_directive inp) pd = (rs, diags)" by fastforce
  obtain out changed found where l: "infer_loop U Y (in_source inp) (in_directive inp) rs ds Map.empty = (out, changed, found)"
    by (metis prod_cases3)
  have same: "list_all2 (inferred_by rules) ds ds"
  proof -
    have "inferred_by rules d d" for d
      unfolding inferred_by_def by (rule exI [of _ "dir_meta d"]) auto
    then show ?thesis by (simp add: list_all2_same)
  qed
  have "set rs \<subseteq> set rules" using resolved_rules [of rules "in_source inp" "in_directive inp" pd] r by simp
  then have "list_all2 (inferred_by rules) ds out"
    using infer_loop_extends [OF l] list_all2_mono inferred_mono by (metis (no_types, lifting))
  moreover have "output_of \<lparr>res_directives = (if changed then Some out else None), res_diags = diags @ found\<rparr> ds = out"
    using infer_loop_extends [OF l] by (simp add: output_of_def)
  ultimately show ?thesis
    using assms same p r l by (cases "rules = []") (simp_all add: infer_metadata_def only_diags_def output_of_def)
qed

theorem infer_metadata_extends_witness:
  "\<exists>r. infer_metadata ex_unicode (\<lambda>_ _. Unreadable []) ((ex_input [DOpen (ex_open_dir ''A:B'' 2 [])])\<lparr>in_config := ''open name __account__''\<rparr>) = Inr r \<and>
    list_all2 (inferred_by [\<lparr>rl_directive = ''open'', rl_target = ''name'', rl_source = ''__account__'', rl_file = []\<rparr>])
      [DOpen (ex_open_dir ''A:B'' 2 [])] (output_of r [DOpen (ex_open_dir ''A:B'' 2 [])])"
proof -
  let ?inp = "(ex_input [DOpen (ex_open_dir ''A:B'' 2 [])])\<lparr>in_config := ''open name __account__''\<rparr>"
  have "fst (parse_rules ex_unicode (in_directive ?inp) (split_on (CHR 0x0A) (in_config ?inp))) =
      [\<lparr>rl_directive = ''open'', rl_target = ''name'', rl_source = ''__account__'', rl_file = []\<rparr>]"
    unfolding ex_input_def plugin_input.simps by code_simp
  then show ?thesis
    using infer_metadata_extends [of ?inp "[DOpen (ex_open_dir ''A:B'' 2 [])]" ex_unicode "\<lambda>_ _. Unreadable []"]
    by (simp add: ex_input_def)
qed

section \<open>Balances of all commodities\<close>

fun touches :: "directive \<Rightarrow> account \<Rightarrow> currency set" where
  "touches (DTransaction t) a =
     {cur. \<exists>p amt. p \<in> set (txn_postings t) \<and> p_account p = a \<and> p_amount p = Some amt \<and> amt_currency amt = cur}"
| "touches (DBalance b) a = (if bal_account b = a then {amt_currency (bal_amount b)} else {})"
| "touches d a = {}"

lemma touches_transaction:
  "touches (DTransaction t) a =
     set (List.map_filter (\<lambda>p. if p_account p = a then map_option amt_currency (p_amount p) else None) (txn_postings t))"
  by (force simp: List.map_filter_def split: if_splits)

definition touched :: "directive list \<Rightarrow> account \<Rightarrow> currency set" where
  "touched ds a = (\<Union>d \<in> set ds. touches d a) - {[]}"

text \<open>What stands for a directive that has \<open>before\<close> before it.\<close>

definition expansion :: "unicode \<Rightarrow> apd \<Rightarrow> plugin_dir option \<Rightarrow> directive list \<Rightarrow> directive \<Rightarrow> directive list" where
  "expansion U A tr before d =
     (case d of
        DCustom c \<Rightarrow>
          if cus_type c \<noteq> ''comprehensive_balance'' then [d]
          else (case custom_assertions U A c (span_or_trigger (Some (cus_span c)) tr) of
            Inr (Inr (a, asserts)) \<Rightarrow>
              map (emitted_balance c a asserts) (sorted_list_of_set (touched before a \<union> as_currency ` set asserts))
          | _ \<Rightarrow> [])
      | _ \<Rightarrow> [d])"

fun expanded :: "unicode \<Rightarrow> apd \<Rightarrow> plugin_dir option \<Rightarrow> directive list \<Rightarrow> directive list \<Rightarrow> directive list" where
  "expanded U A tr before [] = []"
| "expanded U A tr before (d # ds) = expansion U A tr before d @ expanded U A tr (before @ [d]) ds"

lemma mark_seen_set: "set (mark_seen a cur seen b) = set (seen b) \<union> (if b = a then {cur} - {[]} else {})"
  by (auto simp: mark_seen_def)

lemma seen_postings:
  "set (fold (\<lambda>p s. case p_amount p of None \<Rightarrow> s | Some x \<Rightarrow> mark_seen (p_account p) (amt_currency x) s) ps seen a) =
   set (seen a) \<union> ({cur. \<exists>p amt. p \<in> set ps \<and> p_account p = a \<and> p_amount p = Some amt \<and> amt_currency amt = cur} - {[]})"
proof (induction ps arbitrary: seen)
  case (Cons p ps)
  then show ?case by (cases "p_amount p") (auto simp: mark_seen_set)
qed simp

lemma touched_snoc: "touched (before @ [d]) a = touched before a \<union> (touches d a - {[]})"
  by (auto simp: touched_def)

lemma sort_remdups_set: "sort (remdups xs) = sorted_list_of_set (set xs)"
  by (simp add: sorted_list_of_set_sort_remdups)

lemma comprehensive_loop_expands:
  assumes "comprehensive_loop U A tr ds seen = Inr (out, diags)" and "\<forall>a. set (seen a) = touched before a"
  shows "out = expanded U A tr before ds"
  using assms
proof (induction ds arbitrary: seen before out diags)
  case (Cons d ds)
  have keep: "out = expanded U A tr before (d # ds)"
    if k: "rbind (comprehensive_loop U A tr ds seen') (\<lambda>(out, diags). Inr (d # out, diags)) = Inr (out, diags)"
      "\<forall>a. set (seen' a) = touched before a \<union> (touches d a - {[]})" "expansion U A tr before d = [d]" for seen'
  proof -
    from k(1) obtain out1 diags1 where o': "comprehensive_loop U A tr ds seen' = Inr (out1, diags1)" "out = d # out1"
      by auto
    have "\<forall>a. set (seen' a) = touched (before @ [d]) a" using k(2) by (simp add: touched_snoc)
    from Cons.IH [OF o'(1) this] o'(2) k(3) show ?thesis by simp
  qed
  show ?case
  proof (cases d)
    case (DTransaction t)
    show ?thesis
      by (rule keep [of "fold (\<lambda>p s. case p_amount p of None \<Rightarrow> s
          | Some a \<Rightarrow> mark_seen (p_account p) (amt_currency a) s) (txn_postings t) seen"])
        (use Cons.prems in \<open>simp_all add: DTransaction seen_postings expansion_def\<close>)
  next
    case (DBalance b)
    show ?thesis
      by (rule keep [of "mark_seen (bal_account b) (amt_currency (bal_amount b)) seen"])
        (use Cons.prems in \<open>simp_all add: DBalance mark_seen_set expansion_def\<close>)
  next
    case (DCustom c)
    show ?thesis
    proof (cases "cus_type c = ''comprehensive_balance''")
      case False
      then show ?thesis
        by (intro keep [of seen]) (use Cons.prems in \<open>simp_all add: DCustom expansion_def\<close>)
    next
      case True
      with Cons.prems(1) DCustom obtain bs new out1 diags1 where p: "process_custom U A c seen tr = Inr (bs, new)"
        and o': "comprehensive_loop U A tr ds seen = Inr (out1, diags1)" "out = bs @ out1" by auto
      have "\<forall>a. set (seen a) = touched (before @ [d]) a" using Cons.prems(2) by (simp add: touched_snoc DCustom)
      from Cons.IH [OF o'(1) this] have rest: "out1 = expanded U A tr (before @ [d]) ds" .
      have "bs = expansion U A tr before d"
        using p Cons.prems(2) True
        by (cases "custom_assertions U A c (span_or_trigger (Some (cus_span c)) tr)")
          (auto simp: process_custom_def DCustom expansion_def sort_remdups_set simp del: sorted_list_of_set_sort_remdups
            split: sum.splits prod.splits)
      with rest o'(2) show ?thesis by simp
    qed
  qed (use Cons.prems in \<open>intro keep [of seen]; simp add: expansion_def\<close>)+
qed simp

text \<open>The assertion that a directive \<open>c\<close> on the account \<open>a\<close>, with the list \<open>asserts\<close>, makes of a currency:
  on its day and in its place, the number and the tolerance of the list, and zero for what is not listed.\<close>

definition states :: "custom_dir \<Rightarrow> account \<Rightarrow> assertion list \<Rightarrow> currency \<Rightarrow> balance_dir \<Rightarrow> bool" where
  "states c a asserts cur b \<longleftrightarrow>
     bal_account b = a \<and> bal_date b = cus_date c \<and> bal_span b = cus_span c \<and> bal_meta b = cus_meta c \<and>
     amt_currency (bal_amount b) = cur \<and>
     (if \<exists>x \<in> set asserts. as_currency x = cur
      then \<exists>x \<in> set asserts. as_currency x = cur \<and> amt_number (bal_amount b) = as_number x \<and> bal_tolerance b = as_tolerance x
      else dval (amt_number (bal_amount b)) = 0 \<and> bal_tolerance b = None)"

text \<open>What stands for a directive with \<open>before\<close> before it.\<close>

definition stands_for :: "unicode \<Rightarrow> apd \<Rightarrow> plugin_dir option \<Rightarrow> directive list \<Rightarrow> directive \<Rightarrow> directive list \<Rightarrow> bool" where
  "stands_for U A tr before d out \<longleftrightarrow>
     (case d of
        DCustom c \<Rightarrow>
          if cus_type c \<noteq> ''comprehensive_balance'' then out = [d]
          else (case custom_assertions U A c (span_or_trigger (Some (cus_span c)) tr) of
            Inr (Inr (a, asserts)) \<Rightarrow> \<exists>bs. out = map DBalance bs \<and>
              list_all2 (states c a asserts) (sorted_list_of_set (touched before a \<union> as_currency ` set asserts)) bs
          | _ \<Rightarrow> out = [])
      | _ \<Rightarrow> out = [d])"

lemma emitted_states: "\<exists>b. emitted_balance c a asserts cur = DBalance b \<and> states c a asserts cur b"
proof (cases "List.find (\<lambda>x. as_currency x = cur) asserts")
  case None
  then have "\<not> (\<exists>x \<in> set asserts. as_currency x = cur)" by (auto simp: find_None_iff)
  with None show ?thesis by (auto simp: emitted_balance_def states_def)
next
  case (Some x)
  then have "x \<in> set asserts" "as_currency x = cur" by (auto simp: find_Some_iff)
  with Some show ?thesis by (auto simp: emitted_balance_def states_def)
qed

lemma emitted_all:
  "\<exists>bs. map (emitted_balance c a asserts) curs = map DBalance bs \<and> list_all2 (states c a asserts) curs bs"
proof (induction curs)
  case (Cons cur curs)
  then obtain bs where bs: "map (emitted_balance c a asserts) curs = map DBalance bs" "list_all2 (states c a asserts) curs bs" by blast
  obtain b where "emitted_balance c a asserts cur = DBalance b" "states c a asserts cur b" using emitted_states by blast
  with bs show ?case by (intro exI [of _ "b # bs"]) simp
qed simp

lemma expansion_stands_for: "stands_for U A tr before d (expansion U A tr before d)"
  using emitted_all
  by (cases d) (auto simp: stands_for_def expansion_def simp del: sorted_list_of_set_sort_remdups split: sum.split)

lemma expanded_blocks:
  "expanded U A tr before ds = concat (map (\<lambda>i. expansion U A tr (before @ take i ds) (ds ! i)) [0..<length ds])"
proof (induction ds arbitrary: before)
  case (Cons d ds)
  have "[0..<length (d # ds)] = 0 # map Suc [0..<length ds]" by (subst upt_rec) (simp add: map_Suc_upt)
  then show ?case using Cons.IH [of "before @ [d]"] by (simp add: comp_def)
qed simp

text \<open>C39 \<open>comprehensivebalance\<close> replaces each of its directives by one balance for every currency that is
  listed, or that a transaction before it posts to the account or a balance before it asserts there, in
  alphabetical order, on its day, with the number and the tolerance that are listed or with zero; a
  malformed one is dropped; all else is kept. Only where nothing at all is left the ledger stays as it was:
  directives that list nothing, on accounts never used, are kept if the ledger has no other directive,
  although the package comment says that they are removed.\<close>

theorem comprehensive_balance_exact:
  assumes "comprehensive_balance U A inp = Inr r" and "in_directives inp = Some ds"
  shows "\<exists>blocks. length blocks = length ds \<and>
    (\<forall>i < length ds. stands_for U A (in_directive inp) (take i ds) (ds ! i) (blocks ! i)) \<and>
    output_of r ds = (if concat blocks = [] then ds else concat blocks)"
proof -
  let ?tr = "in_directive inp"
  let ?blocks = "map (\<lambda>i. expansion U A ?tr (take i ds) (ds ! i)) [0..<length ds]"
  have out: "expanded U A ?tr [] ds = concat ?blocks" using expanded_blocks [of U A ?tr "[]" ds] by simp
  have "output_of r ds = (if concat ?blocks = [] then ds else concat ?blocks)"
  proof (cases "ds = []")
    case True
    then show ?thesis using assms by (simp add: comprehensive_balance_def)
  next
    case False
    with assms obtain out diags where loop: "comprehensive_loop U A ?tr ds (\<lambda>_. []) = Inr (out, diags)"
      and r: "res_directives r = (if out = [] then None else Some out)"
      by (auto simp: comprehensive_balance_def)
    have "out = expanded U A ?tr [] ds" by (rule comprehensive_loop_expands [OF loop]) (simp add: touched_def)
    with r show ?thesis unfolding out by (simp add: output_of_def)
  qed
  then show ?thesis by (intro exI [of _ ?blocks]) (simp add: expansion_stands_for)
qed

definition ex_custom :: "time \<Rightarrow> string \<Rightarrow> meta_value list \<Rightarrow> custom_dir" where
  "ex_custom d name vs = \<lparr>cus_span = zero_span, cus_date = d, cus_type = name, cus_values = vs, cus_meta = Map.empty\<rparr>"

definition ex_all_balances :: custom_dir where
  "ex_all_balances = ex_custom 3 ''comprehensive_balance'' [meta_string MetaAccount ''A'', meta_string MetaString '' '']"

lemma ex_all_balances_read: "custom_assertions ex_unicode gda ex_all_balances sp = Inr (Inr (''A'', []))"
proof -
  have "trim_text ex_unicode '' '' = []" by code_simp
  then show ?thesis
    by (simp add: custom_assertions_def ex_all_balances_def ex_custom_def account_parameter_def meta_string_def mk_meta_def)
qed

theorem comprehensive_balance_exact_witness:
  "\<exists>r b. comprehensive_balance ex_unicode gda (ex_input [ex_move ''A'' ''B'' 5, DCustom ex_all_balances]) = Inr r \<and>
    output_of r [ex_move ''A'' ''B'' 5, DCustom ex_all_balances] = [ex_move ''A'' ''B'' 5, DBalance b] \<and>
    bal_account b = ''A'' \<and> amt_currency (bal_amount b) = ''USD'' \<and> dval (amt_number (bal_amount b)) = 0"
proof -
  let ?ds = "[ex_move ''A'' ''B'' 5, DCustom ex_all_balances]"
  have type: "cus_type ex_all_balances = ''comprehensive_balance''" by (simp add: ex_all_balances_def ex_custom_def)
  obtain t where t: "ex_move ''A'' ''B'' 5 = DTransaction t" by (simp add: ex_move_def)
  obtain r where r: "comprehensive_balance ex_unicode gda (ex_input ?ds) = Inr r"
    by (simp add: comprehensive_balance_def t type process_custom_def ex_all_balances_read)
  have "touches (ex_move ''A'' ''B'' 5) ''A'' = {''USD''}"
    by (simp add: ex_move_def touches_transaction ex_txn_def ex_posting_def ex_amt_def List.map_filter_simps del: touches.simps)
  then have "touched [ex_move ''A'' ''B'' 5] ''A'' = {''USD''}" by (simp add: touched_def)
  then have curs: "sorted_list_of_set (touched [DTransaction t] ''A'' \<union> as_currency ` set []) = [''USD'']" unfolding t by simp
  have now: "\<exists>b. out = [DBalance b] \<and> states ex_all_balances ''A'' [] ''USD'' b"
    if "stands_for ex_unicode gda None [DTransaction t] (DCustom ex_all_balances) out" for out
  proof -
    from that obtain bs where "out = map DBalance bs" "list_all2 (states ex_all_balances ''A'' []) [''USD''] bs"
      unfolding stands_for_def directive.case type ex_all_balances_read sum.case prod.case curs by auto
    then show ?thesis by (auto simp: list_all2_Cons1)
  qed
  have keep: "stands_for ex_unicode gda None [] (DTransaction t) out \<longleftrightarrow> out = [DTransaction t]" for out
    by (simp add: stands_for_def)
  have tr: "in_directive (ex_input ?ds) = None" by (simp add: ex_input_def)
  obtain bs where bs: "length bs = length ?ds" "\<forall>i < length ?ds. stands_for ex_unicode gda None (take i ?ds) (?ds ! i) (bs ! i)"
    "output_of r ?ds = (if concat bs = [] then ?ds else concat bs)"
    using comprehensive_balance_exact [OF r ex_input_directives(1), unfolded tr] by blast
  then obtain x y where xy: "bs = [x, y]" by (auto simp: length_Suc_conv)
  have "x = [DTransaction t]" using bs(2) [rule_format, of 0] xy by (simp add: t keep)
  moreover obtain b where "y = [DBalance b]" "states ex_all_balances ''A'' [] ''USD'' b"
    using bs(2) [rule_format, of 1] xy t now [of y] by auto
  ultimately have "output_of r ?ds = [ex_move ''A'' ''B'' 5, DBalance b] \<and> states ex_all_balances ''A'' [] ''USD'' b"
    using bs(3) xy t by simp
  with r show ?thesis by (auto simp: states_def)
qed

section \<open>Net changes over a period\<close>

definition flow_total :: "directive list \<Rightarrow> fiscal_check \<Rightarrow> rat" where
  "flow_total ds k =
     (\<Sum>t\<leftarrow>filter (\<lambda>t. fc_begin k \<le> txn_date t \<and> txn_date t \<le> fc_end k) (transactions_in ds).
      \<Sum>p\<leftarrow>txn_postings t.
        (case p_amount p of
           Some a \<Rightarrow> if amt_currency a = fc_currency k \<and> covers (fc_account k) (p_account p) then dval (amt_number a) else 0
         | None \<Rightarrow> 0))"

lemma flow_sum:
  assumes "apd_total A"
  shows "dval (foldl (\<lambda>s n. case apd_add A s n of Inl _ \<Rightarrow> F s n | Inr s' \<Rightarrow> s') s ns) = dval s + sum_list (map dval ns)"
proof (induction ns arbitrary: s)
  case (Cons n ns)
  obtain s' where s': "apd_add A s n = Inr s'" using apd_total.add_total [OF assms] by blast
  have "dval s' = dval s + dval n" using apd_exact.add_val [OF apd_total.axioms(1) [OF assms] s'] .
  with Cons.IH [of s'] s' show ?case by simp
qed simp

lemma flows_val:
  "sum_list (map dval (List.map_filter (flow_of a cur) ps)) =
    (\<Sum>p\<leftarrow>ps. case p_amount p of
       Some x \<Rightarrow> if amt_currency x = cur \<and> covers a (p_account p) then dval (amt_number x) else 0 | None \<Rightarrow> 0)"
  by (induction ps) (auto simp: List.map_filter_simps flow_of_def split: option.split)

lemma net_change_val:
  assumes "apd_total A"
  shows "dval (fst (net_change A F ds k)) = flow_total ds k"
proof -
  have period: "filter (in_period (fc_begin k) (fc_end k)) ts =
      filter (\<lambda>t. fc_begin k \<le> txn_date t \<and> txn_date t \<le> fc_end k) ts" for ts
    by (rule filter_cong) (auto simp: in_period_def not_less)
  have nest: "(\<Sum>p\<leftarrow>concat (map txn_postings ts). f p) = (\<Sum>t\<leftarrow>ts. \<Sum>p\<leftarrow>txn_postings t. f p)"
    for ts and f :: "posting \<Rightarrow> rat"
    by (induction ts) simp_all
  have "dval dzero = 0" by (simp add: dzero_def dval_def)
  then show ?thesis
    by (simp add: net_change_def Let_def flow_sum [OF assms] flows_val period nest flow_total_def)
qed

lemma warnings_not_mismatch: "x \<in> set (snd (net_change A F ds k)) \<Longrightarrow> diag_code x \<noteq> ''fiscal-income-expense-mismatch''"
  by (auto simp: net_change_def Let_def cost_warning_def)

lemma fiscal_validate_val:
  assumes "apd_total A" and "parse_check U A c (span_or_trigger (Some (cus_span c)) tr) = Inr (Inr k)"
  shows "\<exists>diags. fiscal_validate U G A F c all tr = Inr diags \<and>
    (''fiscal-income-expense-mismatch'' \<in> diag_code ` set diags \<longleftrightarrow>
       dval (fc_tolerance k) < \<bar>flow_total all k - dval (fc_expected k)\<bar>)"
proof -
  obtain actual warnings where n: "net_change A F all k = (actual, warnings)" by fastforce
  obtain diff where d: "apd_sub A actual (fc_expected k) = Inr diff" using apd_total.sub_total [OF assms(1)] by blast
  obtain mag where m: "apd_abs A diff = Inr mag" using apd_total.abs_total [OF assms(1)] by blast
  note exact = apd_total.axioms(1) [OF assms(1)]
  have "dval actual = flow_total all k" using net_change_val [OF assms(1), of F all k] n by simp
  then have mag: "dval mag = \<bar>flow_total all k - dval (fc_expected k)\<bar>"
    using apd_exact.sub_val [OF exact d] apd_exact.abs_val [OF exact m] by simp
  have w: "''fiscal-income-expense-mismatch'' \<notin> diag_code ` set warnings"
    using warnings_not_mismatch [of _ A F all k] n by fastforce
  show ?thesis
    using assms(2) n d m mag w apd_exact.cmp_greater [OF exact, of mag "fc_tolerance k"]
    by (auto simp: fiscal_validate_def Let_def)
qed

lemma fiscal_loop_val:
  assumes "fiscal_loop U G A F all tr ds = Inr (out, diags)"
  shows "out = filter (\<lambda>d. \<not> is_fiscal d) ds \<and>
    (\<forall>c. DCustom c \<in> set ds \<and> is_fiscal (DCustom c) \<longrightarrow>
      (\<exists>new. fiscal_validate U G A F c all tr = Inr new \<and> set new \<subseteq> set diags))"
  using assms
proof (induction ds arbitrary: out diags)
  case (Cons d ds)
  show ?case
  proof (cases "\<exists>c. d = DCustom c \<and> is_fiscal d")
    case True
    then obtain c where c: "d = DCustom c" "is_fiscal d" by blast
    with Cons.prems obtain new out1 diags1 where "fiscal_validate U G A F c all tr = Inr new"
      "fiscal_loop U G A F all tr ds = Inr (out1, diags1)" "out = out1" "diags = new @ diags1" by auto
    with Cons.IH c show ?thesis by fastforce
  next
    case False
    then have no: "\<not> is_fiscal d" by (cases d) auto
    with Cons.prems obtain out1 where "fiscal_loop U G A F all tr ds = Inr (out1, diags)" "out = d # out1"
      by (cases d) auto
    with Cons.IH no show ?thesis by auto
  qed
qed simp

text \<open>C40 \<open>fiscalincomeexpense\<close> removes exactly its own directives, and reports a mismatch for a well-formed
  one exactly if what the transactions of its period post to its account and the accounts below, in its
  currency, differs from the expected number by more than the tolerance.\<close>

theorem fiscal_income_expense_exact:
  assumes "apd_total A" and "fiscal_income_expense U G A F inp = Inr r" and "in_directives inp = Some ds"
  shows "output_of r ds = filter (\<lambda>d. \<not> is_fiscal d) ds \<and>
    (\<forall>c k. DCustom c \<in> set ds \<and> is_fiscal (DCustom c) \<and>
       parse_check U A c (span_or_trigger (Some (cus_span c)) (in_directive inp)) = Inr (Inr k) \<longrightarrow>
       (\<exists>new. fiscal_validate U G A F c ds (in_directive inp) = Inr new \<and> set new \<subseteq> set (res_diags r) \<and>
         (''fiscal-income-expense-mismatch'' \<in> diag_code ` set new \<longleftrightarrow>
           dval (fc_tolerance k) < \<bar>flow_total ds k - dval (fc_expected k)\<bar>)))"
proof (cases "ds = []")
  case True
  with assms show ?thesis by (auto simp: fiscal_income_expense_def output_of_def no_change_def)
next
  case False
  with assms obtain out where l: "fiscal_loop U G A F ds (in_directive inp) ds = Inr (out, res_diags r)"
    and r: "res_directives r = Some out" by (auto simp: fiscal_income_expense_def)
  note v = fiscal_loop_val [OF l]
  then have "output_of r ds = filter (\<lambda>d. \<not> is_fiscal d) ds" using r by (simp add: output_of_def)
  moreover have "\<exists>new. fiscal_validate U G A F c ds (in_directive inp) = Inr new \<and> set new \<subseteq> set (res_diags r) \<and>
         (''fiscal-income-expense-mismatch'' \<in> diag_code ` set new \<longleftrightarrow>
           dval (fc_tolerance k) < \<bar>flow_total ds k - dval (fc_expected k)\<bar>)"
    if c: "DCustom c \<in> set ds" "is_fiscal (DCustom c)"
      "parse_check U A c (span_or_trigger (Some (cus_span c)) (in_directive inp)) = Inr (Inr k)" for c k
    using v c(1,2) fiscal_validate_val [OF assms(1) c(3), of G F ds] by fastforce
  ultimately show ?thesis by blast
qed

definition ex_fiscal :: custom_dir where
  "ex_fiscal = ex_custom 100 ''fiscal_income_expense''
     [meta_string MetaAccount ''A'', (mk_meta MetaAmount)\<lparr>mv_amount := the (ex_amt 7 ''USD'')\<rparr>]"

definition ex_fiscal_check :: fiscal_check where
  "ex_fiscal_check = \<lparr>fc_account = ''A'', fc_begin = 0, fc_end = 100, fc_expected = of_whole 7, fc_currency = ''USD'',
     fc_tolerance = half\<rparr>"

lemma ex_fiscal_parsed: "parse_check ex_unicode gda ex_fiscal sp = Inr (Inr ex_fiscal_check)"
proof -
  have "days_from_civil (fst (civil 100)) 1 1 = 0" by code_simp
  moreover have "d_exp (of_whole 7) = 0" by (simp add: of_whole_def)
  ultimately show ?thesis
    by (simp add: parse_check_def ex_fiscal_def ex_custom_def account_parameter_def meta_string_def mk_meta_def
        fiscal_period_def parse_expected_def ex_amt_def inferred_tolerance_def ex_fiscal_check_def)
qed

theorem fiscal_income_expense_exact_witness:
  "\<exists>r. fiscal_income_expense ex_unicode (\<lambda>_. []) gda (\<lambda>s n. s) (ex_input [ex_move ''A'' ''B'' 5, DCustom ex_fiscal]) = Inr r \<and>
    output_of r [ex_move ''A'' ''B'' 5, DCustom ex_fiscal] = [ex_move ''A'' ''B'' 5] \<and>
    ''fiscal-income-expense-mismatch'' \<in> diag_code ` set (res_diags r)"
proof -
  let ?ds = "[ex_move ''A'' ''B'' 5, DCustom ex_fiscal]"
  let ?inp = "ex_input ?ds"
  obtain new where "fiscal_validate ex_unicode (\<lambda>_. []) gda (\<lambda>s n. s) ex_fiscal ?ds None = Inr new"
    using fiscal_validate_val [OF gda.apd_total_axioms ex_fiscal_parsed] by blast
  then obtain r where r: "fiscal_income_expense ex_unicode (\<lambda>_. []) gda (\<lambda>s n. s) ?inp = Inr r"
    by (simp add: fiscal_income_expense_def ex_input_def ex_move_def ex_fiscal_def ex_custom_def)
  have total: "flow_total ?ds ex_fiscal_check = 5"
  proof -
    have "covers ''A'' ''A''" "\<not> covers ''A'' ''B''" "dval (of_whole 5) = 5" by code_simp+
    then show ?thesis
      by (simp add: flow_total_def ex_move_def ex_txn_def ex_posting_def ex_amt_def ex_fiscal_check_def)
  qed
  have "dval half = 1 / 2" "dval (of_whole 7) = 7" by code_simp+
  then have "dval (fc_tolerance ex_fiscal_check) < \<bar>flow_total ?ds ex_fiscal_check - dval (fc_expected ex_fiscal_check)\<bar>"
    unfolding total by (simp add: ex_fiscal_check_def)
  moreover have own: "DCustom ex_fiscal \<in> set ?ds" "is_fiscal (DCustom ex_fiscal)" "\<not> is_fiscal (ex_move ''A'' ''B'' 5)"
    by (simp_all add: ex_fiscal_def ex_custom_def ex_move_def)
  note exact = fiscal_income_expense_exact [OF gda.apd_total_axioms r ex_input_directives(1)]
  ultimately obtain new where "set new \<subseteq> set (res_diags r)" "''fiscal-income-expense-mismatch'' \<in> diag_code ` set new"
    using conjunct2 [OF exact, rule_format, OF conjI [OF own(1) conjI [OF own(2) ex_fiscal_parsed]]] by blast
  then have "''fiscal-income-expense-mismatch'' \<in> diag_code ` set (res_diags r)" by blast
  moreover have "output_of r ?ds = [ex_move ''A'' ''B'' 5]" using exact own by simp
  ultimately show ?thesis using r by (intro exI [of _ r] conjI)
qed

end
