(* ===== verification/Spec2Isabelle.thy ===== *)
theory Spec2Isabelle
  imports Ast_Contract Pipeline_Contract Syntax_Contract Lowering_Contract Lowering_Values Std_Contract Sale_Contract Sprout_Customs
begin

text \<open>
  A verification library of go-beancount, a Go implementation of the double-entry bookkeeping language
  beancount (module \<open>github.com/yugui/go-beancount\<close>, the paths below are under \<open>src/pkg\<close>).

  The program. The text of a ledger is scanned and parsed into a syntax tree that loses nothing
  (\<open>syntax\<close>), which is lowered to directives with their positions and diagnostics (\<open>ast/lower.go\<close>) and
  kept in a sorted list (\<open>ast/ledger.go\<close>). The loader (\<open>loader\<close>) then runs plugins over it: the
  registered ones that the ledger names (\<open>ext/postproc\<close>), and those built in. The booking pass
  (\<open>inventory\<close>) walks the transactions in order, keeps an inventory of lots for each account, matches
  reductions with lots, completes amounts and costs that were left out, and writes the result back into
  the postings. \<open>validation/pad\<close> inserts transactions, \<open>validation/balance\<close> checks assertions, and
  \<open>validation/validations\<close> checks accounts, currencies and the balance of transactions within the
  tolerances of \<open>validation/tolerance\<close>. Options come from the directives themselves (\<open>ast/optvalues.go\<close>).

  Theories and code.

  \<^item> \<open>Prelude\<close>: results (\<open>go_error\<close> is a panic or a Go error; \<open>'a result\<close> is a value or one of these),
    \<open>rbind\<close> and its rules, lookups that panic, sorting, and the locale \<open>comparator\<close> of three-way
    comparisons with the facts of sorting and searching under it.
  \<^item> \<open>Decimal\<close>, \<open>Gda\<close>: \<open>apd.Decimal\<close> as a record of sign, coefficient and exponent with its rational
    value \<open>dval\<close>; the third-party arithmetic of \<open>apd\<close> as a record of functions that every definition
    takes; the locales \<open>apd_exact\<close> (an operation that succeeds is exact, as documented for the contexts
    used) and \<open>apd_total\<close> (the basic ones succeed); and \<open>gda\<close>, exact decimal arithmetic, which
    interprets both.
  \<^item> \<open>Ast\<close>, \<open>Options\<close>, \<open>Account\<close>, \<open>Ledger\<close>: the data of \<open>ast\<close>.
  \<^item> \<open>Scanner\<close>, \<open>Cst\<close>, \<open>Parser\<close>: \<open>syntax\<close>. A text is a list of bytes; the classes of package \<open>unicode\<close>
    are the argument \<open>U\<close>, from a rune to its general category. Productions are functions on the parser's
    state and compose with \<open>steps\<close>; the error recovery is part of them. \<open>Grammar\<close> is the ledger grammar
    as inductive sets of trees and token sequences, apart from the parser.
  \<^item> \<open>Dates\<close>, \<open>Lower\<close>, \<open>Lowering\<close>: \<open>ast/lower.go\<close>, bottom up: the calendar and layouts of dates,
    positions, quoting, arithmetic on number nodes; then the handlers, which thread the lowerer (its
    diagnostics, its tag stack).
  \<^item> \<open>Costs\<close>, \<open>Lots\<close>, \<open>Inventory\<close>, \<open>Reduction\<close>, \<open>Booking\<close>: costs and their getters, lots, matchers,
    weights, \<open>Add\<close>, \<open>Reduce\<close>, and the booking of one posting with its realized gain.
  \<^item> \<open>Resolution\<close>, \<open>Reducer\<close>: \<open>reducer.go\<close>. The state trace of a visit, the posting resolution, the two
    passes of \<open>visitTxn\<close>, rollback, and \<open>Walk\<close>, \<open>Run\<close>, \<open>Final\<close> and \<open>Inspect\<close> with a visitor as a
    function on a state of its own. A \<open>*Inventory\<close> in the map of accounts is the inventory itself; where
    the code edits the caller's postings in place, the walk returns the edited input.
  \<^item> \<open>Account_State\<close>, \<open>Tolerance\<close>, \<open>Validators\<close>: \<open>accountstate\<close>, \<open>tolerance\<close>, \<open>validations\<close>.
  \<^item> \<open>Running_Balance\<close>, \<open>Balance_Check\<close>, \<open>Pad\<close>: the two plugins. Their maps that are ranged over or
    whose buckets are decimals edited in place are association lists.
  \<^item> \<open>Loader\<close>: the plugin interface, the registry, the runner and the pipeline; a plugin is a function from
    its input to a result, the document plugin is an argument. \<open>Pipeline\<close> has its facts.
  \<^item> \<open>Std_Accounts\<close>, \<open>Std_Checks\<close>: the plugins of \<open>ext/postproc/std\<close>. The text of a decimal \<open>G\<close>, regular
    expressions \<open>R\<close> and JSON \<open>J\<close> are arguments.
  \<^item> \<open>Sprout_Checks\<close>, \<open>Sprout_Edits\<close>: the plugins of \<open>ext/postproc/sprout\<close> that report and those that edit
    the ledger, and \<open>std/sellgains\<close>. Lower case \<open>L\<close>, the YAML files \<open>Y\<close> and what a failed decimal addition
    leaves in its destination (\<open>F\<close>) are arguments.

  Lemmas. \<open>Scanner_Facts\<close>, \<open>Parser_Runs\<close> and \<open>Parser_Facts\<close> show that scanning and parsing lose no byte;
  \<open>Grammar_Sound\<close> that silent parses are in the grammar; \<open>Runes\<close> and \<open>Account_Names\<close> relate the scanner's
  words to the validity of names; \<open>Lexemes\<close> has the text of each kind of token. \<open>Lowering_Facts\<close> and
  \<open>Lowering_Steps\<close> follow the handlers: each yields a directive or says why not. \<open>Resolution_Facts\<close> and
  \<open>Visit_Safety\<close> show that no index, pointer or assertion fails in a
  visit; \<open>Visit_State\<close> carries invariants of inventories through it (locale \<open>inventory_invariant\<close>, a
  predicate kept by \<open>Add\<close> and \<open>Reduce\<close>) and describes the views; \<open>Walks\<close> lifts both to walks and
  relates \<open>Inspect\<close> to a recording visitor; \<open>Visit_Findings\<close> has the codes of all findings; \<open>Balancing\<close>
  the sums of weights; \<open>Reversal\<close> the undoing of bookings; \<open>Pad_Balance\<close> and \<open>Pad_Report\<close> what the pad
  plugin does to the units of its accounts and what it reports; \<open>Std_Facts\<close> the uses of accounts. The
  properties of the manifest and their concrete runs are in the theories \<open>*_Contract\<close>,
  \<open>Lowering_Values\<close> and \<open>Sprout_Customs\<close>; runs evaluate the definitions on \<open>gda\<close> inside the kernel.

  Bounds. No definition has fuel: the loops recurse over lists, the binary search of the ledger and the
  recursive descent have termination proofs (the parser consumes a token or stops), and the loops of the
  parser are \<open>while\<close> loops that are shown to end. Exponents and coefficients are unbounded; \<open>apd\<close> bounds
  them near two to the thirty-first, which is why \<open>apd_total\<close> is a hypothesis and not part of
  \<open>apd_exact\<close>.

  Not modelled. Reading files, included files and globs; the command-line tools, the language server and
  the session; importers, queries, quotes and distribution; printing and formatting; the sprout
  plugins \<open>pricecompletion\<close> (shortest paths with floating-point weights in the order of a map) and
  \<open>print\<close>; Go plugins loaded at run time; the document plugin, which asks the file system;
  cancellation of contexts. Maps whose iteration order does not matter are functions; where the code
  ranges over a map the model takes the order of insertion, and the sums that are proved do not depend on
  it.
\<close>

end
